(* ===== verification/Prelude.thy ===== *)
theory Prelude
  imports Complex_Main "HOL-Library.Word" "HOL-Library.Signed_Division"
begin

unbundle bit_operations_syntax

text \<open>
  What the components share: the machine integers of the C code, its memory
  primitives on arrays, and the collections of hints the proofs draw on.

  Unsigned integers are words (\<open>8 word\<close> for \<open>uint8_t\<close> and so on), which wrap as
  C's do; \<open>uint\<close> is the promotion of one to \<open>int\<close>. Signed integers are \<open>int\<close>
  with every store into a narrower type written out by a cast (\<open>i8\<close>, \<open>i16\<close>,
  \<open>i32\<close>, \<open>i64\<close>): the value modulo the width, read as two's complement.
  Undefined behaviour (a null dereference, a read outside an array, a pointer kept
  after its block was freed) is the value \<open>None\<close> of an option type.
\<close>

named_theorems c_simps \<open>definitions of casts, byte splitting and other C primitives\<close>
named_theorems cast_ids \<open>casts that change nothing for a value in range\<close>
named_theorems inv_intros \<open>introduction rules for the invariants of the components\<close>

section \<open>Casts to signed integers\<close>

definition sx :: "nat \<Rightarrow> int \<Rightarrow> int" where
  "sx n x = (x + 2 ^ (n - 1)) mod 2 ^ n - 2 ^ (n - 1)"

abbreviation i8 :: "int \<Rightarrow> int" where
  "i8 \<equiv> sx 8"

abbreviation i16 :: "int \<Rightarrow> int" where
  "i16 \<equiv> sx 16"

abbreviation i32 :: "int \<Rightarrow> int" where
  "i32 \<equiv> sx 32"

abbreviation i64 :: "int \<Rightarrow> int" where
  "i64 \<equiv> sx 64"

definition in_sx :: "nat \<Rightarrow> int \<Rightarrow> bool" where
  "in_sx n x \<longleftrightarrow> - (2 ^ (n - 1)) \<le> x \<and> x < 2 ^ (n - 1)"

lemma two_pow_split: "0 < n \<Longrightarrow> (2::int) ^ n = 2 ^ (n - 1) + 2 ^ (n - 1)"
  by (cases n) simp_all

lemma sx_id [cast_ids]: "0 < n \<Longrightarrow> in_sx n x \<Longrightarrow> sx n x = x"
  using two_pow_split [of n] by (simp add: sx_def in_sx_def)

lemma sx_nonneg: "0 < n \<Longrightarrow> 0 \<le> x \<Longrightarrow> x < 2 ^ (n - 1) \<Longrightarrow> sx n x = x"
  by (rule sx_id) (auto simp: in_sx_def intro: order_trans [of _ 0])

lemma in_sx_sx [simp]: "0 < n \<Longrightarrow> in_sx n (sx n x)"
  using two_pow_split [of n] pos_mod_bound [of "2 ^ n" "x + 2 ^ (n - 1)"]
    pos_mod_sign [of "2 ^ n" "x + 2 ^ (n - 1)"]
  by (simp add: sx_def in_sx_def)

lemma sx_8: "sx 8 x = (x + 128) mod 256 - 128"
  by (simp add: sx_def)

lemma sx_16: "sx 16 x = (x + 32768) mod 65536 - 32768"
  by (simp add: sx_def)

lemma sx_32: "sx 32 x = (x + 2147483648) mod 4294967296 - 2147483648"
  by (simp add: sx_def)

lemma sx_64: "sx 64 x = (x + 9223372036854775808) mod 18446744073709551616 - 9223372036854775808"
  by (simp add: sx_def)

lemmas sx_eqs = sx_8 sx_16 sx_32 sx_64

lemma in_sx_8: "in_sx 8 x \<longleftrightarrow> -128 \<le> x \<and> x < 128"
  by (simp add: in_sx_def)

lemma in_sx_16: "in_sx 16 x \<longleftrightarrow> -32768 \<le> x \<and> x < 32768"
  by (simp add: in_sx_def)

lemma in_sx_32: "in_sx 32 x \<longleftrightarrow> -2147483648 \<le> x \<and> x < 2147483648"
  by (simp add: in_sx_def)

lemma in_sx_64: "in_sx 64 x \<longleftrightarrow> -9223372036854775808 \<le> x \<and> x < 9223372036854775808"
  by (simp add: in_sx_def)

lemmas in_sx_eqs = in_sx_8 in_sx_16 in_sx_32 in_sx_64

lemma i8_id [cast_ids]: "-128 \<le> x \<Longrightarrow> x < 128 \<Longrightarrow> i8 x = x"
  by (simp add: sx_8)

lemma i16_id [cast_ids]: "-32768 \<le> x \<Longrightarrow> x < 32768 \<Longrightarrow> i16 x = x"
  by (simp add: sx_16)

lemma i32_id [cast_ids]: "-2147483648 \<le> x \<Longrightarrow> x < 2147483648 \<Longrightarrow> i32 x = x"
  by (simp add: sx_32)

lemma i64_id [cast_ids]:
  "-9223372036854775808 \<le> x \<Longrightarrow> x < 9223372036854775808 \<Longrightarrow> i64 x = x"
  by (simp add: sx_64)

lemma mod_wrap:
  fixes x m :: int
  assumes "- m \<le> x" "x < m"
  shows "x mod m = (if x < 0 then x + m else x)"
proof (cases "x < 0")
  case True
  have "x mod m = (x + m) mod m"
    by simp
  also have "\<dots> = x + m"
    using True assms by (intro mod_pos_pos_trivial) simp_all
  finally show ?thesis
    using True by simp
next
  case False
  with assms show ?thesis by simp
qed

lemma mod_wrap_once:
  fixes x m :: int
  assumes "0 \<le> x" "x < 2 * m"
  shows "x mod m = (if x < m then x else x - m)"
proof (cases "x < m")
  case False
  have "x mod m = (x - m) mod m"
    by simp
  also have "\<dots> = x - m"
    using False assms by (intro mod_pos_pos_trivial) simp_all
  finally show ?thesis
    using False by simp
qed (use assms in simp)

section \<open>C division\<close>

text \<open>Division of signed integers drops the fraction: it is \<open>sdiv\<close> of the library.\<close>

lemma sdiv_pos [simp]: "0 \<le> a \<Longrightarrow> 0 \<le> b \<Longrightarrow> a sdiv b = a div (b::int)"
  by (cases "a = 0"; cases "b = 0") (simp_all add: signed_divide_int_def)

lemma sdiv_minus_left: "(- a) sdiv b = - (a sdiv (b::int))"
  by (simp add: signed_divide_int_def sgn_minus)

lemma sdiv_minus_right: "a sdiv (- b) = - (a sdiv (b::int))"
  by (simp add: signed_divide_int_def sgn_minus)

section \<open>Masks\<close>

text \<open>
  The containers reduce an index by \<open>& (capacity - 1)\<close> with a capacity that is a power
  of two; on \<open>int\<close> that is the remainder, for negative operands as well.
\<close>

definition pow2 :: "int \<Rightarrow> bool" where
  "pow2 c \<longleftrightarrow> 0 < c \<and> c AND (c - 1) = 0"

lemma and_pow2_mask: "(x::int) AND (2 ^ k - 1) = x mod 2 ^ k"
  by (metis mask_eq_exp_minus_1 take_bit_eq_mask take_bit_eq_mod)

lemma pow2_power [simp]: "pow2 (2 ^ k)"
  by (simp add: pow2_def and_pow2_mask)

section \<open>Arrays\<close>

text \<open>
  \<open>memmove\<close> inside one array: \<open>n\<close> elements from index \<open>src\<close> to index \<open>dst\<close>.
  A request of zero or fewer elements copies nothing.
\<close>

definition memmove :: "int \<Rightarrow> int \<Rightarrow> int \<Rightarrow> 'a list \<Rightarrow> 'a list" where
  "memmove dst src n xs =
     take (nat dst) xs @ take (nat n) (drop (nat src) xs) @ drop (nat dst + nat n) xs"

text \<open>
  \<open>realloc\<close> of an array to \<open>n\<close> elements: the common prefix is kept and the new cells hold
  whatever the allocator left there, an arbitrary \<open>u\<close>.
\<close>

definition realloc_data :: "(nat \<Rightarrow> 'a) \<Rightarrow> int \<Rightarrow> 'a list \<Rightarrow> 'a list" where
  "realloc_data u n xs = take (nat n) xs @ map u [length xs ..< nat n]"

lemma memmove_nat:
  "memmove (int d) (int s) (int m) xs = take d xs @ take m (drop s xs) @ drop (d + m) xs"
  by (simp add: memmove_def)

lemma length_memmove [simp]:
  assumes "0 \<le> dst" "0 \<le> src" "0 \<le> n" "dst + n \<le> int (length xs)" "src + n \<le> int (length xs)"
  shows "length (memmove dst src n xs) = length xs"
proof -
  obtain d s m where e: "dst = int d" "src = int s" "n = int m"
    using assms(1-3) by (metis nonneg_int_cases)
  have "d + m \<le> length xs" "s + m \<le> length xs"
    using assms(4,5) by (simp_all add: e)
  then show ?thesis
    by (simp add: e memmove_nat)
qed

lemma nth_memmove:
  assumes "0 \<le> dst" "0 \<le> src" "0 \<le> n" "dst + n \<le> int (length xs)" "src + n \<le> int (length xs)"
    and "i < length xs"
  shows "memmove dst src n xs ! i =
    (if dst \<le> int i \<and> int i < dst + n then xs ! nat (src + (int i - dst)) else xs ! i)"
proof -
  obtain d s m where e: "dst = int d" "src = int s" "n = int m"
    using assms(1-3) by (metis nonneg_int_cases)
  have le: "d + m \<le> length xs" "s + m \<le> length xs"
    using assms(4,5) by (simp_all add: e)
  have idx: "nat (int s + (int i - int d)) = s + (i - d)" if "d \<le> i"
    using that by linarith
  show ?thesis
    unfolding e memmove_nat using le assms(6)
    by (auto simp: nth_append idx min_absorb1 min_absorb2)
qed

lemma take_append_exact: "length A = m \<Longrightarrow> take m (A @ B) = A"
  by simp

lemma length_realloc_data [simp]: "length (realloc_data u n xs) = nat n"
  by (simp add: realloc_data_def)

lemma nth_realloc_data:
  "i < length xs \<Longrightarrow> i < nat n \<Longrightarrow> realloc_data u n xs ! i = xs ! i"
  by (simp add: realloc_data_def nth_append)

lemma take_realloc_data:
  "k \<le> length xs \<Longrightarrow> k \<le> nat n \<Longrightarrow> take k (realloc_data u n xs) = take k xs"
  by (simp add: realloc_data_def)

section \<open>Conversion of a floating point number to an integer\<close>

text \<open>
  The code's doubles carry fixed point numbers divided by a power of two, which a double
  holds exactly; they are real numbers here, and the conversion drops the fraction.
\<close>

definition ctrunc :: "real \<Rightarrow> int" where
  "ctrunc x = (if 0 \<le> x then \<lfloor>x\<rfloor> else \<lceil>x\<rceil>)"

lemma ctrunc_of_int [simp]: "ctrunc (of_int n) = n"
  by (simp add: ctrunc_def)

lemma ctrunc_0 [simp]: "ctrunc 0 = 0"
  by (simp add: ctrunc_def)

lemma ctrunc_numeral [simp]: "ctrunc (numeral n) = numeral n"
  by (simp add: ctrunc_def)

lemma ctrunc_bounds: "\<bar>x\<bar> \<le> of_int b \<Longrightarrow> \<bar>ctrunc x\<bar> \<le> b"
  by (auto simp: ctrunc_def abs_le_iff le_floor_iff ceiling_le_iff floor_le_iff le_ceiling_iff)
     linarith+

end
