(* ===== verification/Contracts.thy ===== *)
theory Contracts
  imports Prelude
begin

text \<open>
  The interfaces between the containers and their users, as locales over abstract
  operations: sequences that grow, queues, and maps from keys to values. The containers
  interpret them on their own operations; the users' lemmas are proved here once.
\<close>

section \<open>Sequences that grow at the end\<close>

text \<open>
  Appending either succeeds (status 0) or, when there is no room, fails (status -1) and
  changes nothing.
\<close>

locale growable =
  fixes valid :: "'q \<Rightarrow> bool" and items :: "'q \<Rightarrow> 'a list"
    and room :: "'q \<Rightarrow> bool" and push :: "'q \<Rightarrow> 'a \<Rightarrow> int \<times> 'q"
  assumes push_room: "valid q \<Longrightarrow> room q \<Longrightarrow>
      \<exists>q'. push q x = (0, q') \<and> valid q' \<and> items q' = items q @ [x]"
    and push_full: "valid q \<Longrightarrow> \<not> room q \<Longrightarrow> push q x = (-1, q)"
begin

lemma push_valid: "valid q \<Longrightarrow> valid (snd (push q x))"
  using push_room [of q x] push_full [of q x] by (cases "room q") auto

lemma push_items:
  "valid q \<Longrightarrow> items (snd (push q x)) = (if room q then items q @ [x] else items q)"
  using push_room [of q x] push_full [of q x] by (cases "room q") auto

lemma push_status: "valid q \<Longrightarrow> fst (push q x) = (if room q then 0 else -1)"
  using push_room [of q x] push_full [of q x] by (cases "room q") auto

end

section \<open>Queues\<close>

primrec drain :: "('q \<Rightarrow> ('a \<times> 'q) option) \<Rightarrow> nat \<Rightarrow> 'q \<Rightarrow> 'q option" where
  "drain pop 0 q = Some q"
| "drain pop (Suc n) q = (case pop q of None \<Rightarrow> None | Some (x, q') \<Rightarrow> drain pop n q')"

locale fifo = growable valid items room push
  for valid :: "'q \<Rightarrow> bool" and items :: "'q \<Rightarrow> 'a list"
    and room :: "'q \<Rightarrow> bool" and push :: "'q \<Rightarrow> 'a \<Rightarrow> int \<times> 'q" +
  fixes size :: "'q \<Rightarrow> int" and pop popw :: "'q \<Rightarrow> ('a \<times> 'q) option"
  assumes size_items: "valid q \<Longrightarrow> size q = int (length (items q))"
    and pop_items: "valid q \<Longrightarrow> items q \<noteq> [] \<Longrightarrow>
      \<exists>q'. pop q = Some (hd (items q), q') \<and> valid q' \<and> items q' = tl (items q)"
    and popw_items: "valid q \<Longrightarrow> items q \<noteq> [] \<Longrightarrow>
      \<exists>q'. popw q = Some (last (items q), q') \<and> valid q' \<and> items q' = butlast (items q)"
begin

lemma size_pos_iff: "valid q \<Longrightarrow> 0 < size q \<longleftrightarrow> items q \<noteq> []"
  by (simp add: size_items)

lemma size_0_iff: "valid q \<Longrightarrow> size q = 0 \<longleftrightarrow> items q = []"
  by (simp add: size_items)

lemma push_pop:
  assumes "valid q" "room q" "items q = []"
  shows "\<exists>q'. pop (snd (push q x)) = Some (x, q') \<and> valid q' \<and> items q' = []"
  using pop_items [of "snd (push q x)"] assms by (simp add: push_valid push_items)

lemma push_popw:
  assumes "valid q" "room q"
  shows "\<exists>q'. popw (snd (push q x)) = Some (x, q') \<and> valid q' \<and> items q' = items q"
  using popw_items [of "snd (push q x)"] assms by (simp add: push_valid push_items)

lemma drain_items:
  "valid q \<Longrightarrow> n \<le> length (items q) \<Longrightarrow>
   \<exists>q'. drain pop n q = Some q' \<and> valid q' \<and> items q' = drop n (items q)"
proof (induction n arbitrary: q)
  case 0
  then show ?case by simp
next
  case (Suc n)
  then have "items q \<noteq> []"
    by auto
  with Suc.prems(1) obtain q1 where
    q1: "pop q = Some (hd (items q), q1)" "valid q1" "items q1 = tl (items q)"
    using pop_items by blast
  then show ?case
    using Suc.IH [of q1] Suc.prems by (simp add: drop_Suc)
qed

end

section \<open>Maps\<close>

text \<open>
  A container of keys and values seen as a partial map. \<open>insert_new\<close> reports whether the
  key was new and changes nothing when it was not or when there is no room; \<open>insert_update\<close>
  also overwrites; \<open>erase\<close> removes a key if it is there.
\<close>

datatype ins_status = Oom | Exists | New

text \<open>
  What every map promises: a new key is added when there is room, and erasing removes a key.
\<close>

locale lookup_store =
  fixes valid :: "'m \<Rightarrow> bool" and room :: "'m \<Rightarrow> bool"
    and lookup :: "'m \<Rightarrow> 'k \<Rightarrow> 'v option"
    and insert_new :: "'m \<Rightarrow> 'k \<Rightarrow> 'v \<Rightarrow> ins_status \<times> 'm"
    and erase :: "'m \<Rightarrow> 'k \<Rightarrow> bool \<times> 'm"
  assumes insert_new_new: "valid m \<Longrightarrow> room m \<Longrightarrow> lookup m k = None \<Longrightarrow>
      \<exists>m'. insert_new m k v = (New, m') \<and> valid m' \<and> lookup m' = (lookup m)(k \<mapsto> v)"
    and erase_lookup: "valid m \<Longrightarrow>
      \<exists>m'. erase m k = (lookup m k \<noteq> None, m') \<and> valid m' \<and> lookup m' = (lookup m)(k := None)"
begin

lemma erase_valid: "valid m \<Longrightarrow> valid (snd (erase m k))"
  using erase_lookup [of m k] by auto

lemma erase_frame: "valid m \<Longrightarrow> k' \<noteq> k \<Longrightarrow> lookup (snd (erase m k)) k' = lookup m k'"
  using erase_lookup [of m k] by auto

lemma erase_gone: "valid m \<Longrightarrow> lookup (snd (erase m k)) k = None"
  using erase_lookup [of m k] by auto

lemma insert_found:
  assumes "valid m" "room m" "lookup m k = None"
  shows "lookup (snd (insert_new m k v)) k = Some v"
    and "k' \<noteq> k \<Longrightarrow> lookup (snd (insert_new m k v)) k' = lookup m k'"
    and "valid (snd (insert_new m k v))"
  using insert_new_new [OF assms, of v] by auto

text \<open>Removing a key that was just added restores the map.\<close>

lemma insert_erase:
  assumes "valid m" "room m" "lookup m k = None"
  shows "lookup (snd (erase (snd (insert_new m k v)) k)) = lookup m"
proof -
  obtain m' where m': "insert_new m k v = (New, m')" "valid m'" "lookup m' = (lookup m)(k \<mapsto> v)"
    using insert_new_new [OF assms, of v] by blast
  show ?thesis
    using erase_lookup [OF m'(2), of k] m'(1,3) assms(3) by auto
qed

end

text \<open>The map that also tells the reasons for not adding a key, and overwrites.\<close>

locale kv_store = lookup_store valid room lookup insert_new erase
  for valid :: "'m \<Rightarrow> bool" and room :: "'m \<Rightarrow> bool"
    and lookup :: "'m \<Rightarrow> 'k \<Rightarrow> 'v option"
    and insert_new :: "'m \<Rightarrow> 'k \<Rightarrow> 'v \<Rightarrow> ins_status \<times> 'm"
    and erase :: "'m \<Rightarrow> 'k \<Rightarrow> bool \<times> 'm" +
  fixes insert_update :: "'m \<Rightarrow> 'k \<Rightarrow> 'v \<Rightarrow> ins_status \<times> 'm"
  assumes insert_new_oom: "valid m \<Longrightarrow> \<not> room m \<Longrightarrow> lookup m k = None \<Longrightarrow>
      insert_new m k v = (Oom, m)"
    and insert_new_exists: "valid m \<Longrightarrow> lookup m k \<noteq> None \<Longrightarrow> insert_new m k v = (Exists, m)"
    and insert_update_new: "valid m \<Longrightarrow> lookup m k = None \<Longrightarrow> insert_update m k v = insert_new m k v"
    and insert_update_exists: "valid m \<Longrightarrow> lookup m k \<noteq> None \<Longrightarrow>
      \<exists>m'. insert_update m k v = (Exists, m') \<and> valid m' \<and> lookup m' = (lookup m)(k \<mapsto> v)"
begin

lemma insert_new_valid: "valid m \<Longrightarrow> valid (snd (insert_new m k v))"
  using insert_new_new [of m k v] insert_new_oom [of m k v] insert_new_exists [of m k v]
  by (cases "lookup m k"; cases "room m") auto

lemma insert_new_lookup:
  "valid m \<Longrightarrow> lookup (snd (insert_new m k v)) =
     (if lookup m k = None \<and> room m then (lookup m)(k \<mapsto> v) else lookup m)"
  using insert_new_new [of m k v] insert_new_oom [of m k v] insert_new_exists [of m k v]
  by (cases "lookup m k"; cases "room m") auto

lemma insert_new_status:
  "valid m \<Longrightarrow> fst (insert_new m k v) =
     (if lookup m k \<noteq> None then Exists else if room m then New else Oom)"
  using insert_new_new [of m k v] insert_new_oom [of m k v] insert_new_exists [of m k v]
  by (cases "lookup m k"; cases "room m") auto

lemma insert_update_lookup:
  assumes "valid m" "room m \<or> lookup m k \<noteq> None"
  shows "lookup (snd (insert_update m k v)) = (lookup m)(k \<mapsto> v)"
    and "valid (snd (insert_update m k v))"
  using insert_new_new [of m k v] insert_update_new [of m k v] insert_update_exists [of m k v] assms
  by (cases "lookup m k"; auto)+

end

end
