(* ===== verification/Rb.thy ===== *)
theory Rb
  imports Contracts
begin

text \<open>
  The ring buffer (include/clither/rb.h), a macro that generates one type per element
  type and index width. A pointer to a ring buffer is an option (\<open>None\<close> is \<open>NULL\<close>), and
  \<open>bits\<close> is the width of the indices (16 for most instances, 8 for the list of head
  trails). A ring buffer represents the list of its elements from the reading end; the
  contract \<open>fifo\<close> says what its users rely on in terms of that list.
\<close>

record 'a rb =
  rb_read :: int
  rb_write :: int
  rb_capacity :: int
  rb_data :: "'a list"

definition RB_MIN_CAPACITY :: int where
  "RB_MIN_CAPACITY = 16"

section \<open>Queries\<close>

definition rb_count :: "'a rb option \<Rightarrow> int" where
  "rb_count p = (case p of None \<Rightarrow> 0
     | Some rb \<Rightarrow> (rb_write rb - rb_read rb) AND (rb_capacity rb - 1))"

definition rb_space :: "'a rb option \<Rightarrow> int" where
  "rb_space p = (case p of None \<Rightarrow> 0
     | Some rb \<Rightarrow> (rb_read rb - rb_write rb - 1) AND (rb_capacity rb - 1))"

definition rb_is_full :: "'a rb option \<Rightarrow> bool" where
  "rb_is_full p = (case p of None \<Rightarrow> True
     | Some rb \<Rightarrow> (rb_write rb + 1) AND (rb_capacity rb - 1) = rb_read rb)"

definition rb_is_empty :: "'a rb option \<Rightarrow> bool" where
  "rb_is_empty p = (case p of None \<Rightarrow> True | Some rb \<Rightarrow> rb_read rb = rb_write rb)"

definition rb_peek :: "'a rb \<Rightarrow> int \<Rightarrow> 'a" where
  "rb_peek rb idx = rb_data rb ! nat ((rb_read rb + idx) AND (rb_capacity rb - 1))"

definition rb_peek_read :: "'a rb \<Rightarrow> 'a" where
  "rb_peek_read rb = rb_data rb ! nat (rb_read rb)"

definition rb_peek_write :: "'a rb \<Rightarrow> 'a" where
  "rb_peek_write rb = rb_data rb ! nat ((rb_write rb - 1) AND (rb_capacity rb - 1))"

section \<open>Operations\<close>

definition rb_init :: "'a rb option" where
  "rb_init = None"

text \<open>
  \<open>ok\<close> is whether the allocator has the memory; a negative size is a request beyond any
  address space, which it never has. The block that \<open>mem_realloc\<close> returns keeps the
  header and the cells of the old one.
\<close>

definition rb_resize ::
  "nat \<Rightarrow> bool \<Rightarrow> (nat \<Rightarrow> 'a) \<Rightarrow> 'a rb option \<Rightarrow> int \<Rightarrow> int \<times> 'a rb option" where
  "rb_resize bits ok u p elems =
     (if \<not> ok \<or> elems < 0 then (-1, p)
      else
        let rb = (case p of
              None \<Rightarrow> \<lparr>rb_read = 0, rb_write = 0, rb_capacity = 0,
                       rb_data = realloc_data u elems []\<rparr>
            | Some rb \<Rightarrow> rb\<lparr>rb_data := realloc_data u elems (rb_data rb)\<rparr>);
            rb = (if rb_read rb > rb_write rb
                  then rb\<lparr>rb_data := memmove (rb_capacity rb) 0 (rb_write rb) (rb_data rb),
                          rb_write := sx bits (rb_write rb + rb_capacity rb)\<rparr>
                  else rb)
        in (0, Some (rb\<lparr>rb_capacity := elems\<rparr>)))"

definition rb_put :: "'a rb \<Rightarrow> 'a \<Rightarrow> int \<times> 'a rb" where
  "rb_put rb x =
     (let w = rb_write rb
      in if rb_is_full (Some rb) then (-1, rb)
         else (0, rb\<lparr>rb_write := (w + 1) AND (rb_capacity rb - 1),
                     rb_data := (rb_data rb)[nat w := x]\<rparr>))"

definition rb_put_realloc ::
  "nat \<Rightarrow> bool \<Rightarrow> (nat \<Rightarrow> 'a) \<Rightarrow> 'a rb option \<Rightarrow> 'a \<Rightarrow> int \<times> 'a rb option" where
  "rb_put_realloc bits ok u p x =
     (let (r, p) =
        (if p = None \<or> rb_is_full p
         then rb_resize bits ok u p
                (sx bits (case p of Some rb \<Rightarrow> rb_capacity rb * 2 | None \<Rightarrow> RB_MIN_CAPACITY))
         else (0, p))
      in if r \<noteq> 0 then (-1, p)
         else case p of None \<Rightarrow> (-1, p)
           | Some rb \<Rightarrow>
               let w = rb_write rb
               in (0, Some (rb\<lparr>rb_write := (w + 1) AND (rb_capacity rb - 1),
                               rb_data := (rb_data rb)[nat w := x]\<rparr>)))"

text \<open>
  The emplacing operations return the address of the new cell, here its index; the cell
  keeps what it held until the caller writes it.
\<close>

definition rb_emplace :: "'a rb \<Rightarrow> int option \<times> 'a rb" where
  "rb_emplace rb =
     (let w = rb_write rb
      in if rb_is_full (Some rb) then (None, rb)
         else (Some w, rb\<lparr>rb_write := (w + 1) AND (rb_capacity rb - 1)\<rparr>))"

definition rb_emplace_realloc ::
  "nat \<Rightarrow> bool \<Rightarrow> (nat \<Rightarrow> 'a) \<Rightarrow> 'a rb option \<Rightarrow> int option \<times> 'a rb option" where
  "rb_emplace_realloc bits ok u p =
     (let (r, p) =
        (if p = None \<or> rb_is_full p
         then rb_resize bits ok u p
                (sx bits (case p of Some rb \<Rightarrow> rb_capacity rb * 2 | None \<Rightarrow> RB_MIN_CAPACITY))
         else (0, p))
      in if r \<noteq> 0 then (None, p)
         else case p of None \<Rightarrow> (None, p)
           | Some rb \<Rightarrow>
               let w = rb_write rb
               in (Some w, Some (rb\<lparr>rb_write := (w + 1) AND (rb_capacity rb - 1)\<rparr>)))"

text \<open>The caller's write through the address an emplacing operation returned.\<close>

definition rb_store :: "int \<Rightarrow> 'a \<Rightarrow> 'a rb \<Rightarrow> 'a rb" where
  "rb_store w x rb = rb\<lparr>rb_data := (rb_data rb)[nat w := x]\<rparr>"

definition rb_take :: "'a rb \<Rightarrow> 'a \<times> 'a rb" where
  "rb_take rb =
     (let r = rb_read rb; d = rb_data rb ! nat r
      in (d, rb\<lparr>rb_read := (r + 1) AND (rb_capacity rb - 1)\<rparr>))"

definition rb_takew :: "'a rb \<Rightarrow> 'a \<times> 'a rb" where
  "rb_takew rb =
     (let w = (rb_write rb - 1) AND (rb_capacity rb - 1); d = rb_data rb ! nat w
      in (d, rb\<lparr>rb_write := w\<rparr>))"

definition rb_clear :: "'a rb \<Rightarrow> 'a rb" where
  "rb_clear rb = rb\<lparr>rb_read := rb_write rb\<rparr>"

text \<open>
  \<open>rb_for_each\<close> visits the cells from the reading end up to the writing end: the indices
  it passes through. The bound on the steps is the capacity, which a valid ring buffer
  never reaches.
\<close>

fun rb_indices_from :: "nat \<Rightarrow> 'a rb \<Rightarrow> int \<Rightarrow> int list" where
  "rb_indices_from 0 rb i = []"
| "rb_indices_from (Suc n) rb i =
     (if i = rb_write rb then []
      else i # rb_indices_from n rb ((i + 1) AND (rb_capacity rb - 1)))"

definition rb_for_each_indices :: "'a rb option \<Rightarrow> int list" where
  "rb_for_each_indices p = (case p of None \<Rightarrow> []
     | Some rb \<Rightarrow> rb_indices_from (nat (rb_capacity rb)) rb (rb_read rb))"

section \<open>Representation\<close>

definition rb_ok :: "nat \<Rightarrow> 'a rb \<Rightarrow> bool" where
  "rb_ok bits rb \<longleftrightarrow>
     (\<exists>k. rb_capacity rb = 2 ^ k \<and> Suc k < bits) \<and>
     0 \<le> rb_read rb \<and> rb_read rb < rb_capacity rb \<and>
     0 \<le> rb_write rb \<and> rb_write rb < rb_capacity rb \<and>
     int (length (rb_data rb)) = rb_capacity rb"

definition rbp_ok :: "nat \<Rightarrow> 'a rb option \<Rightarrow> bool" where
  "rbp_ok bits p \<longleftrightarrow> (case p of None \<Rightarrow> True | Some rb \<Rightarrow> rb_ok bits rb)"

definition rb_list :: "'a rb \<Rightarrow> 'a list" where
  "rb_list rb = map (\<lambda>i. rb_peek rb (int i)) [0 ..< nat (rb_count (Some rb))]"

definition rbp_list :: "'a rb option \<Rightarrow> 'a list" where
  "rbp_list p = (case p of None \<Rightarrow> [] | Some rb \<Rightarrow> rb_list rb)"


section \<open>Positions on the ring\<close>

lemma ring_pos_inj:
  fixes r c i j :: int
  assumes "(r + i) mod c = (r + j) mod c" "0 \<le> i" "i < c" "0 \<le> j" "j < c"
  shows "i = j"
proof -
  have "(r + i - r) mod c = (r + j - r) mod c"
    using assms(1) by (metis mod_diff_left_eq)
  with assms show ?thesis by simp
qed

lemma ring_count_step:
  fixes r w c :: int
  assumes "0 < c"
  shows "(w + 1 - r) mod c = ((w - r) mod c + 1) mod c"
    and "(w - 1 - r) mod c = ((w - r) mod c - 1) mod c"
    and "(r + (w - r) mod c) mod c = w mod c"
    and "(w - (r + 1)) mod c = ((w - r) mod c - 1) mod c"
    and "(r + ((w - r) mod c - 1)) mod c = (w - 1) mod c"
proof -
  show "(r + ((w - r) mod c - 1)) mod c = (w - 1) mod c"
    using mod_add_right_eq [of "r - 1" "w - r" c] by (simp add: algebra_simps)
qed (simp_all add: mod_simps algebra_simps)

lemma rb_and:
  "rb_ok bits rb \<Longrightarrow> x AND (rb_capacity rb - 1) = x mod rb_capacity rb"
  by (auto simp: rb_ok_def and_pow2_mask)

lemma rb_okD:
  assumes "rb_ok bits rb"
  shows "0 < rb_capacity rb" "0 \<le> rb_read rb" "rb_read rb < rb_capacity rb"
    "0 \<le> rb_write rb" "rb_write rb < rb_capacity rb"
    "int (length (rb_data rb)) = rb_capacity rb"
  using assms by (auto simp: rb_ok_def)

lemma rb_count_mod:
  "rb_ok bits rb \<Longrightarrow> rb_count (Some rb) = (rb_write rb - rb_read rb) mod rb_capacity rb"
  by (simp add: rb_count_def rb_and)

lemma rb_count_bounds:
  "rb_ok bits rb \<Longrightarrow> 0 \<le> rb_count (Some rb)"
  "rb_ok bits rb \<Longrightarrow> rb_count (Some rb) < rb_capacity rb"
  using rb_okD(1) [of bits rb] by (simp_all add: rb_count_mod)

lemma length_rb_list: "length (rb_list rb) = nat (rb_count (Some rb))"
  by (simp add: rb_list_def)

lemma rb_list_nth:
  "rb_ok bits rb \<Longrightarrow> int i < rb_count (Some rb) \<Longrightarrow>
   rb_list rb ! i = rb_data rb ! nat ((rb_read rb + int i) mod rb_capacity rb)"
  by (simp add: rb_list_def rb_peek_def rb_and zless_nat_eq_int_zless)

lemma rb_is_full_iff:
  assumes "rb_ok bits rb"
  shows "rb_is_full (Some rb) \<longleftrightarrow> rb_count (Some rb) = rb_capacity rb - 1"
proof -
  note d = rb_okD [OF assms] and b = rb_count_bounds [OF assms]
  let ?c = "rb_capacity rb" and ?n = "rb_count (Some rb)"
  have w: "rb_write rb = (rb_read rb + ?n) mod ?c"
    using d by (simp add: rb_count_mod [OF assms] ring_count_step(3))
  have full: "rb_is_full (Some rb) \<longleftrightarrow> (rb_read rb + (?n + 1)) mod ?c = (rb_read rb + 0) mod ?c"
    using d by (simp add: rb_is_full_def rb_and [OF assms] mod_pos_pos_trivial)
      (subst w, simp add: mod_simps add.assoc)
  show ?thesis
  proof (cases "?n + 1 < ?c")
    case True
    then show ?thesis
      unfolding full using ring_pos_inj [of "rb_read rb" "?n + 1" ?c 0] b d(1) by auto
  next
    case False
    then have "?n + 1 = ?c"
      using b by simp
    then show ?thesis
      unfolding full using d by simp
  qed
qed

lemma rb_is_empty_iff:
  assumes "rb_ok bits rb"
  shows "rb_is_empty (Some rb) \<longleftrightarrow> rb_list rb = []"
proof -
  note d = rb_okD [OF assms]
  have "rb_list rb = [] \<longleftrightarrow> (rb_write rb - rb_read rb) mod rb_capacity rb = 0"
    using rb_count_bounds(1) [OF assms]
    by (simp add: rb_list_def rb_count_mod [OF assms])
  also have "\<dots> \<longleftrightarrow> rb_read rb = rb_write rb"
    using d by (subst mod_wrap) auto
  finally show ?thesis
    by (simp add: rb_is_empty_def)
qed

section \<open>Writing and reading\<close>

lemma rb_push_cell:
  fixes rb :: "'a rb" and x :: 'a
  assumes "rb_ok bits rb" "\<not> rb_is_full (Some rb)"
  defines "rb' \<equiv> rb\<lparr>rb_write := (rb_write rb + 1) AND (rb_capacity rb - 1),
                     rb_data := (rb_data rb)[nat (rb_write rb) := x]\<rparr>"
  shows "rb_ok bits rb'" "rb_list rb' = rb_list rb @ [x]"
proof -
  note ok = assms(1) and d = rb_okD [OF assms(1)] and b = rb_count_bounds [OF assms(1)]
  let ?c = "rb_capacity rb" and ?r = "rb_read rb" and ?n = "rb_count (Some rb)"
  have n: "?n + 1 < ?c"
    using assms(2) b d(1) by (simp add: rb_is_full_iff [OF ok])
  show ok': "rb_ok bits rb'"
    using ok d by (auto simp: rb'_def rb_and [OF ok] rb_ok_def)
  have n': "rb_count (Some rb') = ?n + 1"
    using n b d(1)
    unfolding rb_count_mod [OF ok']
    by (simp add: rb'_def rb_and [OF ok] mod_diff_left_eq ring_count_step(1)
        flip: rb_count_mod [OF ok])
  have w: "rb_write rb = (?r + ?n) mod ?c"
    using d by (simp add: rb_count_mod [OF ok] ring_count_step(3))
  show "rb_list rb' = rb_list rb @ [x]"
  proof (rule nth_equalityI)
    show "length (rb_list rb') = length (rb_list rb @ [x])"
      using b by (simp add: length_rb_list n')
    fix i assume "i < length (rb_list rb')"
    then have i: "int i < ?n + 1"
      using b by (simp add: length_rb_list n')
    have e: "rb_list rb' ! i =
        (rb_data rb)[nat (rb_write rb) := x] ! nat ((?r + int i) mod ?c)"
      using i by (subst rb_list_nth [OF ok']) (simp_all add: n', simp add: rb'_def)
    show "rb_list rb' ! i = (rb_list rb @ [x]) ! i"
    proof (cases "int i = ?n")
      case True
      then have "nat ((?r + int i) mod ?c) = nat (rb_write rb)"
        using w by simp
      moreover have "i = length (rb_list rb)"
        using True by (simp add: length_rb_list)
      ultimately show ?thesis
        using d e by simp
    next
      case False
      then have lt: "int i < ?n"
        using i by simp
      have "(?r + int i) mod ?c \<noteq> rb_write rb"
        using ring_pos_inj [of ?r "int i" ?c ?n] w lt b n by auto
      then have "nat ((?r + int i) mod ?c) \<noteq> nat (rb_write rb)"
        using d by (simp add: nat_eq_iff)
      moreover have "i < length (rb_list rb)"
        using lt by (simp add: length_rb_list)
      ultimately show ?thesis
        using e lt by (simp add: nth_append rb_list_nth [OF ok])
    qed
  qed
qed

lemma rb_take_spec:
  assumes "rb_ok bits rb" "rb_list rb \<noteq> []" "rb_take rb = (x, rb')"
  shows "rb_ok bits rb'" "x = hd (rb_list rb)" "rb_list rb' = tl (rb_list rb)"
proof -
  note ok = assms(1) and d = rb_okD [OF assms(1)] and b = rb_count_bounds [OF assms(1)]
  let ?c = "rb_capacity rb" and ?r = "rb_read rb" and ?n = "rb_count (Some rb)"
  have e: "rb' = rb\<lparr>rb_read := (?r + 1) mod ?c\<rparr>" "x = rb_data rb ! nat ?r"
    using assms(3) by (simp_all add: rb_take_def Let_def rb_and [OF ok])
  have n: "0 < ?n"
    using assms(2) b(1) by (simp add: length_rb_list flip: length_greater_0_conv)
  show ok': "rb_ok bits rb'"
    using ok d by (auto simp: e rb_ok_def)
  have n': "rb_count (Some rb') = ?n - 1"
    using n b d(1)
    unfolding rb_count_mod [OF ok']
    by (simp add: e mod_diff_right_eq ring_count_step(4) flip: rb_count_mod [OF ok])
  show "x = hd (rb_list rb)"
    using assms(2) n d by (simp add: hd_conv_nth rb_list_nth [OF ok] e)
  show "rb_list rb' = tl (rb_list rb)"
  proof (rule nth_equalityI)
    show "length (rb_list rb') = length (tl (rb_list rb))"
      using b n by (simp add: length_rb_list n')
    fix i assume "i < length (rb_list rb')"
    then have i: "int i < ?n - 1"
      using b by (simp add: length_rb_list n')
    then have "rb_list rb' ! i = rb_data rb ! nat ((?r + int (Suc i)) mod ?c)"
      by (subst rb_list_nth [OF ok']) (simp_all add: n', simp add: e mod_simps algebra_simps)
    with i show "rb_list rb' ! i = tl (rb_list rb) ! i"
      by (simp add: nth_tl length_rb_list rb_list_nth [OF ok] del: of_nat_Suc)
  qed
qed

lemma rb_takew_spec:
  assumes "rb_ok bits rb" "rb_list rb \<noteq> []" "rb_takew rb = (x, rb')"
  shows "rb_ok bits rb'" "x = last (rb_list rb)" "rb_list rb' = butlast (rb_list rb)"
proof -
  note ok = assms(1) and d = rb_okD [OF assms(1)] and b = rb_count_bounds [OF assms(1)]
  let ?c = "rb_capacity rb" and ?r = "rb_read rb" and ?n = "rb_count (Some rb)"
  have e: "rb' = rb\<lparr>rb_write := (rb_write rb - 1) mod ?c\<rparr>"
    "x = rb_data rb ! nat ((rb_write rb - 1) mod ?c)"
    using assms(3) by (simp_all add: rb_takew_def Let_def rb_and [OF ok])
  have n: "0 < ?n"
    using assms(2) b(1) by (simp add: length_rb_list flip: length_greater_0_conv)
  show ok': "rb_ok bits rb'"
    using ok d by (auto simp: e rb_ok_def)
  have n': "rb_count (Some rb') = ?n - 1"
    using n b d(1)
    unfolding rb_count_mod [OF ok']
    by (simp add: e mod_diff_left_eq ring_count_step(2) flip: rb_count_mod [OF ok])
  have "(?r + (?n - 1)) mod ?c = (rb_write rb - 1) mod ?c"
    unfolding rb_count_mod [OF ok] by (rule ring_count_step(5) [OF d(1)])
  then show "x = last (rb_list rb)"
    using assms(2) n
    by (simp add: last_conv_nth rb_list_nth [OF ok] length_rb_list of_nat_diff e)
  show "rb_list rb' = butlast (rb_list rb)"
  proof (rule nth_equalityI)
    show "length (rb_list rb') = length (butlast (rb_list rb))"
      using b n by (simp add: length_rb_list n')
    fix i assume "i < length (rb_list rb')"
    then have i: "int i < ?n - 1"
      using b by (simp add: length_rb_list n')
    then have "rb_list rb' ! i = rb_data rb ! nat ((?r + int i) mod ?c)"
      by (subst rb_list_nth [OF ok']) (simp_all add: n', simp add: e)
    with i show "rb_list rb' ! i = butlast (rb_list rb) ! i"
      by (simp add: nth_butlast length_rb_list rb_list_nth [OF ok])
  qed
qed

lemma rb_peek_nth:
  "rb_ok bits rb \<Longrightarrow> 0 \<le> i \<Longrightarrow> i < rb_count (Some rb) \<Longrightarrow> rb_peek rb i = rb_list rb ! nat i"
  by (simp add: rb_list_def)

lemma rb_peek_read_hd:
  "rb_ok bits rb \<Longrightarrow> rb_list rb \<noteq> [] \<Longrightarrow> rb_peek_read rb = hd (rb_list rb)"
  using rb_take_spec(2) by (fastforce simp: rb_peek_read_def rb_take_def Let_def)

lemma rb_peek_write_last:
  "rb_ok bits rb \<Longrightarrow> rb_list rb \<noteq> [] \<Longrightarrow> rb_peek_write rb = last (rb_list rb)"
  using rb_takew_spec(2) by (fastforce simp: rb_peek_write_def rb_takew_def Let_def)

section \<open>Growing\<close>

lemma rb_resize_None:
  assumes "rb_resize bits True u None (2 ^ k) = (r, p)" "Suc k < bits"
  shows "r = 0" "rbp_ok bits p" "rbp_list p = []"
  using assms
  by (auto simp: rb_resize_def rbp_ok_def rb_ok_def rbp_list_def rb_list_def rb_count_def)

text \<open>
  Doubling keeps the elements in order: either they lie in one piece, which stays where it
  is, or the piece at the start of the array is moved behind the old end.
\<close>

lemma rb_resize_double:
  assumes "rb_ok bits rb" "in_sx bits (rb_capacity rb * 2)" "0 < bits"
    and res: "rb_resize bits True u (Some rb) (rb_capacity rb * 2) = (r, p)"
  obtains rb' where "r = 0" "p = Some rb'" "rb_ok bits rb'" "rb_list rb' = rb_list rb"
    "rb_capacity rb' = rb_capacity rb * 2"
proof -
  note ok = assms(1) and d = rb_okD [OF assms(1)] and b = rb_count_bounds [OF assms(1)]
  let ?c = "rb_capacity rb" and ?r = "rb_read rb" and ?w = "rb_write rb"
  let ?n = "rb_count (Some rb)" and ?D = "realloc_data u (?c * 2) (rb_data rb)"
  define rb' where "rb' = (if ?r > ?w
      then rb\<lparr>rb_data := memmove ?c 0 ?w ?D, rb_write := ?w + ?c, rb_capacity := ?c * 2\<rparr>
      else rb\<lparr>rb_data := ?D, rb_capacity := ?c * 2\<rparr>)"
  have "in_sx bits (?w + ?c)"
    using assms(2) d by (auto simp: in_sx_def)
  then have sxw: "sx bits (?w + ?c) = ?w + ?c"
    using assms(3) by (rule sx_id [rotated])
  have p: "r = 0" "p = Some rb'"
    using res d sxw by (auto simp: rb_resize_def rb'_def Let_def)
  have D: "int (length ?D) = ?c * 2"
    using d by simp
  have mm: "length (memmove ?c 0 ?w ?D) = length ?D" if "?w < ?r"
    using d D that by (intro length_memmove) simp_all
  obtain k where k: "?c = 2 ^ k" "Suc k < bits"
    using ok by (auto simp: rb_ok_def)
  have "?c * 2 < 2 ^ (bits - 1)"
    using assms(2) by (simp add: in_sx_def)
  then have "(2::int) ^ Suc k < 2 ^ (bits - 1)"
    using k by simp
  then have "Suc k < bits - 1"
    by (rule power_less_imp_less_exp [rotated]) simp
  then have ok': "rb_ok bits rb'"
    using d D mm k by (auto simp: rb_ok_def rb'_def intro!: exI [of _ "Suc k"])
  have n: "?n = (if ?r > ?w then ?w - ?r + ?c else ?w - ?r)"
    unfolding rb_count_mod [OF ok] using d by (subst mod_wrap) auto
  have n': "rb_count (Some rb') = ?n"
    unfolding rb_count_mod [OF ok'] n using d by (auto simp: rb'_def mod_pos_pos_trivial)
  have "rb_list rb' = rb_list rb"
  proof (rule nth_equalityI)
    show "length (rb_list rb') = length (rb_list rb)"
      by (simp add: length_rb_list n')
    fix i assume "i < length (rb_list rb')"
    then have i: "int i < ?n"
      by (simp add: length_rb_list n' zless_nat_eq_int_zless)
    have old: "(?r + int i) mod ?c = (if ?r + int i < ?c then ?r + int i else ?r + int i - ?c)"
      using d i b by (intro mod_wrap_once) simp_all
    have new: "rb_list rb' ! i = rb_data rb' ! nat (?r + int i)"
      using i d n by (subst rb_list_nth [OF ok'])
        (simp_all add: n', auto simp: rb'_def mod_pos_pos_trivial)
    have "rb_data rb' ! nat (?r + int i) = rb_data rb ! nat ((?r + int i) mod ?c)"
      using i d n D old
      by (auto simp: rb'_def nth_memmove nth_realloc_data nat_less_iff zless_nat_eq_int_zless)
    then show "rb_list rb' ! i = rb_list rb ! i"
      using new i by (simp add: rb_list_nth [OF ok])
  qed
  with p ok' show thesis
    by (intro that [of rb']) (simp_all add: rb'_def)
qed

lemma rb_resize_fail:
  "\<not> ok \<or> elems < 0 \<Longrightarrow> rb_resize bits ok u p elems = (-1, p)"
  by (simp add: rb_resize_def)

text \<open>
  The step of the reallocating operations that makes room: it fails, leaving the buffer as
  it was, when the allocator does or when the doubled capacity no longer fits the index
  type; otherwise there is a buffer of the same elements that is not full.
\<close>

definition rb_reserve ::
  "nat \<Rightarrow> bool \<Rightarrow> (nat \<Rightarrow> 'a) \<Rightarrow> 'a rb option \<Rightarrow> int \<times> 'a rb option" where
  "rb_reserve bits ok u p =
     (if p = None \<or> rb_is_full p
      then rb_resize bits ok u p
             (sx bits (case p of Some rb \<Rightarrow> rb_capacity rb * 2 | None \<Rightarrow> RB_MIN_CAPACITY))
      else (0, p))"

lemma rb_put_realloc_reserve:
  "rb_put_realloc bits ok u p x =
     (case rb_reserve bits ok u p of (r, p) \<Rightarrow>
        if r \<noteq> 0 then (-1, p)
        else case p of None \<Rightarrow> (-1, p)
          | Some rb \<Rightarrow> (0, Some (rb\<lparr>rb_write := (rb_write rb + 1) AND (rb_capacity rb - 1),
                                    rb_data := (rb_data rb)[nat (rb_write rb) := x]\<rparr>)))"
  by (simp add: rb_put_realloc_def rb_reserve_def Let_def split: prod.splits option.splits)

lemma rb_emplace_realloc_reserve:
  "rb_emplace_realloc bits ok u p =
     (case rb_reserve bits ok u p of (r, p) \<Rightarrow>
        if r \<noteq> 0 then (None, p)
        else case p of None \<Rightarrow> (None, p)
          | Some rb \<Rightarrow> (Some (rb_write rb),
                        Some (rb\<lparr>rb_write := (rb_write rb + 1) AND (rb_capacity rb - 1)\<rparr>)))"
  by (simp add: rb_emplace_realloc_def rb_reserve_def Let_def split: prod.splits option.splits)

definition rb_can_grow :: "nat \<Rightarrow> bool \<Rightarrow> 'a rb option \<Rightarrow> bool" where
  "rb_can_grow bits ok p \<longleftrightarrow>
     (case p of None \<Rightarrow> ok
      | Some rb \<Rightarrow> rb_is_full p \<longrightarrow> ok \<and> rb_capacity rb * 2 < 2 ^ (bits - 1))"

lemma rb_capacity_sx_wraps:
  assumes "rb_ok bits rb" "\<not> rb_capacity rb * 2 < 2 ^ (bits - 1)"
  shows "sx bits (rb_capacity rb * 2) < 0"
proof -
  obtain k where k: "rb_capacity rb = 2 ^ k" "Suc k < bits"
    using assms(1) by (auto simp: rb_ok_def)
  then have "(2::int) ^ Suc k \<le> 2 ^ (bits - 1)"
    by (intro power_increasing) simp_all
  with assms(2) k have "rb_capacity rb * 2 = 2 ^ (bits - 1)"
    by simp
  then show ?thesis
    using k two_pow_split [of bits] by (simp add: sx_def)
qed

lemma rb_reserve_spec:
  assumes "rbp_ok bits p" "5 < bits" "rb_reserve bits ok u p = (r, p')"
  shows "(\<not> rb_can_grow bits ok p \<and> r = -1 \<and> p' = p) \<or>
    (rb_can_grow bits ok p \<and> r = 0 \<and>
     (\<exists>rb. p' = Some rb \<and> rb_ok bits rb \<and> \<not> rb_is_full (Some rb) \<and> rb_list rb = rbp_list p))"
proof (cases p)
  case None
  have "(16::int) < 2 ^ (bits - 1)"
    using power_strict_increasing [of 4 "bits - 1" "2::int"] assms(2) by simp
  then have s: "sx bits RB_MIN_CAPACITY = 2 ^ 4"
    using assms(2) by (simp add: RB_MIN_CAPACITY_def sx_id in_sx_def)
  show ?thesis
  proof (cases ok)
    case True
    with None assms(3) s have res: "rb_resize bits True u None (2 ^ 4) = (r, p')"
      by (simp add: rb_reserve_def)
    note sp = rb_resize_None [OF res]
    have "r = 0" "rbp_ok bits p'" "rbp_list p' = []"
      using sp assms(2) by simp_all
    moreover obtain rb where rb: "p' = Some rb"
      using res by (auto simp: rb_resize_def Let_def)
    moreover have "rb_capacity rb = 16"
      using res rb by (auto simp: rb_resize_def Let_def)
    moreover have "rb_list rb = []"
      using calculation by (simp add: rbp_list_def)
    ultimately have "\<not> rb_is_full (Some rb)"
      by (simp add: rbp_ok_def rb_is_full_iff rb_list_def)
    with True None \<open>r = 0\<close> \<open>rbp_ok bits p'\<close> rb \<open>rb_list rb = []\<close> show ?thesis
      by (auto simp: rb_can_grow_def rbp_ok_def rbp_list_def)
  next
    case False
    with None assms(3) show ?thesis
      by (simp add: rb_reserve_def rb_resize_fail rb_can_grow_def)
  qed
next
  case (Some rb)
  then have ok: "rb_ok bits rb"
    using assms(1) by (simp add: rbp_ok_def)
  consider (room) "\<not> rb_is_full p" | (fail) "rb_is_full p" "\<not> rb_can_grow bits ok p"
    | (grow) "rb_is_full p" "rb_can_grow bits ok p"
    by blast
  then show ?thesis
  proof cases
    case room
    with Some assms(3) ok show ?thesis
      by (auto simp: rb_reserve_def rb_can_grow_def rbp_list_def)
  next
    case fail
    then have "\<not> ok \<or> sx bits (rb_capacity rb * 2) < 0"
      using Some rb_capacity_sx_wraps [OF ok] by (auto simp: rb_can_grow_def)
    with fail Some assms(3) show ?thesis
      by (simp add: rb_reserve_def rb_resize_fail)
  next
    case grow
    then have g: "ok" "rb_capacity rb * 2 < 2 ^ (bits - 1)"
      using Some by (simp_all add: rb_can_grow_def)
    then have i: "in_sx bits (rb_capacity rb * 2)"
      using rb_okD(1) [OF ok] by (simp add: in_sx_def order_trans [of _ 0])
    then have res: "rb_resize bits True u (Some rb) (rb_capacity rb * 2) = (r, p')"
      using grow g assms(2,3) Some by (simp add: rb_reserve_def sx_id)
    obtain rb' where rb': "r = 0" "p' = Some rb'" "rb_ok bits rb'" "rb_list rb' = rb_list rb"
      "rb_capacity rb' = rb_capacity rb * 2"
      using rb_resize_double [OF ok i _ res] assms(2) by auto
    have "nat (rb_count (Some rb')) = nat (rb_count (Some rb))"
      using rb'(4) by (metis length_rb_list)
    then have "rb_count (Some rb') = rb_count (Some rb)"
      using rb_count_bounds(1) [OF ok] rb_count_bounds(1) [OF rb'(3)] by simp
    then have "\<not> rb_is_full (Some rb')"
      using rb_count_bounds(2) [OF ok] rb_okD(1) [OF ok] rb'(5)
      by (simp add: rb_is_full_iff [OF rb'(3)])
    with grow rb' Some show ?thesis
      by (auto simp: rbp_list_def)
  qed
qed

section \<open>Iteration\<close>

lemma rb_indices_from_spec:
  assumes "rb_ok bits rb" "j \<le> nat (rb_count (Some rb))" "nat (rb_count (Some rb)) - j < n"
  shows "rb_indices_from n rb ((rb_read rb + int j) mod rb_capacity rb) =
    map (\<lambda>i. (rb_read rb + int i) mod rb_capacity rb) [j ..< nat (rb_count (Some rb))]"
  using assms(2,3)
proof (induction n arbitrary: j)
  case 0
  then show ?case by simp
next
  case (Suc n)
  note ok = assms(1) and d = rb_okD [OF assms(1)] and b = rb_count_bounds [OF assms(1)]
  let ?c = "rb_capacity rb" and ?N = "rb_count (Some rb)"
  have w: "rb_write rb = (rb_read rb + ?N) mod ?c"
    using d by (simp add: rb_count_mod [OF ok] ring_count_step(3))
  show ?case
  proof (cases "j = nat ?N")
    case True
    with w b show ?thesis by simp
  next
    case False
    with Suc.prems have j: "int j < ?N"
      by linarith
    then have "(rb_read rb + int j) mod ?c \<noteq> rb_write rb"
      using ring_pos_inj [of "rb_read rb" "int j" ?c ?N] w b by auto
    moreover have "((rb_read rb + int j) mod ?c + 1) mod ?c = (rb_read rb + int (Suc j)) mod ?c"
      by (simp add: mod_simps algebra_simps)
    moreover have "[j ..< nat ?N] = j # [Suc j ..< nat ?N]"
      using j by (intro upt_conv_Cons) linarith
    ultimately show ?thesis
      using Suc.IH [of "Suc j"] Suc.prems j by (simp add: rb_and [OF ok] del: of_nat_Suc)
  qed
qed

text \<open>Iteration visits the elements in order, each once.\<close>

lemma rb_for_each_indices_spec:
  assumes "rb_ok bits rb"
  shows "map (\<lambda>i. rb_data rb ! nat i) (rb_for_each_indices (Some rb)) = rb_list rb"
proof -
  note d = rb_okD [OF assms] and b = rb_count_bounds [OF assms]
  have "rb_for_each_indices (Some rb) =
      map (\<lambda>i. (rb_read rb + int i) mod rb_capacity rb) [0 ..< nat (rb_count (Some rb))]"
    using rb_indices_from_spec [OF assms, of 0 "nat (rb_capacity rb)"] b d
    by (simp add: rb_for_each_indices_def mod_pos_pos_trivial)
  then show ?thesis
    by (simp add: rb_list_def rb_peek_def rb_and [OF assms] comp_def)
qed

section \<open>The contract of a queue\<close>

text \<open>
  Users hold a pointer and reach the operations through it; taking from a null pointer
  is undefined.
\<close>

definition rbp_take :: "'a rb option \<Rightarrow> ('a \<times> 'a rb option) option" where
  "rbp_take p = (case p of None \<Rightarrow> None
     | Some rb \<Rightarrow> (case rb_take rb of (x, rb') \<Rightarrow> Some (x, Some rb')))"

definition rbp_takew :: "'a rb option \<Rightarrow> ('a \<times> 'a rb option) option" where
  "rbp_takew p = (case p of None \<Rightarrow> None
     | Some rb \<Rightarrow> (case rb_takew rb of (x, rb') \<Rightarrow> Some (x, Some rb')))"

lemma rbp_count_list: "rbp_ok bits p \<Longrightarrow> rb_count p = int (length (rbp_list p))"
  using rb_count_bounds(1)
  by (auto simp: rbp_ok_def rbp_list_def length_rb_list rb_count_def [of None] split: option.splits)

lemma rbp_take_spec:
  assumes "rbp_ok bits p" "rbp_list p \<noteq> []"
  shows "\<exists>q. rbp_take p = Some (hd (rbp_list p), q) \<and> rbp_ok bits q \<and> rbp_list q = tl (rbp_list p)"
proof -
  obtain rb where p: "p = Some rb"
    using assms(2) by (cases p) (simp_all add: rbp_list_def)
  obtain x rb' where e: "rb_take rb = (x, rb')"
    by fastforce
  from p assms have "rb_ok bits rb" "rb_list rb \<noteq> []"
    by (simp_all add: rbp_ok_def rbp_list_def)
  note sp = rb_take_spec [OF this e]
  from p e sp show ?thesis
    by (simp add: rbp_take_def rbp_ok_def rbp_list_def)
qed

lemma rbp_takew_spec:
  assumes "rbp_ok bits p" "rbp_list p \<noteq> []"
  shows "\<exists>q. rbp_takew p = Some (last (rbp_list p), q) \<and> rbp_ok bits q \<and>
    rbp_list q = butlast (rbp_list p)"
proof -
  obtain rb where p: "p = Some rb"
    using assms(2) by (cases p) (simp_all add: rbp_list_def)
  obtain x rb' where e: "rb_takew rb = (x, rb')"
    by fastforce
  from p assms have "rb_ok bits rb" "rb_list rb \<noteq> []"
    by (simp_all add: rbp_ok_def rbp_list_def)
  note sp = rb_takew_spec [OF this e]
  from p e sp show ?thesis
    by (simp add: rbp_takew_def rbp_ok_def rbp_list_def)
qed

lemma rb_put_realloc_room:
  assumes "rbp_ok bits p" "5 < bits" "rb_can_grow bits ok p"
  shows "\<exists>q. rb_put_realloc bits ok u p x = (0, q) \<and> rbp_ok bits q \<and> rbp_list q = rbp_list p @ [x]"
proof -
  obtain rb where "rb_reserve bits ok u p = (0, Some rb)" "rb_ok bits rb"
    "\<not> rb_is_full (Some rb)" "rb_list rb = rbp_list p"
    using rb_reserve_spec [OF assms(1,2)] assms(3) by (metis surj_pair)
  then show ?thesis
    using rb_push_cell [of bits rb x]
    by (simp add: rb_put_realloc_reserve rbp_ok_def rbp_list_def)
qed

lemma rb_put_realloc_no_room:
  assumes "rbp_ok bits p" "5 < bits" "\<not> rb_can_grow bits ok p"
  shows "rb_put_realloc bits ok u p x = (-1, p)"
proof -
  have "rb_reserve bits ok u p = (-1, p)"
    using rb_reserve_spec [OF assms(1,2), of ok u] assms(3) by (cases "rb_reserve bits ok u p") simp
  then show ?thesis
    by (simp add: rb_put_realloc_reserve)
qed

text \<open>Storing through the address that emplacing returned is putting.\<close>

lemma rb_emplace_realloc_store:
  assumes "rbp_ok bits p" "5 < bits"
  shows "(case rb_emplace_realloc bits ok u p of
      (Some w, Some rb) \<Rightarrow> (0, Some (rb_store w x rb)) | (_, q) \<Rightarrow> (-1, q)) =
    rb_put_realloc bits ok u p x"
  using rb_reserve_spec [OF assms, of ok u]
  by (cases "rb_reserve bits ok u p")
     (auto simp: rb_emplace_realloc_reserve rb_put_realloc_reserve rb_store_def)

lemma rb_fifo:
  assumes "5 < bits"
  shows "fifo (rbp_ok bits) rbp_list (rb_can_grow bits ok) (rb_put_realloc bits ok u)
    rb_count rbp_take rbp_takew"
  using assms
  by unfold_locales
     (simp_all add: rbp_count_list rb_put_realloc_room rb_put_realloc_no_room
        rbp_take_spec rbp_takew_spec)

interpretation rb16: fifo "rbp_ok 16" rbp_list "rb_can_grow 16 ok"
  "rb_put_realloc 16 ok u" rb_count rbp_take rbp_takew for ok u
  by (rule rb_fifo) simp

interpretation rb8: fifo "rbp_ok 8" rbp_list "rb_can_grow 8 ok"
  "rb_put_realloc 8 ok u" rb_count rbp_take rbp_takew for ok u
  by (rule rb_fifo) simp

lemma rbp_ok_None [simp]: "rbp_ok bits None"
  by (simp add: rbp_ok_def)

lemma rbp_list_None [simp]: "rbp_list None = []"
  by (simp add: rbp_list_def)

end
