(* ===== verification/Vec.thy ===== *)
theory Vec
  imports Contracts
begin

text \<open>
  The vector (include/clither/vec.h), a macro that generates one type per element type and
  index width. A pointer to a vector is an option, \<open>vec_data\<close> are all the cells of its
  block, \<open>vec_list\<close> the elements in use. \<open>ok\<close> is whether the allocator has the memory, \<open>u\<close>
  what fresh memory holds.
\<close>

record 'a vec =
  vec_cnt :: int
  vec_cap :: int
  vec_data :: "'a list"

definition VEC_MIN_CAPACITY :: int where
  "VEC_MIN_CAPACITY = 32"

definition VEC_EXPAND_FACTOR :: int where
  "VEC_EXPAND_FACTOR = 2"

section \<open>Operations\<close>

definition vec_count :: "'a vec option \<Rightarrow> int" where
  "vec_count p = (case p of None \<Rightarrow> 0 | Some v \<Rightarrow> vec_cnt v)"

definition vec_capacity :: "'a vec option \<Rightarrow> int" where
  "vec_capacity p = (case p of None \<Rightarrow> 0 | Some v \<Rightarrow> vec_cap v)"

definition vec_init :: "'a vec option" where
  "vec_init = None"

definition vec_get :: "'a vec \<Rightarrow> int \<Rightarrow> 'a" where
  "vec_get v i = vec_data v ! nat i"

definition vec_first :: "'a vec \<Rightarrow> 'a" where
  "vec_first v = vec_data v ! 0"

definition vec_last :: "'a vec \<Rightarrow> 'a" where
  "vec_last v = vec_data v ! nat (vec_cnt v - 1)"

definition vec_realloc ::
  "nat \<Rightarrow> bool \<Rightarrow> (nat \<Rightarrow> 'a) \<Rightarrow> 'a vec option \<Rightarrow> int \<Rightarrow> int \<times> 'a vec option" where
  "vec_realloc bits ok u p elems =
     (if elems = 0 then (0, None)
      else if \<not> ok \<or> elems < 0 then (-1, p)
      else
        let v = (case p of
              None \<Rightarrow> \<lparr>vec_cnt = 0, vec_cap = 0, vec_data = realloc_data u elems []\<rparr>
            | Some v \<Rightarrow> v\<lparr>vec_data := realloc_data u elems (vec_data v)\<rparr>);
            v = (if vec_cnt v > elems then v\<lparr>vec_cnt := elems\<rparr> else v)
        in (0, Some (v\<lparr>vec_cap := elems\<rparr>)))"

definition vec_clear :: "'a vec option \<Rightarrow> 'a vec option" where
  "vec_clear p = (case p of None \<Rightarrow> None | Some v \<Rightarrow> Some (v\<lparr>vec_cnt := 0\<rparr>))"

definition vec_compact :: "nat \<Rightarrow> bool \<Rightarrow> (nat \<Rightarrow> 'a) \<Rightarrow> 'a vec option \<Rightarrow> 'a vec option" where
  "vec_compact bits ok u p = snd (vec_realloc bits ok u p (vec_count p))"

definition vec_clear_compact ::
  "nat \<Rightarrow> bool \<Rightarrow> (nat \<Rightarrow> 'a) \<Rightarrow> 'a vec option \<Rightarrow> 'a vec option" where
  "vec_clear_compact bits ok u p = vec_compact bits ok u (vec_clear p)"

text \<open>Emplacing returns the index of the new cell, which keeps what it held.\<close>

definition vec_emplace ::
  "nat \<Rightarrow> bool \<Rightarrow> (nat \<Rightarrow> 'a) \<Rightarrow> 'a vec option \<Rightarrow> int option \<times> 'a vec option" where
  "vec_emplace bits ok u p =
     (let full = (case p of None \<Rightarrow> True | Some v \<Rightarrow> vec_cnt v = vec_cap v);
          old_cap = vec_capacity p;
          new_cap = (if old_cap \<noteq> 0 then old_cap * VEC_EXPAND_FACTOR else VEC_MIN_CAPACITY);
          (r, p) = (if full then vec_realloc bits ok u p (sx bits new_cap) else (0, p))
      in if r \<noteq> 0 then (None, p)
         else case p of None \<Rightarrow> (None, None)
           | Some v \<Rightarrow>
               let v = (if full
                        then (if old_cap = 0 then v\<lparr>vec_cnt := 0\<rparr> else v)\<lparr>vec_cap := sx bits new_cap\<rparr>
                        else v)
               in (Some (vec_cnt v), Some (v\<lparr>vec_cnt := vec_cnt v + 1\<rparr>)))"

definition vec_store :: "int \<Rightarrow> 'a \<Rightarrow> 'a vec \<Rightarrow> 'a vec" where
  "vec_store i x v = v\<lparr>vec_data := (vec_data v)[nat i := x]\<rparr>"

definition vec_push ::
  "nat \<Rightarrow> bool \<Rightarrow> (nat \<Rightarrow> 'a) \<Rightarrow> 'a vec option \<Rightarrow> 'a \<Rightarrow> int \<times> 'a vec option" where
  "vec_push bits ok u p x =
     (case vec_emplace bits ok u p of
        (Some i, Some v) \<Rightarrow> (0, Some (vec_store i x v))
      | (_, p') \<Rightarrow> (-1, p'))"

definition vec_insert_emplace ::
  "nat \<Rightarrow> bool \<Rightarrow> (nat \<Rightarrow> 'a) \<Rightarrow> 'a vec option \<Rightarrow> int \<Rightarrow> int option \<times> 'a vec option" where
  "vec_insert_emplace bits ok u p i =
     (case vec_emplace bits ok u p of
        (Some _, Some v) \<Rightarrow>
          (Some i, Some (v\<lparr>vec_data := memmove (i + 1) i (vec_cnt v - i - 1) (vec_data v)\<rparr>))
      | (_, p') \<Rightarrow> (None, p'))"

definition vec_insert ::
  "nat \<Rightarrow> bool \<Rightarrow> (nat \<Rightarrow> 'a) \<Rightarrow> 'a vec option \<Rightarrow> int \<Rightarrow> 'a \<Rightarrow> int \<times> 'a vec option" where
  "vec_insert bits ok u p i x =
     (case vec_insert_emplace bits ok u p i of
        (Some j, Some v) \<Rightarrow> (0, Some (vec_store j x v))
      | (_, p') \<Rightarrow> (-1, p'))"

definition vec_pop :: "'a vec \<Rightarrow> 'a \<times> 'a vec" where
  "vec_pop v = (let n = vec_cnt v - 1 in (vec_data v ! nat n, v\<lparr>vec_cnt := n\<rparr>))"

definition vec_pop_by :: "'a vec \<Rightarrow> int \<Rightarrow> int \<times> 'a vec" where
  "vec_pop_by v count = (let n = vec_cnt v - count in (n, v\<lparr>vec_cnt := n\<rparr>))"

definition vec_erase :: "'a vec \<Rightarrow> int \<Rightarrow> 'a vec" where
  "vec_erase v i =
     (let n = vec_cnt v - 1
      in v\<lparr>vec_cnt := n, vec_data := memmove i (i + 1) (n - i) (vec_data v)\<rparr>)"

definition vec_swap_values :: "'a vec \<Rightarrow> int \<Rightarrow> int \<Rightarrow> 'a vec" where
  "vec_swap_values v a b =
     (let tmp = vec_data v ! nat a;
          d = (vec_data v)[nat a := vec_data v ! nat b];
          d = d[nat b := tmp]
      in v\<lparr>vec_data := d\<rparr>)"

text \<open>
  Removing by a callback, which may write the element it is shown and a state of its own.
  The loop stops at \<open>i = count\<close>; \<open>i\<close> never passes \<open>count\<close>, so the guard is written \<open><\<close>.
\<close>

function vec_retain_loop ::
  "('a \<Rightarrow> 'u \<Rightarrow> int \<times> 'a \<times> 'u) \<Rightarrow> int \<Rightarrow> 'a vec \<Rightarrow> 'u \<Rightarrow> int \<times> 'a vec \<times> 'u" where
  "vec_retain_loop f i v user =
     (if i < vec_cnt v then
        (case f (vec_data v ! nat i) user of (result, x, user) \<Rightarrow>
           let v = vec_store i x v
           in if result < 0 then (result, v, user)
              else if result \<noteq> 0 then vec_retain_loop f i (vec_erase v i) user
              else vec_retain_loop f (i + 1) v user)
      else (0, v, user))"
  by pat_completeness auto
termination
  by (relation "measure (\<lambda>(f, i, v, user). nat (vec_cnt v - i))")
     (auto simp: vec_store_def vec_erase_def Let_def)

declare vec_retain_loop.simps [simp del]

definition vec_retain ::
  "('a \<Rightarrow> 'u \<Rightarrow> int \<times> 'a \<times> 'u) \<Rightarrow> 'a vec option \<Rightarrow> 'u \<Rightarrow> int \<times> 'a vec option \<times> 'u" where
  "vec_retain f p user =
     (case p of None \<Rightarrow> (0, None, user)
      | Some v \<Rightarrow> (case vec_retain_loop f 0 v user of (r, v, user) \<Rightarrow> (r, Some v, user)))"

function vec_reverse_range :: "'a vec \<Rightarrow> int \<Rightarrow> int \<Rightarrow> 'a vec" where
  "vec_reverse_range v start end' =
     (let e = end' - 1
      in if start < e then vec_reverse_range (vec_swap_values v start e) (start + 1) e else v)"
  by pat_completeness auto
termination
  by (relation "measure (\<lambda>(v, s, e). nat (e - s))") auto

declare vec_reverse_range.simps [simp del]

section \<open>Representation\<close>

definition vec_ok :: "nat \<Rightarrow> 'a vec \<Rightarrow> bool" where
  "vec_ok bits v \<longleftrightarrow>
     0 \<le> vec_cnt v \<and> vec_cnt v \<le> vec_cap v \<and> 0 < vec_cap v \<and> vec_cap v < 2 ^ (bits - 1) \<and>
     int (length (vec_data v)) = vec_cap v"

definition vecp_ok :: "nat \<Rightarrow> 'a vec option \<Rightarrow> bool" where
  "vecp_ok bits p \<longleftrightarrow> (case p of None \<Rightarrow> True | Some v \<Rightarrow> vec_ok bits v)"

definition vec_list :: "'a vec \<Rightarrow> 'a list" where
  "vec_list v = take (nat (vec_cnt v)) (vec_data v)"

definition vecp_list :: "'a vec option \<Rightarrow> 'a list" where
  "vecp_list p = (case p of None \<Rightarrow> [] | Some v \<Rightarrow> vec_list v)"

text \<open>Growth succeeds unless the allocator fails or the doubled capacity overflows the index type.\<close>

definition vec_can_grow :: "nat \<Rightarrow> bool \<Rightarrow> 'a vec option \<Rightarrow> bool" where
  "vec_can_grow bits ok p \<longleftrightarrow>
     (case p of None \<Rightarrow> ok
      | Some v \<Rightarrow> vec_cnt v = vec_cap v \<longrightarrow> ok \<and> vec_cap v * 2 < 2 ^ (bits - 1))"

text \<open>What \<open>vec_retain\<close> does to the list of elements.\<close>

fun retain_list :: "('a \<Rightarrow> 'u \<Rightarrow> int \<times> 'a \<times> 'u) \<Rightarrow> 'a list \<Rightarrow> 'u \<Rightarrow> int \<times> 'a list \<times> 'u" where
  "retain_list f [] user = (0, [], user)"
| "retain_list f (x # xs) user =
     (case f x user of (result, x, user) \<Rightarrow>
        if result < 0 then (result, x # xs, user)
        else if result \<noteq> 0 then retain_list f xs user
        else (case retain_list f xs user of (r, ys, user) \<Rightarrow> (r, x # ys, user)))"

lemma vecp_simps [simp]:
  "vecp_ok bits None" "vecp_ok bits (Some v) = vec_ok bits v"
  "vecp_list None = []" "vecp_list (Some v) = vec_list v"
  "vec_count None = 0" "vec_count (Some v) = vec_cnt v"
  "vec_capacity None = 0" "vec_capacity (Some v) = vec_cap v"
  by (simp_all add: vecp_ok_def vecp_list_def vec_count_def vec_capacity_def)

lemma length_vec_list: "vec_ok bits v \<Longrightarrow> int (length (vec_list v)) = vec_cnt v"
  by (auto simp: vec_ok_def vec_list_def min_def)

lemma vecp_count_list: "vecp_ok bits p \<Longrightarrow> vec_count p = int (length (vecp_list p))"
  by (cases p) (simp_all add: length_vec_list)

lemma vec_list_nth: "vec_ok bits v \<Longrightarrow> int i < vec_cnt v \<Longrightarrow> vec_list v ! i = vec_data v ! i"
  by (simp add: vec_list_def)

lemma vec_get_nth: "vec_ok bits v \<Longrightarrow> 0 \<le> i \<Longrightarrow> i < vec_cnt v \<Longrightarrow> vec_get v i = vec_list v ! nat i"
  by (simp add: vec_list_def vec_get_def)

lemma vec_last_list: "vec_ok bits v \<Longrightarrow> vec_list v \<noteq> [] \<Longrightarrow> vec_last v = last (vec_list v)"
  by (auto simp: vec_last_def vec_list_def vec_ok_def last_conv_nth nat_diff_distrib)

lemma vec_first_list: "vec_ok bits v \<Longrightarrow> vec_list v \<noteq> [] \<Longrightarrow> vec_first v = hd (vec_list v)"
  by (auto simp: vec_first_def vec_list_def vec_ok_def hd_conv_nth)

section \<open>Appending\<close>

lemma vec_min_fits: "6 < bits \<Longrightarrow> (32::int) < 2 ^ (bits - 1)"
  using power_strict_increasing [of 5 "bits - 1" "2::int"] by simp

lemma vec_cap_wraps:
  fixes c :: int
  assumes "0 < c" "c < 2 ^ (bits - 1)" "0 < bits" "\<not> c * 2 < 2 ^ (bits - 1)"
  shows "sx bits (c * 2) < 0"
proof -
  have "sx bits (c * 2) = c * 2 + 2 ^ (bits - 1) - 2 ^ bits - 2 ^ (bits - 1)"
    unfolding sx_def using assms two_pow_split [of bits]
    by (subst mod_wrap_once) simp_all
  with assms two_pow_split [of bits] show ?thesis by simp
qed

lemma vec_emplace_no_room:
  assumes "vecp_ok bits p" "6 < bits" "\<not> vec_can_grow bits ok p"
  shows "vec_emplace bits ok u p = (None, p)"
proof (cases p)
  case None
  then show ?thesis
    using assms vec_min_fits [OF assms(2)]
    by (simp add: vec_emplace_def vec_can_grow_def VEC_MIN_CAPACITY_def vec_realloc_def
        sx_id in_sx_def Let_def)
next
  case (Some v)
  then have v: "vec_cnt v = vec_cap v" "\<not> (ok \<and> vec_cap v * 2 < 2 ^ (bits - 1))"
    using assms(3) by (auto simp: vec_can_grow_def)
  have c: "0 < vec_cap v" "vec_cap v < 2 ^ (bits - 1)"
    using assms(1) Some by (simp_all add: vec_ok_def)
  have "sx bits (vec_cap v * 2) \<noteq> 0"
  proof (cases "vec_cap v * 2 < 2 ^ (bits - 1)")
    case True
    then have "sx bits (vec_cap v * 2) = vec_cap v * 2"
      using c assms(2) by (intro sx_id) (auto simp: in_sx_def intro: order_trans [of _ 0])
    with c show ?thesis by simp
  next
    case False
    with vec_cap_wraps [OF c _ False] assms(2) show ?thesis by simp
  qed
  moreover have "\<not> ok \<or> sx bits (vec_cap v * 2) < 0"
    using v(2) vec_cap_wraps [OF c] assms(2) by auto
  ultimately show ?thesis
    using Some v(1) c
    by (simp add: vec_emplace_def VEC_EXPAND_FACTOR_def vec_realloc_def Let_def)
qed

lemma vec_emplace_room:
  assumes "vecp_ok bits p" "6 < bits" "vec_can_grow bits ok p"
  obtains v' where "vec_emplace bits ok u p = (Some (vec_count p), Some v')" "vec_ok bits v'"
    "vec_cnt v' = vec_count p + 1" "take (nat (vec_count p)) (vec_data v') = vecp_list p"
proof (cases p)
  case None
  with assms have ok: "ok"
    by (simp add: vec_can_grow_def)
  have s: "sx bits 32 = 32"
    using assms(2) vec_min_fits [OF assms(2)] by (intro sx_id) (simp_all add: in_sx_def)
  let ?v = "\<lparr>vec_cnt = 1, vec_cap = 32, vec_data = realloc_data u 32 []\<rparr>"
  show ?thesis
    by (rule that [of ?v])
       (use None ok s vec_min_fits [OF assms(2)] in
         \<open>simp_all add: vec_emplace_def VEC_MIN_CAPACITY_def vec_realloc_def Let_def vec_ok_def\<close>)
next
  case (Some v)
  then have ok: "vec_ok bits v"
    using assms(1) by simp
  note d = ok [unfolded vec_ok_def]
  show ?thesis
  proof (cases "vec_cnt v = vec_cap v")
    case False
    show ?thesis
      by (rule that [of "v\<lparr>vec_cnt := vec_cnt v + 1\<rparr>"])
         (use Some False d in \<open>auto simp: vec_emplace_def Let_def vec_ok_def vec_list_def\<close>)
  next
    case True
    with Some assms(3) have g: "ok" "vec_cap v * 2 < 2 ^ (bits - 1)"
      by (simp_all add: vec_can_grow_def)
    have s: "sx bits (vec_cap v * 2) = vec_cap v * 2"
      using g d assms(2) by (intro sx_id) (auto simp: in_sx_def intro: order_trans [of _ 0])
    have le: "nat (vec_cap v) \<le> length (vec_data v)"
      using d by linarith
    let ?v = "\<lparr>vec_cnt = vec_cnt v + 1, vec_cap = vec_cap v * 2,
               vec_data = realloc_data u (vec_cap v * 2) (vec_data v)\<rparr>"
    show ?thesis
    proof (rule that [of ?v])
      show "vec_emplace bits ok u p = (Some (vec_count p), Some ?v)"
        using Some True g s d
        by (simp add: vec_emplace_def VEC_EXPAND_FACTOR_def vec_realloc_def Let_def)
      show "vec_ok bits ?v"
        using g d True by (simp add: vec_ok_def)
      show "take (nat (vec_count p)) (vec_data ?v) = vecp_list p"
        using Some True d le by (simp add: take_realloc_data vec_list_def)
    qed (use Some in simp)
  qed
qed

lemma vec_push_room:
  assumes "vecp_ok bits p" "6 < bits" "vec_can_grow bits ok p"
  shows "\<exists>q. vec_push bits ok u p x = (0, q) \<and> vecp_ok bits q \<and> vecp_list q = vecp_list p @ [x]"
proof -
  obtain v' where v': "vec_emplace bits ok u p = (Some (vec_count p), Some v')" "vec_ok bits v'"
    "vec_cnt v' = vec_count p + 1" "take (nat (vec_count p)) (vec_data v') = vecp_list p"
    using vec_emplace_room [OF assms] .
  have n: "0 \<le> vec_count p"
    using assms(1) by (cases p) (simp_all add: vec_ok_def)
  have l: "nat (vec_count p) < length (vec_data v')"
    using v'(2,3) n by (simp add: vec_ok_def) linarith
  have "take (nat (vec_count p + 1)) ((vec_data v')[nat (vec_count p) := x]) = vecp_list p @ [x]"
    using l n v'(4) by (simp add: nat_add_distrib take_Suc_conv_app_nth)
  with v' show ?thesis
    by (simp add: vec_push_def vec_store_def vec_list_def vec_ok_def)
qed

lemma vec_push_no_room:
  "vecp_ok bits p \<Longrightarrow> 6 < bits \<Longrightarrow> \<not> vec_can_grow bits ok p \<Longrightarrow> vec_push bits ok u p x = (-1, p)"
  by (simp add: vec_push_def vec_emplace_no_room)

lemma vec_growable:
  "6 < bits \<Longrightarrow> growable (vecp_ok bits) vecp_list (vec_can_grow bits ok) (vec_push bits ok u)"
  by unfold_locales (simp_all add: vec_push_room vec_push_no_room)

interpretation vec16: growable "vecp_ok 16" vecp_list "vec_can_grow 16 ok" "vec_push 16 ok u" for ok u
  by (rule vec_growable) simp

interpretation vec8: growable "vecp_ok 8" vecp_list "vec_can_grow 8 ok" "vec_push 8 ok u" for ok u
  by (rule vec_growable) simp

section \<open>Inserting and erasing\<close>

lemma vec_insert_list:
  assumes "vecp_ok bits p" "6 < bits" "vec_can_grow bits ok p" "0 \<le> i" "i \<le> vec_count p"
  shows "\<exists>v. vec_insert bits ok u p i x = (0, Some v) \<and> vec_ok bits v \<and>
    vec_list v = take (nat i) (vecp_list p) @ x # drop (nat i) (vecp_list p)"
proof -
  obtain v' where v': "vec_emplace bits ok u p = (Some (vec_count p), Some v')" "vec_ok bits v'"
    "vec_cnt v' = vec_count p + 1" "take (nat (vec_count p)) (vec_data v') = vecp_list p"
    using vec_emplace_room [OF assms(1-3)] .
  obtain n k where n: "vec_count p = int n" and k: "i = int k" and kn: "k \<le> n"
    using assms(4,5) by (metis nonneg_int_cases of_nat_le_iff order_trans)
  let ?D = "vec_data v'"
  have len: "Suc n \<le> length ?D"
    using v'(2,3) n by (simp add: vec_ok_def)
  have mm: "memmove (i + 1) i (vec_cnt v' - i - 1) ?D =
      take (Suc k) ?D @ take (n - k) (drop k ?D) @ drop (Suc n) ?D"
    using kn v'(3) n k memmove_nat [of "Suc k" k "n - k" ?D] by (simp add: of_nat_diff algebra_simps)
  have D: "vecp_list p = take n ?D"
    using v'(4) n by simp
  have l: "take (Suc n) ((take (Suc k) ?D @ take (n - k) (drop k ?D) @ drop (Suc n) ?D)[k := x]) =
      take k (take n ?D) @ x # drop k (take n ?D)"
    using len kn by (simp add: take_Suc_conv_app_nth list_update_append drop_take min_def Suc_diff_le)
      linarith
  show ?thesis
    using v' mm l n k kn len
    by (auto simp: vec_insert_def vec_insert_emplace_def vec_store_def vec_list_def vec_ok_def
        D nat_add_distrib min_def)
qed

lemma vec_erase_list:
  assumes "vec_ok bits v" "0 \<le> i" "i < vec_cnt v"
  shows "vec_ok bits (vec_erase v i)"
    and "vec_list (vec_erase v i) = take (nat i) (vec_list v) @ drop (Suc (nat i)) (vec_list v)"
    and "vec_cnt (vec_erase v i) = vec_cnt v - 1"
proof -
  obtain n k where n: "vec_cnt v = int n" and k: "i = int k" and kn: "k < n"
    using assms(2,3) by (metis nonneg_int_cases of_nat_less_iff order_trans less_le)
  let ?D = "vec_data v"
  have len: "n \<le> length ?D"
    using assms(1) n by (simp add: vec_ok_def)
  have mm: "memmove i (i + 1) (vec_cnt v - 1 - i) ?D =
      take k ?D @ take (n - 1 - k) (drop (Suc k) ?D) @ drop (n - 1) ?D"
    using kn n k memmove_nat [of k "Suc k" "n - 1 - k" ?D] by (simp add: of_nat_diff algebra_simps)
  have l: "take (n - 1) ((take k ?D @ take (n - 1 - k) (drop (Suc k) ?D)) @ drop (n - 1) ?D) =
      take k (take n ?D) @ drop (Suc k) (take n ?D)"
    using kn len by (subst take_append_exact) (auto simp: drop_take min_def)
  show "vec_cnt (vec_erase v i) = vec_cnt v - 1"
    by (simp add: vec_erase_def Let_def)
  show "vec_ok bits (vec_erase v i)"
    using assms len by (simp add: vec_erase_def Let_def vec_ok_def)
  show "vec_list (vec_erase v i) = take (nat i) (vec_list v) @ drop (Suc (nat i)) (vec_list v)"
  proof -
    have "vec_list (vec_erase v i) =
        take (nat (vec_cnt v - 1)) (memmove i (i + 1) (vec_cnt v - 1 - i) ?D)"
      by (simp add: vec_erase_def Let_def vec_list_def)
    also have "nat (vec_cnt v - 1) = n - 1"
      using n by simp
    also note mm
    also have "take (n - 1) (take k ?D @ take (n - 1 - k) (drop (Suc k) ?D) @ drop (n - 1) ?D) =
        take k (take n ?D) @ drop (Suc k) (take n ?D)"
      using l by (simp only: append_assoc)
    finally show ?thesis
      by (simp add: vec_list_def n k)
  qed
qed

lemma vec_pop_list:
  assumes "vec_ok bits v" "vec_list v \<noteq> []" "vec_pop v = (x, v')"
  shows "vec_ok bits v'" "x = last (vec_list v)" "vec_list v' = butlast (vec_list v)"
  using assms vec_last_list [OF assms(1,2)]
  by (auto simp: vec_pop_def Let_def vec_ok_def vec_last_def vec_list_def butlast_take nat_diff_distrib)

lemma vec_store_list:
  assumes "vec_ok bits v" "0 \<le> i" "i < vec_cnt v"
  shows "vec_ok bits (vec_store i x v)" "vec_list (vec_store i x v) = (vec_list v)[nat i := x]"
    "vec_cnt (vec_store i x v) = vec_cnt v"
  using assms by (auto simp: vec_store_def vec_ok_def vec_list_def take_update_swap)

section \<open>Removing by a callback and reversing\<close>

lemma vec_list_split:
  assumes "vec_ok bits v" "0 \<le> i" "i < vec_cnt v"
  shows "vec_list v = take (nat i) (vec_list v) @ vec_data v ! nat i # drop (Suc (nat i)) (vec_list v)"
proof -
  have "nat i < length (vec_list v)"
    using assms length_vec_list [OF assms(1)] by linarith
  moreover have "vec_list v ! nat i = vec_data v ! nat i"
    using assms by (simp add: vec_list_def nat_less_iff)
  ultimately show ?thesis
    by (metis id_take_nth_drop)
qed

lemma vec_retain_loop_list:
  assumes "vec_ok bits v" "0 \<le> i" "i \<le> vec_cnt v" "vec_retain_loop f i v user = (r, v', user')"
  shows "vec_ok bits v' \<and>
    (case retain_list f (drop (nat i) (vec_list v)) user of (r1, ys, user1) \<Rightarrow>
       r = r1 \<and> vec_list v' = take (nat i) (vec_list v) @ ys \<and> user' = user1)"
  using assms
proof (induction f i v user arbitrary: r v' user' rule: vec_retain_loop.induct)
  case (1 f i v user)
  note ok = "1.prems"(1) and i = "1.prems"(2,3)
  show ?case
  proof (cases "i < vec_cnt v")
    case False
    then have "drop (nat i) (vec_list v) = []"
      using i length_vec_list [OF ok] by simp
    moreover have "take (nat i) (vec_list v) = vec_list v"
      using False i length_vec_list [OF ok] by simp
    ultimately show ?thesis
      using False "1.prems" by (simp add: vec_retain_loop.simps)
  next
    case True
    obtain res x us where f: "f (vec_data v ! nat i) user = (res, x, us)"
      by (metis surj_pair)
    let ?v = "vec_store i x v" and ?xs = "vec_list v"
    have k: "nat i < length ?xs"
      using True i length_vec_list [OF ok] by linarith
    have d: "drop (nat i) ?xs = vec_data v ! nat i # drop (Suc (nat i)) ?xs"
      using True i k by (simp add: Cons_nth_drop_Suc [symmetric] vec_list_nth [OF ok])
    note st = vec_store_list [OF ok i(1) True, of x]
    note er = vec_erase_list [OF st(1) i(1), unfolded st(2,3), OF True]
    consider (err) "res < 0" | (del) "0 < res" | (keep) "res = 0"
      by linarith
    then show ?thesis
    proof cases
      case err
      with True f "1.prems"(4) have "r = res" "v' = ?v" "user' = us"
        by (simp_all add: vec_retain_loop.simps [of f i v user] Let_def)
      with err st f d k show ?thesis
        by (simp add: upd_conv_take_nth_drop)
    next
      case del
      with True f "1.prems"(4) have "vec_retain_loop f i (vec_erase ?v i) us = (r, v', user')"
        by (simp add: vec_retain_loop.simps [of f i v user] Let_def)
      moreover have "take (nat i) (vec_list (vec_erase ?v i)) = take (nat i) ?xs"
        "drop (nat i) (vec_list (vec_erase ?v i)) = drop (Suc (nat i)) ?xs"
        using k by (simp_all add: er(2))
      ultimately show ?thesis
        using "1.IH"(1) [OF True f [symmetric] refl refl _ _ er(1) i(1)] True er(3) del f d
        by simp
    next
      case keep
      with True f "1.prems"(4) have "vec_retain_loop f (i + 1) ?v us = (r, v', user')"
        by (simp add: vec_retain_loop.simps [of f i v user] Let_def)
      moreover have "nat (i + 1) = Suc (nat i)"
        using i by simp
      moreover have "take (Suc (nat i)) (vec_list ?v) = take (nat i) ?xs @ [x]"
        "drop (Suc (nat i)) (vec_list ?v) = drop (Suc (nat i)) ?xs"
        using k by (simp_all add: st(2) take_Suc_conv_app_nth)
      ultimately show ?thesis
        using "1.IH"(2) [OF True f [symmetric] refl refl _ _ st(1)] True i st(3) keep f d
        by (simp split: prod.splits)
    qed
  qed
qed

lemma vec_retain_list:
  assumes "vecp_ok bits p" "vec_retain f p user = (r, p', user')"
  shows "vecp_ok bits p' \<and> retain_list f (vecp_list p) user = (r, vecp_list p', user')"
proof (cases p)
  case None
  with assms show ?thesis by (simp add: vec_retain_def)
next
  case (Some v)
  then obtain v' where v': "p' = Some v'" "vec_retain_loop f 0 v user = (r, v', user')"
    using assms(2) by (auto simp: vec_retain_def split: prod.splits)
  have "0 \<le> vec_cnt v"
    using assms(1) Some by (simp add: vec_ok_def)
  then show ?thesis
    using vec_retain_loop_list [OF _ _ _ v'(2), of bits] assms(1) Some v'(1)
    by (simp split: prod.splits)
qed

lemma vec_swap_list:
  assumes "vec_ok bits v" "0 \<le> a" "a < vec_cnt v" "0 \<le> b" "b < vec_cnt v"
  shows "vec_ok bits (vec_swap_values v a b)" "vec_cnt (vec_swap_values v a b) = vec_cnt v"
    "vec_list (vec_swap_values v a b) =
       (vec_list v)[nat a := vec_list v ! nat b, nat b := vec_list v ! nat a]"
  using assms
  by (simp_all add: vec_swap_values_def Let_def vec_ok_def vec_list_def take_update_swap)

text \<open>Swapping the ends and reversing what is between reverses a section.\<close>

lemma rev_section_step:
  assumes "s < e" "e < length xs"
  shows "take s xs @ rev (drop s (take (Suc e) xs)) @ drop (Suc e) xs =
    (let ys = xs[s := xs ! e, e := xs ! s]
     in take (Suc s) ys @ rev (drop (Suc s) (take e ys)) @ drop e ys)"
proof -
  obtain n where e: "e = Suc (s + n)"
    using assms(1) less_iff_Suc_add by auto
  obtain a b m c where xs: "xs = a @ [xs ! s] @ m @ [xs ! e] @ c" "length a = s" "length m = n"
  proof
    let ?ys = "drop (Suc s) xs"
    have "xs = take s xs @ xs ! s # ?ys"
      using assms by (intro id_take_nth_drop) simp
    moreover have "?ys = take n ?ys @ ?ys ! n # drop (Suc n) ?ys"
      using assms e by (intro id_take_nth_drop) simp
    moreover have "?ys ! n = xs ! e" "drop (Suc n) ?ys = drop (Suc e) xs"
      using assms e by (simp_all add: add.commute)
    ultimately show "xs = take s xs @ [xs ! s] @ take n (drop (Suc s) xs) @ [xs ! e] @ drop (Suc e) xs"
      by simp
  qed (use assms e in auto)
  define y z where yz: "y = xs ! s" "z = xs ! e"
  show ?thesis
    unfolding yz [symmetric] using xs(2,3) e
    by (subst (1 2 3 4) xs(1) [folded yz]) (simp add: Let_def list_update_append nth_append)
qed

lemma rev_take_one: "rev (take (Suc 0) zs) = take (Suc 0) zs"
  by (cases zs) auto

lemma vec_reverse_range_list:
  assumes "vec_ok bits v" "0 \<le> s" "s \<le> e" "e \<le> vec_cnt v"
  shows "vec_ok bits (vec_reverse_range v s e) \<and>
    vec_list (vec_reverse_range v s e) =
      take (nat s) (vec_list v) @ rev (drop (nat s) (take (nat e) (vec_list v))) @
      drop (nat e) (vec_list v)"
  using assms
proof (induction v s e rule: vec_reverse_range.induct)
  case (1 v s e)
  show ?case
  proof (cases "s < e - 1")
    case False
    then have "nat e = nat s \<or> nat e = Suc (nat s)"
      using "1.prems" by linarith
    moreover have "int (length (vec_list v)) = vec_cnt v"
      using "1.prems" by (simp add: length_vec_list)
    ultimately have "rev (drop (nat s) (take (nat e) (vec_list v))) = drop (nat s) (take (nat e) (vec_list v))"
      by (auto simp: drop_take rev_take_one)
    moreover have "take (nat s) (vec_list v) @ drop (nat s) (take (nat e) (vec_list v)) = take (nat e) (vec_list v)"
      using "1.prems" by (metis append_take_drop_id min_absorb1 nat_mono take_take)
    ultimately show ?thesis
      using False "1.prems"
      by (simp add: vec_reverse_range.simps [of v s e] Let_def flip: append_assoc)
  next
    case True
    note sw = vec_swap_list [OF "1.prems"(1,2), of "e - 1"]
    have b: "s < vec_cnt v" "0 \<le> e - 1" "e - 1 < vec_cnt v"
      using True "1.prems" by simp_all
    note sw = sw [OF b]
    have IH: "vec_ok bits (vec_reverse_range (vec_swap_values v s (e - 1)) (s + 1) (e - 1)) \<and>
      vec_list (vec_reverse_range (vec_swap_values v s (e - 1)) (s + 1) (e - 1)) =
        take (nat (s + 1)) (vec_list (vec_swap_values v s (e - 1))) @
        rev (drop (nat (s + 1)) (take (nat (e - 1)) (vec_list (vec_swap_values v s (e - 1))))) @
        drop (nat (e - 1)) (vec_list (vec_swap_values v s (e - 1)))"
      using "1.IH" [OF refl True sw(1)] True "1.prems" sw(2) by simp
    have n: "nat (s + 1) = Suc (nat s)" "nat e = Suc (nat (e - 1))" "nat s < nat (e - 1)"
      using True "1.prems" by linarith+
    have "nat (e - 1) < length (vec_list v)"
      using b length_vec_list [OF "1.prems"(1)] by linarith
    note rs = rev_section_step [OF n(3) this, unfolded Let_def]
    show ?thesis
      using True IH unfolding n(2) rs
      by (simp add: vec_reverse_range.simps [of v s e] Let_def n sw(3))
  qed
qed

end
