(* ===== verification/Sorted_Arrays.thy ===== *)
theory Sorted_Arrays
  imports Prelude
begin

text \<open>
  What the sorted containers (include/clither/bmap.h and bset.h) share: the binary search
  for the first key that is not less than a given one, and the shifts of the tail of an
  array that open and close a cell.
\<close>

section \<open>Binary search\<close>

text \<open>
  The loop of \<open>prefix_lower_bound\<close>, over the test \<open>kvs_less_than (kvs_get_key p middle) key\<close>.
\<close>

function lower_bound_loop :: "(int \<Rightarrow> bool) \<Rightarrow> int \<Rightarrow> int \<Rightarrow> int" where
  "lower_bound_loop lt found len =
     (if len > 0 then
        (let half = drop_bit 1 len;
             middle = found + half
         in if lt middle then lower_bound_loop lt (middle + 1) (len - half - 1)
            else lower_bound_loop lt found half)
      else found)"
  by pat_completeness auto
termination
  by (relation "measure (\<lambda>(l, f, n). nat n)") (auto simp: drop_bit_eq_div)

declare lower_bound_loop.simps [simp del]

lemma lower_bound_loop_partition:
  assumes "\<And>m. found \<le> m \<Longrightarrow> m < found + len \<Longrightarrow> lt m \<longleftrightarrow> m < lb" "found \<le> lb" "lb \<le> found + len"
  shows "lower_bound_loop lt found len = lb"
  using assms
proof (induction lt found len rule: lower_bound_loop.induct)
  case (1 lt found len)
  show ?case
  proof (cases "len > 0")
    case False
    then show ?thesis using "1.prems"(2,3) by (simp add: lower_bound_loop.simps)
  next
    case True
    define half where "half = drop_bit 1 len"
    have h: "0 \<le> half" "half < len"
      using True by (auto simp: half_def drop_bit_eq_div)
    show ?thesis
    proof (cases "lt (found + half)")
      case l: True
      then have "found + half < lb"
        using "1.prems"(1) [of "found + half"] h by simp
      then have "lower_bound_loop lt (found + half + 1) (len - half - 1) = lb"
        using l h "1.prems"
        by (intro "1.IH"(1) [OF True half_def refl]) auto
      then show ?thesis
        using l True by (simp add: lower_bound_loop.simps [of lt found len] Let_def half_def)
    next
      case nl: False
      then have "lb \<le> found + half"
        using "1.prems"(1) [of "found + half"] h by simp
      then have "lower_bound_loop lt found half = lb"
        using nl h "1.prems"
        by (intro "1.IH"(2) [OF True half_def refl]) auto
      then show ?thesis
        using nl True by (simp add: lower_bound_loop.simps [of lt found len] Let_def half_def)
    qed
  qed
qed

definition lb_pos :: "'k::linorder \<Rightarrow> 'k list \<Rightarrow> nat" where
  "lb_pos k xs = length (takeWhile (\<lambda>x. x < k) xs)"

lemma lb_pos_le: "lb_pos k xs \<le> length xs"
  by (simp add: lb_pos_def length_takeWhile_le)

lemma lb_pos_less: "i < lb_pos k xs \<Longrightarrow> xs ! i < k"
  unfolding lb_pos_def by (metis nth_mem set_takeWhileD takeWhile_nth)

lemma lb_pos_geq:
  assumes "sorted_wrt (<) xs" "lb_pos k xs \<le> i" "i < length xs"
  shows "\<not> xs ! i < k"
proof -
  have "lb_pos k xs < length xs"
    using assms(2,3) by simp
  then have n: "\<not> xs ! lb_pos k xs < k"
    unfolding lb_pos_def by (rule nth_length_takeWhile)
  show ?thesis
  proof (cases "lb_pos k xs = i")
    case False
    with assms have "xs ! lb_pos k xs < xs ! i"
      by (intro sorted_wrt_nth_less [of "(<)" xs]) auto
    with n show ?thesis by auto
  qed (use n in simp)
qed

lemma lower_bound_sorted:
  assumes "sorted_wrt (<) xs"
  shows "lower_bound_loop (\<lambda>m. xs ! nat m < k) 0 (int (length xs)) = int (lb_pos k xs)"
proof (rule lower_bound_loop_partition)
  fix m :: int
  assume m: "0 \<le> m" "m < 0 + int (length xs)"
  show "(xs ! nat m < k) = (m < int (lb_pos k xs))"
  proof (cases "nat m < lb_pos k xs")
    case True
    then show ?thesis using lb_pos_less [OF True] m by auto
  next
    case False
    then show ?thesis
      using lb_pos_geq [OF assms, of k "nat m"] m by auto
  qed
qed (use lb_pos_le [of k xs] in auto)

lemma lower_bound_loop_cong:
  assumes "\<And>m. found \<le> m \<Longrightarrow> m < found + len \<Longrightarrow> f m = g m"
  shows "lower_bound_loop f found len = lower_bound_loop g found len"
  using assms
proof (induction f found len rule: lower_bound_loop.induct)
  case (1 f found len)
  show ?case
  proof (cases "len > 0")
    case False
    then show ?thesis by (simp add: lower_bound_loop.simps)
  next
    case True
    define half where "half = drop_bit 1 len"
    have h: "0 \<le> half" "half < len"
      using True by (auto simp: half_def drop_bit_eq_div)
    have eq: "f (found + half) = g (found + half)"
      using h "1.prems" by simp
    have a: "f (found + half) \<Longrightarrow>
        lower_bound_loop f (found + half + 1) (len - half - 1) =
        lower_bound_loop g (found + half + 1) (len - half - 1)"
      using h "1.prems" by (intro "1.IH"(1) [OF True half_def refl]) auto
    have b: "\<not> f (found + half) \<Longrightarrow> lower_bound_loop f found half = lower_bound_loop g found half"
      using h "1.prems" by (intro "1.IH"(2) [OF True half_def refl]) auto
    show ?thesis
      using True a b eq unfolding half_def
      by (simp add: lower_bound_loop.simps [of f found len] lower_bound_loop.simps [of g found len]
          Let_def)
  qed
qed

section \<open>Keys of a strictly sorted list\<close>

lemma lb_pos_mem:
  assumes "sorted_wrt (<) xs"
  shows "k \<in> set xs \<longleftrightarrow> lb_pos k xs < length xs \<and> xs ! lb_pos k xs = k"
proof
  assume "k \<in> set xs"
  then obtain i where i: "i < length xs" "xs ! i = k"
    by (auto simp: in_set_conv_nth)
  have "\<not> i < lb_pos k xs"
    using lb_pos_less [of i k xs] i by auto
  moreover have "\<not> lb_pos k xs < i"
  proof
    assume *: "lb_pos k xs < i"
    then have "xs ! lb_pos k xs < xs ! i"
      using assms i by (intro sorted_wrt_nth_less [of "(<)" xs]) auto
    moreover have "\<not> xs ! lb_pos k xs < k"
      using * i by (intro lb_pos_geq [OF assms]) auto
    ultimately show False using i by simp
  qed
  ultimately show "lb_pos k xs < length xs \<and> xs ! lb_pos k xs = k"
    using i by (metis linorder_neqE_nat)
qed (auto simp: in_set_conv_nth)

lemma sorted_insert_lb:
  assumes "sorted_wrt (<) xs" "k \<notin> set xs"
  shows "sorted_wrt (<) (take (lb_pos k xs) xs @ k # drop (lb_pos k xs) xs)"
proof -
  have a: "x < k" if "x \<in> set (take (lb_pos k xs) xs)" for x
    using that lb_pos_less [of _ k xs] by (auto simp: in_set_conv_nth)
  have b: "k < x" if "x \<in> set (drop (lb_pos k xs) xs)" for x
  proof -
    obtain i where i: "lb_pos k xs \<le> i" "i < length xs" "x = xs ! i"
      using \<open>x \<in> set (drop (lb_pos k xs) xs)\<close>
      by (auto simp: in_set_conv_nth) (metis add.commute le_add2 less_diff_conv)
    have "\<not> x < k" "x \<noteq> k"
      using lb_pos_geq [OF assms(1) i(1,2)] i assms(2) by auto
    then show ?thesis by simp
  qed
  have "sorted_wrt (<) (take (lb_pos k xs) xs @ drop (lb_pos k xs) xs)"
    using assms(1) by simp
  then show ?thesis
    using a b by (auto simp: sorted_wrt_append simp del: append_take_drop_id)
qed

lemma sorted_remove_nth:
  assumes "sorted_wrt (<) xs"
  shows "sorted_wrt (<) (take i xs @ drop (Suc i) xs)"
proof (cases "i < length xs")
  case True
  have "sorted_wrt (<) (take i xs @ xs ! i # drop (Suc i) xs)"
    using assms id_take_nth_drop [OF True] by simp
  then show ?thesis by (auto simp: sorted_wrt_append)
qed (use assms in simp)

section \<open>Opening and closing a cell\<close>

lemma take_memmove_insert:
  assumes "k \<le> n" "Suc n \<le> length D"
  shows "take (Suc n) ((memmove (int k + 1) (int k) (int n - int k) D)[k := x]) =
    take k (take n D) @ x # drop k (take n D)"
proof -
  have "memmove (int k + 1) (int k) (int n - int k) D =
      take (Suc k) D @ take (n - k) (drop k D) @ drop (Suc n) D"
    using assms memmove_nat [of "Suc k" k "n - k" D] by (simp add: of_nat_diff algebra_simps)
  then show ?thesis
    using assms by (simp add: take_Suc_conv_app_nth list_update_append drop_take min_def Suc_diff_le)
      linarith
qed

lemma take_memmove_erase:
  assumes "k < n" "n \<le> length D"
  shows "take (n - Suc 0) (memmove (int k) (int k + 1) (int n - 1 - int k) D) =
    take k (take n D) @ drop (Suc k) (take n D)"
proof -
  have "memmove (int k) (int k + 1) (int n - 1 - int k) D =
      take k D @ take (n - 1 - k) (drop (Suc k) D) @ drop (n - 1) D"
    using assms memmove_nat [of k "Suc k" "n - 1 - k" D] by (simp add: of_nat_diff algebra_simps)
  then have "take (n - 1) (memmove (int k) (int k + 1) (int n - 1 - int k) D) =
      take (n - 1) ((take k D @ take (n - 1 - k) (drop (Suc k) D)) @ drop (n - 1) D)"
    by simp
  also have "\<dots> = take k (take n D) @ drop (Suc k) (take n D)"
    using assms by (subst take_append_exact) (auto simp: drop_take min_def)
  finally show ?thesis by simp
qed

lemma length_memmove_insert:
  "k \<le> n \<Longrightarrow> Suc n \<le> length D \<Longrightarrow>
   length (memmove (int k + 1) (int k) (int n - int k) D) = length D"
  by simp

lemma length_memmove_erase:
  "k < n \<Longrightarrow> n \<le> length D \<Longrightarrow>
   length (memmove (int k) (int k + 1) (int n - 1 - int k) D) = length D"
  by simp

section \<open>Doubling the size of a block\<close>

text \<open>
  The sorted containers keep the byte size of a block in a signed integer of their index
  width; a block of a multiple of 32 cells that is too large for it gives a negative size.
\<close>

lemma sx_mult_sx: "sx n (a * sx n b) = sx n (a * b)"
proof -
  define q where "q = (b + 2 ^ (n - 1)) div 2 ^ n"
  have e: "sx n b = b - 2 ^ n * q"
    by (simp add: sx_def q_def minus_mult_div_eq_mod [symmetric])
  have "a * sx n b + 2 ^ (n - 1) = (a * b + 2 ^ (n - 1)) + 2 ^ n * (- (a * q))"
    unfolding e by (simp add: algebra_simps)
  then have "(a * sx n b + 2 ^ (n - 1)) mod 2 ^ n = (a * b + 2 ^ (n - 1)) mod 2 ^ n"
    by (simp only: mod_mult_self2)
  then show ?thesis
    by (simp only: sx_def)
qed

lemma sx_wraps:
  fixes x :: int
  assumes "0 < n" "2 ^ (n - 1) \<le> x" "x < 2 ^ n"
  shows "sx n x = x - 2 ^ n"
  unfolding sx_def using assms two_pow_split [of n] by (subst mod_wrap_once) simp_all

lemma doubled_size_negative:
  fixes cap vsz hdr :: int
  assumes "6 < n" "0 < vsz" "hdr < 64" "0 < cap" "32 dvd cap" "vsz * cap < 2 ^ (n - 1)"
    and "2 ^ (n - 1) \<le> vsz * (cap * 2)"
  shows "hdr + sx n (vsz * sx n (cap * 2)) < 0" and "sx n (cap * 2) \<noteq> 0"
proof -
  let ?x = "vsz * (cap * 2)"
  have lt: "?x < 2 ^ n"
    using assms(1,6) two_pow_split [of n] by simp
  have s: "sx n (vsz * sx n (cap * 2)) = ?x - 2 ^ n"
    using assms(1,7) lt by (simp add: sx_mult_sx sx_wraps)
  have "(64::int) dvd 2 ^ n"
    using assms(1) le_imp_power_dvd [of 6 n "2::int"] by simp
  moreover have "(64::int) dvd ?x"
  proof -
    obtain c where "cap = 32 * c"
      using assms(5) by (elim dvdE)
    then have "?x = 64 * (vsz * c)" by simp
    then show ?thesis by (metis dvd_triv_left)
  qed
  ultimately have "(64::int) dvd 2 ^ n - ?x"
    by (rule dvd_diff)
  then have "64 \<le> 2 ^ n - ?x"
    using lt by (intro zdvd_imp_le) simp_all
  with s assms(3) show "hdr + sx n (vsz * sx n (cap * 2)) < 0"
    by linarith
  show "sx n (cap * 2) \<noteq> 0"
  proof
    assume "sx n (cap * 2) = 0"
    with s have "?x - 2 ^ n = sx n 0" by simp
    also have "sx n 0 = 0"
      using assms(1) by (intro sx_nonneg) simp_all
    finally show False using lt by simp
  qed
qed

end
