(* ===== verification/Bset.thy ===== *)
theory Bset
  imports Contracts Sorted_Arrays
begin

text \<open>
  The ordered set (include/clither/bset.h): one block with a header and the keys in ascending
  order. A pointer to a set is an option. The code has one instance, the acknowledgements
  that a snake waits for (\<open>bezier_pending_acks_bset\<close>, 32 bits).
\<close>

record 'k bset =
  bs_cnt :: int
  bs_cap :: int
  bs_keys :: "'k list"

record 'k bset_env =
  se_bits :: nat
  se_hdr :: int
  se_ksz :: int
  se_ok :: bool
  se_uk :: "nat \<Rightarrow> 'k"

section \<open>Operations\<close>

definition bs_init :: "'k bset option" where
  "bs_init = None"

definition bs_count :: "'k bset option \<Rightarrow> int" where
  "bs_count p = (case p of None \<Rightarrow> 0 | Some s \<Rightarrow> bs_cnt s)"

definition bs_clear :: "'k bset option \<Rightarrow> 'k bset option" where
  "bs_clear p = (case p of None \<Rightarrow> None | Some s \<Rightarrow> Some (s\<lparr>bs_cnt := 0\<rparr>))"

definition bs_kvs_realloc :: "'k bset_env \<Rightarrow> 'k bset option \<Rightarrow> int \<Rightarrow> int \<times> 'k bset option" where
  "bs_kvs_realloc E p new_capacity =
     (if new_capacity = 0 then (0, None)
      else
        let data = sx (se_bits E) (se_ksz E * new_capacity) in
        if \<not> se_ok E \<or> se_hdr E + data < 0 then (-1, p)
        else
          let cells = data div se_ksz E;
              s = (case p of
                  None \<Rightarrow> \<lparr>bs_cnt = 0, bs_cap = new_capacity, bs_keys = realloc_data (se_uk E) cells []\<rparr>
                | Some s \<Rightarrow> s\<lparr>bs_cap := new_capacity, bs_keys := realloc_data (se_uk E) cells (bs_keys s)\<rparr>)
          in (0, Some s))"

definition bs_kvs_insert :: "'k bset_env \<Rightarrow> 'k bset option \<Rightarrow> int \<Rightarrow> 'k \<Rightarrow> int \<times> 'k bset option" where
  "bs_kvs_insert E p idx key =
     (let full = (case p of None \<Rightarrow> True | Some s \<Rightarrow> bs_cnt s = bs_cap s);
          new_capacity = (case p of None \<Rightarrow> 32 | Some s \<Rightarrow> sx (se_bits E) (bs_cap s * 2));
          (r, p) = (if full then bs_kvs_realloc E p new_capacity else (0, p))
      in if r \<noteq> 0 then (-1, p)
         else (case p of None \<Rightarrow> (-1, None)
           | Some s \<Rightarrow>
               let n = bs_cnt s + 1;
                   d = memmove (idx + 1) idx (n - idx - 1) (bs_keys s)
               in (0, Some (s\<lparr>bs_cnt := n, bs_keys := d[nat idx := key]\<rparr>))))"

definition bs_kvs_erase :: "'k bset \<Rightarrow> int \<Rightarrow> 'k bset" where
  "bs_kvs_erase s idx =
     (let n = bs_cnt s - 1
      in s\<lparr>bs_cnt := n, bs_keys := memmove idx (idx + 1) (n - idx) (bs_keys s)\<rparr>)"

definition bs_kvs_get_key :: "'k bset \<Rightarrow> int \<Rightarrow> 'k" where
  "bs_kvs_get_key s idx = bs_keys s ! nat idx"

definition bs_lower_bound :: "'k::linorder bset option \<Rightarrow> 'k \<Rightarrow> int" where
  "bs_lower_bound p key =
     (case p of None \<Rightarrow> 0
      | Some s \<Rightarrow> lower_bound_loop (\<lambda>middle. bs_kvs_get_key s middle < key) 0 (bs_cnt s))"

definition bs_key_at :: "'k bset option \<Rightarrow> int \<Rightarrow> 'k \<Rightarrow> bool" where
  "bs_key_at p idx key = (case p of None \<Rightarrow> False
     | Some s \<Rightarrow> idx < bs_cnt s \<and> key = bs_kvs_get_key s idx)"

definition bs_compact :: "'k bset_env \<Rightarrow> 'k bset option \<Rightarrow> 'k bset option" where
  "bs_compact E p = snd (bs_kvs_realloc E p (bs_count p))"

definition bs_insert :: "'k::linorder bset_env \<Rightarrow> 'k bset option \<Rightarrow> 'k \<Rightarrow> ins_status \<times> 'k bset option" where
  "bs_insert E p key =
     (let idx = bs_lower_bound p key
      in if bs_key_at p idx key then (Exists, p)
         else case bs_kvs_insert E p idx key of (r, p) \<Rightarrow> if r \<noteq> 0 then (Oom, p) else (New, p))"

definition bs_erase :: "'k::linorder bset option \<Rightarrow> 'k \<Rightarrow> bool \<times> 'k bset option" where
  "bs_erase p key =
     (let idx = bs_lower_bound p key
      in if bs_key_at p idx key then (True, map_option (\<lambda>s. bs_kvs_erase s idx) p) else (False, p))"

definition bs_find :: "'k::linorder bset option \<Rightarrow> 'k \<Rightarrow> bool" where
  "bs_find p key = bs_key_at p (bs_lower_bound p key) key"

function bs_retain_loop ::
  "('k \<Rightarrow> 'u \<Rightarrow> int \<times> 'u) \<Rightarrow> int \<Rightarrow> 'k bset \<Rightarrow> 'u \<Rightarrow> int \<times> 'k bset \<times> 'u" where
  "bs_retain_loop f i s user =
     (if i < bs_cnt s then
        (case f (bs_kvs_get_key s i) user of (result, user) \<Rightarrow>
           if result < 0 then (result, s, user)
           else if result \<noteq> 0 then bs_retain_loop f i (bs_kvs_erase s i) user
           else bs_retain_loop f (i + 1) s user)
      else (0, s, user))"
  by pat_completeness auto
termination
  by (relation "measure (\<lambda>(f, i, s, user). nat (bs_cnt s - i))")
     (auto simp: bs_kvs_erase_def Let_def)

declare bs_retain_loop.simps [simp del]

definition bs_retain ::
  "('k \<Rightarrow> 'u \<Rightarrow> int \<times> 'u) \<Rightarrow> 'k bset option \<Rightarrow> 'u \<Rightarrow> int \<times> 'k bset option \<times> 'u" where
  "bs_retain f p user =
     (case p of None \<Rightarrow> (0, None, user)
      | Some s \<Rightarrow> (case bs_retain_loop f 0 s user of (r, s, user) \<Rightarrow> (r, Some s, user)))"

section \<open>Representation\<close>

definition bs_list :: "'k bset \<Rightarrow> 'k list" where
  "bs_list s = take (nat (bs_cnt s)) (bs_keys s)"

definition bsp_list :: "'k bset option \<Rightarrow> 'k list" where
  "bsp_list p = (case p of None \<Rightarrow> [] | Some s \<Rightarrow> bs_list s)"

definition bs_ok :: "'k::linorder bset_env \<Rightarrow> 'k bset \<Rightarrow> bool" where
  "bs_ok E s \<longleftrightarrow>
     0 \<le> bs_cnt s \<and> bs_cnt s \<le> bs_cap s \<and> 0 < bs_cap s \<and> 32 dvd bs_cap s \<and>
     se_ksz E * bs_cap s < 2 ^ (se_bits E - 1) \<and>
     int (length (bs_keys s)) = bs_cap s \<and> sorted_wrt (<) (bs_list s)"

definition bsp_ok :: "'k::linorder bset_env \<Rightarrow> 'k bset option \<Rightarrow> bool" where
  "bsp_ok E p \<longleftrightarrow> (case p of None \<Rightarrow> True | Some s \<Rightarrow> bs_ok E s)"

definition se_ok_inst :: "'k bset_env \<Rightarrow> bool" where
  "se_ok_inst E \<longleftrightarrow> 6 < se_bits E \<and> 0 \<le> se_hdr E \<and> se_hdr E < 64 \<and> 0 < se_ksz E \<and>
     se_ksz E * 32 < 2 ^ (se_bits E - 1)"

definition bs_can_grow :: "'k bset_env \<Rightarrow> 'k bset option \<Rightarrow> bool" where
  "bs_can_grow E p \<longleftrightarrow>
     (case p of None \<Rightarrow> se_ok E
      | Some s \<Rightarrow> bs_cnt s = bs_cap s \<longrightarrow> se_ok E \<and> se_ksz E * (bs_cap s * 2) < 2 ^ (se_bits E - 1))"

lemma bsp_simps [simp]:
  "bsp_ok E None" "bsp_ok E (Some s) = bs_ok E s"
  "bs_count None = 0" "bs_count (Some s) = bs_cnt s"
  "bsp_list None = []" "bsp_list (Some s) = bs_list s"
  "bs_lower_bound None k = 0" "\<not> bs_key_at None i k"
  by (simp_all add: bsp_ok_def bs_count_def bsp_list_def bs_lower_bound_def bs_key_at_def)

lemma bs_shape:
  assumes "bs_ok E s"
  shows "length (bs_keys s) = nat (bs_cap s)" "nat (bs_cnt s) \<le> nat (bs_cap s)" "0 \<le> bs_cnt s"
    "int (length (bs_list s)) = bs_cnt s"
  using assms by (auto simp: bs_ok_def bs_list_def)

lemma bs_key_nth: "i < nat (bs_cnt s) \<Longrightarrow> bs_keys s ! i = bs_list s ! i"
  by (simp add: bs_list_def)

section \<open>Searching\<close>

lemma bs_lower_bound_sorted:
  assumes "bs_ok E s"
  shows "bs_lower_bound (Some s) k = int (lb_pos k (bs_list s))"
proof -
  have "bs_lower_bound (Some s) k =
      lower_bound_loop (\<lambda>i. bs_list s ! nat i < k) 0 (bs_cnt s)"
    unfolding bs_lower_bound_def option.case
    by (rule lower_bound_loop_cong) (simp add: bs_kvs_get_key_def bs_key_nth)
  also have "bs_cnt s = int (length (bs_list s))"
    using bs_shape [OF assms] by simp
  also have "lower_bound_loop (\<lambda>i. bs_list s ! nat i < k) 0 \<dots> = int (lb_pos k (bs_list s))"
    using assms by (intro lower_bound_sorted) (simp add: bs_ok_def)
  finally show ?thesis .
qed

text \<open>\<open>prefix_find\<close> decides membership.\<close>

lemma bs_find_mem:
  assumes "bsp_ok E p"
  shows "bs_find p k \<longleftrightarrow> k \<in> set (bsp_list p)"
proof (cases p)
  case (Some s)
  then have ok: "bs_ok E s" using assms by simp
  have "k \<in> set (bs_list s) \<longleftrightarrow> lb_pos k (bs_list s) < length (bs_list s) \<and> bs_list s ! lb_pos k (bs_list s) = k"
    using lb_pos_mem [of "bs_list s" k] ok by (simp add: bs_ok_def)
  moreover have "lb_pos k (bs_list s) < nat (bs_cnt s) \<longleftrightarrow> int (lb_pos k (bs_list s)) < bs_cnt s"
    by linarith
  ultimately show ?thesis
    using Some bs_shape(4) [OF ok] bs_key_nth [of "lb_pos k (bs_list s)" s]
    by (auto simp: bs_find_def bs_key_at_def bs_lower_bound_sorted [OF ok] bs_kvs_get_key_def)
qed (simp add: bs_find_def)

section \<open>Inserting and erasing\<close>

definition bs_reserve :: "'k bset_env \<Rightarrow> 'k bset option \<Rightarrow> int \<times> 'k bset option" where
  "bs_reserve E p =
     (if (case p of None \<Rightarrow> True | Some s \<Rightarrow> bs_cnt s = bs_cap s)
      then bs_kvs_realloc E p (case p of None \<Rightarrow> 32 | Some s \<Rightarrow> sx (se_bits E) (bs_cap s * 2))
      else (0, p))"

lemma bs_kvs_insert_reserve:
  "bs_kvs_insert E p idx key =
     (case bs_reserve E p of (r, p) \<Rightarrow>
        if r \<noteq> 0 then (-1, p)
        else (case p of None \<Rightarrow> (-1, None)
          | Some s \<Rightarrow> (0, Some (s\<lparr>bs_cnt := bs_cnt s + 1,
              bs_keys := (memmove (idx + 1) idx (bs_cnt s - idx) (bs_keys s))[nat idx := key]\<rparr>))))"
  by (simp add: bs_kvs_insert_def bs_reserve_def Let_def split: prod.splits option.splits)

lemma bs_reserve_full:
  assumes "bsp_ok E p" "se_ok_inst E" "\<not> bs_can_grow E p"
  shows "bs_reserve E p = (-1, p)"
proof (cases p)
  case None
  then show ?thesis
    using assms(3) by (simp add: bs_reserve_def bs_can_grow_def bs_kvs_realloc_def)
next
  case (Some s)
  then have full: "bs_cnt s = bs_cap s" and ok: "bs_ok E s"
    and g: "\<not> (se_ok E \<and> se_ksz E * (bs_cap s * 2) < 2 ^ (se_bits E - 1))"
    using assms by (auto simp: bs_can_grow_def)
  have E: "6 < se_bits E" "0 < se_ksz E" "se_hdr E < 64"
    using assms(2) by (simp_all add: se_ok_inst_def)
  have c: "0 < bs_cap s" "32 dvd bs_cap s" "se_ksz E * bs_cap s < 2 ^ (se_bits E - 1)"
    using ok by (simp_all add: bs_ok_def)
  show ?thesis
  proof (cases "2 ^ (se_bits E - 1) \<le> se_ksz E * (bs_cap s * 2)")
    case True
    with doubled_size_negative [OF E c True] Some full show ?thesis
      by (simp add: bs_reserve_def bs_kvs_realloc_def Let_def)
  next
    case False
    with g have nok: "\<not> se_ok E" by simp
    have "bs_cap s * 2 \<le> se_ksz E * (bs_cap s * 2)"
      using c(1) E(2) by simp
    with False have "bs_cap s * 2 < 2 ^ (se_bits E - 1)"
      by linarith
    then have "sx (se_bits E) (bs_cap s * 2) = bs_cap s * 2"
      using c(1) E(1) by (intro sx_nonneg) simp_all
    then show ?thesis
      using Some full nok c(1) by (simp add: bs_reserve_def bs_kvs_realloc_def)
  qed
qed

lemma bs_reserve_room:
  assumes "bsp_ok E p" "se_ok_inst E" "bs_can_grow E p"
  obtains s where "bs_reserve E p = (0, Some s)" "bs_ok E s" "bs_cnt s < bs_cap s"
    "bs_list s = bsp_list p" "bs_cnt s = bs_count p"
proof -
  have E: "6 < se_bits E" "0 < se_ksz E" "0 \<le> se_hdr E" "se_ksz E * 32 < 2 ^ (se_bits E - 1)"
    using assms(2) by (simp_all add: se_ok_inst_def)
  show ?thesis
  proof (cases p)
    case None
    have "sx (se_bits E) (se_ksz E * 32) = se_ksz E * 32" "\<not> se_hdr E + se_ksz E * 32 < 0"
      using E by (auto intro!: sx_nonneg simp: not_less)
    then show ?thesis
      using None E assms(3)
      by (intro that [of "\<lparr>bs_cnt = 0, bs_cap = 32, bs_keys = realloc_data (se_uk E) 32 []\<rparr>"])
         (auto simp: bs_reserve_def bs_kvs_realloc_def bs_can_grow_def bs_ok_def bs_list_def Let_def)
  next
    case (Some s)
    then have ok: "bs_ok E s" using assms(1) by simp
    note sh = bs_shape [OF ok]
    show ?thesis
    proof (cases "bs_cnt s = bs_cap s")
      case False
      then show ?thesis
        using Some ok by (intro that [of s]) (auto simp: bs_reserve_def bs_ok_def)
    next
      case True
      let ?c = "bs_cap s * 2"
      have g: "se_ok E" "se_ksz E * ?c < 2 ^ (se_bits E - 1)" and c: "0 < bs_cap s"
        using assms Some True ok by (auto simp: bs_can_grow_def bs_ok_def)
      have le: "?c \<le> se_ksz E * ?c"
        using E(2) c by simp
      have lt: "?c < 2 ^ (se_bits E - 1)"
        using le g(2) by (rule le_less_trans)
      have s: "sx (se_bits E) ?c = ?c" "sx (se_bits E) (se_ksz E * ?c) = se_ksz E * ?c"
        using lt le c g(2) E(1) by (intro sx_nonneg; simp)+
      have nn: "\<not> se_hdr E + se_ksz E * ?c < 0"
        using E(3) le c by linarith
      have q: "se_ksz E * ?c div se_ksz E = ?c"
        using E(2) by simp
      let ?s = "s\<lparr>bs_cap := ?c, bs_keys := realloc_data (se_uk E) ?c (bs_keys s)\<rparr>"
      have al: "bs_list ?s = bs_list s"
        using sh c True by (simp add: bs_list_def take_realloc_data)
      show ?thesis
      proof (rule that [of ?s])
        show "bs_reserve E p = (0, Some ?s)"
          using c g(1) nn
          by (simp add: bs_reserve_def bs_kvs_realloc_def Let_def Some True s q del: mult_cancel_left)
        show "bs_ok E ?s"
          using ok g c al by (auto simp: bs_ok_def)
      qed (use Some True c al in simp_all)
    qed
  qed
qed

lemma bs_insert_spec:
  assumes "bsp_ok E p" "se_ok_inst E"
  shows "if k \<in> set (bsp_list p) then bs_insert E p k = (Exists, p)
    else if bs_can_grow E p
    then \<exists>s. bs_insert E p k = (New, Some s) \<and> bs_ok E s \<and>
           bs_list s = take (lb_pos k (bsp_list p)) (bsp_list p) @ k # drop (lb_pos k (bsp_list p)) (bsp_list p)
    else bs_insert E p k = (Oom, p)"
proof -
  have at: "bs_key_at p (bs_lower_bound p k) k \<longleftrightarrow> k \<in> set (bsp_list p)"
    using bs_find_mem [OF assms(1), of k] by (simp add: bs_find_def)
  show ?thesis
  proof (cases "k \<in> set (bsp_list p)")
    case False
    show ?thesis
    proof (cases "bs_can_grow E p")
      case cg: False
      then show ?thesis
        using False at bs_reserve_full [OF assms cg]
        by (simp add: bs_insert_def bs_kvs_insert_reserve Let_def)
    next
      case True
      obtain s where s: "bs_reserve E p = (0, Some s)" "bs_ok E s" "bs_cnt s < bs_cap s"
        "bs_list s = bsp_list p" "bs_cnt s = bs_count p"
        using bs_reserve_room [OF assms True] .
      note sh = bs_shape [OF s(2)]
      let ?k = "lb_pos k (bs_list s)"
      obtain n where n: "bs_cnt s = int n"
        using sh(3) by (metis nonneg_int_cases)
      have kn: "?k \<le> n"
        using lb_pos_le [of k "bs_list s"] sh(4) n by simp
      have len: "Suc n \<le> length (bs_keys s)"
        using sh(1) s(3) n by simp
      have lb: "bs_lower_bound p k = int ?k"
        using assms(1) s(4) by (cases p) (simp_all add: bs_lower_bound_sorted lb_pos_def)
      let ?s = "s\<lparr>bs_cnt := int n + 1,
        bs_keys := (memmove (int ?k + 1) (int ?k) (int n - int ?k) (bs_keys s))[?k := k]\<rparr>"
      have i: "bs_insert E p k = (New, Some ?s)"
        using False at lb s(1) n by (simp add: bs_insert_def bs_kvs_insert_reserve Let_def)
      have l: "bs_list ?s = take ?k (bs_list s) @ k # drop ?k (bs_list s)"
        using kn len by (simp add: bs_list_def n nat_add_distrib take_memmove_insert)
      have "sorted_wrt (<) (bs_list ?s)"
        unfolding l using False s(2,4) by (intro sorted_insert_lb) (simp_all add: bs_ok_def)
      then have "bs_ok E ?s"
        using s(2,3) n kn len by (simp add: bs_ok_def length_memmove_insert)
      with i l False True s(4) show ?thesis by auto
    qed
  qed (simp add: bs_insert_def at Let_def)
qed

lemma bs_insert_set:
  assumes "bsp_ok E p" "se_ok_inst E"
  shows "bsp_ok E (snd (bs_insert E p k))"
    and "set (bsp_list (snd (bs_insert E p k))) =
      (if bs_can_grow E p then insert k (set (bsp_list p)) else set (bsp_list p))"
proof -
  have "set xs = set (take i xs) \<union> set (drop i xs)" for i and xs :: "'a list"
    by (metis append_take_drop_id set_append)
  then show "set (bsp_list (snd (bs_insert E p k))) =
      (if bs_can_grow E p then insert k (set (bsp_list p)) else set (bsp_list p))"
    using bs_insert_spec [OF assms, of k] by (auto split: if_splits)
  show "bsp_ok E (snd (bs_insert E p k))"
    using bs_insert_spec [OF assms, of k] assms(1) by (auto split: if_splits)
qed

lemma bs_kvs_erase_list:
  assumes "bs_ok E s" "k < nat (bs_cnt s)"
  shows "bs_ok E (bs_kvs_erase s (int k))"
    and "bs_list (bs_kvs_erase s (int k)) = take k (bs_list s) @ drop (Suc k) (bs_list s)"
proof -
  note sh = bs_shape [OF assms(1)]
  obtain n where n: "bs_cnt s = int n" "k < n"
    using sh(3) assms(2) by (metis nat_int nonneg_int_cases)
  have len: "n \<le> length (bs_keys s)"
    using sh n by simp
  show l: "bs_list (bs_kvs_erase s (int k)) = take k (bs_list s) @ drop (Suc k) (bs_list s)"
    using n len by (simp add: bs_kvs_erase_def Let_def bs_list_def nat_diff_distrib take_memmove_erase)
  have "sorted_wrt (<) (bs_list (bs_kvs_erase s (int k)))"
    using sorted_remove_nth [of "bs_list s" k] assms(1) by (simp add: l bs_ok_def)
  then show "bs_ok E (bs_kvs_erase s (int k))"
    using assms(1) n len by (simp add: bs_ok_def bs_kvs_erase_def Let_def length_memmove_erase)
qed

lemma bs_erase_set:
  assumes "bsp_ok E p"
  shows "fst (bs_erase p k) = (k \<in> set (bsp_list p))"
    and "bsp_ok E (snd (bs_erase p k))"
    and "set (bsp_list (snd (bs_erase p k))) = set (bsp_list p) - {k}"
proof -
  have at: "bs_key_at p (bs_lower_bound p k) k \<longleftrightarrow> k \<in> set (bsp_list p)"
    using bs_find_mem [OF assms, of k] by (simp add: bs_find_def)
  then show "fst (bs_erase p k) = (k \<in> set (bsp_list p))"
    by (simp add: bs_erase_def Let_def)
  have *: "bsp_ok E (snd (bs_erase p k)) \<and> set (bsp_list (snd (bs_erase p k))) = set (bsp_list p) - {k}"
  proof (cases "k \<in> set (bsp_list p)")
    case True
    then obtain s where s: "p = Some s" "bs_ok E s" "k \<in> set (bs_list s)"
      using assms by (cases p) auto
    let ?k = "lb_pos k (bs_list s)"
    have srt: "sorted_wrt (<) (bs_list s)"
      using s(2) by (simp add: bs_ok_def)
    have lt: "?k < length (bs_list s)" "bs_list s ! ?k = k"
      using lb_pos_mem [OF srt] s(3) by auto
    have e: "bs_list s = take ?k (bs_list s) @ k # drop (Suc ?k) (bs_list s)"
      using id_take_nth_drop [OF lt(1)] lt(2) by simp
    have "distinct (take ?k (bs_list s) @ k # drop (Suc ?k) (bs_list s))"
      using srt e by (simp add: strict_sorted_iff flip: e)
    moreover have "set (bs_list s) = set (take ?k (bs_list s) @ k # drop (Suc ?k) (bs_list s))"
      by (subst e) simp
    ultimately have "set (take ?k (bs_list s) @ drop (Suc ?k) (bs_list s)) = set (bs_list s) - {k}"
      by auto
    moreover have "?k < nat (bs_cnt s)"
      using lt(1) bs_shape(4) [OF s(2)] by linarith
    ultimately show ?thesis
      using bs_kvs_erase_list [OF s(2), of ?k] True at s(1)
      by (simp add: bs_erase_def Let_def bs_lower_bound_sorted [OF s(2)])
  next
    case False
    then show ?thesis
      using at assms by (simp add: bs_erase_def Let_def)
  qed
  then show "bsp_ok E (snd (bs_erase p k))"
    "set (bsp_list (snd (bs_erase p k))) = set (bsp_list p) - {k}"
    by simp_all
qed

end
