(* ===== verification/Bmap.thy ===== *)
theory Bmap
  imports Contracts Sorted_Arrays
begin

text \<open>
  The ordered map (include/clither/bmap.h): the values follow a header in one block, the keys
  are a second block, both sorted by key. A pointer to a map is an option. \<open>None\<close> as the
  result of an operation stands for undefined behaviour: the caller goes on with a pointer
  that \<open>mem_realloc\<close> has already freed.
\<close>

record ('k, 'v) bmap =
  bm_cnt :: int
  bm_cap :: int
  bm_keys :: "'k list"
  bm_vals :: "'v list"

text \<open>
  What the macro is instantiated with (index width, \<open>sizeof(V)\<close> and the offset of the values)
  and what the allocator does: whether the block and the keys can be had, and what fresh
  memory holds.
\<close>

record ('k, 'v) bmap_env =
  be_bits :: nat
  be_hdr :: int
  be_vsz :: int
  be_ok :: bool
  be_kok :: bool
  be_uk :: "nat \<Rightarrow> 'k"
  be_uv :: "nat \<Rightarrow> 'v"

section \<open>The default key and value storage\<close>

definition bm_count :: "('k, 'v) bmap option \<Rightarrow> int" where
  "bm_count p = (case p of None \<Rightarrow> 0 | Some m \<Rightarrow> bm_cnt m)"

definition bm_capacity :: "('k, 'v) bmap option \<Rightarrow> int" where
  "bm_capacity p = (case p of None \<Rightarrow> 0 | Some m \<Rightarrow> bm_cap m)"

definition bm_init :: "('k, 'v) bmap option" where
  "bm_init = None"

definition bm_clear :: "('k, 'v) bmap option \<Rightarrow> ('k, 'v) bmap option" where
  "bm_clear p = (case p of None \<Rightarrow> None | Some m \<Rightarrow> Some (m\<lparr>bm_cnt := 0\<rparr>))"

text \<open>
  The size of the values is kept in the index type; a negative request is beyond any
  allocator. When the second request fails the first has already moved the block.
\<close>

definition bm_kvs_realloc ::
  "('k, 'v) bmap_env \<Rightarrow> ('k, 'v) bmap option \<Rightarrow> int \<Rightarrow> (int \<times> ('k, 'v) bmap option) option" where
  "bm_kvs_realloc E p new_capacity =
     (if new_capacity = 0 then Some (0, None)
      else
        let data = sx (be_bits E) (be_vsz E * new_capacity) in
        if \<not> be_ok E \<or> be_hdr E + data < 0 then Some (-1, p)
        else
          let cells = data div be_vsz E;
              m = (case p of
                  None \<Rightarrow> \<lparr>bm_cnt = 0, bm_cap = new_capacity, bm_keys = [],
                           bm_vals = realloc_data (be_uv E) cells []\<rparr>
                | Some m \<Rightarrow> m\<lparr>bm_cap := new_capacity, bm_vals := realloc_data (be_uv E) cells (bm_vals m)\<rparr>)
          in if \<not> be_kok E \<or> new_capacity < 0
             then (case p of None \<Rightarrow> Some (-1, None) | Some _ \<Rightarrow> None)
             else Some (0, Some (m\<lparr>bm_keys := realloc_data (be_uk E) new_capacity (bm_keys m)\<rparr>)))"

definition bm_kvs_emplace ::
  "('k, 'v) bmap_env \<Rightarrow> ('k, 'v) bmap option \<Rightarrow> int \<Rightarrow> 'k \<Rightarrow>
   (int option \<times> ('k, 'v) bmap option) option" where
  "bm_kvs_emplace E p idx key =
     (let full = (case p of None \<Rightarrow> True | Some m \<Rightarrow> bm_cnt m = bm_cap m);
          new_capacity = (case p of None \<Rightarrow> 32 | Some m \<Rightarrow> sx (be_bits E) (bm_cap m * 2))
      in case (if full then bm_kvs_realloc E p new_capacity else Some (0, p)) of
           None \<Rightarrow> None
         | Some (r, p) \<Rightarrow>
             if r \<noteq> 0 then Some (None, p)
             else (case p of
                 None \<Rightarrow> None
               | Some m \<Rightarrow>
                   let n = bm_cnt m + 1;
                       m = m\<lparr>bm_cnt := n,
                             bm_keys := memmove (idx + 1) idx (n - idx - 1) (bm_keys m),
                             bm_vals := memmove (idx + 1) idx (n - idx - 1) (bm_vals m)\<rparr>
                   in Some (Some idx, Some (m\<lparr>bm_keys := (bm_keys m)[nat idx := key]\<rparr>))))"

definition bm_kvs_erase :: "('k, 'v) bmap \<Rightarrow> int \<Rightarrow> ('k, 'v) bmap" where
  "bm_kvs_erase m idx =
     (let n = bm_cnt m - 1
      in m\<lparr>bm_cnt := n,
           bm_keys := memmove idx (idx + 1) (n - idx) (bm_keys m),
           bm_vals := memmove idx (idx + 1) (n - idx) (bm_vals m)\<rparr>)"

definition bm_kvs_get_key :: "('k, 'v) bmap \<Rightarrow> int \<Rightarrow> 'k" where
  "bm_kvs_get_key m idx = bm_keys m ! nat idx"

definition bm_kvs_get_value :: "('k, 'v) bmap \<Rightarrow> int \<Rightarrow> 'v" where
  "bm_kvs_get_value m idx = bm_vals m ! nat idx"

definition bm_kvs_set_value :: "('k, 'v) bmap \<Rightarrow> int \<Rightarrow> 'v \<Rightarrow> ('k, 'v) bmap" where
  "bm_kvs_set_value m idx v = m\<lparr>bm_vals := (bm_vals m)[nat idx := v]\<rparr>"

section \<open>Operations\<close>

definition bm_lower_bound :: "('k::linorder, 'v) bmap option \<Rightarrow> 'k \<Rightarrow> int" where
  "bm_lower_bound p key =
     (case p of None \<Rightarrow> 0
      | Some m \<Rightarrow> lower_bound_loop (\<lambda>middle. bm_kvs_get_key m middle < key) 0 (bm_cnt m))"

definition bm_compact ::
  "('k, 'v) bmap_env \<Rightarrow> ('k, 'v) bmap option \<Rightarrow> ('k, 'v) bmap option option" where
  "bm_compact E p = map_option snd (bm_kvs_realloc E p (bm_count p))"

definition bm_key_at :: "('k, 'v) bmap option \<Rightarrow> int \<Rightarrow> 'k \<Rightarrow> bool" where
  "bm_key_at p idx key = (case p of None \<Rightarrow> False
     | Some m \<Rightarrow> idx < bm_cnt m \<and> key = bm_kvs_get_key m idx)"

text \<open>Emplacing yields the index of the value the code returns a pointer to.\<close>

definition bm_emplace_new ::
  "('k::linorder, 'v) bmap_env \<Rightarrow> ('k, 'v) bmap option \<Rightarrow> 'k \<Rightarrow>
   (ins_status \<times> int option \<times> ('k, 'v) bmap option) option" where
  "bm_emplace_new E p key =
     (let idx = bm_lower_bound p key
      in if bm_key_at p idx key then Some (Exists, None, p)
         else case bm_kvs_emplace E p idx key of
             None \<Rightarrow> None
           | Some (None, p) \<Rightarrow> Some (Oom, None, p)
           | Some (Some i, p) \<Rightarrow> Some (New, Some i, p))"

definition bm_emplace_or_get ::
  "('k::linorder, 'v) bmap_env \<Rightarrow> ('k, 'v) bmap option \<Rightarrow> 'k \<Rightarrow>
   (ins_status \<times> int option \<times> ('k, 'v) bmap option) option" where
  "bm_emplace_or_get E p key =
     (let idx = bm_lower_bound p key
      in if bm_key_at p idx key then Some (Exists, Some idx, p)
         else case bm_kvs_emplace E p idx key of
             None \<Rightarrow> None
           | Some (None, p) \<Rightarrow> Some (Oom, None, p)
           | Some (Some i, p) \<Rightarrow> Some (New, Some i, p))"

definition bm_insert_new ::
  "('k::linorder, 'v) bmap_env \<Rightarrow> ('k, 'v) bmap option \<Rightarrow> 'k \<Rightarrow> 'v \<Rightarrow>
   (ins_status \<times> ('k, 'v) bmap option) option" where
  "bm_insert_new E p key value =
     (case bm_emplace_new E p key of
        None \<Rightarrow> None
      | Some (New, Some i, Some m) \<Rightarrow> Some (New, Some (bm_kvs_set_value m i value))
      | Some (status, _, p) \<Rightarrow> Some (status, p))"

definition bm_insert_update ::
  "('k::linorder, 'v) bmap_env \<Rightarrow> ('k, 'v) bmap option \<Rightarrow> 'k \<Rightarrow> 'v \<Rightarrow>
   (ins_status \<times> ('k, 'v) bmap option) option" where
  "bm_insert_update E p key value =
     (case bm_emplace_or_get E p key of
        None \<Rightarrow> None
      | Some (Oom, _, p) \<Rightarrow> Some (Oom, p)
      | Some (status, Some i, Some m) \<Rightarrow> Some (status, Some (bm_kvs_set_value m i value))
      | Some (status, _, _) \<Rightarrow> None)"

definition bm_erase :: "('k::linorder, 'v) bmap option \<Rightarrow> 'k \<Rightarrow> bool \<times> ('k, 'v) bmap option" where
  "bm_erase p key =
     (let idx = bm_lower_bound p key
      in if bm_key_at p idx key then (True, map_option (\<lambda>m. bm_kvs_erase m idx) p) else (False, p))"

definition bm_find :: "('k::linorder, 'v) bmap option \<Rightarrow> 'k \<Rightarrow> 'v option" where
  "bm_find p key =
     (case p of None \<Rightarrow> None
      | Some m \<Rightarrow>
          let idx = bm_lower_bound p key
          in if idx = bm_cnt m \<or> key \<noteq> bm_kvs_get_key m idx then None
             else Some (bm_kvs_get_value m idx))"

text \<open>
  Removing by a callback that is given the key and may write the value and a state of its
  own. The index never passes the count, so the guard \<open>i != count\<close> is written \<open><\<close>.
\<close>

function bm_retain_loop ::
  "('k \<Rightarrow> 'v \<Rightarrow> 'u \<Rightarrow> int \<times> 'v \<times> 'u) \<Rightarrow> int \<Rightarrow> ('k, 'v) bmap \<Rightarrow> 'u \<Rightarrow> int \<times> ('k, 'v) bmap \<times> 'u" where
  "bm_retain_loop f i m user =
     (if i < bm_cnt m then
        (case f (bm_kvs_get_key m i) (bm_kvs_get_value m i) user of (result, v, user) \<Rightarrow>
           let m = bm_kvs_set_value m i v
           in if result < 0 then (result, m, user)
              else if result \<noteq> 0 then bm_retain_loop f i (bm_kvs_erase m i) user
              else bm_retain_loop f (i + 1) m user)
      else (0, m, user))"
  by pat_completeness auto
termination
  by (relation "measure (\<lambda>(f, i, m, user). nat (bm_cnt m - i))")
     (auto simp: bm_kvs_set_value_def bm_kvs_erase_def Let_def)

declare bm_retain_loop.simps [simp del]

definition bm_retain ::
  "('k \<Rightarrow> 'v \<Rightarrow> 'u \<Rightarrow> int \<times> 'v \<times> 'u) \<Rightarrow> ('k, 'v) bmap option \<Rightarrow> 'u \<Rightarrow>
   int \<times> ('k, 'v) bmap option \<times> 'u" where
  "bm_retain f p user =
     (case p of None \<Rightarrow> (0, None, user)
      | Some m \<Rightarrow> (case bm_retain_loop f 0 m user of (r, m, user) \<Rightarrow> (r, Some m, user)))"

text \<open>\<open>bmap_for_each\<close> visits the keys in ascending order with their values.\<close>

definition bm_entries :: "('k, 'v) bmap option \<Rightarrow> ('k \<times> 'v) list" where
  "bm_entries p =
     (case p of None \<Rightarrow> []
      | Some m \<Rightarrow> map (\<lambda>i. (bm_kvs_get_key m i, bm_kvs_get_value m i)) [0..bm_cnt m - 1])"

section \<open>Representation\<close>

definition bm_alist :: "('k, 'v) bmap \<Rightarrow> ('k \<times> 'v) list" where
  "bm_alist m = take (nat (bm_cnt m)) (zip (bm_keys m) (bm_vals m))"

definition bm_ok :: "('k::linorder, 'v) bmap_env \<Rightarrow> ('k, 'v) bmap \<Rightarrow> bool" where
  "bm_ok E m \<longleftrightarrow>
     0 \<le> bm_cnt m \<and> bm_cnt m \<le> bm_cap m \<and> 0 < bm_cap m \<and> 32 dvd bm_cap m \<and>
     be_vsz E * bm_cap m < 2 ^ (be_bits E - 1) \<and>
     int (length (bm_keys m)) = bm_cap m \<and> int (length (bm_vals m)) = bm_cap m \<and>
     sorted_wrt (<) (map fst (bm_alist m))"

definition bmp_ok :: "('k::linorder, 'v) bmap_env \<Rightarrow> ('k, 'v) bmap option \<Rightarrow> bool" where
  "bmp_ok E p \<longleftrightarrow> (case p of None \<Rightarrow> True | Some m \<Rightarrow> bm_ok E m)"

text \<open>
  Instances the map can work with: the first 32 values fit the index type. The environments of
  the contract are those where the keys can be had whenever the block could.
\<close>

definition be_sizes_ok :: "('k, 'v) bmap_env \<Rightarrow> bool" where
  "be_sizes_ok E \<longleftrightarrow> 6 < be_bits E \<and> 0 \<le> be_hdr E \<and> be_hdr E < 64 \<and> 0 < be_vsz E \<and>
     be_vsz E * 32 < 2 ^ (be_bits E - 1)"

definition be_ok_inst :: "('k, 'v) bmap_env \<Rightarrow> bool" where
  "be_ok_inst E \<longleftrightarrow> be_sizes_ok E \<and> be_kok E"

definition bm_full :: "('k, 'v) bmap option \<Rightarrow> bool" where
  "bm_full p \<longleftrightarrow> (case p of None \<Rightarrow> True | Some m \<Rightarrow> bm_cnt m = bm_cap m)"

definition bm_can_grow :: "('k, 'v) bmap_env \<Rightarrow> ('k, 'v) bmap option \<Rightarrow> bool" where
  "bm_can_grow E p \<longleftrightarrow>
     (case p of None \<Rightarrow> be_ok E
      | Some m \<Rightarrow> bm_cnt m = bm_cap m \<longrightarrow> be_ok E \<and> be_vsz E * (bm_cap m * 2) < 2 ^ (be_bits E - 1))"

lemma bmp_simps [simp]:
  "bmp_ok E None" "bmp_ok E (Some m) = bm_ok E m"
  "bm_count None = 0" "bm_count (Some m) = bm_cnt m"
  "bm_find None k = None" "bm_lower_bound None k = 0"
  "\<not> bm_key_at None i k"
  by (simp_all add: bmp_ok_def bm_count_def bm_find_def bm_lower_bound_def bm_key_at_def)

definition bmp_alist :: "('k, 'v) bmap option \<Rightarrow> ('k \<times> 'v) list" where
  "bmp_alist p = (case p of None \<Rightarrow> [] | Some m \<Rightarrow> bm_alist m)"

lemma bmp_alist_simps [simp]: "bmp_alist None = []" "bmp_alist (Some m) = bm_alist m"
  by (simp_all add: bmp_alist_def)

lemma bm_alist_zip:
  "bm_alist m = zip (take (nat (bm_cnt m)) (bm_keys m)) (take (nat (bm_cnt m)) (bm_vals m))"
  by (simp add: bm_alist_def take_zip)

lemma bm_shape:
  assumes "bm_ok E m"
  shows "length (bm_keys m) = nat (bm_cap m)" "length (bm_vals m) = nat (bm_cap m)"
    "nat (bm_cnt m) \<le> nat (bm_cap m)" "0 \<le> bm_cnt m"
  using assms by (auto simp: bm_ok_def)

lemma bm_alist_keys:
  "bm_ok E m \<Longrightarrow> map fst (bm_alist m) = take (nat (bm_cnt m)) (bm_keys m)"
  by (simp add: bm_alist_zip bm_shape)

lemma length_bm_alist: "bm_ok E m \<Longrightarrow> length (bm_alist m) = nat (bm_cnt m)"
  by (simp add: bm_alist_def bm_shape)

lemma int_length_bm_alist: "bm_ok E m \<Longrightarrow> int (length (bm_alist m)) = bm_cnt m"
  by (simp add: length_bm_alist bm_shape(4))

lemma bm_key_nth:
  "bm_ok E m \<Longrightarrow> i < nat (bm_cnt m) \<Longrightarrow> bm_keys m ! i = fst (bm_alist m ! i)"
  using bm_shape [of E m] by (simp add: bm_alist_def)

lemma bm_val_nth:
  "bm_ok E m \<Longrightarrow> i < nat (bm_cnt m) \<Longrightarrow> bm_vals m ! i = snd (bm_alist m ! i)"
  using bm_shape [of E m] by (simp add: bm_alist_def)

section \<open>Searching\<close>

abbreviation bm_lb :: "'k::linorder \<Rightarrow> ('k, 'v) bmap \<Rightarrow> nat" where
  "bm_lb k m \<equiv> lb_pos k (map fst (bm_alist m))"

lemma bm_lb_le: "bm_ok E m \<Longrightarrow> bm_lb k m \<le> nat (bm_cnt m)"
  using lb_pos_le [of k "map fst (bm_alist m)"] by (simp add: length_bm_alist)

lemma bm_lower_bound_sorted:
  assumes "bm_ok E m"
  shows "bm_lower_bound (Some m) k = int (bm_lb k m)"
proof -
  have "bm_lower_bound (Some m) k =
      lower_bound_loop (\<lambda>i. map fst (bm_alist m) ! nat i < k) 0 (bm_cnt m)"
    unfolding bm_lower_bound_def option.case
    by (rule lower_bound_loop_cong)
       (use assms in \<open>simp add: bm_kvs_get_key_def bm_key_nth length_bm_alist\<close>)
  also have "bm_cnt m = int (length (map fst (bm_alist m)))"
    using assms by (simp add: int_length_bm_alist)
  also have "lower_bound_loop (\<lambda>i. map fst (bm_alist m) ! nat i < k) 0 \<dots> = int (bm_lb k m)"
    using assms by (intro lower_bound_sorted) (simp add: bm_ok_def)
  finally show ?thesis .
qed

lemma bm_key_at_lower_bound:
  assumes "bm_ok E m"
  shows "bm_key_at (Some m) (bm_lower_bound (Some m) k) k \<longleftrightarrow> k \<in> fst ` set (bm_alist m)"
proof -
  have "k \<in> set (map fst (bm_alist m)) \<longleftrightarrow>
      bm_lb k m < length (bm_alist m) \<and> map fst (bm_alist m) ! bm_lb k m = k"
    using lb_pos_mem [of "map fst (bm_alist m)" k] assms by (simp add: bm_ok_def)
  then show ?thesis
    using int_length_bm_alist [OF assms] length_bm_alist [OF assms] bm_key_nth [OF assms, of "bm_lb k m"]
    by (auto simp: bm_key_at_def bm_lower_bound_sorted [OF assms] bm_kvs_get_key_def)
qed

lemma map_of_nth_distinct:
  "distinct (map fst xs) \<Longrightarrow> i < length xs \<Longrightarrow> map_of xs (fst (xs ! i)) = Some (snd (xs ! i))"
  by (simp add: map_of_eq_Some_iff)

lemma bm_distinct: "bm_ok E m \<Longrightarrow> distinct (map fst (bm_alist m))"
  by (simp add: bm_ok_def strict_sorted_iff)

text \<open>A lookup in the arrays is a lookup in the association list.\<close>

lemma bm_find_map_of:
  assumes "bmp_ok E p"
  shows "bm_find p = map_of (bmp_alist p)"
proof (cases p)
  case (Some m)
  then have ok: "bm_ok E m"
    using assms by simp
  have "bm_find p k = map_of (bm_alist m) k" for k
  proof (cases "k \<in> fst ` set (bm_alist m)")
    case True
    with bm_key_at_lower_bound [OF ok, of k]
    have at: "bm_key_at (Some m) (int (bm_lb k m)) k"
      by (simp add: bm_lower_bound_sorted [OF ok])
    then have lt: "bm_lb k m < length (bm_alist m)"
      using int_length_bm_alist [OF ok] by (simp add: bm_key_at_def)
    have "k = fst (bm_alist m ! bm_lb k m)"
      using at lt by (simp add: bm_key_at_def bm_kvs_get_key_def bm_key_nth [OF ok] length_bm_alist [OF ok])
    with map_of_nth_distinct [OF bm_distinct [OF ok] lt]
    have "map_of (bm_alist m) k = Some (bm_vals m ! bm_lb k m)"
      using lt by (simp add: bm_val_nth [OF ok] length_bm_alist [OF ok])
    then show ?thesis
      using Some at
      by (simp add: bm_find_def bm_lower_bound_sorted [OF ok] bm_key_at_def bm_kvs_get_value_def Let_def)
  next
    case False
    with bm_key_at_lower_bound [OF ok, of k] bm_lb_le [OF ok, of k] bm_shape(4) [OF ok]
    have "int (bm_lb k m) = bm_cnt m \<or> k \<noteq> bm_kvs_get_key m (int (bm_lb k m))"
      by (auto simp: bm_lower_bound_sorted [OF ok] bm_key_at_def)
    then have "bm_find p k = None"
      using Some by (auto simp: bm_find_def bm_lower_bound_sorted [OF ok] Let_def)
    moreover have "map_of (bm_alist m) k = None"
      using False by (simp add: map_of_eq_None_iff)
    ultimately show ?thesis by simp
  qed
  with Some show ?thesis by auto
qed (simp add: fun_eq_iff)

lemma bm_find_None_iff:
  assumes "bmp_ok E p"
  shows "bm_find p k = None \<longleftrightarrow> \<not> bm_key_at p (bm_lower_bound p k) k"
proof (cases p)
  case (Some m)
  with assms bm_key_at_lower_bound [of E m k] fun_cong [OF bm_find_map_of [OF assms], of k]
  show ?thesis
    by (simp add: map_of_eq_None_iff)
qed simp

section \<open>Growing\<close>

lemma bm_grow_fails:
  assumes "bm_ok E m" "be_ok_inst E" "2 ^ (be_bits E - 1) \<le> be_vsz E * (bm_cap m * 2)"
  shows "be_hdr E + sx (be_bits E) (be_vsz E * sx (be_bits E) (bm_cap m * 2)) < 0"
    and "sx (be_bits E) (bm_cap m * 2) \<noteq> 0"
  using assms doubled_size_negative [of "be_bits E" "be_vsz E" "be_hdr E" "bm_cap m"]
  by (simp_all add: bm_ok_def be_ok_inst_def be_sizes_ok_def)

definition bm_reserve ::
  "('k, 'v) bmap_env \<Rightarrow> ('k, 'v) bmap option \<Rightarrow> (int \<times> ('k, 'v) bmap option) option" where
  "bm_reserve E p =
     (if (case p of None \<Rightarrow> True | Some m \<Rightarrow> bm_cnt m = bm_cap m)
      then bm_kvs_realloc E p (case p of None \<Rightarrow> 32 | Some m \<Rightarrow> sx (be_bits E) (bm_cap m * 2))
      else Some (0, p))"

lemma be_inst_min:
  assumes "be_ok_inst E"
  shows "sx (be_bits E) (be_vsz E * 32) = be_vsz E * 32" "0 < be_bits E"
    "be_vsz E * 32 div be_vsz E = 32" "\<not> be_hdr E + be_vsz E * 32 < 0"
  using assms by (auto simp: be_ok_inst_def be_sizes_ok_def not_less intro!: sx_nonneg)

lemma bm_reserve_full:
  assumes "bmp_ok E p" "be_ok_inst E" "\<not> bm_can_grow E p"
  shows "bm_reserve E p = Some (-1, p)"
proof (cases p)
  case None
  then show ?thesis
    using assms(3) by (simp add: bm_reserve_def bm_can_grow_def bm_kvs_realloc_def)
next
  case (Some m)
  then have full: "bm_cnt m = bm_cap m" and ok: "bm_ok E m"
    and g: "\<not> (be_ok E \<and> be_vsz E * (bm_cap m * 2) < 2 ^ (be_bits E - 1))"
    using assms by (auto simp: bm_can_grow_def)
  show ?thesis
  proof (cases "2 ^ (be_bits E - 1) \<le> be_vsz E * (bm_cap m * 2)")
    case True
    with bm_grow_fails [OF ok assms(2)] Some full show ?thesis
      by (simp add: bm_reserve_def bm_kvs_realloc_def Let_def)
  next
    case False
    with g have nok: "\<not> be_ok E" by simp
    have "bm_cap m * 2 \<le> be_vsz E * (bm_cap m * 2)"
      using ok assms(2) by (simp add: bm_ok_def be_ok_inst_def be_sizes_ok_def)
    with False have "bm_cap m * 2 < 2 ^ (be_bits E - 1)"
      by linarith
    then have "sx (be_bits E) (bm_cap m * 2) = bm_cap m * 2"
      using ok be_inst_min(2) [OF assms(2)] by (intro sx_nonneg) (simp_all add: bm_ok_def)
    then show ?thesis
      using Some full nok ok by (simp add: bm_reserve_def bm_kvs_realloc_def bm_ok_def)
  qed
qed

lemma bm_reserve_room:
  assumes "bmp_ok E p" "be_ok_inst E" "bm_can_grow E p"
  obtains m where "bm_reserve E p = Some (0, Some m)" "bm_ok E m" "bm_cnt m < bm_cap m"
    "bm_alist m = bmp_alist p" "bm_cnt m = bm_count p"
proof (cases p)
  case None
  then show ?thesis
    using assms(2,3) be_inst_min [OF assms(2)]
    by (intro that [of "\<lparr>bm_cnt = 0, bm_cap = 32, bm_keys = realloc_data (be_uk E) 32 [],
          bm_vals = realloc_data (be_uv E) 32 []\<rparr>"])
       (auto simp: bm_reserve_def bm_kvs_realloc_def bm_can_grow_def be_ok_inst_def be_sizes_ok_def bm_ok_def
          bm_alist_def)
next
  case (Some m)
  then have ok: "bm_ok E m" using assms(1) by simp
  note sh = bm_shape [OF ok]
  show ?thesis
  proof (cases "bm_cnt m = bm_cap m")
    case False
    then show ?thesis
      using Some ok by (intro that [of m]) (auto simp: bm_reserve_def bm_ok_def)
  next
    case True
    let ?c = "bm_cap m * 2"
    have g: "be_ok E" "be_vsz E * ?c < 2 ^ (be_bits E - 1)" and v: "0 < be_vsz E" and c: "0 < bm_cap m"
      using assms Some True ok by (auto simp: bm_can_grow_def be_ok_inst_def be_sizes_ok_def bm_ok_def)
    have h: "0 \<le> be_hdr E" "be_kok E"
      using assms(2) by (simp_all add: be_ok_inst_def be_sizes_ok_def)
    have le: "?c \<le> be_vsz E * ?c"
      using v c by simp
    have "?c < 2 ^ (be_bits E - 1)"
      using le g(2) by (rule le_less_trans)
    then have s1: "sx (be_bits E) ?c = ?c"
      using c by (intro sx_nonneg be_inst_min(2) [OF assms(2)]) simp_all
    have s2: "sx (be_bits E) (be_vsz E * ?c) = be_vsz E * ?c"
      using le c g(2) by (intro sx_nonneg be_inst_min(2) [OF assms(2)]) simp_all
    have nn: "\<not> be_hdr E + be_vsz E * ?c < 0"
      using h(1) le c by linarith
    have q: "be_vsz E * ?c div be_vsz E = ?c"
      using v by simp
    let ?m = "m\<lparr>bm_cap := ?c, bm_vals := realloc_data (be_uv E) ?c (bm_vals m),
        bm_keys := realloc_data (be_uk E) ?c (bm_keys m)\<rparr>"
    have al: "bm_alist ?m = bm_alist m"
      using sh c True by (simp add: bm_alist_zip take_realloc_data)
    show ?thesis
    proof (rule that [of ?m])
      show "bm_reserve E p = Some (0, Some ?m)"
        using c g(1) h(2) nn
        by (simp add: bm_reserve_def bm_kvs_realloc_def Let_def Some True s1 s2 q del: mult_cancel_left)
      show "bm_ok E ?m"
        using ok g c al by (auto simp: bm_ok_def)
    qed (use Some True c al in simp_all)
  qed
qed

section \<open>Inserting, overwriting and erasing\<close>

lemma bm_kvs_emplace_reserve:
  "bm_kvs_emplace E p idx key =
     (case bm_reserve E p of
        None \<Rightarrow> None
      | Some (r, p) \<Rightarrow>
          if r \<noteq> 0 then Some (None, p)
          else (case p of
              None \<Rightarrow> None
            | Some m \<Rightarrow>
                let n = bm_cnt m + 1;
                    m = m\<lparr>bm_cnt := n,
                          bm_keys := memmove (idx + 1) idx (n - idx - 1) (bm_keys m),
                          bm_vals := memmove (idx + 1) idx (n - idx - 1) (bm_vals m)\<rparr>
                in Some (Some idx, Some (m\<lparr>bm_keys := (bm_keys m)[nat idx := key]\<rparr>))))"
  by (simp add: bm_kvs_emplace_def bm_reserve_def Let_def)

lemma take_update_at:
  "k < n \<Longrightarrow> n \<le> length D \<Longrightarrow> take n (D[k := x]) = (take n D)[k := x]"
  by (simp add: take_update_swap)

lemma bm_set_value_alist:
  assumes "bm_ok E m" "i < nat (bm_cnt m)"
  shows "bm_ok E (bm_kvs_set_value m (int i) v)"
    and "bm_alist (bm_kvs_set_value m (int i) v) = (bm_alist m)[i := (fst (bm_alist m ! i), v)]"
proof -
  note sh = bm_shape [OF assms(1)]
  show al: "bm_alist (bm_kvs_set_value m (int i) v) = (bm_alist m)[i := (fst (bm_alist m ! i), v)]"
    using sh assms(2)
    by (intro nth_equalityI) (auto simp: bm_alist_def bm_kvs_set_value_def nth_list_update)
  have "map fst (bm_alist (bm_kvs_set_value m (int i) v)) = map fst (bm_alist m)"
    unfolding al by (simp add: map_update list_update_id [of "map fst _", symmetric])
      (metis list_update_id map_update)
  then show "bm_ok E (bm_kvs_set_value m (int i) v)"
    using assms(1) by (simp add: bm_ok_def bm_kvs_set_value_def)
qed

lemma bm_erase_alist:
  assumes "bm_ok E m" "k < nat (bm_cnt m)"
  shows "bm_ok E (bm_kvs_erase m (int k))"
    and "bm_alist (bm_kvs_erase m (int k)) = take k (bm_alist m) @ drop (Suc k) (bm_alist m)"
proof -
  note sh = bm_shape [OF assms(1)]
  obtain n where n: "bm_cnt m = int n" "k < n"
    using sh(4) assms(2) by (metis nat_int nonneg_int_cases)
  have len: "n \<le> length (bm_keys m)" "n \<le> length (bm_vals m)"
    using sh n by simp_all
  show al: "bm_alist (bm_kvs_erase m (int k)) = take k (bm_alist m) @ drop (Suc k) (bm_alist m)"
    using n len
    by (simp add: bm_kvs_erase_def Let_def bm_alist_zip nat_diff_distrib take_memmove_erase
        zip_append take_zip drop_zip)
  have "sorted_wrt (<) (map fst (bm_alist (bm_kvs_erase m (int k))))"
    using sorted_remove_nth [of "map fst (bm_alist m)" k] assms(1)
    by (simp add: al take_map drop_map bm_ok_def)
  then show "bm_ok E (bm_kvs_erase m (int k))"
    using assms(1) n len by (simp add: bm_ok_def bm_kvs_erase_def Let_def length_memmove_erase)
qed

lemma bm_put_alist:
  assumes "bm_ok E m" "bm_cnt m < bm_cap m" "key \<notin> fst ` set (bm_alist m)"
    and "bm_reserve E p = Some (0, Some m)"
  shows "\<exists>m'. bm_kvs_emplace E p (int (bm_lb key m)) key = Some (Some (int (bm_lb key m)), Some m') \<and>
    bm_ok E (bm_kvs_set_value m' (int (bm_lb key m)) v) \<and>
    bm_alist (bm_kvs_set_value m' (int (bm_lb key m)) v) =
      take (bm_lb key m) (bm_alist m) @ (key, v) # drop (bm_lb key m) (bm_alist m)"
proof -
  note sh = bm_shape [OF assms(1)]
  let ?k = "bm_lb key m"
  obtain n where n: "bm_cnt m = int n"
    using sh(4) by (metis nonneg_int_cases)
  have k: "?k \<le> n"
    using bm_lb_le [OF assms(1), of key] n by simp
  have len: "Suc n \<le> length (bm_keys m)" "Suc n \<le> length (bm_vals m)"
    using sh n assms(2) by simp_all
  let ?K = "(memmove (int ?k + 1) (int ?k) (int n - int ?k) (bm_keys m))[?k := key]"
  let ?V = "memmove (int ?k + 1) (int ?k) (int n - int ?k) (bm_vals m)"
  let ?m = "m\<lparr>bm_cnt := bm_cnt m + 1, bm_keys := ?K, bm_vals := ?V\<rparr>"
  have e: "bm_kvs_emplace E p (int ?k) key = Some (Some (int ?k), Some ?m)"
    using assms(4) n by (simp add: bm_kvs_emplace_reserve Let_def)
  have al: "bm_alist (bm_kvs_set_value ?m (int ?k) v) =
      take ?k (bm_alist m) @ (key, v) # drop ?k (bm_alist m)"
    using k len
    by (simp add: bm_kvs_set_value_def bm_alist_zip n nat_add_distrib take_memmove_insert
        zip_append take_zip drop_zip)
  have "sorted_wrt (<) (map fst (bm_alist (bm_kvs_set_value ?m (int ?k) v)))"
    using sorted_insert_lb [of "map fst (bm_alist m)" key] assms(1,3)
    by (simp add: al take_map drop_map bm_ok_def)
  then have "bm_ok E (bm_kvs_set_value ?m (int ?k) v)"
    using assms(1,2) n k len
    by (simp add: bm_ok_def bm_kvs_set_value_def length_memmove_insert)
  with e al show ?thesis by blast
qed

text \<open>The same facts for lookups.\<close>

lemma map_of_insert_at:
  "k \<notin> fst ` set xs \<Longrightarrow> map_of (take i xs @ (k, v) # drop i xs) = (map_of xs)(k \<mapsto> v)"
proof -
  assume k: "k \<notin> fst ` set xs"
  have "map_of (take i xs @ drop i xs) = map_of (drop i xs) ++ map_of (take i xs)"
    by (simp only: map_of_append)
  moreover have "k \<notin> dom (map_of (take i xs))"
    using k by (auto simp: dom_map_of_conv_image_fst dest: in_set_takeD)
  ultimately show ?thesis
    by (simp add: map_add_upd_left)
qed

lemma map_of_erase_at:
  assumes "distinct (map fst xs)" "i < length xs"
  shows "map_of (take i xs @ drop (Suc i) xs) = (map_of xs)(fst (xs ! i) := None)"
proof -
  have e: "xs = take i xs @ xs ! i # drop (Suc i) xs"
    using assms(2) by (rule id_take_nth_drop)
  have "map fst xs = map fst (take i xs) @ fst (xs ! i) # map fst (drop (Suc i) xs)"
    by (subst e) simp
  with assms(1) have "fst (xs ! i) \<notin> fst ` set (take i xs)" "fst (xs ! i) \<notin> fst ` set (drop (Suc i) xs)"
    by (auto simp: distinct_append simp flip: set_map)
  then have d: "map_of (take i xs) (fst (xs ! i)) = None" "map_of (drop (Suc i) xs) (fst (xs ! i)) = None"
    by (simp_all add: map_of_eq_None_iff)
  have "map_of xs = map_of (xs ! i # drop (Suc i) xs) ++ map_of (take i xs)"
    by (subst e) (simp only: map_of_append)
  then show ?thesis
    using d by (auto simp: fun_eq_iff map_add_def split: option.splits)
qed

lemma map_of_update_at:
  assumes "distinct (map fst xs)" "i < length xs"
  shows "map_of (xs[i := (fst (xs ! i), v)]) = (map_of xs)(fst (xs ! i) \<mapsto> v)"
proof -
  have e: "xs = take i xs @ xs ! i # drop (Suc i) xs"
    using assms(2) by (rule id_take_nth_drop)
  have "map fst xs = map fst (take i xs) @ fst (xs ! i) # map fst (drop (Suc i) xs)"
    by (subst e) simp
  with assms(1) have "fst (xs ! i) \<notin> fst ` set (take i xs)"
    by (auto simp: distinct_append simp flip: set_map)
  then have d: "map_of (take i xs) (fst (xs ! i)) = None"
    by (simp add: map_of_eq_None_iff)
  have "map_of xs = map_of (xs ! i # drop (Suc i) xs) ++ map_of (take i xs)"
    by (subst e) (simp only: map_of_append)
  then show ?thesis
    using d assms(2)
    by (auto simp: upd_conv_take_nth_drop fun_eq_iff map_add_def split: option.splits)
qed

section \<open>The map as a store\<close>

lemma bm_present:
  assumes "bm_ok E m" "bm_find (Some m) k \<noteq> None"
  shows "bm_lower_bound (Some m) k = int (bm_lb k m)" "bm_lb k m < nat (bm_cnt m)"
    "fst (bm_alist m ! bm_lb k m) = k" "bm_key_at (Some m) (int (bm_lb k m)) k"
proof -
  show l: "bm_lower_bound (Some m) k = int (bm_lb k m)"
    by (rule bm_lower_bound_sorted [OF assms(1)])
  show a: "bm_key_at (Some m) (int (bm_lb k m)) k"
    using bm_find_None_iff [of E "Some m" k] assms l by simp
  show lt: "bm_lb k m < nat (bm_cnt m)"
    using a by (simp add: bm_key_at_def) linarith
  show "fst (bm_alist m ! bm_lb k m) = k"
    using a bm_key_nth [OF assms(1) lt] by (simp add: bm_key_at_def bm_kvs_get_key_def)
qed

lemma bm_insert_new_spec:
  assumes "bmp_ok E p" "be_ok_inst E" "bm_find p k = None"
  shows "if bm_can_grow E p
    then \<exists>m. bm_insert_new E p k v = Some (New, Some m) \<and> bm_ok E m \<and>
           bm_find (Some m) = (bm_find p)(k \<mapsto> v)
    else bm_insert_new E p k v = Some (Oom, p)"
proof -
  have na: "\<not> bm_key_at p (bm_lower_bound p k) k"
    using assms(3) by (simp add: bm_find_None_iff [OF assms(1)])
  show ?thesis
  proof (cases "bm_can_grow E p")
    case False
    have "bm_kvs_emplace E p (bm_lower_bound p k) k = Some (None, p)"
      using bm_reserve_full [OF assms(1,2) False] by (simp add: bm_kvs_emplace_reserve)
    with False na show ?thesis
      by (simp add: bm_insert_new_def bm_emplace_new_def Let_def)
  next
    case True
    obtain m where m: "bm_reserve E p = Some (0, Some m)" "bm_ok E m" "bm_cnt m < bm_cap m"
      "bm_alist m = bmp_alist p" "bm_cnt m = bm_count p"
      using bm_reserve_room [OF assms(1,2) True] .
    have k: "k \<notin> fst ` set (bm_alist m)"
      using assms(3) by (simp add: bm_find_map_of [OF assms(1)] m(4) map_of_eq_None_iff)
    have lb: "bm_lower_bound p k = int (bm_lb k m)"
      using assms(1) m(4) by (cases p) (simp_all add: bm_lower_bound_sorted lb_pos_def)
    obtain m' where m': "bm_kvs_emplace E p (int (bm_lb k m)) k = Some (Some (int (bm_lb k m)), Some m')"
      "bm_ok E (bm_kvs_set_value m' (int (bm_lb k m)) v)"
      "bm_alist (bm_kvs_set_value m' (int (bm_lb k m)) v) =
        take (bm_lb k m) (bm_alist m) @ (k, v) # drop (bm_lb k m) (bm_alist m)"
      using bm_put_alist [OF m(2,3) k m(1), of v] by blast
    have "bm_insert_new E p k v = Some (New, Some (bm_kvs_set_value m' (int (bm_lb k m)) v))"
      using na m'(1) by (simp add: bm_insert_new_def bm_emplace_new_def lb Let_def)
    moreover have "bm_find (Some (bm_kvs_set_value m' (int (bm_lb k m)) v)) = (bm_find p)(k \<mapsto> v)"
      using m'(2,3) k m(4)
      by (simp add: bm_find_map_of [OF assms(1)] bm_find_map_of [of E "Some _"] map_of_insert_at
          del: map_of_append)
    ultimately show ?thesis
      using True m'(2) by auto
  qed
qed

lemma bm_insert_new_exists:
  assumes "bmp_ok E p" "bm_find p k \<noteq> None"
  shows "bm_insert_new E p k v = Some (Exists, p)"
  using assms by (simp add: bm_insert_new_def bm_emplace_new_def bm_find_None_iff [OF assms(1)] Let_def)

lemma bm_insert_update_new:
  assumes "bmp_ok E p" "bm_find p k = None"
  shows "bm_insert_update E p k v = bm_insert_new E p k v"
proof -
  have e: "bm_emplace_or_get E p k = bm_emplace_new E p k"
    using assms(2) bm_find_None_iff [OF assms(1), of k]
    by (simp add: bm_emplace_or_get_def bm_emplace_new_def Let_def)
  have "bm_emplace_new E p k \<noteq> Some (Exists, i, q)" for i q
    using assms(2) bm_find_None_iff [OF assms(1), of k]
    by (simp add: bm_emplace_new_def Let_def split: option.splits)
  moreover have "\<exists>i m. bm_emplace_new E p k = Some (New, Some i, Some m)"
    if "bm_emplace_new E p k = Some (New, j, q)" for j q
    using that
    by (auto simp: bm_emplace_new_def bm_kvs_emplace_reserve Let_def split: option.splits if_splits)
  ultimately show ?thesis
    unfolding bm_insert_update_def bm_insert_new_def e
    by (auto split: option.splits ins_status.splits)
qed

lemma bm_insert_update_exists:
  assumes "bmp_ok E p" "bm_find p k \<noteq> None"
  shows "\<exists>m. bm_insert_update E p k v = Some (Exists, Some m) \<and> bm_ok E m \<and>
    bm_find (Some m) = (bm_find p)(k \<mapsto> v)"
proof -
  obtain m where m: "p = Some m" "bm_ok E m"
    using assms by (cases p) auto
  note pr = bm_present [OF m(2), of k, folded m(1), OF assms(2)]
  let ?m = "bm_kvs_set_value m (int (bm_lb k m)) v"
  note sv = bm_set_value_alist [OF m(2) pr(2), of v]
  have "bm_find (Some ?m) = (bm_find p)(k \<mapsto> v)"
    using map_of_update_at [OF bm_distinct [OF m(2)], of "bm_lb k m" v] pr(2,3) sv m
    by (simp add: bm_find_map_of [OF assms(1)] bm_find_map_of [of E "Some _"] length_bm_alist)
  moreover have "bm_insert_update E p k v = Some (Exists, Some ?m)"
    using pr m(1) by (simp add: bm_insert_update_def bm_emplace_or_get_def Let_def)
  ultimately show ?thesis
    using sv(1) by blast
qed

lemma bm_erase_spec:
  assumes "bmp_ok E p"
  shows "\<exists>q. bm_erase p k = (bm_find p k \<noteq> None, q) \<and> bmp_ok E q \<and> bm_find q = (bm_find p)(k := None)"
proof (cases "bm_find p k = None")
  case True
  then show ?thesis
    using assms bm_find_None_iff [OF assms, of k]
    by (auto simp: bm_erase_def Let_def fun_eq_iff)
next
  case False
  then obtain m where m: "p = Some m" "bm_ok E m"
    using assms by (cases p) auto
  note pr = bm_present [OF m(2), of k, folded m(1), OF False]
  note er = bm_erase_alist [OF m(2) pr(2)]
  have "bm_find (Some (bm_kvs_erase m (int (bm_lb k m)))) = (bm_find p)(k := None)"
    using map_of_erase_at [OF bm_distinct [OF m(2)], of "bm_lb k m"] pr(2,3) er m
    by (simp add: bm_find_map_of [OF assms] bm_find_map_of [of E "Some _"] length_bm_alist)
  moreover have "bm_erase p k = (True, Some (bm_kvs_erase m (int (bm_lb k m))))"
    using pr m(1) by (simp add: bm_erase_def Let_def)
  ultimately show ?thesis
    using er(1) False by auto
qed

text \<open>
  When the block was moved but the keys cannot be had, the caller is left with a pointer to the block that
  was released, or, when there was no block, without a map.
\<close>

lemma env_keys [simp]:
  "bmp_ok (E\<lparr>be_kok := b\<rparr>) p = bmp_ok E p" "bm_ok (E\<lparr>be_kok := b\<rparr>) m = bm_ok E m"
  "bm_can_grow (E\<lparr>be_kok := b\<rparr>) p = bm_can_grow E p" "be_ok_inst (E\<lparr>be_kok := True\<rparr>) = be_sizes_ok E"
  by (simp_all add: bmp_ok_def bm_ok_def bm_can_grow_def be_ok_inst_def be_sizes_ok_def split: option.splits)

lemma bm_reserve_keys:
  assumes "be_sizes_ok E" "bmp_ok E p"
  shows "bm_reserve E p =
    (if bm_full p \<and> bm_can_grow E p \<and> \<not> be_kok E then (if p = None then Some (-1, None) else None)
     else bm_reserve (E\<lparr>be_kok := True\<rparr>) p)"
proof (cases "bm_full p \<and> bm_can_grow E p \<and> \<not> be_kok E")
  case True
  have i: "be_ok_inst (E\<lparr>be_kok := True\<rparr>)"
    using assms(1) by simp
  obtain m where r: "bm_reserve (E\<lparr>be_kok := True\<rparr>) p = Some (0, Some m)"
    using bm_reserve_room [of "E\<lparr>be_kok := True\<rparr>" p] assms True by auto
  then show ?thesis
    using True assms
    by (auto simp: bm_reserve_def bm_full_def bm_kvs_realloc_def Let_def be_sizes_ok_def split: option.splits if_splits)
next
  case False
  have "bm_reserve E p = bm_reserve (E\<lparr>be_kok := True\<rparr>) p"
  proof (cases "be_kok E")
    case False
    with \<open>\<not> (bm_full p \<and> bm_can_grow E p \<and> \<not> be_kok E)\<close>
    have c: "\<not> bm_full p \<or> \<not> bm_can_grow E p"
      by simp
    show ?thesis
    proof (cases "bm_full p")
      case True
      then have n: "bm_reserve (E\<lparr>be_kok := True\<rparr>) p = Some (-1, p)"
        using bm_reserve_full [of "E\<lparr>be_kok := True\<rparr>" p] c assms by simp
      then show ?thesis
        using True False
        by (auto simp: bm_reserve_def bm_full_def bm_kvs_realloc_def Let_def split: option.splits if_splits)
    qed (auto simp: bm_reserve_def bm_full_def split: option.splits)
  next
    case True
    then have "E\<lparr>be_kok := True\<rparr> = E"
      by (cases E) simp
    then show ?thesis by simp
  qed
  with False show ?thesis by auto
qed

lemma bm_insert_new_keys:
  assumes "be_sizes_ok E" "bmp_ok E p" "bm_find p k = None"
  shows "bm_insert_new E p k v =
    (if bm_full p \<and> bm_can_grow E p \<and> \<not> be_kok E then (if p = None then Some (Oom, None) else None)
     else bm_insert_new (E\<lparr>be_kok := True\<rparr>) p k v)"
  using bm_reserve_keys [OF assms(1,2)] bm_find_None_iff [OF assms(2), of k] assms(3)
  by (simp add: bm_insert_new_def bm_emplace_new_def bm_kvs_emplace_reserve Let_def)

lemma bm_insert_new_all:
  assumes "be_sizes_ok E" "bmp_ok E p" "bm_find p k = None"
  shows "if \<not> bm_can_grow E p then bm_insert_new E p k v = Some (Oom, p)
    else if bm_full p \<and> \<not> be_kok E then bm_insert_new E p k v = (if p = None then Some (Oom, None) else None)
    else \<exists>m. bm_insert_new E p k v = Some (New, Some m) \<and> bm_ok E m \<and> bm_find (Some m) = (bm_find p)(k \<mapsto> v)"
  using bm_insert_new_keys [OF assms, of v] bm_insert_new_spec [of "E\<lparr>be_kok := True\<rparr>" p k v] assms
  by auto

interpretation bmap: kv_store "\<lambda>p. bmp_ok E p \<and> be_ok_inst E" "bm_can_grow E" bm_find
    "\<lambda>p k v. the (bm_insert_new E p k v)" bm_erase "\<lambda>p k v. the (bm_insert_update E p k v)"
  for E :: "('k::linorder, 'v) bmap_env"
proof
  fix m :: "('k, 'v) bmap option" and k v
  assume m: "bmp_ok E m \<and> be_ok_inst E"
  show "bm_can_grow E m \<Longrightarrow> bm_find m k = None \<Longrightarrow>
      \<exists>m'. the (bm_insert_new E m k v) = (New, m') \<and> (bmp_ok E m' \<and> be_ok_inst E) \<and>
        bm_find m' = (bm_find m)(k \<mapsto> v)"
    using bm_insert_new_spec [of E m k v] m by fastforce
  show "\<not> bm_can_grow E m \<Longrightarrow> bm_find m k = None \<Longrightarrow> the (bm_insert_new E m k v) = (Oom, m)"
    using bm_insert_new_spec [of E m k v] m by simp
  show "bm_find m k \<noteq> None \<Longrightarrow> the (bm_insert_new E m k v) = (Exists, m)"
    using bm_insert_new_exists [of E m k v] m by simp
  show "bm_find m k = None \<Longrightarrow>
      the (bm_insert_update E m k v) = the (bm_insert_new E m k v)"
    using bm_insert_update_new [of E m k v] m by simp
  show "bm_find m k \<noteq> None \<Longrightarrow>
      \<exists>m'. the (bm_insert_update E m k v) = (Exists, m') \<and> (bmp_ok E m' \<and> be_ok_inst E) \<and>
        bm_find m' = (bm_find m)(k \<mapsto> v)"
    using bm_insert_update_exists [of E m k v] m by fastforce
  show "\<exists>m'. bm_erase m k = (bm_find m k \<noteq> None, m') \<and> (bmp_ok E m' \<and> be_ok_inst E) \<and>
      bm_find m' = (bm_find m)(k := None)"
    using bm_erase_spec [of E m k] m by blast
qed

end
