(* ===== verification/Hm.thy ===== *)
theory Hm
  imports Contracts
begin

text \<open>
  The hash map (include/clither/hm.h): open addressing with triangular probing over a
  power of two of slots, erased slots marked as tombstones. A slot's hash is 0 while it was
  never used and 1 for a tombstone. A pointer to a map is an option. \<open>None\<close> as the result of
  an operation stands for a search that does not return.
\<close>

record ('k, 'v) hm =
  hm_cnt :: int
  hm_cap :: int
  hm_hashes :: "32 word list"
  hm_keys :: "'k list"
  hm_vals :: "'v list"

text \<open>
  What the macro is instantiated with (index width, offset of the hashes, hash function,
  equality, smallest capacity, load in per cent), and the allocator: whether the block and
  the storage can be had and what fresh memory holds.
\<close>

record ('k, 'v) hm_env =
  he_bits :: nat
  he_hdr :: int
  he_hash :: "'k \<Rightarrow> 32 word"
  he_eq :: "'k \<Rightarrow> 'k \<Rightarrow> bool"
  he_min :: int
  he_pct :: int
  he_ok :: bool
  he_kok :: bool
  he_uk :: "nat \<Rightarrow> 'k"
  he_uv :: "nat \<Rightarrow> 'v"

definition HM_SLOT_UNUSED :: "32 word" where
  "HM_SLOT_UNUSED = 0"

definition HM_SLOT_RIP :: "32 word" where
  "HM_SLOT_RIP = 1"

section \<open>Operations\<close>

definition hm_init :: "('k, 'v) hm option" where
  "hm_init = None"

definition hm_count :: "('k, 'v) hm option \<Rightarrow> int" where
  "hm_count p = (case p of None \<Rightarrow> 0 | Some m \<Rightarrow> hm_cnt m)"

definition hm_capacity :: "('k, 'v) hm option \<Rightarrow> int" where
  "hm_capacity p = (case p of None \<Rightarrow> 0 | Some m \<Rightarrow> hm_cap m)"

definition hm_kvs_get_key :: "('k, 'v) hm \<Rightarrow> int \<Rightarrow> 'k" where
  "hm_kvs_get_key m slot = hm_keys m ! nat slot"

definition hm_kvs_set_key :: "int \<Rightarrow> 'k \<Rightarrow> ('k, 'v) hm \<Rightarrow> ('k, 'v) hm" where
  "hm_kvs_set_key slot key m = m\<lparr>hm_keys := (hm_keys m)[nat slot := key]\<rparr>"

definition hm_kvs_get_value :: "('k, 'v) hm \<Rightarrow> int \<Rightarrow> 'v" where
  "hm_kvs_get_value m slot = hm_vals m ! nat slot"

definition hm_kvs_set_value :: "int \<Rightarrow> 'v \<Rightarrow> ('k, 'v) hm \<Rightarrow> ('k, 'v) hm" where
  "hm_kvs_set_value slot v m = m\<lparr>hm_vals := (hm_vals m)[nat slot := v]\<rparr>"

definition hm_set_hash :: "int \<Rightarrow> 32 word \<Rightarrow> ('k, 'v) hm \<Rightarrow> ('k, 'v) hm" where
  "hm_set_hash slot h m = m\<lparr>hm_hashes := (hm_hashes m)[nat slot := h]\<rparr>"

text \<open>The two reserved values are moved out of the way.\<close>

definition hm_hash :: "('k, 'v) hm_env \<Rightarrow> 'k \<Rightarrow> 32 word" where
  "hm_hash E key =
     (let h = he_hash E key in if h = HM_SLOT_UNUSED \<or> h = HM_SLOT_RIP then 2 else h)"

text \<open>
  The probing loop, with the loop's \<open>slot\<close>, \<open>i\<close> and \<open>last_rip\<close>. It may run forever, so it is
  a partial function.
\<close>

partial_function (option) hm_find_slot_loop ::
  "('k, 'v) hm_env \<Rightarrow> ('k, 'v) hm \<Rightarrow> 'k \<Rightarrow> 32 word \<Rightarrow> int \<Rightarrow> int \<Rightarrow> int \<Rightarrow> int option" where
  "hm_find_slot_loop E m key h slot i last_rip =
     (if hm_hashes m ! nat slot \<noteq> HM_SLOT_UNUSED then
        (if hm_hashes m ! nat slot = h \<and> he_eq E (hm_kvs_get_key m slot) key
         then Some (- (1 + slot))
         else
           let last_rip = (if hm_hashes m ! nat slot = HM_SLOT_RIP then slot else last_rip);
               i = sx (he_bits E) (i + 1)
           in hm_find_slot_loop E m key h ((slot + i) AND (hm_cap m - 1)) i last_rip)
      else Some (if last_rip \<noteq> -1 then last_rip else slot))"

definition hm_find_slot ::
  "('k, 'v) hm_env \<Rightarrow> ('k, 'v) hm \<Rightarrow> 'k \<Rightarrow> 32 word \<Rightarrow> int option" where
  "hm_find_slot E m key h =
     hm_find_slot_loop E m key h
       (sx (he_bits E) (uint (h AND (word_of_int (hm_cap m - 1))))) 0 (-1)"

text \<open>Growing copies the entries of the old map one slot after the other.\<close>

fun hm_rehash :: "('k, 'v) hm_env \<Rightarrow> ('k, 'v) hm \<Rightarrow> nat list \<Rightarrow> ('k, 'v) hm \<Rightarrow> ('k, 'v) hm option" where
  "hm_rehash E old [] new = Some new"
| "hm_rehash E old (i # is) new =
     (if hm_hashes old ! i = HM_SLOT_UNUSED \<or> hm_hashes old ! i = HM_SLOT_RIP
      then hm_rehash E old is new
      else
        let key = hm_kvs_get_key old (int i);
            h = hm_hash E key
        in case hm_find_slot E new key h of
             None \<Rightarrow> None
           | Some slot \<Rightarrow>
               let new = hm_set_hash slot h new;
                   new = hm_kvs_set_key slot key new;
                   new = hm_kvs_set_value slot (hm_kvs_get_value old (int i)) new
               in hm_rehash E old is (new\<lparr>hm_cnt := hm_cnt new + 1\<rparr>))"

definition hm_empty :: "('k, 'v) hm_env \<Rightarrow> int \<Rightarrow> ('k, 'v) hm" where
  "hm_empty E cap = \<lparr>hm_cnt = 0, hm_cap = cap, hm_hashes = replicate (nat cap) 0,
     hm_keys = map (he_uk E) [0..<nat cap], hm_vals = map (he_uv E) [0..<nat cap]\<rparr>"

definition hm_grow ::
  "('k, 'v) hm_env \<Rightarrow> ('k, 'v) hm option \<Rightarrow> (int \<times> ('k, 'v) hm option) option" where
  "hm_grow E p =
     (let old_cap = (case p of None \<Rightarrow> 0 | Some m \<Rightarrow> hm_cap m);
          new_cap = (if old_cap \<noteq> 0 then sx (he_bits E) (old_cap * 2) else he_min E);
          data = sx (he_bits E) (4 * new_cap)
      in if \<not> he_ok E \<or> he_hdr E + data < 0 then Some (-1, p)
         else if \<not> he_kok E \<or> new_cap < 0 then Some (-1, p)
         else case (case p of None \<Rightarrow> Some (hm_empty E new_cap)
                    | Some m \<Rightarrow> hm_rehash E m [0..<nat old_cap] (hm_empty E new_cap)) of
             None \<Rightarrow> None
           | Some new_hm \<Rightarrow> Some (0, Some new_hm))"

definition hm_must_grow :: "('k, 'v) hm_env \<Rightarrow> ('k, 'v) hm option \<Rightarrow> bool" where
  "hm_must_grow E p = (case p of None \<Rightarrow> True | Some m \<Rightarrow> hm_cnt m * 100 \<ge> he_pct E * hm_cap m)"

definition hm_occupy :: "int \<Rightarrow> 'k \<Rightarrow> 32 word \<Rightarrow> ('k, 'v) hm \<Rightarrow> ('k, 'v) hm" where
  "hm_occupy slot key h m =
     hm_kvs_set_key slot key (hm_set_hash slot h (m\<lparr>hm_cnt := hm_cnt m + 1\<rparr>))"

text \<open>Emplacing yields the slot of the value the code returns a pointer to.\<close>

definition hm_emplace_new ::
  "('k, 'v) hm_env \<Rightarrow> ('k, 'v) hm option \<Rightarrow> 'k \<Rightarrow> (int option \<times> ('k, 'v) hm option) option" where
  "hm_emplace_new E p key =
     (case (if hm_must_grow E p then hm_grow E p else Some (0, p)) of
        None \<Rightarrow> None
      | Some (r, p) \<Rightarrow>
          if r \<noteq> 0 then Some (None, p)
          else (case p of None \<Rightarrow> None
            | Some m \<Rightarrow>
                let h = hm_hash E key
                in case hm_find_slot E m key h of
                     None \<Rightarrow> None
                   | Some slot \<Rightarrow>
                       if slot < 0 then Some (None, Some m)
                       else Some (Some slot, Some (hm_occupy slot key h m))))"

definition hm_emplace_or_get ::
  "('k, 'v) hm_env \<Rightarrow> ('k, 'v) hm option \<Rightarrow> 'k \<Rightarrow>
   (ins_status \<times> int option \<times> ('k, 'v) hm option) option" where
  "hm_emplace_or_get E p key =
     (case (if hm_must_grow E p then hm_grow E p else Some (0, p)) of
        None \<Rightarrow> None
      | Some (r, p) \<Rightarrow>
          if r \<noteq> 0 then Some (Oom, None, p)
          else (case p of None \<Rightarrow> None
            | Some m \<Rightarrow>
                let h = hm_hash E key
                in case hm_find_slot E m key h of
                     None \<Rightarrow> None
                   | Some slot \<Rightarrow>
                       if slot < 0 then Some (Exists, Some (-1 - slot), Some m)
                       else Some (New, Some slot, Some (hm_occupy slot key h m))))"

definition hm_insert_new ::
  "('k, 'v) hm_env \<Rightarrow> ('k, 'v) hm option \<Rightarrow> 'k \<Rightarrow> 'v \<Rightarrow> (int \<times> ('k, 'v) hm option) option" where
  "hm_insert_new E p key value =
     (case hm_emplace_new E p key of
        None \<Rightarrow> None
      | Some (None, p) \<Rightarrow> Some (-1, p)
      | Some (Some slot, p) \<Rightarrow> Some (0, map_option (hm_kvs_set_value slot value) p))"

definition hm_insert_update ::
  "('k, 'v) hm_env \<Rightarrow> ('k, 'v) hm option \<Rightarrow> 'k \<Rightarrow> 'v \<Rightarrow> (int \<times> ('k, 'v) hm option) option" where
  "hm_insert_update E p key value =
     (case hm_emplace_or_get E p key of
        None \<Rightarrow> None
      | Some (status, slot, p) \<Rightarrow>
          (case slot of
             Some s \<Rightarrow> Some (0, if status \<noteq> Oom then map_option (hm_kvs_set_value s value) p else p)
           | None \<Rightarrow> Some (0, p)))"

text \<open>Finding and erasing return the value, \<open>Some None\<close> for NULL.\<close>

definition hm_find ::
  "('k, 'v) hm_env \<Rightarrow> ('k, 'v) hm option \<Rightarrow> 'k \<Rightarrow> 'v option option" where
  "hm_find E p key =
     (case p of None \<Rightarrow> Some None
      | Some m \<Rightarrow>
          (case hm_find_slot E m key (hm_hash E key) of
             None \<Rightarrow> None
           | Some slot \<Rightarrow> Some (if slot \<ge> 0 then None else Some (hm_kvs_get_value m (-1 - slot)))))"

definition hm_erase ::
  "('k, 'v) hm_env \<Rightarrow> ('k, 'v) hm \<Rightarrow> 'k \<Rightarrow> ('v option \<times> ('k, 'v) hm) option" where
  "hm_erase E m key =
     (case hm_find_slot E m key (hm_hash E key) of
        None \<Rightarrow> None
      | Some slot \<Rightarrow>
          if slot \<ge> 0 then Some (None, m)
          else
            let m' = hm_set_hash (-1 - slot) HM_SLOT_RIP (m\<lparr>hm_cnt := hm_cnt m - 1\<rparr>)
            in Some (Some (hm_kvs_get_value m' (-1 - slot)), m'))"

text \<open>The next slot in use after the given one, or the capacity.\<close>

function hm_next_valid_slot :: "32 word list \<Rightarrow> int \<Rightarrow> int \<Rightarrow> int" where
  "hm_next_valid_slot hashes slot capacity =
     (let slot = slot + 1
      in if slot < capacity \<and>
            (hashes ! nat slot = HM_SLOT_UNUSED \<or> hashes ! nat slot = HM_SLOT_RIP)
         then hm_next_valid_slot hashes slot capacity
         else slot)"
  by pat_completeness auto
termination
  by (relation "measure (\<lambda>(hs, s, c). nat (c - s))") auto

declare hm_next_valid_slot.simps [simp del]

text \<open>\<open>hm_for_each\<close> visits the slots in use in ascending order.\<close>

function hm_slots_after :: "('k, 'v) hm \<Rightarrow> int \<Rightarrow> int list" where
  "hm_slots_after m slot =
     (let slot' = hm_next_valid_slot (hm_hashes m) slot (hm_cap m)
      in if slot' \<noteq> hm_cap m \<and> slot < slot' \<and> slot' < hm_cap m then slot' # hm_slots_after m slot' else [])"
  by pat_completeness auto
termination
  by (relation "measure (\<lambda>(m, s). nat (hm_cap m - s))") auto

declare hm_slots_after.simps [simp del]

definition hm_slots :: "('k, 'v) hm option \<Rightarrow> int list" where
  "hm_slots p = (case p of None \<Rightarrow> [] | Some m \<Rightarrow> hm_slots_after m (-1))"

section \<open>Triangular probing visits every slot\<close>

definition tri :: "nat \<Rightarrow> nat" where
  "tri j = j * (j + 1) div 2"

lemma tri_0 [simp]: "tri 0 = 0"
  by (simp add: tri_def)

lemma tri_Suc: "tri (Suc j) = tri j + Suc j"
proof -
  have "Suc j * (Suc j + 1) = j * (j + 1) + 2 * Suc j"
    by simp
  then show ?thesis
    unfolding tri_def by simp
qed

lemma two_tri: "2 * tri j = j * (j + 1)"
  by (simp add: tri_def)

lemma tri_inj:
  assumes "i < j" "j < 2 ^ k" "(a + tri i) mod 2 ^ k = (a + tri j) mod 2 ^ k"
  shows False
proof -
  let ?p = "2 ^ Suc k :: nat"
  have mono: "tri i \<le> tri j"
    unfolding tri_def using assms(1) by (intro div_le_mono mult_le_mono) simp_all
  have "2 ^ k dvd tri j - tri i"
    using mono assms(3) mod_eq_dvd_iff_nat [of "a + tri i" "a + tri j" "2 ^ k"] by simp
  then have "?p dvd 2 * (tri j - tri i)"
    by simp
  also have "2 * (tri j - tri i) = (j - i) * (j + i + 1)"
  proof -
    obtain d where d: "j = i + d"
      using assms(1) less_imp_add_positive by blast
    have "2 * (tri j - tri i) = j * (j + 1) - i * (i + 1)"
      by (simp add: diff_mult_distrib2 two_tri del: mult_Suc_right)
    also have "\<dots> = (j - i) * (j + i + 1)"
      unfolding d by (simp add: algebra_simps)
    finally show ?thesis .
  qed
  finally have dvd: "?p dvd (j - i) * (j + i + 1)" .
  show False
  proof (cases "odd (j - i)")
    case True
    then have "coprime ?p (j - i)"
      by (simp add: coprime_right_2_iff_odd coprime_left_2_iff_odd)
    with dvd have "?p dvd j + i + 1"
      by (simp only: coprime_dvd_mult_right_iff)
    then have "?p \<le> j + i + 1"
      by (rule dvd_imp_le) simp
    with assms(1,2) show False
      by simp
  next
    case False
    then have "odd (j + i + 1)"
      using assms(1) by (simp add: even_diff_nat)
    then have "coprime ?p (j + i + 1)"
      by (simp add: coprime_right_2_iff_odd coprime_left_2_iff_odd)
    with dvd have "?p dvd j - i"
      by (simp only: coprime_dvd_mult_left_iff)
    then have "?p \<le> j - i"
      by (rule dvd_imp_le) (use assms(1) in simp)
    with assms(1,2) show False
      by simp
  qed
qed

definition probe :: "nat \<Rightarrow> nat \<Rightarrow> nat \<Rightarrow> nat" where
  "probe cap h j = (h + tri j) mod cap"

lemma probe_lt [simp]: "0 < cap \<Longrightarrow> probe cap h j < cap"
  by (simp add: probe_def)

text \<open>Within as many steps as there are slots the probe comes to each of them.\<close>

lemma probe_surj:
  assumes "s < 2 ^ k"
  shows "\<exists>j < 2 ^ k. probe (2 ^ k) h j = s"
proof -
  let ?A = "{..<2 ^ k :: nat}"
  have "inj_on (probe (2 ^ k) h) ?A"
  proof (rule inj_onI)
    fix i j
    assume *: "i \<in> ?A" "j \<in> ?A" "probe (2 ^ k) h i = probe (2 ^ k) h j"
    then have "(h + tri i) mod 2 ^ k = (h + tri j) mod 2 ^ k"
      by (simp add: probe_def)
    then show "i = j"
      using * tri_inj [of i j k h] tri_inj [of j i k h] by (cases i j rule: linorder_cases) auto
  qed
  then have "probe (2 ^ k) h ` ?A = ?A"
    by (intro endo_inj_surj) auto
  then show ?thesis
    using assms by (metis (no_types, lifting) imageE lessThan_iff)
qed

section \<open>Representation\<close>

definition hm_used :: "('k, 'v) hm \<Rightarrow> nat \<Rightarrow> bool" where
  "hm_used m s \<longleftrightarrow> s < length (hm_hashes m) \<and> hm_hashes m ! s \<noteq> HM_SLOT_UNUSED \<and>
     hm_hashes m ! s \<noteq> HM_SLOT_RIP"

abbreviation hm_probe :: "('k, 'v) hm_env \<Rightarrow> ('k, 'v) hm \<Rightarrow> 'k \<Rightarrow> nat \<Rightarrow> nat" where
  "hm_probe E m key j \<equiv> probe (nat (hm_cap m)) (unat (hm_hash E key)) j"

text \<open>Before its slot a key's probe meets no slot that was never used.\<close>

definition hm_reachable :: "('k, 'v) hm_env \<Rightarrow> ('k, 'v) hm \<Rightarrow> 'k \<Rightarrow> nat \<Rightarrow> bool" where
  "hm_reachable E m key s \<longleftrightarrow>
     (\<exists>j. hm_probe E m key j = s \<and> (\<forall>i < j. hm_hashes m ! hm_probe E m key i \<noteq> HM_SLOT_UNUSED))"

definition hm_shape :: "('k, 'v) hm_env \<Rightarrow> ('k, 'v) hm \<Rightarrow> bool" where
  "hm_shape E m \<longleftrightarrow> (\<exists>k. hm_cap m = 2 ^ k) \<and> 4 \<le> hm_cap m \<and> 4 * hm_cap m < 2 ^ (he_bits E - 1) \<and>
     he_bits E \<le> 32 \<and>
     length (hm_hashes m) = nat (hm_cap m) \<and> length (hm_keys m) = nat (hm_cap m) \<and>
     length (hm_vals m) = nat (hm_cap m)"

definition hm_ok :: "('k, 'v) hm_env \<Rightarrow> ('k, 'v) hm \<Rightarrow> bool" where
  "hm_ok E m \<longleftrightarrow> hm_shape E m \<and> hm_cnt m = int (card {s. hm_used m s}) \<and>
     (\<forall>s. hm_used m s \<longrightarrow> hm_hashes m ! s = hm_hash E (hm_keys m ! s) \<and> hm_reachable E m (hm_keys m ! s) s) \<and>
     inj_on ((!) (hm_keys m)) {s. hm_used m s}"

definition hm_unused :: "('k, 'v) hm \<Rightarrow> nat set" where
  "hm_unused m = {s. s < length (hm_hashes m) \<and> hm_hashes m ! s = HM_SLOT_UNUSED}"

definition hm_entries :: "('k, 'v) hm \<Rightarrow> nat list \<Rightarrow> ('k \<times> 'v) list" where
  "hm_entries m is = map (\<lambda>s. (hm_keys m ! s, hm_vals m ! s)) (filter (hm_used m) is)"

definition hm_abs :: "('k, 'v) hm \<Rightarrow> 'k \<Rightarrow> 'v option" where
  "hm_abs m = map_of (hm_entries m [0..<nat (hm_cap m)])"

definition he_ok_inst :: "('k, 'v) hm_env \<Rightarrow> bool" where
  "he_ok_inst E \<longleftrightarrow> (\<exists>k. he_min E = 2 ^ k) \<and> 4 \<le> he_min E \<and> 4 * he_min E < 2 ^ (he_bits E - 1) \<and>
     he_bits E \<le> 32 \<and> 0 \<le> he_hdr E \<and> he_hdr E < 2 ^ (he_bits E - 1) \<and>
     (\<forall>a b. he_eq E a b \<longleftrightarrow> a = b)"

lemma hm_hash_valid [simp]: "hm_hash E k \<noteq> HM_SLOT_UNUSED" "hm_hash E k \<noteq> HM_SLOT_RIP"
  by (simp_all add: hm_hash_def HM_SLOT_UNUSED_def HM_SLOT_RIP_def Let_def)

lemma hm_used_less: "hm_shape E m \<Longrightarrow> hm_used m s \<Longrightarrow> s < nat (hm_cap m)"
  by (simp add: hm_used_def hm_shape_def)

lemma finite_hm_used [simp]: "finite {s. hm_used m s}"
  by (rule finite_subset [of _ "{..<length (hm_hashes m)}"]) (auto simp: hm_used_def)

lemma finite_hm_unused [simp]: "finite (hm_unused m)"
  by (rule finite_subset [of _ "{..<length (hm_hashes m)}"]) (auto simp: hm_unused_def)

lemma hm_abs_Some:
  assumes "hm_ok E m"
  shows "hm_abs m k = Some v \<longleftrightarrow> (\<exists>s. hm_used m s \<and> hm_keys m ! s = k \<and> hm_vals m ! s = v)"
proof -
  have "map fst (hm_entries m is) = map ((!) (hm_keys m)) (filter (hm_used m) is)" for "is"
    by (simp add: hm_entries_def)
  then have "distinct (map fst (hm_entries m [0..<nat (hm_cap m)]))"
    using assms by (auto simp: hm_ok_def distinct_map intro: inj_on_subset)
  then show ?thesis
    using hm_used_less [of E m] assms
    by (auto simp: hm_abs_def map_of_eq_Some_iff hm_entries_def image_iff hm_ok_def)
qed

lemma hm_abs_None:
  assumes "hm_ok E m"
  shows "hm_abs m k = None \<longleftrightarrow> (\<forall>s. hm_used m s \<longrightarrow> hm_keys m ! s \<noteq> k)"
  using hm_abs_Some [OF assms, of k] by (metis not_Some_eq)

section \<open>The search\<close>

lemma hm_probe_Suc:
  assumes "hm_shape E m"
  shows "(int (probe (nat (hm_cap m)) h j) + int (Suc j)) AND (hm_cap m - 1) =
    int (probe (nat (hm_cap m)) h (Suc j))"
proof -
  obtain k where k: "hm_cap m = 2 ^ k"
    using assms by (auto simp: hm_shape_def)
  have "(int (probe (2 ^ k) h j) + int (Suc j)) mod 2 ^ k =
      (int (h + tri j) mod 2 ^ k + int (Suc j)) mod 2 ^ k"
    by (simp add: probe_def zmod_int)
  also have "\<dots> = (int (h + tri j) + int (Suc j)) mod 2 ^ k"
    by (rule mod_add_left_eq)
  also have "\<dots> = int (probe (2 ^ k) h (Suc j))"
    by (simp add: probe_def tri_Suc zmod_int algebra_simps)
  finally have "(int (probe (2 ^ k) h j) + int (Suc j)) mod 2 ^ k = int (probe (2 ^ k) h (Suc j))" .
  then show ?thesis
    by (simp add: k and_pow2_mask nat_power_eq)
qed

lemma hm_probe_0:
  fixes h :: "32 word"
  assumes "hm_shape E m"
  shows "sx (he_bits E) (uint (h AND word_of_int (hm_cap m - 1))) = int (probe (nat (hm_cap m)) (unat h) 0)"
proof -
  obtain k where k: "hm_cap m = 2 ^ k"
    using assms by (auto simp: hm_shape_def)
  have b: "he_bits E \<le> 32" "4 * (2::int) ^ k < 2 ^ (he_bits E - 1)"
    using assms k by (auto simp: hm_shape_def)
  have "(2::int) ^ k < 2 ^ (he_bits E - 1)"
    using b(2) by (rule le_less_trans [rotated]) simp
  then have "k < he_bits E - 1"
    using power_less_imp_less_exp [of "2::int" k "he_bits E - 1"] by simp
  then have k32: "k < 32" "0 < he_bits E"
    using b(1) by simp_all
  have mk: "uint (word_of_int (hm_cap m - 1) :: 32 word) = 2 ^ k - 1"
    using k32 power_strict_increasing [of k 32 "2::int"]
    unfolding k uint_word_of_int by (subst mod_pos_pos_trivial) simp_all
  have "uint (h AND word_of_int (hm_cap m - 1)) = uint h mod 2 ^ k"
    by (simp only: uint_and mk and_pow2_mask)
  moreover have "sx (he_bits E) (uint h mod 2 ^ k) = uint h mod 2 ^ k"
    using less_trans [OF pos_mod_bound [of "2 ^ k" "uint h"] \<open>(2::int) ^ k < 2 ^ (he_bits E - 1)\<close>]
    by (intro sx_nonneg k32(2)) simp_all
  ultimately show ?thesis
    by (simp add: k probe_def nat_power_eq zmod_int)
qed

lemma hm_step_i:
  assumes "hm_shape E m" "j < nat (hm_cap m)"
  shows "sx (he_bits E) (int j + 1) = int (Suc j)"
proof -
  have b: "4 \<le> hm_cap m" "4 * hm_cap m < 2 ^ (he_bits E - 1)"
    using assms by (simp_all add: hm_shape_def)
  then have "0 < he_bits E"
    by (cases "he_bits E") simp_all
  then show ?thesis
    using b assms(2) by (subst sx_id) (auto simp: in_sx_def intro: order_trans [of _ 0])
qed

text \<open>Up to the first slot that was never used the search meets each slot of the probe.\<close>

lemma hm_find_slot_loop_spec:
  fixes key :: 'k and hh :: "32 word"
  assumes sh: "hm_shape E m" and J: "hm_hashes m ! probe c h J = HM_SLOT_UNUSED" "J < c"
    and c: "c = nat (hm_cap m)"
    and before: "\<And>i. i < J \<Longrightarrow> hm_hashes m ! probe c h i \<noteq> HM_SLOT_UNUSED"
    and "j \<le> J"
  defines "hit \<equiv> \<lambda>i. hm_hashes m ! probe c h i = hh \<and> he_eq E (hm_keys m ! probe c h i) key"
  shows "\<exists>r. hm_find_slot_loop E m key hh (int (probe c h j)) (int j) rip = Some r \<and>
    ((\<exists>i. j \<le> i \<and> i < J \<and> hit i \<and> r = - (1 + int (probe c h i))) \<or>
     (\<forall>i. j \<le> i \<longrightarrow> i < J \<longrightarrow> \<not> hit i) \<and>
     (rip \<noteq> -1 \<and> r = rip \<or>
      (\<exists>i. j \<le> i \<and> i \<le> J \<and> r = int (probe c h i) \<and>
         hm_hashes m ! probe c h i \<in> {HM_SLOT_UNUSED, HM_SLOT_RIP})))"
  using \<open>j \<le> J\<close>
proof (induction "J - j" arbitrary: j rip)
  case 0
  then have "j = J" by simp
  then show ?case
    using J by (subst hm_find_slot_loop.simps) auto
next
  case (Suc n)
  then have jJ: "j < J" "j < c"
    using J(2) by simp_all
  have nz: "hm_hashes m ! probe c h j \<noteq> HM_SLOT_UNUSED"
    using before jJ(1) by simp
  show ?case
  proof (cases "hit j")
    case True
    then show ?thesis
      using nz jJ by (subst hm_find_slot_loop.simps) (auto simp: hit_def hm_kvs_get_key_def)
  next
    case False
    define rip' where "rip' = (if hm_hashes m ! probe c h j = HM_SLOT_RIP then int (probe c h j) else rip)"
    have step: "hm_find_slot_loop E m key hh (int (probe c h j)) (int j) rip =
        hm_find_slot_loop E m key hh (int (probe c h (Suc j))) (int (Suc j)) rip'"
      using False nz hm_step_i [OF sh, of j] jJ(2) hm_probe_Suc [OF sh, of h j] c
      by (subst hm_find_slot_loop.simps) (auto simp: hit_def hm_kvs_get_key_def rip'_def Let_def)
    have "n = J - Suc j" "Suc j \<le> J"
      using Suc.hyps(2) jJ by simp_all
    from Suc.hyps(1) [OF this, of rip'] obtain r where
      r: "hm_find_slot_loop E m key hh (int (probe c h j)) (int j) rip = Some r"
      and cases: "(\<exists>i. Suc j \<le> i \<and> i < J \<and> hit i \<and> r = - (1 + int (probe c h i))) \<or>
       (\<forall>i. Suc j \<le> i \<longrightarrow> i < J \<longrightarrow> \<not> hit i) \<and>
       (rip' \<noteq> -1 \<and> r = rip' \<or>
        (\<exists>i. Suc j \<le> i \<and> i \<le> J \<and> r = int (probe c h i) \<and>
           hm_hashes m ! probe c h i \<in> {HM_SLOT_UNUSED, HM_SLOT_RIP}))"
      unfolding step by blast
    from cases show ?thesis
    proof (elim disjE conjE exE)
      fix i
      assume "Suc j \<le> i" "i < J" "hit i" "r = - (1 + int (probe c h i))"
      moreover from this(1) have "j \<le> i" by simp
      ultimately show ?thesis using r by blast
    next
      assume *: "\<forall>i. Suc j \<le> i \<longrightarrow> i < J \<longrightarrow> \<not> hit i" "rip' \<noteq> -1" "r = rip'"
      then have "\<forall>i. j \<le> i \<longrightarrow> i < J \<longrightarrow> \<not> hit i"
        using False by (metis Suc_leI le_neq_implies_less)
      moreover have "rip \<noteq> -1 \<and> r = rip \<or> (r = int (probe c h j) \<and> hm_hashes m ! probe c h j = HM_SLOT_RIP)"
        using * by (auto simp: rip'_def split: if_splits)
      ultimately show ?thesis
        using r jJ by (intro exI [of _ r]) auto
    next
      fix i
      assume *: "\<forall>i. Suc j \<le> i \<longrightarrow> i < J \<longrightarrow> \<not> hit i" "Suc j \<le> i" "i \<le> J" "r = int (probe c h i)"
        "hm_hashes m ! probe c h i \<in> {HM_SLOT_UNUSED, HM_SLOT_RIP}"
      then have "\<forall>i. j \<le> i \<longrightarrow> i < J \<longrightarrow> \<not> hit i"
        using False by (metis Suc_leI le_neq_implies_less)
      then show ?thesis
        using r * by (intro exI [of _ r]) auto
    qed
  qed
qed

text \<open>
  While some slot was never used the search returns: the slot of the key, or a free slot on
  its probe.
\<close>

lemma hm_find_slot_cases:
  assumes ok: "hm_ok E m" and eq: "\<And>a b. he_eq E a b \<longleftrightarrow> a = b" and un: "hm_unused m \<noteq> {}"
  obtains (found) s where "hm_used m s" "hm_keys m ! s = key"
      "hm_find_slot E m key (hm_hash E key) = Some (- (1 + int s))"
    | (free) s where "\<And>t. hm_used m t \<Longrightarrow> hm_keys m ! t \<noteq> key"
      "hm_find_slot E m key (hm_hash E key) = Some (int s)" "s < nat (hm_cap m)"
      "hm_hashes m ! s \<in> {HM_SLOT_UNUSED, HM_SLOT_RIP}" "hm_reachable E m key s"
proof -
  have sh: "hm_shape E m"
    using ok by (simp add: hm_ok_def)
  let ?c = "nat (hm_cap m)" and ?h = "unat (hm_hash E key)" and ?hh = "hm_hash E key"
  let ?P = "\<lambda>j. j < ?c \<and> hm_hashes m ! probe ?c ?h j = HM_SLOT_UNUSED"
  obtain k where k: "?c = 2 ^ k"
    using sh by (auto simp: hm_shape_def nat_power_eq)
  have len: "length (hm_hashes m) = ?c"
    using sh by (simp add: hm_shape_def)
  obtain u where u: "u < ?c" "hm_hashes m ! u = HM_SLOT_UNUSED"
    using un len by (auto simp: hm_unused_def)
  from probe_surj [of u k ?h] u have "\<exists>j. ?P j"
    by (auto simp: k)
  then have J: "?P (LEAST j. ?P j)" and before0: "\<And>i. i < (LEAST j. ?P j) \<Longrightarrow> \<not> ?P i"
    by (fact LeastI_ex) (fact not_less_Least)
  define J where "J = (LEAST j. ?P j)"
  have before: "\<And>i. i < J \<Longrightarrow> hm_hashes m ! probe ?c ?h i \<noteq> HM_SLOT_UNUSED"
    using before0 J unfolding J_def by (meson less_trans)
  have JJ: "hm_hashes m ! probe ?c ?h J = HM_SLOT_UNUSED" "J < ?c"
    using J unfolding J_def by auto
  note sp = hm_find_slot_loop_spec [where key = key and hh = ?hh and j = 0 and rip = "-1",
      OF sh JJ refl before le0]
  then obtain r where r: "hm_find_slot E m key ?hh = Some r"
    and cs: "(\<exists>i<J. hm_hashes m ! probe ?c ?h i = ?hh \<and> he_eq E (hm_keys m ! probe ?c ?h i) key \<and>
          r = - (1 + int (probe ?c ?h i))) \<or>
       (\<forall>i<J. \<not> (hm_hashes m ! probe ?c ?h i = ?hh \<and> he_eq E (hm_keys m ! probe ?c ?h i) key)) \<and>
       (\<exists>i\<le>J. r = int (probe ?c ?h i) \<and> hm_hashes m ! probe ?c ?h i \<in> {HM_SLOT_UNUSED, HM_SLOT_RIP})"
    unfolding hm_find_slot_def hm_probe_0 [OF sh] by auto
  from cs show thesis
  proof (elim disjE exE conjE)
    fix i
    assume i: "i < J" "hm_hashes m ! probe ?c ?h i = ?hh" "he_eq E (hm_keys m ! probe ?c ?h i) key"
      "r = - (1 + int (probe ?c ?h i))"
    have "probe ?c ?h i < length (hm_hashes m)"
      using u(1) len by simp
    then show thesis
      using i r eq by (intro found [of "probe ?c ?h i"]) (simp_all add: hm_used_def)
  next
    fix i
    assume none: "\<forall>i<J. \<not> (hm_hashes m ! probe ?c ?h i = ?hh \<and> he_eq E (hm_keys m ! probe ?c ?h i) key)"
      and i: "i \<le> J" "r = int (probe ?c ?h i)"
      "hm_hashes m ! probe ?c ?h i \<in> {HM_SLOT_UNUSED, HM_SLOT_RIP}"
    have absent: "hm_keys m ! t \<noteq> key" if t: "hm_used m t" for t
    proof
      assume key: "hm_keys m ! t = key"
      then obtain j where j: "probe ?c ?h j = t"
        "\<forall>i < j. hm_hashes m ! probe ?c ?h i \<noteq> HM_SLOT_UNUSED" and hh: "hm_hashes m ! t = ?hh"
        using ok t by (auto simp: hm_ok_def hm_reachable_def)
      have "j < J"
      proof (rule ccontr)
        assume "\<not> j < J"
        then consider "j = J" | "J < j" by linarith
        then show False
        proof cases
          case 1
          with j(1) JJ(1) t show False by (simp add: hm_used_def)
        next
          case 2
          with j(2) JJ(1) show False by simp
        qed
      qed
      with none j(1) hh key eq show False by auto
    qed
    have "hm_reachable E m key (probe ?c ?h i)"
      unfolding hm_reachable_def using before i(1) by (intro exI [of _ i]) auto
    then show thesis
      using absent r i u(1) by (intro free [of "probe ?c ?h i"]) auto
  qed
qed

lemma hm_find_spec:
  assumes "hm_ok E m" "\<And>a b. he_eq E a b \<longleftrightarrow> a = b" "hm_unused m \<noteq> {}"
  shows "hm_find E (Some m) key = Some (hm_abs m key)"
  using assms
proof (cases rule: hm_find_slot_cases [where key = key, case_names found free])
  case (found s)
  then have "hm_abs m key = Some (hm_vals m ! s)"
    by (simp add: hm_abs_Some [OF assms(1)] exI [of _ s])
  with found show ?thesis
    by (simp add: hm_find_def hm_kvs_get_value_def)
next
  case (free s)
  then have "hm_abs m key = None"
    by (simp add: hm_abs_None [OF assms(1)])
  with free show ?thesis
    by (simp add: hm_find_def)
qed

text \<open>Once every slot was used, the search for a key that is not in the map never returns.\<close>

lemma hm_find_slot_loop_diverges:
  assumes "0 < hm_cap m" "\<And>s. s < nat (hm_cap m) \<Longrightarrow> hm_hashes m ! s \<noteq> HM_SLOT_UNUSED"
    and "\<And>s. s < nat (hm_cap m) \<Longrightarrow> hm_hashes m ! s = h \<Longrightarrow> \<not> he_eq E (hm_keys m ! s) key"
    and "0 \<le> slot" "slot < hm_cap m"
  shows "hm_find_slot_loop E m key h slot i rip = None"
proof (rule ccontr)
  assume "hm_find_slot_loop E m key h slot i rip \<noteq> None"
  then obtain r where r: "hm_find_slot_loop E m key h slot i rip = Some r"
    by auto
  have "(0 < hm_cap m \<and> (\<forall>s < nat (hm_cap m). hm_hashes m ! s \<noteq> HM_SLOT_UNUSED) \<and>
      (\<forall>s < nat (hm_cap m). hm_hashes m ! s = h \<longrightarrow> \<not> he_eq E (hm_keys m ! s) key) \<and>
      0 \<le> slot \<and> slot < hm_cap m) \<longrightarrow> False"
  proof (rule hm_find_slot_loop.raw_induct [OF _ r])
    fix f :: "('a, 'b) hm_env \<Rightarrow> ('a, 'b) hm \<Rightarrow> 'a \<Rightarrow> 32 word \<Rightarrow> int \<Rightarrow> int \<Rightarrow> int \<Rightarrow> int option"
      and E :: "('a, 'b) hm_env" and m :: "('a, 'b) hm" and key h slot i rip r
    assume IH: "\<And>E m key h slot i rip r. f E m key h slot i rip = Some r \<Longrightarrow>
        (0 < hm_cap m \<and> (\<forall>s < nat (hm_cap m). hm_hashes m ! s \<noteq> HM_SLOT_UNUSED) \<and>
        (\<forall>s < nat (hm_cap m). hm_hashes m ! s = h \<longrightarrow> \<not> he_eq E (hm_keys m ! s) key) \<and>
        0 \<le> slot \<and> slot < hm_cap m) \<longrightarrow> False"
      and step: "(if hm_hashes m ! nat slot \<noteq> HM_SLOT_UNUSED then
        (if hm_hashes m ! nat slot = h \<and> he_eq E (hm_kvs_get_key m slot) key
         then Some (- (1 + slot))
         else
           let last_rip = (if hm_hashes m ! nat slot = HM_SLOT_RIP then slot else rip);
               i = sx (he_bits E) (i + 1)
           in f E m key h ((slot + i) AND (hm_cap m - 1)) i last_rip)
      else Some (if rip \<noteq> -1 then rip else slot)) = Some r"
    show "(0 < hm_cap m \<and> (\<forall>s < nat (hm_cap m). hm_hashes m ! s \<noteq> HM_SLOT_UNUSED) \<and>
      (\<forall>s < nat (hm_cap m). hm_hashes m ! s = h \<longrightarrow> \<not> he_eq E (hm_keys m ! s) key) \<and>
      0 \<le> slot \<and> slot < hm_cap m) \<longrightarrow> False"
    proof
      assume a: "0 < hm_cap m \<and> (\<forall>s < nat (hm_cap m). hm_hashes m ! s \<noteq> HM_SLOT_UNUSED) \<and>
        (\<forall>s < nat (hm_cap m). hm_hashes m ! s = h \<longrightarrow> \<not> he_eq E (hm_keys m ! s) key) \<and>
        0 \<le> slot \<and> slot < hm_cap m"
      then have "hm_hashes m ! nat slot \<noteq> HM_SLOT_UNUSED"
        "\<not> (hm_hashes m ! nat slot = h \<and> he_eq E (hm_kvs_get_key m slot) key)"
        by (auto simp: hm_kvs_get_key_def)
      with step obtain slot' i' rip' where s: "slot' = (slot + i') AND (hm_cap m - 1)"
        and f: "f E m key h slot' i' rip' = Some r"
        by (auto simp: Let_def)
      have "0 \<le> slot'" "slot' \<le> hm_cap m - 1"
        unfolding s using a by (auto intro: AND_upper2')
      with IH [OF f] a show False by auto
    qed
  qed
  with assms show False by auto
qed

section \<open>Filling a slot and emptying it\<close>

definition hm_put :: "('k, 'v) hm_env \<Rightarrow> nat \<Rightarrow> 'k \<Rightarrow> 'v \<Rightarrow> ('k, 'v) hm \<Rightarrow> ('k, 'v) hm" where
  "hm_put E s key v m = m\<lparr>hm_cnt := hm_cnt m + 1, hm_hashes := (hm_hashes m)[s := hm_hash E key],
     hm_keys := (hm_keys m)[s := key], hm_vals := (hm_vals m)[s := v]\<rparr>"

lemma hm_put_copy:
  "(let n = hm_kvs_set_value (int s) v (hm_kvs_set_key (int s) key (hm_set_hash (int s) (hm_hash E key) m))
    in n\<lparr>hm_cnt := hm_cnt n + 1\<rparr>) = hm_put E s key v m"
  unfolding Let_def
  by (rule hm.equality)
     (simp_all add: hm_put_def hm_kvs_set_value_def hm_kvs_set_key_def hm_set_hash_def)

lemma hm_put_used:
  assumes "s < length (hm_hashes m)"
  shows "hm_used (hm_put E s key v m) t \<longleftrightarrow> t = s \<or> hm_used m t"
  using assms by (auto simp: hm_used_def hm_put_def nth_list_update)

lemma hm_put_unused:
  assumes "s < length (hm_hashes m)"
  shows "hm_unused (hm_put E s key v m) = hm_unused m - {s}"
  using assms by (auto simp: hm_unused_def hm_put_def nth_list_update)

lemma hm_put_ok:
  assumes ok: "hm_ok E m" and s: "s < nat (hm_cap m)"
    and free: "hm_hashes m ! s \<in> {HM_SLOT_UNUSED, HM_SLOT_RIP}"
    and reach: "hm_reachable E m key s" and absent: "\<And>t. hm_used m t \<Longrightarrow> hm_keys m ! t \<noteq> key"
  shows "hm_ok E (hm_put E s key v m)" and "hm_abs (hm_put E s key v m) = (hm_abs m)(key \<mapsto> v)"
proof -
  let ?m = "hm_put E s key v m"
  have sh: "hm_shape E m"
    using ok by (simp add: hm_ok_def)
  have len: "length (hm_hashes m) = nat (hm_cap m)" "length (hm_keys m) = nat (hm_cap m)"
    "length (hm_vals m) = nat (hm_cap m)"
    using sh by (simp_all add: hm_shape_def)
  have nused: "\<not> hm_used m s"
    using free by (auto simp: hm_used_def)
  note used = hm_put_used [of s m E key v, unfolded len, OF s]
  have "{t. hm_used ?m t} = insert s {t. hm_used m t}"
    using used by auto
  then have card: "card {t. hm_used ?m t} = Suc (card {t. hm_used m t})"
    using nused by simp
  have keep: "hm_reachable E ?m k t" if "hm_reachable E m k t" for k t
    using that s len by (fastforce simp: hm_reachable_def hm_put_def nth_list_update)
  have tuple: "hm_keys ?m ! t = (if t = s then key else hm_keys m ! t)"
    "hm_vals ?m ! t = (if t = s then v else hm_vals m ! t)"
    "hm_hashes ?m ! t = (if t = s then hm_hash E key else hm_hashes m ! t)" for t
    using s len by (auto simp: hm_put_def nth_list_update)
  have inj: "inj_on ((!) (hm_keys ?m)) {t. hm_used ?m t}"
    using ok absent by (auto simp: inj_on_def used tuple hm_ok_def)
  show ok': "hm_ok E ?m"
    unfolding hm_ok_def
  proof (intro conjI allI impI inj)
    show "hm_shape E ?m"
      using sh by (simp add: hm_shape_def hm_put_def)
    show "hm_cnt ?m = int (card {t. hm_used ?m t})"
      using card ok by (simp add: hm_ok_def hm_put_def)
    fix t
    assume "hm_used ?m t"
    then show "hm_hashes ?m ! t = hm_hash E (hm_keys ?m ! t)"
      "hm_reachable E ?m (hm_keys ?m ! t) t"
      using ok reach keep by (auto simp: used tuple hm_ok_def)
  qed
  show "hm_abs ?m = (hm_abs m)(key \<mapsto> v)"
  proof
    fix k
    show "hm_abs ?m k = ((hm_abs m)(key \<mapsto> v)) k"
    proof (cases "k = key")
      case True
      have "hm_used ?m s \<and> hm_keys ?m ! s = k \<and> hm_vals ?m ! s = v"
        using True by (simp add: used tuple)
      then have "hm_abs ?m k = Some v"
        unfolding hm_abs_Some [OF ok'] by blast
      with True show ?thesis by simp
    next
      case False
      have "hm_abs ?m k = Some x \<longleftrightarrow> hm_abs m k = Some x" for x
        unfolding hm_abs_Some [OF ok'] hm_abs_Some [OF ok] used tuple
        using False nused by auto
      then show ?thesis
        using False by (metis fun_upd_other not_Some_eq)
    qed
  qed
qed

lemma hm_set_value_ok:
  assumes ok: "hm_ok E m" and s: "hm_used m s"
  shows "hm_ok E (hm_kvs_set_value (int s) v m)"
    and "hm_abs (hm_kvs_set_value (int s) v m) = (hm_abs m)(hm_keys m ! s \<mapsto> v)"
proof -
  let ?m = "hm_kvs_set_value (int s) v m"
  have same: "hm_used ?m = hm_used m" "hm_reachable E ?m = hm_reachable E m"
    "hm_hashes ?m = hm_hashes m" "hm_keys ?m = hm_keys m" "hm_cnt ?m = hm_cnt m"
    by (simp_all add: fun_eq_iff hm_used_def hm_reachable_def hm_kvs_set_value_def)
  have len: "s < length (hm_vals m)"
    using hm_used_less [of E m s] ok s by (simp add: hm_ok_def hm_shape_def)
  show ok': "hm_ok E ?m"
    using ok unfolding hm_ok_def same by (simp add: hm_shape_def hm_kvs_set_value_def)
  have val: "hm_vals ?m ! t = (if t = s then v else hm_vals m ! t)" for t
    using len by (simp add: hm_kvs_set_value_def nth_list_update)
  show "hm_abs ?m = (hm_abs m)(hm_keys m ! s \<mapsto> v)"
  proof
    fix k
    show "hm_abs ?m k = ((hm_abs m)(hm_keys m ! s \<mapsto> v)) k"
    proof (cases "k = hm_keys m ! s")
      case True
      then have "hm_abs ?m k = Some v"
        unfolding hm_abs_Some [OF ok'] same val using s by (auto intro!: exI [of _ s])
      with True show ?thesis by simp
    next
      case False
      then have "hm_abs ?m k = Some x \<longleftrightarrow> hm_abs m k = Some x" for x
        unfolding hm_abs_Some [OF ok'] hm_abs_Some [OF ok] same val by auto
      with False show ?thesis
        by (metis fun_upd_other not_Some_eq)
    qed
  qed
qed

definition hm_bury :: "nat \<Rightarrow> ('k, 'v) hm \<Rightarrow> ('k, 'v) hm" where
  "hm_bury s m = hm_set_hash (int s) HM_SLOT_RIP (m\<lparr>hm_cnt := hm_cnt m - 1\<rparr>)"

lemma hm_bury_ok:
  assumes ok: "hm_ok E m" and s: "hm_used m s"
  shows "hm_ok E (hm_bury s m)" and "hm_abs (hm_bury s m) = (hm_abs m)(hm_keys m ! s := None)"
    and "hm_unused (hm_bury s m) = hm_unused m"
proof -
  let ?m = "hm_bury s m"
  have sh: "hm_shape E m"
    using ok by (simp add: hm_ok_def)
  have len: "s < length (hm_hashes m)"
    using s by (simp add: hm_used_def)
  have hash: "hm_hashes ?m ! t = (if t = s then HM_SLOT_RIP else hm_hashes m ! t)" for t
    using len by (simp add: hm_bury_def hm_set_hash_def nth_list_update)
  have nz: "HM_SLOT_RIP \<noteq> HM_SLOT_UNUSED"
    by (simp add: HM_SLOT_RIP_def HM_SLOT_UNUSED_def)
  have used: "hm_used ?m t \<longleftrightarrow> t \<noteq> s \<and> hm_used m t" for t
    unfolding hm_used_def hash by (auto simp: hm_bury_def hm_set_hash_def)
  have keys: "hm_keys ?m = hm_keys m" "hm_vals ?m = hm_vals m"
    by (simp_all add: hm_bury_def hm_set_hash_def)
  have keep: "hm_reachable E ?m k t" if "hm_reachable E m k t" for k t
    using that unfolding hm_reachable_def hash using nz by (auto simp: hm_bury_def hm_set_hash_def)
  have "{t. hm_used ?m t} = {t. hm_used m t} - {s}"
    using used by auto
  moreover have "0 < card {t. hm_used m t}"
    using s by (auto simp: card_gt_0_iff)
  ultimately have card: "int (card {t. hm_used ?m t}) = int (card {t. hm_used m t}) - 1"
    using s by (simp add: of_nat_diff Suc_leI)
  show ok': "hm_ok E ?m"
    unfolding hm_ok_def
  proof (intro conjI allI impI)
    show "hm_shape E ?m"
      using sh by (simp add: hm_shape_def hm_bury_def hm_set_hash_def)
    show "hm_cnt ?m = int (card {t. hm_used ?m t})"
      using card ok by (simp add: hm_ok_def hm_bury_def hm_set_hash_def)
    show "inj_on ((!) (hm_keys ?m)) {t. hm_used ?m t}"
      using ok by (auto simp: inj_on_def used keys hm_ok_def)
    fix t
    assume "hm_used ?m t"
    then show "hm_hashes ?m ! t = hm_hash E (hm_keys ?m ! t)"
      "hm_reachable E ?m (hm_keys ?m ! t) t"
      using ok keep by (auto simp: used keys hash hm_ok_def)
  qed
  show "hm_unused ?m = hm_unused m"
    using s nz unfolding hm_unused_def hash
    by (auto simp: hm_used_def hm_bury_def hm_set_hash_def)
  show "hm_abs ?m = (hm_abs m)(hm_keys m ! s := None)"
  proof
    fix k
    show "hm_abs ?m k = ((hm_abs m)(hm_keys m ! s := None)) k"
    proof (cases "k = hm_keys m ! s")
      case True
      have "hm_abs ?m k = None"
        unfolding hm_abs_None [OF ok'] used keys
        using ok s True by (auto simp: hm_ok_def inj_on_def)
      with True show ?thesis by simp
    next
      case False
      then have "hm_abs ?m k = Some x \<longleftrightarrow> hm_abs m k = Some x" for x
        unfolding hm_abs_Some [OF ok'] hm_abs_Some [OF ok] used keys by auto
      with False show ?thesis
        by (metis fun_upd_other not_Some_eq)
    qed
  qed
qed

section \<open>Growing\<close>

definition hm_fresh :: "('k, 'v) hm \<Rightarrow> bool" where
  "hm_fresh m \<longleftrightarrow> (\<forall>s < length (hm_hashes m). hm_hashes m ! s \<noteq> HM_SLOT_RIP)"

lemma hm_fresh_unused:
  assumes "hm_ok E m" "hm_fresh m"
  shows "int (card (hm_unused m)) = hm_cap m - hm_cnt m"
proof -
  have "{..<length (hm_hashes m)} = {s. hm_used m s} \<union> hm_unused m"
    using assms(2) by (auto simp: hm_fresh_def hm_used_def hm_unused_def)
  moreover have "{s. hm_used m s} \<inter> hm_unused m = {}"
    by (auto simp: hm_used_def hm_unused_def)
  ultimately have "length (hm_hashes m) = card {s. hm_used m s} + card (hm_unused m)"
    by (metis card_Un_disjoint card_lessThan finite_hm_unused finite_hm_used)
  moreover have "int (length (hm_hashes m)) = hm_cap m" "hm_cnt m = int (card {s. hm_used m s})"
    using assms(1) by (auto simp: hm_ok_def hm_shape_def)
  ultimately show ?thesis by linarith
qed

lemma hm_cnt_le_cap: "hm_ok E m \<Longrightarrow> 0 \<le> hm_cnt m \<and> hm_cnt m \<le> hm_cap m"
proof -
  assume ok: "hm_ok E m"
  have "card {s. hm_used m s} \<le> card {..<nat (hm_cap m)}"
    using ok by (intro card_mono) (auto simp: hm_ok_def dest: hm_used_less)
  moreover have "hm_cnt m = int (card {s. hm_used m s})" "4 \<le> hm_cap m"
    using ok by (simp_all add: hm_ok_def hm_shape_def)
  ultimately show ?thesis
    by simp
qed

lemma hm_empty_ok:
  assumes "cap = 2 ^ k" "4 \<le> cap" "4 * cap < 2 ^ (he_bits E - 1)" "he_bits E \<le> 32"
  shows "hm_ok E (hm_empty E cap)" "hm_fresh (hm_empty E cap)" "hm_abs (hm_empty E cap) = Map.empty"
    "hm_cap (hm_empty E cap) = cap" "hm_cnt (hm_empty E cap) = 0"
proof -
  have none: "\<not> hm_used (hm_empty E cap) s" for s
    by (auto simp: hm_used_def hm_empty_def HM_SLOT_UNUSED_def)
  show ok: "hm_ok E (hm_empty E cap)"
    using assms none by (auto simp: hm_ok_def hm_shape_def) (auto simp: hm_empty_def)
  show "hm_abs (hm_empty E cap) = Map.empty"
    using hm_abs_None [OF ok] none by auto
qed (auto simp: hm_fresh_def hm_empty_def HM_SLOT_RIP_def)

lemma hm_entries_Cons:
  "hm_entries m (s # is) =
     (if hm_used m s then (hm_keys m ! s, hm_vals m ! s) # hm_entries m is else hm_entries m is)"
  by (simp add: hm_entries_def)

lemma hm_entries_keys: "fst ` set (hm_entries m is) = {hm_keys m ! s |s. s \<in> set is \<and> hm_used m s}"
  by (auto simp: hm_entries_def image_iff)

text \<open>Copying keeps the entries and leaves no tombstone.\<close>

lemma hm_rehash_spec:
  assumes old: "hm_ok E old" and eq: "\<And>a b. he_eq E a b \<longleftrightarrow> a = b"
  shows "hm_ok E new \<Longrightarrow> hm_fresh new \<Longrightarrow> hm_cnt new + int (length is) < hm_cap new \<Longrightarrow> distinct is \<Longrightarrow>
    \<forall>s \<in> set is. s < nat (hm_cap old) \<Longrightarrow>
    dom (hm_abs new) \<inter> fst ` set (hm_entries old is) = {} \<Longrightarrow>
    \<exists>new'. hm_rehash E old is new = Some new' \<and> hm_ok E new' \<and> hm_fresh new' \<and>
      hm_cap new' = hm_cap new \<and> hm_cnt new' = hm_cnt new + int (length (hm_entries old is)) \<and>
      hm_abs new' = hm_abs new ++ map_of (hm_entries old is)"
proof (induction "is" arbitrary: new)
  case Nil
  then show ?case by (simp add: hm_entries_def)
next
  case (Cons i "is")
  have len: "i < length (hm_hashes old)"
    using Cons.prems(5) old by (simp add: hm_ok_def hm_shape_def)
  show ?case
  proof (cases "hm_used old i")
    case False
    then show ?thesis
      using Cons.IH [OF Cons.prems(1,2)] Cons.prems len
      by (auto simp: hm_used_def hm_entries_Cons)
  next
    case True
    let ?k = "hm_keys old ! i" and ?v = "hm_vals old ! i"
    have "int (card (hm_unused new)) \<noteq> 0"
      using hm_fresh_unused [OF Cons.prems(1,2)] Cons.prems(3) by simp
    then have un: "hm_unused new \<noteq> {}" by auto
    have knew: "hm_abs new ?k = None"
      using Cons.prems(6) True by (auto simp: hm_entries_Cons)
    have "\<exists>s. hm_find_slot E new ?k (hm_hash E ?k) = Some (int s) \<and> s < nat (hm_cap new) \<and>
        hm_hashes new ! s \<in> {HM_SLOT_UNUSED, HM_SLOT_RIP} \<and> hm_reachable E new ?k s"
      using Cons.prems(1) eq un
    proof (cases rule: hm_find_slot_cases [where key = ?k, case_names found free])
      case (found s)
      then have False
        using knew hm_abs_None [OF Cons.prems(1)] by blast
      then show ?thesis ..
    qed blast
    then obtain s where s: "hm_find_slot E new ?k (hm_hash E ?k) = Some (int s)" "s < nat (hm_cap new)"
      "hm_hashes new ! s \<in> {HM_SLOT_UNUSED, HM_SLOT_RIP}" "hm_reachable E new ?k s"
      by blast
    have absent: "\<And>t. hm_used new t \<Longrightarrow> hm_keys new ! t \<noteq> ?k"
      using knew hm_abs_None [OF Cons.prems(1)] by blast
    let ?n = "hm_put E s ?k ?v new"
    note put = hm_put_ok [OF Cons.prems(1) s(2-4) absent, of ?v]
    have step: "hm_rehash E old (i # is) new = hm_rehash E old is ?n"
      using True s(1)
      by (simp add: hm_used_def hm_kvs_get_key_def hm_kvs_get_value_def Let_def
          hm_put_copy [unfolded Let_def])
    have fr: "hm_fresh ?n"
      using Cons.prems(2) unfolding hm_fresh_def hm_put_def
      by simp (metis hm_hash_valid(2) nth_list_update_eq nth_list_update_neq)
    have kn: "?k \<notin> fst ` set (hm_entries old is)"
      using old True Cons.prems(4) by (auto simp: hm_entries_keys hm_ok_def inj_on_def)
    have dis: "dom (hm_abs ?n) \<inter> fst ` set (hm_entries old is) = {}"
      using Cons.prems(6) kn True by (auto simp: put(2) hm_entries_Cons)
    have cnt: "hm_cnt ?n = hm_cnt new + 1" "hm_cap ?n = hm_cap new"
      by (simp_all add: hm_put_def)
    obtain new' where new': "hm_rehash E old is ?n = Some new'" "hm_ok E new'" "hm_fresh new'"
      "hm_cap new' = hm_cap ?n" "hm_cnt new' = hm_cnt ?n + int (length (hm_entries old is))"
      "hm_abs new' = hm_abs ?n ++ map_of (hm_entries old is)"
      using Cons.IH [OF put(1) fr _ _ _ dis] Cons.prems(3-5) cnt by auto
    have e: "hm_abs new' = hm_abs new ++ map_of (hm_entries old (i # is))"
      using kn True new'(6)
      by (auto simp: put(2) hm_entries_Cons fun_eq_iff map_add_def map_of_eq_None_iff split: option.splits)
    have "hm_rehash E old (i # is) new = Some new'"
      using step new'(1) by (rule trans)
    moreover have "hm_cnt new' = hm_cnt new + int (length (hm_entries old (i # is)))" "hm_cap new' = hm_cap new"
      using new'(4,5) cnt True by (simp_all add: hm_entries_Cons)
    ultimately show ?thesis
      using new'(2,3) e by blast
  qed
qed

definition hmp_ok :: "('k, 'v) hm_env \<Rightarrow> ('k, 'v) hm option \<Rightarrow> bool" where
  "hmp_ok E p \<longleftrightarrow> (case p of None \<Rightarrow> True | Some m \<Rightarrow> hm_ok E m)"

definition hmp_abs :: "('k, 'v) hm option \<Rightarrow> 'k \<Rightarrow> 'v option" where
  "hmp_abs p = (case p of None \<Rightarrow> Map.empty | Some m \<Rightarrow> hm_abs m)"

definition hm_next_cap :: "('k, 'v) hm_env \<Rightarrow> ('k, 'v) hm option \<Rightarrow> int" where
  "hm_next_cap E p = (case p of None \<Rightarrow> he_min E | Some m \<Rightarrow> hm_cap m * 2)"

definition hm_can_grow :: "('k, 'v) hm_env \<Rightarrow> ('k, 'v) hm option \<Rightarrow> bool" where
  "hm_can_grow E p \<longleftrightarrow> he_ok E \<and> he_kok E \<and> 4 * hm_next_cap E p < 2 ^ (he_bits E - 1)"

lemma hmp_simps [simp]:
  "hmp_ok E None" "hmp_ok E (Some m) = hm_ok E m"
  "hmp_abs None = Map.empty" "hmp_abs (Some m) = hm_abs m"
  "hm_count None = 0" "hm_count (Some m) = hm_cnt m"
  by (simp_all add: hmp_ok_def hmp_abs_def hm_count_def)

lemma hm_entries_length: "hm_ok E m \<Longrightarrow> int (length (hm_entries m [0..<nat (hm_cap m)])) = hm_cnt m"
proof -
  assume ok: "hm_ok E m"
  have "length (hm_entries m [0..<nat (hm_cap m)]) = card (set (filter (hm_used m) [0..<nat (hm_cap m)]))"
    by (simp only: hm_entries_def length_map distinct_card distinct_filter distinct_upt)
  also have "set (filter (hm_used m) [0..<nat (hm_cap m)]) = {s. hm_used m s}"
    using ok by (auto simp: hm_ok_def dest: hm_used_less)
  finally show ?thesis
    using ok by (simp add: hm_ok_def)
qed

lemma hm_grow_room:
  assumes "hmp_ok E p" "he_ok_inst E" "hm_can_grow E p"
  shows "\<exists>m. hm_grow E p = Some (0, Some m) \<and> hm_ok E m \<and> hm_fresh m \<and> hm_abs m = hmp_abs p \<and>
    hm_cap m = hm_next_cap E p \<and> hm_cnt m = hm_count p"
proof (cases p)
  case None
  obtain k where k: "he_min E = 2 ^ k" "4 \<le> he_min E" "4 * he_min E < 2 ^ (he_bits E - 1)"
    "he_bits E \<le> 32" "0 \<le> he_hdr E"
    using assms(2) by (auto simp: he_ok_inst_def)
  have "0 < he_bits E"
    using k(2,3) by (cases "he_bits E") simp_all
  then have "sx (he_bits E) (4 * he_min E) = 4 * he_min E"
    using k by (intro sx_nonneg) simp_all
  then show ?thesis
    using None assms(3) k hm_empty_ok [OF k(1-4)]
    by (simp add: hm_grow_def hm_can_grow_def hm_next_cap_def Let_def)
next
  case (Some m)
  then have ok: "hm_ok E m" using assms(1) by simp
  obtain k where k: "hm_cap m = 2 ^ k" "4 \<le> hm_cap m" "he_bits E \<le> 32"
    using ok by (auto simp: hm_ok_def hm_shape_def)
  have g: "he_ok E" "he_kok E" "4 * (hm_cap m * 2) < 2 ^ (he_bits E - 1)" "0 \<le> he_hdr E"
    and eq: "\<And>a b. he_eq E a b \<longleftrightarrow> a = b"
    using assms(2,3) Some by (auto simp: hm_can_grow_def hm_next_cap_def he_ok_inst_def)
  have b: "0 < he_bits E"
    using k(2) g(3) by (cases "he_bits E") simp_all
  have s: "sx (he_bits E) (hm_cap m * 2) = hm_cap m * 2"
    "sx (he_bits E) (4 * (hm_cap m * 2)) = 4 * (hm_cap m * 2)"
    using k(2) g(3) by (intro sx_nonneg b; simp)+
  have "hm_cap m * 2 = 2 ^ Suc k"
    using k(1) by simp
  note em = hm_empty_ok [OF this _ g(3) k(3)]
  let ?e = "hm_empty E (hm_cap m * 2)"
  have "\<exists>new'. hm_rehash E m [0..<nat (hm_cap m)] ?e = Some new' \<and> hm_ok E new' \<and> hm_fresh new' \<and>
      hm_cap new' = hm_cap ?e \<and> hm_cnt new' = hm_cnt ?e + int (length (hm_entries m [0..<nat (hm_cap m)])) \<and>
      hm_abs new' = hm_abs ?e ++ map_of (hm_entries m [0..<nat (hm_cap m)])"
    using em k(2) by (intro hm_rehash_spec [OF ok eq]) auto
  then obtain m' where "hm_rehash E m [0..<nat (hm_cap m)] ?e = Some m'" "hm_ok E m'" "hm_fresh m'"
    "hm_cap m' = hm_cap m * 2" "hm_cnt m' = hm_cnt m" "hm_abs m' = hm_abs m"
    using em k(2) hm_entries_length [OF ok] by (auto simp: hm_abs_def)
  then show ?thesis
    using Some g s k(2) by (simp add: hm_grow_def hm_next_cap_def Let_def)
qed

lemma hm_grow_full:
  assumes "hmp_ok E p" "he_ok_inst E" "\<not> hm_can_grow E p"
  shows "hm_grow E p = Some (-1, p)"
proof (cases p)
  case None
  with assms(2,3) show ?thesis
    by (auto simp: hm_grow_def hm_can_grow_def hm_next_cap_def he_ok_inst_def Let_def)
next
  case (Some m)
  then have ok: "hm_ok E m" using assms(1) by simp
  obtain k where k: "hm_cap m = 2 ^ k" "4 * hm_cap m < 2 ^ (he_bits E - 1)" "4 \<le> hm_cap m"
    using ok by (auto simp: hm_ok_def hm_shape_def)
  have b: "0 < he_bits E"
    using k by (cases "he_bits E") simp_all
  have s: "sx (he_bits E) (hm_cap m * 2) = hm_cap m * 2"
    using k by (intro sx_nonneg b) simp_all
  show ?thesis
  proof (cases "he_ok E \<and> he_kok E")
    case False
    with Some k show ?thesis
      by (auto simp: hm_grow_def Let_def)
  next
    case True
    then have ge: "2 ^ (he_bits E - 1) \<le> 4 * (hm_cap m * 2)"
      using assms(3) Some by (auto simp: hm_can_grow_def hm_next_cap_def)
    moreover have "4 * (hm_cap m * 2) = 2 ^ (k + 3)"
      using k(1) by (simp add: power_add)
    moreover have "(2::int) ^ (k + 2) < 2 ^ (he_bits E - 1)"
      using k(1,2) by (simp add: power_add)
    ultimately have "k + 2 < he_bits E - 1" "he_bits E - 1 \<le> k + 3"
      using power_less_imp_less_exp [of "2::int" "k + 2" "he_bits E - 1"]
        power_le_imp_le_exp [of "2::int" "he_bits E - 1" "k + 3"] by simp_all
    then have "he_bits E - 1 = k + 3"
      by linarith
    then have "4 * (hm_cap m * 2) = 2 ^ (he_bits E - 1)"
      using \<open>4 * (hm_cap m * 2) = 2 ^ (k + 3)\<close> by simp
    then have "sx (he_bits E) (4 * (hm_cap m * 2)) = - (2 ^ (he_bits E - 1))"
      using two_pow_split [OF b] by (simp add: sx_def)
    then have "he_hdr E + sx (he_bits E) (4 * sx (he_bits E) (hm_cap m * 2)) < 0"
      using s assms(2) by (simp add: he_ok_inst_def)
    with Some k(3) show ?thesis
      by (simp add: hm_grow_def Let_def)
  qed
qed

section \<open>Inserting, finding and erasing\<close>

text \<open>
  The map has room for a key when it can grow, or when it need not and keeps a slot that was
  never used.
\<close>

definition hm_live :: "('k, 'v) hm option \<Rightarrow> bool" where
  "hm_live p \<longleftrightarrow> (case p of None \<Rightarrow> True | Some m \<Rightarrow> hm_unused m \<noteq> {})"

definition hm_room :: "('k, 'v) hm_env \<Rightarrow> ('k, 'v) hm option \<Rightarrow> bool" where
  "hm_room E p \<longleftrightarrow>
     (if hm_must_grow E p then hm_can_grow E p
      else case p of None \<Rightarrow> False | Some m \<Rightarrow> 2 \<le> card (hm_unused m))"

lemma hm_live_simps [simp]: "hm_live None" "hm_live (Some m) \<longleftrightarrow> hm_unused m \<noteq> {}"
  by (simp_all add: hm_live_def)

lemma hm_reserve_room:
  assumes "hmp_ok E p" "he_ok_inst E" "hm_room E p"
  shows "\<exists>m. (if hm_must_grow E p then hm_grow E p else Some (0, p)) = Some (0, Some m) \<and>
    hm_ok E m \<and> hm_abs m = hmp_abs p \<and> 2 \<le> card (hm_unused m)"
proof (cases "hm_must_grow E p")
  case True
  with assms(3) have "hm_can_grow E p"
    by (simp add: hm_room_def)
  then obtain m where m: "hm_grow E p = Some (0, Some m)" "hm_ok E m" "hm_fresh m"
    "hm_abs m = hmp_abs p" "hm_cap m = hm_next_cap E p" "hm_cnt m = hm_count p"
    using hm_grow_room [OF assms(1,2)] by blast
  have "hm_cnt m + 2 \<le> hm_cap m"
  proof (cases p)
    case None
    then show ?thesis
      using m(5,6) assms(2) by (simp add: hm_next_cap_def he_ok_inst_def)
  next
    case (Some q)
    then have "hm_ok E q" using assms(1) by simp
    then show ?thesis
      using m(5,6) Some hm_cnt_le_cap [of E q] by (simp add: hm_next_cap_def hm_ok_def hm_shape_def)
  qed
  then have "2 \<le> card (hm_unused m)"
    using hm_fresh_unused [OF m(2,3)] by linarith
  with True m show ?thesis by auto
next
  case False
  with assms show ?thesis
    by (cases p) (auto simp: hm_room_def)
qed

lemma hm_occupy_put:
  "hm_kvs_set_value (int s) v (hm_occupy (int s) key (hm_hash E key) m) = hm_put E s key v m"
  by (rule hm.equality)
     (simp_all add: hm_occupy_def hm_put_def hm_kvs_set_value_def hm_kvs_set_key_def hm_set_hash_def)

lemma hm_unused_put_live:
  assumes "2 \<le> card (hm_unused m)" "s < length (hm_hashes m)"
  shows "hm_unused (hm_put E s key v m) \<noteq> {}"
proof
  assume "hm_unused (hm_put E s key v m) = {}"
  then have "hm_unused m \<subseteq> {s}"
    using hm_put_unused [OF assms(2), of E key v] by auto
  then have "card (hm_unused m) \<le> card {s}"
    by (rule card_mono [rotated]) simp
  with assms(1) show False by simp
qed

text \<open>Emplacing a key that is not in the map yields a slot to store its value in.\<close>

lemma hm_emplace_new_slot:
  assumes "hmp_ok E p" "he_ok_inst E" "hm_room E p" "hmp_abs p key = None"
  obtains s n where "hm_emplace_new E p key = Some (Some (int s), Some n)" "s < length (hm_vals n)"
    "\<And>v. hm_ok E (hm_kvs_set_value (int s) v n) \<and> hm_unused (hm_kvs_set_value (int s) v n) \<noteq> {} \<and>
      hm_abs (hm_kvs_set_value (int s) v n) = (hmp_abs p)(key \<mapsto> v) \<and>
      hm_used (hm_kvs_set_value (int s) v n) s \<and> hm_keys n ! s = key"
proof -
  obtain m where m: "(if hm_must_grow E p then hm_grow E p else Some (0, p)) = Some (0, Some m)"
    "hm_ok E m" "hm_abs m = hmp_abs p" "2 \<le> card (hm_unused m)"
    using hm_reserve_room [OF assms(1-3)] by blast
  have un: "hm_unused m \<noteq> {}"
    using m(4) by auto
  have eq: "\<And>a b. he_eq E a b \<longleftrightarrow> a = b"
    using assms(2) by (simp add: he_ok_inst_def)
  show thesis
    using m(2) eq un
  proof (cases rule: hm_find_slot_cases [where key = key, case_names found free])
    case (found s)
    then have "hm_abs m key \<noteq> None"
      using hm_abs_None [OF m(2)] by blast
    with assms(4) m(3) show thesis by simp
  next
    case (free s)
    note put = hm_put_ok [OF m(2) free(3-5) free(1)]
    have sh: "s < length (hm_hashes m)" "s < length (hm_keys m)" "s < length (hm_vals m)"
      using free(3) m(2) by (simp_all add: hm_ok_def hm_shape_def)
    let ?n = "hm_occupy (int s) key (hm_hash E key) m"
    show thesis
    proof (rule that [of s ?n])
      show "hm_emplace_new E p key = Some (Some (int s), Some ?n)"
        using m(1) free(2) by (simp add: hm_emplace_new_def Let_def)
      show "s < length (hm_vals ?n)"
        using sh by (simp add: hm_occupy_def hm_kvs_set_key_def hm_set_hash_def)
      show "hm_ok E (hm_kvs_set_value (int s) v ?n) \<and> hm_unused (hm_kvs_set_value (int s) v ?n) \<noteq> {} \<and>
          hm_abs (hm_kvs_set_value (int s) v ?n) = (hmp_abs p)(key \<mapsto> v) \<and>
          hm_used (hm_kvs_set_value (int s) v ?n) s \<and> hm_keys ?n ! s = key" for v
        using put [of v] hm_unused_put_live [OF m(4) sh(1)] m(3) hm_put_used [OF sh(1)] sh(2)
        by (simp add: hm_occupy_put)
          (simp add: hm_occupy_def hm_kvs_set_key_def hm_set_hash_def)
    qed
  qed
qed

lemma hm_insert_new_spec:
  assumes "hmp_ok E p" "he_ok_inst E" "hm_room E p" "hmp_abs p key = None"
  shows "\<exists>m. hm_insert_new E p key v = Some (0, Some m) \<and> hm_ok E m \<and> hm_unused m \<noteq> {} \<and>
    hm_abs m = (hmp_abs p)(key \<mapsto> v)"
proof -
  obtain m where m: "(if hm_must_grow E p then hm_grow E p else Some (0, p)) = Some (0, Some m)"
    "hm_ok E m" "hm_abs m = hmp_abs p" "2 \<le> card (hm_unused m)"
    using hm_reserve_room [OF assms(1-3)] by blast
  have un: "hm_unused m \<noteq> {}"
    using m(4) by auto
  have eq: "\<And>a b. he_eq E a b \<longleftrightarrow> a = b"
    using assms(2) by (simp add: he_ok_inst_def)
  show ?thesis
    using m(2) eq un
  proof (cases rule: hm_find_slot_cases [where key = key, case_names found free])
    case (found s)
    then have "hm_abs m key \<noteq> None"
      using hm_abs_None [OF m(2)] by blast
    with assms(4) m(3) show ?thesis by simp
  next
    case (free s)
    note put = hm_put_ok [OF m(2) free(3-5) free(1), of v]
    have "s < length (hm_hashes m)"
      using free(3) m(2) by (simp add: hm_ok_def hm_shape_def)
    then have "hm_unused (hm_put E s key v m) \<noteq> {}"
      by (rule hm_unused_put_live [OF m(4)])
    moreover have "hm_insert_new E p key v = Some (0, Some (hm_put E s key v m))"
      using m(1) free(2) by (simp add: hm_insert_new_def hm_emplace_new_def hm_occupy_put Let_def)
    ultimately show ?thesis
      using put m(3) by simp
  qed
qed

text \<open>A key that is there is not inserted again; the table may have grown all the same.\<close>

lemma hm_insert_new_exists:
  assumes "hmp_ok E p" "he_ok_inst E" "hm_room E p" "hmp_abs p key \<noteq> None"
  shows "\<exists>m. hm_insert_new E p key v = Some (-1, Some m) \<and> hm_ok E m \<and> hm_unused m \<noteq> {} \<and>
    hm_abs m = hmp_abs p"
proof -
  obtain m where m: "(if hm_must_grow E p then hm_grow E p else Some (0, p)) = Some (0, Some m)"
    "hm_ok E m" "hm_abs m = hmp_abs p" "2 \<le> card (hm_unused m)"
    using hm_reserve_room [OF assms(1-3)] by blast
  have un: "hm_unused m \<noteq> {}"
    using m(4) by auto
  have eq: "\<And>a b. he_eq E a b \<longleftrightarrow> a = b"
    using assms(2) by (simp add: he_ok_inst_def)
  show ?thesis
    using m(2) eq un
  proof (cases rule: hm_find_slot_cases [where key = key, case_names found free])
    case (found s)
    then have "hm_insert_new E p key v = Some (-1, Some m)"
      using m(1) by (simp add: hm_insert_new_def hm_emplace_new_def Let_def)
    with m un show ?thesis by simp
  next
    case (free s)
    then have "hm_abs m key = None"
      using hm_abs_None [OF m(2)] by blast
    with assms(4) m(3) show ?thesis by simp
  qed
qed

lemma hm_insert_update_spec:
  assumes "hmp_ok E p" "he_ok_inst E" "hm_room E p"
  shows "\<exists>m. hm_insert_update E p key v = Some (0, Some m) \<and> hm_ok E m \<and> hm_unused m \<noteq> {} \<and>
    hm_abs m = (hmp_abs p)(key \<mapsto> v)"
proof -
  obtain m where m: "(if hm_must_grow E p then hm_grow E p else Some (0, p)) = Some (0, Some m)"
    "hm_ok E m" "hm_abs m = hmp_abs p" "2 \<le> card (hm_unused m)"
    using hm_reserve_room [OF assms(1-3)] by blast
  have un: "hm_unused m \<noteq> {}"
    using m(4) by auto
  have eq: "\<And>a b. he_eq E a b \<longleftrightarrow> a = b"
    using assms(2) by (simp add: he_ok_inst_def)
  show ?thesis
    using m(2) eq un
  proof (cases rule: hm_find_slot_cases [where key = key, case_names found free])
    case (found s)
    have "hm_insert_update E p key v = Some (0, Some (hm_kvs_set_value (int s) v m))"
      using m(1) found by (simp add: hm_insert_update_def hm_emplace_or_get_def Let_def)
    moreover have "hm_unused (hm_kvs_set_value (int s) v m) = hm_unused m"
      by (simp add: hm_unused_def hm_kvs_set_value_def)
    ultimately show ?thesis
      using hm_set_value_ok [OF m(2) found(1), of v] m(3) found(2) un by simp
  next
    case (free s)
    note put = hm_put_ok [OF m(2) free(3-5) free(1), of v]
    have "s < length (hm_hashes m)"
      using free(3) m(2) by (simp add: hm_ok_def hm_shape_def)
    then have "hm_unused (hm_put E s key v m) \<noteq> {}"
      by (rule hm_unused_put_live [OF m(4)])
    moreover have "hm_insert_update E p key v = Some (0, Some (hm_put E s key v m))"
      using m(1) free(2)
      by (simp add: hm_insert_update_def hm_emplace_or_get_def hm_occupy_put Let_def)
    ultimately show ?thesis
      using put m(3) by simp
  qed
qed

lemma hm_erase_spec:
  assumes "hm_ok E m" "\<And>a b. he_eq E a b \<longleftrightarrow> a = b" "hm_unused m \<noteq> {}"
  shows "\<exists>m'. hm_erase E m key = Some (hm_abs m key, m') \<and> hm_ok E m' \<and> hm_unused m' \<noteq> {} \<and>
    hm_abs m' = (hm_abs m)(key := None)"
  using assms
proof (cases rule: hm_find_slot_cases [where key = key, case_names found free])
  case (found s)
  then have "hm_abs m key = Some (hm_vals m ! s)"
    by (simp add: hm_abs_Some [OF assms(1)] exI [of _ s])
  moreover have "hm_erase E m key = Some (Some (hm_vals m ! s), hm_bury s m)"
    using found by (simp add: hm_erase_def hm_kvs_get_value_def hm_bury_def hm_set_hash_def Let_def)
  ultimately show ?thesis
    using hm_bury_ok [OF assms(1) found(1)] found(2) assms(3) by auto
next
  case (free s)
  then have "hm_abs m key = None"
    by (simp add: hm_abs_None [OF assms(1)])
  with free assms(1,3) show ?thesis
    by (auto simp: hm_erase_def fun_eq_iff)
qed

text \<open>
  The operations as those of a store, while a slot remains that was never used. The server
  and the address tables look keys up, insert and erase them.
\<close>

definition hmp_find :: "('k, 'v) hm_env \<Rightarrow> ('k, 'v) hm option \<Rightarrow> 'k \<Rightarrow> 'v option" where
  "hmp_find E p key = (if hmp_ok E p \<and> hm_live p then the (hm_find E p key) else None)"

definition hmp_insert ::
  "('k, 'v) hm_env \<Rightarrow> ('k, 'v) hm option \<Rightarrow> 'k \<Rightarrow> 'v \<Rightarrow> ins_status \<times> ('k, 'v) hm option" where
  "hmp_insert E p key v =
     (case the (hm_insert_new E p key v) of (r, q) \<Rightarrow> (if r = 0 then New else Exists, q))"

definition hmp_erase ::
  "('k, 'v) hm_env \<Rightarrow> ('k, 'v) hm option \<Rightarrow> 'k \<Rightarrow> bool \<times> ('k, 'v) hm option" where
  "hmp_erase E p key =
     (case p of None \<Rightarrow> (False, None)
      | Some m \<Rightarrow> (case the (hm_erase E m key) of (v, m') \<Rightarrow> (v \<noteq> None, Some m')))"

lemma hmp_find_abs:
  assumes "hmp_ok E p" "he_ok_inst E" "hm_live p"
  shows "hmp_find E p = hmp_abs p"
  using assms hm_find_spec [of E "the p"]
  by (cases p) (auto simp: hmp_find_def fun_eq_iff hm_find_def he_ok_inst_def)

interpretation hm: lookup_store "\<lambda>p. hmp_ok E p \<and> he_ok_inst E \<and> hm_live p" "hm_room E" "hmp_find E"
    "hmp_insert E" "hmp_erase E" for E :: "('k, 'v) hm_env"
proof
  fix m :: "('k, 'v) hm option" and k v
  assume v: "hmp_ok E m \<and> he_ok_inst E \<and> hm_live m"
  have abs: "hmp_find E p = hmp_abs p" if "hmp_ok E p" "hm_live p" for p
    using that v hmp_find_abs by blast
  show "\<exists>m'. hmp_insert E m k v = (New, m') \<and> (hmp_ok E m' \<and> he_ok_inst E \<and> hm_live m') \<and>
        hmp_find E m' = (hmp_find E m)(k \<mapsto> v)" if a: "hm_room E m" "hmp_find E m k = None"
  proof -
    have "hmp_abs m k = None"
      using a(2) v abs by simp
    then obtain q where "hm_insert_new E m k v = Some (0, Some q)" "hm_ok E q" "hm_unused q \<noteq> {}"
      "hm_abs q = (hmp_abs m)(k \<mapsto> v)"
      using hm_insert_new_spec [of E m k v] v a(1) by blast
    then show ?thesis
      using v by (intro exI [of _ "Some q"]) (simp add: abs hmp_insert_def)
  qed
  show "\<exists>m'. hmp_erase E m k = (hmp_find E m k \<noteq> None, m') \<and>
      (hmp_ok E m' \<and> he_ok_inst E \<and> hm_live m') \<and> hmp_find E m' = (hmp_find E m)(k := None)"
  proof (cases m)
    case None
    then show ?thesis using v by (auto simp: abs hmp_erase_def)
  next
    case (Some x)
    then have x: "hm_ok E x" "\<And>a b. he_eq E a b \<longleftrightarrow> a = b" "hm_unused x \<noteq> {}"
      using v by (auto simp: he_ok_inst_def)
    obtain x' where "hm_erase E x k = Some (hm_abs x k, x')" "hm_ok E x'" "hm_unused x' \<noteq> {}"
      "hm_abs x' = (hm_abs x)(k := None)"
      using hm_erase_spec [OF x, of k] by blast
    then show ?thesis
      using v Some by (intro exI [of _ "Some x'"]) (simp add: abs hmp_erase_def)
  qed
qed

section \<open>Iterating\<close>

lemma hm_next_valid_slot_spec:
  assumes "-1 \<le> slot" "slot < cap" "length hashes = nat cap"
  shows "slot < hm_next_valid_slot hashes slot cap \<and> hm_next_valid_slot hashes slot cap \<le> cap \<and>
    (\<forall>s. slot < s \<longrightarrow> s < hm_next_valid_slot hashes slot cap \<longrightarrow>
       hashes ! nat s \<in> {HM_SLOT_UNUSED, HM_SLOT_RIP}) \<and>
    (hm_next_valid_slot hashes slot cap < cap \<longrightarrow>
       hashes ! nat (hm_next_valid_slot hashes slot cap) \<notin> {HM_SLOT_UNUSED, HM_SLOT_RIP})"
  using assms
proof (induction hashes slot cap rule: hm_next_valid_slot.induct)
  case (1 hashes slot cap)
  show ?case
  proof (cases "slot + 1 < cap \<and> hashes ! nat (slot + 1) \<in> {HM_SLOT_UNUSED, HM_SLOT_RIP}")
    case True
    then have e: "hm_next_valid_slot hashes slot cap = hm_next_valid_slot hashes (slot + 1) cap"
      by (subst hm_next_valid_slot.simps) (auto simp: Let_def)
    have IH: "slot + 1 < hm_next_valid_slot hashes (slot + 1) cap \<and>
        hm_next_valid_slot hashes (slot + 1) cap \<le> cap \<and>
        (\<forall>s. slot + 1 < s \<longrightarrow> s < hm_next_valid_slot hashes (slot + 1) cap \<longrightarrow>
           hashes ! nat s \<in> {HM_SLOT_UNUSED, HM_SLOT_RIP}) \<and>
        (hm_next_valid_slot hashes (slot + 1) cap < cap \<longrightarrow>
           hashes ! nat (hm_next_valid_slot hashes (slot + 1) cap) \<notin> {HM_SLOT_UNUSED, HM_SLOT_RIP})"
      using True "1.prems" by (intro "1.IH" [OF refl]) auto
    have "hashes ! nat s \<in> {HM_SLOT_UNUSED, HM_SLOT_RIP}"
      if "slot < s" "s < hm_next_valid_slot hashes (slot + 1) cap" for s
      using IH True that by (cases "s = slot + 1") auto
    with IH show ?thesis
      unfolding e by auto
  next
    case False
    then have "hm_next_valid_slot hashes slot cap = slot + 1"
      by (subst hm_next_valid_slot.simps) (auto simp: Let_def)
    with False "1.prems" show ?thesis by auto
  qed
qed

lemma hm_slots_after_spec:
  assumes "hm_shape E m" "-1 \<le> slot" "slot < hm_cap m"
  shows "set (hm_slots_after m slot) = {s. slot < s \<and> 0 \<le> s \<and> hm_used m (nat s)} \<and>
    sorted_wrt (<) (hm_slots_after m slot)"
  using assms
proof (induction m slot rule: hm_slots_after.induct)
  case (1 m slot)
  define n where "n = hm_next_valid_slot (hm_hashes m) slot (hm_cap m)"
  have len: "length (hm_hashes m) = nat (hm_cap m)"
    using "1.prems"(1) by (simp add: hm_shape_def)
  note nx = hm_next_valid_slot_spec [OF "1.prems"(2,3) len, folded n_def]
  have between: "\<not> hm_used m (nat s)" if "slot < s" "s < n" for s
    using nx that by (auto simp: hm_used_def)
  show ?case
  proof (cases "n < hm_cap m")
    case True
    have e: "hm_slots_after m slot = n # hm_slots_after m n"
      using True nx by (subst hm_slots_after.simps) (simp add: n_def [symmetric] Let_def)
    have IH: "set (hm_slots_after m n) = {s. n < s \<and> 0 \<le> s \<and> hm_used m (nat s)} \<and>
        sorted_wrt (<) (hm_slots_after m n)"
      using True nx "1.prems" by (intro "1.IH" [OF n_def]) auto
    have "hm_used m (nat n)" "0 \<le> n"
      using True nx len "1.prems"(2) by (auto simp: hm_used_def)
    then have "(slot < s \<and> 0 \<le> s \<and> hm_used m (nat s)) \<longleftrightarrow> s = n \<or> n < s \<and> 0 \<le> s \<and> hm_used m (nat s)" for s
      using nx between [of s] by (cases s n rule: linorder_cases) auto
    then have "{s. slot < s \<and> 0 \<le> s \<and> hm_used m (nat s)} =
        insert n {s. n < s \<and> 0 \<le> s \<and> hm_used m (nat s)}"
      by blast
    with IH show ?thesis
      unfolding e by simp
  next
    case False
    then have n: "n = hm_cap m"
      using nx by linarith
    have e: "hm_slots_after m slot = []"
      using n by (subst hm_slots_after.simps) (simp add: n_def [symmetric] Let_def)
    have "\<not> (slot < s \<and> 0 \<le> s \<and> hm_used m (nat s))" for s
    proof (cases "s < n")
      case False
      then have "\<not> nat s < length (hm_hashes m)"
        using n len by linarith
      then show ?thesis by (simp add: hm_used_def)
    qed (use between [of s] in blast)
    then show ?thesis
      unfolding e by simp
  qed
qed

text \<open>The iteration visits each slot in use once.\<close>

lemma hm_slots_spec:
  assumes "hm_ok E m"
  shows "set (hm_slots (Some m)) = int ` {s. hm_used m s}" "distinct (hm_slots (Some m))"
proof -
  have "-1 < hm_cap m" "hm_shape E m"
    using assms by (auto simp: hm_ok_def hm_shape_def)
  then have *: "set (hm_slots_after m (-1)) = {s. -1 < s \<and> 0 \<le> s \<and> hm_used m (nat s)}"
    "sorted_wrt (<) (hm_slots_after m (-1))"
    using hm_slots_after_spec [of E m "-1"] by auto
  have "{s. -1 < s \<and> 0 \<le> s \<and> hm_used m (nat s)} = int ` {s. hm_used m s}"
    by (auto simp: image_iff) (metis nat_0_le)
  then show "set (hm_slots (Some m)) = int ` {s. hm_used m s}"
    using * by (simp add: hm_slots_def)
  show "distinct (hm_slots (Some m))"
    using *(2) by (simp add: hm_slots_def strict_sorted_iff)
qed

end
