(* ===== verification/Container_Laws.thy ===== *)
theory Container_Laws
  imports Rb Vec Bset Bmap Hm
begin

text \<open>
  What the container templates of include/clither/ promise their users, one theorem per
  template: the ring buffer is a queue, the vector filters like a list, the sorted map and
  set and the hash map are finite maps and sets, and when the hash map does not return.
\<close>

section \<open>The ring buffer\<close>

text \<open>
  Claim C28. A ring buffer (\<open>rb.h\<close>, any index width from 6 bits) is a queue: with memory it
  appends, without it reports -1 and is unchanged, and taking from either end of a queue that is
  not empty yields that element and removes it. The representation stays valid and the count is the
  number of elements, also when the buffer wraps around and is doubled.
\<close>

theorem rb_refines_queue:
  assumes "rbp_ok bits p" "5 < bits"
  shows "rb_count p = int (length (rbp_list p)) \<and>
    (if rb_can_grow bits ok p
     then \<exists>q. rb_put_realloc bits ok u p x = (0, q) \<and> rbp_ok bits q \<and> rbp_list q = rbp_list p @ [x]
     else rb_put_realloc bits ok u p x = (-1, p)) \<and>
    (rbp_list p \<noteq> [] \<longrightarrow>
      (\<exists>q. rbp_take p = Some (hd (rbp_list p), q) \<and> rbp_ok bits q \<and> rbp_list q = tl (rbp_list p)) \<and>
      (\<exists>q. rbp_takew p = Some (last (rbp_list p), q) \<and> rbp_ok bits q \<and> rbp_list q = butlast (rbp_list p)))"
  using assms
  by (auto simp: rbp_count_list rb_put_realloc_room rb_put_realloc_no_room rbp_take_spec rbp_takew_spec)

definition demo_rb :: "nat rb" where
  "demo_rb = \<lparr>rb_read = 2, rb_write = 1, rb_capacity = 4, rb_data = [7, 0, 5, 6]\<rparr>"

lemma demo_rb_ok: "rbp_ok 16 (Some demo_rb)"
  unfolding rbp_ok_def rb_ok_def option.case
  by (rule conjI, rule exI [of _ 2]) (simp_all add: demo_rb_def)

theorem rb_refines_queue_witness:
  "\<exists>q. rb_put_realloc 16 True (\<lambda>_. 0) (Some demo_rb) 8 = (0, q) \<and> rbp_ok 16 q \<and> rbp_list q = [5, 6, 7, 8]"
proof -
  have "rb_can_grow 16 True (Some demo_rb)" "rbp_list (Some demo_rb) = [5, 6, 7]"
    by code_simp+
  then show ?thesis
    using rb_refines_queue [OF demo_rb_ok, of True "\<lambda>_. 0" 8] by simp
qed

section \<open>The vector\<close>

text \<open>
  \<open>vec_retain\<close> with any callback, which may write its element, keep a state of its
  own and stop the loop by an error, does to the vector what a single pass over the list of
  its elements does: it shows every element once, in order, drops those that the callback
  rejects and keeps the rest in order.
\<close>

lemma vec_retain_equiv:
  assumes "vecp_ok bits p" "vec_retain f p user = (r, p', user')"
  shows "vecp_ok bits p' \<and> retain_list f (vecp_list p) user = (r, vecp_list p', user')"
  by (rule vec_retain_list [OF assms])

definition demo_vec :: "nat vec" where
  "demo_vec = \<lparr>vec_cnt = 4, vec_cap = 4, vec_data = [3, 8, 5, 6]\<rparr>"

section \<open>The sorted map and set\<close>

text \<open>
  Claim C21. A sorted map (\<open>bmap.h\<close>) whose first 32 values fit its index type is a finite map:
  \<open>find\<close> reads it; \<open>insert_new\<close> reports a key that is present and changes nothing, and adds one
  that is absent when there is room for it or when both its blocks can grow; \<open>insert_update\<close>
  overwrites; \<open>erase\<close> removes. Each keeps the keys sorted. When the size of the block would not fit
  the index type or the block cannot be had, nothing changes. When the block was had but not the
  second one, for the keys, a map that was empty stays empty, and otherwise the caller is left with
  the pointer that was released.
\<close>

theorem bmap_refines_map:
  assumes "bmp_ok E p" "be_sizes_ok E"
  shows "bm_find p = map_of (bmp_alist p) \<and>
    (bm_find p k = None \<longrightarrow>
      (if \<not> bm_can_grow E p then bm_insert_new E p k v = Some (Oom, p)
       else if bm_full p \<and> \<not> be_kok E then bm_insert_new E p k v = (if p = None then Some (Oom, None) else None)
       else \<exists>m. bm_insert_new E p k v = Some (New, Some m) \<and> bm_ok E m \<and> bm_find (Some m) = (bm_find p)(k \<mapsto> v)) \<and>
      bm_insert_update E p k v = bm_insert_new E p k v) \<and>
    (bm_find p k \<noteq> None \<longrightarrow>
      bm_insert_new E p k v = Some (Exists, p) \<and>
      (\<exists>m. bm_insert_update E p k v = Some (Exists, Some m) \<and> bm_ok E m \<and>
         bm_find (Some m) = (bm_find p)(k \<mapsto> v))) \<and>
    (\<exists>q. bm_erase p k = (bm_find p k \<noteq> None, q) \<and> bmp_ok E q \<and> bm_find q = (bm_find p)(k := None))"
  using bm_find_map_of [OF assms(1)] bm_insert_new_all [OF assms(2,1), of k v]
    bm_insert_update_new [OF assms(1), of k v] bm_insert_new_exists [OF assms(1), of k v]
    bm_insert_update_exists [OF assms(1), of k v] bm_erase_spec [OF assms(1), of k]
  by (intro conjI impI) blast+

definition demo_bmap_env :: "(int, nat) bmap_env" where
  "demo_bmap_env = \<lparr>be_bits = 16, be_hdr = 8, be_vsz = 8, be_ok = True, be_kok = True,
     be_uk = (\<lambda>_. 0), be_uv = (\<lambda>_. 0)\<rparr>"

theorem bmap_refines_map_witness:
  "\<exists>m. bm_insert_new demo_bmap_env None 5 9 = Some (New, Some m) \<and> bm_ok demo_bmap_env m \<and>
     bm_find (Some m) = [5 \<mapsto> 9] \<and>
     bm_insert_new (demo_bmap_env\<lparr>be_kok := False\<rparr>) None 5 9 = Some (Oom, None)"
proof -
  have "bmp_ok demo_bmap_env None" "be_sizes_ok demo_bmap_env" "bm_can_grow demo_bmap_env None" "be_kok demo_bmap_env"
      "bmp_ok (demo_bmap_env\<lparr>be_kok := False\<rparr>) None" "be_sizes_ok (demo_bmap_env\<lparr>be_kok := False\<rparr>)"
      "bm_can_grow (demo_bmap_env\<lparr>be_kok := False\<rparr>) None" "\<not> be_kok (demo_bmap_env\<lparr>be_kok := False\<rparr>)"
      "bm_full (None :: (int, nat) bmap option)"
    by code_simp+
  moreover have "bm_find (None :: (int, nat) bmap option) = Map.empty"
    by (simp add: bm_find_map_of [of demo_bmap_env])
  ultimately show ?thesis
    using bmap_refines_map [of demo_bmap_env None 5 9]
      bmap_refines_map [of "demo_bmap_env\<lparr>be_kok := False\<rparr>" None 5 9] by simp
qed

text \<open>
  A sorted set (\<open>bset.h\<close>) is a finite set: \<open>find\<close> decides membership, \<open>insert\<close>
  adds, tells whether the key was there and changes nothing when the block cannot grow,
  \<open>erase\<close> removes and tells whether the key was there; each keeps the keys sorted.
\<close>

lemma bset_refines_set:
  assumes "bsp_ok E p" "se_ok_inst E"
  shows "bs_find p k = (k \<in> set (bsp_list p)) \<and>
    fst (bs_insert E p k) =
      (if k \<in> set (bsp_list p) then Exists else if bs_can_grow E p then New else Oom) \<and>
    bsp_ok E (snd (bs_insert E p k)) \<and>
    set (bsp_list (snd (bs_insert E p k))) =
      (if bs_can_grow E p then insert k (set (bsp_list p)) else set (bsp_list p)) \<and>
    fst (bs_erase p k) = (k \<in> set (bsp_list p)) \<and>
    bsp_ok E (snd (bs_erase p k)) \<and>
    set (bsp_list (snd (bs_erase p k))) = set (bsp_list p) - {k}"
proof -
  have "fst (bs_insert E p k) =
      (if k \<in> set (bsp_list p) then Exists else if bs_can_grow E p then New else Oom)"
    using bs_insert_spec [OF assms, of k] by (auto split: if_splits)
  then show ?thesis
    by (simp add: bs_find_mem [OF assms(1)] bs_insert_set [OF assms] bs_erase_set [OF assms(1)])
qed

definition demo_bset_env :: "int bset_env" where
  "demo_bset_env = \<lparr>se_bits = 32, se_hdr = 8, se_ksz = 2, se_ok = True, se_uk = (\<lambda>_. 0)\<rparr>"

section \<open>The hash map\<close>

text \<open>
  Claim C19. While a hash map (\<open>hm.h\<close>) keeps a slot that was never used it is a finite map: \<open>find\<close>
  reads it, \<open>insert_new\<close> adds an absent key when there is room, growing and rehashing the table if
  it must, \<open>insert_update\<close> overwrites, \<open>erase\<close> removes. Each of them returns, and keeps the table's
  invariant.
\<close>

theorem hm_refines_map:
  assumes "hm_ok E m" "he_ok_inst E" "hm_unused m \<noteq> {}"
  shows "hm_find E (Some m) k = Some (hm_abs m k) \<and>
    (hm_room E (Some m) \<longrightarrow>
      (if hm_abs m k = None
       then \<exists>m'. hm_insert_new E (Some m) k v = Some (0, Some m') \<and> hm_ok E m' \<and> hm_unused m' \<noteq> {} \<and>
          hm_abs m' = (hm_abs m)(k \<mapsto> v)
       else \<exists>m'. hm_insert_new E (Some m) k v = Some (-1, Some m') \<and> hm_ok E m' \<and> hm_unused m' \<noteq> {} \<and>
          hm_abs m' = hm_abs m) \<and>
      (\<exists>m'. hm_insert_update E (Some m) k v = Some (0, Some m') \<and> hm_ok E m' \<and> hm_unused m' \<noteq> {} \<and>
         hm_abs m' = (hm_abs m)(k \<mapsto> v))) \<and>
    (\<exists>m'. hm_erase E m k = Some (hm_abs m k, m') \<and> hm_ok E m' \<and> hm_unused m' \<noteq> {} \<and>
       hm_abs m' = (hm_abs m)(k := None))"
proof -
  have eq: "\<And>a b. he_eq E a b \<longleftrightarrow> a = b" and ok: "hmp_ok E (Some m)"
    using assms by (simp_all add: he_ok_inst_def)
  show ?thesis
    using hm_find_spec [OF assms(1) eq assms(3), of k] hm_erase_spec [OF assms(1) eq assms(3), of k]
      hm_insert_new_spec [OF ok assms(2), of k v] hm_insert_new_exists [OF ok assms(2), of k v]
      hm_insert_update_spec [OF ok assms(2), of k v]
    by simp
qed

text \<open>A small table: four slots, and keys that are their own hash.\<close>

definition demo_hm_env :: "(32 word, nat) hm_env" where
  "demo_hm_env = \<lparr>he_bits = 16, he_hdr = 12, he_hash = (\<lambda>k. k), he_eq = (=), he_min = 4, he_pct = 70,
     he_ok = True, he_kok = True, he_uk = (\<lambda>_. 0), he_uv = (\<lambda>_. 0)\<rparr>"

lemma demo_hm_env_ok: "he_ok_inst demo_hm_env"
  unfolding he_ok_inst_def by (rule conjI, rule exI [of _ 2]) (simp_all add: demo_hm_env_def)

theorem hm_refines_map_witness:
  "\<exists>m. hm_find demo_hm_env (Some (hm_empty demo_hm_env 4)) 7 = Some None \<and>
     hm_insert_new demo_hm_env (Some (hm_empty demo_hm_env 4)) 7 9 = Some (0, Some m) \<and> hm_abs m = [7 \<mapsto> 9]"
proof -
  let ?m = "hm_empty demo_hm_env 4"
  have e: "hm_ok demo_hm_env ?m" "hm_abs ?m = Map.empty"
    using hm_empty_ok [of 4 2 demo_hm_env] by (simp_all add: demo_hm_env_def)
  moreover have "hm_unused ?m = {0..<4}"
    by (auto simp: hm_unused_def hm_empty_def HM_SLOT_UNUSED_def)
  moreover from this have "hm_room demo_hm_env (Some ?m)"
    by (simp add: hm_room_def hm_must_grow_def demo_hm_env_def hm_empty_def)
  ultimately show ?thesis
    using hm_refines_map [OF e(1) demo_hm_env_ok, of 7 9] by auto
qed

text \<open>
  Claim C16. Erasing leaves a tombstone that the load factor does not count, and the search only
  stops at a key or at a slot that was never used. So when every slot has been used once, a search
  for a key that is not in the map never returns, and with it erasing that key, whatever number of
  keys is left, and inserting it, as long as the keys that are left are too few for the table to
  grow.
\<close>

theorem hm_search_diverges:
  assumes "hm_ok E m" "he_ok_inst E" "hm_unused m = {}" "hm_abs m k = None"
  shows "hm_find E (Some m) k = None \<and> hm_erase E m k = None \<and>
    (\<not> hm_must_grow E (Some m) \<longrightarrow> hm_insert_new E (Some m) k v = None)"
proof -
  have sh: "hm_shape E m"
    using assms(1) by (simp add: hm_ok_def)
  have cap: "0 < hm_cap m" "length (hm_hashes m) = nat (hm_cap m)"
    using sh by (auto simp: hm_shape_def)
  have "hm_find_slot E m k (hm_hash E k) = None"
    unfolding hm_find_slot_def
  proof (rule hm_find_slot_loop_diverges [OF cap(1)])
    show "hm_hashes m ! s \<noteq> HM_SLOT_UNUSED" if "s < nat (hm_cap m)" for s
      using assms(3) that cap(2) by (auto simp: hm_unused_def)
    show "\<not> he_eq E (hm_keys m ! s) k" if "s < nat (hm_cap m)" "hm_hashes m ! s = hm_hash E k" for s
    proof -
      have "hm_used m s"
        using that cap(2) by (simp add: hm_used_def)
      then show ?thesis
        using assms(2,4) by (auto simp: hm_abs_None [OF assms(1)] he_ok_inst_def)
    qed
    have "hm_probe E m k 0 < nat (hm_cap m)"
      using cap(1) by simp
    then show "sx (he_bits E) (uint (hm_hash E k AND word_of_int (hm_cap m - 1))) < hm_cap m"
      unfolding hm_probe_0 [OF sh] by linarith
  qed (simp add: hm_probe_0 [OF sh] del: of_int_diff)
  then show ?thesis
    by (simp add: hm_find_def hm_erase_def hm_insert_new_def hm_emplace_new_def Let_def)
qed

text \<open>Four clients that came and went fill the small table with tombstones.\<close>

definition demo_tombs :: "(32 word, nat) hm" where
  "demo_tombs = \<lparr>hm_cnt = 0, hm_cap = 4, hm_hashes = [1, 1, 1, 1], hm_keys = [4, 5, 6, 7], hm_vals = [0, 0, 0, 0]\<rparr>"

theorem hm_search_diverges_witness:
  "hm_find demo_hm_env (Some demo_tombs) 9 = None \<and> hm_erase demo_hm_env demo_tombs 9 = None \<and>
   hm_insert_new demo_hm_env (Some demo_tombs) 9 0 = None"
proof -
  have u: "\<not> hm_used demo_tombs s" for s
    by (auto simp: hm_used_def demo_tombs_def HM_SLOT_RIP_def less_Suc_eq numeral_eq_Suc nth_Cons')
  have "hm_shape demo_hm_env demo_tombs"
    unfolding hm_shape_def by (rule conjI, rule exI [of _ 2]) (simp_all add: demo_tombs_def demo_hm_env_def)
  then have ok: "hm_ok demo_hm_env demo_tombs"
    using u by (simp add: hm_ok_def) (simp add: demo_tombs_def)
  have "hm_unused demo_tombs = {}"
    by (auto simp: hm_unused_def demo_tombs_def HM_SLOT_UNUSED_def less_Suc_eq numeral_eq_Suc nth_Cons')
  moreover have "hm_abs demo_tombs 9 = None"
    using u by (simp add: hm_abs_None [OF ok])
  moreover have "\<not> hm_must_grow demo_hm_env (Some demo_tombs)"
    by code_simp
  ultimately show ?thesis
    using hm_search_diverges [OF ok demo_hm_env_ok] by simp
qed

end
