(* ===== verification/Wrap.thy ===== *)
theory Wrap
  imports Prelude
begin

text \<open>
  Sequence number comparison (include/clither/wrap.h). Frame numbers are 16 bit counters
  that wrap; two of them are compared by the shorter way around the circle. The contract
  \<open>serial_order\<close> is what the queues and the rollback code rely on; it holds for the 8 and
  16 bit comparisons of the code.
\<close>

section \<open>The comparisons\<close>

definition u8_gt_wrap :: "8 word \<Rightarrow> 8 word \<Rightarrow> bool" where
  "u8_gt_wrap a b =
     (if uint a - uint b > 0x7F then False
      else if uint a - uint b < -0x7F then True
      else a > b)"

definition u8_ge_wrap :: "8 word \<Rightarrow> 8 word \<Rightarrow> bool" where
  "u8_ge_wrap a b =
     (if uint a - uint b > 0x7F then False
      else if uint a - uint b < -0x7F then True
      else a \<ge> b)"

definition u16_gt_wrap :: "16 word \<Rightarrow> 16 word \<Rightarrow> bool" where
  "u16_gt_wrap a b =
     (if uint a - uint b > 0x7FFF then False
      else if uint a - uint b < -0x7FFF then True
      else a > b)"

definition u16_ge_wrap :: "16 word \<Rightarrow> 16 word \<Rightarrow> bool" where
  "u16_ge_wrap a b =
     (if uint a - uint b > 0x7FFF then False
      else if uint a - uint b < -0x7FFF then True
      else a \<ge> b)"

definition u16_lt_wrap :: "16 word \<Rightarrow> 16 word \<Rightarrow> bool" where
  "u16_lt_wrap a b = (\<not> u16_ge_wrap a b)"

definition u16_le_wrap :: "16 word \<Rightarrow> 16 word \<Rightarrow> bool" where
  "u16_le_wrap a b = (\<not> u16_gt_wrap a b)"

text \<open>The sum and the difference are computed as \<open>int\<close> and returned as \<open>int16_t\<close>.\<close>

definition u16_add_wrap :: "16 word \<Rightarrow> 16 word \<Rightarrow> int" where
  "u16_add_wrap a b = i16 (uint a + uint b)"

definition u16_sub_wrap :: "16 word \<Rightarrow> 16 word \<Rightarrow> int" where
  "u16_sub_wrap a b = i16 (uint a - uint b)"

section \<open>The contract\<close>

text \<open>
  Any two distinct numbers are ordered one way, never both, and the numbers that follow
  \<open>b\<close> by less than \<open>half\<close> steps are greater than \<open>b\<close>, however the counter wraps.
\<close>

locale serial_order =
  fixes gt ge :: "'w::len word \<Rightarrow> 'w word \<Rightarrow> bool" and half :: nat
  assumes gt_irrefl: "\<not> gt a a"
    and gt_asym: "gt a b \<Longrightarrow> \<not> gt b a"
    and gt_total: "a \<noteq> b \<Longrightarrow> gt a b \<or> gt b a"
    and ge_iff: "ge a b \<longleftrightarrow> gt a b \<or> a = b"
    and gt_window: "0 < k \<Longrightarrow> k < half \<Longrightarrow> gt (b + of_nat k) b"
begin

lemma ge_refl: "ge a a"
  by (simp add: ge_iff)

lemma not_ge: "\<not> ge a b \<longleftrightarrow> gt b a"
  using gt_asym gt_irrefl gt_total by (metis ge_iff)

lemma not_gt: "\<not> gt a b \<longleftrightarrow> ge b a"
  using not_ge by blast

lemma ge_antisym: "ge a b \<Longrightarrow> ge b a \<Longrightarrow> a = b"
  using gt_asym by (auto simp: ge_iff)

text \<open>Inside a window of \<open>half\<close> numbers the comparison is that of the distances from its
  start, so there it is transitive, which it is not on the whole circle.\<close>

lemma gt_offset:
  assumes "i < half" "j < half"
  shows "gt (b + of_nat i) (b + of_nat j) \<longleftrightarrow> j < i"
proof (cases i j rule: linorder_cases)
  case less
  then have "gt (b + of_nat i + of_nat (j - i)) (b + of_nat i)"
    using assms by (intro gt_window) simp_all
  moreover have "b + of_nat i + of_nat (j - i) = b + of_nat j"
    using less by (simp add: add.assoc flip: of_nat_add)
  ultimately show ?thesis
    using less gt_asym by auto
next
  case greater
  then have "gt (b + of_nat j + of_nat (i - j)) (b + of_nat j)"
    using assms by (intro gt_window) simp_all
  moreover have "b + of_nat j + of_nat (i - j) = b + of_nat i"
    using greater by (simp add: add.assoc flip: of_nat_add)
  ultimately show ?thesis
    using greater by auto
qed (simp add: gt_irrefl)

lemma ge_offset:
  assumes "i < half" "j < half"
  shows "ge (b + of_nat i) (b + of_nat j) \<longleftrightarrow> j \<le> i"
  using gt_offset [OF assms(2,1), of b] not_ge by (metis not_le)

lemma offset_inj:
  fixes b :: "'w word"
  shows "i < half \<Longrightarrow> j < half \<Longrightarrow> b + of_nat i = b + of_nat j \<Longrightarrow> i = j"
  using gt_offset [of i j b] gt_offset [of j i b] gt_irrefl [of "b + of_nat j"]
  by (simp add: nat_neq_iff)

end

section \<open>The code meets the contract\<close>

text \<open>
  The distance around the circle decides, but for the pair that is opposite on it, where
  the smaller number counts as the greater.
\<close>

lemma u8_gt_wrap_dist:
  "u8_gt_wrap a b \<longleftrightarrow>
     (let d = (uint a - uint b) mod 256 in 0 < d \<and> d < 128 \<or> d = 128 \<and> a < b)"
proof -
  have bnd: "0 \<le> uint a" "uint a < 256" "0 \<le> uint b" "uint b < 256"
    using uint_lt2p [of a] uint_lt2p [of b] by simp_all
  have "(uint a - uint b) mod 256 =
      (if uint a < uint b then uint a - uint b + 256 else uint a - uint b)"
    using bnd by (subst mod_wrap) (linarith, linarith, simp)
  then show ?thesis
    by (auto simp: u8_gt_wrap_def Let_def word_less_def) (use bnd in linarith)+
qed

lemma u16_gt_wrap_dist:
  "u16_gt_wrap a b \<longleftrightarrow>
     (let d = (uint a - uint b) mod 65536 in 0 < d \<and> d < 32768 \<or> d = 32768 \<and> a < b)"
proof -
  have bnd: "0 \<le> uint a" "uint a < 65536" "0 \<le> uint b" "uint b < 65536"
    using uint_lt2p [of a] uint_lt2p [of b] by simp_all
  have "(uint a - uint b) mod 65536 =
      (if uint a < uint b then uint a - uint b + 65536 else uint a - uint b)"
    using bnd by (subst mod_wrap) (linarith, linarith, simp)
  then show ?thesis
    by (auto simp: u16_gt_wrap_def Let_def word_less_def) (use bnd in linarith)+
qed

lemma u8_window_dist:
  "k < 256 \<Longrightarrow> (uint (b + of_nat k :: 8 word) - uint b) mod 256 = int k"
  by (simp add: uint_word_ariths mod_simps unsigned_of_nat take_bit_eq_mod)

lemma u16_window_dist:
  "k < 65536 \<Longrightarrow> (uint (b + of_nat k :: 16 word) - uint b) mod 65536 = int k"
  by (simp add: uint_word_ariths mod_simps unsigned_of_nat take_bit_eq_mod)

interpretation u8: serial_order u8_gt_wrap u8_ge_wrap 128
proof
  fix a b :: "8 word" and k :: nat
  show "\<not> u8_gt_wrap a a"
    by (simp add: u8_gt_wrap_def)
  show "u8_gt_wrap a b \<Longrightarrow> \<not> u8_gt_wrap b a"
    by (auto simp: u8_gt_wrap_def split: if_splits)
  show "a \<noteq> b \<Longrightarrow> u8_gt_wrap a b \<or> u8_gt_wrap b a"
    by (auto simp: u8_gt_wrap_def)
  show "u8_ge_wrap a b \<longleftrightarrow> u8_gt_wrap a b \<or> a = b"
    by (auto simp: u8_gt_wrap_def u8_ge_wrap_def)
  show "0 < k \<Longrightarrow> k < 128 \<Longrightarrow> u8_gt_wrap (b + of_nat k) b"
    by (simp add: u8_gt_wrap_dist u8_window_dist)
qed

interpretation u16: serial_order u16_gt_wrap u16_ge_wrap 32768
proof
  fix a b :: "16 word" and k :: nat
  show "\<not> u16_gt_wrap a a"
    by (simp add: u16_gt_wrap_def)
  show "u16_gt_wrap a b \<Longrightarrow> \<not> u16_gt_wrap b a"
    by (auto simp: u16_gt_wrap_def split: if_splits)
  show "a \<noteq> b \<Longrightarrow> u16_gt_wrap a b \<or> u16_gt_wrap b a"
    by (auto simp: u16_gt_wrap_def)
  show "u16_ge_wrap a b \<longleftrightarrow> u16_gt_wrap a b \<or> a = b"
    by (auto simp: u16_gt_wrap_def u16_ge_wrap_def)
  show "0 < k \<Longrightarrow> k < 32768 \<Longrightarrow> u16_gt_wrap (b + of_nat k) b"
    by (simp add: u16_gt_wrap_dist u16_window_dist)
qed

lemma u16_lt_iff: "u16_lt_wrap a b \<longleftrightarrow> u16_gt_wrap b a"
  by (simp add: u16_lt_wrap_def u16.not_ge)

lemma u16_le_iff: "u16_le_wrap a b \<longleftrightarrow> u16_ge_wrap b a"
  by (simp add: u16_le_wrap_def u16.not_gt)

lemma u16_sub_wrap_offset:
  "k < 32768 \<Longrightarrow> u16_sub_wrap (b + of_nat k) b = int k"
proof -
  assume k: "k < 32768"
  have "u16_sub_wrap (b + of_nat k) b =
      ((uint (b + of_nat k) - uint b) mod 65536 + 32768) mod 65536 - 32768"
    by (simp add: u16_sub_wrap_def sx_16 mod_simps)
  with k show ?thesis
    by (simp add: u16_window_dist)
qed

end
