(* ===== verification/FixedPoint.thy ===== *)
theory FixedPoint
  imports Prelude
begin

text \<open>
  Fixed point arithmetic (include/clither/q.h): Q16.16 for curve fitting, \<open>qw\<close> (14
  fractional bits, saturating at 24 bits) for world positions, \<open>qa\<close> (12 fractional bits)
  for angles in \<open>[-pi, pi)\<close>, and bounding boxes. Values are the integers the C variables
  hold. An \<open>int64_t\<close> intermediate holds the product of two 32 bit values exactly, so no
  cast is written for it; stores into 32 and 16 bits are. The trigonometric functions and
  the square root of the C library are a parameter, the record \<open>libm\<close>.
\<close>

section \<open>Types\<close>

type_synonym qw = int
type_synonym qa = int
type_synonym q16_16 = int

record qwpos =
  px :: qw
  py :: qw

record qwaabb =
  bx1 :: qw
  by1 :: qw
  bx2 :: qw
  by2 :: qw

record libm =
  m_cos :: "real \<Rightarrow> real"
  m_sin :: "real \<Rightarrow> real"
  m_sqrt :: "real \<Rightarrow> real"
  m_atan2 :: "real \<Rightarrow> real \<Rightarrow> real"

text \<open>What the documentation of the C library promises of them, as far as the code needs it.\<close>

definition libm_ok :: "libm \<Rightarrow> bool" where
  "libm_ok L \<longleftrightarrow>
     (\<forall>x. \<bar>m_cos L x\<bar> \<le> 1) \<and> (\<forall>x. \<bar>m_sin L x\<bar> \<le> 1) \<and>
     (\<forall>x\<ge>0. 0 \<le> m_sqrt L x) \<and> (\<forall>y x. \<bar>m_atan2 L y x\<bar> \<le> 3.1415926536)"

definition QA_PI :: int where
  "QA_PI = 12867"

section \<open>Q16.16\<close>

definition make_q16_16 :: "int \<Rightarrow> q16_16" where
  "make_q16_16 v = i32 (v * 65536)"

definition make_q16_16_f :: "real \<Rightarrow> q16_16" where
  "make_q16_16_f v = i32 (ctrunc (v * 65536))"

definition make_q16_16_2 :: "int \<Rightarrow> int \<Rightarrow> q16_16" where
  "make_q16_16_2 v d = i32 (i32 (v * 65536) sdiv d)"

definition q16_16_to_float :: "q16_16 \<Rightarrow> real" where
  "q16_16_to_float q = of_int q / 65536"

definition qw_to_q16_16 :: "qw \<Rightarrow> int" where
  "qw_to_q16_16 q = q * 65536 sdiv 16384"

definition q16_16_add :: "q16_16 \<Rightarrow> q16_16 \<Rightarrow> q16_16" where
  "q16_16_add a b = i32 (a + b)"

definition q16_16_add_sat :: "q16_16 \<Rightarrow> q16_16 \<Rightarrow> q16_16" where
  "q16_16_add_sat a b =
     (let tmp = a + b;
          tmp = (if tmp > 0x7FFFFFFF then 0x7FFFFFFF else tmp);
          tmp = (if tmp < - 0x80000000 then - 0x80000000 else tmp)
      in i32 tmp)"

definition q16_16_sub :: "q16_16 \<Rightarrow> q16_16 \<Rightarrow> q16_16" where
  "q16_16_sub a b = i32 (a - b)"

definition q16_16_sat32 :: "int \<Rightarrow> q16_16" where
  "q16_16_sat32 x =
     (if x > 0x7FFFFFFF then 0x7FFFFFFF
      else if x < - 0x80000000 then - 0x80000000
      else i32 x)"

definition q16_16_mul :: "q16_16 \<Rightarrow> q16_16 \<Rightarrow> q16_16" where
  "q16_16_mul a b = q16_16_sat32 ((a * b + 32768) div 65536)"

definition q16_16_div :: "q16_16 \<Rightarrow> q16_16 \<Rightarrow> q16_16" where
  "q16_16_div a b =
     (let temp = a * 65536;
          temp = (if temp \<ge> 0 \<and> b \<ge> 0 \<or> temp < 0 \<and> b < 0
                  then temp + b sdiv 2 else temp - b sdiv 2)
      in i32 (temp sdiv b))"

section \<open>World coordinates\<close>

definition make_qw :: "int \<Rightarrow> qw" where
  "make_qw v = i32 (v * 16384)"

definition make_qw_f :: "real \<Rightarrow> qw" where
  "make_qw_f v = i32 (ctrunc (v * 16384))"

definition make_qw2 :: "int \<Rightarrow> int \<Rightarrow> qw" where
  "make_qw2 v d = i32 (i32 (v * 16384) sdiv d)"

definition qw_to_int :: "int \<Rightarrow> int" where
  "qw_to_int q = i32 (q sdiv 16384)"

definition qw_to_float :: "qw \<Rightarrow> real" where
  "qw_to_float q = of_int q / 16384"

definition qw_rescale :: "int \<Rightarrow> int \<Rightarrow> int \<Rightarrow> int" where
  "qw_rescale q num den = q * num sdiv den"

definition make_qwaabbi :: "int \<Rightarrow> int \<Rightarrow> int \<Rightarrow> int \<Rightarrow> qwaabb" where
  "make_qwaabbi x1 y1 x2 y2 =
     \<lparr>bx1 = make_qw x1, by1 = make_qw y1, bx2 = make_qw x2, by2 = make_qw y2\<rparr>"

definition make_qwaabbqw :: "qw \<Rightarrow> qw \<Rightarrow> qw \<Rightarrow> qw \<Rightarrow> qwaabb" where
  "make_qwaabbqw x1 y1 x2 y2 = \<lparr>bx1 = x1, by1 = y1, bx2 = x2, by2 = y2\<rparr>"

definition qwaabb_union :: "qwaabb \<Rightarrow> qwaabb \<Rightarrow> qwaabb" where
  "qwaabb_union a b =
     (let a = (if bx1 a > bx1 b then a\<lparr>bx1 := bx1 b\<rparr> else a);
          a = (if bx2 a < bx2 b then a\<lparr>bx2 := bx2 b\<rparr> else a);
          a = (if by1 a > by1 b then a\<lparr>by1 := by1 b\<rparr> else a);
          a = (if by2 a < by2 b then a\<lparr>by2 := by2 b\<rparr> else a)
      in a)"

definition qwaabb_test_qwpos :: "qwaabb \<Rightarrow> qwpos \<Rightarrow> bool" where
  "qwaabb_test_qwpos bb p \<longleftrightarrow>
     px p \<ge> bx1 bb \<and> px p \<le> bx2 bb \<and> py p \<ge> by1 bb \<and> py p \<le> by2 bb"

definition qw_add :: "qw \<Rightarrow> qw \<Rightarrow> qw" where
  "qw_add a b = i32 (a + b)"

definition qw_add_sat :: "qw \<Rightarrow> qw \<Rightarrow> qw" where
  "qw_add_sat a b =
     (let tmp = a + b;
          tmp = (if tmp > 0x7FFFFF then 0x7FFFFF else tmp);
          tmp = (if tmp < - 0x800000 then - 0x800000 else tmp)
      in i32 tmp)"

definition qw_sub :: "qw \<Rightarrow> qw \<Rightarrow> qw" where
  "qw_sub a b = i32 (a - b)"

definition qw_sat24 :: "int \<Rightarrow> qw" where
  "qw_sat24 x =
     (if x > 0x7FFFFF then 0x7FFFFF
      else if x < - 0x800000 then - 0x800000
      else i32 x)"

definition qw_mul :: "qw \<Rightarrow> qw \<Rightarrow> qw" where
  "qw_mul a b = qw_sat24 ((a * b + 8192) div 16384)"

definition qw_mul_to_int :: "qw \<Rightarrow> int \<Rightarrow> int" where
  "qw_mul_to_int a b =
     (let temp = a * b; temp = temp + 8192; temp = temp div 16384 in qw_to_int temp)"

definition qw_div :: "qw \<Rightarrow> qw \<Rightarrow> qw" where
  "qw_div a b =
     (let temp = a * 16384;
          temp = (if temp \<ge> 0 \<and> b \<ge> 0 \<or> temp < 0 \<and> b < 0
                  then temp + b sdiv 2 else temp - b sdiv 2)
      in i32 (temp sdiv b))"

definition qw_sq :: "qw \<Rightarrow> qw" where
  "qw_sq q = qw_mul q q"

definition qw_sqrt :: "libm \<Rightarrow> qw \<Rightarrow> qw" where
  "qw_sqrt L q = make_qw_f (m_sqrt L (qw_to_float q))"

definition make_qwposi :: "int \<Rightarrow> int \<Rightarrow> qwpos" where
  "make_qwposi x y = \<lparr>px = make_qw x, py = make_qw y\<rparr>"

definition make_qwposf :: "real \<Rightarrow> real \<Rightarrow> qwpos" where
  "make_qwposf x y = \<lparr>px = make_qw_f x, py = make_qw_f y\<rparr>"

definition make_qwposqw :: "qw \<Rightarrow> qw \<Rightarrow> qwpos" where
  "make_qwposqw x y = \<lparr>px = x, py = y\<rparr>"

definition qwpos_normalize :: "libm \<Rightarrow> qwpos \<Rightarrow> qwpos" where
  "qwpos_normalize L p =
     (let len = qw_sqrt L (qw_add (qw_mul (px p) (px p)) (qw_mul (py p) (py p)))
      in if len = 0 then make_qwposi 0 0
         else \<lparr>px = qw_div (px p) len, py = qw_div (py p) len\<rparr>)"

section \<open>Angles\<close>

definition make_qa :: "int \<Rightarrow> qa" where
  "make_qa v = i16 (v * 4096)"

definition make_qa_f :: "real \<Rightarrow> qa" where
  "make_qa_f v = i16 (ctrunc (v * 4096))"

definition make_qa2 :: "int \<Rightarrow> int \<Rightarrow> qa" where
  "make_qa2 v d = i16 (i32 (v * 4096) sdiv d)"

definition qa_to_float :: "qa \<Rightarrow> real" where
  "qa_to_float q = of_int q / 4096"

definition qa_rescale :: "int \<Rightarrow> int \<Rightarrow> int \<Rightarrow> int" where
  "qa_rescale q num den = q * num sdiv den"

definition u8_to_qa :: "8 word \<Rightarrow> int" where
  "u8_to_qa u = qa_rescale (2 * QA_PI) (uint u) 256 - QA_PI"

definition qa_to_u8 :: "qa \<Rightarrow> int" where
  "qa_to_u8 q = qa_rescale (q + QA_PI) 256 (2 * QA_PI)"

definition qa_wrapvalue :: "int \<Rightarrow> qa" where
  "qa_wrapvalue v =
     (let v = (if v < - QA_PI then v + 2 * QA_PI else v);
          v = (if v \<ge> QA_PI then v - 2 * QA_PI else v)
      in i16 v)"

definition qa_add :: "qa \<Rightarrow> qa \<Rightarrow> qa" where
  "qa_add a b = qa_wrapvalue (a + b)"

definition qa_sub :: "qa \<Rightarrow> qa \<Rightarrow> qa" where
  "qa_sub a b = qa_wrapvalue (a - b)"

definition qa_sat16 :: "int \<Rightarrow> qa" where
  "qa_sat16 x =
     (if x > 0x7FFF then 0x7FFF
      else if x < - 0x8000 then - 0x8000
      else i16 x)"

definition qa_mul :: "qa \<Rightarrow> qa \<Rightarrow> qa" where
  "qa_mul a b = qa_sat16 ((a * b + 2048) div 4096)"

definition qa_cos :: "libm \<Rightarrow> qa \<Rightarrow> qw" where
  "qa_cos L q = make_qw_f (m_cos L (qa_to_float q))"

definition qa_sin :: "libm \<Rightarrow> qa \<Rightarrow> qw" where
  "qa_sin L q = make_qw_f (m_sin L (qa_to_float q))"

section \<open>Range invariants\<close>

definition qa_ok :: "qa \<Rightarrow> bool" where
  "qa_ok a \<longleftrightarrow> - QA_PI \<le> a \<and> a < QA_PI"

definition qw24 :: "qw \<Rightarrow> bool" where
  "qw24 x \<longleftrightarrow> - 0x800000 \<le> x \<and> x \<le> 0x7FFFFF"

lemma qa_ok_in_sx: "qa_ok a \<Longrightarrow> in_sx 16 a"
  by (simp add: qa_ok_def QA_PI_def in_sx_16)

lemma qw24_in_sx: "qw24 x \<Longrightarrow> in_sx 32 x"
  by (simp add: qw24_def in_sx_32)

text \<open>The wrap brings any sum or difference of two angles back into range, by a whole turn.\<close>

lemma qa_wrapvalue_ok:
  assumes "- 3 * QA_PI \<le> v" "v < 3 * QA_PI"
  shows "qa_ok (qa_wrapvalue v)" "(qa_wrapvalue v - v) mod (2 * QA_PI) = 0"
  using assms by (auto simp: qa_wrapvalue_def qa_ok_def QA_PI_def Let_def i16_id)

lemma qa_add_ok [inv_intros]: "qa_ok a \<Longrightarrow> qa_ok b \<Longrightarrow> qa_ok (qa_add a b)"
  unfolding qa_add_def by (rule qa_wrapvalue_ok) (auto simp: qa_ok_def)

lemma qa_sub_ok [inv_intros]: "qa_ok a \<Longrightarrow> qa_ok b \<Longrightarrow> qa_ok (qa_sub a b)"
  unfolding qa_sub_def by (rule qa_wrapvalue_ok) (auto simp: qa_ok_def)

lemma qw_sat24_ok [inv_intros]: "qw24 (qw_sat24 x)"
  by (auto simp: qw_sat24_def qw24_def i32_id)

lemma qw_mul_ok [inv_intros]: "qw24 (qw_mul a b)"
  by (simp add: qw_mul_def qw_sat24_ok)

lemma qw_add_sat_ok [inv_intros]: "qw24 (qw_add_sat a b)"
  by (auto simp: qw_add_sat_def qw24_def i32_id Let_def)

lemma qw_sat24_id [cast_ids]: "qw24 x \<Longrightarrow> qw_sat24 x = x"
  by (auto simp: qw_sat24_def qw24_def i32_id)

lemma u8_to_qa_eq: "u8_to_qa u = 25734 * uint u div 256 - 12867"
  by (simp add: u8_to_qa_def qa_rescale_def QA_PI_def)

lemma qa_ok_shift: "0 \<le> d \<Longrightarrow> d < 25734 \<Longrightarrow> qa_ok (d - 12867)"
  by (simp add: qa_ok_def QA_PI_def)

lemma u8_to_qa_ok [inv_intros]: "qa_ok (u8_to_qa u)"
proof -
  have u: "0 \<le> uint u" "uint u < 256"
    using uint_lt2p [of u] by simp_all
  show ?thesis
    unfolding u8_to_qa_eq
  proof (rule qa_ok_shift)
    show "0 \<le> 25734 * uint u div 256"
      using u(1) by (simp add: pos_imp_zdiv_nonneg_iff)
    show "25734 * uint u div 256 < 25734"
      using u(2) by (simp add: div_less_iff_less_mult)
  qed
qed

lemma qa_trig_bounds:
  assumes "libm_ok L"
  shows "\<bar>qa_cos L q\<bar> \<le> 16384" "\<bar>qa_sin L q\<bar> \<le> 16384"
proof -
  have *: "\<bar>make_qw_f v\<bar> \<le> 16384" if "\<bar>v\<bar> \<le> 1" for v
  proof -
    have "\<bar>ctrunc (v * 16384)\<bar> \<le> 16384"
      using that by (intro ctrunc_bounds) (simp add: abs_mult)
    then show ?thesis
      by (simp add: make_qw_f_def i32_id abs_le_iff)
  qed
  show "\<bar>qa_cos L q\<bar> \<le> 16384" "\<bar>qa_sin L q\<bar> \<le> 16384"
    using assms by (auto simp: qa_cos_def qa_sin_def libm_ok_def intro!: *)
qed

section \<open>Rounding\<close>

lemma div_mult_mod: "(t + h) div m * m = t + h - (t + h) mod (m::int)"
  by (simp add: minus_mod_eq_div_mult)

lemma round_half_up: "2 * \<bar>(t + 8192) div 16384 * 16384 - t\<bar> \<le> (16384::int)"
proof -
  have *: "2 * \<bar>t + 8192 - r - t\<bar> \<le> 16384" if "0 \<le> r" "r < 16384" for r :: int
    using that by (simp add: abs_if)
  show ?thesis
    unfolding div_mult_mod by (rule *) simp_all
qed

text \<open>Division rounds to the nearest multiple, half away from zero, for all signs.\<close>

lemma nonneg_div_nearest:
  fixes t b :: int
  assumes "0 \<le> t" "0 < b"
  shows "2 * \<bar>(t + b div 2) div b * b - t\<bar> \<le> b"
proof -
  note div_mult_mod [of t "b div 2" b]
  moreover have "0 \<le> (t + b div 2) mod b" "(t + b div 2) mod b < b"
    using assms by simp_all
  moreover have "2 * (b div 2) \<le> b" "b \<le> 2 * (b div 2) + 1"
    by presburger+
  ultimately show ?thesis
    by (auto simp: abs_if)
qed

definition round_div :: "int \<Rightarrow> int \<Rightarrow> int" where
  "round_div t b =
     (if t \<ge> 0 \<and> b \<ge> 0 \<or> t < 0 \<and> b < 0 then t + b sdiv 2 else t - b sdiv 2) sdiv b"

lemma round_div_pos: "0 \<le> t \<Longrightarrow> 0 < b \<Longrightarrow> round_div t b = (t + b div 2) div b"
  by (simp add: round_div_def pos_imp_zdiv_nonneg_iff)

lemma round_div_minus_right: "b \<noteq> 0 \<Longrightarrow> 0 \<le> t \<Longrightarrow> round_div t (- b) = - round_div t b"
  by (cases "b < 0") (simp_all add: round_div_def sdiv_minus_right sdiv_minus_left)

lemma round_div_minus_left:
  assumes "b \<noteq> 0" "0 < t"
  shows "round_div (- t) b = - round_div t b"
proof -
  have "round_div (- t) b =
      (if 0 \<le> b then - (t + b sdiv 2) sdiv b else - (t - b sdiv 2) sdiv b)"
    using assms by (simp add: round_div_def del: sdiv_pos)
  also have "\<dots> = - round_div t b"
    using assms by (simp only: sdiv_minus_left) (simp add: round_div_def del: sdiv_pos)
  finally show ?thesis .
qed

lemma round_div_nonneg:
  assumes "b \<noteq> 0" "0 \<le> t"
  shows "2 * \<bar>round_div t b * b - t\<bar> \<le> \<bar>b\<bar>"
proof (cases "0 < b")
  case True
  with assms show ?thesis
    using nonneg_div_nearest [of t b] by (simp add: round_div_pos)
next
  case False
  with assms have "0 < - b"
    by simp
  with assms show ?thesis
    using nonneg_div_nearest [of t "- b"] round_div_minus_right [of "- b" t]
    by (simp add: round_div_pos)
qed

lemma round_div_nearest:
  assumes "b \<noteq> 0"
  shows "2 * \<bar>round_div t b * b - t\<bar> \<le> \<bar>b\<bar>"
proof (cases "0 \<le> t")
  case True
  with assms show ?thesis by (rule round_div_nonneg)
next
  case False
  then have "round_div t b * b - t = - (round_div (- t) b * b - (- t))"
    using assms round_div_minus_left [of b "- t"] by simp
  then have "\<bar>round_div t b * b - t\<bar> = \<bar>round_div (- t) b * b - (- t)\<bar>"
    by (simp only: abs_minus_cancel)
  then show ?thesis
    using round_div_nonneg [of b "- t"] assms False by simp
qed

lemma qw_div_round: "qw_div a b = i32 (round_div (a * 16384) b)"
  by (simp add: qw_div_def round_div_def Let_def)

lemma q16_16_div_round: "q16_16_div a b = i32 (round_div (a * 65536) b)"
  by (simp add: q16_16_div_def round_div_def Let_def)

lemma qw_mul_nearest:
  assumes "qw24 ((a * b + 8192) div 16384)"
  shows "2 * \<bar>qw_mul a b * 16384 - a * b\<bar> \<le> 16384"
  using assms round_half_up [of "a * b"] by (simp add: qw_mul_def qw_sat24_id)

section \<open>Bounding boxes\<close>

definition aabb_valid :: "qwaabb \<Rightarrow> bool" where
  "aabb_valid b \<longleftrightarrow> bx1 b \<le> bx2 b \<and> by1 b \<le> by2 b"

lemma qwaabb_union_eq:
  "qwaabb_union a b =
     a\<lparr>bx1 := min (bx1 a) (bx1 b), by1 := min (by1 a) (by1 b),
       bx2 := max (bx2 a) (bx2 b), by2 := max (by2 a) (by2 b)\<rparr>"
  by (cases a; cases b) (simp add: qwaabb_union_def Let_def min_def max_def)

lemma qwaabb_union_test:
  "qwaabb_test_qwpos a p \<or> qwaabb_test_qwpos b p \<Longrightarrow> qwaabb_test_qwpos (qwaabb_union a b) p"
  by (auto simp: qwaabb_test_qwpos_def qwaabb_union_eq)

lemma qwaabb_union_valid [inv_intros]:
  "aabb_valid a \<Longrightarrow> aabb_valid b \<Longrightarrow> aabb_valid (qwaabb_union a b)"
  by (auto simp: aabb_valid_def qwaabb_union_eq)

text \<open>A library for the examples.\<close>

definition demo_libm :: libm where
  "demo_libm = \<lparr>m_cos = \<lambda>_. 1, m_sin = \<lambda>_. 0, m_sqrt = sqrt, m_atan2 = \<lambda>_ _. 0\<rparr>"

lemma demo_libm_bounds: "libm_ok demo_libm"
  by (simp add: libm_ok_def demo_libm_def)

end
