(* ===== verification/Hash.thy ===== *)
theory Hash
  imports Hm
begin

text \<open>
  Hash functions (src/hash.c, include/clither/hash.h) and the address keys of the tables that
  the server keeps (src/server_client_hm.c, src/net_addr_hm.c).
\<close>

section \<open>Hash functions\<close>

definition oaat_step :: "32 word \<Rightarrow> 8 word \<Rightarrow> 32 word" where
  "oaat_step hash byte =
     (let hash = hash + ucast byte;
          hash = hash + push_bit 10 hash
      in hash XOR drop_bit 6 hash)"

text \<open>The loop \<open>while (len--)\<close> takes the bytes from the last to the first.\<close>

primrec oaat_loop :: "8 word list \<Rightarrow> nat \<Rightarrow> 32 word \<Rightarrow> 32 word" where
  "oaat_loop key 0 hash = hash"
| "oaat_loop key (Suc len) hash = oaat_loop key len (oaat_step hash (key ! len))"

definition hash32_jenkins_oaat :: "8 word list \<Rightarrow> int \<Rightarrow> 32 word" where
  "hash32_jenkins_oaat key len =
     (let hash = oaat_loop key (nat len) 0;
          hash = hash + push_bit 3 hash;
          hash = hash XOR drop_bit 1 hash
      in hash + push_bit 15 hash)"

definition hash32_aligned_ptr :: "64 word \<Rightarrow> 32 word" where
  "hash32_aligned_ptr ptr = ucast ((ptr div 8) AND 0xFFFFFFFF)"

definition hash32_combine :: "32 word \<Rightarrow> 32 word \<Rightarrow> 32 word" where
  "hash32_combine lhs rhs = lhs XOR (rhs + 0x9e3779b9 + push_bit 6 lhs + drop_bit 2 lhs)"

subsection \<open>No byte is lost\<close>

lemma xor_shift_twice:
  fixes x :: "'a::len word"
  shows "(let y = x XOR drop_bit k x in y XOR drop_bit k y) = x XOR drop_bit (2 * k) x"
  unfolding Let_def by (rule bit_eqI) (auto simp: bit_simps mult_2 mult_2_right ac_simps)

lemma xor_shift_inj:
  fixes x y :: "32 word"
  assumes "x XOR drop_bit k x = y XOR drop_bit k y" "0 < k"
  shows "x = y"
proof -
  let ?f = "\<lambda>(j::nat) (x::32 word). x XOR drop_bit j x"
  have two: "?f j (?f j z) = ?f (2 * j) z" for j z
    using xor_shift_twice [of z j] by (simp add: Let_def)
  have e: "?f (2 ^ n * k) x = ?f (2 ^ n * k) y" for n
  proof (induction n)
    case 0
    then show ?case using assms(1) by simp
  next
    case (Suc n)
    then show ?case
      using two [where j = "2 ^ n * k" and z = x] two [where j = "2 ^ n * k" and z = y] by (simp add: mult.assoc)
  qed
  have "drop_bit (2 ^ 5 * k) z = 0" for z :: "32 word"
    using assms(2) by (intro bit_eqI) (auto simp: bit_simps dest: bit_imp_le_length)
  with e [of 5] show ?thesis
    by simp
qed

lemma shift_add_mult: "x + push_bit k x = x * (1 + 2 ^ k)" for x :: "'a::len word"
  by (simp add: push_bit_eq_mult algebra_simps)

lemma mult_unit_inj:
  fixes x y c d :: "'a::len word"
  assumes "x * c = y * c" "c * d = 1"
  shows "x = y"
  by (metis assms mult.assoc mult.right_neutral)

lemma shift_add_inj_10:
  fixes x y :: "32 word"
  assumes "x + push_bit 10 x = y + push_bit 10 y"
  shows "x = y"
proof (rule mult_unit_inj)
  show "x * (1 + 2 ^ 10) = y * (1 + 2 ^ 10)"
    using assms unfolding shift_add_mult .
  show "(1 + 2 ^ 10 :: 32 word) * 3222273025 = 1"
    by code_simp
qed

lemma shift_add_inj_3:
  fixes x y :: "32 word"
  assumes "x + push_bit 3 x = y + push_bit 3 y"
  shows "x = y"
proof (rule mult_unit_inj)
  show "x * (1 + 2 ^ 3) = y * (1 + 2 ^ 3)"
    using assms unfolding shift_add_mult .
  show "(1 + 2 ^ 3 :: 32 word) * 954437177 = 1"
    by code_simp
qed

lemma shift_add_inj_15:
  fixes x y :: "32 word"
  assumes "x + push_bit 15 x = y + push_bit 15 y"
  shows "x = y"
proof (rule mult_unit_inj)
  show "x * (1 + 2 ^ 15) = y * (1 + 2 ^ 15)"
    using assms unfolding shift_add_mult .
  show "(1 + 2 ^ 15 :: 32 word) * 1073709057 = 1"
    by code_simp
qed

lemma oaat_step_inj:
  assumes "oaat_step h b = oaat_step h' b'"
  shows "h + ucast b = h' + ucast b'"
  using assms unfolding oaat_step_def Let_def
  by (auto dest!: xor_shift_inj shift_add_inj_10)

lemma byte_ucast_inj:
  fixes b c :: "8 word"
  assumes "(ucast b :: 32 word) = ucast c"
  shows "b = c"
proof (rule bit_eqI)
  fix n
  assume "possible_bit TYPE(8 word) n"
  then have "bit (ucast b :: 32 word) n = bit b n" "bit (ucast c :: 32 word) n = bit c n"
    by (auto simp: bit_simps)
  with assms show "bit b n = bit c n"
    by simp
qed

lemma oaat_loop_inj: "oaat_loop key n h = oaat_loop key n h' \<Longrightarrow> h = h'"
proof (induction n arbitrary: h h')
  case (Suc n)
  then show ?case
    by (metis add_right_cancel oaat_loop.simps(2) oaat_step_inj)
qed simp

lemma oaat_loop_byte:
  assumes "i < n" "n \<le> length key" "b \<noteq> key ! i"
  shows "oaat_loop (key[i := b]) n h \<noteq> oaat_loop key n h"
  using assms
proof (induction n arbitrary: h)
  case (Suc n)
  show ?case
  proof (cases "i = n")
    case True
    have same: "oaat_loop (key[n := b]) m g = oaat_loop key m g" if "m \<le> n" for m g
      using that by (induction m arbitrary: g) auto
    show ?thesis
    proof
      assume "oaat_loop (key[i := b]) (Suc n) h = oaat_loop key (Suc n) h"
      then have "oaat_step h b = oaat_step h (key ! n)"
        using True Suc.prems(2) same [of n] oaat_loop_inj by simp
      from oaat_step_inj [OF this] have "(ucast b :: 32 word) = ucast (key ! n)"
        by simp
      then have "b = key ! n"
        by (rule byte_ucast_inj)
      with True Suc.prems(3) show False by simp
    qed
  next
    case False
    then show ?thesis
      using Suc.IH [of "oaat_step h (key ! n)"] Suc.prems by simp
  qed
qed simp

lemma oaat_byte:
  assumes "i < nat len" "nat len \<le> length key" "b \<noteq> key ! i"
  shows "hash32_jenkins_oaat (key[i := b]) len \<noteq> hash32_jenkins_oaat key len"
proof
  let ?h = "oaat_loop (key[i := b]) (nat len) 0" and ?g = "oaat_loop key (nat len) 0"
  assume "hash32_jenkins_oaat (key[i := b]) len = hash32_jenkins_oaat key len"
  from shift_add_inj_15 [OF this [unfolded hash32_jenkins_oaat_def Let_def]]
  have "?h + push_bit 3 ?h = ?g + push_bit 3 ?g"
    by (rule xor_shift_inj) simp
  then have "?h = ?g"
    by (rule shift_add_inj_3)
  with oaat_loop_byte [OF assms, of 0] show False by simp
qed

section \<open>Addresses as keys\<close>

record net_addr =
  na_len :: int
  na_storage :: "8 word list"

definition NET_MAX_ADDRLEN :: int where
  "NET_MAX_ADDRLEN = 32"

text \<open>The bytes of the structure, the length first.\<close>

definition int32_bytes :: "int \<Rightarrow> 8 word list" where
  "int32_bytes n = map (\<lambda>i. word_of_int (n div 2 ^ (8 * i))) [0..<4]"

definition net_addr_bytes :: "net_addr \<Rightarrow> 8 word list" where
  "net_addr_bytes a = int32_bytes (na_len a) @ na_storage a"

definition server_client_hm_kvs_hash :: "net_addr \<Rightarrow> 32 word" where
  "server_client_hm_kvs_hash key = hash32_jenkins_oaat (na_storage key) (na_len key)"

definition server_client_hm_kvs_keys_equal :: "net_addr \<Rightarrow> net_addr \<Rightarrow> bool" where
  "server_client_hm_kvs_keys_equal k1 k2 \<longleftrightarrow> na_len k1 = na_len k2 \<and>
     take (nat (na_len k1)) (net_addr_bytes k1) = take (nat (na_len k1)) (net_addr_bytes k2)"

definition server_client_hm_kvs_set_key :: "net_addr \<Rightarrow> net_addr \<Rightarrow> net_addr" where
  "server_client_hm_kvs_set_key slot key =
     \<lparr>na_len = na_len key,
      na_storage = take (nat (na_len key)) (na_storage key) @ drop (nat (na_len key)) (na_storage slot)\<rparr>"

definition net_addr_hm_kvs_hash :: "net_addr \<Rightarrow> 32 word" where
  "net_addr_hm_kvs_hash key = hash32_jenkins_oaat (na_storage key) (na_len key)"

definition net_addr_hm_kvs_keys_equal :: "net_addr \<Rightarrow> net_addr \<Rightarrow> bool" where
  "net_addr_hm_kvs_keys_equal k1 k2 \<longleftrightarrow> na_len k1 = na_len k2 \<and>
     take (nat (na_len k1)) (net_addr_bytes k1) = take (nat (na_len k1)) (net_addr_bytes k2)"

text \<open>
  The comparison starts at the structure and not at its address, so it reads the four bytes
  of the length and leaves out the last four of the address.
\<close>

lemma keys_equal_prefix:
  "server_client_hm_kvs_keys_equal k1 k2 \<longleftrightarrow>
     na_len k1 = na_len k2 \<and>
     take (nat (na_len k1) - 4) (na_storage k1) = take (nat (na_len k1) - 4) (na_storage k2)"
  by (auto simp: server_client_hm_kvs_keys_equal_def net_addr_bytes_def int32_bytes_def)

end
