(* ===== verification/Cmd.thy ===== *)
theory Cmd
  imports FixedPoint
begin

text \<open>
  Commands (src/cmd.c, include/clither/cmd.h): the input that steps a snake by one frame, and
  the limit on how much it changes from frame to frame, which is what the deltas of the
  network protocol are wide enough for.
\<close>

datatype cmd_action =
  CMD_ACTION_NONE | CMD_ACTION_BOOST | CMD_ACTION_SHOOT | CMD_ACTION_REVERSE |
  CMD_ACTION_SPLIT | CMD_ACTION_GUARD

fun cmd_action_val :: "cmd_action \<Rightarrow> int" where
  "cmd_action_val CMD_ACTION_NONE = 0"
| "cmd_action_val CMD_ACTION_BOOST = 1"
| "cmd_action_val CMD_ACTION_SHOOT = 2"
| "cmd_action_val CMD_ACTION_REVERSE = 3"
| "cmd_action_val CMD_ACTION_SPLIT = 4"
| "cmd_action_val CMD_ACTION_GUARD = 5"

record cmd =
  cmd_angle :: "8 word"
  cmd_speed :: "8 word"
  cmd_action :: "3 word"

definition cmd_default :: cmd where
  "cmd_default = \<lparr>cmd_angle = 128, cmd_speed = 0, cmd_action = word_of_int (cmd_action_val CMD_ACTION_NONE)\<rparr>"

text \<open>The constant of the C library.\<close>

definition M_PI :: real where
  "M_PI = 314159265358979323846 / 100000000000000000000"

text \<open>
  The part of \<open>cmd_make\<close> that is integer arithmetic: how the angle and the speed follow the
  input. The angle wraps, the speed does not.
\<close>

definition cmd_follow_angle :: "8 word \<Rightarrow> 8 word \<Rightarrow> 8 word" where
  "cmd_follow_angle prev new_angle =
     (let da = uint new_angle - uint prev;
          da = (if da > 128 then da - 256 else da);
          da = (if da < -128 then da + 256 else da)
      in if da > 3 then prev + 3 else if da < -3 then prev - 3 else new_angle)"

definition cmd_follow_speed :: "8 word \<Rightarrow> 8 word \<Rightarrow> 8 word" where
  "cmd_follow_speed prev new_speed =
     (if uint new_speed - uint prev > 15 then prev + 15
      else if uint new_speed - uint prev < -15 then prev - 15
      else new_speed)"

definition cmd_make :: "cmd \<Rightarrow> real \<Rightarrow> real \<Rightarrow> cmd_action \<Rightarrow> cmd" where
  "cmd_make prev radians normalized_speed action =
     (let a = radians / (2 * M_PI) + 1 / 2;
          new_angle = word_of_int (ctrunc (a * 256));
          new_speed = word_of_int (ctrunc (normalized_speed * 255))
      in \<lparr>cmd_angle = cmd_follow_angle (cmd_angle prev) new_angle,
          cmd_speed = cmd_follow_speed (cmd_speed prev) new_speed,
          cmd_action = word_of_int (cmd_action_val action)\<rparr>)"

text \<open>
  The signed distance between two angles, and the bounds on the deltas that the protocol
  gives 3 and 5 bits.
\<close>

definition angle_delta :: "8 word \<Rightarrow> 8 word \<Rightarrow> int" where
  "angle_delta prev new = i8 (uint new - uint prev)"

definition cmd_delta_ok :: "cmd \<Rightarrow> cmd \<Rightarrow> bool" where
  "cmd_delta_ok prev new \<longleftrightarrow>
     \<bar>angle_delta (cmd_angle prev) (cmd_angle new)\<bar> \<le> 3 \<and>
     \<bar>uint (cmd_speed new) - uint (cmd_speed prev)\<bar> \<le> 15"

lemma byte_bounds: "0 \<le> uint (w :: 8 word)" "uint (w :: 8 word) < 256"
  using uint_lt2p [of w] by simp_all

lemma sx_8_period: "sx 8 (x + 256) = sx 8 x" "sx 8 (x - 256) = sx 8 x"
  using mod_add_self2 [of "x + 128" 256] mod_add_self2 [of "x - 128" 256]
  by (simp_all add: sx_8 algebra_simps)

lemma cmd_follow_angle_delta: "\<bar>angle_delta prev (cmd_follow_angle prev new)\<bar> \<le> 3"
proof -
  define a b where ab: "a = uint prev" "b = uint new"
  have bnd: "0 \<le> a" "a < 256" "0 \<le> b" "b < 256"
    unfolding ab by (rule byte_bounds)+
  have p: "uint (prev + 3) = (a + 3) mod 256" "uint (prev - 3) = (a - 3) mod 256"
    by (simp_all add: uint_word_ariths ab)
  have "i8 (((a + 3) mod 256) - a) = 3" "i8 (((a - 3) mod 256) - a) = -3"
    using mod_diff_left_eq [of "a + 3" 256 "a - 128"] mod_diff_left_eq [of "a - 3" 256 "a - 128"]
    by (simp_all add: sx_8 algebra_simps)
  moreover have "\<bar>i8 (b - a)\<bar> \<le> 3" if "\<not> 3 < d" "\<not> d < -3" "d = b - a \<or> d = b - a - 256 \<or> d = b - a + 256" for d
  proof -
    have "i8 (b - a) = i8 d"
      using that(3) sx_8_period [of "b - a"] by auto
    also have "\<dots> = d"
      using that(1,2) by (intro sx_id) (simp_all add: in_sx_8)
    finally show ?thesis using that(1,2) by simp
  qed
  ultimately show ?thesis
    unfolding angle_delta_def cmd_follow_angle_def Let_def ab [symmetric]
    by (simp add: p split: if_splits) (auto simp: ab)
qed

lemma speed_steps:
  fixes new prev :: "8 word"
  shows "uint new - uint prev > 15 \<Longrightarrow> uint (prev + 15) = uint prev + 15"
    and "uint new - uint prev < -15 \<Longrightarrow> uint (prev - 15) = uint prev - 15"
proof -
  note b = byte_bounds [of new] byte_bounds [of prev]
  show "uint new - uint prev > 15 \<Longrightarrow> uint (prev + 15) = uint prev + 15"
    using b by (simp add: uint_word_ariths)
  assume "uint new - uint prev < -15"
  then have "0 \<le> uint prev - 15" "uint prev - 15 < 256"
    using b by linarith+
  then show "uint (prev - 15) = uint prev - 15"
    by (simp add: uint_word_ariths)
qed

lemma cmd_follow_speed_delta: "\<bar>uint (cmd_follow_speed prev new) - uint prev\<bar> \<le> 15"
  using speed_steps [of new prev] by (auto simp: cmd_follow_speed_def)

lemma cmd_make_delta_ok: "cmd_delta_ok prev (cmd_make prev radians speed action)"
  by (simp add: cmd_delta_ok_def cmd_make_def Let_def cmd_follow_angle_delta cmd_follow_speed_delta)

text \<open>Repeating an input brings the speed to it.\<close>

lemma cmd_follow_speed_progress:
  "\<bar>uint new - uint (cmd_follow_speed prev new)\<bar> = max 0 (\<bar>uint new - uint prev\<bar> - 15)"
  using speed_steps [of new prev] by (auto simp: cmd_follow_speed_def)

end
