(* ===== verification/CmdQueue.thy ===== *)
theory CmdQueue
  imports Cmd Rb Wrap
begin

text \<open>
  The command queue (src/cmd_queue.c, include/clither/cmd_queue.h): a ring buffer of the
  commands of consecutive frames, \<open>cq_first\<close> the frame of the oldest. Frame numbers wrap.
\<close>

record cmd_queue =
  cq_rb :: "cmd rb option"
  cq_last :: cmd
  cq_first :: "16 word"

section \<open>Operations\<close>

definition cmd_queue_init :: cmd_queue where
  "cmd_queue_init = \<lparr>cq_rb = rb_init, cq_last = cmd_default, cq_first = 0\<rparr>"

definition cmd_queue_count :: "cmd_queue \<Rightarrow> int" where
  "cmd_queue_count q = rb_count (cq_rb q)"

definition cmd_queue_frame_begin :: "cmd_queue \<Rightarrow> 16 word" where
  "cmd_queue_frame_begin q = cq_first q"

definition cmd_queue_frame_end :: "cmd_queue \<Rightarrow> 16 word" where
  "cmd_queue_frame_end q = cq_first q + word_of_int (rb_count (cq_rb q))"

definition cmd_queue_peek :: "cmd_queue \<Rightarrow> int \<Rightarrow> cmd option" where
  "cmd_queue_peek q i = map_option (\<lambda>rb. rb_peek rb i) (cq_rb q)"

definition cmd_queue_clear :: "cmd_queue \<Rightarrow> cmd_queue" where
  "cmd_queue_clear q = q\<lparr>cq_rb := map_option rb_clear (cq_rb q)\<rparr>"

text \<open>\<open>ok\<close> and \<open>u\<close> are the allocator's answer and what fresh memory holds.\<close>

definition cmd_queue_put :: "bool \<Rightarrow> (nat \<Rightarrow> cmd) \<Rightarrow> cmd_queue \<Rightarrow> cmd \<Rightarrow> 16 word \<Rightarrow> cmd_queue" where
  "cmd_queue_put ok u q command frame_number =
     (if rb_count (cq_rb q) > 0 then
        if cmd_queue_frame_end q \<noteq> frame_number then q
        else q\<lparr>cq_rb := snd (rb_put_realloc 16 ok u (cq_rb q) command)\<rparr>
      else
        let q = q\<lparr>cq_first := frame_number\<rparr>
        in q\<lparr>cq_rb := snd (rb_put_realloc 16 ok u (cq_rb q) command)\<rparr>)"

text \<open>The loop takes a command per step; the number of commands bounds the steps.\<close>

fun cmd_queue_take_loop :: "nat \<Rightarrow> cmd_queue \<Rightarrow> 16 word \<Rightarrow> cmd \<times> cmd_queue" where
  "cmd_queue_take_loop 0 q frame_number = (cq_last q, q)"
| "cmd_queue_take_loop (Suc n) q frame_number =
     (if rb_count (cq_rb q) > 0 then
        let frame = cmd_queue_frame_begin q
        in case rbp_take (cq_rb q) of
             None \<Rightarrow> (cq_last q, q)
           | Some (c, rb) \<Rightarrow>
               let q = \<lparr>cq_rb = rb, cq_last = c, cq_first = cq_first q + 1\<rparr>
               in if frame = frame_number then (cq_last q, q)
                  else cmd_queue_take_loop n q frame_number
      else (cq_last q, q))"

definition cmd_queue_take_or_predict :: "cmd_queue \<Rightarrow> 16 word \<Rightarrow> cmd \<times> cmd_queue" where
  "cmd_queue_take_or_predict q frame_number =
     (if u16_lt_wrap frame_number (cmd_queue_frame_begin q) then (cq_last q, q)
      else cmd_queue_take_loop (nat (rb_count (cq_rb q))) q frame_number)"

fun cmd_queue_find_loop :: "16 word \<Rightarrow> 16 word \<Rightarrow> cmd list \<Rightarrow> cmd option" where
  "cmd_queue_find_loop frame frame_number [] = None"
| "cmd_queue_find_loop frame frame_number (c # cs) =
     (if frame = frame_number then Some c else cmd_queue_find_loop (frame + 1) frame_number cs)"

definition cmd_queue_find_or_predict :: "cmd_queue \<Rightarrow> 16 word \<Rightarrow> cmd" where
  "cmd_queue_find_or_predict q frame_number =
     (if u16_lt_wrap frame_number (cmd_queue_frame_begin q) then cq_last q
      else
        let visited = (case cq_rb q of None \<Rightarrow> []
              | Some rb \<Rightarrow> map (\<lambda>i. rb_data rb ! nat i) (rb_for_each_indices (Some rb)))
        in case cmd_queue_find_loop (cmd_queue_frame_begin q) frame_number visited of
             Some c \<Rightarrow> c
           | None \<Rightarrow> (if rb_count (cq_rb q) = 0 then cq_last q
               else case cq_rb q of None \<Rightarrow> cq_last q | Some rb \<Rightarrow> rb_peek_write rb))"

section \<open>The queue as a window of frames\<close>

text \<open>
  The queue is the list of its commands, the first of frame \<open>cq_first\<close>. The abstract
  operations are those of the header's documentation.
\<close>

definition cq_ok :: "cmd_queue \<Rightarrow> bool" where
  "cq_ok q \<longleftrightarrow> rbp_ok 16 (cq_rb q)"

definition cq_list :: "cmd_queue \<Rightarrow> cmd list" where
  "cq_list q = rbp_list (cq_rb q)"

record window =
  w_first :: "16 word"
  w_cmds :: "cmd list"
  w_last :: cmd

definition cq_window :: "cmd_queue \<Rightarrow> window" where
  "cq_window q = \<lparr>w_first = cq_first q, w_cmds = cq_list q, w_last = cq_last q\<rparr>"

text \<open>The offset of a frame from the first of the window.\<close>

definition w_offset :: "window \<Rightarrow> 16 word \<Rightarrow> nat" where
  "w_offset w f = unat (f - w_first w)"

definition w_put :: "window \<Rightarrow> cmd \<Rightarrow> 16 word \<Rightarrow> window" where
  "w_put w c f =
     (if w_cmds w = [] then w\<lparr>w_first := f, w_cmds := [c]\<rparr>
      else if f = w_first w + of_nat (length (w_cmds w)) then w\<lparr>w_cmds := w_cmds w @ [c]\<rparr>
      else w)"

definition w_predict :: "window \<Rightarrow> 16 word \<Rightarrow> cmd" where
  "w_predict w f =
     (if u16_lt_wrap f (w_first w) then w_last w
      else if w_offset w f < length (w_cmds w) then w_cmds w ! w_offset w f
      else last (w_last w # w_cmds w))"

definition w_take :: "window \<Rightarrow> 16 word \<Rightarrow> window" where
  "w_take w f =
     (if u16_lt_wrap f (w_first w) then w
      else
        let n = (if w_offset w f < length (w_cmds w) then Suc (w_offset w f) else length (w_cmds w))
        in \<lparr>w_first = w_first w + of_nat n, w_cmds = drop n (w_cmds w),
            w_last = last (w_last w # take n (w_cmds w))\<rparr>)"

lemma cq_count: "cq_ok q \<Longrightarrow> rb_count (cq_rb q) = int (length (cq_list q))"
  by (simp add: cq_ok_def cq_list_def rbp_count_list)

lemma cmd_queue_init_ok: "cq_ok cmd_queue_init" "cq_list cmd_queue_init = []"
  by (simp_all add: cq_ok_def cq_list_def cmd_queue_init_def rb_init_def)

lemma cq_length: "cq_ok q \<Longrightarrow> length (cq_list q) < 32768"
proof (cases "cq_rb q")
  case (Some rb)
  assume "cq_ok q"
  then have ok: "rb_ok 16 rb"
    using Some by (simp add: cq_ok_def rbp_ok_def)
  then obtain k where k: "rb_capacity rb = 2 ^ k" "Suc k < 16"
    by (auto simp: rb_ok_def)
  then have "(2::int) ^ k \<le> 2 ^ 15"
    by (intro power_increasing) simp_all
  then have "rb_capacity rb \<le> 2 ^ 15"
    using k by simp
  with rb_count_bounds(2) [OF ok] Some \<open>cq_ok q\<close> show ?thesis
    using cq_count [of q] by simp
qed (simp add: cq_list_def)

text \<open>Putting a command refines the abstract one while the ring buffer can grow.\<close>

lemma cmd_queue_put_window:
  assumes "cq_ok q" "rb_can_grow 16 ok (cq_rb q)"
  shows "cq_ok (cmd_queue_put ok u q c f)"
    and "cq_window (cmd_queue_put ok u q c f) = w_put (cq_window q) c f"
proof -
  have v: "rbp_ok 16 (cq_rb q)"
    using assms(1) by (simp add: cq_ok_def)
  have "rbp_ok 16 (snd (rb_put_realloc 16 ok u (cq_rb q) c))"
    "rbp_list (snd (rb_put_realloc 16 ok u (cq_rb q) c)) = cq_list q @ [c]"
    using rb16.push_valid [OF v] rb16.push_items [OF v] assms(2) by (simp_all add: cq_list_def)
  then show "cq_ok (cmd_queue_put ok u q c f)"
    and "cq_window (cmd_queue_put ok u q c f) = w_put (cq_window q) c f"
    using assms(1) cq_count [OF assms(1)]
    by (auto simp: cmd_queue_put_def cq_ok_def cq_window_def w_put_def cmd_queue_frame_end_def
        cq_list_def Let_def)
qed

text \<open>
  A failing allocation loses the command. Into an empty queue it still moves the first
  frame.
\<close>

lemma cmd_queue_put_no_room:
  assumes "cq_ok q" "\<not> rb_can_grow 16 ok (cq_rb q)"
  shows "cq_ok (cmd_queue_put ok u q c f)" "cq_list (cmd_queue_put ok u q c f) = cq_list q"
proof -
  have v: "rbp_ok 16 (cq_rb q)"
    using assms(1) by (simp add: cq_ok_def)
  have "snd (rb_put_realloc 16 ok u (cq_rb q) c) = cq_rb q"
    using rb16.push_full [OF v] assms(2) by simp
  then show "cq_ok (cmd_queue_put ok u q c f)" "cq_list (cmd_queue_put ok u q c f) = cq_list q"
    using assms(1) by (simp_all add: cmd_queue_put_def cq_ok_def cq_list_def Let_def)
qed

section \<open>Taking and finding\<close>

lemma unat_diff_Suc:
  fixes f b :: "'a::len word"
  assumes "b \<noteq> f"
  shows "0 < unat (f - b)" "unat (f - (b + 1)) = unat (f - b) - 1"
proof -
  have ne: "f - b \<noteq> 0"
    using assms by simp
  then show "0 < unat (f - b)"
    by (simp add: unat_gt_0)
  have e: "f - (b + 1) = (f - b) - 1"
    by simp
  show "unat (f - (b + 1)) = unat (f - b) - 1"
    unfolding e using ne by (rule unat_minus_one)
qed

lemma last_take_Suc: "k < length xs \<Longrightarrow> last (take (Suc k) xs) = xs ! k"
  by (simp add: take_Suc_conv_app_nth)

lemma cmd_queue_take_loop_window:
  assumes "cq_ok q" "n = length (cq_list q)" "cmd_queue_take_loop n q f = (c, q')"
  shows "cq_ok q' \<and> c = cq_last q' \<and>
    (let k = unat (f - cq_first q);
         m = (if k < n then Suc k else n)
     in cq_first q' = cq_first q + of_nat m \<and> cq_list q' = drop m (cq_list q) \<and>
        cq_last q' = last (cq_last q # take m (cq_list q)))"
  using assms
proof (induction n arbitrary: q)
  case 0
  then show ?case by (auto simp: Let_def)
next
  case (Suc n)
  have v: "rbp_ok 16 (cq_rb q)"
    using Suc.prems(1) by (simp add: cq_ok_def)
  obtain x xs where l: "cq_list q = x # xs"
    using Suc.prems(2) by (cases "cq_list q") auto
  then obtain rb where rb: "rbp_take (cq_rb q) = Some (x, rb)" "rbp_ok 16 rb" "rbp_list rb = xs"
    using rb16.pop_items [OF v] by (auto simp: cq_list_def)
  have pos: "rb_count (cq_rb q) > 0"
    using cq_count [OF Suc.prems(1)] l by simp
  let ?q = "\<lparr>cq_rb = rb, cq_last = x, cq_first = cq_first q + 1\<rparr>"
  let ?k = "unat (f - cq_first q)"
  have q: "cq_ok ?q" "cq_list ?q = xs" "n = length (cq_list ?q)"
    using rb l Suc.prems(2) by (simp_all add: cq_ok_def cq_list_def)
  show ?case
  proof (cases "cq_first q = f")
    case True
    then have "c = x" "q' = ?q"
      using Suc.prems(3) pos rb(1) by (auto simp: cmd_queue_frame_begin_def Let_def)
    with q l True show ?thesis
      by (simp add: Let_def)
  next
    case False
    then have e: "cmd_queue_take_loop n ?q f = (c, q')"
      using Suc.prems(3) pos rb(1) by (simp add: cmd_queue_frame_begin_def Let_def)
    note k = unat_diff_Suc [OF False]
    show ?thesis
      using Suc.IH [OF q(1,3) e] k l q(2)
      by (cases ?k) (auto simp: Let_def)
  qed
qed

lemma cmd_queue_take_window:
  assumes "cq_ok q"
  shows "fst (cmd_queue_take_or_predict q f) = w_predict (cq_window q) f"
    and "cq_window (snd (cmd_queue_take_or_predict q f)) = w_take (cq_window q) f"
    and "cq_ok (snd (cmd_queue_take_or_predict q f))"
proof -
  obtain c q' where e: "cmd_queue_take_loop (length (cq_list q)) q f = (c, q')"
    by fastforce
  note tl = cmd_queue_take_loop_window [OF assms refl e]
  show "fst (cmd_queue_take_or_predict q f) = w_predict (cq_window q) f"
    using tl e last_take_Suc [of "unat (f - cq_first q)" "cq_list q"]
    by (auto simp: cmd_queue_take_or_predict_def w_predict_def cq_window_def w_offset_def
        cmd_queue_frame_begin_def cq_count [OF assms] Let_def)
  show "cq_window (snd (cmd_queue_take_or_predict q f)) = w_take (cq_window q) f"
    using tl e
    by (auto simp: cmd_queue_take_or_predict_def w_take_def cq_window_def w_offset_def
        cmd_queue_frame_begin_def cq_count [OF assms] Let_def)
  show "cq_ok (snd (cmd_queue_take_or_predict q f))"
    using tl e assms
    by (auto simp: cmd_queue_take_or_predict_def cq_count [OF assms] Let_def)
qed

lemma cmd_queue_find_loop_nth:
  "length cs < 65536 \<Longrightarrow> cmd_queue_find_loop b f cs =
     (if unat (f - b) < length cs then Some (cs ! unat (f - b)) else None)"
proof (induction cs arbitrary: b)
  case (Cons c cs)
  show ?case
  proof (cases "b = f")
    case False
    show ?thesis
      using Cons.IH [of "b + 1"] Cons.prems False unat_diff_Suc [OF False]
      by (cases "unat (f - b)") auto
  qed simp
qed simp

text \<open>Looking a command up and taking it predict the same command.\<close>

lemma cmd_queue_find_window:
  assumes "cq_ok q"
  shows "cmd_queue_find_or_predict q f = w_predict (cq_window q) f"
proof -
  have vis: "(case cq_rb q of None \<Rightarrow> []
      | Some rb \<Rightarrow> map (\<lambda>i. rb_data rb ! nat i) (rb_for_each_indices (Some rb))) = cq_list q"
    using assms rb_for_each_indices_spec
    by (auto simp: cq_list_def cq_ok_def rbp_ok_def rbp_list_def split: option.splits)
  have last: "(if rb_count (cq_rb q) = 0 then cq_last q
      else case cq_rb q of None \<Rightarrow> cq_last q | Some rb \<Rightarrow> rb_peek_write rb) = last (cq_last q # cq_list q)"
    using assms cq_count [OF assms] rb_peek_write_last
    by (auto simp: cq_list_def cq_ok_def rbp_ok_def rbp_list_def split: option.splits)
  show ?thesis
    using cmd_queue_find_loop_nth [of "cq_list q" "cq_first q" f] cq_length [OF assms]
    unfolding cmd_queue_find_or_predict_def vis last Let_def
    by (simp add: w_predict_def cq_window_def w_offset_def cmd_queue_frame_begin_def)
qed

end
