(* ===== verification/Model_Types.thy ===== *)
theory Model_Types
  imports FixedPoint
begin

text \<open>
  Structures that several components share: the knots of the curve that is the body of a
  snake (include/clither/bezier.h) and the head that moves (include/clither/snake.h).
\<close>

record bezier_handle =
  bh_pos :: qwpos
  bh_angle :: qa
  bh_len_backwards :: "8 word"
  bh_len_forwards :: "8 word"

record bezier_point =
  bp_pos :: qwpos
  bp_dir :: qwpos

record snake_head =
  sh_pos :: qwpos
  sh_angle :: qa
  sh_speed :: "8 word"

definition bezier_handles_equal :: "bezier_handle \<Rightarrow> bezier_handle \<Rightarrow> bool" where
  "bezier_handles_equal a b \<longleftrightarrow>
     px (bh_pos a) = px (bh_pos b) \<and> py (bh_pos a) = py (bh_pos b) \<and>
     bh_angle a = bh_angle b \<and> bh_len_backwards a = bh_len_backwards b \<and>
     bh_len_forwards a = bh_len_forwards b"

definition bezier_handles_equal_pos :: "bezier_handle \<Rightarrow> bezier_handle \<Rightarrow> bool" where
  "bezier_handles_equal_pos a b \<longleftrightarrow>
     px (bh_pos a) = px (bh_pos b) \<and> py (bh_pos a) = py (bh_pos b)"

definition snake_heads_are_equal :: "snake_head \<Rightarrow> snake_head \<Rightarrow> bool" where
  "snake_heads_are_equal a b \<longleftrightarrow>
     px (sh_pos a) = px (sh_pos b) \<and> py (sh_pos a) = py (sh_pos b) \<and>
     sh_angle a = sh_angle b \<and> sh_speed a = sh_speed b"

lemma bezier_handles_equal_iff: "bezier_handles_equal a b \<longleftrightarrow> a = b"
  by (auto simp: bezier_handles_equal_def intro!: bezier_handle.equality qwpos.equality)

lemma snake_heads_are_equal_iff: "snake_heads_are_equal a b \<longleftrightarrow> a = b"
  by (auto simp: snake_heads_are_equal_def intro!: snake_head.equality qwpos.equality)

text \<open>Positions and angles whose values the network protocol can carry.\<close>

definition qwpos24 :: "qwpos \<Rightarrow> bool" where
  "qwpos24 p \<longleftrightarrow> qw24 (px p) \<and> qw24 (py p)"

end
