(* ===== verification/Msg.thy ===== *)
theory Msg
  imports Model_Types CmdQueue Vec
begin

text \<open>
  Messages (src/msg.c, include/clither/msg.h, src/msg_vec.c): how each is built, and how a
  payload that came over the network is checked and read. A payload is a buffer of 255 bytes
  of which \<open>m_payload_len\<close> are sent. \<open>None\<close> as the result of a builder is a write past the
  end of that buffer. \<open>u\<close> is what fresh memory holds; the messages are built without a check
  of the allocation, which is taken to succeed.
\<close>

datatype msg_type =
  MSG_JOIN_REQUEST | MSG_JOIN_ACCEPT | MSG_JOIN_DENY_BAD_PROTOCOL | MSG_JOIN_DENY_BAD_USERNAME |
  MSG_JOIN_DENY_SERVER_FULL | MSG_LEAVE | MSG_COMMANDS | MSG_FEEDBACK | MSG_SNAKE_USERNAME |
  MSG_SNAKE_USERNAME_ACK | MSG_SNAKE_BEZIER | MSG_SNAKE_BEZIER_ACK | MSG_SNAKE_DESTROY |
  MSG_SNAKE_DESTROY_ACK | MSG_SNAKE_HEAD | MSG_FOOD_GRID_PARAMS | MSG_FOOD_GRID_PARAMS_ACK |
  MSG_FOOD_CLUSTER_CREATE | MSG_FOOD_CLUSTER_CREATE_ACK | MSG_FOOD_CLUSTER_UPDATE |
  MSG_FOOD_CLUSTER_UPDATE_ACK

definition msg_types :: "msg_type list" where
  "msg_types = [MSG_JOIN_REQUEST, MSG_JOIN_ACCEPT, MSG_JOIN_DENY_BAD_PROTOCOL,
     MSG_JOIN_DENY_BAD_USERNAME, MSG_JOIN_DENY_SERVER_FULL, MSG_LEAVE, MSG_COMMANDS, MSG_FEEDBACK,
     MSG_SNAKE_USERNAME, MSG_SNAKE_USERNAME_ACK, MSG_SNAKE_BEZIER, MSG_SNAKE_BEZIER_ACK,
     MSG_SNAKE_DESTROY, MSG_SNAKE_DESTROY_ACK, MSG_SNAKE_HEAD, MSG_FOOD_GRID_PARAMS,
     MSG_FOOD_GRID_PARAMS_ACK, MSG_FOOD_CLUSTER_CREATE, MSG_FOOD_CLUSTER_CREATE_ACK,
     MSG_FOOD_CLUSTER_UPDATE, MSG_FOOD_CLUSTER_UPDATE_ACK]"

text \<open>A type on the wire is its position in the enumeration, and a byte may be none.\<close>

definition msg_type_of :: "8 word \<Rightarrow> msg_type option" where
  "msg_type_of b = (if unat b < 21 then Some (msg_types ! unat b) else None)"

record msg =
  m_resend_period :: "8 word"
  m_period_counter :: "8 word"
  m_retry_counter :: "8 word"
  m_type :: msg_type
  m_payload_len :: "8 word"
  m_payload :: "8 word list"

section \<open>Bytes\<close>

definition hi8 :: "16 word \<Rightarrow> 8 word" where
  "hi8 x = ucast (drop_bit 8 x)"

definition lo8 :: "16 word \<Rightarrow> 8 word" where
  "lo8 x = ucast (x AND 0xFF)"

definition be16 :: "8 word \<Rightarrow> 8 word \<Rightarrow> 16 word" where
  "be16 a b = push_bit 8 (ucast a) OR ucast b"

text \<open>A byte of a signed integer, and 24 bits read back with the sign extended.\<close>

definition byte_of :: "nat \<Rightarrow> int \<Rightarrow> 8 word" where
  "byte_of k x = word_of_int (drop_bit (8 * k) x)"

definition be24 :: "8 word \<Rightarrow> 8 word \<Rightarrow> 8 word \<Rightarrow> int" where
  "be24 a b c = i32 ((if a AND 0x80 \<noteq> 0 then 0xFF000000 else 0) OR push_bit 16 (uint a) OR
     push_bit 8 (uint b) OR uint c)"

definition bes16 :: "8 word \<Rightarrow> 8 word \<Rightarrow> int" where
  "bes16 a b = i16 (push_bit 8 (uint a) OR uint b)"

definition write_bytes :: "nat \<Rightarrow> 8 word list \<Rightarrow> 8 word list \<Rightarrow> 8 word list" where
  "write_bytes off bs pl = take off pl @ bs @ drop (off + length bs) pl"

lemma lo8_ucast: "lo8 x = ucast x"
proof -
  have m: "(0xFF :: 16 word) = mask 8"
    by (simp add: mask_eq_exp_minus_1)
  show ?thesis
    unfolding lo8_def m take_bit_eq_mask [symmetric]
    by (rule bit_word_eqI) (simp add: bit_simps)
qed

lemma be16_hi_lo [simp]: "be16 (hi8 x) (lo8 x) = x"
  unfolding be16_def hi8_def lo8_ucast
  by (rule bit_word_eqI) (auto simp: bit_simps not_less le_add_diff_inverse)

lemma sx_signed_take_bit: "0 < n \<Longrightarrow> sx n x = signed_take_bit (n - 1) x"
  by (cases n) (simp_all add: sx_def signed_take_bit_eq_take_bit_shift take_bit_eq_mod)

lemma byte_ids: "qw24 v \<Longrightarrow> signed_take_bit 23 v = v"
  by (rule signed_take_bit_int_eq_self) (simp_all add: qw24_def)

lemma be24_bytes:
  assumes "qw24 v"
  shows "be24 (byte_of 2 v) (byte_of 1 v) (byte_of 0 v) = v"
proof -
  have top: "byte_of 2 v AND 0x80 \<noteq> 0 \<longleftrightarrow> bit v 23"
  proof -
    have e: "(0x80 :: 8 word) = 2 ^ 7"
      by simp
    have "byte_of 2 v AND 0x80 \<noteq> 0 \<longleftrightarrow> bit (byte_of 2 v) 7"
      unfolding e and_exp_eq_0_iff_not_bit by simp
    then show ?thesis
      by (simp add: byte_of_def bit_simps)
  qed
  have *: "bit (0xFF000000 :: int) n \<longleftrightarrow> 24 \<le> n \<and> n < 32" for n
  proof -
    have "(0xFF000000 :: int) = push_bit 24 (mask 8)"
      by (simp add: mask_eq_exp_minus_1 push_bit_eq_mult)
    then show ?thesis
      by (simp only: bit_mask_iff bit_push_bit_iff_int possible_bit_int) auto
  qed
  have v: "bit v n = bit v 23" if "23 < n" for n
    using arg_cong [OF byte_ids [OF assms], of "\<lambda>x. bit x n"] that by (simp add: bit_simps min_def)
  show ?thesis
    unfolding be24_def top sx_signed_take_bit [of 32, simplified]
  proof (rule bit_eqI)
    fix n :: nat
    consider "n < 8" | "8 \<le> n" "n < 16" | "16 \<le> n" "n < 24" | "24 \<le> n" "n < 32" | "32 \<le> n"
      by linarith
    then show "bit (signed_take_bit 31 ((if bit v 23 then 0xFF000000 else 0) OR
        push_bit 16 (uint (byte_of 2 v)) OR push_bit 8 (uint (byte_of 1 v)) OR uint (byte_of 0 v))) n =
      bit v n"
      by cases (simp_all add: bit_simps * byte_of_def min_def v less_diff_conv2)
  qed
qed

lemma bes16_bytes:
  assumes "in_sx 16 v"
  shows "bes16 (byte_of 1 v) (byte_of 0 v) = v"
proof -
  have id: "signed_take_bit 15 v = v"
    using assms by (intro signed_take_bit_int_eq_self) (simp_all add: in_sx_16)
  have v: "bit v n = bit v 15" if "15 < n" for n
    using arg_cong [OF id, of "\<lambda>x. bit x n"] that by (simp add: bit_simps min_def)
  show ?thesis
    unfolding bes16_def sx_signed_take_bit [of 16, simplified]
  proof (rule bit_eqI)
    fix n :: nat
    consider "n < 8" | "8 \<le> n" "n < 15" | "n = 15" | "15 < n"
      by linarith
    then show "bit (signed_take_bit 15 (push_bit 8 (uint (byte_of 1 v)) OR uint (byte_of 0 v))) n = bit v n"
      by cases (simp_all add: bit_simps byte_of_def min_def v less_diff_conv2)
  qed
qed

lemmas [simp] = be24_bytes [simplified] bes16_bytes [simplified]

lemma length_write_bytes [simp]:
  "off + length bs \<le> length pl \<Longrightarrow> length (write_bytes off bs pl) = length pl"
  by (simp add: write_bytes_def)

lemma take_write_bytes [simp]:
  "length bs \<le> length pl \<Longrightarrow> take (length bs) (write_bytes 0 bs pl) = bs"
  by (simp add: write_bytes_def)

section \<open>Building messages\<close>

definition MSG_BUFFER :: nat where
  "MSG_BUFFER = 255"

definition msg_alloc :: "(nat \<Rightarrow> 8 word) \<Rightarrow> msg_type \<Rightarrow> int \<Rightarrow> int \<Rightarrow> msg" where
  "msg_alloc u type resend_period sz =
     (let sz = (if sz < 0 then 255 else sz)
      in \<lparr>m_resend_period = word_of_int resend_period, m_period_counter = 1, m_retry_counter = 10,
          m_type = type, m_payload_len = word_of_int sz, m_payload = map u [0..<MSG_BUFFER]\<rparr>)"

definition msg_is_reliable :: "msg \<Rightarrow> bool" where
  "msg_is_reliable m \<longleftrightarrow> m_resend_period m > 0"

definition msg_is_unreliable :: "msg \<Rightarrow> bool" where
  "msg_is_unreliable m \<longleftrightarrow> m_resend_period m = 0"

definition msg_put :: "8 word list \<Rightarrow> msg \<Rightarrow> msg" where
  "msg_put bs m = m\<lparr>m_payload := write_bytes 0 bs (m_payload m)\<rparr>"

text \<open>Only the request to join carries a frame number that is renewed when it is sent again.\<close>

definition msg_update_frame_number :: "msg \<Rightarrow> 16 word \<Rightarrow> msg" where
  "msg_update_frame_number m frame_number =
     (case m_type m of
        MSG_JOIN_REQUEST \<Rightarrow>
          m\<lparr>m_payload := write_bytes 2 [hi8 frame_number, lo8 frame_number] (m_payload m)\<rparr>
      | _ \<Rightarrow> m)"

text \<open>A C string is its bytes before the terminator, which are not 0.\<close>

definition msg_join_request ::
  "(nat \<Rightarrow> 8 word) \<Rightarrow> 16 word \<Rightarrow> 16 word \<Rightarrow> 8 word list \<Rightarrow> msg option" where
  "msg_join_request u protocol_version frame_number username =
     (let name_len = (if length username > 254 then 254 else length username);
          m = msg_alloc u MSG_JOIN_REQUEST 1 (2 + 2 + 1 + int name_len + 1);
          bs = [hi8 protocol_version, lo8 protocol_version, hi8 frame_number, lo8 frame_number,
                word_of_nat name_len] @ take (name_len + 1) (username @ [0])
      in if 5 + (name_len + 1) > MSG_BUFFER then None else Some (msg_put bs m))"

definition msg_join_accept ::
  "(nat \<Rightarrow> 8 word) \<Rightarrow> 8 word \<Rightarrow> 8 word \<Rightarrow> 16 word \<Rightarrow> 16 word \<Rightarrow> 16 word \<Rightarrow> qwpos \<Rightarrow> msg" where
  "msg_join_accept u sim_tick_rate net_tick_rate client_frame server_frame snake_id spawn_pos =
     msg_put [sim_tick_rate, net_tick_rate, hi8 client_frame, lo8 client_frame,
         hi8 server_frame, lo8 server_frame, hi8 snake_id, lo8 snake_id,
         byte_of 2 (px spawn_pos), byte_of 1 (px spawn_pos), byte_of 0 (px spawn_pos),
         byte_of 2 (py spawn_pos), byte_of 1 (py spawn_pos), byte_of 0 (py spawn_pos)]
       (msg_alloc u MSG_JOIN_ACCEPT 0 (1 + 1 + 2 + 2 + 2 + 6))"

definition msg_alloc_string_payload ::
  "(nat \<Rightarrow> 8 word) \<Rightarrow> msg_type \<Rightarrow> int \<Rightarrow> 8 word list \<Rightarrow> msg option" where
  "msg_alloc_string_payload u type resend_period str =
     (let len = (if length str > 254 then 254 else length str);
          m = msg_alloc u type resend_period (1 + int len + 1);
          bs = word_of_nat len # take (len + 1) (str @ [0])
      in if 1 + (len + 1) > MSG_BUFFER then None else Some (msg_put bs m))"

definition msg_join_deny_bad_protocol :: "(nat \<Rightarrow> 8 word) \<Rightarrow> 8 word list \<Rightarrow> msg option" where
  "msg_join_deny_bad_protocol u error = msg_alloc_string_payload u MSG_JOIN_DENY_BAD_PROTOCOL 0 error"

definition msg_join_deny_bad_username :: "(nat \<Rightarrow> 8 word) \<Rightarrow> 8 word list \<Rightarrow> msg option" where
  "msg_join_deny_bad_username u error = msg_alloc_string_payload u MSG_JOIN_DENY_BAD_USERNAME 0 error"

definition msg_join_deny_server_full :: "(nat \<Rightarrow> 8 word) \<Rightarrow> 8 word list \<Rightarrow> msg option" where
  "msg_join_deny_server_full u error = msg_alloc_string_payload u MSG_JOIN_DENY_SERVER_FULL 0 error"

definition msg_leave :: "(nat \<Rightarrow> 8 word) \<Rightarrow> msg" where
  "msg_leave u = msg_alloc u MSG_LEAVE 0 0"

definition msg_feedback :: "(nat \<Rightarrow> 8 word) \<Rightarrow> int \<Rightarrow> 16 word \<Rightarrow> msg" where
  "msg_feedback u diff frame_number =
     msg_put [hi8 frame_number, lo8 frame_number, word_of_int diff] (msg_alloc u MSG_FEEDBACK 0 (1 + 2))"

definition msg_snake_head :: "(nat \<Rightarrow> 8 word) \<Rightarrow> snake_head \<Rightarrow> 16 word \<Rightarrow> msg" where
  "msg_snake_head u head frame_number =
     msg_put [hi8 frame_number, lo8 frame_number,
         byte_of 2 (px (sh_pos head)), byte_of 1 (px (sh_pos head)), byte_of 0 (px (sh_pos head)),
         byte_of 2 (py (sh_pos head)), byte_of 1 (py (sh_pos head)), byte_of 0 (py (sh_pos head)),
         byte_of 1 (sh_angle head), byte_of 0 (sh_angle head), sh_speed head]
       (msg_alloc u MSG_SNAKE_HEAD 0 (2 + 6 + 2 + 1))"

definition msg_snake_bezier :: "(nat \<Rightarrow> 8 word) \<Rightarrow> 16 word \<Rightarrow> 16 word \<Rightarrow> bezier_handle \<Rightarrow> msg" where
  "msg_snake_bezier u snake_id bezier_handle_idx h =
     msg_put [hi8 snake_id, lo8 snake_id, hi8 bezier_handle_idx, lo8 bezier_handle_idx,
         byte_of 2 (px (bh_pos h)), byte_of 1 (px (bh_pos h)), byte_of 0 (px (bh_pos h)),
         byte_of 2 (py (bh_pos h)), byte_of 1 (py (bh_pos h)), byte_of 0 (py (bh_pos h)),
         byte_of 1 (bh_angle h), byte_of 0 (bh_angle h), bh_len_backwards h, bh_len_forwards h]
       (msg_alloc u MSG_SNAKE_BEZIER 1 (2 + 2 + 6 + 2 + 1 + 1))"

definition msg_snake_bezier_ack :: "(nat \<Rightarrow> 8 word) \<Rightarrow> 16 word \<Rightarrow> msg" where
  "msg_snake_bezier_ack u bezier_handle_idx =
     msg_put [hi8 bezier_handle_idx, lo8 bezier_handle_idx] (msg_alloc u MSG_SNAKE_BEZIER_ACK 0 2)"

definition msg_snake_destroy :: "(nat \<Rightarrow> 8 word) \<Rightarrow> 16 word \<Rightarrow> msg" where
  "msg_snake_destroy u snake_id =
     msg_put [hi8 snake_id, lo8 snake_id] (msg_alloc u MSG_SNAKE_DESTROY 10 2)"

definition msg_snake_destroy_ack :: "(nat \<Rightarrow> 8 word) \<Rightarrow> 16 word \<Rightarrow> msg" where
  "msg_snake_destroy_ack u snake_id =
     msg_put [hi8 snake_id, lo8 snake_id] (msg_alloc u MSG_SNAKE_DESTROY_ACK 0 2)"

section \<open>Reading payloads\<close>

text \<open>
  The members of the union that the code fills in; a string is the bytes up to its
  terminator.
\<close>

datatype parsed_payload =
  P_none
| P_join_request (pp_username: "8 word list") (pp_protocol: "16 word") (pp_frame: "16 word")
    (pp_username_len: "8 word")
| P_join_accept (pp_spawn: qwpos) (pp_snake_id: "16 word") (pp_client_frame: "16 word")
    (pp_server_frame: "16 word") (pp_sim_tick_rate: "8 word") (pp_net_tick_rate: "8 word")
| P_join_deny (pp_error: "8 word list")
| P_command (pp_command_frame: "16 word")
| P_feedback (pp_feedback_frame: "16 word") (pp_diff: int)
| P_snake_head (pp_head: snake_head) (pp_head_frame: "16 word")
| P_snake_bezier (pp_pos: qwpos) (pp_bezier_snake: "16 word") (pp_angle: qa) (pp_handle_idx: int)
    (pp_len_backwards: "8 word") (pp_len_forwards: "8 word")
| P_snake_bezier_ack (pp_ack_idx: "16 word")

definition c_string :: "8 word list \<Rightarrow> 8 word list" where
  "c_string bs = takeWhile (\<lambda>b. b \<noteq> 0) bs"

text \<open>\<open>Inl\<close> is the negative error code, \<open>Inr\<close> that the type was returned.\<close>

definition msg_parse_payload ::
  "8 word \<Rightarrow> 8 word list \<Rightarrow> 8 word \<Rightarrow> int + parsed_payload" where
  "msg_parse_payload type p len =
     (let n = uint len in
      case msg_type_of type of
        Some MSG_JOIN_REQUEST \<Rightarrow>
          if n < 6 then Inl (-1)
          else if p ! 4 = 0 then Inl (-2)
          else if 5 + uint (p ! 4) + 1 > n then Inl (-3)
          else if p ! (5 + unat (p ! 4)) \<noteq> 0 then Inl (-4)
          else Inr (P_join_request (c_string (drop 5 (take (unat len) p))) (be16 (p ! 0) (p ! 1))
                 (be16 (p ! 2) (p ! 3)) (p ! 4))
      | Some MSG_JOIN_ACCEPT \<Rightarrow>
          if n < 14 then Inl (-1)
          else Inr (P_join_accept
                 \<lparr>px = be24 (p ! 8) (p ! 9) (p ! 10), py = be24 (p ! 11) (p ! 12) (p ! 13)\<rparr>
                 (be16 (p ! 6) (p ! 7)) (be16 (p ! 2) (p ! 3)) (be16 (p ! 4) (p ! 5)) (p ! 0) (p ! 1))
      | Some t \<Rightarrow>
          if t \<in> {MSG_JOIN_DENY_BAD_PROTOCOL, MSG_JOIN_DENY_BAD_USERNAME, MSG_JOIN_DENY_SERVER_FULL}
          then
            if n < 2 then Inl (-1)
            else if 1 + uint (p ! 0) + 1 > n then Inl (-2)
            else if p ! (1 + unat (p ! 0)) \<noteq> 0 then Inl (-3)
            else Inr (P_join_deny (c_string (drop 1 (take (unat len) p))))
          else if t = MSG_COMMANDS then
            if n < 6 then Inl (-1) else Inr (P_command (be16 (p ! 0) (p ! 1)))
          else if t = MSG_FEEDBACK then
            if n < 3 then Inl (-1) else Inr (P_feedback (be16 (p ! 0) (p ! 1)) (i8 (uint (p ! 2))))
          else if t = MSG_SNAKE_BEZIER then
            if n < 14 then Inl (-1)
            else if bes16 (p ! 2) (p ! 3) < 0 then Inl (-2)
            else Inr (P_snake_bezier
                   \<lparr>px = be24 (p ! 4) (p ! 5) (p ! 6), py = be24 (p ! 7) (p ! 8) (p ! 9)\<rparr>
                   (be16 (p ! 0) (p ! 1)) (bes16 (p ! 10) (p ! 11)) (bes16 (p ! 2) (p ! 3))
                   (p ! 12) (p ! 13))
          else if t = MSG_SNAKE_BEZIER_ACK then
            if n < 2 then Inl (-1) else Inr (P_snake_bezier_ack (be16 (p ! 0) (p ! 1)))
          else if t = MSG_SNAKE_HEAD then
            if n < 11 then Inl (-1)
            else Inr (P_snake_head
                   \<lparr>sh_pos = \<lparr>px = be24 (p ! 2) (p ! 3) (p ! 4), py = be24 (p ! 5) (p ! 6) (p ! 7)\<rparr>,
                    sh_angle = bes16 (p ! 8) (p ! 9), sh_speed = p ! 10\<rparr>
                   (be16 (p ! 0) (p ! 1)))
          else Inr P_none
      | None \<Rightarrow> Inr P_none)"

section \<open>What is built is read back\<close>

definition msg_code :: "msg_type \<Rightarrow> 8 word" where
  "msg_code t = word_of_nat (length (takeWhile (\<lambda>x. x \<noteq> t) msg_types))"

lemma msg_type_of_code [simp]: "msg_type_of (msg_code t) = Some t"
  by (cases t) (simp_all add: msg_type_of_def msg_code_def msg_types_def)

definition msg_parse :: "msg \<Rightarrow> int + parsed_payload" where
  "msg_parse m = msg_parse_payload (msg_code (m_type m)) (m_payload m) (m_payload_len m)"

lemma msg_alloc_simps [simp]:
  "m_type (msg_alloc u t r s) = t" "m_resend_period (msg_alloc u t r s) = word_of_int r"
  "length (m_payload (msg_alloc u t r s)) = 255"
  "0 \<le> s \<Longrightarrow> m_payload_len (msg_alloc u t r s) = word_of_int s"
  by (simp_all add: msg_alloc_def MSG_BUFFER_def Let_def)

lemma msg_put_simps [simp]:
  "m_type (msg_put bs m) = m_type m" "m_payload_len (msg_put bs m) = m_payload_len m"
  "m_resend_period (msg_put bs m) = m_resend_period m"
  by (simp_all add: msg_put_def)

lemma msg_put_nth:
  "i < length bs \<Longrightarrow> m_payload (msg_put bs m) ! i = bs ! i"
  by (simp add: msg_put_def write_bytes_def nth_append)

lemma msg_join_accept_parse:
  assumes "qwpos24 pos"
  shows "msg_parse (msg_join_accept u sim net cf sf sid pos) = Inr (P_join_accept pos sid cf sf sim net)"
  using assms
  by (simp add: msg_parse_def msg_parse_payload_def msg_join_accept_def msg_put_nth Let_def qwpos24_def)

lemma msg_feedback_parse:
  assumes "in_sx 8 d"
  shows "msg_parse (msg_feedback u d f) = Inr (P_feedback f d)"
  using assms
  by (simp add: msg_parse_def msg_parse_payload_def msg_feedback_def msg_put_nth Let_def
      sx_8 uint_word_of_int in_sx_8 mod_simps)

lemma msg_snake_head_parse:
  assumes "qwpos24 (sh_pos h)" "in_sx 16 (sh_angle h)"
  shows "msg_parse (msg_snake_head u h f) = Inr (P_snake_head h f)"
  using assms
  by (simp add: msg_parse_def msg_parse_payload_def msg_snake_head_def msg_put_nth Let_def qwpos24_def)

lemma msg_snake_bezier_parse:
  assumes "qwpos24 (bh_pos h)" "in_sx 16 (bh_angle h)" "idx < 0x8000"
  shows "msg_parse (msg_snake_bezier u sid idx h) =
    Inr (P_snake_bezier (bh_pos h) sid (bh_angle h) (uint idx) (bh_len_backwards h) (bh_len_forwards h))"
proof -
  have idx: "bes16 (hi8 idx) (lo8 idx) = uint idx"
  proof -
    have "uint idx < 0x8000"
      using assms(3) by (simp add: word_less_def)
    then have "in_sx 16 (uint idx)"
      unfolding in_sx_16 using uint_ge_0 [of idx] by linarith
    moreover have "hi8 idx = byte_of 1 (uint idx)" "lo8 idx = byte_of 0 (uint idx)"
      by (auto simp: hi8_def lo8_ucast byte_of_def bit_simps intro!: bit_word_eqI)
    ultimately show ?thesis
      by (simp only: bes16_bytes)
  qed
  have "\<not> uint idx < 0"
    by simp
  with assms idx show ?thesis
    by (simp add: msg_parse_def msg_parse_payload_def msg_snake_bezier_def msg_put_nth Let_def
        qwpos24_def)
qed

lemma msg_snake_bezier_ack_parse:
  "msg_parse (msg_snake_bezier_ack u idx) = Inr (P_snake_bezier_ack idx)"
  by (simp add: msg_parse_def msg_parse_payload_def msg_snake_bezier_ack_def msg_put_nth Let_def)

lemma c_string_prefix:
  "0 \<notin> set s \<Longrightarrow> c_string (s @ 0 # rest) = s"
  by (induction s) (simp_all add: c_string_def)

text \<open>A name of up to 249 bytes comes back, a longer one is written past the buffer.\<close>

lemma unat_byte: "n < 256 \<Longrightarrow> unat (word_of_nat n :: 8 word) = n"
  by (simp add: unat_of_nat)

lemma msg_join_request_parse:
  assumes "0 \<notin> set name" "name \<noteq> []" "length name \<le> 249"
  shows "\<exists>m. msg_join_request u proto f name = Some m \<and>
    msg_parse m = Inr (P_join_request name proto f (word_of_nat (length name)))"
proof -
  let ?n = "length name"
  let ?bs = "[hi8 proto, lo8 proto, hi8 f, lo8 f, word_of_nat ?n] @ name @ [0]"
  let ?m = "msg_put ?bs (msg_alloc u MSG_JOIN_REQUEST 1 (2 + 2 + 1 + int ?n + 1))"
  have m: "msg_join_request u proto f name = Some ?m"
    using assms by (simp add: msg_join_request_def MSG_BUFFER_def Let_def)
  have n: "unat (word_of_nat ?n :: 8 word) = ?n" "uint (word_of_nat ?n :: 8 word) = int ?n"
    using assms(3) by (simp_all add: unat_byte uint_nat)
  have len: "m_payload_len ?m = word_of_nat (6 + ?n)"
    by (simp add: add.commute)
  have ln: "unat (m_payload_len ?m) = 6 + ?n" "uint (m_payload_len ?m) = 6 + int ?n"
    unfolding len using assms(3) by (simp_all add: unat_byte uint_nat del: of_nat_add of_nat_numeral)
  have pl: "m_payload ?m = ?bs @ drop (length ?bs) (map u [0..<255])"
    by (simp add: msg_put_def write_bytes_def msg_alloc_def MSG_BUFFER_def Let_def)
  have nz: "(word_of_nat ?n :: 8 word) \<noteq> 0"
  proof
    assume "(word_of_nat ?n :: 8 word) = 0"
    with n(1) assms(2) show False by simp
  qed
  have at: "m_payload ?m ! 4 = word_of_nat ?n" "m_payload ?m ! (5 + ?n) = 0"
    unfolding pl by (simp_all add: nth_append)
  have str: "c_string (drop 5 (take (unat (m_payload_len ?m)) (m_payload ?m))) = name"
  proof -
    have "drop 5 (take (6 + ?n) (?bs @ rest)) = name @ [0]" for rest
    proof -
      have "6 + ?n = length ?bs"
        by simp
      then have "take (6 + ?n) (?bs @ rest) = ?bs"
        by (metis append_eq_conv_conj)
      then show ?thesis by simp
    qed
    then show ?thesis
      unfolding ln pl using c_string_prefix [OF assms(1), of "[]"] by simp
  qed
  have first: "m_payload ?m ! 0 = hi8 proto" "m_payload ?m ! 1 = lo8 proto"
    "m_payload ?m ! 2 = hi8 f" "m_payload ?m ! 3 = lo8 f"
    unfolding pl by simp_all
  have "msg_parse ?m = Inr (P_join_request name proto f (word_of_nat ?n))"
    unfolding msg_parse_def msg_parse_payload_def Let_def
    using n nz ln at str first by simp
  with m show ?thesis by blast
qed

lemma msg_join_request_overflow:
  "250 \<le> length name \<Longrightarrow> msg_join_request u proto f name = None"
  by (simp add: msg_join_request_def MSG_BUFFER_def Let_def)

text \<open>Reading a payload depends on the bytes of the payload only.\<close>

lemma msg_parse_payload_bounds:
  assumes "take (unat len) p = take (unat len) q"
  shows "msg_parse_payload type p len = msg_parse_payload type q len"
proof -
  have i: "p ! i = q ! i" if "int i < uint len" for i
  proof -
    have "int i < int (unat len)"
      using that by simp
    then have "i < unat len"
      by (simp only: of_nat_less_iff)
    then show ?thesis
      using arg_cong [OF assms, of "\<lambda>l. l ! i"] by simp
  qed
  have k: "p ! i = q ! i" if "\<not> uint len < m" "int i < m" for i m
    using i that by simp
  show ?thesis
  proof (cases "msg_type_of type")
    case (Some t)
    note d = msg_parse_payload_def Some
    show ?thesis
    proof (cases t)
      case MSG_JOIN_REQUEST
      show ?thesis
      proof (cases "uint len < 6")
        case False
        note r = k [OF False]
        show ?thesis
          using i [of "5 + unat (q ! 4)"] by (simp add: d MSG_JOIN_REQUEST r assms Let_def)
      qed (simp add: d MSG_JOIN_REQUEST Let_def)
    next
      case MSG_JOIN_ACCEPT
      show ?thesis
      proof (cases "uint len < 14")
        case False
        show ?thesis by (simp add: d MSG_JOIN_ACCEPT k [OF False] Let_def)
      qed (simp add: d MSG_JOIN_ACCEPT Let_def)
    next
      case MSG_SNAKE_BEZIER
      show ?thesis
      proof (cases "uint len < 14")
        case False
        show ?thesis by (simp add: d MSG_SNAKE_BEZIER k [OF False] Let_def)
      qed (simp add: d MSG_SNAKE_BEZIER Let_def)
    next
      case MSG_SNAKE_HEAD
      show ?thesis
      proof (cases "uint len < 11")
        case False
        show ?thesis by (simp add: d MSG_SNAKE_HEAD k [OF False] Let_def)
      qed (simp add: d MSG_SNAKE_HEAD Let_def)
    next
      case MSG_JOIN_DENY_BAD_PROTOCOL
      show ?thesis
      proof (cases "uint len < 2")
        case False
        show ?thesis
          using i [of "1 + unat (q ! 0)"]
          by (simp add: d MSG_JOIN_DENY_BAD_PROTOCOL k [OF False] assms Let_def)
      qed (simp add: d MSG_JOIN_DENY_BAD_PROTOCOL Let_def)
    next
      case MSG_JOIN_DENY_BAD_USERNAME
      show ?thesis
      proof (cases "uint len < 2")
        case False
        show ?thesis
          using i [of "1 + unat (q ! 0)"]
          by (simp add: d MSG_JOIN_DENY_BAD_USERNAME k [OF False] assms Let_def)
      qed (simp add: d MSG_JOIN_DENY_BAD_USERNAME Let_def)
    next
      case MSG_JOIN_DENY_SERVER_FULL
      show ?thesis
      proof (cases "uint len < 2")
        case False
        show ?thesis
          using i [of "1 + unat (q ! 0)"]
          by (simp add: d MSG_JOIN_DENY_SERVER_FULL k [OF False] assms Let_def)
      qed (simp add: d MSG_JOIN_DENY_SERVER_FULL Let_def)
    next
      case MSG_COMMANDS
      then show ?thesis
        by (cases "uint len < 6") (simp_all add: d k [of 6] Let_def)
    next
      case MSG_FEEDBACK
      then show ?thesis
        by (cases "uint len < 3") (simp_all add: d k [of 3] Let_def)
    next
      case MSG_SNAKE_BEZIER_ACK
      then show ?thesis
        by (cases "uint len < 2") (simp_all add: d k [of 2] Let_def)
    qed (simp_all add: d Let_def)
  qed (simp add: msg_parse_payload_def Let_def)
qed

end
