(* ===== verification/MsgCommands.thy ===== *)
theory MsgCommands
  imports Msg
begin

text \<open>
  The message that carries a client's commands (\<open>msg_commands\<close> and \<open>msg_commands_unpack_into\<close>
  of src/msg.c): the first command in full, then for each of the others one bit or four for
  the action and one byte for the changes of angle and speed.
\<close>

section \<open>Packing\<close>

text \<open>The payload and the position of the next bit in it: \<open>bit\<close> of \<open>byte\<close>.\<close>

type_synonym bit_buffer = "8 word list \<times> nat \<times> nat"

definition put_next_bit :: "bool \<Rightarrow> bit_buffer \<Rightarrow> bit_buffer" where
  "put_next_bit b s =
     (case s of (pl, bt, byte) \<Rightarrow>
        let pl = pl[byte := (if b then pl ! byte OR push_bit bt 1 else pl ! byte AND NOT (push_bit bt 1))];
            bt = bt + 1
        in if bt \<ge> 8 then (pl, 0, byte + 1) else (pl, bt, byte))"

text \<open>The loops over the pairs of consecutive commands.\<close>

fun pack_actions :: "cmd \<Rightarrow> cmd list \<Rightarrow> bit_buffer \<Rightarrow> bit_buffer" where
  "pack_actions prev [] s = s"
| "pack_actions prev (next # cs) s =
     (if cmd_action next = cmd_action prev then pack_actions next cs (put_next_bit False s)
      else
        let s = put_next_bit True s;
            s = put_next_bit (cmd_action next AND 1 \<noteq> 0) s;
            s = put_next_bit (cmd_action next AND 2 \<noteq> 0) s;
            s = put_next_bit (cmd_action next AND 4 \<noteq> 0) s
        in pack_actions next cs s)"

definition delta_byte :: "cmd \<Rightarrow> cmd \<Rightarrow> 8 word" where
  "delta_byte prev next =
     (let da = uint (cmd_angle next) - uint (cmd_angle prev) + 3;
          dv = uint (cmd_speed next) - uint (cmd_speed prev) + 15;
          da = (if da > 128 then da - 256 else da);
          da = (if da < -128 then da + 256 else da)
      in (push_bit 3 (word_of_int dv) AND 0xF8) OR (word_of_int da AND 0x07))"

fun pack_deltas :: "cmd \<Rightarrow> cmd list \<Rightarrow> 8 word list \<times> nat \<Rightarrow> 8 word list \<times> nat" where
  "pack_deltas prev [] s = s"
| "pack_deltas prev (next # cs) s =
     (case s of (pl, byte) \<Rightarrow> pack_deltas next cs (pl[byte := delta_byte prev next], byte + 1))"

text \<open>One message, from the commands that the loop peeks.\<close>

definition msg_commands_one :: "(nat \<Rightarrow> 8 word) \<Rightarrow> cmd list \<Rightarrow> 16 word \<Rightarrow> msg" where
  "msg_commands_one u cs f =
     (let send_count = length cs;
          m = msg_alloc u MSG_COMMANDS 0 (2 + 3 + int ((12 * send_count + 8) div 8));
          c = hd cs;
          pl = write_bytes 0 [hi8 f, lo8 f, word_of_int (int send_count - 1), cmd_angle c, cmd_speed c,
                 ucast (cmd_action c)] (m_payload m);
          (pl, bt, byte) = pack_actions c (tl cs) (pl, 3, 5);
          byte = (if bt \<noteq> 0 then byte + 1 else byte);
          (pl, byte) = pack_deltas c (tl cs) (pl, byte)
      in m\<lparr>m_payload := pl, m_payload_len := word_of_nat byte\<rparr>)"

definition cmds_peeked :: "cmd_queue \<Rightarrow> int \<Rightarrow> cmd list" where
  "cmds_peeked q n = (case cq_rb q of None \<Rightarrow> [] | Some rb \<Rightarrow> map (rb_peek rb) [0..n - 1])"

text \<open>
  The loop over the hundreds of commands in the queue. The body peeks from index 0 each time.
\<close>

function msg_commands_from :: "(nat \<Rightarrow> 8 word) \<Rightarrow> cmd_queue \<Rightarrow> int \<Rightarrow> 16 word \<Rightarrow> msg list" where
  "msg_commands_from u q send_idx f =
     (if send_idx < cmd_queue_count q then
        let send_count = cmd_queue_count q - send_idx;
            send_count = (if send_count > 100 then 100 else send_count)
        in msg_commands_one u (cmds_peeked q send_count) f # msg_commands_from u q (send_idx + 100) (f + 100)
      else [])"
  by pat_completeness auto
termination
  by (relation "measure (\<lambda>(u, q, i, f). nat (cmd_queue_count q - i))") auto

declare msg_commands_from.simps [simp del]

definition msg_commands ::
  "bool \<Rightarrow> (nat \<Rightarrow> msg) \<Rightarrow> (nat \<Rightarrow> 8 word) \<Rightarrow> msg vec option \<Rightarrow> cmd_queue \<Rightarrow> msg vec option" where
  "msg_commands ok uv u msgs q =
     foldl (\<lambda>v m. snd (vec_push 16 ok uv v m)) msgs
       (msg_commands_from u q 0 (cmd_queue_frame_begin q))"

text \<open>Removing the messages of one type from a queue of messages.\<close>

definition msg_vec_remove_type :: "msg vec option \<Rightarrow> msg_type \<Rightarrow> msg vec option" where
  "msg_vec_remove_type msgq type =
     fst (snd (vec_retain (\<lambda>m (u::unit). (if m_type m = type then 1 else 0, m, u)) msgq ()))"

section \<open>Unpacking\<close>

text \<open>Skipping the bits of the actions; \<open>None\<close> is the end of the payload.\<close>

fun unpack_skip :: "8 word list \<Rightarrow> nat \<Rightarrow> nat \<Rightarrow> nat \<times> nat \<Rightarrow> (nat \<times> nat) option" where
  "unpack_skip pl len 0 s = Some s"
| "unpack_skip pl len (Suc n) s =
     (case s of (bt, byte) \<Rightarrow>
        if byte \<ge> len then None
        else
          let b = pl ! byte AND push_bit bt 1;
              bt = bt + (if b \<noteq> 0 then 4 else 1)
          in unpack_skip pl len n (if bt \<ge> 8 then (bt - 8, byte + 1) else (bt, byte)))"

definition read_next_bit :: "8 word list \<Rightarrow> nat \<times> nat \<Rightarrow> bool \<times> nat \<times> nat" where
  "read_next_bit pl s =
     (case s of (bt, byte) \<Rightarrow>
        (pl ! byte AND push_bit bt 1 \<noteq> 0,
         if bt + 1 \<ge> 8 then (0, byte + 1) else (bt + 1, byte)))"

definition read_action :: "8 word list \<Rightarrow> 3 word \<Rightarrow> nat \<times> nat \<Rightarrow> 3 word \<times> nat \<times> nat" where
  "read_action pl action s =
     (case read_next_bit pl s of (b, s) \<Rightarrow>
        if b then
          (case read_next_bit pl s of (b0, s) \<Rightarrow>
           case read_next_bit pl s of (b1, s) \<Rightarrow>
           case read_next_bit pl s of (b2, s) \<Rightarrow>
             ((if b0 then 1 else 0) OR (if b1 then 2 else 0) OR (if b2 then 4 else 0), s))
        else (action, s))"

definition apply_delta :: "8 word \<Rightarrow> 3 word \<Rightarrow> cmd \<Rightarrow> cmd" where
  "apply_delta x action c =
     (let da = x AND 0x07; dv = drop_bit 3 x AND 0x1F
      in \<lparr>cmd_angle = cmd_angle c + (da - 3), cmd_speed = cmd_speed c + (dv - 15), cmd_action = action\<rparr>)"

definition put_if_new ::
  "bool \<Rightarrow> (nat \<Rightarrow> cmd) \<Rightarrow> 16 word \<Rightarrow> cmd_queue \<Rightarrow> cmd \<Rightarrow> 16 word \<Rightarrow> cmd_queue" where
  "put_if_new ok u frame_number q c f =
     (if u16_ge_wrap f frame_number then cmd_queue_put ok u q c f else q)"

fun unpack_loop ::
  "bool \<Rightarrow> (nat \<Rightarrow> cmd) \<Rightarrow> 16 word \<Rightarrow> 16 word \<Rightarrow> nat \<Rightarrow> 8 word list \<Rightarrow> nat \<Rightarrow> nat \<Rightarrow>
   cmd \<Rightarrow> cmd_queue \<Rightarrow> nat \<times> nat \<Rightarrow> cmd_queue" where
  "unpack_loop ok u frame_number first offset pl 0 i c q s = q"
| "unpack_loop ok u frame_number first offset pl (Suc n) i c q s =
     (case read_action pl (cmd_action c) s of (action, s) \<Rightarrow>
        let c = apply_delta (pl ! (offset + i)) action c;
            q = put_if_new ok u frame_number q c (first + word_of_nat (i + 1))
        in unpack_loop ok u frame_number first offset pl n (i + 1) c q s)"

text \<open>The result, the queue, and the first and last frame.\<close>

definition msg_commands_unpack_into ::
  "bool \<Rightarrow> (nat \<Rightarrow> cmd) \<Rightarrow> cmd_queue \<Rightarrow> 8 word list \<Rightarrow> 8 word \<Rightarrow> 16 word \<Rightarrow>
   int \<times> cmd_queue \<times> 16 word \<times> 16 word" where
  "msg_commands_unpack_into ok u q pl payload_len frame_number =
     (let first = be16 (pl ! 0) (pl ! 1);
          count = unat (pl ! 2);
          lastf = first + ucast (pl ! 2);
          c = \<lparr>cmd_angle = pl ! 3, cmd_speed = pl ! 4, cmd_action = ucast (pl ! 5 AND 0x07)\<rparr>;
          q = put_if_new ok u frame_number q c first
      in if count = 0 then (0, q, first, lastf)
         else case unpack_skip pl (unat payload_len) count (3, 5) of
             None \<Rightarrow> (-1, q, first, lastf)
           | Some (bt, byte) \<Rightarrow>
               let offset = (if bt = 0 then byte else byte + 1)
               in if offset + count > unat payload_len then (-1, q, first, lastf)
                  else (0, unpack_loop ok u frame_number first offset pl count 0 c q (3, 5), first, lastf))"

section \<open>Bits of a buffer\<close>

definition bit_at :: "8 word list \<Rightarrow> nat \<Rightarrow> bool" where
  "bit_at pl p = bit (pl ! (p div 8)) (p mod 8)"

definition set_bit_at :: "bool \<Rightarrow> nat \<Rightarrow> 8 word list \<Rightarrow> 8 word list" where
  "set_bit_at b p pl = fst (put_next_bit b (pl, p mod 8, p div 8))"

lemma and_push_bit_iff: "(w AND push_bit k 1 \<noteq> 0) = bit w k" if "k < 8" for w :: "8 word"
  using that and_exp_eq_0_iff_not_bit [of w k] by (simp add: push_bit_eq_mult)

lemma put_next_bit_pos:
  "put_next_bit b (pl, p mod 8, p div 8) = (set_bit_at b p pl, Suc p mod 8, Suc p div 8)"
proof (cases "p mod 8 = 7")
  case True
  then have "Suc p mod 8 = 0" "Suc p div 8 = Suc (p div 8)"
    by (simp_all add: mod_Suc div_Suc)
  with True show ?thesis
    by (simp add: set_bit_at_def put_next_bit_def Let_def)
next
  case False
  moreover have "p mod 8 < 8"
    by simp
  ultimately have "\<not> p mod 8 + 1 \<ge> 8" "Suc p mod 8 = Suc (p mod 8)" "Suc p div 8 = p div 8"
    by (auto simp: mod_Suc div_Suc)
  then show ?thesis
    by (simp add: set_bit_at_def put_next_bit_def Let_def)
qed

lemma length_set_bit_at [simp]: "length (set_bit_at b p pl) = length pl"
  by (simp add: set_bit_at_def put_next_bit_def Let_def)

lemma bit_at_set:
  assumes "p div 8 < length pl"
  shows "bit_at (set_bit_at b p pl) q = (if q = p then b else bit_at pl q)"
proof -
  have qp: "q = p \<longleftrightarrow> q div 8 = p div 8 \<and> q mod 8 = p mod 8"
    by (metis div_mult_mod_eq)
  show ?thesis
    using assms unfolding qp
    by (cases "q div 8 = p div 8")
       (auto simp: bit_at_def set_bit_at_def put_next_bit_def Let_def bit_simps)
qed

primrec set_bits_at :: "bool list \<Rightarrow> nat \<Rightarrow> 8 word list \<Rightarrow> 8 word list" where
  "set_bits_at [] p pl = pl"
| "set_bits_at (b # bs) p pl = set_bits_at bs (Suc p) (set_bit_at b p pl)"

lemma length_set_bits_at [simp]: "length (set_bits_at bs p pl) = length pl"
  by (induction bs arbitrary: p pl) simp_all

lemma bit_at_set_bits:
  "p + length bs \<le> 8 * length pl \<Longrightarrow>
   bit_at (set_bits_at bs p pl) q = (if p \<le> q \<and> q < p + length bs then bs ! (q - p) else bit_at pl q)"
proof (induction bs arbitrary: p pl)
  case (Cons b bs)
  have "p div 8 < length pl"
    using Cons.prems by simp
  then show ?case
    using Cons.IH [of "Suc p" "set_bit_at b p pl"] Cons.prems
    by (auto simp: bit_at_set nth_Cons' not_le Suc_le_eq)
qed auto

text \<open>The bits at a position are a given list.\<close>

definition bits_are :: "8 word list \<Rightarrow> nat \<Rightarrow> bool list \<Rightarrow> bool" where
  "bits_are pl p bs \<longleftrightarrow> (\<forall>j < length bs. bit_at pl (p + j) = bs ! j)"

lemma bits_are_Nil [simp]: "bits_are pl p []"
  by (simp add: bits_are_def)

lemma bits_are_Cons [simp]: "bits_are pl p (b # bs) \<longleftrightarrow> bit_at pl p = b \<and> bits_are pl (Suc p) bs"
  by (auto simp: bits_are_def less_Suc_eq_0_disj)

lemma bits_are_append [simp]:
  "bits_are pl p (xs @ ys) \<longleftrightarrow> bits_are pl p xs \<and> bits_are pl (p + length xs) ys"
  by (induction xs arbitrary: p) simp_all

lemma bits_are_set: "p + length bs \<le> 8 * length pl \<Longrightarrow> bits_are (set_bits_at bs p pl) p bs"
  by (simp add: bits_are_def bit_at_set_bits)

section \<open>What is packed\<close>

definition action_bits :: "3 word \<Rightarrow> 3 word \<Rightarrow> bool list" where
  "action_bits prev next =
     (if next = prev then [False] else [True, next AND 1 \<noteq> 0, next AND 2 \<noteq> 0, next AND 4 \<noteq> 0])"

fun actions_bits :: "cmd \<Rightarrow> cmd list \<Rightarrow> bool list" where
  "actions_bits prev [] = []"
| "actions_bits prev (c # cs) = action_bits (cmd_action prev) (cmd_action c) @ actions_bits c cs"

fun deltas :: "cmd \<Rightarrow> cmd list \<Rightarrow> 8 word list" where
  "deltas prev [] = []"
| "deltas prev (c # cs) = delta_byte prev c # deltas c cs"

lemma length_deltas [simp]: "length (deltas c cs) = length cs"
  by (induction cs arbitrary: c) simp_all

lemma length_actions_bits: "length (actions_bits c cs) \<le> 4 * length cs"
proof (induction cs arbitrary: c)
  case (Cons d cs)
  show ?case using Cons.IH [of d] by (simp add: action_bits_def)
qed simp

lemma pack_actions_bits:
  "pack_actions c cs (pl, p mod 8, p div 8) =
     (let bs = actions_bits c cs; p' = p + length bs in (set_bits_at bs p pl, p' mod 8, p' div 8))"
proof (induction cs arbitrary: c pl p)
  case (Cons d cs)
  show ?case
  proof -
    have s: "Suc (Suc (Suc (Suc p))) = 4 + p" "Suc (Suc (Suc p)) = 3 + p"
      by simp_all
    show ?thesis
      using Cons.IH by (simp add: action_bits_def put_next_bit_pos Let_def s add.assoc)
  qed
qed simp

lemma pack_deltas_bytes:
  "byte + length cs \<le> length pl \<Longrightarrow>
   pack_deltas c cs (pl, byte) = (write_bytes byte (deltas c cs) pl, byte + length cs)"
proof (induction cs arbitrary: c pl byte)
  case Nil
  then show ?case by (simp add: write_bytes_def)
next
  case (Cons d cs)
  have "write_bytes (Suc byte) (deltas d cs) (pl[byte := delta_byte c d]) =
      write_bytes byte (delta_byte c d # deltas d cs) pl"
    using Cons.prems by (simp add: write_bytes_def take_Suc_conv_app_nth)
  then show ?case
    using Cons by simp
qed

text \<open>The message of up to 100 commands: header, action bits and delta bytes.\<close>

definition commands_offset :: "cmd list \<Rightarrow> nat" where
  "commands_offset cs = (43 + length (actions_bits (hd cs) (tl cs)) + 7) div 8"

lemma div8_up: "(if p mod 8 \<noteq> 0 then p div 8 + 1 else p div 8) = (p + 7) div (8::nat)"
  by presburger

lemma commands_offset_bounds:
  assumes "cs \<noteq> []" "length cs \<le> 100"
  shows "6 \<le> commands_offset cs" "commands_offset cs + length (tl cs) \<le> 155"
proof -
  have "length (actions_bits (hd cs) (tl cs)) \<le> 4 * 99"
    using length_actions_bits [of "hd cs" "tl cs"] assms(2) by simp
  then have "commands_offset cs \<le> 55"
    unfolding commands_offset_def by linarith
  then show "commands_offset cs + length (tl cs) \<le> 155"
    using assms(2) by simp
  show "6 \<le> commands_offset cs"
    unfolding commands_offset_def by linarith
qed

definition commands_header :: "cmd list \<Rightarrow> 16 word \<Rightarrow> 8 word list" where
  "commands_header cs f = [hi8 f, lo8 f, word_of_int (int (length cs) - 1), cmd_angle (hd cs),
     cmd_speed (hd cs), ucast (cmd_action (hd cs))]"

lemma msg_commands_one_payload:
  fixes u :: "nat \<Rightarrow> 8 word" and f :: "16 word"
  assumes "cs \<noteq> []" "length cs \<le> 100"
  defines "pl0 \<equiv> write_bytes 0 (commands_header cs f) (map u [0..<255])"
  shows "m_payload (msg_commands_one u cs f) =
      write_bytes (commands_offset cs) (deltas (hd cs) (tl cs))
        (set_bits_at (actions_bits (hd cs) (tl cs)) 43 pl0)"
    and "m_payload_len (msg_commands_one u cs f) = word_of_nat (commands_offset cs + length (tl cs))"
proof -
  let ?bs = "actions_bits (hd cs) (tl cs)"
  have len: "length pl0 = 255"
    by (simp add: pl0_def commands_header_def)
  have pk: "pack_actions (hd cs) (tl cs) (pl0, 3, 5) =
      (set_bits_at ?bs 43 pl0, (43 + length ?bs) mod 8, (43 + length ?bs) div 8)"
    using pack_actions_bits [of "hd cs" "tl cs" pl0 43] by (simp add: Let_def)
  have off: "(if (43 + length ?bs) mod 8 \<noteq> 0 then (43 + length ?bs) div 8 + 1 else (43 + length ?bs) div 8) =
      commands_offset cs"
    unfolding div8_up commands_offset_def ..
  have pd: "pack_deltas (hd cs) (tl cs) (set_bits_at ?bs 43 pl0, commands_offset cs) =
      (write_bytes (commands_offset cs) (deltas (hd cs) (tl cs)) (set_bits_at ?bs 43 pl0),
       commands_offset cs + length (tl cs))"
    using commands_offset_bounds [OF assms(1,2)] len by (intro pack_deltas_bytes) simp
  have pl: "write_bytes 0 [hi8 f, lo8 f, word_of_int (int (length cs) - 1), cmd_angle (hd cs),
      cmd_speed (hd cs), ucast (cmd_action (hd cs))]
        (m_payload (msg_alloc u MSG_COMMANDS 0 (2 + 3 + int ((12 * length cs + 8) div 8)))) = pl0"
    by (simp add: pl0_def commands_header_def msg_alloc_def MSG_BUFFER_def Let_def)
  show "m_payload (msg_commands_one u cs f) =
      write_bytes (commands_offset cs) (deltas (hd cs) (tl cs))
        (set_bits_at ?bs 43 pl0)"
    "m_payload_len (msg_commands_one u cs f) = word_of_nat (commands_offset cs + length (tl cs))"
    unfolding msg_commands_one_def Let_def pl pk prod.case off pd by simp_all
qed

lemma nth_write_bytes:
  "off + length bs \<le> length pl \<Longrightarrow> i < length pl \<Longrightarrow>
   write_bytes off bs pl ! i = (if off \<le> i \<and> i < off + length bs then bs ! (i - off) else pl ! i)"
  by (auto simp: write_bytes_def nth_append min_def)

text \<open>What a receiver can rely on in the payload.\<close>

lemma msg_commands_one_layout:
  fixes u :: "nat \<Rightarrow> 8 word" and f :: "16 word"
  assumes "cs \<noteq> []" "length cs \<le> 100"
  defines "pl \<equiv> m_payload (msg_commands_one u cs f)"
  shows "take 5 pl = take 5 (commands_header cs f)" "pl ! 5 AND 7 = ucast (cmd_action (hd cs))"
    "bits_are pl 43 (actions_bits (hd cs) (tl cs))"
    "i < length (tl cs) \<Longrightarrow> pl ! (commands_offset cs + i) = deltas (hd cs) (tl cs) ! i"
    "unat (m_payload_len (msg_commands_one u cs f)) = commands_offset cs + length (tl cs)"
    "length pl = 255"
proof -
  let ?bs = "actions_bits (hd cs) (tl cs)"
  define pl0 where "pl0 = write_bytes 0 (commands_header cs f) (map u [0..<255])"
  note pm = msg_commands_one_payload [OF assms(1,2), of u f, folded pl0_def pl_def]
  note ob = commands_offset_bounds [OF assms(1,2)]
  have len0: "length pl0 = 255"
    by (simp add: pl0_def commands_header_def)
  have room: "43 + length ?bs \<le> 8 * length (set_bits_at ?bs 43 pl0)"
    "43 + length ?bs \<le> 8 * commands_offset cs"
    using ob len0 unfolding commands_offset_def by simp_all
  have bit_pl: "bit_at pl p = bit_at (set_bits_at ?bs 43 pl0) p" if "p < 8 * commands_offset cs" for p
  proof -
    have "p div 8 < commands_offset cs"
      using that by (simp add: less_mult_imp_div_less mult.commute)
    then show ?thesis
      using ob len0 by (simp add: bit_at_def pm nth_write_bytes)
  qed
  have byte_pl: "pl ! i = set_bits_at ?bs 43 pl0 ! i" if "i < commands_offset cs" for i
    using that ob len0 by (simp add: pm nth_write_bytes)
  have bit_low: "bit_at pl p = bit_at pl0 p" if "p < 43" for p
    using that ob room len0 bit_pl [of p] bit_at_set_bits [of 43 ?bs pl0 p] by simp
  have low: "bit (pl ! i) k = bit (commands_header cs f ! i) k" if "8 * i + k < 43" "k < 8" for i k
  proof -
    have "(8 * i + k) div 8 = i" "(8 * i + k) mod 8 = k" "i < 6"
      using that by auto
    moreover have "length (commands_header cs f) = 6"
      by (simp add: commands_header_def)
    ultimately show ?thesis
      using bit_low [OF that(1)] by (simp add: bit_at_def pl0_def write_bytes_def nth_append)
  qed
  have five: "pl ! i = commands_header cs f ! i" if "i < 5" for i
  proof (rule bit_word_eqI)
    fix k
    assume "k < LENGTH(8)"
    then show "bit (pl ! i) k = bit (commands_header cs f ! i) k"
      using that by (intro low) simp_all
  qed
  show len: "length pl = 255"
    using ob len0 by (simp add: pm)
  have "length (commands_header cs f) = 6"
    by (simp add: commands_header_def)
  then show "take 5 pl = take 5 (commands_header cs f)"
    using five len by (intro nth_equalityI) simp_all
  show "pl ! 5 AND 7 = ucast (cmd_action (hd cs))"
  proof (rule bit_word_eqI)
    fix k
    assume "k < LENGTH(8)"
    have m: "(7 :: 8 word) = mask 3"
      by (simp add: mask_eq_exp_minus_1)
    have b: "bit (7 :: 8 word) k \<longleftrightarrow> k < 3"
      using \<open>k < LENGTH(8)\<close> by (simp only: m bit_mask_iff) auto
    show "bit (pl ! 5 AND 7) k = bit (ucast (cmd_action (hd cs)) :: 8 word) k"
    proof (cases "k < 3")
      case True
      then show ?thesis
        using low [of 5 k] b by (simp add: bit_and_iff commands_header_def)
    next
      case False
      then show ?thesis
        using b bit_imp_le_length [of "cmd_action (hd cs)" k]
        by (auto simp: bit_and_iff bit_unsigned_iff)
    qed
  qed
  show "bits_are pl 43 ?bs"
    unfolding bits_are_def
  proof (intro allI impI)
    fix j
    assume "j < length ?bs"
    then show "bit_at pl (43 + j) = ?bs ! j"
      using bit_pl [of "43 + j"] room bit_at_set_bits [of 43 ?bs pl0 "43 + j"] by simp
  qed
  show "i < length (tl cs) \<Longrightarrow> pl ! (commands_offset cs + i) = deltas (hd cs) (tl cs) ! i"
    using ob len0 by (subst pm, subst nth_write_bytes) (simp_all, linarith)
  show "unat (m_payload_len (msg_commands_one u cs f)) = commands_offset cs + length (tl cs)"
    using ob by (simp only: pm unat_byte)
qed

section \<open>What is packed is unpacked\<close>

lemma read_next_bit_pos:
  "read_next_bit pl (p mod 8, p div 8) = (bit_at pl p, Suc p mod 8, Suc p div 8)"
proof (cases "p mod 8 = 7")
  case True
  then have "Suc p mod 8 = 0" "Suc p div 8 = Suc (p div 8)"
    by (simp_all add: mod_Suc div_Suc)
  with True and_push_bit_iff [of 7 "pl ! (p div 8)"] show ?thesis
    by (simp add: read_next_bit_def bit_at_def)
next
  case False
  moreover have k: "p mod 8 < 8"
    by simp
  ultimately have "\<not> p mod 8 + 1 \<ge> 8" "Suc p mod 8 = Suc (p mod 8)" "Suc p div 8 = p div 8"
    by (auto simp: mod_Suc div_Suc)
  with and_push_bit_iff [OF k, of "pl ! (p div 8)"] show ?thesis
    by (simp add: read_next_bit_def bit_at_def)
qed

lemma action_of_bits:
  fixes x :: "3 word"
  shows "(if x AND 1 \<noteq> 0 then 1 else 0) OR (if x AND 2 \<noteq> 0 then 2 else 0) OR
    (if x AND 4 \<noteq> 0 then 4 else 0) = x"
proof -
  have b: "(x AND 1 \<noteq> 0) = bit x 0" "(x AND 2 \<noteq> 0) = bit x 1" "(x AND 4 \<noteq> 0) = bit x 2"
    using and_exp_eq_0_iff_not_bit [of x 0] and_exp_eq_0_iff_not_bit [of x 1]
      and_exp_eq_0_iff_not_bit [of x 2] by simp_all
  have d: "bit (1 :: 3 word) 0" "\<not> bit (1 :: 3 word) 1" "\<not> bit (1 :: 3 word) 2"
    "\<not> bit (2 :: 3 word) 0" "bit (2 :: 3 word) 1" "\<not> bit (2 :: 3 word) 2"
    "\<not> bit (4 :: 3 word) 0" "\<not> bit (4 :: 3 word) 1" "bit (4 :: 3 word) 2"
    by code_simp+
  show ?thesis
  proof (rule bit_word_eqI)
    fix n
    assume "n < LENGTH(3)"
    then have "n = 0 \<or> n = 1 \<or> n = 2"
      by auto
    then show "bit ((if x AND 1 \<noteq> 0 then 1 else 0) OR (if x AND 2 \<noteq> 0 then 2 else 0) OR
        (if x AND 4 \<noteq> 0 then 4 else (0 :: 3 word))) n = bit x n"
      unfolding b using d by (elim disjE) (simp_all only: bit_or_iff if_distribR, simp_all)
  qed
qed

lemma read_action_pos:
  assumes "bits_are pl p (action_bits a a')"
  shows "read_action pl a (p mod 8, p div 8) =
    (a', (p + length (action_bits a a')) mod 8, (p + length (action_bits a a')) div 8)"
proof (cases "a' = a")
  case True
  with assms show ?thesis
    by (simp add: read_action_def action_bits_def read_next_bit_pos)
next
  case False
  with assms have "bit_at pl p" "bit_at pl (Suc p) = (a' AND 1 \<noteq> 0)"
    "bit_at pl (Suc (Suc p)) = (a' AND 2 \<noteq> 0)" "bit_at pl (Suc (Suc (Suc p))) = (a' AND 4 \<noteq> 0)"
    by (simp_all add: action_bits_def)
  moreover have "Suc (Suc (Suc (Suc p))) = p + length (action_bits a a')"
    using False by (simp add: action_bits_def)
  ultimately show ?thesis
    using action_of_bits [of a'] False
    unfolding read_action_def read_next_bit_pos prod.case
    by (simp add: action_bits_def)
qed

lemma skip_pos:
  assumes "k \<le> 8"
  shows "(if p mod 8 + k \<ge> 8 then (p mod 8 + k - 8, p div 8 + 1) else (p mod 8 + k, p div 8)) =
    ((p + k) mod 8, (p + k) div (8::nat))"
proof -
  define q r where "q = p div 8" and "r = p mod 8"
  then have p: "p = r + q * 8" "r < 8"
    by simp_all
  show ?thesis
  proof (cases "r + k \<ge> 8")
    case True
    then have e: "p + k = (r + k - 8) + (q + 1) * 8"
      using p(1) by simp
    have "r + k - 8 < 8"
      using p(2) assms by simp
    then have "(p + k) mod 8 = r + k - 8" "(p + k) div 8 = q + 1"
      unfolding e mod_mult_self1 by (simp_all only: div_mult_self1 mod_less div_less)
    then show ?thesis
      using True by (simp add: q_def r_def)
  next
    case False
    then have e: "p + k = (r + k) + q * 8"
      using p(1) by simp
    then have "(p + k) mod 8 = r + k" "(p + k) div 8 = q"
      unfolding e using False by simp_all
    then show ?thesis
      using False by (simp add: q_def r_def)
  qed
qed

lemma unpack_skip_step:
  "unpack_skip pl len (Suc n) (p mod 8, p div 8) =
     (if p div 8 \<ge> len then None
      else let k = (if bit_at pl p then 4 else 1) in unpack_skip pl len n ((p + k) mod 8, (p + k) div 8))"
proof -
  have b: "(pl ! (p div 8) AND push_bit (p mod 8) 1 \<noteq> 0) = bit_at pl p"
    using and_push_bit_iff [of "p mod 8" "pl ! (p div 8)"] by (simp add: bit_at_def)
  show ?thesis
    unfolding unpack_skip.simps Let_def prod.case b
    using skip_pos [of "if bit_at pl p then 4 else 1" p] by simp
qed

lemma unpack_skip_bits:
  assumes "bits_are pl p (actions_bits c cs)" "p + length (actions_bits c cs) \<le> 8 * len"
  shows "unpack_skip pl len (length cs) (p mod 8, p div 8) =
    Some ((p + length (actions_bits c cs)) mod 8, (p + length (actions_bits c cs)) div 8)"
  using assms
proof (induction cs arbitrary: c p)
  case (Cons d cs)
  let ?a = "action_bits (cmd_action c) (cmd_action d)"
  have a: "length ?a = (if bit_at pl p then 4 else 1)"
    using Cons.prems(1) by (auto simp: action_bits_def split: if_splits)
  have "p < 8 * len"
    using Cons.prems(2) a by (auto split: if_splits)
  then have "p div 8 < len"
    by (simp add: less_mult_imp_div_less mult.commute)
  moreover have "unpack_skip pl len (length cs) ((p + length ?a) mod 8, (p + length ?a) div 8) =
      Some ((p + length ?a + length (actions_bits d cs)) mod 8, (p + length ?a + length (actions_bits d cs)) div 8)"
    using Cons.prems by (intro Cons.IH) simp_all
  ultimately show ?case
    unfolding length_Cons unpack_skip_step Let_def by (simp add: a [symmetric] add.assoc)
qed simp

lemma delta_fields:
  fixes x y :: "8 word"
  shows "((push_bit 3 x AND 0xF8) OR (y AND 0x07)) AND 0x07 = take_bit 3 y"
    and "drop_bit 3 ((push_bit 3 x AND 0xF8) OR (y AND 0x07)) AND 0x1F = take_bit 5 x"
proof -
  have m: "(0x07 :: 8 word) = mask 3" "(0x1F :: 8 word) = mask 5" "(0xF8 :: 8 word) = push_bit 3 (mask 5)"
    by (simp_all add: mask_eq_exp_minus_1 push_bit_eq_mult)
  show "((push_bit 3 x AND 0xF8) OR (y AND 0x07)) AND 0x07 = take_bit 3 y"
    unfolding m
    by (rule bit_word_eqI)
       (auto simp only: bit_and_iff bit_or_iff bit_mask_iff bit_push_bit_iff bit_take_bit_iff possible_bit_word)
  show "drop_bit 3 ((push_bit 3 x AND 0xF8) OR (y AND 0x07)) AND 0x1F = take_bit 5 x"
    unfolding m
    by (rule bit_word_eqI)
       (auto simp only: bit_and_iff bit_or_iff bit_mask_iff bit_push_bit_iff bit_take_bit_iff
          bit_drop_bit_eq possible_bit_word o_def; simp)
qed

lemma take_bit_of_int_small:
  assumes "0 \<le> x" "x < 2 ^ k"
  shows "take_bit k (word_of_int x :: 'a::len word) = word_of_int x"
proof (rule bit_word_eqI)
  fix n
  assume "n < LENGTH('a)"
  have "bit x n \<longrightarrow> n < k"
    using arg_cong [OF take_bit_int_eq_self [OF assms], of "\<lambda>x. bit x n"] by (auto simp: bit_take_bit_iff)
  then show "bit (take_bit k (word_of_int x :: 'a word)) n = bit (word_of_int x :: 'a word) n"
    by (auto simp: bit_take_bit_iff bit_word_of_int_iff)
qed

lemma apply_delta_byte:
  assumes "cmd_delta_ok prev c"
  shows "apply_delta (delta_byte prev c) (cmd_action c) prev = c"
proof -
  define a b where ab: "a = uint (cmd_angle prev)" "b = uint (cmd_angle c)"
  define da dv where "da = (let d = b - a + 3; d = (if d > 128 then d - 256 else d)
      in if d < -128 then d + 256 else d)" and dv: "dv = uint (cmd_speed c) - uint (cmd_speed prev) + 15"
  have bnd: "0 \<le> a" "a < 256" "0 \<le> b" "b < 256"
    unfolding ab by (rule byte_bounds)+
  have d3: "\<bar>i8 (b - a)\<bar> \<le> 3"
    using assms by (simp add: cmd_delta_ok_def angle_delta_def ab)
  have da: "0 \<le> da \<and> da \<le> 6 \<and> (da = b - a + 3 \<or> da = b - a + 3 - 256 \<or> da = b - a + 3 + 256)"
  proof -
    consider "b - a < -128" | "-128 \<le> b - a" "b - a < 128" | "128 \<le> b - a"
      by linarith
    then show ?thesis
    proof cases
      case 1
      then have "i8 (b - a) = b - a + 256"
        using sx_8_period(1) [of "b - a"] bnd sx_id [of 8 "b - a + 256"] by (simp add: in_sx_8)
      then show ?thesis
        using d3 1 by (simp add: da_def Let_def) linarith
    next
      case 2
      then have "i8 (b - a) = b - a"
        by (intro sx_id) (simp_all add: in_sx_8)
      then show ?thesis
        using d3 by (simp add: da_def Let_def) linarith
    next
      case 3
      then have "i8 (b - a) = b - a - 256"
        using sx_8_period(2) [of "b - a"] bnd sx_id [of 8 "b - a - 256"] by (simp add: in_sx_8)
      then show ?thesis
        using d3 3 by (simp add: da_def Let_def) linarith
    qed
  qed
  have dvb: "0 \<le> dv" "dv \<le> 30"
    using assms by (auto simp: cmd_delta_ok_def dv)
  have byte: "delta_byte prev c = (push_bit 3 (word_of_int dv) AND 0xF8) OR (word_of_int da AND 0x07)"
    by (simp add: delta_byte_def da_def dv ab Let_def)
  have e: "delta_byte prev c AND 0x07 = word_of_int da" "drop_bit 3 (delta_byte prev c) AND 0x1F = word_of_int dv"
    unfolding byte delta_fields using da dvb by (auto intro!: take_bit_of_int_small)
  have z: "word_of_int 256 = (0 :: 8 word)"
    by code_simp
  have "(word_of_int da :: 8 word) = word_of_int (b - a + 3)"
    using da by (elim disjE conjE) (simp_all only: of_int_add of_int_diff z, simp_all)
  also have "\<dots> = cmd_angle c - cmd_angle prev + 3"
    by (simp add: ab)
  finally have "cmd_angle prev + (word_of_int da - 3) = cmd_angle c"
    by (simp add: algebra_simps)
  moreover have "cmd_speed prev + (word_of_int dv - 15) = cmd_speed c"
    by (simp add: dv)
  ultimately show ?thesis
    by (simp add: apply_delta_def e Let_def)
qed

section \<open>Sending and receiving\<close>

text \<open>What receiving a list of commands does to the queue: each is put under its frame.\<close>

fun put_frames ::
  "bool \<Rightarrow> (nat \<Rightarrow> cmd) \<Rightarrow> 16 word \<Rightarrow> cmd_queue \<Rightarrow> 16 word \<Rightarrow> cmd list \<Rightarrow> cmd_queue" where
  "put_frames ok u frame_number q f [] = q"
| "put_frames ok u frame_number q f (c # cs) =
     put_frames ok u frame_number (put_if_new ok u frame_number q c f) (f + 1) cs"

fun deltas_ok :: "cmd \<Rightarrow> cmd list \<Rightarrow> bool" where
  "deltas_ok c [] = True"
| "deltas_ok c (d # ds) = (cmd_delta_ok c d \<and> deltas_ok d ds)"

lemma unpack_loop_put:
  assumes "bits_are pl p (actions_bits c cs)" "deltas_ok c cs"
    and "\<And>j. j < length cs \<Longrightarrow> pl ! (offset + i + j) = deltas c cs ! j"
  shows "unpack_loop ok u frame_number first offset pl (length cs) i c q (p mod 8, p div 8) =
    put_frames ok u frame_number q (first + word_of_nat (i + 1)) cs"
  using assms
proof (induction cs arbitrary: c p i q)
  case (Cons d cs)
  let ?a = "action_bits (cmd_action c) (cmd_action d)"
  have ra: "read_action pl (cmd_action c) (p mod 8, p div 8) =
      (cmd_action d, (p + length ?a) mod 8, (p + length ?a) div 8)"
    using Cons.prems(1) by (intro read_action_pos) simp
  have ad: "apply_delta (pl ! (offset + i)) (cmd_action d) c = d"
    using Cons.prems(2) Cons.prems(3) [of 0] by (simp add: apply_delta_byte)
  have "pl ! (offset + (i + 1) + j) = deltas d cs ! j" if "j < length cs" for j
    using Cons.prems(3) [of "Suc j"] that by simp
  then have "unpack_loop ok u frame_number first offset pl (length cs) (i + 1) d q'
      ((p + length ?a) mod 8, (p + length ?a) div 8) =
    put_frames ok u frame_number q' (first + word_of_nat (i + 1 + 1)) cs" for q'
    using Cons.prems(1,2) by (intro Cons.IH) simp_all
  then show ?case
    by (simp add: ra ad Let_def add.assoc)
qed simp

lemma msg_commands_roundtrip:
  assumes "cs \<noteq> []" "length cs \<le> 100" "deltas_ok (hd cs) (tl cs)"
  shows "msg_commands_unpack_into ok u q (m_payload (msg_commands_one ub cs f))
      (m_payload_len (msg_commands_one ub cs f)) frame_number =
    (0, put_frames ok u frame_number q f cs, f, f + word_of_nat (length cs - 1))"
proof -
  let ?pl = "m_payload (msg_commands_one ub cs f)" and ?n = "length cs - 1"
  note lay = msg_commands_one_layout [OF assms(1,2), where u = ub and f = f]
  have nth: "?pl ! i = commands_header cs f ! i" if "i < 5" for i
    using arg_cong [OF lay(1), of "\<lambda>l. l ! i"] that by simp
  have hdr: "?pl ! 0 = hi8 f" "?pl ! 1 = lo8 f" "?pl ! 2 = word_of_nat ?n"
    "?pl ! 3 = cmd_angle (hd cs)" "?pl ! 4 = cmd_speed (hd cs)"
    using nth [of 0] nth [of 1] nth [of 2] nth [of 3] nth [of 4] assms(1)
    by (simp_all add: commands_header_def of_nat_diff Suc_le_eq)
  have n: "unat (word_of_nat ?n :: 8 word) = ?n"
    using assms(2) by (intro unat_byte) simp
  have c: "\<lparr>cmd_angle = cmd_angle (hd cs), cmd_speed = cmd_speed (hd cs),
      cmd_action = ucast (ucast (cmd_action (hd cs)) :: 8 word)\<rparr> = hd cs"
    by (rule cmd.equality) (auto intro!: bit_word_eqI simp: bit_simps)
  have last: "ucast (word_of_nat ?n :: 8 word) = (word_of_nat ?n :: 16 word)"
    by (metis n unsigned_of_nat of_nat_unat)
  have cs: "cs = hd cs # tl cs" and tl: "length (tl cs) = ?n"
    using assms(1) by simp_all
  define q1 where "q1 = put_if_new ok u frame_number q (hd cs) f"
  have pf: "put_frames ok u frame_number q f cs = put_frames ok u frame_number q1 (f + 1) (tl cs)"
    by (subst cs) (simp add: q1_def)
  show ?thesis
  proof (cases "?n = 0")
    case True
    then have "tl cs = []"
      using tl by (simp only: length_0_conv)
    with True pf show ?thesis
      unfolding msg_commands_unpack_into_def Let_def hdr lay(2) c n last
      by (simp add: q1_def)
  next
    case False
    let ?L = "43 + length (actions_bits (hd cs) (tl cs))"
    have "?L \<le> 8 * commands_offset cs"
      unfolding commands_offset_def by linarith
    then have room: "?L \<le> 8 * (commands_offset cs + ?n)"
      by (rule order_trans) simp
    have skip: "unpack_skip ?pl (commands_offset cs + ?n) ?n (3, 5) = Some (?L mod 8, ?L div 8)"
      using unpack_skip_bits [OF lay(3) room] tl by simp
    have off: "(if ?L mod 8 = 0 then ?L div 8 else ?L div 8 + 1) = commands_offset cs"
      unfolding commands_offset_def by presburger
    have "unpack_loop ok u frame_number f (commands_offset cs) ?pl ?n 0 (hd cs) q1 (43 mod 8, 43 div 8) =
        put_frames ok u frame_number q1 (f + word_of_nat (0 + 1)) (tl cs)"
      using unpack_loop_put [OF lay(3) assms(3), of "commands_offset cs" 0] lay(4) tl by simp
    then show ?thesis
      unfolding msg_commands_unpack_into_def Let_def hdr lay(2) c n last lay(5) tl skip
      using False off pf by (simp add: q1_def)
  qed
qed

text \<open>Into an empty queue the commands arrive as they were sent.\<close>

lemma put_frames_append:
  assumes "cq_ok q" "cq_list q \<noteq> [] \<Longrightarrow> f = cq_first q + of_nat (length (cq_list q))"
    and "\<And>i. i < length cs \<Longrightarrow> u16_ge_wrap (f + of_nat i) frame_number"
    and "length (cq_list q) + length cs \<le> 100"
  shows "cq_ok (put_frames True u frame_number q f cs) \<and>
    cq_list (put_frames True u frame_number q f cs) = cq_list q @ cs \<and>
    (cs \<noteq> [] \<longrightarrow> cq_first (put_frames True u frame_number q f cs) =
      (if cq_list q = [] then f else cq_first q))"
  using assms
proof (induction cs arbitrary: q f)
  case (Cons c cs)
  have grow: "rb_can_grow 16 True (cq_rb q)"
  proof (cases "cq_rb q")
    case (Some rb)
    then have ok: "rb_ok 16 rb"
      using Cons.prems(1) by (simp add: cq_ok_def rbp_ok_def)
    show ?thesis
      using Some rb_is_full_iff [OF ok] cq_count [OF Cons.prems(1)] Cons.prems(4)
      by (auto simp: rb_can_grow_def)
  qed (simp add: rb_can_grow_def)
  let ?q = "put_if_new True u frame_number q c f"
  have q: "?q = cmd_queue_put True u q c f"
    using Cons.prems(3) [of 0] by (simp add: put_if_new_def)
  note pw = cmd_queue_put_window [OF Cons.prems(1) grow, of u c f]
  have w: "cq_list ?q = cq_list q @ [c]" "cq_first ?q = (if cq_list q = [] then f else cq_first q)"
    using pw(2) Cons.prems(2) unfolding q by (auto simp: cq_window_def w_put_def split: if_splits)
  have "cq_ok (put_frames True u frame_number ?q (f + 1) cs) \<and>
    cq_list (put_frames True u frame_number ?q (f + 1) cs) = cq_list ?q @ cs \<and>
    (cs \<noteq> [] \<longrightarrow> cq_first (put_frames True u frame_number ?q (f + 1) cs) =
      (if cq_list ?q = [] then f + 1 else cq_first ?q))"
  proof (rule Cons.IH)
    show "cq_ok ?q"
      using pw(1) q by simp
    show "f + 1 = cq_first ?q + of_nat (length (cq_list ?q))"
      using w Cons.prems(2) by (auto simp: algebra_simps)
    show "u16_ge_wrap (f + 1 + of_nat i) frame_number" if "i < length cs" for i
      using Cons.prems(3) [of "Suc i"] that by (simp add: algebra_simps)
    show "length (cq_list ?q) + length cs \<le> 100"
      using w Cons.prems(4) by simp
  qed
  then show ?case
    using w by (cases cs) auto
qed simp

section \<open>Untrusted input\<close>

text \<open>Where skipping ends, without the check of the payload's length.\<close>

fun skip_to :: "8 word list \<Rightarrow> nat \<Rightarrow> nat \<Rightarrow> nat" where
  "skip_to pl 0 p = p"
| "skip_to pl (Suc n) p = skip_to pl n (p + (if bit_at pl p then 4 else 1))"

lemma skip_to_le: "p \<le> skip_to pl n p"
proof (induction n arbitrary: p)
  case (Suc n)
  show ?case
    using Suc.IH [of "p + (if bit_at pl p then 4 else 1)"] by simp
qed simp

lemma unpack_skip_to:
  "unpack_skip pl len n (p mod 8, p div 8) = Some s \<Longrightarrow>
   s = (skip_to pl n p mod 8, skip_to pl n p div 8)"
proof (induction n arbitrary: p)
  case (Suc n)
  let ?p = "p + (if bit_at pl p then 4 else 1)"
  have "unpack_skip pl len n (?p mod 8, ?p div 8) = Some s"
    using Suc.prems unfolding unpack_skip_step Let_def by (cases "p div 8 \<ge> len") simp_all
  then show ?case
    using Suc.IH [of ?p] by simp
qed simp

lemma unpack_skip_cong:
  assumes "\<And>i. i < len \<Longrightarrow> pl ! i = ql ! i"
  shows "unpack_skip pl len n s = unpack_skip ql len n s"
proof (induction n arbitrary: s)
  case (Suc n)
  then show ?case
    using assms by (cases s) (simp add: Let_def not_le)
qed simp

lemma read_action_at:
  "read_action pl a (p mod 8, p div 8) =
     (if bit_at pl p
      then ((if bit_at pl (Suc p) then 1 else 0) OR (if bit_at pl (Suc (Suc p)) then 2 else 0) OR
            (if bit_at pl (Suc (Suc (Suc p))) then 4 else 0), (p + 4) mod 8, (p + 4) div 8)
      else (a, (p + 1) mod 8, (p + 1) div 8))"
proof -
  have e: "p + 4 = Suc (Suc (Suc (Suc p)))" "p + 1 = Suc p"
    by simp_all
  show ?thesis
    unfolding read_action_def read_next_bit_pos prod.case e by (rule refl)
qed

lemma unpack_loop_cong:
  assumes "\<And>q. q < skip_to pl n p \<Longrightarrow> bit_at pl q = bit_at ql q"
    and "\<And>j. j < n \<Longrightarrow> pl ! (offset + i + j) = ql ! (offset + i + j)"
  shows "unpack_loop ok u fr first offset pl n i c q (p mod 8, p div 8) =
    unpack_loop ok u fr first offset ql n i c q (p mod 8, p div 8)"
  using assms
proof (induction n arbitrary: p i c q)
  case (Suc n)
  let ?p = "p + (if bit_at pl p then 4 else 1)"
  have le: "?p \<le> skip_to pl (Suc n) p"
    using skip_to_le [of ?p pl n] by simp
  have ra: "read_action pl a (p mod 8, p div 8) = read_action ql a (p mod 8, p div 8)" for a
  proof (cases "bit_at pl p")
    case True
    then have "p + 4 \<le> skip_to pl (Suc n) p"
      using le by simp
    then have "bit_at pl p = bit_at ql p" "bit_at pl (Suc p) = bit_at ql (Suc p)"
      "bit_at pl (Suc (Suc p)) = bit_at ql (Suc (Suc p))"
      "bit_at pl (Suc (Suc (Suc p))) = bit_at ql (Suc (Suc (Suc p)))"
      by (intro Suc.prems(1), linarith)+
    then show ?thesis
      unfolding read_action_at by (simp only:)
  next
    case False
    then have "p + 1 \<le> skip_to pl (Suc n) p"
      using le by simp
    then have "bit_at pl p = bit_at ql p"
      by (intro Suc.prems(1)) linarith
    with False show ?thesis
      unfolding read_action_at by (simp only: if_False)
  qed
  have "\<exists>a'. read_action pl (cmd_action c) (p mod 8, p div 8) = (a', ?p mod 8, ?p div 8)"
    unfolding read_action_at by (cases "bit_at pl p") (simp_all only: if_True if_False, auto)
  then obtain a' where a': "read_action pl (cmd_action c) (p mod 8, p div 8) = (a', ?p mod 8, ?p div 8)"
    by blast
  have "unpack_loop ok u fr first offset pl n (i + 1) c' q' (?p mod 8, ?p div 8) =
      unpack_loop ok u fr first offset ql n (i + 1) c' q' (?p mod 8, ?p div 8)" for c' q'
  proof (rule Suc.IH)
    show "bit_at pl x = bit_at ql x" if "x < skip_to pl n ?p" for x
      using that by (intro Suc.prems(1)) (simp only: skip_to.simps)
    show "pl ! (offset + (i + 1) + j) = ql ! (offset + (i + 1) + j)" if "j < n" for j
      using Suc.prems(2) [of "Suc j"] that by simp
  qed
  moreover have "pl ! (offset + i) = ql ! (offset + i)"
    using Suc.prems(2) [of 0] by simp
  ultimately show ?case
    unfolding unpack_loop.simps Let_def ra [symmetric] a' prod.case by simp
qed simp

text \<open>Unpacking reads no byte past the payload, whatever the bytes are.\<close>

lemma msg_commands_unpack_cong:
  assumes "6 \<le> unat len" "take (unat len) pl = take (unat len) ql"
  shows "msg_commands_unpack_into ok u q pl len fr = msg_commands_unpack_into ok u q ql len fr"
proof -
  let ?n = "unat len"
  have b: "pl ! i = ql ! i" if "i < ?n" for i
    using arg_cong [OF assms(2), of "\<lambda>l. l ! i"] that by simp
  have hdr: "pl ! 0 = ql ! 0" "pl ! 1 = ql ! 1" "pl ! 2 = ql ! 2" "pl ! 3 = ql ! 3" "pl ! 4 = ql ! 4"
    "pl ! 5 = ql ! 5"
    using b assms(1) by simp_all
  have skip: "unpack_skip pl ?n k s = unpack_skip ql ?n k s" for k s
    using b by (rule unpack_skip_cong)
  have loop: "unpack_loop ok u fr f off pl k 0 c q' (3, 5) = unpack_loop ok u fr f off ql k 0 c q' (3, 5)"
    if s: "unpack_skip ql ?n k (3, 5) = Some (bt, byte)"
      and off: "off = (if bt = 0 then byte else byte + 1)" "off + k \<le> ?n" for f off k c q' bt byte
  proof -
    let ?e = "skip_to pl k 43"
    have e: "bt = ?e mod 8" "byte = ?e div 8"
      using unpack_skip_to [of pl ?n k 43 "(bt, byte)"] s skip by simp_all
    have "?e \<le> 8 * off"
      unfolding off(1) e by presburger
    then have bits: "bit_at pl x = bit_at ql x" if "x < ?e" for x
    proof -
      have "x div 8 < off"
        using that \<open>?e \<le> 8 * off\<close> by (simp add: less_mult_imp_div_less mult.commute)
      then show ?thesis
        using b off(2) by (simp add: bit_at_def)
    qed
    have "unpack_loop ok u fr f off pl k 0 c q' (43 mod 8, 43 div 8) =
        unpack_loop ok u fr f off ql k 0 c q' (43 mod 8, 43 div 8)"
      using bits b off(2) by (intro unpack_loop_cong) simp_all
    then show ?thesis
      by simp
  qed
  show ?thesis
    unfolding msg_commands_unpack_into_def hdr skip Let_def
    using loop by (auto split: option.splits)
qed

section \<open>Long queues\<close>

lemma cmds_peeked_take:
  assumes "cq_ok q" "0 \<le> n" "n \<le> cmd_queue_count q"
  shows "cmds_peeked q n = take (nat n) (cq_list q)"
proof (cases "cq_rb q")
  case None
  then show ?thesis
    using assms by (simp add: cmds_peeked_def cmd_queue_count_def cq_list_def)
next
  case (Some rb)
  then have ok: "rb_ok 16 rb" and l: "cq_list q = rb_list rb"
    using assms(1) by (simp_all add: cq_ok_def rbp_ok_def cq_list_def rbp_list_def)
  have "[0..n - 1] = map int [0..<nat n]"
    using assms(2) by (intro nth_equalityI) simp_all
  then have "map (rb_peek rb) [0..n - 1] = map (\<lambda>i. rb_peek rb (int i)) [0..<nat n]"
    by (simp only: map_map comp_def)
  also have "\<dots> = take (nat n) (rb_list rb)"
    using assms(3) Some by (simp add: rb_list_def cmd_queue_count_def take_map)
  finally show ?thesis
    using Some l by (simp add: cmds_peeked_def)
qed

text \<open>What is sent for up to 100 commands and for up to 200.\<close>

lemma msg_commands_from_short:
  assumes "cq_ok q" "0 < length (cq_list q)" "length (cq_list q) \<le> 100"
  shows "msg_commands_from u q 0 f = [msg_commands_one u (cq_list q) f]"
proof -
  have c: "cmd_queue_count q = int (length (cq_list q))"
    using cq_count [OF assms(1)] by (simp add: cmd_queue_count_def)
  show ?thesis
    using assms c cmds_peeked_take [OF assms(1), of "int (length (cq_list q))"]
    by (simp add: msg_commands_from.simps [of u q 0 f] msg_commands_from.simps [of u q 100] Let_def)
qed

lemma msg_commands_from_long:
  assumes "cq_ok q" "100 < length (cq_list q)" "length (cq_list q) \<le> 200"
  shows "msg_commands_from u q 0 f =
    [msg_commands_one u (take 100 (cq_list q)) f,
     msg_commands_one u (take (length (cq_list q) - 100) (cq_list q)) (f + 100)]"
proof -
  have c: "cmd_queue_count q = int (length (cq_list q))"
    using cq_count [OF assms(1)] by (simp add: cmd_queue_count_def)
  have "cmds_peeked q 100 = take 100 (cq_list q)"
    "cmds_peeked q (int (length (cq_list q)) - 100) = take (length (cq_list q) - 100) (cq_list q)"
    using assms c cmds_peeked_take [OF assms(1), of 100]
      cmds_peeked_take [OF assms(1), of "int (length (cq_list q)) - 100"]
    by (simp_all add: nat_diff_distrib)
  moreover have "cq_list q \<noteq> []"
    using assms(2) by auto
  ultimately show ?thesis
    using assms c
    by (simp add: msg_commands_from.simps [of u q 0 f] msg_commands_from.simps [of u q 100]
        msg_commands_from.simps [of u q 200] Let_def)
qed

end
