(* ===== verification/Protocol_Laws.thy ===== *)
theory Protocol_Laws
  imports Wrap FixedPoint Hash Cmd CmdQueue Msg MsgCommands
begin

text \<open>
  What the arithmetic, the command queue and the messages promise: the order of frame
  numbers, rounding, hashing, the bounds on consecutive commands, the queue of commands as a
  window of frames, and the round trips and bounds of the protocol.
\<close>

section \<open>Arithmetic and hashing\<close>

text \<open>
  Frame numbers (\<open>wrap.h\<close>) compare by their distance however the counter wraps:
  inside any window of 32768 numbers the comparisons are those of the positions in the window,
  and the signed difference is the difference of the positions.
\<close>

lemma frame_order:
  assumes "i < 32768" "j < 32768"
  shows "(u16_gt_wrap (b + of_nat i) (b + of_nat j) \<longleftrightarrow> j < i) \<and>
    (u16_ge_wrap (b + of_nat i) (b + of_nat j) \<longleftrightarrow> j \<le> i) \<and>
    (u16_lt_wrap (b + of_nat i) (b + of_nat j) \<longleftrightarrow> i < j) \<and>
    (u16_le_wrap (b + of_nat i) (b + of_nat j) \<longleftrightarrow> i \<le> j) \<and>
    u16_sub_wrap (b + of_nat i) b = int i"
  using assms
  by (simp add: u16_lt_iff u16_le_iff u16.gt_offset u16.ge_offset u16_sub_wrap_offset)

text \<open>
  Fixed-point division and multiplication (\<open>q.h\<close>) round to a nearest value: while
  the quotient fits 32 bits it is within half a unit, for operands of any sign, and while the
  product fits 24 bits so is the product; a product that does not fit is saturated to 24 bits.
\<close>

lemma qw_rounds_to_nearest:
  assumes "b \<noteq> 0" "in_sx 32 (round_div (a * 16384) b)"
  shows "2 * \<bar>qw_div a b * b - a * 16384\<bar> \<le> \<bar>b\<bar> \<and>
    (qw24 ((a * b + 8192) div 16384) \<longrightarrow> 2 * \<bar>qw_mul a b * 16384 - a * b\<bar> \<le> 16384) \<and>
    qw24 (qw_mul a b)"
  using assms round_div_nearest [of b "a * 16384"] qw_mul_nearest [of a b] qw_mul_ok [of a b]
  by (simp add: qw_div_round sx_id)

text \<open>
  The hash of addresses and keys (\<open>hash32_jenkins_oaat\<close>) tells apart any two keys
  that differ in one byte: no single-byte change collides.
\<close>

lemma hash_detects_byte:
  assumes "i < nat len" "nat len \<le> length key" "b \<noteq> key ! i"
  shows "hash32_jenkins_oaat (key[i := b]) len \<noteq> hash32_jenkins_oaat key len"
  by (rule oaat_byte [OF assms])

section \<open>Commands\<close>

text \<open>
  Two consecutive commands never differ by more than the 3 and 5 bits that the
  protocol has for the changes (\<open>cmd_make\<close>): at most 3 steps of the angle around the circle
  and 15 of the speed. Repeating an input brings the speed 15 closer, until it is reached.
\<close>

lemma cmd_make_bounded:
  "\<bar>angle_delta (cmd_angle prev) (cmd_angle (cmd_make prev radians speed action))\<bar> \<le> 3 \<and>
   \<bar>uint (cmd_speed (cmd_make prev radians speed action)) - uint (cmd_speed prev)\<bar> \<le> 15 \<and>
   \<bar>uint new - uint (cmd_follow_speed v new)\<bar> = max 0 (\<bar>uint new - uint v\<bar> - 15)"
  using cmd_make_delta_ok [of prev radians speed action] cmd_follow_speed_progress [of new v]
  by (simp add: cmd_delta_ok_def)

text \<open>
  Claim C17. While its ring can grow when it is full, the command queue implements a window of
  commands for consecutive frames: put accepts the next frame only, or any frame into an empty
  queue, and changes nothing otherwise; taking a frame drops what is older and yields the command
  of that frame; for a frame before the window it yields the last command that was taken and drops
  nothing, for a frame behind it the newest command, or when the window is empty the last one that
  was taken, and drops everything. Looking a command up yields the same command as taking it.
\<close>

theorem cmd_queue_refines_window:
  assumes "cq_ok q" "rb_can_grow 16 ok (cq_rb q)"
  shows "cq_window (cmd_queue_put ok u q c f) = w_put (cq_window q) c f \<and>
    cq_ok (cmd_queue_put ok u q c f) \<and>
    fst (cmd_queue_take_or_predict q f) = w_predict (cq_window q) f \<and>
    cq_window (snd (cmd_queue_take_or_predict q f)) = w_take (cq_window q) f \<and>
    cq_ok (snd (cmd_queue_take_or_predict q f)) \<and>
    cmd_queue_find_or_predict q f = w_predict (cq_window q) f"
  by (intro conjI cmd_queue_put_window [OF assms] cmd_queue_take_window [OF assms(1)]
      cmd_queue_find_window [OF assms(1)])

section \<open>Messages\<close>

lemma msg_unread:
  "msg_parse (msg_leave u) = Inr P_none" "msg_parse (msg_snake_destroy u sid) = Inr P_none"
  "msg_parse (msg_snake_destroy_ack u sid) = Inr P_none"
  by (simp_all add: msg_parse_def msg_parse_payload_def msg_leave_def msg_snake_destroy_def msg_snake_destroy_ack_def Let_def)

lemma string_payload_parse:
  assumes "0 \<notin> set error" "length error \<le> 253"
    and "t \<in> {MSG_JOIN_DENY_BAD_PROTOCOL, MSG_JOIN_DENY_BAD_USERNAME, MSG_JOIN_DENY_SERVER_FULL}"
  shows "\<exists>m. msg_alloc_string_payload u t 0 error = Some m \<and> msg_parse m = Inr (P_join_deny error)"
proof -
  let ?n = "length error"
  let ?bs = "word_of_nat ?n # error @ [0]"
  obtain m where m: "msg_alloc_string_payload u t 0 error = Some m" "m_type m = t"
    "m_payload_len m = word_of_nat (2 + ?n)" "m_payload m = ?bs @ drop (length ?bs) (map u [0..<255])"
    using assms(2)
    by (simp add: msg_alloc_string_payload_def MSG_BUFFER_def Let_def msg_put_def write_bytes_def msg_alloc_def add.commute)
  have n: "unat (word_of_nat ?n :: 8 word) = ?n" "uint (word_of_nat ?n :: 8 word) = int ?n"
    using assms(2) by (simp_all add: unat_byte uint_nat)
  have l: "unat (m_payload_len m) = 2 + ?n"
    unfolding m(3) by (rule unat_byte) (use assms(2) in simp)
  then have ln: "uint (m_payload_len m) = 2 + int ?n"
    by (simp only: uint_nat l of_nat_add of_nat_numeral)
  have at: "m_payload m ! 0 = word_of_nat ?n" "m_payload m ! (1 + ?n) = 0"
    unfolding m(4) by (simp_all add: nth_append)
  have str: "c_string (drop 1 (take (unat (m_payload_len m)) (m_payload m))) = error"
    unfolding l m(4) using c_string_prefix [OF assms(1), of "[]"] by simp
  have type: "msg_type_of (msg_code (m_type m)) = Some t"
    using m(2) by simp
  have "msg_parse m = Inr (P_join_deny error)"
    unfolding msg_parse_def msg_parse_payload_def Let_def type
    using assms(3) n(2) ln at str [simplified] by (elim insertE emptyE) (simp_all add: n(1))
  with m(1) show ?thesis by blast
qed

text \<open>
  Claim C29. Of the messages other than those with commands or food, each comes back from
  \<open>msg_parse_payload\<close> as it was given to its constructor, for positions of 24 bits, angles of 16
  bits, differences of 8 bits, indices of handles below 32768, names of 1 to 249 bytes and reasons
  of at most 253 bytes without a zero: from the client the join request and the acknowledgement of
  a part of a curve, from the server the join accept, the three refusals, the feedback, the head
  and the parts of a curve. Leaving, and removing a snake and its acknowledgement, are only
  recognised: the parser does not read the id they carry.
\<close>

theorem msg_roundtrip:
  assumes "qwpos24 pos" "in_sx 8 diff" "qwpos24 (sh_pos h)" "in_sx 16 (sh_angle h)"
    and "qwpos24 (bh_pos b)" "in_sx 16 (bh_angle b)" "idx < 0x8000"
    and "0 \<notin> set name" "name \<noteq> []" "length name \<le> 249" "0 \<notin> set error" "length error \<le> 253"
  shows "msg_parse (msg_join_accept u sim net cf sf sid pos) = Inr (P_join_accept pos sid cf sf sim net) \<and>
    msg_parse (msg_feedback u diff f) = Inr (P_feedback f diff) \<and>
    msg_parse (msg_snake_head u h f) = Inr (P_snake_head h f) \<and>
    msg_parse (msg_snake_bezier u sid idx b) =
      Inr (P_snake_bezier (bh_pos b) sid (bh_angle b) (uint idx) (bh_len_backwards b) (bh_len_forwards b)) \<and>
    msg_parse (msg_snake_bezier_ack u idx') = Inr (P_snake_bezier_ack idx') \<and>
    map_option msg_parse (msg_join_request u protocol f name) =
      Some (Inr (P_join_request name protocol f (word_of_nat (length name)))) \<and>
    (\<forall>deny \<in> {msg_join_deny_bad_protocol, msg_join_deny_bad_username, msg_join_deny_server_full}.
       map_option msg_parse (deny u error) = Some (Inr (P_join_deny error))) \<and>
    msg_parse (msg_leave u) = Inr P_none \<and> msg_parse (msg_snake_destroy u sid) = Inr P_none \<and>
    msg_parse (msg_snake_destroy_ack u sid) = Inr P_none"
proof (intro conjI)
  show "map_option msg_parse (msg_join_request u protocol f name) =
      Some (Inr (P_join_request name protocol f (word_of_nat (length name))))"
    using msg_join_request_parse [OF assms(8-10), of u protocol f] by auto
  have "map_option msg_parse (msg_alloc_string_payload u t 0 error) = Some (Inr (P_join_deny error))"
    if "t \<in> {MSG_JOIN_DENY_BAD_PROTOCOL, MSG_JOIN_DENY_BAD_USERNAME, MSG_JOIN_DENY_SERVER_FULL}" for t
    using string_payload_parse [OF assms(11,12) that, of u] by auto
  then show "\<forall>deny \<in> {msg_join_deny_bad_protocol, msg_join_deny_bad_username, msg_join_deny_server_full}.
      map_option msg_parse (deny u error) = Some (Inr (P_join_deny error))"
    by (simp add: msg_join_deny_bad_protocol_def msg_join_deny_bad_username_def msg_join_deny_server_full_def)
qed (rule msg_join_accept_parse msg_feedback_parse msg_snake_head_parse msg_snake_bezier_parse
    msg_snake_bezier_ack_parse msg_unread; fact assms)+

definition demo_head :: snake_head where
  "demo_head = \<lparr>sh_pos = \<lparr>px = -8388608, py = 8388607\<rparr>, sh_angle = -12867, sh_speed = 200\<rparr>"

definition demo_handle :: bezier_handle where
  "demo_handle = \<lparr>bh_pos = \<lparr>px = -1, py = 70000\<rparr>, bh_angle = 12866, bh_len_backwards = 3, bh_len_forwards = 255\<rparr>"

theorem msg_roundtrip_witness:
  "msg_parse (msg_snake_head (\<lambda>_. 0) demo_head 65535) = Inr (P_snake_head demo_head 65535) \<and>
   map_option msg_parse (msg_join_deny_server_full (\<lambda>_. 0) [66, 67]) = Some (Inr (P_join_deny [66, 67]))"
proof -
  have "qwpos24 (sh_pos demo_head)" "in_sx 16 (sh_angle demo_head)" "in_sx 8 0"
    "qwpos24 (bh_pos demo_handle)" "in_sx 16 (bh_angle demo_handle)"
    by (simp_all add: qwpos24_def qw24_def in_sx_16 in_sx_8 demo_head_def demo_handle_def)
  then show ?thesis
    using msg_roundtrip [where pos = "sh_pos demo_head" and diff = 0 and h = demo_head and b = demo_handle and idx = 0
        and name = "[65]" and error = "[66, 67]" and u = "\<lambda>_. 0" and f = 65535] by simp
qed

text \<open>
  A name of 1 to 249 bytes in the join request comes back from the parser; a longer
  one is written past the 255 bytes of the message's payload.
\<close>

lemma join_request_roundtrip:
  assumes "0 \<notin> set name" "name \<noteq> []"
  shows "if length name \<le> 249
    then \<exists>m. msg_join_request u proto f name = Some m \<and>
           msg_parse m = Inr (P_join_request name proto f (word_of_nat (length name)))
    else msg_join_request u proto f name = None"
  using msg_join_request_parse [OF assms, of u proto f] msg_join_request_overflow [of name u proto f]
  by simp

text \<open>
  Claim C27. Parsing reads nothing past the payload that was received, whatever its type and bytes:
  two buffers that agree on the first \<open>len\<close> bytes parse alike, and from six bytes on the commands
  are unpacked alike.
\<close>

theorem parse_stays_in_payload:
  assumes "take (unat len) p = take (unat len) p'"
  shows "msg_parse_payload type p len = msg_parse_payload type p' len \<and>
    (6 \<le> unat len \<longrightarrow>
      msg_commands_unpack_into ok u q p len f = msg_commands_unpack_into ok u q p' len f)"
  using msg_parse_payload_bounds [OF assms] msg_commands_unpack_cong [OF _ assms] by blast

theorem parse_stays_in_payload_witness:
  "msg_parse_payload 3 [1, 2, 3, 4, 5, 6, 7] 6 = msg_parse_payload 3 [1, 2, 3, 4, 5, 6, 99] 6"
  using parse_stays_in_payload [of 6 "[1, 2, 3, 4, 5, 6, 7]" "[1, 2, 3, 4, 5, 6, 99]"] by simp

section \<open>The commands message\<close>

text \<open>
  Claim C20. Up to 100 commands, each within the bounds of \<open>cmd_make\<close> from the one before, are
  packed into one message of at most 155 bytes, and unpacking it puts every command, exactly, into
  the receiver's queue under its own frame number, those older than the current frame left out. The
  packing has one or four bits and one byte per command.
\<close>

theorem commands_roundtrip:
  assumes "cs \<noteq> []" "length cs \<le> 100" "deltas_ok (hd cs) (tl cs)"
  shows "msg_commands_unpack_into ok u q (m_payload (msg_commands_one ub cs f))
      (m_payload_len (msg_commands_one ub cs f)) now =
    (0, put_frames ok u now q f cs, f, f + word_of_nat (length cs - 1)) \<and>
    unat (m_payload_len (msg_commands_one ub cs f)) \<le> 155"
  using msg_commands_roundtrip [OF assms] msg_commands_one_layout(5) [OF assms(1,2), of ub f]
    commands_offset_bounds [OF assms(1,2)]
  by simp

definition demo_cmds :: "cmd list" where
  "demo_cmds = [\<lparr>cmd_angle = 254, cmd_speed = 0, cmd_action = 0\<rparr>,
     \<lparr>cmd_angle = 1, cmd_speed = 15, cmd_action = 0\<rparr>, \<lparr>cmd_angle = 0, cmd_speed = 20, cmd_action = 5\<rparr>]"

lemma demo_cmds_ok: "demo_cmds \<noteq> []" "length demo_cmds \<le> 100" "deltas_ok (hd demo_cmds) (tl demo_cmds)"
  by (simp_all add: demo_cmds_def cmd_delta_ok_def angle_delta_def sx_8)

theorem commands_roundtrip_witness:
  "msg_commands_unpack_into True (\<lambda>_. cmd_default) cmd_queue_init
     (m_payload (msg_commands_one (\<lambda>_. 0) demo_cmds 65534))
     (m_payload_len (msg_commands_one (\<lambda>_. 0) demo_cmds 65534)) 65534 =
   (0, put_frames True (\<lambda>_. cmd_default) 65534 cmd_queue_init 65534 demo_cmds, 65534, 0)"
proof -
  have "(65534 :: 16 word) + word_of_nat (length demo_cmds - 1) = 0"
    by (simp add: demo_cmds_def)
  then show ?thesis
    using commands_roundtrip [OF demo_cmds_ok, of True "\<lambda>_. cmd_default" cmd_queue_init "\<lambda>_. 0" 65534 65534]
    by simp
qed

text \<open>
  Claim C4. From the client to the server: what a client's queue of 1 to 100 commands sends is one
  message, and it arrives in the server's empty queue as the same list of commands, starting at the
  same frame. The commands must be such that each differs from the one before by what the 3 and 5
  bits of the protocol can say, which holds for those that \<open>cmd_make\<close> makes, and none of their
  frames may be older than the server's frame in the order of 16-bit frame numbers; memory is taken
  to be available.
\<close>

theorem commands_delivered:
  assumes "cq_ok q" "cq_list q \<noteq> []" "length (cq_list q) \<le> 100"
    and "deltas_ok (hd (cq_list q)) (tl (cq_list q))"
    and "cq_ok s" "cq_list s = []"
    and "\<And>i. i < length (cq_list q) \<Longrightarrow> u16_ge_wrap (cq_first q + of_nat i) now"
  shows "\<exists>m s'. msg_commands_from ub q 0 (cmd_queue_frame_begin q) = [m] \<and>
    msg_commands_unpack_into True u s (m_payload m) (m_payload_len m) now =
      (0, s', cq_first q, cq_first q + word_of_nat (length (cq_list q) - 1)) \<and>
    cq_ok s' \<and> cq_list s' = cq_list q \<and> cq_first s' = cq_first q"
proof -
  have "0 < length (cq_list q)"
    using assms(2) by simp
  note one = msg_commands_from_short [OF assms(1) this assms(3), of ub "cq_first q"]
  note rt = msg_commands_roundtrip [OF assms(2-4), of True u s ub "cq_first q" now]
  have "cq_ok (put_frames True u now s (cq_first q) (cq_list q)) \<and>
      cq_list (put_frames True u now s (cq_first q) (cq_list q)) = cq_list s @ cq_list q \<and>
      (cq_list q \<noteq> [] \<longrightarrow> cq_first (put_frames True u now s (cq_first q) (cq_list q)) =
        (if cq_list s = [] then cq_first q else cq_first s))"
    using assms by (intro put_frames_append) simp_all
  with one rt assms(2,6) show ?thesis
    by (simp add: cmd_queue_frame_begin_def)
qed

definition demo_cq :: cmd_queue where
  "demo_cq = \<lparr>cq_rb = Some \<lparr>rb_read = 0, rb_write = 3, rb_capacity = 4, rb_data = demo_cmds @ [cmd_default]\<rparr>,
     cq_last = cmd_default, cq_first = 65534\<rparr>"

lemma demo_cq_ok: "cq_ok demo_cq" "cq_list demo_cq = demo_cmds"
proof -
  show "cq_ok demo_cq"
    unfolding cq_ok_def rbp_ok_def demo_cq_def cmd_queue.simps option.case rb_ok_def
    by (rule conjI, rule exI [of _ 2]) (simp_all add: demo_cmds_def)
  show "cq_list demo_cq = demo_cmds"
    by (simp add: cq_list_def demo_cq_def rbp_list_def rb_list_def rb_count_def rb_peek_def demo_cmds_def
        upt_rec)
qed

text \<open>Taking the second of three frames, and looking up one that is older.\<close>

theorem cmd_queue_refines_window_witness:
  "fst (cmd_queue_take_or_predict demo_cq 65535) = demo_cmds ! 1 \<and>
   cq_list (snd (cmd_queue_take_or_predict demo_cq 65535)) = drop 2 demo_cmds \<and>
   cmd_queue_find_or_predict demo_cq 65533 = cmd_default \<and>
   cq_list (cmd_queue_put True (\<lambda>_. cmd_default) demo_cq cmd_default 2) = demo_cmds"
proof -
  have g: "rb_can_grow 16 True (cq_rb demo_cq)"
    by (simp add: rb_can_grow_def demo_cq_def)
  have w: "cq_window demo_cq = \<lparr>w_first = 65534, w_cmds = demo_cmds, w_last = cmd_default\<rparr>"
    using demo_cq_ok(2) by (simp add: cq_window_def demo_cq_def)
  note r = cmd_queue_refines_window [OF demo_cq_ok(1) g, where u = "\<lambda>_. cmd_default" and c = cmd_default and f = 2, unfolded w]
    cmd_queue_refines_window [OF demo_cq_ok(1) g, where f = 65535, unfolded w]
    cmd_queue_refines_window [OF demo_cq_ok(1) g, where f = 65533, unfolded w]
  show ?thesis
    using r by (simp add: w_put_def w_take_def w_predict_def w_offset_def cq_window_def demo_cmds_def u16_lt_wrap_def u16_ge_wrap_def Let_def)
qed

theorem commands_delivered_witness:
  "\<exists>m s'. msg_commands_from (\<lambda>_. 0) demo_cq 0 65534 = [m] \<and> cq_list s' = demo_cmds \<and>
     msg_commands_unpack_into True (\<lambda>_. cmd_default) cmd_queue_init (m_payload m) (m_payload_len m) 65534 =
       (0, s', 65534, 0)"
proof -
  have ge: "u16_ge_wrap (65534 + of_nat i) 65534" if "i < length demo_cmds" for i
    using that u16.ge_offset [of i 0 65534] by (simp add: demo_cmds_def)
  have f: "cq_first demo_cq = 65534" "(65534 :: 16 word) + word_of_nat (length demo_cmds - 1) = 0"
    by (simp_all add: demo_cq_def demo_cmds_def)
  show ?thesis
    using commands_delivered [of demo_cq cmd_queue_init 65534 "\<lambda>_. 0" "\<lambda>_. cmd_default"]
      demo_cq_ok demo_cmds_ok cmd_queue_init_ok ge f
    by (auto simp: cmd_queue_frame_begin_def)
qed

text \<open>
  With more than 100 commands in the queue (up to 200 here) the second message does
  not carry the commands from the hundredth on: the loop peeks from the start of the queue
  again, so it sends the first commands a second time, under the frame numbers of the later
  ones.
\<close>

lemma long_queue_repeats_commands:
  assumes "cq_ok q" "100 < length (cq_list q)" "length (cq_list q) \<le> 200"
  shows "msg_commands_from u q 0 f =
    [msg_commands_one u (take 100 (cq_list q)) f,
     msg_commands_one u (take (length (cq_list q) - 100) (cq_list q)) (f + 100)]"
  by (rule msg_commands_from_long [OF assms])

definition demo_long :: cmd_queue where
  "demo_long = \<lparr>cq_rb = Some \<lparr>rb_read = 0, rb_write = 101, rb_capacity = 128,
       rb_data = map (\<lambda>i. cmd_default\<lparr>cmd_speed := word_of_nat i\<rparr>) [0..<128]\<rparr>,
     cq_last = cmd_default, cq_first = 0\<rparr>"

end
