(* ===== verification/SnakeParam.thy ===== *)
theory SnakeParam
  imports FixedPoint
begin

text \<open>
  The parameters of a snake (src/snake_param.c): what it has eaten and its upgrades determine
  its turning speed, scale and length.
\<close>

record snake_upgrades =
  up_boost :: "2 word"
  up_projectile :: "2 word"
  up_turn :: "1 word"
  up_armor :: "1 word"
  up_gather :: "1 word"

record base_stats =
  bs_turn_speed :: qa
  bs_min_speed :: qw
  bs_max_speed :: qw
  bs_boost_speed :: qw
  bs_acceleration :: "8 word"

record cached_stats =
  cs_turn_speed :: qa
  cs_min_speed :: qw
  cs_max_speed :: qw
  cs_boost_speed :: qw
  cs_scale :: qw
  cs_length :: qw
  cs_acceleration :: "8 word"

record snake_param =
  sp_food_eaten :: "32 word"
  sp_base :: base_stats
  sp_cached :: cached_stats
  sp_upgrades :: snake_upgrades

text \<open>The macro \<open>make_qw2\<close> at an unsigned value multiplies and divides without a sign.\<close>

definition make_qw2_u :: "32 word \<Rightarrow> 32 word \<Rightarrow> qw" where
  "make_qw2_u v d = i32 (uint (v * 16384 div d))"

definition snake_param_update :: "snake_param \<Rightarrow> snake_upgrades \<Rightarrow> 32 word \<Rightarrow> snake_param" where
  "snake_param_update param upgrades food_eaten =
     (let degrade_scale = 1024;
          food = i32 (uint food_eaten);
          degrade_fac = make_qa2 degrade_scale (if food > degrade_scale then food else degrade_scale);
          modified = qa_mul (bs_turn_speed (sp_base param)) degrade_fac;
          upgrade = make_qa (uint (up_turn upgrades));
          min_turn_speed = make_qa2 1 64;
          modified = (if modified < min_turn_speed then min_turn_speed else modified)
      in param\<lparr>sp_upgrades := upgrades, sp_food_eaten := food_eaten,
           sp_cached := \<lparr>cs_turn_speed = qa_add modified upgrade,
             cs_min_speed = bs_min_speed (sp_base param),
             cs_max_speed = bs_max_speed (sp_base param),
             cs_boost_speed = bs_boost_speed (sp_base param),
             cs_scale = qw_add (make_qw 1) (make_qw2_u food_eaten (1024 * 4)),
             cs_length = make_qw2_u food_eaten 128,
             cs_acceleration = bs_acceleration (sp_base param)\<rparr>\<rparr>)"

text \<open>\<open>uninit\<close> is what the structure holds before.\<close>

definition snake_param_init :: "snake_param \<Rightarrow> snake_param" where
  "snake_param_init uninit =
     (let param = uninit\<lparr>sp_food_eaten := 40,
            sp_base := \<lparr>bs_turn_speed = make_qa2 1 16, bs_min_speed = make_qw2 1 96,
              bs_max_speed = make_qw2 1 48, bs_boost_speed = make_qw2 1 16, bs_acceleration = 8\<rparr>,
            sp_upgrades := \<lparr>up_boost = 0, up_projectile = 0, up_turn = 0, up_armor = 0, up_gather = 0\<rparr>\<rparr>
      in snake_param_update param (sp_upgrades param) (sp_food_eaten param))"

definition snake_scale :: "snake_param \<Rightarrow> qw" where
  "snake_scale param = cs_scale (sp_cached param)"

definition snake_length :: "snake_param \<Rightarrow> qw" where
  "snake_length param = cs_length (sp_cached param)"

definition snake_turn_speed :: "snake_param \<Rightarrow> qa" where
  "snake_turn_speed param = cs_turn_speed (sp_cached param)"

definition snake_boost_speed :: "snake_param \<Rightarrow> qw" where
  "snake_boost_speed param = cs_boost_speed (sp_cached param)"

definition snake_min_speed :: "snake_param \<Rightarrow> qw" where
  "snake_min_speed param = cs_min_speed (sp_cached param)"

definition snake_max_speed :: "snake_param \<Rightarrow> qw" where
  "snake_max_speed param = cs_max_speed (sp_cached param)"

definition snake_acceleration :: "snake_param \<Rightarrow> 8 word" where
  "snake_acceleration param = cs_acceleration (sp_cached param)"

section \<open>Ranges\<close>

text \<open>
  Parameters that were initialised and then only updated: the base values are those of
  \<open>snake_param_init\<close>, the others are computed from what was eaten.
\<close>

definition param_ok :: "snake_param \<Rightarrow> bool" where
  "param_ok p \<longleftrightarrow>
     sp_base p = \<lparr>bs_turn_speed = 256, bs_min_speed = 170, bs_max_speed = 341, bs_boost_speed = 1024,
                  bs_acceleration = 8\<rparr> \<and>
     snake_min_speed p = 170 \<and> snake_max_speed p = 341 \<and> snake_boost_speed p = 1024 \<and>
     snake_acceleration p = 8 \<and>
     snake_length p = uint (sp_food_eaten p * 16384) div 128 \<and>
     snake_scale p = 16384 + uint (sp_food_eaten p * 16384) div 4096 \<and>
     (if up_turn (sp_upgrades p) = 0 then 64 \<le> snake_turn_speed p \<and> snake_turn_speed p \<le> 256
      else 4160 \<le> snake_turn_speed p \<and> snake_turn_speed p \<le> 4352)"

lemma uint32_bound: "0 \<le> uint (w :: 32 word)" "uint (w :: 32 word) < 4294967296"
  using uint_lt2p [of w] by simp_all

lemma make_qw2_u_div:
  assumes "d = 128 \<or> d = 4096"
  shows "make_qw2_u v d = uint (v * 16384) div uint d"
proof -
  have "uint (v * 16384 div d) = uint (v * 16384) div uint d"
    by (simp add: uint_div)
  moreover have "uint (v * 16384) div uint d < 2147483648" "0 \<le> uint (v * 16384) div uint d"
    using assms uint32_bound [of "v * 16384"] by (auto simp: pos_imp_zdiv_nonneg_iff)
  ultimately show ?thesis
    unfolding make_qw2_u_def by (simp only: i32_id)
qed

lemma degraded_turn_speed:
  assumes "1024 \<le> f" "f < 2147483648"
  shows "0 \<le> qa_mul 256 (make_qa2 1024 f) \<and> qa_mul 256 (make_qa2 1024 f) \<le> 256"
proof -
  have b: "0 \<le> 4194304 div f" "4194304 div f \<le> 4096"
    using assms zdiv_mono2 [of 4194304 1024 f] by (simp_all add: pos_imp_zdiv_nonneg_iff)
  have m: "make_qa2 1024 f = 4194304 div f"
    using assms b by (simp add: make_qa2_def i32_id i16_id)
  have "0 \<le> (256 * (4194304 div f) + 2048) div 4096" "(256 * (4194304 div f) + 2048) div 4096 \<le> 256"
    using b by (simp_all add: pos_imp_zdiv_nonneg_iff)
  then show ?thesis
    by (simp add: m qa_mul_def qa_sat16_def i16_id)
qed

lemma snake_param_update_ok:
  assumes "param_ok p"
  shows "param_ok (snake_param_update p up food) \<and>
    sp_food_eaten (snake_param_update p up food) = food \<and> sp_upgrades (snake_param_update p up food) = up"
proof -
  let ?f = "if i32 (uint food) > 1024 then i32 (uint food) else 1024"
  have "in_sx 32 (i32 (uint food))"
    by simp
  then have f: "1024 \<le> ?f" "?f < 2147483648"
    by (auto simp: in_sx_32)
  note d = degraded_turn_speed [OF f]
  have "0 \<le> uint (up_turn up)" "uint (up_turn up) < 2"
    using uint_lt2p [of "up_turn up"] by simp_all
  then have "uint (up_turn up) = 0 \<or> uint (up_turn up) = 1"
    by linarith
  then have one: "up_turn up = 0 \<or> up_turn up = 1"
    by (auto simp: word_uint_eq_iff)
  have scale: "qw_add (make_qw 1) (make_qw2_u food 4096) = 16384 + uint (food * 16384) div 4096"
  proof -
    have "0 \<le> uint (food * 16384) div 4096" "uint (food * 16384) div 4096 < 1048576"
      using uint32_bound [of "food * 16384"] by (auto simp: pos_imp_zdiv_nonneg_iff)
    then have "i32 (16384 + uint (food * 16384) div 4096) = 16384 + uint (food * 16384) div 4096"
      by (intro i32_id) linarith+
    then show ?thesis
      using make_qw2_u_div [of 4096 food] by (simp add: qw_add_def make_qw_def i32_id)
  qed
  have len: "make_qw2_u food 128 = uint (food * 16384) div 128"
    using make_qw2_u_div [of 128 food] by simp
  have b: "bs_turn_speed (sp_base p) = 256" "make_qa2 1 64 = 64" "make_qa 1 = 4096" "make_qa 0 = 0"
    using assms by (simp_all add: param_ok_def make_qa2_def make_qa_def i32_id i16_id)
  have a: "qa_add x 0 = x" "qa_add x 4096 = x + 4096" if "0 \<le> x" "x \<le> 256" for x
    using that by (simp_all add: qa_add_def qa_wrapvalue_def QA_PI_def i16_id)
  have t: "64 \<le> max 64 (qa_mul 256 (make_qa2 1024 ?f)) \<and> max 64 (qa_mul 256 (make_qa2 1024 ?f)) \<le> 256"
    using d by simp
  have m: "(if x < 64 then 64 else x) = max 64 x" for x :: int
    by simp
  show ?thesis
    using assms one d t
    unfolding param_ok_def snake_param_update_def Let_def
    by (auto simp: snake_length_def snake_scale_def snake_turn_speed_def snake_boost_speed_def
        snake_min_speed_def snake_max_speed_def snake_acceleration_def scale len b m a)
qed

lemma snake_param_init_ok: "param_ok (snake_param_init p)"
proof -
  have "i32 (uint (40 :: 32 word)) = 40"
    by (simp add: i32_id)
  moreover have "uint (40 * 16384 :: 32 word) = 655360"
    by simp
  ultimately show ?thesis
    using make_qw2_u_div [of 4096 40] make_qw2_u_div [of 128 40]
    unfolding param_ok_def snake_param_init_def snake_param_update_def Let_def
    by (simp add: snake_length_def snake_scale_def snake_turn_speed_def snake_boost_speed_def
        snake_min_speed_def snake_max_speed_def snake_acceleration_def make_qa2_def make_qa_def make_qw2_def
        make_qw_def qw_add_def i32_id i16_id qa_mul_def qa_sat16_def qa_add_def qa_wrapvalue_def QA_PI_def)
qed

text \<open>The length never gets near the limit of the type.\<close>

lemma param_ok_length: "param_ok p \<Longrightarrow> 0 \<le> snake_length p \<and> snake_length p < 33554432"
  using uint32_bound [of "sp_food_eaten p * 16384"] by (auto simp: param_ok_def pos_imp_zdiv_nonneg_iff)

text \<open>A concrete instance for the examples.\<close>

definition demo_param :: snake_param where
  "demo_param = snake_param_init
     \<lparr>sp_food_eaten = 0,
      sp_base = \<lparr>bs_turn_speed = 0, bs_min_speed = 0, bs_max_speed = 0, bs_boost_speed = 0, bs_acceleration = 0\<rparr>,
      sp_cached = \<lparr>cs_turn_speed = 0, cs_min_speed = 0, cs_max_speed = 0, cs_boost_speed = 0, cs_scale = 0,
        cs_length = 0, cs_acceleration = 0\<rparr>,
      sp_upgrades = \<lparr>up_boost = 0, up_projectile = 0, up_turn = 0, up_armor = 0, up_gather = 0\<rparr>\<rparr>"

lemma demo_param_ok: "param_ok demo_param"
  by (simp add: demo_param_def snake_param_init_ok)

end
