(* ===== verification/Bezier.thy ===== *)
theory Bezier
  imports Model_Types Rb Vec
begin

text \<open>
  The curve of a snake (src/bezier.c): coefficients of a segment, its bounding box, the
  fit of a segment to the trail of the head and the sampling of the curve at equal
  distances. An array of four coefficients is a list.
\<close>

section \<open>Segments\<close>

definition bezier_handle_init :: "qwpos \<Rightarrow> qa \<Rightarrow> bezier_handle" where
  "bezier_handle_init pos angle =
     \<lparr>bh_pos = pos, bh_angle = angle, bh_len_backwards = 0, bh_len_forwards = 0\<rparr>"

text \<open>The coefficients of a segment, with \<open>off\<close> moved to the origin.\<close>

definition calc_coeff_axis :: "qw \<Rightarrow> qw \<Rightarrow> qw \<Rightarrow> qw \<Rightarrow> int list" where
  "calc_coeff_axis p0 p1 p2 p3 =
     (let x03 = i32 (3 * p0); x13 = i32 (3 * p1); x16 = i32 (6 * p1); x23 = i32 (3 * p2)
      in [p0, qw_sub x13 x03, qw_sub (qw_add x03 x23) x16, qw_sub (qw_sub (qw_add x13 p3) x23) p0])"

definition calc_coeff :: "libm \<Rightarrow> bezier_handle \<Rightarrow> bezier_handle \<Rightarrow> qwpos \<Rightarrow> int list \<times> int list" where
  "calc_coeff L head tail off =
     (let p0 = make_qwposqw (qw_sub (px (bh_pos head)) (px off)) (qw_sub (py (bh_pos head)) (py off));
          p3 = make_qwposqw (qw_sub (px (bh_pos tail)) (px off)) (qw_sub (py (bh_pos tail)) (py off));
          p1 = make_qwposqw
            (qw_add (px p0) (i32 (qw_rescale (qa_cos L (bh_angle head)) (uint (bh_len_backwards head)) 255)))
            (qw_add (py p0) (i32 (qw_rescale (qa_sin L (bh_angle head)) (uint (bh_len_backwards head)) 255)));
          p2 = make_qwposqw
            (qw_sub (px p3) (i32 (qw_rescale (qa_cos L (bh_angle tail)) (uint (bh_len_forwards tail)) 255)))
            (qw_sub (py p3) (i32 (qw_rescale (qa_sin L (bh_angle tail)) (uint (bh_len_forwards tail)) 255)))
      in (calc_coeff_axis (px p0) (px p1) (px p2) (px p3), calc_coeff_axis (py p0) (py p1) (py p2) (py p3)))"

text \<open>Position on one axis at \<open>t\<close>, from the powers of \<open>t\<close>.\<close>

definition bezier_axis :: "int list \<Rightarrow> qw \<Rightarrow> qw \<Rightarrow> qw \<Rightarrow> qw" where
  "bezier_axis A t t2 t3 =
     qw_add (qw_add (qw_add (A ! 0) (qw_mul (A ! 1) t)) (qw_mul (A ! 2) t2)) (qw_mul (A ! 3) t3)"

definition bezier_xy :: "int list \<Rightarrow> int list \<Rightarrow> qw \<Rightarrow> qwpos" where
  "bezier_xy Ax Ay t =
     (let t2 = qw_mul t t; t3 = qw_mul t t2
      in make_qwposqw (bezier_axis Ax t t2 t3) (bezier_axis Ay t t2 t3))"

section \<open>Bounding box of a segment\<close>

text \<open>The ends of the segment on an axis, widened by an extremum at \<open>t\<close>.\<close>

definition aabb_include :: "int list \<Rightarrow> qw \<Rightarrow> qw \<times> qw \<Rightarrow> qw \<times> qw" where
  "aabb_include A t lu =
     (case lu of (l, h) \<Rightarrow>
        if t \<ge> make_qw 0 \<and> t \<le> make_qw 1 then
          let t_2 = qw_mul t t; t_3 = qw_mul t_2 t; x = bezier_axis A t t_2 t_3
          in (if l > x then x else l, if h < x then x else h)
        else (l, h))"

definition bezier_calc_aabb_axis :: "libm \<Rightarrow> int list \<Rightarrow> qw \<times> qw" where
  "bezier_calc_aabb_axis L A =
     (let x1 = A ! 0;
          x2 = qw_add (A ! 0) (qw_add (A ! 1) (qw_add (A ! 2) (A ! 3)));
          a = i32 (3 * A ! 3);
          b = i32 (2 * A ! 2);
          D = qw_sub (qw_sq b) (i32 (4 * qw_mul a (A ! 1)));
          lu = (if x1 < x2 then (x1, x2) else (x2, x1))
      in if D \<ge> make_qw 0 \<and> a \<noteq> make_qw 0 then
           let D_sq = qw_sqrt L D;
               t1 = qw_div (qw_add (i32 (- b)) D_sq) (i32 (2 * a));
               t2 = qw_div (qw_sub (i32 (- b)) D_sq) (i32 (2 * a))
           in aabb_include A t2 (aabb_include A t1 lu)
         else lu)"

definition bezier_calc_aabb :: "libm \<Rightarrow> bezier_handle \<Rightarrow> bezier_handle \<Rightarrow> qwaabb" where
  "bezier_calc_aabb L head tail =
     (case calc_coeff L head tail (bh_pos head) of (Ax, Ay) \<Rightarrow>
      case bezier_calc_aabb_axis L Ax of (x1, x2) \<Rightarrow>
      case bezier_calc_aabb_axis L Ay of (y1, y2) \<Rightarrow>
        \<lparr>bx1 = qw_add x1 (px (bh_pos head)), by1 = qw_add y1 (py (bh_pos head)),
         bx2 = qw_add x2 (px (bh_pos head)), by2 = qw_add y2 (py (bh_pos head))\<rparr>)"

section \<open>Fitting the trail of the head\<close>

text \<open>The square of a distance; the product of the differences is not rescaled.\<close>

definition fit_axis :: "int list \<Rightarrow> q16_16 \<Rightarrow> q16_16 \<Rightarrow> q16_16 \<Rightarrow> q16_16" where
  "fit_axis A t t2 t3 =
     q16_16_add (q16_16_add (q16_16_add (A ! 0) (q16_16_mul (A ! 1) t)) (q16_16_mul (A ! 2) t2))
       (q16_16_mul (A ! 3) t3)"

definition distance_to_segment_sq :: "q16_16 \<Rightarrow> q16_16 \<Rightarrow> q16_16 \<Rightarrow> int list \<Rightarrow> int list \<Rightarrow> q16_16" where
  "distance_to_segment_sq x y t Ax Ay =
     (let t2 = q16_16_mul t t; t3 = q16_16_mul t t2;
          dx = q16_16_sub x (fit_axis Ax t t2 t3);
          dy = q16_16_sub y (fit_axis Ay t t2 t3)
      in i32 (dx * dx + dy * dy))"

lemma sdiv2_pos: "0 < k sdiv 2 \<Longrightarrow> 0 < k \<and> k sdiv 2 < (k::int)"
proof -
  assume a: "0 < k sdiv 2"
  have "\<not> k < 0"
  proof
    assume "k < 0"
    then obtain j where "k = - j" "0 < j"
      by (metis add.inverse_inverse neg_0_less_iff_less)
    with a show False
      by (simp add: sdiv_minus_left pos_imp_zdiv_nonneg_iff)
  qed
  with a show ?thesis
    by (cases "k = 0") simp_all
qed

function min_dist_loop ::
  "q16_16 \<Rightarrow> q16_16 \<Rightarrow> int list \<Rightarrow> int list \<Rightarrow> q16_16 \<Rightarrow> q16_16 \<Rightarrow> q16_16 \<Rightarrow> q16_16" where
  "min_dist_loop x y Ax Ay t t_step last_error =
     (let t_up = q16_16_add t t_step;
          t_down = q16_16_sub t t_step;
          error_up = (if t_up \<le> make_q16_16 1 then distance_to_segment_sq x y t_up Ax Ay else last_error);
          error_down = (if t_down \<ge> 0 then distance_to_segment_sq x y t_down Ax Ay else last_error);
          (last_error, t) = (if error_up < last_error then (error_up, t_up)
             else if error_down < last_error then (error_down, t_down)
             else (last_error, t));
          t_step = t_step sdiv 2
      in if t_step > 0 then min_dist_loop x y Ax Ay t t_step last_error else last_error)"
  by pat_completeness auto
termination
  by (relation "measure (\<lambda>(x, y, Ax, Ay, t, t_step, e). nat t_step)")
     (auto dest: sdiv2_pos simp del: sdiv_pos)

declare min_dist_loop.simps [simp del]

definition binary_search_min_dist_sq :: "qwpos \<Rightarrow> int list \<Rightarrow> int list \<Rightarrow> q16_16 \<Rightarrow> q16_16" where
  "binary_search_min_dist_sq p Ax Ay t_initial_guess =
     (let x = i32 (qw_to_q16_16 (px p)); y = i32 (qw_to_q16_16 (py p))
      in min_dist_loop x y Ax Ay t_initial_guess (make_q16_16_2 1 2)
           (distance_to_segment_sq x y t_initial_guess Ax Ay))"

text \<open>A stored length of 8 bits, from a floating point length.\<close>

definition len_u8 :: "real \<Rightarrow> 8 word" where
  "len_u8 len = word_of_int (ctrunc (len * 255))"

text \<open>
  With three or four points the ends of the trail give the control points: those next to
  the head (\<open>pa\<close>) and next to the tail (\<open>pb\<close>).
\<close>

definition fit_few ::
  "libm \<Rightarrow> bezier_handle \<Rightarrow> bezier_handle \<Rightarrow> qwpos \<Rightarrow> qwpos \<Rightarrow> qwpos \<Rightarrow> qwpos \<Rightarrow> bezier_handle \<times> bezier_handle" where
  "fit_few L head tail p0 pb pa pm =
     (let head_dx = qw_sub (px pa) (px pm); head_dy = qw_sub (py pa) (py pm);
          tail_dx = qw_sub (px p0) (px pb); tail_dy = qw_sub (py p0) (py pb);
          head_lensq = qw_add (qw_mul head_dx head_dx) (qw_mul head_dy head_dy);
          tail_lensq = qw_add (qw_mul tail_dx tail_dx) (qw_mul tail_dy tail_dy);
          head_len = m_sqrt L (qw_to_float head_lensq);
          tail_len = m_sqrt L (qw_to_float tail_lensq)
      in (head\<lparr>bh_pos := pm, bh_angle := make_qa_f (m_atan2 L (qw_to_float head_dy) (qw_to_float head_dx)),
               bh_len_backwards := len_u8 head_len\<rparr>,
          tail\<lparr>bh_len_forwards := len_u8 tail_len\<rparr>))"

text \<open>The sums of the matrix \<open>T'T\<close> over the inner points, as \<open>(T00, T01, T10, T11)\<close>.\<close>

definition fit_matrix :: "int \<Rightarrow> int \<times> int \<times> int \<times> int" where
  "fit_matrix count =
     foldl (\<lambda>(T00, T01, T10, T11) i.
         let t = make_q16_16_2 i (count - 1); t2 = q16_16_mul t t
         in (q16_16_add T00 (make_q16_16 1), q16_16_add T01 t, q16_16_add T10 t, q16_16_add T11 t2))
       (0, 0, 0, 0) [1..count - 2]"

text \<open>The estimated coefficients of one axis, from the row sums of the inverse.\<close>

definition fit_coeffs :: "int \<Rightarrow> (int \<Rightarrow> qw) \<Rightarrow> int list \<Rightarrow> q16_16 \<Rightarrow> q16_16 \<Rightarrow> int \<times> int" where
  "fit_coeffs count p T_inv m q =
     foldl (\<lambda>(C0, C1) i.
         let t = make_q16_16_2 i (count - 1);
             r = q16_16_mul t (q16_16_sub t (make_q16_16 1));
             f = q16_16_add (q16_16_mul m t) q;
             x = q16_16_div (q16_16_sub (i32 (qw_to_q16_16 (p i))) f) r;
             c0 = q16_16_add (T_inv ! 0) (q16_16_mul (T_inv ! 1) t);
             c1 = q16_16_add (T_inv ! 2) (q16_16_mul (T_inv ! 3) t)
         in (q16_16_add C0 (q16_16_mul c0 x), q16_16_add C1 (q16_16_mul c1 x)))
       (0, 0) [1..count - 2]"

text \<open>The control points of one axis, and the coefficients once the first one was moved.\<close>

definition fit_points :: "q16_16 \<Rightarrow> q16_16 \<Rightarrow> int \<times> int \<Rightarrow> q16_16 \<times> q16_16 \<times> q16_16 \<times> q16_16" where
  "fit_points m q C =
     (let x0 = q; x03 = i32 (3 * x0);
          x1 = q16_16_add (q16_16_sub m (fst C)) x03 sdiv 3;
          x16 = i32 (6 * x1);
          x2 = q16_16_add (q16_16_sub (q16_16_sub (fst C) (snd C)) x03) x16 sdiv 3;
          x13 = i32 (3 * x1); x23 = i32 (3 * x2);
          x3 = q16_16_add (q16_16_sub (q16_16_add (snd C) x0) x13) x23
      in (x0, x1, x2, x3))"

definition fit_poly :: "q16_16 \<Rightarrow> q16_16 \<Rightarrow> q16_16 \<Rightarrow> q16_16 \<Rightarrow> int list" where
  "fit_poly x0 x1 x2 x3 =
     (let x03 = i32 (3 * x0); x13 = i32 (3 * x1); x16 = i32 (6 * x1); x23 = i32 (3 * x2)
      in [x0, q16_16_sub x13 x03, q16_16_add (q16_16_sub x03 x16) x23,
          q16_16_add (q16_16_sub (q16_16_sub x13 x0) x23) x3])"

text \<open>The squared errors are added up in 64 bits and divided as a Q16.16 value.\<close>

definition fit_error :: "int \<Rightarrow> (int \<Rightarrow> qwpos) \<Rightarrow> int list \<Rightarrow> int list \<Rightarrow> q16_16" where
  "fit_error count p Ax Ay =
     (let mse_error = foldl (\<lambda>(e :: 64 word) i. e + word_of_int
              (binary_search_min_dist_sq (p i) Ax Ay (make_q16_16_2 i (count - 1))))
            0 [1..count - 2]
      in q16_16_div (i32 (uint mse_error)) (make_q16_16 (count - 1)))"

definition fit_many ::
  "libm \<Rightarrow> bezier_handle \<Rightarrow> bezier_handle \<Rightarrow> qwpos vec \<Rightarrow> int \<times> bezier_handle \<times> bezier_handle" where
  "fit_many L head tail trail =
     (let count = vec_cnt trail; p0 = vec_first trail; pm = vec_last trail
      in case fit_matrix count of (T00, T01, T10, T11) \<Rightarrow>
        let det = q16_16_sub (q16_16_mul T00 T11) (q16_16_mul T01 T10)
        in if det = 0 then (2 ^ 30, head\<lparr>bh_pos := pm\<rparr>, tail)
           else
             let T_inv = [q16_16_div T11 det, q16_16_div (i32 (- T01)) det,
                          q16_16_div (i32 (- T10)) det, q16_16_div T00 det];
                 mx = i32 (qw_to_q16_16 (qw_sub (px pm) (px p0)));
                 qx = i32 (qw_to_q16_16 (px p0));
                 my = i32 (qw_to_q16_16 (qw_sub (py pm) (py p0)));
                 qy = i32 (qw_to_q16_16 (py p0));
                 (x0, x1, x2, x3) = fit_points mx qx (fit_coeffs count (\<lambda>i. px (vec_get trail i)) T_inv mx qx);
                 (y0, y1, y2, y3) = fit_points my qy (fit_coeffs count (\<lambda>i. py (vec_get trail i)) T_inv my qy);
                 tail_dx = q16_16_sub x1 x0; tail_dy = q16_16_sub y1 y0;
                 head_dx = q16_16_sub x2 x3; head_dy = q16_16_sub y2 y3;
                 head_lensq = q16_16_add (q16_16_mul head_dx head_dx) (q16_16_mul head_dy head_dy);
                 tail_lensq = q16_16_add (q16_16_mul tail_dx tail_dx) (q16_16_mul tail_dy tail_dy);
                 head_len = m_sqrt L (q16_16_to_float head_lensq);
                 tail_len = m_sqrt L (q16_16_to_float tail_lensq);
                 head = head\<lparr>bh_pos := pm,
                   bh_angle := make_qa_f (m_atan2 L (q16_16_to_float head_dy) (q16_16_to_float head_dx)),
                   bh_len_backwards := len_u8 head_len\<rparr>;
                 tail = tail\<lparr>bh_len_forwards := len_u8 tail_len\<rparr>;
                 x1 = q16_16_add x0 (make_q16_16_f (of_int (uint (bh_len_forwards tail)) *
                        - m_cos L (qa_to_float (bh_angle tail)) / 255));
                 y1 = q16_16_add y0 (make_q16_16_f (of_int (uint (bh_len_forwards tail)) *
                        - m_sin L (qa_to_float (bh_angle tail)) / 255))
             in (fit_error count (vec_get trail) (fit_poly x0 x1 x2 x3) (fit_poly y0 y1 y2 y3), head, tail))"

text \<open>
  The fit: the error as the C function returns it (an integer, in units of \<open>q16_16\<close>), the head
  handle and the tail handle. A trail without points is outside the array.
\<close>

definition bezier_fit_trail ::
  "libm \<Rightarrow> bezier_handle \<Rightarrow> bezier_handle \<Rightarrow> qwpos vec \<Rightarrow> (int \<times> bezier_handle \<times> bezier_handle) option" where
  "bezier_fit_trail L head tail trail =
     (let n = vec_cnt trail; p0 = vec_first trail; pm = vec_last trail
      in if n \<le> 0 then None
         else if n \<le> 2 then
           Some (0, head\<lparr>bh_pos := pm, bh_angle := bh_angle tail, bh_len_backwards := 0\<rparr>,
                 tail\<lparr>bh_len_forwards := 0\<rparr>)
         else if n = 3 then
           Some (0, fit_few L head tail p0 (vec_get trail 1) (vec_get trail 1) pm)
         else if n = 4 then
           Some (0, fit_few L head tail p0 (vec_get trail 1) (vec_get trail 2) pm)
         else Some (fit_many L head tail trail))"

definition bezier_squeeze_step ::
  "bezier_handle rb option \<Rightarrow> int \<Rightarrow> bezier_handle rb option" where
  "bezier_squeeze_step bezier_handles sim_tick_rate = bezier_handles"

definition bezier_squeeze_n_recent_step ::
  "bezier_handle rb option \<Rightarrow> int \<Rightarrow> int \<Rightarrow> bezier_handle rb option" where
  "bezier_squeeze_n_recent_step bezier_handles n sim_tick_rate = bezier_handles"

section \<open>Sampling the curve\<close>

text \<open>
  The search for the next point: 14 rounds that halve the step, with the point and the
  squared distance of the last round. \<open>t\<close> stays between \<open>last_t\<close> and the end of the segment.
\<close>

lemma abs_sdiv2: "\<bar>k sdiv 2\<bar> = \<bar>k\<bar> div (2::int)"
proof (cases "0 \<le> k")
  case False
  then obtain j where "k = - j" "0 < j"
    by (metis add.inverse_inverse neg_0_less_iff_less not_le)
  then show ?thesis
    by (simp add: sdiv_minus_left)
qed simp

lemma sdiv2_less: "k sdiv 2 \<noteq> 0 \<Longrightarrow> k \<noteq> 0 \<and> \<bar>k sdiv 2\<bar> < \<bar>k\<bar>" for k :: int
proof -
  assume "k sdiv 2 \<noteq> 0"
  then have "\<bar>k\<bar> div 2 \<noteq> 0"
    using abs_sdiv2 [of k] by simp
  then show ?thesis
    unfolding abs_sdiv2 by linarith
qed

function sample_search ::
  "int list \<Rightarrow> int list \<Rightarrow> qwpos \<Rightarrow> qw \<Rightarrow> qw \<Rightarrow> qw \<Rightarrow> qw \<Rightarrow> qw \<times> qwpos \<times> qw" where
  "sample_search Ax Ay pos spacing_sq last_t t t_step =
     (let next = bezier_xy Ax Ay t;
          dx = qw_sub (px pos) (px next);
          dy = qw_sub (py pos) (py next);
          dist_sq = qw_add (qw_mul dx dx) (qw_mul dy dy);
          t = (if dist_sq > spacing_sq then qw_sub t t_step else qw_add t t_step);
          t = (if t \<ge> make_qw 1 then make_qw 1 - 1 else t);
          t = (if t < last_t then last_t else t);
          t_step = t_step sdiv 2
      in if t_step = 0 then (t, next, dist_sq)
         else sample_search Ax Ay pos spacing_sq last_t t t_step)"
  by pat_completeness auto
termination
  by (relation "measure (\<lambda>(Ax, Ay, pos, sp, last_t, t, t_step). nat \<bar>t_step\<bar>)")
     (simp_all add: sdiv2_less del: sdiv_pos)

declare sample_search.simps [simp del]

text \<open>The point and the tangent that are stored for a position.\<close>

definition sample_point :: "libm \<Rightarrow> int list \<Rightarrow> int list \<Rightarrow> qwpos \<Rightarrow> qw \<Rightarrow> qwpos \<Rightarrow> bezier_point" where
  "sample_point L Ax Ay off t next =
     (let t2 = qw_mul t t;
          slope = (\<lambda>A. i32 (- qw_add (qw_add (A ! 1) (qw_mul (make_qw 2) (qw_mul (A ! 2) t)))
                             (qw_mul (make_qw 3) (qw_mul (A ! 3) t2))))
      in \<lparr>bp_pos = \<lparr>px = qw_add (px next) (px off), py = qw_add (py next) (py off)\<rparr>,
          bp_dir = qwpos_normalize L \<lparr>px = slope Ax, py = slope Ay\<rparr>\<rparr>)"

text \<open>
  One segment. The loop has no bound of its own, so it is a partial function; between its
  rounds \<open>last_t\<close> is \<open>t\<close>. It leaves the segment, or has sampled the snake's length, or writes
  through the null pointer of a failed emplace.
\<close>

datatype sampled =
  Sample_crash
| Segment_done qwpos qw "bezier_point vec option"
| Length_reached "bezier_point vec option"

partial_function (option) sample_segment ::
  "libm \<Rightarrow> (nat \<Rightarrow> bezier_point) \<Rightarrow> int list \<Rightarrow> int list \<Rightarrow> qwpos \<Rightarrow> qw \<Rightarrow> qw \<Rightarrow>
   qw \<Rightarrow> qwpos \<Rightarrow> qw \<Rightarrow> bezier_point vec option \<Rightarrow> sampled option" where
  "sample_segment L u Ax Ay off spacing_sq snake_length t pos total_spacing pts =
     (case sample_search Ax Ay pos spacing_sq t t (make_qw2 1 2) of (t', next, dist_sq) \<Rightarrow>
        if t' = make_qw 1 - 1 then Some (Segment_done pos total_spacing pts)
        else
          (case vec_emplace 16 True u pts of
             (Some i, Some v) \<Rightarrow>
               let pts' = Some (vec_store i (sample_point L Ax Ay off t' next) v);
                   tot = qw_add total_spacing (qw_sqrt L dist_sq)
               in if tot \<ge> snake_length then Some (Length_reached pts')
                  else sample_segment L u Ax Ay off spacing_sq snake_length t' next tot pts'
           | _ \<Rightarrow> Some Sample_crash))"

text \<open>
  The segments from the head on: the outer \<open>None\<close> is a loop that does not return, the inner
  one a crash; otherwise the number of segments that are not needed, and the points.
\<close>

fun sample_segments ::
  "libm \<Rightarrow> (nat \<Rightarrow> bezier_point) \<Rightarrow> bezier_handle rb \<Rightarrow> qwpos \<Rightarrow> qw \<Rightarrow> qw \<Rightarrow> nat \<Rightarrow>
   qwpos \<Rightarrow> qw \<Rightarrow> bezier_point vec option \<Rightarrow> (int \<times> bezier_point vec option) option option" where
  "sample_segments L u handles off spacing_sq snake_length 0 pos tot pts = Some (Some (0, pts))"
| "sample_segments L u handles off spacing_sq snake_length (Suc i) pos tot pts =
     (case calc_coeff L (rb_peek handles (int i + 1)) (rb_peek handles (int i)) off of (Ax, Ay) \<Rightarrow>
        (case sample_segment L u Ax Ay off spacing_sq snake_length (make_qw 0) pos tot pts of
           None \<Rightarrow> None
         | Some Sample_crash \<Rightarrow> Some None
         | Some (Length_reached pts') \<Rightarrow> Some (Some (int i, pts'))
         | Some (Segment_done pos' tot' pts') \<Rightarrow>
             sample_segments L u handles off spacing_sq snake_length i pos' tot' pts'))"

definition bezier_calc_equidistant_points ::
  "libm \<Rightarrow> (nat \<Rightarrow> bezier_point) \<Rightarrow> bezier_point vec option \<Rightarrow> bezier_handle rb option \<Rightarrow> qw \<Rightarrow> qw \<Rightarrow>
   (int \<times> bezier_point vec option) option option" where
  "bezier_calc_equidistant_points L u pts bezier_handles spacing snake_length =
     (case bezier_handles of None \<Rightarrow> Some None
      | Some rb \<Rightarrow>
          let spacing_sq = qw_mul spacing spacing;
              pos = make_qwposi 0 0;
              head = rb_peek_write rb;
              off = bh_pos head
          in (case vec_emplace 16 True u (vec_clear pts) of
                (Some i, Some v) \<Rightarrow>
                  let bp = \<lparr>bp_pos = \<lparr>px = qw_add (px pos) (px off), py = qw_add (py pos) (py off)\<rparr>,
                            bp_dir = \<lparr>px = i32 (- qa_cos L (bh_angle head)), py = i32 (- qa_sin L (bh_angle head))\<rparr>\<rparr>
                  in sample_segments L u rb off spacing_sq snake_length
                       (nat (rb_count (Some rb) - 1)) pos 0 (Some (vec_store i bp v))
              | _ \<Rightarrow> Some None))"

section \<open>Sampling returns\<close>

lemma qw_mul_square: "0 \<le> qw_mul x x \<and> qw_mul x x \<le> 0x7FFFFF"
proof -
  have "0 \<le> x * x"
    by simp
  then have "0 \<le> (x * x + 8192) div 16384"
    by linarith
  then show ?thesis
    by (auto simp: qw_mul_def qw_sat24_def i32_id)
qed

lemma dist_sq_bounds:
  "0 \<le> qw_add (qw_mul dx dx) (qw_mul dy dy) \<and> qw_add (qw_mul dx dx) (qw_mul dy dy) \<le> 0xFFFFFE"
  using qw_mul_square [of dx] qw_mul_square [of dy] by (simp add: qw_add_def i32_id)

text \<open>
  One search ends between \<open>last_t\<close> and the end of the segment; when its last point is not too
  far it ends past \<open>last_t\<close> or at the end.
\<close>

lemma sample_search_range:
  assumes "sample_search Ax Ay pos sp last_t t t_step = (t', next, d)"
    and "0 \<le> last_t" "last_t \<le> t" "t \<le> 16383" "0 < t_step" "t_step \<le> 8192"
  shows "last_t \<le> t' \<and> t' \<le> 16383 \<and> 0 \<le> d \<and> d \<le> 0xFFFFFE \<and> (d \<le> sp \<longrightarrow> last_t < t' \<or> t' = 16383)"
  using assms
proof (induction Ax Ay pos sp last_t t t_step rule: sample_search.induct)
  case (1 Ax Ay pos sp last_t t t_step)
  have q1: "make_qw 1 = 16384"
    by (simp add: make_qw_def i32_id)
  define dd where "dd = (let next = bezier_xy Ax Ay t; dx = qw_sub (px pos) (px next);
      dy = qw_sub (py pos) (py next) in qw_add (qw_mul dx dx) (qw_mul dy dy))"
  define t1 where "t1 = (if dd > sp then t - t_step else t + t_step)"
  define t2 where "t2 = max last_t (min t1 16383)"
  have step: "sample_search Ax Ay pos sp last_t t t_step =
      (if t_step sdiv 2 = 0 then (t2, bezier_xy Ax Ay t, dd)
       else sample_search Ax Ay pos sp last_t t2 (t_step sdiv 2))"
    using "1.prems"(2-6)
    by (simp add: sample_search.simps [of Ax Ay pos sp last_t t t_step] Let_def q1 qw_add_def [of t]
        qw_sub_def [of t] i32_id dd_def t1_def t2_def max_def min_def)
  have rng: "last_t \<le> t2" "t2 \<le> 16383" "0 \<le> dd" "dd \<le> 0xFFFFFE"
    using "1.prems"(2-4) dist_sq_bounds by (auto simp: t2_def dd_def Let_def)
  show ?case
  proof (cases "t_step sdiv 2 = 0")
    case True
    then have "t_step = 1"
      using "1.prems"(5) by simp
    then have "dd \<le> sp \<longrightarrow> last_t < t2 \<or> t2 = 16383"
      using "1.prems"(3,4) by (auto simp: t2_def t1_def)
    with rng step "1.prems"(1) True show ?thesis by simp
  next
    case False
    have t_step: "0 < t_step sdiv 2" "t_step sdiv 2 \<le> 8192"
      using False "1.prems"(5,6) by auto
    have e: "t2 = (let t = (if sp < dd then qw_sub t t_step else qw_add t t_step);
        t = (if make_qw 1 \<le> t then make_qw 1 - 1 else t) in if t < last_t then last_t else t)"
      using "1.prems"(2-6) by (auto simp: t2_def t1_def Let_def q1 qw_add_def qw_sub_def i32_id)
    show ?thesis
      using "1.IH" [OF refl refl refl refl refl refl refl refl False] "1.prems"(1,2) rng(1,2) t_step step False
      unfolding e dd_def by (simp add: Let_def)
  qed
qed

text \<open>The square root of the C library.\<close>

definition libm_sqrt_ok :: "libm \<Rightarrow> bool" where
  "libm_sqrt_ok L \<longleftrightarrow> (\<forall>x\<ge>0. m_sqrt L x = sqrt x)"

lemma qw_sqrt_bounds:
  assumes "libm_sqrt_ok L" "0 \<le> d" "d \<le> 0xFFFFFE"
  shows "0 \<le> qw_sqrt L d \<and> qw_sqrt L d \<le> 524288 \<and> (1 \<le> d \<longrightarrow> 128 \<le> qw_sqrt L d)"
proof -
  have "0 \<le> qw_to_float d"
    using assms(2) by (simp add: qw_to_float_def)
  then have s: "m_sqrt L (qw_to_float d) * 16384 = 128 * sqrt (of_int d)"
    using assms(1) real_sqrt_divide [of "of_int d" 16384]
    by (simp add: libm_sqrt_ok_def qw_to_float_def real_sqrt_divide real_sqrt_eq_iff
        flip: power2_eq_square)
  have up: "sqrt (of_int d) \<le> 4096"
    using assms(2,3) by (intro real_le_lsqrt) simp_all
  have "0 \<le> 128 * sqrt (of_int d)" "128 * sqrt (of_int d) \<le> 524288"
    using assms(2) up by simp_all
  then have c: "0 \<le> ctrunc (128 * sqrt (of_int d))" "ctrunc (128 * sqrt (of_int d)) \<le> 524288"
    by (simp_all add: ctrunc_def floor_le_iff)
  have "128 \<le> ctrunc (128 * sqrt (of_int d))" if "1 \<le> d"
  proof -
    have "1 \<le> sqrt (of_int d)"
      using that by simp
    then show ?thesis
      by (simp add: ctrunc_def le_floor_iff)
  qed
  with c show ?thesis
    by (simp add: qw_sqrt_def make_qw_f_def s i32_id)
qed

text \<open>
  Every round moves on: either \<open>t\<close> grows, or the spacing that was covered grows by at least
  \<open>1/128\<close>. So sampling returns for every curve, also a degenerate one.
\<close>

lemma sample_segment_returns:
  assumes "libm_sqrt_ok L" "0 \<le> sp" "len < 2 ^ 31 - 2 ^ 20"
    and "0 \<le> t" "t \<le> 16383" "0 \<le> tot" "tot < max 1 len"
  shows "\<exists>r. sample_segment L u Ax Ay off sp len t pos tot pts = Some r \<and>
    (\<forall>pos' tot' pts'. r = Segment_done pos' tot' pts' \<longrightarrow> 0 \<le> tot' \<and> tot' < max 1 len)"
  using assms(4-7)
proof (induction "nat (16383 - t) + nat (len - tot)" arbitrary: t pos tot pts rule: less_induct)
  case less
  obtain t' nx d where ss: "sample_search Ax Ay pos sp t t (make_qw2 1 2) = (t', nx, d)"
    by (metis prod_cases3)
  have q: "make_qw2 1 2 = 8192" "make_qw 1 - 1 = 16383"
    by (simp_all add: make_qw2_def make_qw_def i32_id)
  note ss' = ss [unfolded q(1)]
  have rng: "t \<le> t'" "t' \<le> 16383" "0 \<le> d" "d \<le> 0xFFFFFE" "d \<le> sp \<Longrightarrow> t < t' \<or> t' = 16383"
    using sample_search_range [OF ss] less.prems by (simp_all add: q)
  note sq = qw_sqrt_bounds [OF assms(1) rng(3,4)]
  let ?tot = "qw_add tot (qw_sqrt L d)"
  have tot: "?tot = tot + qw_sqrt L d"
    using less.prems(3,4) sq assms(3) by (simp add: qw_add_def i32_id max_def split: if_splits)
  show ?case
  proof (cases "t' = 16383")
    case True
    then show ?thesis
      using less.prems by (subst sample_segment.simps) (simp add: ss' q)
  next
    case ne: False
    show ?thesis
    proof (cases "\<exists>i v. vec_emplace 16 True u pts = (Some i, Some v) \<and> \<not> ?tot \<ge> len")
      case False
      then show ?thesis
        using ne by (subst sample_segment.simps) (auto simp: ss' q Let_def split: option.splits prod.splits)
    next
      case True
      then obtain i v where iv: "vec_emplace 16 True u pts = (Some i, Some v)" "?tot < len"
        by auto
      have dec: "nat (16383 - t') + nat (len - ?tot) < nat (16383 - t) + nat (len - tot)"
      proof (cases "d \<le> sp")
        case True
        then have "t < t'"
          using rng(5) ne by blast
        then show ?thesis
          using sq tot rng(2) by linarith
      next
        case False
        then have "128 \<le> qw_sqrt L d"
          using sq assms(2) by simp
        then show ?thesis
          using tot iv(2) rng(1) by linarith
      qed
      have "sample_segment L u Ax Ay off sp len t pos tot pts =
          sample_segment L u Ax Ay off sp len t' nx ?tot
            (Some (vec_store i (sample_point L Ax Ay off t' nx) v))"
        using ne iv by (subst sample_segment.simps) (simp add: ss' q Let_def)
      moreover have "0 \<le> t'" "0 \<le> ?tot" "?tot < max 1 len"
        using less.prems rng(1) iv(2) tot sq by simp_all
      ultimately show ?thesis
        using less.hyps [OF dec] rng(2) by simp
    qed
  qed
qed

lemma sample_segments_returns:
  assumes "libm_sqrt_ok L" "0 \<le> sp" "len < 2 ^ 31 - 2 ^ 20" "0 \<le> tot" "tot < max 1 len"
  shows "\<exists>r. sample_segments L u rb off sp len n pos tot pts = Some r \<and>
    (\<forall>i pts'. r = Some (i, pts') \<longrightarrow> 0 \<le> i \<and> (i = 0 \<or> i < int n))"
  using assms(4,5)
proof (induction n arbitrary: pos tot pts)
  case (Suc n)
  obtain Ax Ay where c: "calc_coeff L (rb_peek rb (int n + 1)) (rb_peek rb (int n)) off = (Ax, Ay)"
    by fastforce
  obtain r where r: "sample_segment L u Ax Ay off sp len 0 pos tot pts = Some r"
    "\<forall>pos' tot' pts'. r = Segment_done pos' tot' pts' \<longrightarrow> 0 \<le> tot' \<and> tot' < max 1 len"
    using sample_segment_returns [OF assms(1-3), of 0 tot u Ax Ay off pos pts] Suc.prems by auto
  have z: "make_qw 0 = 0"
    by (simp add: make_qw_def i32_id)
  show ?case
  proof (cases r)
    case (Segment_done pos' tot' pts')
    then obtain r' where r': "sample_segments L u rb off sp len n pos' tot' pts' = Some r'"
      "\<forall>i pts'. r' = Some (i, pts') \<longrightarrow> 0 \<le> i \<and> (i = 0 \<or> i < int n)"
      using Suc.IH [of tot' pos' pts'] r(2) by auto
    then show ?thesis
      using Segment_done c r(1) z by fastforce
  qed (use c r(1) z in auto)
qed auto

text \<open>
  Sampling returns; the number of segments that are not needed leaves at least the first one.
\<close>

lemma bezier_sampling_returns:
  assumes "libm_sqrt_ok L" "len < 2 ^ 31 - 2 ^ 20"
  shows "\<exists>r. bezier_calc_equidistant_points L u pts handles spacing len = Some r \<and>
    (\<forall>i pts'. r = Some (i, pts') \<longrightarrow> 0 \<le> i \<and> (i = 0 \<or> i < rb_count handles - 1))"
proof (cases handles)
  case None
  then show ?thesis by (simp add: bezier_calc_equidistant_points_def)
next
  case (Some rb)
  have "0 \<le> qw_mul spacing spacing"
    using qw_mul_square by blast
  note ret = sample_segments_returns [OF assms(1) this assms(2) order_refl]
  have lt: "(0::int) < max 1 len"
    by simp
  obtain i v where e: "vec_emplace 16 True u (vec_clear pts) = (i, v)"
    by fastforce
  show ?thesis
  proof (cases "\<exists>i' v'. i = Some i' \<and> v = Some v'")
    case True
    then obtain i' v' where iv: "i = Some i'" "v = Some v'"
      by blast
    define bp where "bp = \<lparr>bp_pos = \<lparr>px = qw_add (px (make_qwposi 0 0)) (px (bh_pos (rb_peek_write rb))),
        py = qw_add (py (make_qwposi 0 0)) (py (bh_pos (rb_peek_write rb)))\<rparr>,
      bp_dir = \<lparr>px = i32 (- qa_cos L (bh_angle (rb_peek_write rb))), py = i32 (- qa_sin L (bh_angle (rb_peek_write rb)))\<rparr>\<rparr>"
    obtain r where r: "sample_segments L u rb (bh_pos (rb_peek_write rb)) (qw_mul spacing spacing) len
        (nat (rb_count (Some rb) - 1)) (make_qwposi 0 0) 0 (Some (vec_store i' bp v')) = Some r"
      "\<forall>k pts'. r = Some (k, pts') \<longrightarrow> 0 \<le> k \<and> (k = 0 \<or> k < int (nat (rb_count (Some rb) - 1)))"
      using ret [OF lt] by blast
    have "bezier_calc_equidistant_points L u pts handles spacing len = Some r"
      using r(1) by (simp add: bezier_calc_equidistant_points_def Some e iv bp_def Let_def)
    moreover have "0 \<le> k \<and> (k = 0 \<or> k < rb_count handles - 1)" if "r = Some (k, pts')" for k pts'
    proof -
      have "0 \<le> k \<and> (k = 0 \<or> k < int (nat (rb_count (Some rb) - 1)))"
        using r(2) that by blast
      then show ?thesis
        using Some by (auto split: if_splits)
    qed
    ultimately show ?thesis
      by blast
  next
    case False
    then have "bezier_calc_equidistant_points L u pts handles spacing len = Some None"
      by (auto simp: bezier_calc_equidistant_points_def Some e Let_def split: option.splits)
    then show ?thesis by simp
  qed
qed

section \<open>The ends of a segment\<close>

lemma i32_lift:
  "i32 (i32 a + b) = i32 (a + b)" "i32 (a + i32 b) = i32 (a + b)"
  "i32 (i32 a - b) = i32 (a - b)" "i32 (a - i32 b) = i32 (a - b)"
proof -
  have e: "i32 x = i32 y" if "x mod 4294967296 = y mod 4294967296" for x y
    using that mod_add_cong [OF that refl, of 2147483648] by (simp add: sx_32)
  have m: "i32 x mod 4294967296 = x mod 4294967296" for x
    by (simp add: sx_32 mod_diff_left_eq)
  show "i32 (i32 a + b) = i32 (a + b)" "i32 (a + i32 b) = i32 (a + b)"
    by (rule e; metis m mod_add_eq)+
  show "i32 (i32 a - b) = i32 (a - b)" "i32 (a - i32 b) = i32 (a - b)"
    by (rule e; metis m mod_diff_eq)+
qed

lemma calc_coeff_axis_ends:
  fixes p0 p1 p2 p3 :: int
  assumes "in_sx 32 p3"
  defines "A \<equiv> calc_coeff_axis p0 p1 p2 p3"
  shows "A ! 0 = p0" and "qw_add (A ! 0) (qw_add (A ! 1) (qw_add (A ! 2) (A ! 3))) = p3"
proof -
  show "A ! 0 = p0"
    by (simp add: A_def calc_coeff_axis_def Let_def)
  have "qw_add (A ! 0) (qw_add (A ! 1) (qw_add (A ! 2) (A ! 3))) =
      i32 (p0 + ((3 * p1 - 3 * p0) + ((3 * p0 + 3 * p2 - 6 * p1) + (3 * p1 + p3 - 3 * p2 - p0))))"
    by (simp add: A_def calc_coeff_axis_def Let_def qw_add_def qw_sub_def i32_lift numeral_2_eq_2 numeral_3_eq_3)
  also have "\<dots> = p3"
    using sx_id [OF _ assms(1)] by simp
  finally show "qw_add (A ! 0) (qw_add (A ! 1) (qw_add (A ! 2) (A ! 3))) = p3" .
qed

lemma bezier_axis_bound:
  assumes "A ! 0 = 0"
  shows "\<bar>bezier_axis A t t2 t3\<bar> \<le> 25165824"
proof -
  have q: "- 8388608 \<le> qw_mul a b \<and> qw_mul a b \<le> 8388607" for a b
    using qw_mul_ok [of a b] by (simp add: qw24_def)
  show ?thesis
    using q [of "A ! 1" t] q [of "A ! 2" t2] q [of "A ! 3" t3] assms
    by (simp add: bezier_axis_def qw_add_def i32_id abs_le_iff)
qed

lemma aabb_include_props:
  assumes "aabb_include A t (l, h) = (l', h')" "A ! 0 = 0" "\<bar>l\<bar> \<le> 25165824" "\<bar>h\<bar> \<le> 25165824"
  shows "l' \<le> l \<and> h \<le> h' \<and> \<bar>l'\<bar> \<le> 25165824 \<and> \<bar>h'\<bar> \<le> 25165824"
  using assms bezier_axis_bound [OF assms(2), of t "qw_mul t t" "qw_mul (qw_mul t t) t"]
  by (auto simp: aabb_include_def Let_def split: if_splits)

text \<open>The box of an axis covers both ends of the segment.\<close>

lemma bezier_calc_aabb_axis_ends:
  assumes "bezier_calc_aabb_axis L A = (l, h)" "A ! 0 = 0"
    and "qw_add (A ! 0) (qw_add (A ! 1) (qw_add (A ! 2) (A ! 3))) = e" "\<bar>e\<bar> \<le> 25165824"
  shows "l \<le> 0 \<and> 0 \<le> h \<and> l \<le> e \<and> e \<le> h \<and> \<bar>l\<bar> \<le> 25165824 \<and> \<bar>h\<bar> \<le> 25165824"
proof -
  define lu where "lu = (if A ! 0 < e then (A ! 0, e) else (e, A ! 0))"
  obtain l0 h0 where lh: "lu = (l0, h0)"
    by fastforce
  have b: "l0 \<le> 0" "0 \<le> h0" "l0 \<le> e" "e \<le> h0" "\<bar>l0\<bar> \<le> 25165824" "\<bar>h0\<bar> \<le> 25165824"
    using lh assms(2,4) by (auto simp: lu_def split: if_splits)
  have "(l, h) = (l0, h0) \<or> (\<exists>t1 t2. (l, h) = aabb_include A t2 (aabb_include A t1 (l0, h0)))"
    using assms(1) unfolding bezier_calc_aabb_axis_def Let_def assms(3) lu_def [symmetric] lh
    by (auto split: if_splits) metis+
  then show ?thesis
  proof (elim disjE exE)
    fix t1 t2
    assume e: "(l, h) = aabb_include A t2 (aabb_include A t1 (l0, h0))"
    obtain l1 h1 where i: "aabb_include A t1 (l0, h0) = (l1, h1)"
      by fastforce
    note p1 = aabb_include_props [OF i assms(2) b(5,6)]
    note p2 = aabb_include_props [of A t2 l1 h1 l h]
    show ?thesis
      using p1 p2 e i b assms(2) by auto
  qed (use b in auto)
qed

lemma bezier_calc_aabb_ends:
  assumes "qwpos24 (bh_pos head)" "qwpos24 (bh_pos tail)"
  shows "qwaabb_test_qwpos (bezier_calc_aabb L head tail) (bh_pos head) \<and>
    qwaabb_test_qwpos (bezier_calc_aabb L head tail) (bh_pos tail)"
proof -
  have p: "- 8388608 \<le> px (bh_pos h)" "px (bh_pos h) \<le> 8388607"
    "- 8388608 \<le> py (bh_pos h)" "py (bh_pos h) \<le> 8388607" if "h = head \<or> h = tail" for h
    using that assms by (auto simp: qwpos24_def qw24_def)
  obtain Ax Ay where c: "calc_coeff L head tail (bh_pos head) = (Ax, Ay)"
    by fastforce
  let ?ex = "px (bh_pos tail) - px (bh_pos head)" and ?ey = "py (bh_pos tail) - py (bh_pos head)"
  have sub: "qw_sub (px (bh_pos tail)) (px (bh_pos head)) = ?ex"
    "qw_sub (py (bh_pos tail)) (py (bh_pos head)) = ?ey" "qw_sub x x = 0" for x
    using p [of head] p [of tail] by (simp_all add: qw_sub_def i32_id)
  have in32: "in_sx 32 ?ex" "in_sx 32 ?ey"
    using p [of head] p [of tail] by (simp_all add: in_sx_32)
  obtain p1 p2 where Ax: "Ax = calc_coeff_axis 0 p1 p2 ?ex"
    using c by (auto simp: calc_coeff_def Let_def make_qwposqw_def sub)
  obtain q1 q2 where Ay: "Ay = calc_coeff_axis 0 q1 q2 ?ey"
    using c by (auto simp: calc_coeff_def Let_def make_qwposqw_def sub)
  obtain x1 x2 where x: "bezier_calc_aabb_axis L Ax = (x1, x2)"
    by fastforce
  obtain y1 y2 where y: "bezier_calc_aabb_axis L Ay = (y1, y2)"
    by fastforce
  have e: "\<bar>?ex\<bar> \<le> 25165824" "\<bar>?ey\<bar> \<le> 25165824"
    using p [of head, simplified] p [of tail, simplified] by linarith+
  have bx: "x1 \<le> 0 \<and> 0 \<le> x2 \<and> x1 \<le> ?ex \<and> ?ex \<le> x2 \<and> \<bar>x1\<bar> \<le> 25165824 \<and> \<bar>x2\<bar> \<le> 25165824"
    using calc_coeff_axis_ends [OF in32(1), of 0 p1 p2]
    by (intro bezier_calc_aabb_axis_ends [OF x _ _ e(1)]) (simp_all only: Ax)
  have by': "y1 \<le> 0 \<and> 0 \<le> y2 \<and> y1 \<le> ?ey \<and> ?ey \<le> y2 \<and> \<bar>y1\<bar> \<le> 25165824 \<and> \<bar>y2\<bar> \<le> 25165824"
    using calc_coeff_axis_ends [OF in32(2), of 0 q1 q2]
    by (intro bezier_calc_aabb_axis_ends [OF y _ _ e(2)]) (simp_all only: Ay)
  have addx: "qw_add z (px (bh_pos head)) = z + px (bh_pos head)" "qw_add z (py (bh_pos head)) = z + py (bh_pos head)"
    if "\<bar>z\<bar> \<le> 25165824" for z
    using that p [of head] by (simp_all add: qw_add_def i32_id)
  have "qw_add x1 (px (bh_pos head)) = x1 + px (bh_pos head)" "qw_add x2 (px (bh_pos head)) = x2 + px (bh_pos head)"
    "qw_add y1 (py (bh_pos head)) = y1 + py (bh_pos head)" "qw_add y2 (py (bh_pos head)) = y2 + py (bh_pos head)"
    using bx by' addx(1) [of x1] addx(1) [of x2] addx(2) [of y1] addx(2) [of y2] by blast+
  with bx by' show ?thesis
    by (simp add: bezier_calc_aabb_def c x y qwaabb_test_qwpos_def)
qed

text \<open>
  The division in the estimate is by \<open>t (t - 1)\<close>, which is not zero at the inner points of
  any trail that the vector can hold.
\<close>

lemma fit_divisor_nonzero:
  assumes "0 < i" "i < n" "n < 32768"
  shows "q16_16_mul (make_q16_16_2 i n) (q16_16_sub (make_q16_16_2 i n) (make_q16_16 1)) < 0"
proof -
  define t where "t = make_q16_16_2 i n"
  have b: "0 \<le> i * 65536" "i * 65536 < 2147483648" "i * 65536 div n \<le> i * 65536"
    using assms zdiv_mono2 [of "i * 65536" 1 n] by simp_all
  have "i * 65536 = (i * 65536 div n) * n + i * 65536 mod n"
    by simp
  have "0 \<le> i * 65536 div n" "i * 65536 div n < 2147483648"
    using assms b by (simp add: pos_imp_zdiv_nonneg_iff, linarith)
  then have t: "t = i * 65536 div n"
    using assms b by (simp add: t_def make_q16_16_2_def i32_id)
  have "2 * n \<le> i * 65536" "i * 65536 \<le> (n - 1) * 65536"
    using assms by simp_all
  then have lo: "2 \<le> t"
    unfolding t using zdiv_mono1 [of "2 * n" "i * 65536" n] assms by simp
  have "i * 65536 < 65535 * n"
    using assms by simp
  then have hi: "t < 65535"
  proof -
    have "t * n \<le> i * 65536"
      unfolding t using assms by (simp add: minus_mod_eq_div_mult [symmetric])
    show ?thesis
    proof (rule ccontr)
      assume "\<not> t < 65535"
      then have "65535 * n \<le> t * n"
        using assms by (intro mult_right_mono) simp_all
      with \<open>t * n \<le> i * 65536\<close> \<open>i * 65536 < 65535 * n\<close> show False by simp
    qed
  qed
  have sub: "q16_16_sub t (make_q16_16 1) = t - 65536"
    using lo hi by (simp add: q16_16_sub_def make_q16_16_def i32_id)
  have "0 \<le> (t - 2) * (65534 - t)"
    using lo hi by simp
  then have neg: "(t * (t - 65536) + 32768) div 65536 < 0"
    by (simp add: algebra_simps)
  then have "q16_16_sat32 ((t * (t - 65536) + 32768) div 65536) < 0"
    by (auto simp: q16_16_sat32_def i32_id)
  then show ?thesis
    unfolding t_def [symmetric] sub by (simp add: q16_16_mul_def)
qed

end
