(* ===== verification/Snake.thy ===== *)
theory Snake
  imports SnakeParam Bezier Cmd CmdQueue
begin

text \<open>
  A snake (src/snake.c): its head, the trails its head left and the curve fitted to them,
  stepping by a command, removing segments that are no longer needed, and the roll back of
  a predicted snake to a frame that the server has acknowledged.

  From here on the allocator is taken to have memory, and what fresh memory holds is the
  record \<open>junk\<close>. A ring buffer of trails has 8 bit indices, so its growth fails at 64 cells
  all the same. \<open>None\<close> is a crash (a null pointer is dereferenced) or a loop that does not
  return.
\<close>

record junk =
  j_pos :: "nat \<Rightarrow> qwpos"
  j_trail :: "nat \<Rightarrow> qwpos vec option"
  j_handle :: "nat \<Rightarrow> bezier_handle"
  j_aabb :: "nat \<Rightarrow> qwaabb"
  j_point :: "nat \<Rightarrow> bezier_point"
  j_cmd :: "nat \<Rightarrow> cmd"
  j_param :: snake_param

record snake_data =
  sd_name :: "8 word list"
  sd_trails :: "qwpos vec option rb option"
  sd_handles :: "bezier_handle rb option"
  sd_aabbs :: "qwaabb rb option"
  sd_points :: "bezier_point vec option"
  sd_aabb :: qwaabb

record snake =
  sn_cmdq :: cmd_queue
  sn_param :: snake_param
  sn_data :: snake_data
  sn_head :: snake_head
  sn_head_ack :: snake_head
  sn_hold :: bool

section \<open>Cells of a ring buffer, through their address\<close>

definition rb_store_at :: "int \<Rightarrow> 'a \<Rightarrow> 'a rb \<Rightarrow> 'a rb" where
  "rb_store_at i x rb = rb_store ((rb_read rb + i) AND (rb_capacity rb - 1)) x rb"

definition rb_store_write :: "'a \<Rightarrow> 'a rb \<Rightarrow> 'a rb" where
  "rb_store_write x rb = rb_store ((rb_write rb - 1) AND (rb_capacity rb - 1)) x rb"

text \<open>Emplacing and writing the new cell; a failed emplace is written through.\<close>

definition rb_append :: "nat \<Rightarrow> (nat \<Rightarrow> 'a) \<Rightarrow> 'a \<Rightarrow> 'a rb option \<Rightarrow> 'a rb option option" where
  "rb_append bits u x p =
     (case rb_emplace_realloc bits True u p of
        (Some w, Some rb) \<Rightarrow> Some (Some (rb_store w x rb))
      | _ \<Rightarrow> None)"

section \<open>Initialising\<close>

definition snake_head_init :: "qwpos \<Rightarrow> snake_head" where
  "snake_head_init spawn_pos = \<lparr>sh_pos = spawn_pos, sh_angle = make_qa 0, sh_speed = 0\<rparr>"

definition snake_data_init :: "junk \<Rightarrow> qwpos \<Rightarrow> 8 word list \<Rightarrow> snake_data option" where
  "snake_data_init J spawn_pos name =
     (let trail = snd (vec_push 16 True (j_pos J) vec_init spawn_pos);
          h = bezier_handle_init spawn_pos (make_qa 0);
          bb = make_qwaabbqw (px spawn_pos) (py spawn_pos) (px spawn_pos) (py spawn_pos)
      in case rb_append 8 (j_trail J) trail rb_init of None \<Rightarrow> None
         | Some trails \<Rightarrow>
       (case rb_append 16 (j_handle J) h rb_init of None \<Rightarrow> None
         | Some handles \<Rightarrow>
       (case rb_append 16 (j_handle J) h handles of None \<Rightarrow> None
         | Some handles \<Rightarrow>
       (case rb_append 16 (j_aabb J) bb rb_init of None \<Rightarrow> None
         | Some aabbs \<Rightarrow>
           Some \<lparr>sd_name = name, sd_trails = trails, sd_handles = handles, sd_aabbs = aabbs,
                 sd_points = vec_init, sd_aabb = bb\<rparr>))))"

definition snake_init :: "junk \<Rightarrow> qwpos \<Rightarrow> 8 word list \<Rightarrow> snake option" where
  "snake_init J spawn_pos name =
     (case snake_data_init J spawn_pos name of None \<Rightarrow> None
      | Some data \<Rightarrow>
          Some \<lparr>sn_cmdq = cmd_queue_init, sn_param = snake_param_init (j_param J), sn_data = data,
                sn_head = snake_head_init spawn_pos, sn_head_ack = snake_head_init spawn_pos,
                sn_hold = False\<rparr>)"

definition snake_set_hold :: "snake \<Rightarrow> snake" where
  "snake_set_hold s = s\<lparr>sn_hold := True\<rparr>"

definition snake_is_held :: "snake \<Rightarrow> bool" where
  "snake_is_held s = sn_hold s"

definition snake_try_reset_hold :: "snake \<Rightarrow> 16 word \<Rightarrow> bool \<times> snake" where
  "snake_try_reset_hold s frame_number =
     (let s = (if cmd_queue_count (sn_cmdq s) > 0 \<and> cmd_queue_frame_begin (sn_cmdq s) = frame_number
               then s\<lparr>sn_hold := False\<rparr> else s)
      in (\<not> sn_hold s, s))"

section \<open>The head\<close>

definition step_angle :: "qa \<Rightarrow> snake_param \<Rightarrow> cmd \<Rightarrow> 8 word \<Rightarrow> qa" where
  "step_angle angle param command sim_tick_rate =
     (let target_angle = i16 (u8_to_qa (cmd_angle command));
          angle_diff = qa_sub angle target_angle
      in if angle_diff > snake_turn_speed param
         then qa_sub angle (qa_mul (snake_turn_speed param) (make_qa2 (uint sim_tick_rate) 60))
         else if angle_diff < - snake_turn_speed param then qa_add angle (snake_turn_speed param)
         else target_angle)"

definition step_speed :: "8 word \<Rightarrow> snake_param \<Rightarrow> cmd \<Rightarrow> 8 word" where
  "step_speed speed param command =
     (let target_speed = (if cmd_action command = word_of_int (cmd_action_val CMD_ACTION_BOOST) then 255
            else word_of_int
              (i32 (qw_sub (snake_max_speed param) (snake_min_speed param) * uint (cmd_speed command)) sdiv
               qw_sub (snake_boost_speed param) (snake_min_speed param)));
          acc = uint (snake_acceleration param)
      in if uint speed - uint target_speed > acc then speed - snake_acceleration param
         else if uint speed - uint target_speed < - acc then speed + snake_acceleration param
         else target_speed)"

text \<open>The distance of a step along an axis, from the cosine or sine of the angle.\<close>

definition step_dist :: "qw \<Rightarrow> 8 word \<Rightarrow> snake_param \<Rightarrow> qw" where
  "step_dist dir speed param =
     (let d = qw_sub (snake_boost_speed param) (snake_min_speed param);
          d = i32 (qw_rescale d (uint speed) 255);
          d = qw_add d (snake_min_speed param)
      in qw_mul dir d)"

definition snake_step_head :: "libm \<Rightarrow> snake_head \<Rightarrow> snake_param \<Rightarrow> cmd \<Rightarrow> 8 word \<Rightarrow> snake_head" where
  "snake_step_head L head param command sim_tick_rate =
     (let angle = step_angle (sh_angle head) param command sim_tick_rate;
          speed = step_speed (sh_speed head) param command;
          dx = step_dist (qa_cos L angle) speed param;
          dy = step_dist (qa_sin L angle) speed param
      in \<lparr>sh_pos = \<lparr>px = qw_add (px (sh_pos head)) dx, py = qw_add (py (sh_pos head)) dy\<rparr>,
          sh_angle = angle, sh_speed = speed\<rparr>)"

section \<open>The curve\<close>

definition snake_update_aabb :: "snake_data \<Rightarrow> snake_data option" where
  "snake_update_aabb data =
     (case sd_aabbs data of None \<Rightarrow> None
      | Some rb \<Rightarrow>
          Some (data\<lparr>sd_aabb := foldl (\<lambda>bb i. qwaabb_union bb (rb_peek rb i)) (rb_peek rb 0)
                  [1..rb_count (Some rb) - 1]\<rparr>))"

text \<open>The box of the points of a trail.\<close>

definition aabb_widen :: "qwaabb \<Rightarrow> qwpos \<Rightarrow> qwaabb" where
  "aabb_widen bb p =
     (let bb = (if bx1 bb > px p then bb\<lparr>bx1 := px p\<rparr> else bb);
          bb = (if bx2 bb < px p then bb\<lparr>bx2 := px p\<rparr> else bb);
          bb = (if by1 bb > py p then bb\<lparr>by1 := py p\<rparr> else bb);
          bb = (if by2 bb < py p then bb\<lparr>by2 := py p\<rparr> else bb)
      in bb)"

definition snake_update_head_trail_aabb :: "snake_data \<Rightarrow> snake_data option" where
  "snake_update_head_trail_aabb data =
     (case (sd_aabbs data, sd_trails data) of
        (Some bbs, Some trails) \<Rightarrow>
          (case rb_peek_write trails of None \<Rightarrow> None
           | Some trail \<Rightarrow>
               let p = vec_get trail 0;
                   bb = foldl (\<lambda>bb i. aabb_widen bb (vec_get trail i))
                     (make_qwaabbqw (px p) (py p) (px p) (py p)) [1..vec_cnt trail - 1]
               in Some (data\<lparr>sd_aabbs := Some (rb_store_write bb bbs)\<rparr>))
      | _ \<Rightarrow> None)"

text \<open>Whether a new segment is needed, and the data.\<close>

definition snake_update_curve_from_head ::
  "libm \<Rightarrow> junk \<Rightarrow> snake_data \<Rightarrow> snake_head \<Rightarrow> (bool \<times> snake_data) option" where
  "snake_update_curve_from_head L J data head =
     (case (sd_trails data, sd_handles data) of
        (Some trails, Some handles) \<Rightarrow>
          (case snd (vec_push 16 True (j_pos J) (rb_peek_write trails) (sh_pos head)) of
             None \<Rightarrow> None
           | Some trail \<Rightarrow>
               let n = rb_count (Some handles)
               in (case bezier_fit_trail L (rb_peek handles (n - 1)) (rb_peek handles (n - 2)) trail of
                     None \<Rightarrow> None
                   | Some (error_squared, h, t) \<Rightarrow>
                       Some (error_squared > make_q16_16_2 1 16,
                         data\<lparr>sd_trails := Some (rb_store_write (Some trail) trails),
                              sd_handles := Some (rb_store_at (n - 2) t (rb_store_at (n - 1) h handles))\<rparr>)))
      | _ \<Rightarrow> None)"

definition snake_add_new_segment :: "junk \<Rightarrow> snake_data \<Rightarrow> snake_head \<Rightarrow> snake_data option" where
  "snake_add_new_segment J data head =
     (case rb_append 8 (j_trail J) (snd (vec_push 16 True (j_pos J) vec_init (sh_pos head))) (sd_trails data) of
        None \<Rightarrow> None
      | Some trails \<Rightarrow>
     (case rb_append 16 (j_handle J) (bezier_handle_init (sh_pos head) (qa_add (sh_angle head) QA_PI))
             (sd_handles data) of
        None \<Rightarrow> None
      | Some handles \<Rightarrow>
     (case rb_append 16 (j_aabb J)
             (make_qwaabbqw (px (sh_pos head)) (py (sh_pos head)) (px (sh_pos head)) (py (sh_pos head)))
             (sd_aabbs data) of
        None \<Rightarrow> None
      | Some aabbs \<Rightarrow>
          Some (data\<lparr>sd_trails := trails, sd_handles := handles, sd_aabbs := aabbs\<rparr>))))"

definition SNAKE_PART_SPACING :: qw where
  "SNAKE_PART_SPACING = make_qw2 1 6"

definition snake_sample_points :: "libm \<Rightarrow> junk \<Rightarrow> snake_data \<Rightarrow> snake_param \<Rightarrow> (int \<times> snake_data) option" where
  "snake_sample_points L J data param =
     (case bezier_calc_equidistant_points L (j_point J) (sd_points data) (sd_handles data)
             (qw_mul SNAKE_PART_SPACING (snake_scale param)) (snake_length param) of
        Some (Some (stale, pts)) \<Rightarrow> Some (stale, data\<lparr>sd_points := pts\<rparr>)
      | _ \<Rightarrow> None)"

text \<open>
  One step: the number of superfluous segments, the data and the head. Squeezing the
  handles does nothing.
\<close>

definition snake_step ::
  "libm \<Rightarrow> junk \<Rightarrow> snake_data \<Rightarrow> snake_head \<Rightarrow> snake_param \<Rightarrow> cmd \<Rightarrow> 8 word \<Rightarrow>
   (int \<times> snake_data \<times> snake_head) option" where
  "snake_step L J data head param command sim_tick_rate =
     (let head = snake_step_head L head param command sim_tick_rate
      in case snake_update_curve_from_head L J data head of None \<Rightarrow> None
       | Some (need_new_segment, data) \<Rightarrow>
      (case snake_update_head_trail_aabb data of None \<Rightarrow> None
       | Some data \<Rightarrow>
      (case snake_update_aabb data of None \<Rightarrow> None
       | Some data \<Rightarrow>
      (case (if need_new_segment then snake_add_new_segment J data head else Some data) of None \<Rightarrow> None
       | Some data \<Rightarrow>
      (let data = data\<lparr>sd_handles := bezier_squeeze_step (sd_handles data) (uint sim_tick_rate)\<rparr>
       in case snake_sample_points L J data param of None \<Rightarrow> None
        | Some (stale, data) \<Rightarrow> Some (stale, data, head))))))"

section \<open>Removing segments\<close>

text \<open>The oldest trail, handle and box.\<close>

definition snake_drop_segment :: "snake_data \<Rightarrow> snake_data option" where
  "snake_drop_segment data =
     (case (rbp_take (sd_trails data), rbp_take (sd_handles data), rbp_take (sd_aabbs data)) of
        (Some (_, trails), Some (_, handles), Some (_, aabbs)) \<Rightarrow>
          Some (data\<lparr>sd_trails := trails, sd_handles := handles, sd_aabbs := aabbs\<rparr>)
      | _ \<Rightarrow> None)"

fun drop_segments :: "nat \<Rightarrow> snake_data \<Rightarrow> snake_data option" where
  "drop_segments 0 data = Some data"
| "drop_segments (Suc n) data =
     (case snake_drop_segment data of None \<Rightarrow> None | Some data \<Rightarrow> drop_segments n data)"

definition snake_remove_stale_segments :: "snake_data \<Rightarrow> int \<Rightarrow> snake_data option" where
  "snake_remove_stale_segments data stale_segments =
     (case drop_segments (nat stale_segments) data of None \<Rightarrow> None | Some data \<Rightarrow> snake_update_aabb data)"

fun drop_segments_until :: "qwpos \<Rightarrow> nat \<Rightarrow> snake_data \<Rightarrow> snake_data option" where
  "drop_segments_until ack 0 data = Some data"
| "drop_segments_until ack (Suc n) data =
     (case sd_aabbs data of None \<Rightarrow> None
      | Some bbs \<Rightarrow>
          if qwaabb_test_qwpos (rb_peek_read bbs) ack then Some data
          else (case snake_drop_segment data of None \<Rightarrow> None | Some data \<Rightarrow> drop_segments_until ack n data))"

definition snake_remove_stale_segments_with_rollback_constraint ::
  "snake_data \<Rightarrow> snake_head \<Rightarrow> int \<Rightarrow> snake_data option" where
  "snake_remove_stale_segments_with_rollback_constraint data head_ack stale_segments =
     (case drop_segments_until (sh_pos head_ack) (nat stale_segments) data of None \<Rightarrow> None
      | Some data \<Rightarrow> snake_update_aabb data)"

section \<open>Acknowledged frames\<close>

text \<open>Catching up with the acknowledged frame.\<close>

lemma u16_le_wrap_step: "u16_le_wrap f g \<Longrightarrow> u16_le_wrap (f + 1) g \<Longrightarrow> unat (g - (f + 1)) < unat (g - f)"
proof -
  assume "u16_le_wrap (f + 1) g"
  then have "f \<noteq> g"
    using u16.gt_window [of 1 g] by (auto simp: u16_le_wrap_def)
  then have "unat (g - f) = Suc (unat (g - (f + 1)))"
    using unat_diff_Suc [of f g] by simp
  then show ?thesis by simp
qed

function ack_catch_up ::
  "libm \<Rightarrow> snake_param \<Rightarrow> 8 word \<Rightarrow> 16 word \<Rightarrow> 16 word \<Rightarrow> cmd_queue \<Rightarrow> snake_head \<Rightarrow> cmd_queue \<times> snake_head" where
  "ack_catch_up L param rate last_ackd_frame frame_number q head =
     (if u16_le_wrap last_ackd_frame frame_number then
        (case cmd_queue_take_or_predict q last_ackd_frame of (command, q) \<Rightarrow>
           ack_catch_up L param rate (last_ackd_frame + 1) frame_number q
             (snake_step_head L head param command rate))
      else (q, head))"
  by pat_completeness auto
termination
  by (relation "measure (\<lambda>(L, param, rate, f, g, q, head).
        if u16_le_wrap f g then Suc (unat (g - f)) else 0)")
     (auto dest: u16_le_wrap_step)

declare ack_catch_up.simps [simp del]

text \<open>
  Removing the point of one predicted frame. When the trail runs out its segment goes too,
  with the copy of the point at the end of the trail before.
\<close>

definition pop_last_trail :: "qwpos vec option rb \<Rightarrow> (int \<times> qwpos vec option rb) option" where
  "pop_last_trail trails =
     (case rb_peek_write trails of None \<Rightarrow> None
      | Some trail \<Rightarrow>
          let trail = snd (vec_pop trail)
          in Some (vec_cnt trail, rb_store_write (Some trail) trails))"

definition rollback_point :: "snake_data \<Rightarrow> snake_data option" where
  "rollback_point data =
     (case sd_trails data of None \<Rightarrow> None
      | Some trails \<Rightarrow>
          (case pop_last_trail trails of None \<Rightarrow> None
           | Some (n, trails) \<Rightarrow>
               if n = 0 then
                 (case (rb_takew trails, rbp_takew (sd_handles data), rbp_takew (sd_aabbs data)) of
                    ((_, trails), Some (_, handles), Some (_, aabbs)) \<Rightarrow>
                      (case pop_last_trail trails of None \<Rightarrow> None
                       | Some (_, trails) \<Rightarrow>
                           Some (data\<lparr>sd_trails := Some trails, sd_handles := handles, sd_aabbs := aabbs\<rparr>))
                  | _ \<Rightarrow> None)
               else Some (data\<lparr>sd_trails := Some trails\<rparr>)))"

lemma u16_gt_wrap_step: "u16_gt_wrap (f - 1) g \<Longrightarrow> u16_gt_wrap f g \<Longrightarrow> unat (f - 1 - g) < unat (f - g)"
proof -
  assume "u16_gt_wrap f g"
  then have "g \<noteq> f"
    using u16.gt_irrefl by auto
  then have "unat (f - g) = Suc (unat (f - g - 1))"
    using unat_diff_Suc [of g f] by (simp add: algebra_simps)
  then show ?thesis by (simp add: algebra_simps)
qed

function rollback_points :: "16 word \<Rightarrow> 16 word \<Rightarrow> snake_data \<Rightarrow> snake_data option" where
  "rollback_points predicted_frame frame_number data =
     (if u16_gt_wrap predicted_frame frame_number then
        (case rollback_point data of None \<Rightarrow> None
         | Some data \<Rightarrow> rollback_points (predicted_frame - 1) frame_number data)
      else Some data)"
  by pat_completeness auto
termination
  by (relation "measure (\<lambda>(f, g, data). if u16_gt_wrap f g then Suc (unat (f - g)) else 0)")
     (auto dest: u16_gt_wrap_step)

declare rollback_points.simps [simp del]

text \<open>The curve follows the head, with a new segment when the fit is too bad.\<close>

definition snake_extend :: "libm \<Rightarrow> junk \<Rightarrow> snake_data \<Rightarrow> snake_head \<Rightarrow> (bool \<times> snake_data) option" where
  "snake_extend L J data head =
     (case snake_update_curve_from_head L J data head of None \<Rightarrow> None
      | Some (need, data) \<Rightarrow>
          if need then
            (case snake_update_head_trail_aabb data of None \<Rightarrow> None
             | Some data \<Rightarrow>
                 (case snake_add_new_segment J data head of None \<Rightarrow> None
                  | Some data \<Rightarrow> Some (True, data)))
          else Some (False, data))"

fun resimulate ::
  "libm \<Rightarrow> junk \<Rightarrow> snake_param \<Rightarrow> 8 word \<Rightarrow> cmd list \<Rightarrow> int \<Rightarrow> snake_data \<Rightarrow> snake_head \<Rightarrow>
   (snake_data \<times> snake_head) option" where
  "resimulate L J param rate [] handles_to_squeeze data head = Some (data, head)"
| "resimulate L J param rate (command # cs) handles_to_squeeze data head =
     (let head = snake_step_head L head param command rate
      in case snake_extend L J data head of None \<Rightarrow> None
       | Some (need, data) \<Rightarrow>
           let handles_to_squeeze = (if need then handles_to_squeeze + 1 else handles_to_squeeze);
               data = data\<lparr>sd_handles := bezier_squeeze_n_recent_step (sd_handles data) handles_to_squeeze (uint rate)\<rparr>
           in resimulate L J param rate cs handles_to_squeeze data head)"

definition cmd_queue_commands :: "cmd_queue \<Rightarrow> cmd list" where
  "cmd_queue_commands q = (case cq_rb q of None \<Rightarrow> []
     | Some rb \<Rightarrow> map (\<lambda>i. rb_data rb ! nat i) (rb_for_each_indices (Some rb)))"

text \<open>The data, the acknowledged head, the predicted head and the command queue.\<close>

definition snake_ack_frame ::
  "libm \<Rightarrow> junk \<Rightarrow> snake_data \<Rightarrow> snake_head \<Rightarrow> snake_head \<Rightarrow> snake_head \<Rightarrow> snake_param \<Rightarrow> cmd_queue \<Rightarrow>
   16 word \<Rightarrow> 8 word \<Rightarrow> (snake_data \<times> snake_head \<times> snake_head \<times> cmd_queue) option" where
  "snake_ack_frame L J data acknowledged_head predicted_head authoritative_head param q frame_number rate =
     (if cmd_queue_count q = 0 then Some (data, acknowledged_head, predicted_head, q)
      else
        let last_ackd_frame = cmd_queue_frame_begin q; predicted_frame = cmd_queue_frame_end q
        in if u16_lt_wrap frame_number last_ackd_frame \<or> u16_gt_wrap frame_number predicted_frame
           then Some (data, acknowledged_head, predicted_head, q)
           else (case ack_catch_up L param rate last_ackd_frame frame_number q acknowledged_head of
             (q, acknowledged_head) \<Rightarrow>
               if snake_heads_are_equal acknowledged_head authoritative_head
               then Some (data, acknowledged_head, predicted_head, q)
               else
                 (case rollback_points predicted_frame frame_number data of None \<Rightarrow> None
                  | Some data \<Rightarrow>
                 (case snake_extend L J data authoritative_head of None \<Rightarrow> None
                  | Some (need, data) \<Rightarrow>
                 (case resimulate L J param rate (cmd_queue_commands q) (if need then 1 else 0) data
                         authoritative_head of None \<Rightarrow> None
                  | Some (data, predicted_head) \<Rightarrow>
                 (case snake_update_head_trail_aabb data of None \<Rightarrow> None
                  | Some data \<Rightarrow>
                 (case snake_update_aabb data of None \<Rightarrow> None
                  | Some data \<Rightarrow>
                 (case snake_sample_points L J data param of None \<Rightarrow> None
                  | Some (_, data) \<Rightarrow> Some (data, authoritative_head, predicted_head, q)))))))))"

end
