(* ===== verification/Snake_Curve.thy ===== *)
theory Snake_Curve
  imports Snake
begin

text \<open>
  The curve of a snake over lists: its trails, the positions of its handles and its boxes,
  and what every operation of \<open>Snake\<close> does to them. The points of the trails, without the
  copies at the joints, are the history of the head's positions (\<open>curve_points\<close>).
\<close>

section \<open>Cells\<close>

lemma rb_store_list:
  assumes "rb_ok bits rb" "0 \<le> i" "i < rb_count (Some rb)"
  shows "rb_ok bits (rb_store_at i x rb) \<and> rb_list (rb_store_at i x rb) = (rb_list rb)[nat i := x]"
proof -
  note d = rb_okD [OF assms(1)] and b = rb_count_bounds [OF assms(1)]
  let ?c = "rb_capacity rb" and ?r = "rb_read rb" and ?n = "rb_count (Some rb)"
  define w where "w = (?r + i) mod ?c"
  have w: "rb_store_at i x rb = rb\<lparr>rb_data := (rb_data rb)[nat w := x]\<rparr>" "0 \<le> w" "w < ?c"
    using d(1) rb_and [OF assms(1)] by (simp_all add: rb_store_at_def rb_store_def w_def)
  have ok: "rb_ok bits (rb_store_at i x rb)"
    using assms(1) by (simp add: w(1) rb_ok_def)
  have n: "rb_count (Some (rb_store_at i x rb)) = ?n"
    by (simp add: w(1) rb_count_def)
  have "rb_list (rb_store_at i x rb) = (rb_list rb)[nat i := x]"
  proof (rule nth_equalityI)
    show "length (rb_list (rb_store_at i x rb)) = length ((rb_list rb)[nat i := x])"
      by (simp add: length_rb_list n)
    fix j
    assume "j < length (rb_list (rb_store_at i x rb))"
    then have j: "int j < ?n"
      by (simp add: length_rb_list n)
    let ?p = "(?r + int j) mod ?c"
    have p: "0 \<le> ?p" "?p < ?c"
      using d(1) by simp_all
    have "?p = w \<longleftrightarrow> int j = i"
      using ring_pos_inj [of ?r "int j" ?c i] j assms(2,3) b(2) by (auto simp: w_def)
    then have "nat ?p = nat w \<longleftrightarrow> j = nat i"
      using p(1) w(2) assms(2) by (simp add: eq_nat_nat_iff) linarith
    moreover have "nat w < length (rb_data rb)"
      using w(2,3) d(6) by linarith
    moreover have "nat i < length (rb_list rb)"
      using assms(2,3) by (simp add: length_rb_list)
    ultimately show "rb_list (rb_store_at i x rb) ! j = (rb_list rb)[nat i := x] ! j"
      using rb_list_nth [OF ok, of j, unfolded n] rb_list_nth [OF assms(1), of j] j
      by (auto simp: w(1) nth_list_update)
  qed
  with ok show ?thesis by blast
qed

lemma rb_store_write_at:
  assumes "rb_ok bits rb"
  shows "rb_store_write x rb = rb_store_at (rb_count (Some rb) - 1) x rb"
proof -
  have "(rb_read rb + (rb_count (Some rb) - 1)) mod rb_capacity rb = (rb_write rb - 1) mod rb_capacity rb"
    using ring_count_step(3) [OF rb_okD(1) [OF assms], of "rb_read rb" "rb_write rb"]
    by (simp add: rb_count_mod [OF assms] add_diff_eq mod_diff_left_eq [symmetric, of "rb_read rb + _"])
       (simp add: mod_diff_left_eq)
  then show ?thesis
    by (simp add: rb_store_write_def rb_store_at_def rb_and [OF assms])
qed

lemma rb_store_write_list:
  assumes "rb_ok bits rb" "rb_list rb \<noteq> []"
  shows "rb_ok bits (rb_store_write x rb) \<and> rb_list (rb_store_write x rb) = butlast (rb_list rb) @ [x]"
proof -
  have n: "0 < rb_count (Some rb)"
    using assms(2) length_rb_list [of rb] by (cases "rb_list rb") auto
  have e: "nat (rb_count (Some rb) - 1) = length (rb_list rb) - 1"
    by (simp add: length_rb_list nat_diff_distrib')
  have u: "xs[length xs - 1 := x] = butlast xs @ [x]" if "xs \<noteq> []" for xs :: "'a list"
    using that by (metis list_update_append1 append_butlast_last_id butlast_snoc length_append_singleton
        diff_Suc_1 list_update_length)
  show ?thesis
    using rb_store_list [OF assms(1), of "rb_count (Some rb) - 1" x] n u [OF assms(2)]
    unfolding rb_store_write_at [OF assms(1)] e by simp
qed

lemma pow_pred: "1 < n \<Longrightarrow> (2::int) ^ (n - 1) = 2 * 2 ^ (n - 2)"
  by (cases n) (auto simp: power_Suc [symmetric] Suc_diff_Suc numeral_2_eq_2 simp del: power_Suc)

lemma rb_can_grow_count:
  assumes "rbp_ok bits p" "5 < bits" "int (length (rbp_list p)) < 2 ^ (bits - 2) - 1"
  shows "rb_can_grow bits True p"
proof (cases p)
  case (Some rb)
  then have ok: "rb_ok bits rb" "rb_count (Some rb) < 2 ^ (bits - 2) - 1"
    using assms rb_count_bounds(1) [of bits rb]
    by (simp_all add: rbp_ok_def rbp_list_def length_rb_list)
  have "rb_capacity rb * 2 < 2 ^ (bits - 1)" if "rb_is_full p"
  proof -
    have "rb_capacity rb < 2 ^ (bits - 2)"
      using that ok rb_is_full_iff [OF ok(1)] Some by simp
    then show ?thesis
      using pow_pred [of bits] assms(2) by simp
  qed
  then show ?thesis
    by (simp add: rb_can_grow_def Some)
qed (simp add: rb_can_grow_def)

lemma rb_append_list:
  assumes "rbp_ok bits p" "5 < bits" "int (length (rbp_list p)) < 2 ^ (bits - 2) - 1"
  shows "\<exists>q. rb_append bits u x p = Some q \<and> rbp_ok bits q \<and> rbp_list q = rbp_list p @ [x] \<and> q \<noteq> None"
proof -
  obtain q where q: "rb_put_realloc bits True u p x = (0, q)" "rbp_ok bits q" "rbp_list q = rbp_list p @ [x]"
    using rb_put_realloc_room [OF assms(1,2) rb_can_grow_count [OF assms]] by blast
  have "(case rb_emplace_realloc bits True u p of
      (Some w, Some rb) \<Rightarrow> (0, Some (rb_store w x rb)) | (_, q) \<Rightarrow> (-1, q)) = (0 :: int, q)"
    using rb_emplace_realloc_store [OF assms(1,2), where ok = True and u = u and x = x] q(1) by simp
  then show ?thesis
    using q(2,3) by (auto simp: rb_append_def split: prod.splits option.splits)
qed

lemma vec_can_grow_count:
  assumes "vecp_ok bits p" "1 < bits" "int (length (vecp_list p)) < 2 ^ (bits - 2)"
  shows "vec_can_grow bits True p"
proof (cases p)
  case (Some v)
  show ?thesis
    using assms Some length_vec_list [of bits v] pow_pred [of bits] by (simp add: vec_can_grow_def)
qed (simp add: vec_can_grow_def)

lemma vec_push_list:
  assumes "vecp_ok 16 p" "length (vecp_list p) < 16384"
  shows "\<exists>v. snd (vec_push 16 True u p x) = Some v \<and> vec_ok 16 v \<and> vec_list v = vecp_list p @ [x]"
proof -
  have "vec_can_grow 16 True p"
    using assms by (intro vec_can_grow_count) simp_all
  then obtain q where "vec_push 16 True u p x = (0, q)" "vecp_ok 16 q" "vecp_list q = vecp_list p @ [x]"
    using vec_push_room [OF assms(1)] by fastforce
  then show ?thesis
    by (cases q) auto
qed

section \<open>The lists a snake's data stands for\<close>

definition curve_rep ::
  "snake_data \<Rightarrow> qwpos list list \<Rightarrow> qwpos list \<Rightarrow> qwaabb list \<Rightarrow> bool" where
  "curve_rep d T H B \<longleftrightarrow>
     rbp_ok 8 (sd_trails d) \<and> rbp_ok 16 (sd_handles d) \<and> rbp_ok 16 (sd_aabbs d) \<and>
     (\<forall>t \<in> set (rbp_list (sd_trails d)). vecp_ok 16 t) \<and>
     T = map vecp_list (rbp_list (sd_trails d)) \<and> H = map bh_pos (rbp_list (sd_handles d)) \<and>
     B = rbp_list (sd_aabbs d)"

lemma curve_rep_keep:
  "curve_rep d T H B \<Longrightarrow> curve_rep (d\<lparr>sd_aabb := bb\<rparr>) T H B"
  "curve_rep d T H B \<Longrightarrow> curve_rep (d\<lparr>sd_points := pts\<rparr>) T H B"
  by (simp_all add: curve_rep_def)

lemma rbp_SomeE:
  assumes "rbp_list p \<noteq> []" "rbp_ok bits p"
  obtains rb where "p = Some rb" "rb_ok bits rb" "rb_list rb = rbp_list p" "rb_list rb \<noteq> []"
  using assms by (cases p) (auto simp: rbp_ok_def rbp_list_def)

lemma bezier_fit_trail_ends:
  assumes "vec_ok bits v" "vec_list v \<noteq> []"
  shows "\<exists>err h t. bezier_fit_trail L head tail v = Some (err, h, t) \<and>
    bh_pos h = last (vec_list v) \<and> bh_pos t = bh_pos tail \<and> (length (vec_list v) \<le> 4 \<longrightarrow> err = 0)"
proof -
  have n: "int (length (vec_list v)) = vec_cnt v" "0 < length (vec_list v)" "0 < vec_cnt v"
    using length_vec_list [OF assms(1)] assms(2) by (simp_all, cases "vec_list v") simp_all
  note pm = vec_last_list [OF assms]
  have "bezier_fit_trail L head tail v \<noteq> None"
    using n by (cases "fit_many L head tail v") (auto simp: bezier_fit_trail_def Let_def)
  then obtain err h t where "bezier_fit_trail L head tail v = Some (err, h, t)"
    by (metis option.exhaust prod_cases3)
  moreover have "bh_pos h = last (vec_list v) \<and> bh_pos t = bh_pos tail \<and> (length (vec_list v) \<le> 4 \<longrightarrow> err = 0)"
    if "bezier_fit_trail L head tail v = Some (err, h, t)" for err h t
    using that n pm
    by (auto simp: bezier_fit_trail_def fit_few_def fit_many_def Let_def split: if_splits prod.splits)
  ultimately show ?thesis by blast
qed

lemma list_update_last2:
  assumes "2 \<le> length xs"
  shows "xs[length xs - 1 := h, length xs - 2 := t] = take (length xs - 2) xs @ [t, h]"
proof -
  obtain ys b where ys: "xs = ys @ [b]"
    using assms by (cases xs rule: rev_cases) auto
  then obtain zs a where "ys = zs @ [a]"
    using assms by (cases ys rule: rev_cases) auto
  with ys show ?thesis
    by (simp add: list_update_append)
qed

lemma update_curve_rep:
  assumes "curve_rep d T H B" "T \<noteq> []" "length H = Suc (length T)" "length (last T) < 16384"
  shows "\<exists>need d'. snake_update_curve_from_head L J d head = Some (need, d') \<and>
    curve_rep d' (butlast T @ [last T @ [sh_pos head]]) (butlast H @ [sh_pos head]) B \<and>
    (need \<longrightarrow> 4 \<le> length (last T)) \<and> sd_aabb d' = sd_aabb d"
proof -
  let ?tr = "rbp_list (sd_trails d)" and ?hs = "rbp_list (sd_handles d)"
  have r: "rbp_ok 8 (sd_trails d)" "rbp_ok 16 (sd_handles d)" "T = map vecp_list ?tr" "H = map bh_pos ?hs"
    "\<forall>t \<in> set ?tr. vecp_ok 16 t"
    using assms(1) by (simp_all add: curve_rep_def)
  have ne: "?tr \<noteq> []" "2 \<le> length ?hs"
    using r(3,4) assms(2,3) by (auto simp: Suc_le_eq)
  obtain tb where tb: "sd_trails d = Some tb" "rb_ok 8 tb" "rb_list tb = ?tr" "rb_list tb \<noteq> []"
    using rbp_SomeE [OF ne(1) r(1)] by blast
  have "?hs \<noteq> []"
    using ne(2) by auto
  then obtain hb where hb: "sd_handles d = Some hb" "rb_ok 16 hb" "rb_list hb = ?hs" "rb_list hb \<noteq> []"
    using rbp_SomeE [OF _ r(2)] by blast
  have lastT: "last T = vecp_list (last ?tr)" "vecp_ok 16 (last ?tr)"
    using r(3,5) ne(1) by (simp_all add: last_map)
  obtain v where v: "snd (vec_push 16 True (j_pos J) (rb_peek_write tb) (sh_pos head)) = Some v"
    "vec_ok 16 v" "vec_list v = last T @ [sh_pos head]"
    using vec_push_list [OF lastT(2)] assms(4) lastT(1) rb_peek_write_last [OF tb(2,4)] tb(3) by metis
  let ?n = "rb_count (Some hb)"
  have n: "?n = int (length ?hs)"
    using rb_count_bounds(1) [OF hb(2)] length_rb_list [of hb] hb(3) by simp
  obtain err h t where fit: "bezier_fit_trail L (rb_peek hb (?n - 1)) (rb_peek hb (?n - 2)) v = Some (err, h, t)"
    "bh_pos h = sh_pos head" "bh_pos t = bh_pos (rb_peek hb (?n - 2))" "length (vec_list v) \<le> 4 \<longrightarrow> err = 0"
    using bezier_fit_trail_ends [OF v(2), of L "rb_peek hb (?n - 1)" "rb_peek hb (?n - 2)"] v(3) by auto
  let ?tb = "rb_store_write (Some v) tb" and ?h1 = "rb_store_at (?n - 1) h hb"
  note st = rb_store_write_list [OF tb(2,4), of "Some v"]
  have h1: "rb_ok 16 ?h1" "rb_list ?h1 = ?hs[length ?hs - 1 := h]"
    using rb_store_list [OF hb(2), of "?n - 1" h] ne(2) n hb(3,4) by (simp_all add: nat_diff_distrib')
  moreover have "rb_count (Some ?h1) = ?n"
    by (simp add: rb_count_def rb_store_at_def rb_store_def)
  ultimately have h2: "rb_ok 16 (rb_store_at (?n - 2) t ?h1) \<and>
      rb_list (rb_store_at (?n - 2) t ?h1) = ?hs[length ?hs - 1 := h, length ?hs - 2 := t]"
    using rb_store_list [OF h1(1), of "?n - 2" t] ne(2) n by (simp add: nat_diff_distrib')
  let ?d = "d\<lparr>sd_trails := Some ?tb, sd_handles := Some (rb_store_at (?n - 2) t ?h1)\<rparr>"
  have "bh_pos t = bh_pos (?hs ! (length ?hs - 2))"
    using fit(3) rb_peek_nth [OF hb(2), of "?n - 2"] ne(2) n hb(3) by (simp add: nat_diff_distrib')
  then have pos: "map bh_pos (?hs[length ?hs - 1 := h, length ?hs - 2 := t]) = butlast H @ [sh_pos head]"
    using ne(2) r(4) fit(2) take_Suc_conv_app_nth [of "length ?hs - 2" ?hs]
    unfolding list_update_last2 [OF ne(2)]
    by (simp add: take_map butlast_conv_take Suc_diff_Suc numeral_2_eq_2)
  have rep: "curve_rep ?d (butlast T @ [last T @ [sh_pos head]]) (butlast H @ [sh_pos head]) B"
    using assms(1) st h2 v(2,3) pos tb(3)
    by (auto simp: curve_rep_def rbp_ok_def rbp_list_def map_butlast dest!: in_set_butlastD)
  have e: "snake_update_curve_from_head L J d head = Some (err > make_q16_16_2 1 16, ?d)"
    using fit(1) v(1) by (simp add: snake_update_curve_from_head_def tb(1) hb(1) Let_def)
  have "4 \<le> length (last T)" if "err > make_q16_16_2 1 16"
    using that fit(4) v(3) by (auto simp: make_q16_16_2_def i32_id not_le)
  with e rep show ?thesis by fastforce
qed

lemma curve_rep_SomeE:
  assumes "curve_rep d T H B" "T \<noteq> []" "H \<noteq> []" "B \<noteq> []"
  obtains tb hb bb where
    "sd_trails d = Some tb" "rb_ok 8 tb" "rb_list tb \<noteq> []" "T = map vecp_list (rb_list tb)"
    "\<forall>t \<in> set (rb_list tb). vecp_ok 16 t"
    "sd_handles d = Some hb" "rb_ok 16 hb" "rb_list hb \<noteq> []" "H = map bh_pos (rb_list hb)"
    "sd_aabbs d = Some bb" "rb_ok 16 bb" "rb_list bb \<noteq> []" "B = rb_list bb"
proof -
  have ne: "rbp_list (sd_trails d) \<noteq> []" "rbp_list (sd_handles d) \<noteq> []" "rbp_list (sd_aabbs d) \<noteq> []"
    using assms by (auto simp: curve_rep_def)
  have ok: "rbp_ok 8 (sd_trails d)" "rbp_ok 16 (sd_handles d)" "rbp_ok 16 (sd_aabbs d)"
    using assms(1) by (simp_all add: curve_rep_def)
  obtain tb where "sd_trails d = Some tb" "rb_ok 8 tb" "rb_list tb = rbp_list (sd_trails d)" "rb_list tb \<noteq> []"
    using rbp_SomeE [OF ne(1) ok(1)] by blast
  moreover obtain hb where "sd_handles d = Some hb" "rb_ok 16 hb" "rb_list hb = rbp_list (sd_handles d)"
    "rb_list hb \<noteq> []"
    using rbp_SomeE [OF ne(2) ok(2)] by blast
  moreover obtain bb where "sd_aabbs d = Some bb" "rb_ok 16 bb" "rb_list bb = rbp_list (sd_aabbs d)"
    "rb_list bb \<noteq> []"
    using rbp_SomeE [OF ne(3) ok(3)] by blast
  ultimately show thesis
    using assms(1) by (intro that [of tb hb bb]) (simp_all add: curve_rep_def)
qed

text \<open>The box of a trail covers its points.\<close>

definition point_box :: "qwpos \<Rightarrow> qwaabb" where
  "point_box p = make_qwaabbqw (px p) (py p) (px p) (py p)"

definition trail_box :: "qwpos list \<Rightarrow> qwaabb" where
  "trail_box t = foldl aabb_widen (point_box (hd t)) (tl t)"

lemma point_box_test: "qwaabb_test_qwpos (point_box p) p"
  by (simp add: point_box_def make_qwaabbqw_def qwaabb_test_qwpos_def)

lemma aabb_widen_test:
  "qwaabb_test_qwpos bb q \<or> q = p \<Longrightarrow> qwaabb_test_qwpos (aabb_widen bb p) q" if "aabb_valid bb"
  using that by (auto simp: aabb_widen_def qwaabb_test_qwpos_def Let_def aabb_valid_def)

lemma aabb_widen_valid: "aabb_valid bb \<Longrightarrow> aabb_valid (aabb_widen bb p)"
  by (auto simp: aabb_widen_def aabb_valid_def Let_def)

lemma foldl_widen:
  "aabb_valid bb \<Longrightarrow> q \<in> set ps \<or> qwaabb_test_qwpos bb q \<Longrightarrow> qwaabb_test_qwpos (foldl aabb_widen bb ps) q"
  by (induction ps arbitrary: bb) (auto simp: aabb_widen_test aabb_widen_valid)

lemma trail_box_covers: "q \<in> set t \<Longrightarrow> qwaabb_test_qwpos (trail_box t) q"
proof -
  assume "q \<in> set t"
  then have "q \<in> set (tl t) \<or> q = hd t"
    by (cases t) auto
  moreover have "aabb_valid (point_box (hd t))"
    by (simp add: point_box_def make_qwaabbqw_def aabb_valid_def)
  ultimately show ?thesis
    unfolding trail_box_def by (intro foldl_widen) (auto simp: point_box_test)
qed

lemma vec_cnt_pos: "vec_ok bits v \<Longrightarrow> vec_list v \<noteq> [] \<Longrightarrow> 0 < vec_cnt v"
  using length_vec_list [of bits v] by (cases "vec_list v") simp_all

lemma foldl_vec_get:
  assumes "vec_ok bits v" "vec_list v \<noteq> []"
  shows "foldl (\<lambda>bb i. f bb (vec_get v i)) b [1..vec_cnt v - 1] = foldl f b (tl (vec_list v))"
proof -
  have n: "vec_cnt v = int (length (vec_list v))"
    using length_vec_list [OF assms(1)] by simp
  have "map (vec_get v) [1..vec_cnt v - 1] = tl (vec_list v)"
  proof (rule nth_equalityI)
    fix i
    assume "i < length (map (vec_get v) [1..vec_cnt v - 1])"
    then have i: "Suc i < length (vec_list v)"
      by (simp add: n)
    then show "map (vec_get v) [1..vec_cnt v - 1] ! i = tl (vec_list v) ! i"
      using vec_get_nth [OF assms(1), of "1 + int i"] by (simp add: n nth_tl nat_add_distrib)
  qed (simp add: n)
  then show ?thesis
    by (metis foldl_map)
qed

lemma head_trail_aabb_rep:
  assumes "curve_rep d T H B" "T \<noteq> []" "H \<noteq> []" "B \<noteq> []" "last T \<noteq> []"
  shows "\<exists>d'. snake_update_head_trail_aabb d = Some d' \<and>
    curve_rep d' T H (butlast B @ [trail_box (last T)]) \<and> sd_aabb d' = sd_aabb d"
proof -
  obtain tb hb bb where r:
    "sd_trails d = Some tb" "rb_ok 8 tb" "rb_list tb \<noteq> []" "T = map vecp_list (rb_list tb)"
    "\<forall>t \<in> set (rb_list tb). vecp_ok 16 t"
    "sd_handles d = Some hb" "rb_ok 16 hb" "rb_list hb \<noteq> []" "H = map bh_pos (rb_list hb)"
    "sd_aabbs d = Some bb" "rb_ok 16 bb" "rb_list bb \<noteq> []" "B = rb_list bb"
    using curve_rep_SomeE [OF assms(1-4)] by metis
  have l: "rb_peek_write tb = last (rb_list tb)" "vecp_list (last (rb_list tb)) = last T"
    using rb_peek_write_last [OF r(2,3)] r(3,4) by (simp_all add: last_map)
  obtain v where v: "rb_peek_write tb = Some v"
    using l assms(5) by (cases "last (rb_list tb)") auto
  then have v': "vec_ok 16 v" "vec_list v = last T"
    using r(3,5) l by (metis last_in_set vecp_simps(2), metis vecp_simps(4))
  have g: "vec_get v 0 = hd (last T)"
    using vec_get_nth [OF v'(1), of 0] vec_cnt_pos [OF v'(1)] v' assms(5) by (simp add: hd_conv_nth)
  have e: "snake_update_head_trail_aabb d = Some (d\<lparr>sd_aabbs := Some (rb_store_write (trail_box (last T)) bb)\<rparr>)"
    using v foldl_vec_get [OF v'(1), of aabb_widen "point_box (hd (last T))"] v' assms(5)
    by (simp add: snake_update_head_trail_aabb_def r(1,10) Let_def g trail_box_def point_box_def)
  moreover have "curve_rep (d\<lparr>sd_aabbs := Some (rb_store_write (trail_box (last T)) bb)\<rparr>) T H
      (butlast B @ [trail_box (last T)])"
    using assms(1) rb_store_write_list [OF r(11,12), of "trail_box (last T)"] r(13)
    by (simp add: curve_rep_def rbp_ok_def rbp_list_def)
  ultimately show ?thesis by simp
qed

lemma foldl_rb_peek:
  assumes "rb_ok bits rb" "rb_list rb \<noteq> []"
  shows "foldl (\<lambda>b i. f b (rb_peek rb i)) (rb_peek rb 0) [1..rb_count (Some rb) - 1] =
    foldl f (hd (rb_list rb)) (tl (rb_list rb))"
proof -
  have n: "rb_count (Some rb) = int (length (rb_list rb))"
    using rb_count_bounds(1) [OF assms(1)] length_rb_list [of rb] by simp
  have "map (rb_peek rb) [1..rb_count (Some rb) - 1] = tl (rb_list rb)"
  proof (rule nth_equalityI)
    fix i
    assume "i < length (map (rb_peek rb) [1..rb_count (Some rb) - 1])"
    then have i: "Suc i < length (rb_list rb)"
      by (simp add: n)
    then show "map (rb_peek rb) [1..rb_count (Some rb) - 1] ! i = tl (rb_list rb) ! i"
      using rb_peek_nth [OF assms(1), of "1 + int i"] by (simp add: n nth_tl nat_add_distrib)
  qed (simp add: n)
  moreover have "rb_peek rb 0 = hd (rb_list rb)"
    using rb_peek_nth [OF assms(1), of 0] assms(2) by (simp add: n hd_conv_nth)
  ultimately show ?thesis
    by (metis foldl_map)
qed

definition union_boxes :: "qwaabb list \<Rightarrow> qwaabb" where
  "union_boxes B = foldl qwaabb_union (hd B) (tl B)"

lemma foldl_union_test:
  "qwaabb_test_qwpos bb p \<or> (\<exists>b \<in> set B. qwaabb_test_qwpos b p) \<Longrightarrow>
   qwaabb_test_qwpos (foldl qwaabb_union bb B) p"
  by (induction B arbitrary: bb) (auto simp: qwaabb_union_test)

lemma union_boxes_test: "b \<in> set B \<Longrightarrow> qwaabb_test_qwpos b p \<Longrightarrow> qwaabb_test_qwpos (union_boxes B) p"
  unfolding union_boxes_def by (rule foldl_union_test) (cases B, auto)

lemma update_aabb_rep:
  assumes "curve_rep d T H B" "B \<noteq> []"
  shows "snake_update_aabb d = Some (d\<lparr>sd_aabb := union_boxes B\<rparr>)"
proof -
  have "rbp_list (sd_aabbs d) \<noteq> []" "rbp_ok 16 (sd_aabbs d)" "B = rbp_list (sd_aabbs d)"
    using assms by (simp_all add: curve_rep_def)
  then obtain rb where "sd_aabbs d = Some rb" "rb_ok 16 rb" "rb_list rb = B" "rb_list rb \<noteq> []"
    using rbp_SomeE by metis
  then show ?thesis
    using foldl_rb_peek [of 16 rb qwaabb_union] by (simp add: snake_update_aabb_def union_boxes_def)
qed

lemma add_segment_rep:
  assumes "curve_rep d T H B" "length T < 63" "length H < 16383" "length B < 16383"
  shows "\<exists>d'. snake_add_new_segment J d head = Some d' \<and>
    curve_rep d' (T @ [[sh_pos head]]) (H @ [sh_pos head]) (B @ [point_box (sh_pos head)]) \<and>
    sd_aabb d' = sd_aabb d"
proof -
  let ?p = "sh_pos head"
  let ?t = "snd (vec_push 16 True (j_pos J) vec_init ?p)"
  let ?h = "bezier_handle_init ?p (qa_add (sh_angle head) QA_PI)"
  note r = assms(1) [unfolded curve_rep_def]
  obtain v where v: "?t = Some v" "vec_ok 16 v" "vec_list v = [?p]"
    using vec_push_list [of None "j_pos J" ?p] by (auto simp: vec_init_def)
  obtain q where q: "rb_append 8 (j_trail J) ?t (sd_trails d) = Some q" "rbp_ok 8 q"
    "rbp_list q = rbp_list (sd_trails d) @ [?t]"
    using rb_append_list [of 8 "sd_trails d" "j_trail J" ?t] r assms(2) by auto
  obtain q1 where q1: "rb_append 16 (j_handle J) ?h (sd_handles d) = Some q1" "rbp_ok 16 q1"
    "rbp_list q1 = rbp_list (sd_handles d) @ [?h]"
    using rb_append_list [of 16 "sd_handles d" "j_handle J" ?h] r assms(3) by auto
  obtain q2 where q2: "rb_append 16 (j_aabb J) (point_box ?p) (sd_aabbs d) = Some q2" "rbp_ok 16 q2"
    "rbp_list q2 = rbp_list (sd_aabbs d) @ [point_box ?p]"
    using rb_append_list [of 16 "sd_aabbs d" "j_aabb J" "point_box ?p"] r assms(4) by auto
  have "snake_add_new_segment J d head = Some (d\<lparr>sd_trails := q, sd_handles := q1, sd_aabbs := q2\<rparr>)"
    using q(1) q1(1) q2(1) by (simp add: snake_add_new_segment_def point_box_def)
  moreover have "curve_rep (d\<lparr>sd_trails := q, sd_handles := q1, sd_aabbs := q2\<rparr>)
      (T @ [[?p]]) (H @ [?p]) (B @ [point_box ?p])"
    using r q(2,3) q1(2,3) q2(2,3) v
    by (auto simp: curve_rep_def bezier_handle_init_def)
  ultimately show ?thesis by simp
qed

text \<open>A snake has room for 63 trails; the next one is written through a null pointer.\<close>

lemma add_segment_crash:
  assumes "curve_rep d T H B" "length T = 63"
  shows "snake_add_new_segment J d head = None"
proof -
  have r: "rbp_ok 8 (sd_trails d)" "length (rbp_list (sd_trails d)) = 63"
    using assms by (auto simp: curve_rep_def)
  then have "rbp_list (sd_trails d) \<noteq> []"
    by auto
  then obtain rb where rb: "sd_trails d = Some rb" "rb_ok 8 rb" "rb_list rb = rbp_list (sd_trails d)"
    using rbp_SomeE [OF _ r(1)] by metis
  obtain k where k: "rb_capacity rb = 2 ^ k" "Suc k < 8"
    using rb(2) by (auto simp: rb_ok_def)
  have n: "rb_count (Some rb) = 63"
    using rb_count_bounds(1) [OF rb(2)] length_rb_list [of rb] rb(3) r(2) by simp
  have "k \<le> 6"
    using k(2) by simp
  then have "(2::int) ^ k \<le> 2 ^ 6"
    by (intro power_increasing) simp_all
  then have c: "rb_capacity rb = 64"
    using rb_count_bounds(2) [OF rb(2)] k n power_strict_increasing_iff [of "2::int" 5 k]
    by (cases "k = 6") (auto simp: le_less dest!: power_strict_increasing [of _ 6 "2::int"]
        intro: ccontr dest: power_increasing [of k 5 "2::int", simplified])
  then have "\<not> rb_can_grow 8 True (sd_trails d)"
    using rb_is_full_iff [OF rb(2)] n by (simp add: rb_can_grow_def rb(1))
  note no = rb_put_realloc_no_room [OF r(1) _ this]
  have "(case rb_emplace_realloc 8 True u (sd_trails d) of
      (Some w, Some rb) \<Rightarrow> (0, Some (rb_store w x rb)) | (_, q) \<Rightarrow> (-1, q)) = (-1 :: int, sd_trails d)" for u x
    using rb_emplace_realloc_store [OF r(1), where ok = True and u = u and x = x] no [of u x] by simp
  then have "rb_append 8 u x (sd_trails d) = None" for u x
    by (auto simp: rb_append_def split: prod.splits option.splits)
      (metis (no_types, lifting) old.prod.case option.simps(5) prod.inject zero_neq_neg_one)
  then show ?thesis
    by (simp add: snake_add_new_segment_def)
qed

lemma drop_segment_rep:
  assumes "curve_rep d T H B" "T \<noteq> []" "H \<noteq> []" "B \<noteq> []"
  shows "\<exists>d'. snake_drop_segment d = Some d' \<and> curve_rep d' (tl T) (tl H) (tl B)"
proof -
  note r = assms(1) [unfolded curve_rep_def]
  have ne: "rbp_list (sd_trails d) \<noteq> []" "rbp_list (sd_handles d) \<noteq> []" "rbp_list (sd_aabbs d) \<noteq> []"
    using r assms(2-4) by auto
  obtain q where q: "rbp_take (sd_trails d) = Some (hd (rbp_list (sd_trails d)), q)" "rbp_ok 8 q"
    "rbp_list q = tl (rbp_list (sd_trails d))"
    using rbp_take_spec r ne(1) by blast
  obtain q1 where q1: "rbp_take (sd_handles d) = Some (hd (rbp_list (sd_handles d)), q1)" "rbp_ok 16 q1"
    "rbp_list q1 = tl (rbp_list (sd_handles d))"
    using rbp_take_spec r ne(2) by blast
  obtain q2 where q2: "rbp_take (sd_aabbs d) = Some (hd (rbp_list (sd_aabbs d)), q2)" "rbp_ok 16 q2"
    "rbp_list q2 = tl (rbp_list (sd_aabbs d))"
    using rbp_take_spec r ne(3) by blast
  have "snake_drop_segment d = Some (d\<lparr>sd_trails := q, sd_handles := q1, sd_aabbs := q2\<rparr>)"
    using q(1) q1(1) q2(1) by (simp add: snake_drop_segment_def)
  moreover have "curve_rep (d\<lparr>sd_trails := q, sd_handles := q1, sd_aabbs := q2\<rparr>) (tl T) (tl H) (tl B)"
    using r q(2,3) q1(2,3) q2(2,3) ne(1)
    by (auto simp: curve_rep_def map_tl dest: list.set_sel(2))
  ultimately show ?thesis by blast
qed

lemma pop_last_trail_rep:
  assumes "rb_ok 8 tb" "rb_list tb \<noteq> []" "\<forall>t \<in> set (rb_list tb). vecp_ok 16 t"
    and "vecp_list (last (rb_list tb)) \<noteq> []"
  shows "\<exists>tb'. pop_last_trail tb = Some (int (length (vecp_list (last (rb_list tb)))) - 1, tb') \<and>
    rb_ok 8 tb' \<and> rb_list tb' \<noteq> [] \<and> (\<forall>t \<in> set (rb_list tb'). vecp_ok 16 t) \<and>
    butlast (rb_list tb') = butlast (rb_list tb) \<and>
    map vecp_list (rb_list tb') =
      butlast (map vecp_list (rb_list tb)) @ [butlast (vecp_list (last (rb_list tb)))]"
proof -
  obtain v where v: "last (rb_list tb) = Some v"
    using assms(4) by (cases "last (rb_list tb)") auto
  have ok: "vec_ok 16 v" "vec_list v \<noteq> []"
    using assms(2-4) v last_in_set [OF assms(2)] by (metis vecp_simps(2), simp)
  obtain x v' where pop: "vec_pop v = (x, v')"
    by fastforce
  note p = vec_pop_list [OF ok pop]
  note st = rb_store_write_list [OF assms(1,2), of "Some v'"]
  have "pop_last_trail tb = Some (vec_cnt v', rb_store_write (Some v') tb)"
    using rb_peek_write_last [OF assms(1,2)] v pop by (simp add: pop_last_trail_def)
  moreover have "vec_cnt v' = int (length (vec_list v)) - 1"
    using length_vec_list [OF p(1)] p(3) ok(2) by (simp add: of_nat_diff Suc_le_eq)
  ultimately show ?thesis
    using st p(1,3) v assms(3) by (auto simp: map_butlast dest: in_set_butlastD)
qed

lemma rollback_point_keep:
  assumes "curve_rep d T H B" "T \<noteq> []" "2 \<le> length (last T)"
  shows "\<exists>d'. rollback_point d = Some d' \<and> curve_rep d' (butlast T @ [butlast (last T)]) H B"
proof -
  note r = assms(1) [unfolded curve_rep_def]
  have "rbp_list (sd_trails d) \<noteq> []" "rbp_ok 8 (sd_trails d)"
    using r assms(2) by auto
  then obtain tb where tb: "sd_trails d = Some tb" "rb_ok 8 tb" "rb_list tb = rbp_list (sd_trails d)"
    "rb_list tb \<noteq> []"
    using rbp_SomeE by metis
  have l: "vecp_list (last (rb_list tb)) = last T" "T = map vecp_list (rb_list tb)"
    "\<forall>t \<in> set (rb_list tb). vecp_ok 16 t"
    using r tb(3,4) by (simp_all add: last_map)
  have "last T \<noteq> []"
    using assms(3) by auto
  then obtain tb' where p: "pop_last_trail tb = Some (int (length (last T)) - 1, tb')" "rb_ok 8 tb'"
    "\<forall>t \<in> set (rb_list tb'). vecp_ok 16 t" "map vecp_list (rb_list tb') = butlast T @ [butlast (last T)]"
    using pop_last_trail_rep [OF tb(2,4) l(3)] l(1,2) by auto
  have "rollback_point d = Some (d\<lparr>sd_trails := Some tb'\<rparr>)"
    using p(1) assms(3) by (simp add: rollback_point_def tb(1))
  moreover have "curve_rep (d\<lparr>sd_trails := Some tb'\<rparr>) (butlast T @ [butlast (last T)]) H B"
    using r p(2-4) by (simp add: curve_rep_def rbp_ok_def rbp_list_def)
  ultimately show ?thesis by blast
qed

lemma rollback_point_drop:
  assumes "curve_rep d T H B" "2 \<le> length T" "H \<noteq> []" "B \<noteq> []" "length (last T) = 1" "last (butlast T) \<noteq> []"
  shows "\<exists>d'. rollback_point d = Some d' \<and>
    curve_rep d' (butlast (butlast T) @ [butlast (last (butlast T))]) (butlast H) (butlast B)"
proof -
  note r = assms(1) [unfolded curve_rep_def]
  have ne: "rbp_list (sd_trails d) \<noteq> []" "rbp_list (sd_handles d) \<noteq> []" "rbp_list (sd_aabbs d) \<noteq> []"
    using r assms(2-4) by auto
  obtain tb where tb: "sd_trails d = Some tb" "rb_ok 8 tb" "rb_list tb = rbp_list (sd_trails d)"
    "rb_list tb \<noteq> []"
    using rbp_SomeE [OF ne(1)] r by metis
  have l: "vecp_list (last (rb_list tb)) = last T" "T = map vecp_list (rb_list tb)"
    "\<forall>t \<in> set (rb_list tb). vecp_ok 16 t"
    using r tb(3,4) by (simp_all add: last_map)
  have "last T \<noteq> []"
    using assms(5) by auto
  then obtain tb1 where p: "pop_last_trail tb = Some (0, tb1)" "rb_ok 8 tb1" "rb_list tb1 \<noteq> []"
    "\<forall>t \<in> set (rb_list tb1). vecp_ok 16 t" "butlast (rb_list tb1) = butlast (rb_list tb)"
    using pop_last_trail_rep [OF tb(2,4) l(3)] l(1) assms(5) by auto
  obtain x tb2 where tk: "rb_takew tb1 = (x, tb2)"
    by fastforce
  note t2 = rb_takew_spec [OF p(2,3) tk]
  have l2: "map vecp_list (rb_list tb2) = butlast T" "rb_list tb2 \<noteq> []"
    using t2(3) p(5) l(2) assms(2) by (auto simp: map_butlast simp flip: length_0_conv)
  then have l3: "vecp_list (last (rb_list tb2)) = last (butlast T)"
    by (metis last_map)
  have "\<forall>t \<in> set (rb_list tb2). vecp_ok 16 t"
    using p(4) t2(3) by (auto dest: in_set_butlastD)
  then obtain n tb3 where p3: "pop_last_trail tb2 = Some (n, tb3)" "rb_ok 8 tb3"
    "\<forall>t \<in> set (rb_list tb3). vecp_ok 16 t"
    "map vecp_list (rb_list tb3) = butlast (butlast T) @ [butlast (last (butlast T))]"
    using pop_last_trail_rep [OF t2(1) l2(2)] l2(1) l3 assms(6) by auto
  obtain q1 where q1: "rbp_takew (sd_handles d) = Some (last (rbp_list (sd_handles d)), q1)" "rbp_ok 16 q1"
    "rbp_list q1 = butlast (rbp_list (sd_handles d))"
    using rbp_takew_spec r ne(2) by blast
  obtain q2 where q2: "rbp_takew (sd_aabbs d) = Some (last (rbp_list (sd_aabbs d)), q2)" "rbp_ok 16 q2"
    "rbp_list q2 = butlast (rbp_list (sd_aabbs d))"
    using rbp_takew_spec r ne(3) by blast
  have "rollback_point d = Some (d\<lparr>sd_trails := Some tb3, sd_handles := q1, sd_aabbs := q2\<rparr>)"
    using p(1) tk p3(1) q1(1) q2(1) by (simp add: rollback_point_def tb(1))
  moreover have "curve_rep (d\<lparr>sd_trails := Some tb3, sd_handles := q1, sd_aabbs := q2\<rparr>)
      (butlast (butlast T) @ [butlast (last (butlast T))]) (butlast H) (butlast B)"
    using r p3(2-4) q1(2,3) q2(2,3) by (simp add: curve_rep_def rbp_ok_def rbp_list_def map_butlast)
  ultimately show ?thesis by blast
qed

section \<open>The shape of a curve\<close>

definition covers :: "qwpos list \<Rightarrow> qwaabb \<Rightarrow> bool" where
  "covers t b \<longleftrightarrow> (\<forall>p \<in> set t. qwaabb_test_qwpos b p)"

text \<open>
  There is a handle at the start of every trail and one more at the head; a trail starts
  where the one before ended; all trails but the last were long enough for the fit to be
  bad, and their boxes cover them.
\<close>

definition curve_shape :: "qwpos list list \<Rightarrow> qwpos list \<Rightarrow> qwaabb list \<Rightarrow> bool" where
  "curve_shape T H B \<longleftrightarrow>
     T \<noteq> [] \<and> last T \<noteq> [] \<and> length H = Suc (length T) \<and> butlast H = map hd T \<and> length B = length T \<and>
     successively (\<lambda>s t. last s = hd t) T \<and> (\<forall>t \<in> set (butlast T). 5 \<le> length t) \<and>
     list_all2 covers (butlast T) (butlast B)"

text \<open>The points without the copies at the joints.\<close>

definition curve_points :: "qwpos list list \<Rightarrow> qwpos list" where
  "curve_points T = hd (hd T) # concat (map tl T)"

lemma curve_shape_snoc:
  "curve_shape (S @ [t]) (G @ [g, h]) (C @ [b]) \<longleftrightarrow>
     t \<noteq> [] \<and> G = map hd S \<and> g = hd t \<and> length C = length S \<and>
     successively (\<lambda>s t. last s = hd t) S \<and> (S = [] \<or> last (last S) = hd t) \<and>
     (\<forall>s \<in> set S. 5 \<le> length s) \<and> list_all2 covers S C"
  by (auto simp: curve_shape_def successively_append_iff butlast_append)

lemma curve_shapeE:
  assumes "curve_shape T H B"
  obtains S t h C b where "T = S @ [t]" "H = map hd S @ [hd t, h]" "B = C @ [b]"
    "t \<noteq> []" "length C = length S"
    "successively (\<lambda>s t. last s = hd t) S" "S = [] \<or> last (last S) = hd t"
    "\<forall>s \<in> set S. 5 \<le> length s" "list_all2 covers S C"
proof -
  obtain S t where T: "T = S @ [t]"
    using assms by (cases T rule: rev_cases) (auto simp: curve_shape_def)
  obtain G' h where "H = G' @ [h]"
    using assms by (cases H rule: rev_cases) (auto simp: curve_shape_def)
  moreover obtain G g where "G' = G @ [g]"
    using assms calculation T by (cases G' rule: rev_cases) (auto simp: curve_shape_def)
  ultimately have H: "H = G @ [g, h]"
    by simp
  obtain C b where B: "B = C @ [b]"
    using assms T by (cases B rule: rev_cases) (auto simp: curve_shape_def)
  show thesis
    using assms that unfolding T H B curve_shape_snoc by force
qed

lemma shape_extend:
  assumes "curve_shape T H B"
  shows "curve_shape (butlast T @ [last T @ [p]]) (butlast H @ [p]) B"
    and "curve_points (butlast T @ [last T @ [p]]) = curve_points T @ [p]"
proof -
  obtain S t h C b where e: "T = S @ [t]" "H = map hd S @ [hd t, h]" "B = C @ [b]"
    "t \<noteq> []" "length C = length S" "successively (\<lambda>s t. last s = hd t) S" "S = [] \<or> last (last S) = hd t"
    "\<forall>s \<in> set S. 5 \<le> length s" "list_all2 covers S C"
    by (rule curve_shapeE [OF assms])
  show "curve_shape (butlast T @ [last T @ [p]]) (butlast H @ [p]) B"
    using e curve_shape_snoc [of S "t @ [p]" "map hd S" "hd t" p C b] by (simp add: butlast_append)
  show "curve_points (butlast T @ [last T @ [p]]) = curve_points T @ [p]"
    using e(1,4) by (auto simp: curve_points_def hd_append)
qed

lemma shape_box: "curve_shape T H B \<Longrightarrow> curve_shape T H (butlast B @ [b])"
  by (simp add: curve_shape_def)

lemma shape_add:
  assumes "curve_shape T H B" "covers (last T) (last B)" "5 \<le> length (last T)"
    and "last (last T) = p" "last H = p"
  shows "curve_shape (T @ [[p]]) (H @ [p]) (B @ [b])"
    and "curve_points (T @ [[p]]) = curve_points T"
proof -
  obtain S t h C b' where e: "T = S @ [t]" "H = map hd S @ [hd t, h]" "B = C @ [b']"
    "t \<noteq> []" "length C = length S" "successively (\<lambda>s t. last s = hd t) S" "S = [] \<or> last (last S) = hd t"
    "\<forall>s \<in> set S. 5 \<le> length s" "list_all2 covers S C"
    by (rule curve_shapeE [OF assms(1)])
  have "h = p"
    using e(2) assms(5) by simp
  note e = e [unfolded this]
  show "curve_shape (T @ [[p]]) (H @ [p]) (B @ [b])"
    using e assms(2-4) curve_shape_snoc [of "S @ [t]" "[p]" "map hd S @ [hd t]" p p "C @ [b']" b]
    by (auto simp: successively_append_iff list_all2_append)
  show "curve_points (T @ [[p]]) = curve_points T"
    by (cases S) (simp_all add: curve_points_def e(1))
qed

lemma shape_drop:
  assumes "curve_shape T H B" "2 \<le> length T"
  shows "curve_shape (tl T) (tl H) (tl B)"
    and "curve_points (tl T) = drop (length (hd T) - 1) (curve_points T)"
proof -
  obtain s1 s2 S where T: "T = s1 # s2 # S"
    using assms(2) by (cases T; cases "tl T") auto
  obtain h1 h2 G where H: "H = h1 # h2 # G"
    using assms T by (cases H; cases "tl H") (auto simp: curve_shape_def)
  obtain b1 b2 C where B: "B = b1 # b2 # C"
    using assms T by (cases B; cases "tl B") (auto simp: curve_shape_def)
  have G: "G \<noteq> []"
    using assms(1) by (auto simp: curve_shape_def T H)
  show "curve_shape (tl T) (tl H) (tl B)"
    using assms(1) G unfolding T H B by (auto simp: curve_shape_def)
  have ne: "s1 \<noteq> []" "last s1 = hd s2"
    using assms(1) by (auto simp: curve_shape_def T)
  then have "drop (length s1 - 1) s1 = [hd s2]"
    by (cases s1 rule: rev_cases) auto
  moreover have "curve_points T = s1 @ tl s2 @ concat (map tl S)"
    using ne(1) by (simp add: curve_points_def T flip: append_Cons)
  ultimately show "curve_points (tl T) = drop (length (hd T) - 1) (curve_points T)"
    using ne(1) by (simp add: T curve_points_def [of "s2 # S"])
qed

lemma shape_pop:
  assumes "curve_shape T H B" "2 \<le> length (last T)"
  shows "curve_shape (butlast T @ [butlast (last T)]) H B"
    and "curve_points (butlast T @ [butlast (last T)]) = butlast (curve_points T)"
proof -
  obtain S t h C b where e: "T = S @ [t]" "H = map hd S @ [hd t, h]" "B = C @ [b]"
    "t \<noteq> []" "length C = length S"
    "successively (\<lambda>s t. last s = hd t) S" "S = [] \<or> last (last S) = hd t"
    "\<forall>s \<in> set S. 5 \<le> length s" "list_all2 covers S C"
    by (rule curve_shapeE [OF assms(1)])
  obtain x y zs where t: "t = x # y # zs"
    using assms(2) e(1) by (cases t; cases "tl t") auto
  show "curve_shape (butlast T @ [butlast (last T)]) H B"
    using e(2-) curve_shape_snoc [of S "butlast t" "map hd S" "hd t" h C b] t
    by (simp add: e(1))
  show "curve_points (butlast T @ [butlast (last T)]) = butlast (curve_points T)"
    by (auto simp: curve_points_def e(1) t hd_append butlast_append)
qed

lemma shape_pop_drop:
  assumes "curve_shape T H B" "length (last T) = 1" "2 \<le> length T"
  shows "curve_shape (butlast (butlast T) @ [butlast (last (butlast T))]) (butlast H) (butlast B)"
    and "curve_points (butlast (butlast T) @ [butlast (last (butlast T))]) = butlast (curve_points T)"
proof -
  obtain S t h C b where e: "T = S @ [t]" "H = map hd S @ [hd t, h]" "B = C @ [b]"
    "t \<noteq> []" "length C = length S"
    "successively (\<lambda>s t. last s = hd t) S" "S = [] \<or> last (last S) = hd t"
    "\<forall>s \<in> set S. 5 \<le> length s" "list_all2 covers S C"
    by (rule curve_shapeE [OF assms(1)])
  obtain S' s where S: "S = S' @ [s]"
    using assms(3) e(1) by (cases S rule: rev_cases) auto
  obtain C' c where C: "C = C' @ [c]"
    using e(5) S by (cases C rule: rev_cases) auto
  have "5 \<le> length s"
    using e(8) S by simp
  then obtain x y zs where s: "s = x # y # zs"
    by (cases s; cases "tl s") auto
  obtain z where t: "t = [z]"
    using assms(2) e(1) by (auto simp: length_Suc_conv)
  have "length C' = length S'" "list_all2 covers S' C'"
    using e(5,9) S C by (simp_all add: list_all2_append)
  then show "curve_shape (butlast (butlast T) @ [butlast (last (butlast T))]) (butlast H) (butlast B)"
    using e(6,8) curve_shape_snoc [of S' "butlast s" "map hd S'" "hd s" "hd t" C' c] s
    by (simp add: e(1,2,3) S C successively_append_iff butlast_append)
  show "curve_points (butlast (butlast T) @ [butlast (last (butlast T))]) = butlast (curve_points T)"
    by (auto simp: curve_points_def e(1) S s t hd_append butlast_append)
qed

lemma curve_points_last:
  assumes "curve_shape T H B"
  shows "last (curve_points T) = last (last T)" and "length (last T) \<le> length (curve_points T)"
proof -
  obtain S t h C b where e: "T = S @ [t]" "H = map hd S @ [hd t, h]" "B = C @ [b]"
    "t \<noteq> []" "length C = length S" "successively (\<lambda>s t. last s = hd t) S" "S = [] \<or> last (last S) = hd t"
    "\<forall>s \<in> set S. 5 \<le> length s" "list_all2 covers S C"
    by (rule curve_shapeE [OF assms])
  show "length (last T) \<le> length (curve_points T)"
    using e(4) by (cases t) (auto simp: curve_points_def e(1))
  show "last (curve_points T) = last (last T)"
  proof (cases t)
    case (Cons z zs)
    show ?thesis
    proof (cases zs)
      case Nil
      show ?thesis
      proof (cases S rule: rev_cases)
        case (snoc S' s)
        then have "5 \<le> length s" "last s = z"
          using e(7,8) Cons by simp_all
        then obtain x y ys where "s = x # y # ys" "last (y # ys) = z"
          by (cases s; cases "tl s") auto
        then show ?thesis
          by (simp add: curve_points_def e(1) Cons Nil snoc)
      qed (simp add: curve_points_def e(1) Cons Nil)
    qed (simp add: curve_points_def e(1) Cons)
  qed (use e(4) in simp)
qed

lemma curve_points_single: "curve_shape T H B \<Longrightarrow> length T = 1 \<Longrightarrow> curve_points T = last T"
  by (auto simp: curve_points_def curve_shape_def length_Suc_conv)

end
