(* ===== verification/Snake_Invariant.thy ===== *)
theory Snake_Invariant
  imports Snake_Curve
begin

text \<open>
  The invariant of a snake's curve and that every operation of \<open>Snake\<close> keeps it: the initial
  curve, a step, the removal of segments, and the roll back to an acknowledged frame. What an
  operation does is stated on the history of the head's positions.
\<close>

definition snake_trails :: "snake_data \<Rightarrow> qwpos list list" where
  "snake_trails d = map vecp_list (rbp_list (sd_trails d))"

definition snake_handle_pos :: "snake_data \<Rightarrow> qwpos list" where
  "snake_handle_pos d = map bh_pos (rbp_list (sd_handles d))"

definition snake_boxes :: "snake_data \<Rightarrow> qwaabb list" where
  "snake_boxes d = rbp_list (sd_aabbs d)"

definition snake_history :: "snake_data \<Rightarrow> qwpos list" where
  "snake_history d = curve_points (snake_trails d)"

text \<open>
  While the newest segment grows its box and the box of the snake lag behind
  (\<open>curve_open\<close>); between operations they cover all points, and the curve ends at the head.
\<close>

definition curve_open :: "snake_data \<Rightarrow> bool" where
  "curve_open d \<longleftrightarrow>
     curve_rep d (snake_trails d) (snake_handle_pos d) (snake_boxes d) \<and>
     curve_shape (snake_trails d) (snake_handle_pos d) (snake_boxes d)"

definition curve_ends :: "snake_data \<Rightarrow> qwpos \<Rightarrow> bool" where
  "curve_ends d p \<longleftrightarrow> last (snake_handle_pos d) = p \<and> last (last (snake_trails d)) = p"

definition curve_ok :: "snake_data \<Rightarrow> qwpos \<Rightarrow> bool" where
  "curve_ok d p \<longleftrightarrow> curve_open d \<and> curve_ends d p \<and>
     covers (last (snake_trails d)) (last (snake_boxes d)) \<and>
     (\<forall>t \<in> set (snake_trails d). covers t (sd_aabb d))"

text \<open>Room for \<open>k\<close> more points in the newest trail, even if it were the only one.\<close>

definition curve_room :: "nat \<Rightarrow> snake_data \<Rightarrow> bool" where
  "curve_room k d \<longleftrightarrow> length (snake_history d) + k \<le> 16384"

lemma curve_rep_lists:
  "curve_rep d T H B \<Longrightarrow> snake_trails d = T \<and> snake_handle_pos d = H \<and> snake_boxes d = B"
  by (simp add: curve_rep_def snake_trails_def snake_handle_pos_def snake_boxes_def)

lemma curve_openI: "curve_rep d T H B \<Longrightarrow> curve_shape T H B \<Longrightarrow> curve_open d"
  using curve_rep_lists by (fastforce simp: curve_open_def)

lemma curve_openE:
  assumes "curve_open d"
  obtains T H B where "curve_rep d T H B" "curve_shape T H B"
    "snake_trails d = T" "snake_handle_pos d = H" "snake_boxes d = B" "snake_history d = curve_points T"
    "T \<noteq> []" "H \<noteq> []" "B \<noteq> []" "last T \<noteq> []" "length H = Suc (length T)" "length B = length T"
proof -
  have sh: "curve_shape (snake_trails d) (snake_handle_pos d) (snake_boxes d)"
    using assms by (simp add: curve_open_def)
  then have "snake_handle_pos d \<noteq> []" "snake_boxes d \<noteq> []"
    by (auto simp: curve_shape_def)
  then show thesis
    using sh assms that [of "snake_trails d" "snake_handle_pos d" "snake_boxes d"]
    by (simp add: curve_open_def snake_history_def curve_shape_def)
qed

lemma curve_open_keep [simp]:
  "curve_open (d\<lparr>sd_aabb := bb\<rparr>) = curve_open d"
  "curve_open (d\<lparr>sd_points := pts\<rparr>) = curve_open d"
  "snake_trails (d\<lparr>sd_aabb := bb\<rparr>) = snake_trails d" "snake_trails (d\<lparr>sd_points := pts\<rparr>) = snake_trails d"
  "snake_handle_pos (d\<lparr>sd_aabb := bb\<rparr>) = snake_handle_pos d"
  "snake_handle_pos (d\<lparr>sd_points := pts\<rparr>) = snake_handle_pos d"
  "snake_boxes (d\<lparr>sd_aabb := bb\<rparr>) = snake_boxes d" "snake_boxes (d\<lparr>sd_points := pts\<rparr>) = snake_boxes d"
  "snake_history (d\<lparr>sd_aabb := bb\<rparr>) = snake_history d"
  "snake_history (d\<lparr>sd_points := pts\<rparr>) = snake_history d"
  "curve_ends (d\<lparr>sd_aabb := bb\<rparr>) p = curve_ends d p" "curve_ends (d\<lparr>sd_points := pts\<rparr>) p = curve_ends d p"
  by (simp_all add: curve_open_def curve_ends_def snake_trails_def snake_handle_pos_def snake_boxes_def
      snake_history_def curve_rep_def)

section \<open>The steps of an operation\<close>

lemma update_curve_open:
  assumes "curve_open d" "curve_room 1 d"
  shows "\<exists>need d'. snake_update_curve_from_head L J d head = Some (need, d') \<and> curve_open d' \<and>
    curve_ends d' (sh_pos head) \<and> snake_history d' = snake_history d @ [sh_pos head] \<and>
    length (snake_trails d') = length (snake_trails d) \<and>
    (need \<longrightarrow> 5 \<le> length (last (snake_trails d')))"
proof -
  obtain T H B where o: "curve_rep d T H B" "curve_shape T H B" "snake_trails d = T" "snake_history d = curve_points T"
    "T \<noteq> []" "length H = Suc (length T)"
    using assms(1) by (rule curve_openE) blast
  have "length (last T) < 16384"
    using assms(2) curve_points_last(2) [OF o(2)] o(3,4) by (simp add: curve_room_def)
  then obtain need d' where u: "snake_update_curve_from_head L J d head = Some (need, d')"
    "curve_rep d' (butlast T @ [last T @ [sh_pos head]]) (butlast H @ [sh_pos head]) B"
    "need \<longrightarrow> 4 \<le> length (last T)"
    using update_curve_rep [OF o(1,5,6)] by blast
  note l = curve_rep_lists [OF u(2)] and sh = shape_extend [OF o(2), of "sh_pos head"]
  have "length (butlast T @ [last T @ [sh_pos head]]) = length T"
    using o(5) by simp
  with u l sh o(3,4) show ?thesis
    by (auto simp: curve_ends_def snake_history_def intro: curve_openI)
qed

lemma head_trail_aabb_open:
  assumes "curve_open d"
  shows "\<exists>d'. snake_update_head_trail_aabb d = Some d' \<and> curve_open d' \<and>
    snake_trails d' = snake_trails d \<and> snake_handle_pos d' = snake_handle_pos d \<and>
    snake_history d' = snake_history d \<and> covers (last (snake_trails d')) (last (snake_boxes d'))"
proof -
  obtain T H B where o: "curve_rep d T H B" "curve_shape T H B" "snake_trails d = T" "snake_handle_pos d = H"
    "T \<noteq> []" "H \<noteq> []" "B \<noteq> []" "last T \<noteq> []"
    using assms by (rule curve_openE) blast
  obtain d' where u: "snake_update_head_trail_aabb d = Some d'" "curve_rep d' T H (butlast B @ [trail_box (last T)])"
    using head_trail_aabb_rep [OF o(1,5-8)] by blast
  note l = curve_rep_lists [OF u(2)]
  show ?thesis
    using u l o(3,4) curve_openI [OF u(2) shape_box [OF o(2)]]
    by (auto simp: snake_history_def covers_def trail_box_covers)
qed

lemma update_aabb_open:
  assumes "curve_open d" "covers (last (snake_trails d)) (last (snake_boxes d))"
  shows "\<exists>bb. snake_update_aabb d = Some (d\<lparr>sd_aabb := bb\<rparr>) \<and> (\<forall>t \<in> set (snake_trails d). covers t bb)"
proof -
  obtain T H B where o: "curve_rep d T H B" "curve_shape T H B" "snake_trails d = T" "snake_boxes d = B" "B \<noteq> []"
    using assms(1) by (rule curve_openE) blast
  have "covers t (union_boxes B)" if "t \<in> set T" for t
  proof -
    have "list_all2 covers (butlast T @ [last T]) (butlast B @ [last B])"
      using o(2) assms(2) unfolding o(3,4) by (intro list_all2_appendI) (simp_all add: curve_shape_def)
    then have "list_all2 covers T B"
      using o(2,5) by (simp add: curve_shape_def)
    then have "\<exists>b \<in> set B. covers t b"
      using that by (fastforce simp: list_all2_conv_all_nth in_set_conv_nth)
    then show ?thesis
      by (auto simp: covers_def intro: union_boxes_test)
  qed
  then show ?thesis
    using update_aabb_rep [OF o(1,5)] o(3) by blast
qed

lemma add_segment_open:
  assumes "curve_open d" "length (snake_trails d) < 63" "curve_ends d (sh_pos head)"
    and "covers (last (snake_trails d)) (last (snake_boxes d))" "5 \<le> length (last (snake_trails d))"
  shows "\<exists>d'. snake_add_new_segment J d head = Some d' \<and> curve_open d' \<and> curve_ends d' (sh_pos head) \<and>
    snake_trails d' = snake_trails d @ [[sh_pos head]] \<and> snake_history d' = snake_history d \<and>
    sd_aabb d' = sd_aabb d \<and> covers (last (snake_trails d')) (last (snake_boxes d'))"
proof -
  obtain T H B where o: "curve_rep d T H B" "curve_shape T H B" "snake_trails d = T" "snake_handle_pos d = H"
    "snake_boxes d = B" "snake_history d = curve_points T" "length H = Suc (length T)" "length B = length T"
    using assms(1) by (rule curve_openE) blast
  let ?p = "sh_pos head"
  obtain d' where u: "snake_add_new_segment J d head = Some d'"
    "curve_rep d' (T @ [[?p]]) (H @ [?p]) (B @ [point_box ?p])" "sd_aabb d' = sd_aabb d"
    using add_segment_rep [OF o(1)] assms(2) o(3,7,8) by fastforce
  note l = curve_rep_lists [OF u(2)]
  have "curve_shape (T @ [[?p]]) (H @ [?p]) (B @ [point_box ?p])" "curve_points (T @ [[?p]]) = curve_points T"
    using shape_add(1) [OF o(2), of ?p "point_box ?p"] shape_add(2) [OF o(2), of ?p] assms(3-5) o(3-5)
    by (simp_all add: curve_ends_def)
  then show ?thesis
    using u l o(3,6) curve_openI [OF u(2)]
    by (auto simp: curve_ends_def snake_history_def covers_def point_box_test)
qed

text \<open>The ring of the trails has 8 bit indices: the last of its 64 cells stays empty.\<close>

lemma trails_bound:
  assumes "curve_open d"
  shows "length (snake_trails d) \<le> 63"
proof -
  have ok: "rbp_ok 8 (sd_trails d)"
    using assms by (simp add: curve_open_def curve_rep_def)
  show ?thesis
  proof (cases "sd_trails d")
    case (Some rb)
    then have rb: "rb_ok 8 rb"
      using ok by (simp add: rbp_ok_def)
    then obtain k where k: "rb_capacity rb = 2 ^ k" "k \<le> 6"
      by (auto simp: rb_ok_def)
    then have "rb_capacity rb \<le> 2 ^ 6"
      using power_increasing [of k 6 "2::int"] by simp
    with rb_count_bounds(2) [OF rb] Some show ?thesis
      using rbp_count_list [OF ok] by (simp add: snake_trails_def)
  qed (simp add: snake_trails_def rbp_list_def)
qed

lemma add_segment_full:
  assumes "curve_open d" "length (snake_trails d) = 63"
  shows "snake_add_new_segment J d head = None"
  using assms add_segment_crash by (auto simp: curve_open_def)

section \<open>Initialising\<close>

lemma snake_data_init_ok:
  "\<exists>d. snake_data_init J p name = Some d \<and> curve_ok d p \<and> snake_history d = [p] \<and> sd_name d = name \<and>
    snake_trails d = [[p]]"
proof -
  let ?t = "snd (vec_push 16 True (j_pos J) vec_init p)" and ?h = "bezier_handle_init p (make_qa 0)"
  obtain v where v: "?t = Some v" "vec_ok 16 v" "vec_list v = [p]"
    using vec_push_list [of None "j_pos J" p] by (auto simp: vec_init_def)
  have i: "rbp_ok 8 rb_init" "rbp_ok 16 rb_init" "rbp_list rb_init = []"
    by (simp_all add: rb_init_def)
  obtain q where q: "rb_append 8 (j_trail J) ?t rb_init = Some q" "rbp_ok 8 q" "rbp_list q = [?t]"
    using rb_append_list [of 8 rb_init "j_trail J" ?t] by (auto simp: rb_init_def)
  obtain h where h: "rb_append 16 (j_handle J) ?h rb_init = Some h" "rbp_ok 16 h" "rbp_list h = [?h]"
    using rb_append_list [of 16 rb_init "j_handle J" ?h] by (auto simp: rb_init_def)
  obtain h' where h': "rb_append 16 (j_handle J) ?h h = Some h'" "rbp_ok 16 h'" "rbp_list h' = [?h, ?h]"
    using rb_append_list [of 16 h "j_handle J" ?h] h(2,3) by auto
  obtain b where b: "rb_append 16 (j_aabb J) (point_box p) rb_init = Some b" "rbp_ok 16 b"
    "rbp_list b = [point_box p]"
    using rb_append_list [of 16 rb_init "j_aabb J" "point_box p"] by (auto simp: rb_init_def)
  let ?d = "\<lparr>sd_name = name, sd_trails = q, sd_handles = h', sd_aabbs = b, sd_points = vec_init,
    sd_aabb = point_box p\<rparr>"
  have "curve_rep ?d [[p]] [p, p] [point_box p]"
    using q h' b v by (simp add: curve_rep_def bezier_handle_init_def)
  moreover have "curve_shape [[p]] [p, p] [point_box p]"
    by (simp add: curve_shape_def)
  ultimately have "curve_ok ?d p \<and> snake_history ?d = [p] \<and> snake_trails ?d = [[p]]"
    using curve_openI curve_rep_lists [of ?d "[[p]]" "[p, p]" "[point_box p]"]
    by (auto simp: curve_ok_def curve_ends_def covers_def point_box_test snake_history_def curve_points_def)
  moreover have "snake_data_init J p name = Some ?d"
    using q(1) h(1) h'(1) b(1) by (simp add: snake_data_init_def point_box_def)
  ultimately show ?thesis by simp
qed

section \<open>A step\<close>

lemma update_and_box:
  assumes "curve_open d" "curve_room 1 d"
  shows "\<exists>need d1 d2. snake_update_curve_from_head L J d head = Some (need, d1) \<and>
    snake_update_head_trail_aabb d1 = Some d2 \<and> curve_open d2 \<and> curve_ends d2 (sh_pos head) \<and>
    snake_history d2 = snake_history d @ [sh_pos head] \<and>
    length (snake_trails d2) = length (snake_trails d) \<and>
    (need \<longrightarrow> 5 \<le> length (last (snake_trails d2))) \<and>
    covers (last (snake_trails d2)) (last (snake_boxes d2)) \<and>
    curve_open d1 \<and> curve_ends d1 (sh_pos head) \<and> snake_history d1 = snake_history d2 \<and>
    length (snake_trails d1) = length (snake_trails d)"
proof -
  obtain need d1 where d1: "snake_update_curve_from_head L J d head = Some (need, d1)" "curve_open d1"
    "curve_ends d1 (sh_pos head)" "snake_history d1 = snake_history d @ [sh_pos head]"
    "length (snake_trails d1) = length (snake_trails d)" "need \<longrightarrow> 5 \<le> length (last (snake_trails d1))"
    using update_curve_open [OF assms] by blast
  obtain d2 where d2: "snake_update_head_trail_aabb d1 = Some d2" "curve_open d2" "snake_trails d2 = snake_trails d1"
    "snake_handle_pos d2 = snake_handle_pos d1" "snake_history d2 = snake_history d1"
    "covers (last (snake_trails d2)) (last (snake_boxes d2))"
    using head_trail_aabb_open [OF d1(2)] by blast
  show ?thesis
    using d1 d2 by (intro exI [of _ need] exI [of _ d1] exI [of _ d2]) (simp add: curve_ends_def)
qed

text \<open>A step before it samples the curve.\<close>

lemma snake_step_curve:
  assumes "curve_ok d (sh_pos head)" "curve_room 1 d" "head' = snake_step_head L head param command rate"
  shows "(snake_step L J d head param command rate = None \<and> length (snake_trails d) = 63 \<and>
      (\<exists>d1. snake_update_curve_from_head L J d head' = Some (True, d1))) \<or>
    (\<exists>d'. snake_step L J d head param command rate =
      map_option (\<lambda>(stale, d). (stale, d, head')) (snake_sample_points L J d' param) \<and>
    curve_ok d' (sh_pos head') \<and> snake_history d' = snake_history d @ [sh_pos head'] \<and>
    length (snake_trails d') \<le> Suc (length (snake_trails d)))"
proof -
  have "curve_open d"
    using assms(1) by (simp add: curve_ok_def)
  then obtain need d1 d2 where u: "snake_update_curve_from_head L J d head' = Some (need, d1)"
    "snake_update_head_trail_aabb d1 = Some d2" "curve_open d2" "curve_ends d2 (sh_pos head')"
    "snake_history d2 = snake_history d @ [sh_pos head']"
    "length (snake_trails d2) = length (snake_trails d)" "need \<longrightarrow> 5 \<le> length (last (snake_trails d2))"
    "covers (last (snake_trails d2)) (last (snake_boxes d2))"
    using update_and_box [OF _ assms(2), of L J head'] by blast
  obtain bb where bb: "snake_update_aabb d2 = Some (d2\<lparr>sd_aabb := bb\<rparr>)" "\<forall>t \<in> set (snake_trails d2). covers t bb"
    using update_aabb_open [OF u(3,8)] by blast
  let ?d = "d2\<lparr>sd_aabb := bb\<rparr>"
  have st: "snake_step L J d head param command rate =
      (case (if need then snake_add_new_segment J ?d head' else Some ?d) of None \<Rightarrow> None
       | Some d' \<Rightarrow> map_option (\<lambda>(stale, d). (stale, d, head')) (snake_sample_points L J d' param))"
    using u(1,2) bb(1)
    by (simp add: snake_step_def assms(3) [symmetric] Let_def bezier_squeeze_step_def map_option_case
        split: option.splits)
  have ok: "curve_ok ?d (sh_pos head')"
    using u bb(2) by (simp add: curve_ok_def)
  consider "\<not> need" | "need" "length (snake_trails ?d) = 63" | "need" "length (snake_trails ?d) < 63"
    using trails_bound [of ?d] u(3) by fastforce
  then show ?thesis
  proof cases
    case 1
    then show ?thesis
      using st ok u(5,6) by auto
  next
    case 2
    then show ?thesis
      using st add_segment_full [of ?d J head'] u(1,3,6) by auto
  next
    case 3
    then obtain d' where a: "snake_add_new_segment J ?d head' = Some d'" "curve_open d'"
      "curve_ends d' (sh_pos head')" "snake_trails d' = snake_trails d2 @ [[sh_pos head']]"
      "snake_history d' = snake_history d2" "sd_aabb d' = bb"
      "covers (last (snake_trails d')) (last (snake_boxes d'))"
      using add_segment_open [of ?d head' J] u by auto
    have "last (snake_trails d2) \<in> set (snake_trails d2)" "sh_pos head' \<in> set (last (snake_trails d2))"
      using u(3,4) last_in_set [of "last (snake_trails d2)"]
      by (auto simp: curve_open_def curve_shape_def curve_ends_def)
    then have "covers [sh_pos head'] bb"
      using bb(2) by (auto simp: covers_def)
    then have "curve_ok d' (sh_pos head')"
      using a bb(2) by (auto simp: curve_ok_def)
    then show ?thesis
      using st 3 a u(5,6) by auto
  qed
qed

text \<open>Sampling keeps the curve; it fails only when the vector of the samples is full.\<close>

lemma snake_sample_points_keep:
  assumes "libm_sqrt_ok L" "snake_length param < 2 ^ 31 - 2 ^ 20" "curve_open d"
  shows "case snake_sample_points L J d param of
      None \<Rightarrow> bezier_calc_equidistant_points L (j_point J) (sd_points d) (sd_handles d)
                (qw_mul SNAKE_PART_SPACING (snake_scale param)) (snake_length param) = Some None
    | Some (stale, d') \<Rightarrow> (\<exists>pts. d' = d\<lparr>sd_points := pts\<rparr>) \<and> 0 \<le> stale \<and> stale < int (length (snake_trails d))"
proof -
  obtain r where r: "bezier_calc_equidistant_points L (j_point J) (sd_points d) (sd_handles d)
      (qw_mul SNAKE_PART_SPACING (snake_scale param)) (snake_length param) = Some r"
    "\<forall>i pts'. r = Some (i, pts') \<longrightarrow> 0 \<le> i \<and> (i = 0 \<or> i < rb_count (sd_handles d) - 1)"
    using bezier_sampling_returns [OF assms(1,2)] by blast
  have "rb_count (sd_handles d) = int (length (snake_handle_pos d))" "snake_trails d \<noteq> []"
    "length (snake_handle_pos d) = Suc (length (snake_trails d))"
    using assms(3) rbp_count_list [of 16 "sd_handles d"]
    by (auto simp: curve_open_def curve_rep_def curve_shape_def snake_handle_pos_def)
  then show ?thesis
    using r by (auto simp: snake_sample_points_def split: option.splits)
qed

end
