(* ===== verification/Snake_Ack.thy ===== *)
theory Snake_Ack
  imports Snake_Invariant
begin

text \<open>
  Removing segments, and acknowledging frames: the roll back takes as many points off the
  history as there are frames after the acknowledged one, and the commands that are left
  are simulated again from the head the server sent.
\<close>

section \<open>Removing segments\<close>

text \<open>The box of the snake is the old one until the end of the removal.\<close>

lemma drop_segment_aabb: "snake_drop_segment d = Some d' \<Longrightarrow> sd_aabb d' = sd_aabb d"
  by (auto simp: snake_drop_segment_def split: option.splits)

lemma drop_segment_ok:
  assumes "curve_ok d p" "2 \<le> length (snake_trails d)"
  shows "\<exists>d'. snake_drop_segment d = Some d' \<and> curve_ok d' p \<and>
    snake_trails d' = tl (snake_trails d) \<and> snake_boxes d' = tl (snake_boxes d) \<and>
    snake_history d' = drop (length (hd (snake_trails d)) - 1) (snake_history d)"
proof -
  have "curve_open d"
    using assms(1) by (simp add: curve_ok_def)
  then obtain T H B where o: "curve_rep d T H B" "curve_shape T H B" "snake_trails d = T" "snake_handle_pos d = H"
    "snake_boxes d = B" "snake_history d = curve_points T" "T \<noteq> []" "H \<noteq> []" "B \<noteq> []"
    "length H = Suc (length T)" "length B = length T"
    by (rule curve_openE) blast
  obtain d' where u: "snake_drop_segment d = Some d'" "curve_rep d' (tl T) (tl H) (tl B)"
    using drop_segment_rep [OF o(1,7-9)] by blast
  note l = curve_rep_lists [OF u(2)]
  have sh: "curve_shape (tl T) (tl H) (tl B)" "curve_points (tl T) = drop (length (hd T) - 1) (curve_points T)"
    using shape_drop [OF o(2)] assms(2) o(3) by simp_all
  have ne: "tl T \<noteq> []" "tl H \<noteq> []" "tl B \<noteq> []"
    using assms(2) o(3,10,11) by (auto simp: tl_Nil)
  then have "curve_ok d' p"
    using assms(1) l drop_segment_aabb [OF u(1)] curve_openI [OF u(2) sh(1)] o(3-5)
    by (auto simp: curve_ok_def curve_ends_def last_tl dest: list.set_sel(2) [rotated])
  with u(1) l sh(2) o(3,5,6) show ?thesis
    by (auto simp: snake_history_def)
qed

lemma drop_segments_ok:
  assumes "curve_ok d p" "n < length (snake_trails d)"
  shows "\<exists>d' k. drop_segments n d = Some d' \<and> curve_ok d' p \<and> snake_trails d' = drop n (snake_trails d) \<and>
    snake_history d' = drop k (snake_history d)"
  using assms
proof (induction n arbitrary: d)
  case 0
  then show ?case
    by (auto intro: exI [of _ 0])
next
  case (Suc n)
  have "2 \<le> length (snake_trails d)"
    using Suc.prems(2) by simp
  then obtain d1 k where d1: "snake_drop_segment d = Some d1" "curve_ok d1 p"
    "snake_trails d1 = tl (snake_trails d)" "snake_history d1 = drop k (snake_history d)"
    using drop_segment_ok [OF Suc.prems(1)] by blast
  then obtain d2 k2 where "drop_segments n d1 = Some d2" "curve_ok d2 p" "snake_trails d2 = drop n (snake_trails d1)"
    "snake_history d2 = drop k2 (snake_history d1)"
    using Suc.IH [OF d1(2)] Suc.prems(2) by (metis Suc_lessE diff_Suc_1 length_tl)
  then show ?case
    using d1 by (auto simp: drop_Suc)
qed

lemma curve_ok_open: "curve_ok d p \<Longrightarrow> curve_open d"
  by (simp add: curve_ok_def)

lemma update_aabb_ok:
  assumes "curve_ok d p"
  shows "\<exists>bb. snake_update_aabb d = Some (d\<lparr>sd_aabb := bb\<rparr>) \<and> curve_ok (d\<lparr>sd_aabb := bb\<rparr>) p"
proof -
  have "curve_open d" "covers (last (snake_trails d)) (last (snake_boxes d))"
    using assms by (simp_all add: curve_ok_def)
  then obtain bb where "snake_update_aabb d = Some (d\<lparr>sd_aabb := bb\<rparr>)" "\<forall>t \<in> set (snake_trails d). covers t bb"
    using update_aabb_open by blast
  then show ?thesis
    using assms by (auto simp: curve_ok_def)
qed

lemma remove_stale_ok:
  assumes "curve_ok d p" "0 \<le> stale" "stale < int (length (snake_trails d))"
  shows "\<exists>d' k. snake_remove_stale_segments d stale = Some d' \<and> curve_ok d' p \<and>
    snake_trails d' = drop (nat stale) (snake_trails d) \<and> snake_history d' = drop k (snake_history d)"
proof -
  obtain d1 k where d1: "drop_segments (nat stale) d = Some d1" "curve_ok d1 p"
    "snake_trails d1 = drop (nat stale) (snake_trails d)" "snake_history d1 = drop k (snake_history d)"
    using drop_segments_ok [OF assms(1), of "nat stale"] assms(2,3) by (auto simp: nat_less_iff)
  obtain bb where "snake_update_aabb d1 = Some (d1\<lparr>sd_aabb := bb\<rparr>)" "curve_ok (d1\<lparr>sd_aabb := bb\<rparr>) p"
    using update_aabb_ok [OF d1(2)] by blast
  then show ?thesis
    using d1 by (auto simp: snake_remove_stale_segments_def)
qed

text \<open>With the constraint a point that may be needed for a roll back stays.\<close>

lemma curve_points_drop_keep:
  assumes "curve_shape T H B" "a \<in> set (curve_points T)" "a \<notin> set (hd T)" "2 \<le> length T"
  shows "a \<in> set (curve_points (tl T))"
proof -
  obtain s S where T: "T = s # S" "S \<noteq> []"
    using assms(4) by (cases T; cases "tl T") auto
  then have "5 \<le> length s"
    using assms(1) by (simp add: curve_shape_def)
  then have "s \<noteq> []"
    by auto
  note T = T(1) this T(2)
  then have "a \<in> set (concat (map tl S))"
    using assms(2,3) by (auto simp: curve_points_def dest: list.set_sel)
  then show ?thesis
    using T by (cases S) (auto simp: curve_points_def)
qed

lemma drop_segments_until_ok:
  assumes "curve_ok d p" "n < length (snake_trails d)"
  shows "\<exists>d' m k. drop_segments_until a n d = Some d' \<and> curve_ok d' p \<and> m \<le> n \<and>
    snake_trails d' = drop m (snake_trails d) \<and> snake_history d' = drop k (snake_history d) \<and>
    (a \<in> set (snake_history d) \<longrightarrow> a \<in> set (snake_history d'))"
  using assms
proof (induction n arbitrary: d)
  case 0
  then show ?case
    by (auto intro: exI [of _ 0])
next
  case (Suc n)
  obtain T H B where o: "curve_rep d T H B" "curve_shape T H B" "snake_trails d = T" "snake_boxes d = B"
    "snake_history d = curve_points T" "B \<noteq> []" "length B = length T"
    using curve_ok_open [OF Suc.prems(1)] by (rule curve_openE) blast
  have "rbp_list (sd_aabbs d) \<noteq> []" "rbp_ok 16 (sd_aabbs d)" "B = rbp_list (sd_aabbs d)"
    using o(1,6) by (simp_all add: curve_rep_def)
  then obtain bb where bb: "sd_aabbs d = Some bb" "rb_ok 16 bb" "rb_list bb = B"
    using rbp_SomeE by metis
  have pk: "rb_peek_read bb = hd B"
    using rb_peek_read_hd [OF bb(2)] bb(3) o(6) by simp
  have two: "2 \<le> length (snake_trails d)"
    using Suc.prems(2) by simp
  show ?case
  proof (cases "qwaabb_test_qwpos (hd B) a")
    case True
    then show ?thesis
      using Suc.prems(1) bb(1) pk by (auto intro!: exI [of _ 0])
  next
    case False
    obtain s1 s2 S b1 b2 C where "T = s1 # s2 # S" "B = b1 # b2 # C"
      using two o(3,7) by (cases T; cases "tl T"; cases B; cases "tl B") auto
    then have "covers (hd T) (hd B)"
      using o(2) by (simp add: curve_shape_def)
    then have na: "a \<notin> set (hd T)"
      using False by (auto simp: covers_def)
    obtain d1 k where d1: "snake_drop_segment d = Some d1" "curve_ok d1 p"
      "snake_trails d1 = tl T" "snake_history d1 = drop k (snake_history d)"
      using drop_segment_ok [OF Suc.prems(1) two] o(3) by auto
    have keep: "a \<in> set (snake_history d) \<longrightarrow> a \<in> set (snake_history d1)"
      using curve_points_drop_keep [OF o(2) _ na] two o(3,5) d1(3) by (auto simp: snake_history_def)
    obtain d2 m k2 where "drop_segments_until a n d1 = Some d2" "curve_ok d2 p" "m \<le> n"
      "snake_trails d2 = drop m (snake_trails d1)" "snake_history d2 = drop k2 (snake_history d1)"
      "a \<in> set (snake_history d1) \<longrightarrow> a \<in> set (snake_history d2)"
      using Suc.IH [OF d1(2)] Suc.prems(2) d1(3) o(3) by (auto simp: less_diff_conv)
    then show ?thesis
      using False d1 bb(1) pk keep o(3)
      by (intro exI [of _ d2] exI [of _ "Suc m"] exI [of _ "k2 + k"]) (simp add: drop_Suc)
  qed
qed

lemma remove_stale_rollback_ok:
  assumes "curve_ok d p" "0 \<le> stale" "stale < int (length (snake_trails d))"
  shows "\<exists>d' m k. snake_remove_stale_segments_with_rollback_constraint d head_ack stale = Some d' \<and>
    curve_ok d' p \<and> int m \<le> stale \<and> snake_trails d' = drop m (snake_trails d) \<and>
    snake_history d' = drop k (snake_history d) \<and>
    (sh_pos head_ack \<in> set (snake_history d) \<longrightarrow> sh_pos head_ack \<in> set (snake_history d'))"
proof -
  have n: "nat stale < length (snake_trails d)"
    using assms(2,3) by simp
  obtain d1 m k where d1: "drop_segments_until (sh_pos head_ack) (nat stale) d = Some d1" "curve_ok d1 p" "m \<le> nat stale"
    "snake_trails d1 = drop m (snake_trails d)" "snake_history d1 = drop k (snake_history d)"
    "sh_pos head_ack \<in> set (snake_history d) \<longrightarrow> sh_pos head_ack \<in> set (snake_history d1)"
    using drop_segments_until_ok [OF assms(1) n] by blast
  obtain bb where "snake_update_aabb d1 = Some (d1\<lparr>sd_aabb := bb\<rparr>)" "curve_ok (d1\<lparr>sd_aabb := bb\<rparr>) p"
    using update_aabb_ok [OF d1(2)] by blast
  then show ?thesis
    using d1 assms(2)
    by (intro exI [of _ "d1\<lparr>sd_aabb := bb\<rparr>"] exI [of _ m] exI [of _ k])
       (simp add: snake_remove_stale_segments_with_rollback_constraint_def)
qed

section \<open>Catching up\<close>

definition step_heads :: "libm \<Rightarrow> snake_param \<Rightarrow> 8 word \<Rightarrow> snake_head \<Rightarrow> cmd list \<Rightarrow> snake_head" where
  "step_heads L param rate = foldl (\<lambda>h c. snake_step_head L h param c rate)"

text \<open>Frame \<open>j\<close> of a window is acknowledged by taking its first \<open>j + 1\<close> commands.\<close>

lemma ack_catch_up_window:
  assumes "cq_ok q" "j \<le> length (cq_list q)" "j < 32767"
  shows "\<exists>q'. ack_catch_up L param rate (cq_first q) (cq_first q + of_nat j) q head =
      (q', step_heads L param rate head (take (Suc j) (cq_list q @ [last (cq_last q # cq_list q)]))) \<and>
    cq_ok q' \<and> cq_list q' = drop (Suc j) (cq_list q) \<and>
    cq_first q' = cq_first q + of_nat (min (Suc j) (length (cq_list q)))"
  using assms
proof (induction j arbitrary: q head)
  case 0
  let ?f = "cq_first q"
  obtain c q' where tk: "cmd_queue_take_or_predict q ?f = (c, q')"
    by fastforce
  have w: "c = w_predict (cq_window q) ?f" "cq_window q' = w_take (cq_window q) ?f" "cq_ok q'"
    using cmd_queue_take_window [OF "0.prems"(1), of ?f] tk by simp_all
  have nlt: "\<not> u16_lt_wrap ?f ?f" "u16_le_wrap ?f ?f" "\<not> u16_le_wrap (?f + 1) ?f"
    using u16.gt_offset [of 1 0 ?f] by (simp_all add: u16_lt_iff u16_le_wrap_def u16.gt_irrefl)
  have "ack_catch_up L param rate ?f ?f q head = (q', snake_step_head L head param c rate)"
    using nlt tk by (simp add: ack_catch_up.simps [of _ _ _ ?f] ack_catch_up.simps [of _ _ _ "?f + 1"])
  then show ?case
    using w nlt(1) by (cases "cq_list q") (auto simp: step_heads_def w_predict_def w_take_def w_offset_def cq_window_def)
next
  case (Suc j)
  let ?f = "cq_first q" and ?g = "cq_first q + of_nat (Suc j)"
  obtain c q' where tk: "cmd_queue_take_or_predict q ?f = (c, q')"
    by fastforce
  have w: "c = w_predict (cq_window q) ?f" "cq_window q' = w_take (cq_window q) ?f" "cq_ok q'"
    using cmd_queue_take_window [OF Suc.prems(1), of ?f] tk by simp_all
  obtain c0 cs where cs: "cq_list q = c0 # cs"
    using Suc.prems(2) by (cases "cq_list q") auto
  have "\<not> u16_lt_wrap ?f ?f"
    by (simp add: u16_lt_iff u16.gt_irrefl)
  then have w': "c = c0" "cq_first q' = ?f + 1" "cq_list q' = cs" "cq_last q' = c0"
    using w(1,2) cs by (simp_all add: w_predict_def w_take_def w_offset_def cq_window_def)
  have le: "u16_le_wrap ?f ?g"
    using u16.gt_offset [of 0 "Suc j" ?f] Suc.prems(3) by (simp add: u16_le_wrap_def)
  have g: "?g = cq_first q' + of_nat j"
    by (simp add: w'(2))
  obtain q2 where q2: "ack_catch_up L param rate (cq_first q') (cq_first q' + of_nat j) q'
      (snake_step_head L head param c rate) =
      (q2, step_heads L param rate (snake_step_head L head param c rate)
         (take (Suc j) (cq_list q' @ [last (cq_last q' # cq_list q')])))"
    "cq_ok q2" "cq_list q2 = drop (Suc j) (cq_list q')"
    "cq_first q2 = cq_first q' + of_nat (min (Suc j) (length (cq_list q')))"
    using Suc.IH [OF w(3), of "snake_step_head L head param c rate"] Suc.prems(2,3) cs w'(3) by auto
  have "ack_catch_up L param rate ?f ?g q head =
      ack_catch_up L param rate (?f + 1) ?g q' (snake_step_head L head param c rate)"
    using le tk by (simp add: ack_catch_up.simps [of _ _ _ ?f])
  then show ?case
    using q2 unfolding g w'(1-4) cs by (simp add: step_heads_def w'(2) add_ac min_def)
qed

text \<open>A frame that is not rejected is one of the window, or the one after it.\<close>

lemma ack_frame_in_window:
  fixes f b :: "16 word"
  assumes "\<not> u16_lt_wrap f b" "\<not> u16_gt_wrap f (b + of_nat n)" "0 < n" "n < 32768"
  shows "\<exists>j\<le>n. f = b + of_nat j"
proof -
  define j where "j = unat (f - b)"
  have f: "f = b + of_nat j"
    by (simp add: j_def)
  have j: "j < 65536"
    using unsigned_less [of "f - b"] by (simp add: j_def)
  have "j \<le> n"
  proof (rule ccontr)
    assume "\<not> j \<le> n"
    then have nj: "n < j"
      by simp
    show False
    proof (cases "j < 32768")
      case True
      then show False
        using u16.gt_offset [of j n b] assms(2,4) nj f by simp
    next
      case False
      have fb: "(uint f - uint b) mod 65536 = int j"
        using u16_window_dist [OF j, of b] f by simp
      have "(- (uint f - uint b)) mod 65536 = 65536 - int j"
        unfolding zmod_zminus1_eq_if fb using False by simp
      then have d: "(uint b - uint f) mod 65536 = 65536 - int j"
        by simp
      have "\<not> u16_gt_wrap b f"
        using assms(1) by (simp add: u16_lt_iff)
      then have j32: "j = 32768" "\<not> b < f"
        using d False j unfolding u16_gt_wrap_dist Let_def by auto
      have "f = (b + of_nat n) + of_nat (32768 - n)"
        using f j32(1) assms(4) by (simp add: of_nat_diff)
      then have "(uint f - uint (b + of_nat n)) mod 65536 = int (32768 - n)"
        using u16_window_dist [of "32768 - n" "b + of_nat n"] by simp
      then have "u16_gt_wrap f (b + of_nat n)"
        using assms(3,4) unfolding u16_gt_wrap_dist Let_def by simp
      with assms(2) show False by simp
    qed
  qed
  with f show ?thesis by blast
qed

section \<open>Rolling back\<close>

lemma rollback_point_open:
  assumes "curve_open d" "2 \<le> length (snake_history d)"
  shows "\<exists>d'. rollback_point d = Some d' \<and> curve_open d' \<and> snake_history d' = butlast (snake_history d) \<and>
    length (snake_trails d') \<le> length (snake_trails d)"
proof -
  obtain T H B where o: "curve_rep d T H B" "curve_shape T H B" "snake_trails d = T" "snake_history d = curve_points T"
    "T \<noteq> []" "H \<noteq> []" "B \<noteq> []" "last T \<noteq> []"
    using assms(1) by (rule curve_openE) blast
  show ?thesis
  proof (cases "2 \<le> length (last T)")
    case True
    obtain d' where u: "rollback_point d = Some d'" "curve_rep d' (butlast T @ [butlast (last T)]) H B"
      using rollback_point_keep [OF o(1,5) True] by blast
    show ?thesis
      using u(1) curve_openI [OF u(2) shape_pop(1) [OF o(2) True]] curve_rep_lists [OF u(2)]
        shape_pop(2) [OF o(2) True] o(3-5) by (auto simp: snake_history_def)
  next
    case False
    then have one: "length (last T) = 1"
      using o(8) by (cases "last T"; cases "tl (last T)") auto
    have two: "2 \<le> length T"
    proof (rule ccontr)
      assume "\<not> 2 \<le> length T"
      then have "length T = 1"
        using o(5) by (cases T; cases "tl T") auto
      then show False
        using curve_points_single [OF o(2)] assms(2) o(4) one by simp
    qed
    then have "last (butlast T) \<in> set (butlast T)"
      by (intro last_in_set) (auto simp flip: length_0_conv)
    then have "5 \<le> length (last (butlast T))"
      using o(2) by (simp add: curve_shape_def)
    then have ne: "last (butlast T) \<noteq> []"
      by auto
    let ?T = "butlast (butlast T) @ [butlast (last (butlast T))]"
    obtain d' where u: "rollback_point d = Some d'" "curve_rep d' ?T (butlast H) (butlast B)"
      using rollback_point_drop [OF o(1) two o(6,7) one ne] by blast
    note sh = shape_pop_drop [OF o(2) one two]
    show ?thesis
      using u(1) curve_openI [OF u(2) sh(1)] curve_rep_lists [OF u(2)] sh(2) o(3,4) two
      by (auto simp: snake_history_def)
  qed
qed

lemma rollback_points_open:
  assumes "curve_open d" "k < length (snake_history d)" "k < 32768"
  shows "\<exists>d'. rollback_points (f + of_nat k) f d = Some d' \<and> curve_open d' \<and>
    snake_history d' = take (length (snake_history d) - k) (snake_history d) \<and>
    length (snake_trails d') \<le> length (snake_trails d)"
  using assms
proof (induction k arbitrary: d)
  case 0
  then show ?case
    by (simp add: rollback_points.simps [of f] u16.gt_irrefl)
next
  case (Suc k)
  have gt: "u16_gt_wrap (f + of_nat (Suc k)) f"
    using u16.gt_offset [of "Suc k" 0 f] Suc.prems(3) by simp
  have "2 \<le> length (snake_history d)"
    using Suc.prems(2) by simp
  then obtain d1 where d1: "rollback_point d = Some d1" "curve_open d1"
    "snake_history d1 = butlast (snake_history d)" "length (snake_trails d1) \<le> length (snake_trails d)"
    using rollback_point_open [OF Suc.prems(1)] by blast
  have "k < length (snake_history d1)"
    using Suc.prems(2) d1(3) by simp
  then obtain d2 where d2: "rollback_points (f + of_nat k) f d1 = Some d2" "curve_open d2"
    "snake_history d2 = take (length (snake_history d1) - k) (snake_history d1)"
    "length (snake_trails d2) \<le> length (snake_trails d1)"
    using Suc.IH [OF d1(2)] Suc.prems(3) by auto
  have "f + of_nat (Suc k) - 1 = f + of_nat k"
    by simp
  then have "rollback_points (f + of_nat (Suc k)) f d = Some d2"
    using gt d1(1) d2(1) by (subst rollback_points.simps) simp
  moreover have "take (length (snake_history d1) - k) (snake_history d1) =
      take (length (snake_history d) - Suc k) (snake_history d)"
    using d1(3) Suc.prems(2) take_butlast [of "length (snake_history d) - Suc k" "snake_history d"] by simp
  ultimately show ?case
    using d2(2-4) d1(4) by auto
qed

section \<open>Simulating again\<close>

lemma snake_extend_open:
  assumes "curve_open d" "curve_room (Suc k) d"
  shows "case snake_extend L J d head of None \<Rightarrow> length (snake_trails d) = 63
    | Some (need, d') \<Rightarrow> curve_open d' \<and> curve_room k d' \<and> curve_ends d' (sh_pos head) \<and>
        snake_history d' = snake_history d @ [sh_pos head] \<and> length (snake_trails d') \<le> Suc (length (snake_trails d))"
proof -
  have r1: "curve_room 1 d"
    using assms(2) by (simp add: curve_room_def)
  obtain need d1 d2 where u: "snake_update_curve_from_head L J d head = Some (need, d1)"
    "snake_update_head_trail_aabb d1 = Some d2" "curve_open d2" "curve_ends d2 (sh_pos head)"
    "snake_history d2 = snake_history d @ [sh_pos head]"
    "length (snake_trails d2) = length (snake_trails d)" "need \<longrightarrow> 5 \<le> length (last (snake_trails d2))"
    "covers (last (snake_trails d2)) (last (snake_boxes d2))"
    "curve_open d1" "curve_ends d1 (sh_pos head)" "snake_history d1 = snake_history d2"
    "length (snake_trails d1) = length (snake_trails d)"
    using update_and_box [OF assms(1) r1, of L J head] by blast
  consider "\<not> need" | "need" "length (snake_trails d2) = 63" | "need" "length (snake_trails d2) < 63"
    using trails_bound [OF u(3)] by fastforce
  then show ?thesis
  proof cases
    case 1
    then show ?thesis
      using u assms(2) by (auto simp: snake_extend_def curve_room_def)
  next
    case 2
    then show ?thesis
      using u(1,2,6) add_segment_full [OF u(3), of J head] by (simp add: snake_extend_def)
  next
    case 3
    then obtain d3 where a: "snake_add_new_segment J d2 head = Some d3" "curve_open d3"
      "curve_ends d3 (sh_pos head)" "snake_trails d3 = snake_trails d2 @ [[sh_pos head]]"
      "snake_history d3 = snake_history d2"
      using add_segment_open [OF u(3) _ u(4,8), of J] u(7) by blast
    have "snake_extend L J d head = Some (True, d3)"
      using u(1,2) a(1) 3 by (simp add: snake_extend_def)
    then show ?thesis
      using a(2-5) u(5,6) assms(2) by (auto simp: curve_room_def)
  qed
qed

text \<open>The positions the head takes.\<close>

fun head_path :: "libm \<Rightarrow> snake_param \<Rightarrow> 8 word \<Rightarrow> snake_head \<Rightarrow> cmd list \<Rightarrow> qwpos list" where
  "head_path L param rate h [] = []"
| "head_path L param rate h (c # cs) =
     sh_pos (snake_step_head L h param c rate) # head_path L param rate (snake_step_head L h param c rate) cs"

lemma resimulate_open:
  assumes "curve_open d" "curve_room (length cs) d" "curve_ends d (sh_pos head)"
  shows "case resimulate L J param rate cs n d head of None \<Rightarrow> 63 < length (snake_trails d) + length cs
    | Some (d', head') \<Rightarrow> head' = step_heads L param rate head cs \<and> curve_open d' \<and> curve_ends d' (sh_pos head') \<and>
        snake_history d' = snake_history d @ head_path L param rate head cs"
  using assms
proof (induction cs arbitrary: d head n)
  case (Cons c cs)
  let ?h = "snake_step_head L head param c rate"
  note x = snake_extend_open [OF Cons.prems(1), where k = "length cs" and L = L and J = J and head = ?h]
  show ?case
  proof (cases "snake_extend L J d ?h")
    case None
    then show ?thesis
      using x Cons.prems(2) by (simp add: Let_def)
  next
    case (Some r)
    then obtain need d1 where d1: "snake_extend L J d ?h = Some (need, d1)"
      by (cases r) auto
    have o: "curve_open d1" "curve_room (length cs) d1" "curve_ends d1 (sh_pos ?h)"
        "snake_history d1 = snake_history d @ [sh_pos ?h]" "length (snake_trails d1) \<le> Suc (length (snake_trails d))"
      using x d1 Cons.prems(2) by simp_all
    let ?n = "if need then n + 1 else n"
    have "d1\<lparr>sd_handles := bezier_squeeze_n_recent_step (sd_handles d1) ?n (uint rate)\<rparr> = d1"
      by (simp add: bezier_squeeze_n_recent_step_def)
    then have "resimulate L J param rate (c # cs) n d head = resimulate L J param rate cs ?n d1 ?h"
      using d1(1) by (simp add: Let_def)
    then show ?thesis
      unfolding \<open>resimulate L J param rate (c # cs) n d head = _\<close>
      using Cons.IH [OF o(1-3), of ?n] o(4,5)
      by (cases "resimulate L J param rate cs ?n d1 ?h") (auto simp: step_heads_def simp del: resimulate.simps)
  qed
qed (simp add: step_heads_def)

section \<open>Acknowledging a frame\<close>

lemma cmd_queue_commands_list: "cq_ok q \<Longrightarrow> cmd_queue_commands q = cq_list q"
  using rb_for_each_indices_spec
  by (auto simp: cmd_queue_commands_def cq_list_def cq_ok_def rbp_ok_def rbp_list_def split: option.splits)

lemma cq_length16: "cq_ok q \<Longrightarrow> length (cq_list q) < 16384"
proof (cases "cq_rb q")
  case (Some rb)
  assume ok: "cq_ok q"
  then have rb: "rb_ok 16 rb"
    using Some by (simp add: cq_ok_def rbp_ok_def)
  then obtain k where k: "rb_capacity rb = 2 ^ k" "k \<le> 14"
    by (auto simp: rb_ok_def)
  then have "rb_capacity rb \<le> 2 ^ 14"
    using power_increasing [of k 14 "2::int"] by simp
  with rb_count_bounds(2) [OF rb] Some show ?thesis
    using cq_count [OF ok] by simp
qed (simp add: cq_list_def)

text \<open>The window around a frame that is acknowledged: the commands up to it, and those after.\<close>

definition ack_done :: "cmd_queue \<Rightarrow> nat \<Rightarrow> cmd list" where
  "ack_done q j = take (Suc j) (cq_list q @ [last (cq_last q # cq_list q)])"

definition ack_left :: "cmd_queue \<Rightarrow> nat \<Rightarrow> cmd list" where
  "ack_left q j = drop (Suc j) (cq_list q)"

lemma snake_ack_rejected:
  assumes "cmd_queue_count q = 0 \<or> u16_lt_wrap f (cmd_queue_frame_begin q) \<or> u16_gt_wrap f (cmd_queue_frame_end q)"
  shows "snake_ack_frame L J d ack pred auth param q f rate = Some (d, ack, pred, q)"
  using assms by (auto simp: snake_ack_frame_def Let_def)

lemma snake_ack_catch_up:
  assumes "cq_ok q" "cq_list q \<noteq> []" "j \<le> length (cq_list q)" "f = cq_first q + of_nat j"
  shows "\<exists>q'. cq_ok q' \<and> cq_list q' = ack_left q j \<and>
    snake_ack_frame L J d ack pred auth param q f rate =
     (let ack' = step_heads L param rate ack (ack_done q j)
      in if ack' = auth then Some (d, ack', pred, q')
         else case rollback_points (cq_first q + of_nat (length (cq_list q))) f d of None \<Rightarrow> None
           | Some d \<Rightarrow>
         (case snake_extend L J d auth of None \<Rightarrow> None
           | Some (need, d) \<Rightarrow>
         (case resimulate L J param rate (ack_left q j) (if need then 1 else 0) d auth of None \<Rightarrow> None
           | Some (d, pred) \<Rightarrow>
         (case snake_update_head_trail_aabb d of None \<Rightarrow> None
           | Some d \<Rightarrow>
         (case snake_update_aabb d of None \<Rightarrow> None
           | Some d \<Rightarrow> map_option (\<lambda>(_, d). (d, auth, pred, q')) (snake_sample_points L J d param))))))"
proof -
  have n: "length (cq_list q) < 32768" "0 < length (cq_list q)"
    using cq_length [OF assms(1)] assms(2) by simp_all
  have c: "cmd_queue_count q = int (length (cq_list q))"
    using cq_count [OF assms(1)] by (simp add: cmd_queue_count_def)
  have e: "cmd_queue_frame_end q = cq_first q + of_nat (length (cq_list q))"
    using cq_count [OF assms(1)] by (simp add: cmd_queue_frame_end_def)
  have in_range: "\<not> u16_lt_wrap f (cq_first q)" "\<not> u16_gt_wrap f (cmd_queue_frame_end q)"
    using u16.gt_offset [of 0 j "cq_first q"] u16.gt_offset [of j "length (cq_list q)" "cq_first q"] n assms(3,4)
    by (simp_all add: u16_lt_iff e)
  have j: "j < 32767"
    using cq_length16 [OF assms(1)] assms(3) by simp
  obtain q' where q': "ack_catch_up L param rate (cq_first q) f q ack =
      (q', step_heads L param rate ack (ack_done q j))" "cq_ok q'" "cq_list q' = ack_left q j"
    using ack_catch_up_window [OF assms(1,3) j, of L param rate ack] unfolding assms(4) ack_done_def ack_left_def
    by blast
  have "\<not> int (length (cq_list q)) = 0"
    using n(2) by simp
  then show ?thesis
    using q' in_range
    by (intro exI [of _ q'])
       (simp add: snake_ack_frame_def c e Let_def cmd_queue_frame_begin_def snake_heads_are_equal_iff
          cmd_queue_commands_list map_option_case case_prod_unfold cong: option.case_cong)
qed

text \<open>
  When the window was what the prediction was made of, the acknowledged head becomes the
  server's and the predicted head is the server's head moved by the commands that are left.
\<close>

lemma step_heads_split:
  assumes "j < length (cq_list q)"
  shows "ack_done q j = take (Suc j) (cq_list q)"
    and "step_heads L param rate h (cq_list q) =
      step_heads L param rate (step_heads L param rate h (ack_done q j)) (ack_left q j)"
proof -
  show taken: "ack_done q j = take (Suc j) (cq_list q)"
    using assms by (simp add: ack_done_def)
  have "cq_list q = take (Suc j) (cq_list q) @ drop (Suc j) (cq_list q)"
    by simp
  then show "step_heads L param rate h (cq_list q) =
      step_heads L param rate (step_heads L param rate h (ack_done q j)) (ack_left q j)"
    unfolding taken ack_left_def step_heads_def by (metis foldl_append)
qed

lemma length_head_path: "length (head_path L param rate h cs) = length cs"
  by (induction cs arbitrary: h) simp_all

lemma last_head_path:
  "last (sh_pos h # head_path L param rate h cs) = sh_pos (step_heads L param rate h cs)"
  by (induction cs arbitrary: h) (simp_all add: step_heads_def)

text \<open>The boxes catch up, and the curve is sampled.\<close>

lemma update_boxes_ok:
  assumes "curve_open d" "curve_ends d p"
  shows "\<exists>d1 d2. snake_update_head_trail_aabb d = Some d1 \<and> snake_update_aabb d1 = Some d2 \<and> curve_ok d2 p \<and>
    snake_history d2 = snake_history d"
proof -
  obtain d1 where d1: "snake_update_head_trail_aabb d = Some d1" "curve_open d1"
    "snake_trails d1 = snake_trails d" "snake_handle_pos d1 = snake_handle_pos d"
    "snake_history d1 = snake_history d" "covers (last (snake_trails d1)) (last (snake_boxes d1))"
    using head_trail_aabb_open [OF assms(1)] by blast
  obtain bb where bb: "snake_update_aabb d1 = Some (d1\<lparr>sd_aabb := bb\<rparr>)" "\<forall>t \<in> set (snake_trails d1). covers t bb"
    using update_aabb_open [OF d1(2,6)] by blast
  have "curve_ok (d1\<lparr>sd_aabb := bb\<rparr>) p"
    using d1 bb(2) assms(2) by (simp add: curve_ok_def curve_ends_def)
  then show ?thesis
    using d1(1,5) bb(1) by (intro exI [of _ d1] exI [of _ "d1\<lparr>sd_aabb := bb\<rparr>"]) simp
qed

text \<open>Why nothing comes of a curve: there is no memory for its samples.\<close>

definition sampling_fails :: "libm \<Rightarrow> junk \<Rightarrow> snake_param \<Rightarrow> snake_data \<Rightarrow> bool" where
  "sampling_fails L J param d \<longleftrightarrow>
     bezier_calc_equidistant_points L (j_point J) (sd_points d) (sd_handles d)
       (qw_mul SNAKE_PART_SPACING (snake_scale param)) (snake_length param) = Some None"

lemma sample_points_ok:
  assumes "libm_sqrt_ok L" "param_ok param" "curve_ok d p"
  shows "case snake_sample_points L J d param of None \<Rightarrow> sampling_fails L J param d
    | Some (stale, d') \<Rightarrow> curve_ok d' p \<and> snake_history d' = snake_history d \<and> snake_trails d' = snake_trails d \<and>
        0 \<le> stale \<and> stale < int (length (snake_trails d))"
proof -
  have len: "snake_length param < 2 ^ 31 - 2 ^ 20"
    using param_ok_length [OF assms(2)] by simp
  show ?thesis
    using snake_sample_points_keep [OF assms(1) len curve_ok_open [OF assms(3)], of J] assms(3)
    by (auto simp: sampling_fails_def curve_ok_def split: option.splits)
qed

lemma snake_ack_corrects:
  assumes q: "cq_ok q" "j < length (cq_list q)" "f = cq_first q + of_nat j"
    and pred: "pred = step_heads L param rate ack (cq_list q)"
    and curve: "curve_ok d (sh_pos pred)" "length (cq_list q) - j < length (snake_history d)"
      "curve_room (length (cq_list q)) d"
    and sampling: "libm_sqrt_ok L" "param_ok param"
    and history: "resent = take (length (snake_history d) - (length (cq_list q) - j)) (snake_history d) @
      sh_pos auth # head_path L param rate auth (ack_left q j)"
  shows "case snake_ack_frame L J d ack pred auth param q f rate of
      None \<Rightarrow> 63 < length (snake_trails d) + (length (cq_list q) - j) \<or>
        (\<exists>d'. curve_ok d' (sh_pos (step_heads L param rate auth (ack_left q j))) \<and> snake_history d' = resent \<and>
           sampling_fails L J param d')
    | Some (d', ack', pred', q') \<Rightarrow>
        ack' = auth \<and> cq_list q' = ack_left q j \<and> cq_ok q' \<and>
        pred' = step_heads L param rate auth (ack_left q j) \<and> curve_ok d' (sh_pos pred') \<and>
        snake_history d' = (if step_heads L param rate ack (ack_done q j) = auth then snake_history d else resent)"
proof -
  have ne: "cq_list q \<noteq> []" "j \<le> length (cq_list q)"
    using q(2) by auto
  let ?n = "length (cq_list q)" and ?k = "length (cq_list q) - j" and ?left = "ack_left q j"
  let ?h = "step_heads L param rate auth ?left"
  obtain q' where q': "cq_ok q'" "cq_list q' = ?left" and run:
    "snake_ack_frame L J d ack pred auth param q f rate =
     (let ack' = step_heads L param rate ack (ack_done q j)
      in if ack' = auth then Some (d, ack', pred, q')
         else case rollback_points (cq_first q + of_nat ?n) f d of None \<Rightarrow> None
           | Some d \<Rightarrow>
         (case snake_extend L J d auth of None \<Rightarrow> None
           | Some (need, d) \<Rightarrow>
         (case resimulate L J param rate ?left (if need then 1 else 0) d auth of None \<Rightarrow> None
           | Some (d, pred) \<Rightarrow>
         (case snake_update_head_trail_aabb d of None \<Rightarrow> None
           | Some d \<Rightarrow>
         (case snake_update_aabb d of None \<Rightarrow> None
           | Some d \<Rightarrow> map_option (\<lambda>(_, d). (d, auth, pred, q')) (snake_sample_points L J d param))))))"
    using snake_ack_catch_up [OF q(1) ne q(3), of L J d ack pred auth param rate] by blast
  show ?thesis
  proof (cases "step_heads L param rate ack (ack_done q j) = auth")
    case True
    then have "pred = ?h"
      using step_heads_split(2) [OF q(2), of L param rate ack] pred by simp
    with True run q' curve(1) show ?thesis
      by simp
  next
    case wrong: False
    have "cq_first q + of_nat ?n = f + of_nat ?k" "?k < 32768"
      using ne(2) q(3) cq_length [OF q(1)] by (simp_all add: of_nat_diff)
    then obtain d1 where d1: "rollback_points (cq_first q + of_nat ?n) f d = Some d1" "curve_open d1"
      "snake_history d1 = take (length (snake_history d) - ?k) (snake_history d)"
      "length (snake_trails d1) \<le> length (snake_trails d)"
      using rollback_points_open [OF curve_ok_open [OF curve(1)] curve(2), of f] by auto
    have left: "Suc (length ?left) = ?k"
      using q(2) by (simp add: ack_left_def)
    have room: "curve_room (Suc (length ?left)) d1"
      using curve(3) d1(3) left q(2) by (simp add: curve_room_def)
    note x = snake_extend_open [OF d1(2) room, where L = L and J = J and head = auth]
    show ?thesis
    proof (cases "snake_extend L J d1 auth")
      case None
      then have "63 < length (snake_trails d) + ?k"
        using x d1(4) left by simp
      then show ?thesis
        using None run wrong d1(1) by simp
    next
      case (Some r)
      then obtain need d2 where d2: "snake_extend L J d1 auth = Some (need, d2)"
        by (cases r) auto
      have o2: "curve_open d2" "curve_room (length ?left) d2" "curve_ends d2 (sh_pos auth)"
          "snake_history d2 = snake_history d1 @ [sh_pos auth]" "length (snake_trails d2) \<le> Suc (length (snake_trails d1))"
        using x d2 by simp_all
      define r3 where "r3 = resimulate L J param rate ?left (if need then 1 else 0) d2 auth"
      note y = resimulate_open [OF o2(1-3), where L = L and J = J and param = param and rate = rate and n = "if need then 1 else 0", folded r3_def]
      show ?thesis
      proof (cases r3)
        case None
        then have "63 < length (snake_trails d) + ?k"
          using y d1(4) o2(5) left by simp
        then show ?thesis
          using None run wrong d1(1) d2 by (simp add: r3_def)
      next
        case (Some r)
        then obtain d3 where d3: "r3 = Some (d3, ?h)" "curve_open d3" "curve_ends d3 (sh_pos ?h)" "snake_history d3 = resent"
          using y o2(4) d1(3) history by auto
        obtain d4 d5 where d5: "snake_update_head_trail_aabb d3 = Some d4" "snake_update_aabb d4 = Some d5"
            "curve_ok d5 (sh_pos ?h)" "snake_history d5 = resent"
          using update_boxes_ok [OF d3(2,3)] d3(4) by auto
        have "snake_ack_frame L J d ack pred auth param q f rate =
            map_option (\<lambda>(_, d). (d, auth, ?h, q')) (snake_sample_points L J d5 param)"
          using wrong d1(1) d2 d3(1) d5(1,2) by (simp add: run r3_def)
        then show ?thesis
          using sample_points_ok [OF sampling d5(3), of J] d5(3,4) q' wrong
          by (cases "snake_sample_points L J d5 param") auto
      qed
    qed
  qed
qed

text \<open>A whole step: it fails when the curve has 63 segments and needs another one, and when sampling fails.\<close>

lemma snake_step_ok:
  assumes "curve_ok d (sh_pos head)" "curve_room 1 d" "libm_sqrt_ok L" "param_ok param"
    and "moved = snake_step_head L head param command rate"
  shows "case snake_step L J d head param command rate of
      None \<Rightarrow> (length (snake_trails d) = 63 \<and> (\<exists>d1. snake_update_curve_from_head L J d moved = Some (True, d1))) \<or>
        (\<exists>d'. curve_ok d' (sh_pos moved) \<and> snake_history d' = snake_history d @ [sh_pos moved] \<and> sampling_fails L J param d')
    | Some (stale, d', head') \<Rightarrow>
        head' = moved \<and> curve_ok d' (sh_pos head') \<and>
        snake_history d' = snake_history d @ [sh_pos head'] \<and>
        0 \<le> stale \<and> stale < int (length (snake_trails d')) \<and>
        length (snake_trails d') \<le> Suc (length (snake_trails d))"
  using snake_step_curve [OF assms(1,2,5), of J]
proof (elim disjE exE conjE)
  fix d1
  assume d1: "snake_step L J d head param command rate =
      map_option (\<lambda>(stale, d). (stale, d, moved)) (snake_sample_points L J d1 param)"
    "curve_ok d1 (sh_pos moved)" "snake_history d1 = snake_history d @ [sh_pos moved]"
    "length (snake_trails d1) \<le> Suc (length (snake_trails d))"
  then show ?thesis
    using sample_points_ok [OF assms(3,4) d1(2), of J] by (cases "snake_sample_points L J d1 param") auto
qed auto

end
