(* ===== verification/Snake_Laws.thy ===== *)
theory Snake_Laws
  imports Snake_Ack
begin

text \<open>
  The properties of snakes and curves, with their witnesses.
\<close>

section \<open>Concrete inputs of the witnesses\<close>

lemma demo_libm_ok: "libm_sqrt_ok demo_libm" "libm_ok demo_libm"
  by (simp add: demo_libm_def libm_sqrt_ok_def) (rule demo_libm_bounds)

definition demo_point :: qwpos where
  "demo_point = \<lparr>px = 0, py = 0\<rparr>"

definition demo_junk :: junk where
  "demo_junk =
     \<lparr>j_pos = \<lambda>_. demo_point, j_trail = \<lambda>_. None, j_handle = \<lambda>_. bezier_handle_init demo_point 0,
      j_aabb = \<lambda>_. point_box demo_point, j_point = \<lambda>_. \<lparr>bp_pos = demo_point, bp_dir = demo_point\<rparr>,
      j_cmd = \<lambda>_. cmd_default, j_param = demo_param\<rparr>"

text \<open>Ring buffers and vectors that hold a short list, and a curve of short trails.\<close>

definition demo_ring :: "nat \<Rightarrow> 'a \<Rightarrow> 'a list \<Rightarrow> 'a rb" where
  "demo_ring k x xs = \<lparr>rb_read = 0, rb_write = int (length xs), rb_capacity = 2 ^ k,
     rb_data = xs @ replicate (2 ^ k - length xs) x\<rparr>"

definition demo_trail :: "qwpos list \<Rightarrow> qwpos vec" where
  "demo_trail ps = \<lparr>vec_cnt = int (length ps), vec_cap = 32, vec_data = ps @ replicate (32 - length ps) demo_point\<rparr>"

definition demo_curve :: "qwpos list list \<Rightarrow> snake_data" where
  "demo_curve T =
     \<lparr>sd_name = [], sd_trails = Some (demo_ring 6 None (map (\<lambda>t. Some (demo_trail t)) T)),
      sd_handles = Some (demo_ring 7 (bezier_handle_init demo_point 0)
        (map (\<lambda>p. bezier_handle_init p 0) (map hd T @ [last (last T)]))),
      sd_aabbs = Some (demo_ring 6 (point_box demo_point) (map trail_box T)),
      sd_points = None, sd_aabb = union_boxes (map trail_box T)\<rparr>"

lemma demo_ring_list:
  assumes "length xs < 2 ^ k" "Suc k < bits" "1 < k"
  shows "rb_ok bits (demo_ring k x xs) \<and> rb_list (demo_ring k x xs) = xs"
proof -
  have ok: "rb_ok bits (demo_ring k x xs)"
    using assms by (auto simp: demo_ring_def rb_ok_def intro!: exI [of _ k])
  have n: "rb_count (Some (demo_ring k x xs)) = int (length xs)"
    using assms(1) rb_count_mod [OF ok] by (simp add: demo_ring_def)
  have "rb_list (demo_ring k x xs) ! i = xs ! i" if "i < length xs" for i
    using that rb_list_nth [OF ok, of i, unfolded n] assms(1) by (simp add: demo_ring_def nth_append)
  then have "rb_list (demo_ring k x xs) = xs"
    by (intro nth_equalityI) (simp_all add: length_rb_list n)
  with ok show ?thesis ..
qed

lemma demo_curve_ok:
  assumes "T \<noteq> []" "length T \<le> 63" "\<forall>t \<in> set T. length t \<le> 32" "last T \<noteq> []"
    and "\<forall>t \<in> set (butlast T). 5 \<le> length t" "successively (\<lambda>s t. last s = hd t) T"
  shows "curve_ok (demo_curve T) (last (last T)) \<and> snake_trails (demo_curve T) = T"
proof -
  let ?d = "demo_curve T" and ?H = "map hd T @ [last (last T)]" and ?B = "map trail_box T"
  note rings = demo_ring_list [of "map (\<lambda>t. Some (demo_trail t)) T" 6 8 None]
    demo_ring_list [of "map (\<lambda>p. bezier_handle_init p 0) ?H" 7 16 "bezier_handle_init demo_point 0"]
    demo_ring_list [of "map trail_box T" 6 16 "point_box demo_point"]
  have trail: "vec_ok 16 (demo_trail t) \<and> vec_list (demo_trail t) = t" if "length t \<le> 32" for t
    using that by (auto simp: demo_trail_def vec_ok_def vec_list_def)
  have "map (\<lambda>t. vec_list (demo_trail t)) T = T"
    using trail assms(3) by (intro map_idI) simp
  then have rep: "curve_rep ?d T ?H ?B"
    using rings assms(2,3) trail
    by (auto simp: curve_rep_def demo_curve_def rbp_ok_def rbp_list_def comp_def bezier_handle_init_def)
  have cov: "covers t (trail_box t)" for t
    by (simp add: covers_def trail_box_covers)
  then have sh: "curve_shape T ?H ?B"
    using assms by (auto simp: curve_shape_def map_butlast [symmetric] list_all2_map2 list.rel_refl)
  have "covers t (union_boxes ?B)" if "t \<in> set T" for t
    using that by (auto simp: covers_def intro: union_boxes_test [of "trail_box t"] trail_box_covers)
  then show ?thesis
    using curve_rep_lists [OF rep] curve_openI [OF rep sh] assms(1) cov
    by (auto simp: curve_ok_def curve_ends_def last_map demo_curve_def)
qed

section \<open>Properties\<close>

text \<open>
  A new snake is well formed: its curve is the single point where it spawned, with a
  handle at both ends and boxes that cover it, its two heads agree, its command queue is empty,
  it is not held and its parameters are in range.
\<close>

lemma new_snake_well_formed:
  "\<exists>s. snake_init J p name = Some s \<and> curve_ok (sn_data s) p \<and> snake_history (sn_data s) = [p] \<and>
     sh_pos (sn_head s) = p \<and> sn_head_ack s = sn_head s \<and> cq_ok (sn_cmdq s) \<and> cq_list (sn_cmdq s) = [] \<and>
     param_ok (sn_param s) \<and> \<not> snake_is_held s \<and> sd_name (sn_data s) = name"
proof -
  obtain d where "snake_data_init J p name = Some d" "curve_ok d p" "snake_history d = [p]" "sd_name d = name"
    using snake_data_init_ok by blast
  then show ?thesis
    by (simp add: snake_init_def snake_head_init_def cmd_queue_init_ok snake_param_init_ok snake_is_held_def)
qed

text \<open>
  Claim C3. A step of a snake whose curve is well formed, has fewer than 16384 points and ends at
  the head, with the parameters of the code and an exact square root, moves the head and appends
  its new position to the history of the curve. It keeps the curve well formed: trails, handles and
  boxes match up segment by segment, adjacent trails share their end point, and every point is
  covered by the boxes. The number of segments it reports as superfluous is less than the number of
  segments, so that at least one is left, and at most one segment is added. There are two ways in
  which it fails: the curve has 63 segments and needs another one, or the vector of the sampled
  points of the extended curve cannot grow.
\<close>

theorem step_keeps_curve:
  assumes "curve_ok d (sh_pos head)" "length (snake_history d) < 16384" "libm_sqrt_ok L" "param_ok param"
    and "moved = snake_step_head L head param command rate"
  shows "case snake_step L J d head param command rate of
      None \<Rightarrow> (length (snake_trails d) = 63 \<and> (\<exists>d1. snake_update_curve_from_head L J d moved = Some (True, d1))) \<or>
        (\<exists>d'. curve_ok d' (sh_pos moved) \<and> snake_history d' = snake_history d @ [sh_pos moved] \<and> sampling_fails L J param d')
    | Some (stale, d', head') \<Rightarrow>
        head' = moved \<and> curve_ok d' (sh_pos head') \<and>
        snake_history d' = snake_history d @ [sh_pos head'] \<and>
        0 \<le> stale \<and> stale < int (length (snake_trails d')) \<and>
        length (snake_trails d') \<le> Suc (length (snake_trails d))"
  using assms(2) by (intro snake_step_ok [OF assms(1) _ assms(3-5)]) (simp add: curve_room_def)

theorem step_keeps_curve_witness:
  "let d = demo_curve [[demo_point]]; moved = snake_step_head demo_libm (snake_head_init demo_point) demo_param cmd_default 60
    in case snake_step demo_libm demo_junk d (snake_head_init demo_point) demo_param cmd_default 60 of
      None \<Rightarrow> \<exists>d'. curve_ok d' (sh_pos moved) \<and> snake_history d' = snake_history d @ [sh_pos moved] \<and>
        sampling_fails demo_libm demo_junk demo_param d'
    | Some (stale, d', head') \<Rightarrow>
        head' = moved \<and> curve_ok d' (sh_pos head') \<and> snake_history d' = [demo_point, sh_pos moved] \<and>
        0 \<le> stale \<and> length (snake_trails d') \<le> 2"
proof -
  let ?d = "demo_curve [[demo_point]]" and ?h = "snake_head_init demo_point"
  have c: "curve_ok ?d (sh_pos ?h)" "snake_trails ?d = [[demo_point]]"
    using demo_curve_ok [of "[[demo_point]]"] by (simp_all add: snake_head_init_def)
  then have h: "snake_history ?d = [demo_point]"
    by (simp add: snake_history_def curve_points_def)
  show ?thesis
    using step_keeps_curve [OF c(1) _ demo_libm_ok(1) demo_param_ok refl, of demo_junk cmd_default 60] c(2) h
    by (simp add: Let_def split: option.splits prod.splits)
qed

text \<open>
  Claim C2. A frame of the command window is acknowledged, the predicted head is the acknowledged
  head moved by the queued commands, and the curve is well formed, ends at the predicted head, is
  longer than the commands that are rolled back and has at most 16384 points with those of the
  queue; the parameters are those of the code, and the square root is exact. Then afterwards the
  acknowledged head is the server's head and the predicted head is the server's head moved by the
  commands that are left in the queue, whether or not the prediction was wrong. If it was wrong,
  the points of the frames after the acknowledged one are taken off the curve and replaced by the
  server's position and those of the new simulation; otherwise the curve stays. The curve is well
  formed and ends at the predicted head. It fails only when the ring of 63 segments could not take
  a new segment for each of these frames, or when the vector of the sampled points of the corrected
  curve cannot grow.
\<close>

theorem ack_corrects_prediction:
  assumes "cq_ok q" "j < length (cq_list q)" "f = cq_first q + of_nat j"
    and "pred = step_heads L param rate ack (cq_list q)"
    and "curve_ok d (sh_pos pred)" "length (cq_list q) - j < length (snake_history d)"
    and "length (snake_history d) + length (cq_list q) \<le> 16384" "libm_sqrt_ok L" "param_ok param"
    and "corrected = take (length (snake_history d) - (length (cq_list q) - j)) (snake_history d) @
      sh_pos auth # head_path L param rate auth (drop (Suc j) (cq_list q))"
  shows "case snake_ack_frame L J d ack pred auth param q f rate of
      None \<Rightarrow> 63 < length (snake_trails d) + (length (cq_list q) - j) \<or>
        (\<exists>d'. curve_ok d' (sh_pos (step_heads L param rate auth (drop (Suc j) (cq_list q)))) \<and>
           snake_history d' = corrected \<and> sampling_fails L J param d')
    | Some (d', ack', pred', q') \<Rightarrow>
        ack' = auth \<and> cq_list q' = drop (Suc j) (cq_list q) \<and> cq_ok q' \<and>
        pred' = step_heads L param rate auth (cq_list q') \<and> curve_ok d' (sh_pos pred') \<and>
        snake_history d' =
          (if step_heads L param rate ack (take (Suc j) (cq_list q)) = auth then snake_history d else corrected)"
proof -
  have "curve_room (length (cq_list q)) d"
    using assms(7) by (simp add: curve_room_def)
  then show ?thesis
    using snake_ack_corrects [OF assms(1-6) _ assms(8,9), where J = J and auth = auth and resent = corrected]
      step_heads_split(1) [OF assms(2)] assms(10)
    by (auto simp: ack_left_def split: option.splits)
qed

definition demo_cmd_queue :: cmd_queue where
  "demo_cmd_queue = cmd_queue_put True (\<lambda>_. cmd_default) cmd_queue_init cmd_default 5"

lemma demo_cmd_queue:
  "cq_ok demo_cmd_queue" "cq_list demo_cmd_queue = [cmd_default]" "cq_first demo_cmd_queue = 5"
proof -
  have "rb_can_grow 16 True (cq_rb cmd_queue_init)"
    by (simp add: rb_can_grow_def cmd_queue_init_def rb_init_def)
  note p = cmd_queue_put_window [OF cmd_queue_init_ok(1) this, of "\<lambda>_. cmd_default" cmd_default 5]
  have "cq_window demo_cmd_queue = \<lparr>w_first = 5, w_cmds = [cmd_default], w_last = cq_last cmd_queue_init\<rparr>"
    using p(2) by (simp add: demo_cmd_queue_def w_put_def cq_window_def cmd_queue_init_ok(2))
  then show "cq_list demo_cmd_queue = [cmd_default]" "cq_first demo_cmd_queue = 5"
    by (simp_all add: cq_window_def)
  show "cq_ok demo_cmd_queue"
    using p(1) by (simp add: demo_cmd_queue_def)
qed

definition demo_pred :: snake_head where
  "demo_pred = snake_step_head demo_libm (snake_head_init demo_point) demo_param cmd_default 60"

text \<open>
  Of the frames a head may be acknowledged for, exactly those from the first of the
  command window to the one after its last are taken: for every other frame, and when the queue
  is empty, the curve, both heads and the queue stay as they are. A frame that is taken removes
  the commands up to it from the queue.
\<close>

lemma ack_outside_window_ignored:
  assumes "cq_ok q"
  shows "if cq_list q \<noteq> [] \<and> (\<exists>j \<le> length (cq_list q). f = cq_first q + of_nat j)
    then \<forall>d' ack' pred' q'. snake_ack_frame L J d ack pred auth param q f rate = Some (d', ack', pred', q') \<longrightarrow>
      length (cq_list q') < length (cq_list q)
    else snake_ack_frame L J d ack pred auth param q f rate = Some (d, ack, pred, q)"
proof -
  have n: "rb_count (cq_rb q) = int (length (cq_list q))" "length (cq_list q) < 32768"
    using cq_count [OF assms] cq_length [OF assms] .
  show ?thesis
  proof (cases "cq_list q \<noteq> [] \<and> (\<exists>j \<le> length (cq_list q). f = cq_first q + of_nat j)")
    case True
    then obtain j where j: "j \<le> length (cq_list q)" "f = cq_first q + of_nat j" "cq_list q \<noteq> []"
      by blast
    have "length (cq_list q') < length (cq_list q)"
      if "snake_ack_frame L J d ack pred auth param q f rate = Some (d', ack', pred', q')" for d' ack' pred' q'
    proof -
      have "cq_list q' = ack_left q j"
        using snake_ack_catch_up [OF assms j(3,1,2), where L = L and J = J and d = d and ack = ack
            and pred = pred and auth = auth and param = param and rate = rate] that
        by (auto simp: Let_def map_option_case split: if_splits option.splits prod.splits)
      then show ?thesis
        using j(3) by (cases "cq_list q") (simp_all add: ack_left_def)
    qed
    with True show ?thesis by simp
  next
    case False
    have "cmd_queue_count q = 0 \<or> u16_lt_wrap f (cmd_queue_frame_begin q) \<or> u16_gt_wrap f (cmd_queue_frame_end q)"
    proof (rule ccontr)
      assume "\<not> ?thesis"
      then have "\<not> u16_lt_wrap f (cq_first q)" "\<not> u16_gt_wrap f (cq_first q + of_nat (length (cq_list q)))"
        "0 < length (cq_list q)"
        using n(1) by (auto simp: cmd_queue_frame_begin_def cmd_queue_frame_end_def cmd_queue_count_def)
      from ack_frame_in_window [OF this n(2)] this(3) False show False
        by auto
    qed
    then have "snake_ack_frame L J d ack pred auth param q f rate = Some (d, ack, pred, q)"
      by (rule snake_ack_rejected)
    with False show ?thesis
      by (simp only: if_False)
  qed
qed

text \<open>
  Claim C5. Removing superfluous segments under the roll back constraint takes away only whole
  segments from the tail end, at most as many as asked for; the curve stays well formed and ends at
  the head, and if the acknowledged position was a point of the curve it still is one, so that a
  roll back to it remains possible. Without the constraint exactly the segments asked for are
  removed.
\<close>

theorem stale_removal_safe:
  assumes "curve_ok d p" "0 \<le> stale" "stale < int (length (snake_trails d))"
  shows "(\<exists>d' m k. snake_remove_stale_segments_with_rollback_constraint d head_ack stale = Some d' \<and>
      curve_ok d' p \<and> int m \<le> stale \<and> snake_trails d' = drop m (snake_trails d) \<and>
      snake_history d' = drop k (snake_history d) \<and>
      (sh_pos head_ack \<in> set (snake_history d) \<longrightarrow> sh_pos head_ack \<in> set (snake_history d'))) \<and>
    (\<exists>d' k. snake_remove_stale_segments d stale = Some d' \<and> curve_ok d' p \<and>
      snake_trails d' = drop (nat stale) (snake_trails d) \<and> snake_history d' = drop k (snake_history d))"
  using remove_stale_rollback_ok [OF assms] remove_stale_ok [OF assms] by blast

theorem stale_removal_safe_witness:
  "(\<exists>d' m k. snake_remove_stale_segments_with_rollback_constraint
        (demo_curve [replicate 5 demo_point, [demo_point]]) (snake_head_init demo_point) 1 = Some d' \<and>
      curve_ok d' demo_point \<and> int m \<le> 1 \<and>
      snake_trails d' = drop m (snake_trails (demo_curve [replicate 5 demo_point, [demo_point]])) \<and>
      snake_history d' = drop k (snake_history (demo_curve [replicate 5 demo_point, [demo_point]])) \<and>
      (sh_pos (snake_head_init demo_point) \<in>
          set (snake_history (demo_curve [replicate 5 demo_point, [demo_point]])) \<longrightarrow>
       sh_pos (snake_head_init demo_point) \<in> set (snake_history d'))) \<and>
    (\<exists>d' k. snake_remove_stale_segments (demo_curve [replicate 5 demo_point, [demo_point]]) 1 = Some d' \<and>
      curve_ok d' demo_point \<and>
      snake_trails d' = drop (nat 1) (snake_trails (demo_curve [replicate 5 demo_point, [demo_point]])) \<and>
      snake_history d' = drop k (snake_history (demo_curve [replicate 5 demo_point, [demo_point]])))"
  using demo_curve_ok [of "[replicate 5 demo_point, [demo_point]]"]
  by (intro stale_removal_safe) simp_all

lemma step_speed_bounds:
  assumes "param_ok param"
  shows "\<bar>uint (step_speed speed param command) - uint speed\<bar> \<le> 8 \<and>
    (cmd_action command \<noteq> word_of_int (cmd_action_val CMD_ACTION_BOOST) \<longrightarrow> uint speed \<le> 51 \<longrightarrow>
      uint (step_speed speed param command) \<le> 51)"
proof -
  have p: "snake_min_speed param = 170" "snake_max_speed param = 341" "snake_boost_speed param = 1024"
    "snake_acceleration param = 8"
    using assms by (simp_all add: param_ok_def)
  define target where "target = (if cmd_action command = word_of_int (cmd_action_val CMD_ACTION_BOOST)
      then 255 else word_of_int (i32 (171 * uint (cmd_speed command)) sdiv 854) :: 8 word)"
  have e: "step_speed speed param command =
      (if uint speed - uint target > 8 then speed - 8 else if uint speed - uint target < - 8 then speed + 8 else target)"
    by (simp add: step_speed_def p target_def Let_def qw_sub_def i32_id)
  have s: "0 \<le> uint speed" "uint speed < 256" "0 \<le> uint target" "uint target < 256"
    using uint_lt2p [of speed] uint_lt2p [of target] by simp_all
  have t: "uint target \<le> 51" if "cmd_action command \<noteq> word_of_int (cmd_action_val CMD_ACTION_BOOST)"
  proof -
    let ?t = "171 * uint (cmd_speed command) div 854"
    have c: "0 \<le> uint (cmd_speed command)" "uint (cmd_speed command) < 256"
      using uint_lt2p [of "cmd_speed command"] by simp_all
    then have "0 \<le> ?t" "?t \<le> 51"
      using zdiv_mono1 [of "171 * uint (cmd_speed command)" 43605 854]
      by (simp_all add: pos_imp_zdiv_nonneg_iff)
    moreover have "i32 (171 * uint (cmd_speed command)) = 171 * uint (cmd_speed command)"
      using c by (intro i32_id) linarith+
    then have "target = word_of_int ?t"
      using that c(1) by (simp add: target_def)
    ultimately show ?thesis
      by (simp add: unsigned_of_int take_bit_eq_mod)
  qed
  have minus: "uint (speed - 8) = uint speed - 8" if "8 \<le> uint speed"
    using that s by (simp add: uint_word_ariths)
  have plus: "uint (speed + 8) = uint speed + 8" if "uint speed < 248"
    using that s by (simp add: uint_word_ariths)
  consider "uint speed - uint target > 8" | "uint speed - uint target < - 8"
    | "\<bar>uint speed - uint target\<bar> \<le> 8"
    by linarith
  then show ?thesis
  proof cases
    case 1
    then have "uint (speed - 8) = uint speed - 8"
      using s(3) by (intro minus) linarith
    with 1 show ?thesis by (simp add: e)
  next
    case 2
    then have "uint (speed + 8) = uint speed + 8"
      using s(4) by (intro plus) linarith
    with 2 t show ?thesis by (auto simp: e)
  next
    case 3
    then show ?thesis
      using t by (auto simp: e)
  qed
qed

lemma step_dist_bound:
  assumes "param_ok param" "\<bar>dir\<bar> \<le> 16384"
  shows "\<bar>step_dist dir speed param\<bar> \<le> 1024"
proof -
  have p: "snake_min_speed param = 170" "snake_boost_speed param = 1024"
    using assms(1) by (simp_all add: param_ok_def)
  let ?d = "854 * uint speed div 255"
  have s: "0 \<le> uint speed" "uint speed < 256"
    using uint_lt2p [of speed] by simp_all
  then have d: "0 \<le> ?d" "?d \<le> 854"
    using zdiv_mono1 [of "854 * uint speed" "854 * 255" 255] by (simp_all add: pos_imp_zdiv_nonneg_iff)
  have e: "step_dist dir speed param = qw_mul dir (?d + 170)"
    using d s by (simp add: step_dist_def p Let_def qw_sub_def qw_add_def qw_rescale_def i32_id)
  have "\<bar>dir * (?d + 170)\<bar> \<le> 16384 * 1024"
    using assms(2) d mult_mono [of "\<bar>dir\<bar>" 16384 "?d + 170" 1024] by (simp add: abs_mult)
  then have "- 16777216 \<le> dir * (?d + 170)" "dir * (?d + 170) \<le> 16777216"
    by linarith+
  then have b: "- 1024 \<le> (dir * (?d + 170) + 8192) div 16384" "(dir * (?d + 170) + 8192) div 16384 \<le> 1024"
    by linarith+
  then have "qw24 ((dir * (?d + 170) + 8192) div 16384)"
    by (simp add: qw24_def)
  with b show ?thesis
    by (simp add: e qw_mul_def qw_sat24_id abs_le_iff)
qed

lemma step_angle_ok:
  assumes "qa_ok angle" "param_ok param"
  shows "qa_ok (step_angle angle param command rate)"
proof -
  have t: "0 \<le> snake_turn_speed param" "snake_turn_speed param \<le> 4352"
    using assms(2) by (auto simp: param_ok_def split: if_splits)
  have target: "qa_ok (i16 (u8_to_qa (cmd_angle command)))"
    using u8_to_qa_ok [of "cmd_angle command"] sx_id [OF _ qa_ok_in_sx] by simp
  have r: "0 \<le> uint rate" "uint rate < 256"
    using uint_lt2p [of rate] by simp_all
  have q: "0 \<le> uint rate * 4096 div 60" "uint rate * 4096 div 60 \<le> 17408"
    using r zdiv_mono1 [of "uint rate * 4096" "255 * 4096" 60] by (simp_all add: pos_imp_zdiv_nonneg_iff)
  then have m: "make_qa2 (uint rate) 60 = uint rate * 4096 div 60"
    using r by (simp add: make_qa2_def i32_id i16_id)
  let ?x = "snake_turn_speed param * make_qa2 (uint rate) 60"
  have "0 \<le> ?x" "?x \<le> 4352 * 17408"
    using t q mult_mono [of "snake_turn_speed param" 4352 "make_qa2 (uint rate) 60" 17408] by (simp_all add: m)
  then have "0 \<le> (?x + 2048) div 4096" "(?x + 2048) div 4096 \<le> 18496"
    by (simp_all add: pos_imp_zdiv_nonneg_iff)
  then have "0 \<le> qa_mul (snake_turn_speed param) (make_qa2 (uint rate) 60)"
    "qa_mul (snake_turn_speed param) (make_qa2 (uint rate) 60) \<le> 18496"
    by (auto simp: qa_mul_def qa_sat16_def i16_id)
  then have "qa_ok (qa_sub angle (qa_mul (snake_turn_speed param) (make_qa2 (uint rate) 60)))"
    unfolding qa_sub_def using assms(1) by (intro qa_wrapvalue_ok) (auto simp: qa_ok_def QA_PI_def)
  moreover have "qa_ok (qa_add angle (snake_turn_speed param))"
    unfolding qa_add_def using assms(1) t by (intro qa_wrapvalue_ok) (auto simp: qa_ok_def QA_PI_def)
  ultimately show ?thesis
    using target by (auto simp: step_angle_def Let_def)
qed

text \<open>
  Claim C31. The head's angle stays within its range, its position moves by at most 1024 units (a
  sixteenth of a world unit) along each axis, its speed changes by at most 8, and without boost a
  speed of at most 51 stays at most 51.
\<close>

theorem head_step_bounded:
  assumes "qa_ok (sh_angle head)" "param_ok param" "libm_ok L" "qwpos24 (sh_pos head)"
  shows "let head' = snake_step_head L head param command rate
    in qa_ok (sh_angle head') \<and>
       \<bar>px (sh_pos head') - px (sh_pos head)\<bar> \<le> 1024 \<and> \<bar>py (sh_pos head') - py (sh_pos head)\<bar> \<le> 1024 \<and>
       \<bar>uint (sh_speed head') - uint (sh_speed head)\<bar> \<le> 8 \<and>
       (cmd_action command \<noteq> word_of_int (cmd_action_val CMD_ACTION_BOOST) \<and> uint (sh_speed head) \<le> 51 \<longrightarrow>
          uint (sh_speed head') \<le> 51)"
proof -
  let ?a = "step_angle (sh_angle head) param command rate" and ?s = "step_speed (sh_speed head) param command"
  have add: "\<bar>qw_add x (step_dist dir ?s param) - x\<bar> \<le> 1024" if "\<bar>dir\<bar> \<le> 16384" "qw24 x" for x dir
    using step_dist_bound [OF assms(2) that(1), of ?s] that(2) by (simp add: qw_add_def qw24_def i32_id abs_le_iff)
  have "\<bar>px (sh_pos (snake_step_head L head param command rate)) - px (sh_pos head)\<bar> \<le> 1024"
    "\<bar>py (sh_pos (snake_step_head L head param command rate)) - py (sh_pos head)\<bar> \<le> 1024"
    using add [OF qa_trig_bounds(1) [OF assms(3)]] add [OF qa_trig_bounds(2) [OF assms(3)]] assms(4)
    by (simp_all add: snake_step_head_def Let_def qwpos24_def)
  moreover have "sh_angle (snake_step_head L head param command rate) = ?a"
    "sh_speed (snake_step_head L head param command rate) = ?s"
    by (simp_all add: snake_step_head_def Let_def)
  ultimately show ?thesis
    using step_angle_ok [OF assms(1,2)] step_speed_bounds [OF assms(2)] by (simp add: Let_def)
qed

theorem head_step_bounded_witness:
  "let head' = snake_step_head demo_libm (snake_head_init demo_point) demo_param cmd_default 60
    in qa_ok (sh_angle head') \<and>
       \<bar>px (sh_pos head') - px (sh_pos (snake_head_init demo_point))\<bar> \<le> 1024 \<and>
       \<bar>py (sh_pos head') - py (sh_pos (snake_head_init demo_point))\<bar> \<le> 1024 \<and>
       \<bar>uint (sh_speed head') - uint (sh_speed (snake_head_init demo_point))\<bar> \<le> 8 \<and>
       (cmd_action cmd_default \<noteq> word_of_int (cmd_action_val CMD_ACTION_BOOST) \<and>
          uint (sh_speed (snake_head_init demo_point)) \<le> 51 \<longrightarrow> uint (sh_speed head') \<le> 51)"
  by (intro head_step_bounded)
     (simp_all add: demo_param_ok demo_libm_ok snake_head_init_def make_qa_def i16_id i32_id qa_ok_def QA_PI_def
        qwpos24_def qw24_def demo_point_def)

text \<open>The server answers with another speed than the client predicted.\<close>

theorem ack_corrects_prediction_witness:
  "let d = demo_curve [[demo_point, sh_pos demo_pred]]; auth = demo_pred\<lparr>sh_speed := 77\<rparr>
    in case snake_ack_frame demo_libm demo_junk d (snake_head_init demo_point) demo_pred auth demo_param demo_cmd_queue 5 60 of
      None \<Rightarrow> \<exists>d'. curve_ok d' (sh_pos auth) \<and> snake_history d' = [demo_point, sh_pos auth] \<and>
        sampling_fails demo_libm demo_junk demo_param d'
    | Some (d', ack', pred', q') \<Rightarrow>
        ack' = auth \<and> cq_list q' = [] \<and> pred' = auth \<and> curve_ok d' (sh_pos auth) \<and>
        auth \<noteq> demo_pred \<and> snake_history d' = [demo_point, sh_pos auth]"
proof -
  let ?d = "demo_curve [[demo_point, sh_pos demo_pred]]" and ?auth = "demo_pred\<lparr>sh_speed := 77\<rparr>"
  have c: "curve_ok ?d (sh_pos demo_pred)" "snake_trails ?d = [[demo_point, sh_pos demo_pred]]"
    using demo_curve_ok [of "[[demo_point, sh_pos demo_pred]]"] by simp_all
  then have h: "snake_history ?d = [demo_point, sh_pos demo_pred]"
    by (simp add: snake_history_def curve_points_def)
  have "\<bar>uint (sh_speed demo_pred)\<bar> \<le> 8"
    using step_speed_bounds [OF demo_param_ok, of 0 cmd_default]
    by (simp add: demo_pred_def snake_step_head_def snake_head_init_def Let_def)
  then have n: "demo_pred \<noteq> ?auth"
    by (auto dest: arg_cong [where f = sh_speed])
  have p: "demo_pred = step_heads demo_libm demo_param 60 (snake_head_init demo_point) (cq_list demo_cmd_queue)"
    by (simp add: demo_pred_def step_heads_def demo_cmd_queue)
  then have s: "step_heads demo_libm demo_param 60 (snake_head_init demo_point) [cmd_default] = demo_pred"
    by (simp add: demo_cmd_queue)
  show ?thesis
    using ack_corrects_prediction [OF demo_cmd_queue(1) _ refl p c(1) _ _ demo_libm_ok(1) demo_param_ok refl,
        where j = 0 and J = demo_junk and auth = ?auth]
      h c(2) s n
    by (auto simp: demo_cmd_queue Let_def step_heads_def split: option.splits)
qed

text \<open>
  Claim C32. The ring of trails has 8 bit indices, so a curve has at most 63 segments, and a curve
  of 63 segments cannot get another one: adding it fails, and the code writes through the null
  pointer. With fewer segments, when the newest one has its five points, is covered by its box and
  ends at the head, the new one is added behind it: a trail of one point, the position of the head,
  a handle and a box there; the other segments and the history stay, and the curve is well formed.
\<close>

theorem sixty_fourth_segment_crashes:
  assumes "curve_ok d (sh_pos head)" "5 \<le> length (last (snake_trails d))"
  shows "length (snake_trails d) \<le> 63 \<and>
    (case snake_add_new_segment J d head of
      None \<Rightarrow> length (snake_trails d) = 63
    | Some d' \<Rightarrow> length (snake_trails d) < 63 \<and> snake_trails d' = snake_trails d @ [[sh_pos head]] \<and>
        snake_handle_pos d' = snake_handle_pos d @ [sh_pos head] \<and>
        snake_boxes d' = snake_boxes d @ [point_box (sh_pos head)] \<and>
        snake_history d' = snake_history d \<and> curve_ok d' (sh_pos head))"
proof -
  have o: "curve_open d" "curve_ends d (sh_pos head)" "covers (last (snake_trails d)) (last (snake_boxes d))"
    using assms(1) by (simp_all add: curve_ok_def)
  consider "length (snake_trails d) = 63" | "length (snake_trails d) < 63"
    using trails_bound [OF o(1)] by fastforce
  then show ?thesis
  proof cases
    case 1
    then show ?thesis
      using add_segment_full [OF o(1)] by simp
  next
    case 2
    have r: "curve_rep d (snake_trails d) (snake_handle_pos d) (snake_boxes d)"
      "length (snake_handle_pos d) = Suc (length (snake_trails d))" "length (snake_boxes d) = length (snake_trails d)"
      using o(1) by (simp_all add: curve_open_def curve_shape_def)
    obtain d' where a: "snake_add_new_segment J d head = Some d'" "curve_open d'" "curve_ends d' (sh_pos head)"
      "snake_trails d' = snake_trails d @ [[sh_pos head]]" "snake_history d' = snake_history d" "sd_aabb d' = sd_aabb d"
      "covers (last (snake_trails d')) (last (snake_boxes d'))"
      using add_segment_open [OF o(1) 2 o(2,3) assms(2)] by blast
    have rep: "curve_rep d' (snake_trails d @ [[sh_pos head]]) (snake_handle_pos d @ [sh_pos head])
        (snake_boxes d @ [point_box (sh_pos head)])"
      using add_segment_rep [OF r(1) 2, of J head] 2 r(2,3) a(1) by auto
    have "sh_pos head \<in> set (last (snake_trails d))" "last (snake_trails d) \<in> set (snake_trails d)"
      using o(1,2) assms(2) last_in_set [of "last (snake_trails d)"]
      by (auto simp: curve_ends_def curve_open_def curve_shape_def)
    then have "covers [sh_pos head] (sd_aabb d)"
      using assms(1) by (auto simp: curve_ok_def covers_def)
    then have "curve_ok d' (sh_pos head)"
      using a assms(1) by (auto simp: curve_ok_def)
    then show ?thesis
      using 2 a curve_rep_lists [OF rep] by simp
  qed
qed

text \<open>A curve of 63 segments, which crashes, and one of 62.\<close>

definition demo_long_curve :: "nat \<Rightarrow> snake_data" where
  "demo_long_curve n = demo_curve (replicate n (replicate 5 demo_point))"

lemma demo_long_curve:
  assumes "0 < n" "n \<le> 63"
  shows "curve_ok (demo_long_curve n) (sh_pos (snake_head_init demo_point))"
    "snake_trails (demo_long_curve n) = replicate n (replicate 5 demo_point)"
proof -
  have "successively (\<lambda>s t. last s = hd t) (replicate n (replicate 5 demo_point))"
  proof (induction n)
    case (Suc n)
    then show ?case
      by (cases n) (simp_all add: successively_Cons)
  qed simp
  moreover have "\<forall>t \<in> set (butlast (replicate n (replicate 5 demo_point))). 5 \<le> length t"
    by (auto dest!: in_set_butlastD)
  ultimately show "curve_ok (demo_long_curve n) (sh_pos (snake_head_init demo_point))"
      "snake_trails (demo_long_curve n) = replicate n (replicate 5 demo_point)"
    using demo_curve_ok [of "replicate n (replicate 5 demo_point)"] assms
    by (simp_all add: demo_long_curve_def snake_head_init_def)
qed

theorem sixty_fourth_segment_crashes_witness:
  "snake_add_new_segment demo_junk (demo_long_curve 63) (snake_head_init demo_point) = None \<and>
   (\<exists>d'. snake_add_new_segment demo_junk (demo_long_curve 62) (snake_head_init demo_point) = Some d' \<and>
      snake_trails d' = snake_trails (demo_long_curve 62) @ [[demo_point]] \<and> curve_ok d' demo_point)"
proof -
  have c: "curve_ok (demo_long_curve n) (sh_pos (snake_head_init demo_point))"
      "5 \<le> length (last (snake_trails (demo_long_curve n)))" "length (snake_trails (demo_long_curve n)) = n"
    if "n \<in> {62, 63}" for n
    using demo_long_curve [of n] that by auto
  show ?thesis
    using sixty_fourth_segment_crashes [OF c(1,2), of 63 demo_junk] sixty_fourth_segment_crashes [OF c(1,2), of 62 demo_junk]
      c(3) [of 62] c(3) [of 63]
    by (auto simp: snake_head_init_def split: option.splits)
qed

text \<open>
  Claim C30. Sampling a curve at equal distances returns for every curve, also a degenerate one,
  although its loop has no bound of its own: each round either moves on along the segment or adds
  at least a 128th of a world unit to the distance that was covered. The number of segments it
  reports as not needed leaves at least the one at the tail end.
\<close>

theorem sampling_terminates:
  assumes "libm_sqrt_ok L" "param_ok param"
  shows "\<exists>r. bezier_calc_equidistant_points L u pts handles spacing (snake_length param) = Some r \<and>
    (\<forall>i pts'. r = Some (i, pts') \<longrightarrow> 0 \<le> i \<and> (i = 0 \<or> i < rb_count handles - 1))"
  using bezier_sampling_returns [OF assms(1)] param_ok_length [OF assms(2)] by simp

theorem sampling_terminates_witness:
  "\<exists>r. bezier_calc_equidistant_points demo_libm (j_point demo_junk) None (sd_handles (demo_curve [[demo_point]])) 0
      (snake_length demo_param) = Some r \<and>
    (\<forall>i pts'. r = Some (i, pts') \<longrightarrow>
      0 \<le> i \<and> (i = 0 \<or> i < rb_count (sd_handles (demo_curve [[demo_point]])) - 1))"
  by (rule sampling_terminates [OF demo_libm_ok(1) demo_param_ok])

text \<open>
  The bounding box computed for a segment of a curve contains both of its end points,
  for any angles and lengths of the handles, in spite of the wrap-around and rounding of the
  fixed-point coefficients.
\<close>

lemma segment_box_contains_ends:
  assumes "qwpos24 (bh_pos head)" "qwpos24 (bh_pos tail)"
  shows "qwaabb_test_qwpos (bezier_calc_aabb L head tail) (bh_pos head) \<and>
    qwaabb_test_qwpos (bezier_calc_aabb L head tail) (bh_pos tail)"
  by (rule bezier_calc_aabb_ends [OF assms])

text \<open>
  Parameters start in range and every update keeps them there, whatever was eaten: the
  turn speed stays between its limits, the speeds are the base speeds, and the length stays below
  what the sampling of the curve can handle. But growth is not monotone: the product that gives
  the length is computed in 32 bits, so a snake that has eaten \<open>2 ^ 18\<close> has length zero.
\<close>

lemma params_stay_in_range:
  assumes "param_ok p"
  shows "param_ok (snake_param_init p') \<and> param_ok (snake_param_update p up food) \<and>
    sp_food_eaten (snake_param_update p up food) = food \<and>
    0 \<le> snake_length (snake_param_update p up food) \<and> snake_length (snake_param_update p up food) < 33554432 \<and>
    snake_length (snake_param_update p up 262144) = 0 \<and> 0 < snake_length (snake_param_update p up 262143)"
proof -
  note u = snake_param_update_ok [OF assms, of up]
  have "snake_length (snake_param_update p up f) = uint (f * 16384) div 128" for f
    using u [of f] by (simp add: param_ok_def)
  then show ?thesis
    using u param_ok_length [of "snake_param_update p up food"] snake_param_init_ok by simp
qed

end
