(* ===== verification/World.thy ===== *)
theory World
  imports Bmap Snake
begin

text \<open>
  The world (src/world.c): its snakes, in the ordered map that include/clither/snake_bmap.h
  instantiates for 16 bit ids. A pointer to a snake is its id, and \<open>None\<close> is a crash.
\<close>

record world =
  wd_snakes :: "(16 word, snake) bmap option"
  wd_inner_radius :: qw
  wd_ring_start :: qw
  wd_ring_end :: qw

type_synonym snake_bmap_env = "(16 word, snake) bmap_env"

definition world_init :: world where
  "world_init = \<lparr>wd_snakes = bm_init, wd_inner_radius = make_qw 20, wd_ring_start = make_qw 40,
     wd_ring_end = make_qw 64\<rparr>"

text \<open>Looking up a snake, and writing through the pointer that the lookup returned.\<close>

definition world_find :: "world \<Rightarrow> 16 word \<Rightarrow> snake option" where
  "world_find w snake_id = bm_find (wd_snakes w) snake_id"

definition world_store :: "16 word \<Rightarrow> snake \<Rightarrow> world \<Rightarrow> world" where
  "world_store snake_id s w =
     w\<lparr>wd_snakes := map_option (\<lambda>m. bm_kvs_set_value m (bm_lower_bound (Some m) snake_id) s) (wd_snakes w)\<rparr>"

text \<open>Whether a snake was created, and the world.\<close>

definition world_create_snake ::
  "snake_bmap_env \<Rightarrow> junk \<Rightarrow> world \<Rightarrow> 16 word \<Rightarrow> qwpos \<Rightarrow> 8 word list \<Rightarrow> (bool \<times> world) option" where
  "world_create_snake E J w snake_id spawn_pos username =
     (case bm_emplace_new E (wd_snakes w) snake_id of
        None \<Rightarrow> None
      | Some (New, Some i, Some m) \<Rightarrow>
          (case snake_init J spawn_pos username of None \<Rightarrow> None
           | Some s \<Rightarrow> Some (True, w\<lparr>wd_snakes := Some (bm_kvs_set_value m i s)\<rparr>))
      | Some (_, _, p) \<Rightarrow> Some (False, w\<lparr>wd_snakes := p\<rparr>))"

text \<open>The loop that looks for an id: \<open>n\<close> rounds are left, and the counter is compared as an int.\<close>

fun spawn_id_loop :: "nat \<Rightarrow> 16 word \<Rightarrow> 16 word \<Rightarrow> 16 word" where
  "spawn_id_loop 0 i snake_id = snake_id"
| "spawn_id_loop (Suc n) i snake_id =
     (if uint i + 1 \<noteq> uint snake_id then snake_id else spawn_id_loop n (i + 1) (snake_id + 1))"

definition world_spawn_snake ::
  "snake_bmap_env \<Rightarrow> junk \<Rightarrow> world \<Rightarrow> 8 word list \<Rightarrow> (16 word \<times> world) option" where
  "world_spawn_snake E J w username =
     (let snake_id = spawn_id_loop (nat (bm_count (wd_snakes w))) 0 1
      in case world_create_snake E J w snake_id (make_qwposi 0 0) username of
           None \<Rightarrow> None
         | Some (_, w) \<Rightarrow> Some (snake_id, w))"

definition world_remove_snake :: "world \<Rightarrow> 16 word \<Rightarrow> world" where
  "world_remove_snake w snake_id =
     (case world_find w snake_id of
        None \<Rightarrow> w
      | Some s \<Rightarrow> w\<lparr>wd_snakes := snd (bm_erase (wd_snakes w) snake_id)\<rparr>)"

definition world_step :: "world \<Rightarrow> 16 word \<Rightarrow> 8 word \<Rightarrow> world" where
  "world_step w frame_number sim_tick_rate = w"

section \<open>Representation\<close>

definition world_ok :: "snake_bmap_env \<Rightarrow> world \<Rightarrow> bool" where
  "world_ok E w \<longleftrightarrow> bmp_ok E (wd_snakes w) \<and> be_ok_inst E \<and> be_bits E = 16"

lemma world_init_ok: "be_ok_inst E \<Longrightarrow> be_bits E = 16 \<Longrightarrow> world_ok E world_init"
  by (simp add: world_ok_def world_init_def bm_init_def)

lemma bm_emplace_new_shape:
  "bm_emplace_new E p k = Some (New, i, q) \<Longrightarrow> \<exists>j m. i = Some j \<and> q = Some m"
  by (auto simp: bm_emplace_new_def bm_kvs_emplace_def Let_def split: option.splits if_splits prod.splits)

lemma world_create_insert:
  assumes "snake_init J pos name = Some s"
  shows "world_create_snake E J w snake_id pos name =
    map_option (\<lambda>(status, p). (status = New, w\<lparr>wd_snakes := p\<rparr>)) (bm_insert_new E (wd_snakes w) snake_id s)"
proof (cases "bm_emplace_new E (wd_snakes w) snake_id")
  case None
  then show ?thesis by (simp add: world_create_snake_def bm_insert_new_def)
next
  case (Some r)
  obtain st i q where r: "r = (st, i, q)" by (cases r)
  show ?thesis
  proof (cases st)
    case New
    then obtain j m where "i = Some j" "q = Some m"
      using bm_emplace_new_shape Some r by blast
    then show ?thesis
      using Some r New assms by (simp add: world_create_snake_def bm_insert_new_def)
  qed (use Some r in \<open>simp_all add: world_create_snake_def bm_insert_new_def\<close>)
qed

lemma world_create_spec:
  assumes "world_ok E w" "snake_init J pos name = Some s"
  shows "if world_find w snake_id \<noteq> None \<or> \<not> bm_can_grow E (wd_snakes w)
    then world_create_snake E J w snake_id pos name = Some (False, w)
    else \<exists>w'. world_create_snake E J w snake_id pos name = Some (True, w') \<and> world_ok E w' \<and>
      world_find w' = (world_find w)(snake_id \<mapsto> s)"
proof -
  have ok: "bmp_ok E (wd_snakes w)" "be_ok_inst E" "be_bits E = 16"
    using assms(1) by (simp_all add: world_ok_def)
  show ?thesis
  proof (cases "bm_find (wd_snakes w) snake_id")
    case None
    show ?thesis
      using bm_insert_new_spec [OF ok(1,2) None, of s] None ok
      by (auto simp: world_create_insert [OF assms(2)] world_find_def fun_eq_iff world_ok_def split: if_splits)
  next
    case (Some x)
    then show ?thesis
      using bm_insert_new_exists [OF ok(1), of snake_id s]
      by (simp add: world_create_insert [OF assms(2)] world_find_def)
  qed
qed

text \<open>The counter and the id stay one apart, so the search never ends early.\<close>

lemma spawn_id_loop_count:
  "k + n < 65535 \<Longrightarrow> spawn_id_loop n (of_nat k) (of_nat (Suc k)) = of_nat (Suc (k + n))"
proof (induction n arbitrary: k)
  case (Suc n)
  have u: "uint (of_nat k :: 16 word) + 1 = uint (of_nat (Suc k) :: 16 word)"
    using Suc.prems by (simp add: unsigned_of_nat take_bit_eq_mod uint_word_ariths)
  have "spawn_id_loop (Suc n) (of_nat k) (of_nat (Suc k)) =
      spawn_id_loop n (of_nat (Suc k)) (of_nat (Suc (Suc k)))"
    using u by (simp add: algebra_simps)
  also have "\<dots> = of_nat (Suc (Suc k + n))"
    using Suc.prems by (intro Suc.IH) simp
  finally show ?case by simp
qed simp

lemma bm_count_bound:
  assumes "bmp_ok E p" "be_ok_inst E" "be_bits E = 16"
  shows "0 \<le> bm_count p" "bm_count p < 32768"
proof -
  have "0 \<le> bm_count p \<and> bm_count p < 32768"
  proof (cases p)
    case (Some m)
    have v: "1 \<le> be_vsz E" and c: "be_vsz E * bm_cap m < 32768" "bm_cnt m \<le> bm_cap m" "0 \<le> bm_cnt m"
      using assms Some by (simp_all add: bm_ok_def be_ok_inst_def be_sizes_ok_def)
    have "bm_cap m \<le> be_vsz E * bm_cap m"
      using mult_right_mono [OF v, of "bm_cap m"] c by simp
    with c show ?thesis using Some by (simp add: bm_count_def)
  qed (simp add: bm_count_def)
  then show "0 \<le> bm_count p" "bm_count p < 32768" by simp_all
qed

lemma world_remove_spec:
  assumes "world_ok E w"
  shows "world_ok E (world_remove_snake w snake_id)"
    and "world_find (world_remove_snake w snake_id) = (world_find w)(snake_id := None)"
proof -
  have ok: "bmp_ok E (wd_snakes w)" "be_ok_inst E" "be_bits E = 16"
    using assms by (simp_all add: world_ok_def)
  obtain q where q: "bm_erase (wd_snakes w) snake_id = (bm_find (wd_snakes w) snake_id \<noteq> None, q)"
    "bmp_ok E q" "bm_find q = (bm_find (wd_snakes w))(snake_id := None)"
    using bm_erase_spec [OF ok(1)] by blast
  show "world_ok E (world_remove_snake w snake_id)"
    using q ok by (simp add: world_remove_snake_def world_find_def world_ok_def split: option.split)
  show "world_find (world_remove_snake w snake_id) = (world_find w)(snake_id := None)"
    using q ok by (auto simp: world_remove_snake_def world_find_def fun_eq_iff split: option.split)
qed

text \<open>The id that spawning picks.\<close>

lemma spawn_id:
  assumes "world_ok E w"
  shows "spawn_id_loop (nat (bm_count (wd_snakes w))) 0 1 = word_of_int (bm_count (wd_snakes w) + 1)"
proof -
  have b: "0 \<le> bm_count (wd_snakes w)" "bm_count (wd_snakes w) < 32768"
    using assms bm_count_bound by (auto simp: world_ok_def)
  then obtain n where n: "bm_count (wd_snakes w) = int n" "n < 32768"
    by (metis nonneg_int_cases of_nat_less_iff of_nat_numeral)
  show ?thesis
    using spawn_id_loop_count [of 0 n] n by simp
qed

text \<open>What spawning does: the id after the number of snakes, if it is free.\<close>

abbreviation next_id :: "world \<Rightarrow> 16 word" where
  "next_id w \<equiv> word_of_int (bm_count (wd_snakes w) + 1)"

lemma world_spawn_spec:
  assumes "world_ok E w" "snake_init J (make_qwposi 0 0) name = Some s"
  shows "if world_find w (next_id w) \<noteq> None \<or> \<not> bm_can_grow E (wd_snakes w)
    then world_spawn_snake E J w name = Some (next_id w, w)
    else \<exists>w'. world_spawn_snake E J w name = Some (next_id w, w') \<and> world_ok E w' \<and>
      world_find w' = (world_find w)(next_id w \<mapsto> s)"
  using world_create_spec [OF assms, of "next_id w"] spawn_id [OF assms(1)]
  by (auto simp: world_spawn_snake_def Let_def split: if_splits)

lemma world_store_spec:
  assumes "world_ok E w" "world_find w k \<noteq> None"
  shows "world_ok E (world_store k s w)" and "world_find (world_store k s w) = (world_find w)(k \<mapsto> s)"
proof -
  obtain m where m: "wd_snakes w = Some m" "bm_ok E m"
    using assms by (cases "wd_snakes w") (auto simp: world_ok_def world_find_def bm_find_def)
  have f: "bm_find (Some m) k \<noteq> None"
    using assms(2) m(1) by (simp add: world_find_def)
  note pr = bm_present [OF m(2) f]
  note sv = bm_set_value_alist [OF m(2) pr(2), of s]
  show "world_ok E (world_store k s w)"
    using assms(1) sv(1) m pr(1) by (simp add: world_ok_def world_store_def)
  have "bm_find (Some (bm_kvs_set_value m (int (bm_lb k m)) s)) = (bm_find (Some m))(k \<mapsto> s)"
    using map_of_update_at [OF bm_distinct [OF m(2)], of "bm_lb k m" s] pr(2,3) sv m(2)
    by (simp add: bm_find_map_of [of E "Some _"] length_bm_alist)
  then show "world_find (world_store k s w) = (world_find w)(k \<mapsto> s)"
    using m(1) pr(1) by (simp add: world_find_def world_store_def fun_eq_iff)
qed

end
