(* ===== verification/Packet.thy ===== *)
theory Packet
  imports Msg "HOL-Library.Multiset" "HOL-Library.Sublist"
begin

text \<open>
  Packing the pending messages of a connection into one datagram (the callbacks
  \<open>append_unreliable_msgs_to_buf\<close> and \<open>append_reliable_msgs_to_buf\<close> of src/server.c and
  src/client.c). A message is framed as its type, the length of its payload and the payload.
\<close>

definition NET_MAX_UDP_PACKET_SIZE :: int where
  "NET_MAX_UDP_PACKET_SIZE = 576 - 60 - 8"

record pack_ctx =
  pc_len :: int
  pc_buf :: "8 word list"

definition pack_start :: "(nat \<Rightarrow> 8 word) \<Rightarrow> pack_ctx" where
  "pack_start u = \<lparr>pc_len = 0, pc_buf = map u [0..<nat NET_MAX_UDP_PACKET_SIZE]\<rparr>"

definition msg_frame :: "msg \<Rightarrow> 8 word list" where
  "msg_frame m = [msg_code (m_type m), m_payload_len m] @ take (unat (m_payload_len m)) (m_payload m)"

definition pack_msg :: "msg \<Rightarrow> pack_ctx \<Rightarrow> pack_ctx" where
  "pack_msg m ctx = \<lparr>pc_len = pc_len ctx + (uint (m_payload_len m) + 2),
     pc_buf = write_bytes (nat (pc_len ctx)) (msg_frame m) (pc_buf ctx)\<rparr>"

definition pack_full :: "msg \<Rightarrow> pack_ctx \<Rightarrow> bool" where
  "pack_full m ctx \<longleftrightarrow> pc_len ctx + uint (m_payload_len m) + 2 > NET_MAX_UDP_PACKET_SIZE"

section \<open>The callbacks\<close>

definition VEC_RETAIN :: int where
  "VEC_RETAIN = 0"

definition VEC_ERASE :: int where
  "VEC_ERASE = 1"

definition append_unreliable_msgs_to_buf :: "msg \<Rightarrow> pack_ctx \<Rightarrow> int \<times> msg \<times> pack_ctx" where
  "append_unreliable_msgs_to_buf m ctx =
     (if pack_full m ctx then (VEC_RETAIN, m, ctx)
      else if msg_is_reliable m then (VEC_RETAIN, m, ctx)
      else (VEC_ERASE, m, pack_msg m ctx))"

text \<open>The counters are bytes, and a decrement wraps.\<close>

definition append_reliable_msgs_to_buf :: "msg \<Rightarrow> pack_ctx \<Rightarrow> int \<times> msg \<times> pack_ctx" where
  "append_reliable_msgs_to_buf m ctx =
     (if pack_full m ctx then (VEC_RETAIN, m, ctx)
      else if msg_is_unreliable m then (VEC_RETAIN, m, ctx)
      else
        let m = m\<lparr>m_period_counter := m_period_counter m - 1\<rparr>
        in if m_period_counter m > 0 then (VEC_RETAIN, m, ctx)
           else
             let m = m\<lparr>m_period_counter := m_resend_period m\<rparr>;
                 m = m\<lparr>m_retry_counter := m_retry_counter m - 1\<rparr>
             in if m_retry_counter m = 0 then (-1, m, ctx)
                else (VEC_RETAIN, m, pack_msg m ctx))"

text \<open>
  The client's callbacks are the same, except that a message which is sent again gets the
  current frame number.
\<close>

definition client_append_unreliable_msgs_to_buf :: "msg \<Rightarrow> pack_ctx \<Rightarrow> int \<times> msg \<times> pack_ctx" where
  "client_append_unreliable_msgs_to_buf m ctx =
     (if pack_full m ctx then (VEC_RETAIN, m, ctx)
      else if msg_is_reliable m then (VEC_RETAIN, m, ctx)
      else (VEC_ERASE, m, pack_msg m ctx))"

definition client_append_reliable_msgs_to_buf ::
  "16 word \<Rightarrow> msg \<Rightarrow> pack_ctx \<Rightarrow> int \<times> msg \<times> pack_ctx" where
  "client_append_reliable_msgs_to_buf frame_number m ctx =
     (if pack_full m ctx then (VEC_RETAIN, m, ctx)
      else if msg_is_unreliable m then (VEC_RETAIN, m, ctx)
      else
        let m = m\<lparr>m_period_counter := m_period_counter m - 1\<rparr>
        in if m_period_counter m > 0 then (VEC_RETAIN, m, ctx)
           else
             let m = m\<lparr>m_period_counter := m_resend_period m\<rparr>;
                 m = m\<lparr>m_retry_counter := m_retry_counter m - 1\<rparr>
             in if m_retry_counter m = 0 then (-1, m, ctx)
                else
                  let m = msg_update_frame_number m frame_number
                  in (VEC_RETAIN, m, pack_msg m ctx))"

section \<open>What a buffer holds\<close>

definition msg_wf :: "msg \<Rightarrow> bool" where
  "msg_wf m \<longleftrightarrow> length (m_payload m) = MSG_BUFFER"

definition packed :: "pack_ctx \<Rightarrow> msg list \<Rightarrow> bool" where
  "packed ctx fs \<longleftrightarrow> pc_len ctx = int (length (concat (map msg_frame fs))) \<and>
     take (nat (pc_len ctx)) (pc_buf ctx) = concat (map msg_frame fs) \<and>
     length (pc_buf ctx) = nat NET_MAX_UDP_PACKET_SIZE \<and> pc_len ctx \<le> NET_MAX_UDP_PACKET_SIZE"

lemma byte_less: "unat (b :: 8 word) < 256"
  using unsigned_less [of b] by simp

lemma length_msg_frame: "msg_wf m \<Longrightarrow> length (msg_frame m) = unat (m_payload_len m) + 2"
  using byte_less [of "m_payload_len m"] by (simp add: msg_frame_def msg_wf_def MSG_BUFFER_def)

lemma pack_start_packed [simp]: "packed (pack_start u) []"
  by (simp add: packed_def pack_start_def NET_MAX_UDP_PACKET_SIZE_def)

lemma pack_msg_packed:
  assumes "packed ctx fs" "\<not> pack_full m ctx" "msg_wf m"
  shows "packed (pack_msg m ctx) (fs @ [m])"
proof -
  obtain n where n: "pc_len ctx = int n" "n = length (concat (map msg_frame fs))"
    using assms(1) by (simp add: packed_def)
  let ?k = "unat (m_payload_len m)"
  have k: "uint (m_payload_len m) = int ?k"
    by simp
  have fit: "n + ?k + 2 \<le> 508"
    using assms(2) n unfolding pack_full_def k NET_MAX_UDP_PACKET_SIZE_def by linarith
  have l: "length (msg_frame m) = ?k + 2"
    by (rule length_msg_frame [OF assms(3)])
  have nn: "nat (int n + (int ?k + 2)) = n + (?k + 2)"
    by linarith
  have "take (n + (?k + 2)) (write_bytes n (msg_frame m) (pc_buf ctx)) =
      take n (pc_buf ctx) @ msg_frame m"
    using assms(1) n fit l by (simp add: write_bytes_def packed_def NET_MAX_UDP_PACKET_SIZE_def)
  moreover have "take n (pc_buf ctx) = concat (map msg_frame fs)"
    using assms(1) n by (simp add: packed_def)
  moreover have "length (write_bytes n (msg_frame m) (pc_buf ctx)) = nat NET_MAX_UDP_PACKET_SIZE"
    using assms(1) fit l by (simp add: packed_def NET_MAX_UDP_PACKET_SIZE_def)
  moreover have "pc_len (pack_msg m ctx) = int (n + (?k + 2))"
    "pc_buf (pack_msg m ctx) = write_bytes n (msg_frame m) (pc_buf ctx)"
    using n by (simp_all add: pack_msg_def)
  moreover have "length (concat (map msg_frame (fs @ [m]))) = n + (?k + 2)"
    "concat (map msg_frame (fs @ [m])) = concat (map msg_frame fs) @ msg_frame m"
    using n(2) l by simp_all
  moreover have "int (n + (?k + 2)) \<le> NET_MAX_UDP_PACKET_SIZE"
    unfolding NET_MAX_UDP_PACKET_SIZE_def using fit by linarith
  ultimately show ?thesis
    unfolding packed_def by (simp only: nat_int simp_thms)
qed

section \<open>Filling a buffer\<close>

lemma msg_wf_simps [simp]:
  "msg_wf (m\<lparr>m_period_counter := a\<rparr>) = msg_wf m" "msg_wf (m\<lparr>m_retry_counter := b\<rparr>) = msg_wf m"
  "msg_frame (m\<lparr>m_period_counter := a\<rparr>) = msg_frame m" "msg_frame (m\<lparr>m_retry_counter := b\<rparr>) = msg_frame m"
  by (simp_all add: msg_wf_def msg_frame_def)

lemma msg_update_wf [simp]: "msg_wf m \<Longrightarrow> msg_wf (msg_update_frame_number m f)"
  by (cases "m_type m") (simp_all add: msg_update_frame_number_def msg_wf_def MSG_BUFFER_def)

lemma client_append_unreliable_same:
  "client_append_unreliable_msgs_to_buf = append_unreliable_msgs_to_buf"
  by (simp add: fun_eq_iff client_append_unreliable_msgs_to_buf_def append_unreliable_msgs_to_buf_def)

text \<open>The unreliable messages that fit leave the queue, and nothing else does.\<close>

lemma append_unreliable_list:
  assumes "retain_list append_unreliable_msgs_to_buf ms ctx = (r, ms', ctx')" "packed ctx fs"
    "list_all msg_wf ms"
  shows "r = 0 \<and> list_all msg_wf ms' \<and>
    (\<exists>gs. packed ctx' (fs @ gs) \<and> subseq gs (filter msg_is_unreliable ms) \<and> mset ms = mset ms' + mset gs)"
  using assms
proof (induction ms arbitrary: ctx fs r ms' ctx')
  case Nil
  then show ?case by (auto intro: exI [of _ "[]"])
next
  case (Cons m ms)
  have keep: ?case if k: "append_unreliable_msgs_to_buf m ctx = (0, m, ctx)"
  proof -
    obtain ms1 where ms1: "retain_list append_unreliable_msgs_to_buf ms ctx = (r, ms1, ctx')" "ms' = m # ms1"
      using Cons.prems(1) by (cases "retain_list append_unreliable_msgs_to_buf ms ctx") (auto simp: k)
    from Cons.IH [OF ms1(1) Cons.prems(2)] Cons.prems(3) ms1(2) show ?thesis
      by (auto intro: list_emb_Cons subseq_order.trans)
  qed
  show ?case
  proof (cases "pack_full m ctx \<or> msg_is_reliable m")
    case True
    then show ?thesis
      by (intro keep) (auto simp: append_unreliable_msgs_to_buf_def VEC_RETAIN_def)
  next
    case False
    then have "msg_is_unreliable m"
      by (auto simp: msg_is_reliable_def msg_is_unreliable_def word_gt_0)
    moreover have "retain_list append_unreliable_msgs_to_buf ms (pack_msg m ctx) = (r, ms', ctx')"
      using Cons.prems(1) False by (simp add: append_unreliable_msgs_to_buf_def [of m ctx] VEC_ERASE_def)
    moreover have "packed (pack_msg m ctx) (fs @ [m])"
      using pack_msg_packed [OF Cons.prems(2)] False Cons.prems(3) by simp
    ultimately show ?thesis
      using Cons.IH [of "pack_msg m ctx" r ms' ctx' "fs @ [m]"] Cons.prems(3)
      by (auto intro: exI [of _ "m # gs" for gs])
  qed
qed

text \<open>
  The reliable ones stay. Only the counters change, and for the client the frame number in
  the payload.
\<close>

definition msg_resent :: "msg \<Rightarrow> msg \<Rightarrow> bool" where
  "msg_resent m m' \<longleftrightarrow> m_type m' = m_type m \<and> m_payload_len m' = m_payload_len m \<and>
     m_resend_period m' = m_resend_period m"

lemma msg_resent_simps [simp]:
  "msg_resent m m"
  "msg_resent m (k\<lparr>m_period_counter := a\<rparr>) = msg_resent m k"
  "msg_resent m (k\<lparr>m_retry_counter := b\<rparr>) = msg_resent m k"
  "msg_resent m (msg_update_frame_number k n) = msg_resent m k"
  by (simp_all add: msg_update_frame_number_def msg_resent_def split: msg_type.split)

lemma msg_resent_props:
  "msg_resent m m' \<Longrightarrow> pack_full m' ctx = pack_full m ctx"
  "msg_resent m m' \<Longrightarrow> msg_is_reliable m' = msg_is_reliable m"
  by (simp_all add: msg_resent_def pack_full_def msg_is_reliable_def)

lemma append_reliable_one:
  assumes "f = append_reliable_msgs_to_buf \<or> f = client_append_reliable_msgs_to_buf n"
    and "f m ctx = (q, m1, ctx1)" "msg_wf m"
  shows "(q = 0 \<or> q = -1) \<and> msg_wf m1 \<and> msg_resent m m1 \<and>
      (ctx1 = ctx \<or> (q = 0 \<and> ctx1 = pack_msg m1 ctx \<and> \<not> pack_full m ctx \<and> msg_is_reliable m))"
  using assms
  by (auto simp: append_reliable_msgs_to_buf_def client_append_reliable_msgs_to_buf_def Let_def
      VEC_RETAIN_def msg_is_reliable_def msg_is_unreliable_def word_gt_0 split: if_splits)

lemma append_reliable_list:
  assumes "f = append_reliable_msgs_to_buf \<or> f = client_append_reliable_msgs_to_buf n"
    and "retain_list f ms ctx = (r, ms', ctx')" "packed ctx fs" "list_all msg_wf ms"
  shows "(r = 0 \<or> r = -1) \<and> list_all msg_wf ms' \<and> list_all2 msg_resent ms ms' \<and>
    (\<exists>gs. packed ctx' (fs @ gs) \<and> subseq gs (filter msg_is_reliable ms'))"
  using assms(2-4)
proof (induction ms arbitrary: ctx fs r ms' ctx')
  case Nil
  then show ?case by (auto intro: exI [of _ "[]"])
next
  case (Cons m ms)
  obtain q m1 ctx1 where f: "f m ctx = (q, m1, ctx1)"
    by (metis surj_pair)
  have wf: "msg_wf m" "list_all msg_wf ms"
    using Cons.prems(3) by simp_all
  note one = append_reliable_one [OF assms(1) f wf(1)]
  obtain hs where hs: "packed ctx1 (fs @ hs)" "hs = [] \<or> hs = [m1] \<and> msg_is_reliable m1"
    using one pack_msg_packed [OF Cons.prems(2), of m1] Cons.prems(2) msg_resent_props [of m m1]
    by (metis append.right_neutral)
  show ?case
  proof (cases "q = 0")
    case False
    then have "r = -1" "ms' = m1 # ms" "ctx' = ctx1"
      using Cons.prems(1) f one by auto
    moreover have "list_all2 msg_resent ms ms"
      by (simp add: list.rel_refl)
    moreover have "subseq hs (filter msg_is_reliable (m1 # ms))"
      using hs(2) by auto
    ultimately show ?thesis
      using one wf hs(1) by auto
  next
    case True
    obtain ms1 where ms1: "retain_list f ms ctx1 = (r, ms1, ctx')" "ms' = m1 # ms1"
      using Cons.prems(1) f True by (cases "retain_list f ms ctx1") auto
    obtain gs where gs: "packed ctx' ((fs @ hs) @ gs)" "subseq gs (filter msg_is_reliable ms1)"
      "r = 0 \<or> r = -1" "list_all msg_wf ms1" "list_all2 msg_resent ms ms1"
      using Cons.IH [OF ms1(1) hs(1) wf(2)] by blast
    have "subseq (hs @ gs) (filter msg_is_reliable ms')"
      using hs(2) gs(2) ms1(2) by auto
    then show ?thesis
      using gs one ms1(2) by auto
  qed
qed

text \<open>The whole of a connection's sending step, on the queue as a list.\<close>

lemma pack_queue:
  assumes "f = append_reliable_msgs_to_buf \<or> f = client_append_reliable_msgs_to_buf n"
    and "vecp_ok 16 p" "list_all msg_wf (vecp_list p)"
    and "vec_retain append_unreliable_msgs_to_buf p (pack_start u) = (r, p1, ctx1)"
    and "vec_retain f p1 ctx1 = (r2, p2, ctx2)"
  obtains gs hs where "packed ctx2 (gs @ hs)" "subseq gs (filter msg_is_unreliable (vecp_list p))"
    "subseq hs (filter msg_is_reliable (vecp_list p2))" "vecp_ok 16 p2" "list_all msg_wf (vecp_list p2)"
    "r2 = 0 \<or> r2 = -1" "mset (vecp_list p) = mset (vecp_list p1) + mset gs"
    "list_all2 msg_resent (vecp_list p1) (vecp_list p2)"
proof -
  note l1 = vec_retain_list [OF assms(2,4)]
  obtain gs where gs: "packed ctx1 gs" "subseq gs (filter msg_is_unreliable (vecp_list p))"
    "mset (vecp_list p) = mset (vecp_list p1) + mset gs" "list_all msg_wf (vecp_list p1)"
    using append_unreliable_list [OF conjunct2 [OF l1] pack_start_packed assms(3)] by auto
  note l2 = vec_retain_list [OF conjunct1 [OF l1] assms(5)]
  show thesis
    using append_reliable_list [OF assms(1) conjunct2 [OF l2] gs(1,4)] gs l2 that by blast
qed

section \<open>How often a reliable message is sent\<close>

text \<open>The number of times that \<open>n\<close> packets with room carry the message; \<open>None\<close> when it is given up.\<close>

fun resends :: "(nat \<Rightarrow> 8 word) \<Rightarrow> nat \<Rightarrow> msg \<Rightarrow> nat option" where
  "resends u 0 m = Some 0"
| "resends u (Suc n) m =
     (case append_reliable_msgs_to_buf m (pack_start u) of (r, m, ctx) \<Rightarrow>
        if r < 0 then None
        else map_option (\<lambda>k. k + (if pc_len ctx > 0 then 1 else 0)) (resends u n m))"

lemma pack_start_room: "\<not> pack_full m (pack_start u)"
proof -
  have "uint (m_payload_len m) < 256"
    using uint_bounded [of "m_payload_len m"] by simp
  then show ?thesis
    unfolding pack_full_def pack_start_def NET_MAX_UDP_PACKET_SIZE_def by simp
qed

lemma pack_start_len [simp]: "pc_len (pack_start u) = 0"
  by (simp add: pack_start_def)

lemma pack_msg_nonempty: "0 < pc_len (pack_msg m (pack_start u))"
  by (simp add: pack_msg_def pack_start_def add_nonneg_pos)

lemma byte_pred: "b \<noteq> 0 \<Longrightarrow> unat (b - 1) = unat b - 1" for b :: "8 word"
  by (simp add: unat_minus_one)

text \<open>Waiting for the counter, and the call on which it runs out.\<close>

lemma resends_wait:
  assumes "m_resend_period m \<noteq> 0" "n < unat (m_period_counter m)"
  shows "resends u n m = Some 0"
  using assms
proof (induction n arbitrary: m)
  case (Suc n)
  have c: "m_period_counter m \<noteq> 0" "m_period_counter m - 1 \<noteq> 0"
    using Suc.prems(2) byte_pred [of "m_period_counter m"] by auto
  have "n < unat (m_period_counter m - 1)"
    using Suc.prems(2) byte_pred [OF c(1)] by simp
  then show ?case
    using Suc.IH [of "m\<lparr>m_period_counter := m_period_counter m - 1\<rparr>"] Suc.prems(1) c
    by (simp add: append_reliable_msgs_to_buf_def pack_start_room msg_is_unreliable_def Let_def
        VEC_RETAIN_def word_gt_0)
qed simp

lemma resends_due:
  assumes "m_resend_period m \<noteq> 0" "unat (m_period_counter m) = Suc c"
  shows "resends u (Suc c + n) m =
    (if m_retry_counter m = 1 then None
     else map_option Suc (resends u n (m\<lparr>m_period_counter := m_resend_period m,
            m_retry_counter := m_retry_counter m - 1\<rparr>)))"
  using assms
proof (induction c arbitrary: m)
  case 0
  then have "m_period_counter m = 1"
    by (metis One_nat_def unat_1 unat_eq_nat_uint word_unat_eq_iff)
  then show ?case
    using 0 pack_msg_nonempty
    by (auto simp: append_reliable_msgs_to_buf_def pack_start_room msg_is_unreliable_def Let_def
        VEC_RETAIN_def)
next
  case (Suc c)
  have z: "m_period_counter m \<noteq> 0"
    using Suc.prems(2) by auto
  then have n: "unat (m_period_counter m - 1) = Suc c"
    using Suc.prems(2) byte_pred [OF z] by simp
  then have nz: "m_period_counter m \<noteq> 0" "unat (m_period_counter m - 1) = Suc c" "m_period_counter m - 1 \<noteq> 0"
    using z by auto
  have "resends u (Suc (Suc c + n)) m =
      resends u (Suc c + n) (m\<lparr>m_period_counter := m_period_counter m - 1\<rparr>)"
    using Suc.prems(1) nz
    by (simp add: append_reliable_msgs_to_buf_def pack_start_room msg_is_unreliable_def Let_def
        VEC_RETAIN_def word_gt_0 option.map_ident)
  then show ?case
    using Suc.IH [of "m\<lparr>m_period_counter := m_period_counter m - 1\<rparr>"] Suc.prems(1) nz by simp
qed

lemma resends_count:
  assumes "unat (m_resend_period m) = p" "0 < p" "unat (m_period_counter m) = Suc c" "Suc c \<le> p"
    and "unat (m_retry_counter m) = Suc r"
  shows "resends u n m =
    (if n < Suc c + r * p then Some (if n < Suc c then 0 else Suc ((n - Suc c) div p)) else None)"
  using assms
proof (induction r arbitrary: m n c)
  case 0
  have "m_retry_counter m = 1"
    using 0 by (metis One_nat_def unat_1 unat_eq_nat_uint word_unat_eq_iff)
  moreover have "m_resend_period m \<noteq> 0"
    using 0 by auto
  ultimately show ?case
    using resends_wait [of m n u] resends_due [of m c u "n - Suc c"] 0
    by (cases "n < Suc c") (simp_all del: resends.simps)
next
  case (Suc r)
  have rp: "m_resend_period m \<noteq> 0" "m_retry_counter m \<noteq> 0" "m_retry_counter m \<noteq> 1"
    using Suc.prems by auto
  show ?case
  proof (cases "n < Suc c")
    case True
    then show ?thesis
      using resends_wait [of m n u] rp Suc.prems by auto
  next
    case False
    obtain q where q: "p = Suc q"
      using Suc.prems(2) by (cases p) auto
    let ?m = "m\<lparr>m_period_counter := m_resend_period m, m_retry_counter := m_retry_counter m - 1\<rparr>"
    have "resends u n m = map_option Suc (resends u (n - Suc c) ?m)"
      using resends_due [of m c u "n - Suc c"] False rp Suc.prems by simp
    also have "resends u (n - Suc c) ?m =
        (if n - Suc c < Suc q + r * p
         then Some (if n - Suc c < Suc q then 0 else Suc ((n - Suc c - Suc q) div p)) else None)"
      using Suc.prems q byte_pred [OF rp(2)] by (intro Suc.IH) simp_all
    also have "map_option Suc \<dots> =
        (if n < Suc c + Suc r * p then Some (Suc ((n - Suc c) div p)) else None)"
      using False q le_div_geq [of p "n - Suc c"] by auto
    finally show ?thesis
      using False by simp
  qed
qed

end
