(* ===== verification/Server.thy ===== *)
theory Server
  imports World Packet MsgCommands Hash Bset
begin

text \<open>
  The server (src/server.c, src/proximity_state.c): its clients, what it sends them and what
  it does with the datagrams it receives.

  A pointer to a client is the slot of its value in the table \<open>server_client_hm\<close>. Erasing a
  client leaves the value where it is, with the pointers in it dangling; \<open>sc_freed\<close> says so.
  \<open>None\<close> is a crash: a null pointer or memory that was given back is used, or a search does
  not return.
\<close>

record proximity_state =
  ps_acks :: "int bset option"

record server_client =
  sc_pending :: "msg vec option"
  sc_prox :: "(16 word, proximity_state) bmap option"
  sc_timeout :: int
  sc_cbf :: "int list"
  sc_snake_id :: "16 word"
  sc_last_frame :: "16 word"
  sc_freed :: bool

record server_settings =
  ss_max_players :: "16 word"
  ss_client_timeout :: "16 word"
  ss_malicious_timeout :: "16 word"
  ss_max_username_len :: "8 word"
  ss_sim_tick_rate :: "8 word"
  ss_net_tick_rate :: "8 word"
  ss_port :: "8 word list"

text \<open>\<open>sv_sent\<close> are the datagrams handed to \<open>net_sendto\<close>, the last first.\<close>

record 'a server =
  sv_clients :: "('a, server_client) hm option"
  sv_malicious :: "('a, int) hm option"
  sv_banned :: "('a, int) hm option"
  sv_sent :: "('a \<times> 8 word list) list"

text \<open>The allocator for each of the containers, and what fresh memory holds.\<close>

record 'a server_env =
  ve_clients :: "('a, server_client) hm_env"
  ve_addrs :: "('a, int) hm_env"
  ve_snakes :: snake_bmap_env
  ve_prox :: "(16 word, proximity_state) bmap_env"
  ve_junk :: junk
  ve_byte :: "nat \<Rightarrow> 8 word"
  ve_msg :: "nat \<Rightarrow> msg"

definition CBF_WINDOW_SIZE :: nat where
  "CBF_WINDOW_SIZE = 20"

definition proximity_state_init :: proximity_state where
  "proximity_state_init = \<lparr>ps_acks = bs_init\<rparr>"

definition server_init :: "'a server" where
  "server_init = \<lparr>sv_clients = hm_init, sv_malicious = hm_init, sv_banned = hm_init, sv_sent = []\<rparr>"

section \<open>Clients through their slot\<close>

definition client_at :: "'a server \<Rightarrow> int option \<Rightarrow> server_client option" where
  "client_at sv client =
     (case (client, sv_clients sv) of (Some slot, Some m) \<Rightarrow> Some (hm_kvs_get_value m slot) | _ \<Rightarrow> None)"

definition client_set :: "int \<Rightarrow> server_client \<Rightarrow> 'a server \<Rightarrow> 'a server" where
  "client_set slot c sv = sv\<lparr>sv_clients := map_option (hm_kvs_set_value slot c) (sv_clients sv)\<rparr>"

text \<open>Reading the vector or the map of a client that is gone is a use of freed memory.\<close>

definition client_dangling :: "server_client \<Rightarrow> bool" where
  "client_dangling c \<longleftrightarrow> sc_freed c \<and> (sc_pending c \<noteq> None \<or> sc_prox c \<noteq> None)"

text \<open>
  The loops over a table ask at every slot whether it is in use now, so a client that the
  body removes is not visited.
\<close>

fun hm_each :: "('s \<Rightarrow> ('k, 'v) hm option) \<Rightarrow> (int \<Rightarrow> 's \<Rightarrow> 's option) \<Rightarrow> nat list \<Rightarrow> 's \<Rightarrow> 's option" where
  "hm_each get body [] s = Some s"
| "hm_each get body (i # is) s =
     (case get s of None \<Rightarrow> Some s
      | Some m \<Rightarrow>
          if hm_hashes m ! i = HM_SLOT_UNUSED \<or> hm_hashes m ! i = HM_SLOT_RIP
          then hm_each get body is s
          else (case body (int i) s of None \<Rightarrow> None | Some s \<Rightarrow> hm_each get body is s))"

definition hm_for_each :: "('s \<Rightarrow> ('k, 'v) hm option) \<Rightarrow> (int \<Rightarrow> 's \<Rightarrow> 's option) \<Rightarrow> 's \<Rightarrow> 's option" where
  "hm_for_each get body s = hm_each get body [0..<nat (hm_capacity (get s))] s"

section \<open>Removing clients\<close>

definition client_remove ::
  "'a server_env \<Rightarrow> 'a \<Rightarrow> int option \<Rightarrow> 'a server \<times> world \<Rightarrow> ('a server \<times> world) option" where
  "client_remove E addr client st =
     (case st of (sv, w) \<Rightarrow>
        case (client, client_at sv client) of
          (Some slot, Some c) \<Rightarrow>
            if client_dangling c then None
            else
              let w = world_remove_snake w (sc_snake_id c);
                  sv = client_set slot (c\<lparr>sc_freed := True\<rparr>) sv
              in (case sv_clients sv of None \<Rightarrow> None
                  | Some m \<Rightarrow>
                      (case hm_erase (ve_clients E) m addr of None \<Rightarrow> None
                       | Some (_, m) \<Rightarrow> Some (sv\<lparr>sv_clients := Some m\<rparr>, w)))
        | _ \<Rightarrow> None)"

definition mark_client_as_malicious_and_drop ::
  "'a server_env \<Rightarrow> 'a \<Rightarrow> int option \<Rightarrow> int \<Rightarrow> 'a server \<times> world \<Rightarrow> ('a server \<times> world) option" where
  "mark_client_as_malicious_and_drop E addr client timeout st =
     (case st of (sv, w) \<Rightarrow>
        case hm_insert_update (ve_addrs E) (sv_malicious sv) addr timeout of
          None \<Rightarrow> None
        | Some (_, p) \<Rightarrow> client_remove E addr client (sv\<lparr>sv_malicious := p\<rparr>, w))"

section \<open>The fullness of the command buffer\<close>

definition cbf_add :: "server_client \<Rightarrow> int \<Rightarrow> server_client" where
  "cbf_add client v = client\<lparr>sc_cbf := v # take (CBF_WINDOW_SIZE - 1) (sc_cbf client)\<rparr>"

definition INT32_MAX :: int where
  "INT32_MAX = 2147483647"

definition cbf_lower_bound :: "server_client \<Rightarrow> int" where
  "cbf_lower_bound client =
     foldl (\<lambda>lower i. if lower > sc_cbf client ! i then sc_cbf client ! i else lower) INT32_MAX
       [0..<CBF_WINDOW_SIZE]"

text \<open>The feedback that is sent for the number of commands queued, with its 8 bit difference.\<close>

definition cbf_feedback :: "int \<Rightarrow> int \<Rightarrow> int \<Rightarrow> int option" where
  "cbf_feedback queued lower granularity =
     (if queued < 0 then Some (i8 (if queued < -10 then -10 else queued))
      else if lower - granularity * 2 > 0 then
        (let diff = i8 (lower - granularity * 2) in Some (if diff > 10 then 10 else diff))
      else None)"

section \<open>Sending\<close>

definition server_queue :: "'a server_env \<Rightarrow> msg \<Rightarrow> server_client \<Rightarrow> server_client" where
  "server_queue E m c = c\<lparr>sc_pending := snd (vec_push 16 True (ve_msg E) (sc_pending c) m)\<rparr>"

definition net_sendto :: "8 word list \<Rightarrow> 'a \<Rightarrow> 'a server \<Rightarrow> 'a server" where
  "net_sendto buf addr sv = sv\<lparr>sv_sent := (addr, buf) # sv_sent sv\<rparr>"

text \<open>What is sent to one client: the result of packing, the queue after it and the buffer.\<close>

definition pack_pending ::
  "(nat \<Rightarrow> 8 word) \<Rightarrow> msg vec option \<Rightarrow> int \<times> msg vec option \<times> pack_ctx" where
  "pack_pending u p =
     (case vec_retain append_unreliable_msgs_to_buf p (pack_start u) of (_, p, ctx) \<Rightarrow>
        vec_retain append_reliable_msgs_to_buf p ctx)"

definition send_to_client :: "'a server_env \<Rightarrow> int \<Rightarrow> 'a server \<times> world \<Rightarrow> ('a server \<times> world) option" where
  "send_to_client E slot st =
     (case st of (sv, w) \<Rightarrow>
        case sv_clients sv of None \<Rightarrow> None
        | Some m \<Rightarrow>
            let addr = hm_kvs_get_key m slot;
                c = hm_kvs_get_value m slot
            in if client_dangling c then None
               else (case pack_pending (ve_byte E) (sc_pending c) of (r, p, ctx) \<Rightarrow>
                 let sv = client_set slot (c\<lparr>sc_pending := p\<rparr>) sv
                 in if r = -1 then client_remove E addr (Some slot) (sv, w)
                    else if pc_len ctx = 0 then Some (sv, w)
                    else
                      Some (client_set slot (c\<lparr>sc_pending := p, sc_timeout := i32 (sc_timeout c + 1)\<rparr>)
                              (net_sendto (take (nat (pc_len ctx)) (pc_buf ctx)) addr sv), w)))"

definition server_send_pending_data :: "'a server_env \<Rightarrow> 'a server \<times> world \<Rightarrow> ('a server \<times> world) option" where
  "server_send_pending_data E st = hm_for_each (\<lambda>(sv, w). sv_clients sv) (send_to_client E) st"

section \<open>Snakes in range\<close>

definition server_queue_all :: "'a server_env \<Rightarrow> msg list \<Rightarrow> server_client \<Rightarrow> server_client" where
  "server_queue_all E ms c = foldl (\<lambda>c m. server_queue E m c) c ms"

text \<open>The id of a handle is the cell of the ring buffer that it is in.\<close>

definition handle_msgs :: "'a server_env \<Rightarrow> 16 word \<Rightarrow> bezier_handle rb option \<Rightarrow> msg list" where
  "handle_msgs E snake_id p =
     (case p of None \<Rightarrow> []
      | Some rb \<Rightarrow>
          map (\<lambda>i. msg_snake_bezier (ve_byte E) snake_id (word_of_int i) (rb_data rb ! nat i))
            (rb_for_each_indices p))"

definition widen_aabb :: "qwaabb \<Rightarrow> qw \<Rightarrow> qwaabb" where
  "widen_aabb bb r = bb\<lparr>bx1 := qw_sub (bx1 bb) r, by1 := qw_sub (by1 bb) r,
     bx2 := qw_add (bx2 bb) r, by2 := qw_add (by2 bb) r\<rparr>"

text \<open>
  One pair of clients: whether memory ran out, and the client.
\<close>

definition update_pair ::
  "'a server_env \<Rightarrow> world \<Rightarrow> qw \<Rightarrow> server_client \<Rightarrow> server_client \<Rightarrow> (bool \<times> server_client) option" where
  "update_pair E w proximity_range client other =
     (case (world_find w (sc_snake_id client), world_find w (sc_snake_id other)) of
        (Some snake, Some other_snake) \<Rightarrow>
          if client_dangling client then None
          else if qwaabb_test_qwpos (widen_aabb (sd_aabb (sn_data other_snake)) proximity_range)
               (sh_pos (sn_head snake))
          then (case bm_emplace_or_get (ve_prox E) (sc_prox client) (sc_snake_id other) of
              None \<Rightarrow> None
            | Some (Oom, _, p) \<Rightarrow> Some (True, client\<lparr>sc_prox := p\<rparr>)
            | Some (Exists, _, p) \<Rightarrow> Some (False, client\<lparr>sc_prox := p\<rparr>)
            | Some (New, i, p) \<Rightarrow>
                (case (i, p) of
                   (Some i, Some m) \<Rightarrow>
                     Some (False, server_queue_all E (handle_msgs E (sc_snake_id other) (sd_handles (sn_data other_snake)))
                       (client\<lparr>sc_prox := Some (bm_kvs_set_value m i proximity_state_init)\<rparr>))
                 | _ \<Rightarrow> None))
          else (case bm_find (sc_prox client) (sc_snake_id other) of
              None \<Rightarrow> Some (False, client)
            | Some _ \<Rightarrow>
                let c = server_queue E (msg_snake_destroy (ve_byte E) (sc_snake_id other)) client
                in Some (False, c\<lparr>sc_prox := snd (bm_erase (sc_prox c) (sc_snake_id other))\<rparr>))
      | _ \<Rightarrow> None)"

text \<open>
  The state of the double loop is whether it was left, and the server. No client comes or
  goes in it, so the slots are those of the table at the start.
\<close>

definition update_slots ::
  "'a server_env \<Rightarrow> world \<Rightarrow> qw \<Rightarrow> int \<Rightarrow> int \<Rightarrow> bool \<times> 'a server \<Rightarrow> (bool \<times> 'a server) option" where
  "update_slots E w proximity_range slot other_slot st =
     (case st of (left, sv) \<Rightarrow>
        if left \<or> slot = other_slot then Some st
        else case (client_at sv (Some slot), client_at sv (Some other_slot)) of
            (Some client, Some other) \<Rightarrow>
              (case update_pair E w proximity_range client other of None \<Rightarrow> None
               | Some (oom, c) \<Rightarrow> Some (oom, client_set slot c sv))
          | _ \<Rightarrow> None)"

definition server_update_snakes_in_range ::
  "'a server_env \<Rightarrow> world \<Rightarrow> qw \<Rightarrow> 'a server \<Rightarrow> (int \<times> 'a server) option" where
  "server_update_snakes_in_range E w proximity_range sv =
     map_option (\<lambda>(left, sv). (if left then -1 else 0, sv))
       (hm_for_each (\<lambda>(left, sv). sv_clients sv)
          (\<lambda>slot. hm_for_each (\<lambda>(left, sv). sv_clients sv) (update_slots E w proximity_range slot))
          (False, sv))"

section \<open>Data of the snakes\<close>

definition queue_head :: "'a server_env \<Rightarrow> world \<Rightarrow> 16 word \<Rightarrow> int \<Rightarrow> 'a server \<Rightarrow> 'a server option" where
  "queue_head E w frame_number slot sv =
     (case client_at sv (Some slot) of None \<Rightarrow> None
      | Some c \<Rightarrow>
          (case world_find w (sc_snake_id c) of None \<Rightarrow> None
           | Some snake \<Rightarrow>
               if snake_is_held snake then Some sv
               else if client_dangling c then None
               else Some (client_set slot (server_queue E (msg_snake_head (ve_byte E) (sn_head snake) frame_number) c) sv)))"

text \<open>Handles are sent again while the client has not acknowledged them.\<close>

fun queue_handles :: "'a server_env \<Rightarrow> world \<Rightarrow> (16 word \<times> proximity_state) list \<Rightarrow> server_client \<Rightarrow> server_client option" where
  "queue_handles E w [] c = Some c"
| "queue_handles E w ((snake_id, prox) # ps) c =
     (case world_find w snake_id of None \<Rightarrow> None
      | Some snake \<Rightarrow>
          let p = sd_handles (sn_data snake);
              ms = (case p of None \<Rightarrow> []
                | Some rb \<Rightarrow> map (\<lambda>i. msg_snake_bezier (ve_byte E) snake_id (word_of_int i) (rb_data rb ! nat i))
                    (filter (\<lambda>i. bs_find (ps_acks prox) i) (rb_for_each_indices p)))
          in queue_handles E w ps (server_queue_all E ms c))"

definition queue_proximity :: "'a server_env \<Rightarrow> world \<Rightarrow> int \<Rightarrow> 'a server \<Rightarrow> 'a server option" where
  "queue_proximity E w slot sv =
     (case client_at sv (Some slot) of None \<Rightarrow> None
      | Some c \<Rightarrow>
          if client_dangling c then None
          else map_option (\<lambda>c. client_set slot c sv) (queue_handles E w (bm_entries (sc_prox c)) c))"

definition server_queue_snake_data :: "'a server_env \<Rightarrow> world \<Rightarrow> 16 word \<Rightarrow> 'a server \<Rightarrow> 'a server option" where
  "server_queue_snake_data E w frame_number sv =
     (case hm_for_each sv_clients (queue_head E w frame_number) sv of None \<Rightarrow> None
      | Some sv \<Rightarrow> hm_for_each sv_clients (queue_proximity E w) sv)"

section \<open>Joining\<close>

definition server_full_text :: "8 word list" where
  "server_full_text = map of_char ''Server full''"

definition username_text :: "8 word list" where
  "username_text = map of_char ''Username too long''"

definition send_deny :: "msg option \<Rightarrow> 'a \<Rightarrow> 'a server \<Rightarrow> 'a server option" where
  "send_deny m addr sv = map_option (\<lambda>m. net_sendto (msg_frame m) addr sv) m"

text \<open>The quotient of the tick rates; a rate of 0 is a division by zero.\<close>

definition granularity :: "server_settings \<Rightarrow> int option" where
  "granularity S =
     (if ss_net_tick_rate S = 0 then None
      else Some (uint (ss_sim_tick_rate S) div uint (ss_net_tick_rate S)))"

text \<open>A new client and its snake, which is held until its first command arrives.\<close>

definition create_client ::
  "'a server_env \<Rightarrow> server_settings \<Rightarrow> 'a \<Rightarrow> 8 word list \<Rightarrow> 16 word \<Rightarrow> 'a server \<times> world \<Rightarrow>
   (int \<times> 'a server \<times> world) option" where
  "create_client E S addr username frame_number st =
     (case st of (sv, w) \<Rightarrow>
        case hm_emplace_new (ve_clients E) (sv_clients sv) addr of
          Some (Some slot, p) \<Rightarrow>
            (case world_spawn_snake (ve_snakes E) (ve_junk E) w username of None \<Rightarrow> None
             | Some (snake_id, w) \<Rightarrow>
                 (case (world_find w snake_id, granularity S) of
                    (Some snake, Some g) \<Rightarrow>
                      Some (slot,
                        client_set slot \<lparr>sc_pending = vec_init, sc_prox = bm_init, sc_timeout = 0,
                            sc_cbf = replicate CBF_WINDOW_SIZE g, sc_snake_id = snake_id,
                            sc_last_frame = frame_number, sc_freed = False\<rparr>
                          (sv\<lparr>sv_clients := p\<rparr>),
                        world_store snake_id (snake_set_hold snake) w)
                  | _ \<Rightarrow> None))
        | _ \<Rightarrow> None)"

definition send_accept ::
  "'a server_env \<Rightarrow> server_settings \<Rightarrow> 16 word \<Rightarrow> 16 word \<Rightarrow> int \<Rightarrow> 'a server \<times> world \<Rightarrow> ('a server \<times> world) option" where
  "send_accept E S client_frame frame_number slot st =
     (case st of (sv, w) \<Rightarrow>
        case client_at sv (Some slot) of None \<Rightarrow> None
        | Some c \<Rightarrow>
            (case world_find w (sc_snake_id c) of None \<Rightarrow> None
             | Some snake \<Rightarrow>
                 if client_dangling c then None
                 else
                   let response = msg_join_accept (ve_byte E) (ss_sim_tick_rate S) (ss_net_tick_rate S)
                         client_frame frame_number (sc_snake_id c) (sh_pos (sn_head snake))
                   in Some (client_set slot (server_queue E response c) sv, w)))"

definition process_join ::
  "'a server_env \<Rightarrow> server_settings \<Rightarrow> int option \<Rightarrow> 'a \<Rightarrow> 8 word list \<Rightarrow> 8 word \<Rightarrow> 16 word \<Rightarrow>
   16 word \<Rightarrow> 'a server \<times> world \<Rightarrow> ('a server \<times> world) option" where
  "process_join E S client addr username username_len client_frame frame_number st =
     (case st of (sv, w) \<Rightarrow>
        if hm_count (sv_clients sv) + 1 > uint (ss_max_players S) then
          map_option (\<lambda>sv. (sv, w)) (send_deny (msg_join_deny_server_full (ve_byte E) server_full_text) addr sv)
        else if username_len > ss_max_username_len S then
          map_option (\<lambda>sv. (sv, w)) (send_deny (msg_join_deny_bad_username (ve_byte E) username_text) addr sv)
        else
          (case client of
             Some slot \<Rightarrow> send_accept E S client_frame frame_number slot (sv, w)
           | None \<Rightarrow>
               (case create_client E S addr username frame_number (sv, w) of None \<Rightarrow> None
                | Some (slot, st) \<Rightarrow> send_accept E S client_frame frame_number slot st)))"

section \<open>Commands\<close>

text \<open>
  The first part reads the commands into the queue of the snake, the second keeps the
  statistics. \<open>Inr\<close> is a message that could not be read.
\<close>

definition cbf_update ::
  "'a server_env \<Rightarrow> int \<Rightarrow> int \<Rightarrow> 16 word \<Rightarrow> 16 word \<Rightarrow> server_client \<Rightarrow> server_client" where
  "cbf_update E queued g last_frame frame_number c =
     (if u16_le_wrap last_frame (sc_last_frame c) then c
      else
        let c = cbf_add (c\<lparr>sc_last_frame := last_frame\<rparr>) queued;
            lower = cbf_lower_bound c
        in case cbf_feedback queued lower g of None \<Rightarrow> c
           | Some diff \<Rightarrow> server_queue E (msg_feedback (ve_byte E) diff frame_number) c)"

definition process_commands ::
  "'a server_env \<Rightarrow> server_settings \<Rightarrow> int \<Rightarrow> 'a \<Rightarrow> 8 word list \<Rightarrow> 8 word \<Rightarrow> 16 word \<Rightarrow>
   'a server \<times> world \<Rightarrow> ('a server \<times> world) option" where
  "process_commands E S slot addr msg_data msg_len frame_number st =
     (case st of (sv, w) \<Rightarrow>
        case client_at sv (Some slot) of None \<Rightarrow> None
        | Some c \<Rightarrow>
            (case (world_find w (sc_snake_id c), granularity S) of
               (Some snake, Some g) \<Rightarrow>
                 let queued = u16_sub_wrap (cmd_queue_frame_end (sn_cmdq snake)) frame_number
                 in (case msg_commands_unpack_into True (j_cmd (ve_junk E)) (sn_cmdq snake) msg_data msg_len
                            frame_number of
                      (r, q, first_frame, last_frame) \<Rightarrow>
                        let w = world_store (sc_snake_id c) (snake\<lparr>sn_cmdq := q\<rparr>) w
                        in if r \<noteq> 0
                           then mark_client_as_malicious_and_drop E addr (Some slot)
                                  (uint (ss_malicious_timeout S)) (sv, w)
                           else if client_dangling c then None
                           else Some (client_set slot (cbf_update E queued g last_frame frame_number c) sv, w))
             | _ \<Rightarrow> None))"

section \<open>Receiving\<close>

definition process_message ::
  "'a server_env \<Rightarrow> server_settings \<Rightarrow> int option \<Rightarrow> 'a \<Rightarrow> 8 word \<Rightarrow> 8 word list \<Rightarrow> 8 word \<Rightarrow>
   16 word \<Rightarrow> 'a server \<times> world \<Rightarrow> ('a server \<times> world) option" where
  "process_message E S client addr type msg_data msg_len frame_number st =
     (case (msg_parse_payload type msg_data msg_len, msg_type_of type) of
        (Inr (P_join_request username protocol client_frame username_len), Some MSG_JOIN_REQUEST) \<Rightarrow>
          process_join E S client addr username username_len client_frame frame_number st
      | (Inr _, Some MSG_LEAVE) \<Rightarrow> client_remove E addr client st
      | (Inr _, Some MSG_COMMANDS) \<Rightarrow>
          (case client of None \<Rightarrow> None
           | Some slot \<Rightarrow> process_commands E S slot addr msg_data msg_len frame_number st)
      | _ \<Rightarrow> mark_client_as_malicious_and_drop E addr client (uint (ss_malicious_timeout S)) st)"

function unpack_packet ::
  "'a server_env \<Rightarrow> server_settings \<Rightarrow> int option \<Rightarrow> 'a \<Rightarrow> 8 word list \<Rightarrow> 16 word \<Rightarrow> nat \<Rightarrow>
   'a server \<times> world \<Rightarrow> ('a server \<times> world) option" where
  "unpack_packet E S client addr udp_buf frame_number i st =
     (if int i < int (length udp_buf) - 1 then
        let type = udp_buf ! i;
            msg_len = udp_buf ! (i + 1)
        in if i + 2 + unat msg_len > length udp_buf
           then mark_client_as_malicious_and_drop E addr client (uint (ss_malicious_timeout S)) st
           else if client = None \<and> msg_type_of type \<noteq> Some MSG_JOIN_REQUEST then Some st
           else (case process_message E S client addr type (drop (i + 2) udp_buf) msg_len frame_number st of
               None \<Rightarrow> None
             | Some st \<Rightarrow> unpack_packet E S client addr udp_buf frame_number (i + unat msg_len + 2) st)
      else Some st)"
  by pat_completeness auto
termination
  by (relation "measure (\<lambda>(E, S, c, a, buf, f, i, st). length buf - i)") auto

declare unpack_packet.simps [simp del]

text \<open>Counting up the clients' timeouts and down those of the malicious addresses.\<close>

definition timeout_client :: "'a server_env \<Rightarrow> server_settings \<Rightarrow> int \<Rightarrow> 'a server \<times> world \<Rightarrow> ('a server \<times> world) option" where
  "timeout_client E S slot st =
     (case st of (sv, w) \<Rightarrow>
        case sv_clients sv of None \<Rightarrow> None
        | Some m \<Rightarrow>
            let addr = hm_kvs_get_key m slot;
                c = hm_kvs_get_value m slot;
                c = c\<lparr>sc_timeout := i32 (sc_timeout c + 1)\<rparr>;
                sv = client_set slot c sv
            in if sc_timeout c > uint (ss_client_timeout S) * uint (ss_net_tick_rate S)
               then client_remove E addr (Some slot) (sv, w)
               else Some (sv, w))"

definition timeout_malicious :: "'a server_env \<Rightarrow> int \<Rightarrow> 'a server \<Rightarrow> 'a server option" where
  "timeout_malicious E slot sv =
     (case sv_malicious sv of None \<Rightarrow> None
      | Some m \<Rightarrow>
          let timeout = i32 (hm_kvs_get_value m slot - 1);
              m = hm_kvs_set_value slot timeout m
          in if timeout > 0 then Some (sv\<lparr>sv_malicious := Some m\<rparr>)
             else (case hm_erase (ve_addrs E) m (hm_kvs_get_key m slot) of None \<Rightarrow> None
                   | Some (_, m) \<Rightarrow> Some (sv\<lparr>sv_malicious := Some m\<rparr>)))"

text \<open>The slot that a lookup finds, where the code returns a pointer.\<close>

definition hm_find_pointer :: "('k, 'v) hm_env \<Rightarrow> ('k, 'v) hm option \<Rightarrow> 'k \<Rightarrow> int option option" where
  "hm_find_pointer E p key =
     (case p of None \<Rightarrow> Some None
      | Some m \<Rightarrow>
          (case hm_find_slot E m key (hm_hash E key) of None \<Rightarrow> None
           | Some slot \<Rightarrow> Some (if slot \<ge> 0 then None else Some (-1 - slot))))"

text \<open>
  One datagram: whether it is from a banned or a malicious address, which only prolongs
  the punishment, and otherwise what is in it.
\<close>

definition server_recv_packet ::
  "'a server_env \<Rightarrow> server_settings \<Rightarrow> 16 word \<Rightarrow> 'a \<Rightarrow> 8 word list \<Rightarrow> 'a server \<times> world \<Rightarrow>
   ('a server \<times> world) option" where
  "server_recv_packet E S frame_number addr udp_buf st =
     (case st of (sv, w) \<Rightarrow>
        case hm_find_pointer (ve_addrs E) (sv_banned sv) addr of
          None \<Rightarrow> None
        | Some (Some _) \<Rightarrow> Some st
        | Some None \<Rightarrow>
            (case hm_find_pointer (ve_addrs E) (sv_malicious sv) addr of
               None \<Rightarrow> None
             | Some (Some slot) \<Rightarrow>
                 Some (sv\<lparr>sv_malicious := map_option (\<lambda>m. hm_kvs_set_value slot
                         (i32 (hm_kvs_get_value m slot +
                            uint (ss_malicious_timeout S) * uint (ss_net_tick_rate S))) m) (sv_malicious sv)\<rparr>, w)
             | Some None \<Rightarrow>
                 (case hm_find_pointer (ve_clients E) (sv_clients sv) addr of
                    None \<Rightarrow> None
                  | Some client \<Rightarrow>
                      let sv = (case (client, client_at sv client) of
                            (Some slot, Some c) \<Rightarrow> client_set slot (c\<lparr>sc_timeout := 0\<rparr>) sv
                          | _ \<Rightarrow> sv)
                      in unpack_packet E S client addr udp_buf frame_number 0 (sv, w))))"

text \<open>
  The datagrams that wait in the socket, and the code that \<open>net_recvfrom\<close> returns after
  them. An empty one ends the loop as well. The result is what the function returns and the
  datagrams that are left.
\<close>

fun server_recv_loop ::
  "'a server_env \<Rightarrow> server_settings \<Rightarrow> 16 word \<Rightarrow> int \<Rightarrow> ('a \<times> 8 word list) list \<Rightarrow>
   'a server \<times> world \<Rightarrow> (int \<times> ('a \<times> 8 word list) list \<times> 'a server \<times> world) option" where
  "server_recv_loop E S frame_number code [] st = Some (code, [], st)"
| "server_recv_loop E S frame_number code ((addr, udp_buf) # inbox) st =
     (if length udp_buf = 0 then Some (0, inbox, st)
      else case server_recv_packet E S frame_number addr udp_buf st of
          None \<Rightarrow> None
        | Some st \<Rightarrow> server_recv_loop E S frame_number code inbox st)"

definition server_recv ::
  "'a server_env \<Rightarrow> server_settings \<Rightarrow> 16 word \<Rightarrow> int \<Rightarrow> ('a \<times> 8 word list) list \<Rightarrow>
   'a server \<times> world \<Rightarrow> (int \<times> ('a \<times> 8 word list) list \<times> 'a server \<times> world) option" where
  "server_recv E S frame_number code inbox st =
     (case hm_for_each (\<lambda>(sv, w). sv_clients sv) (timeout_client E S) st of None \<Rightarrow> None
      | Some (sv, w) \<Rightarrow>
          (case hm_for_each sv_malicious (timeout_malicious E) sv of None \<Rightarrow> None
           | Some sv \<Rightarrow> server_recv_loop E S frame_number code inbox (sv, w)))"

end
