(* ===== verification/ServerInstance.thy ===== *)
theory ServerInstance
  imports Server
begin

text \<open>
  The main loop of a server instance (src/server_instance.c): receiving, simulating every
  snake by one frame, and sending. A round is a function of the state, of whether the network
  clock has ticked and of what has arrived.
\<close>

record 'a instance_state =
  is_server :: "'a server"
  is_world :: world
  is_frame :: "16 word"

text \<open>One snake of the world in one frame; a snake that is held stays where it is.\<close>

definition sim_snake :: "libm \<Rightarrow> junk \<Rightarrow> 8 word \<Rightarrow> 16 word \<Rightarrow> snake \<Rightarrow> snake option" where
  "sim_snake L J sim_tick_rate frame_number s =
     (case snake_try_reset_hold s frame_number of (go, s) \<Rightarrow>
        if \<not> go then Some s
        else
          (case cmd_queue_take_or_predict (sn_cmdq s) frame_number of (command, q) \<Rightarrow>
             case snake_step L J (sn_data s) (sn_head s) (sn_param s) command sim_tick_rate of
               None \<Rightarrow> None
             | Some (stale, data, head) \<Rightarrow>
                 (case snake_remove_stale_segments data stale of None \<Rightarrow> None
                  | Some data \<Rightarrow> Some (s\<lparr>sn_cmdq := q, sn_data := data, sn_head := head\<rparr>))))"

fun sim_snakes :: "(snake \<Rightarrow> snake option) \<Rightarrow> int list \<Rightarrow> (16 word, snake) bmap \<Rightarrow> (16 word, snake) bmap option" where
  "sim_snakes f [] m = Some m"
| "sim_snakes f (i # is) m =
     (case f (bm_kvs_get_value m i) of None \<Rightarrow> None
      | Some s \<Rightarrow> sim_snakes f is (bm_kvs_set_value m i s))"

definition sim_world :: "libm \<Rightarrow> junk \<Rightarrow> 8 word \<Rightarrow> 16 word \<Rightarrow> world \<Rightarrow> world option" where
  "sim_world L J sim_tick_rate frame_number w =
     (case wd_snakes w of
        None \<Rightarrow> Some (world_step w frame_number sim_tick_rate)
      | Some m \<Rightarrow>
          (case sim_snakes (sim_snake L J sim_tick_rate frame_number) [0..bm_cnt m - 1] m of
             None \<Rightarrow> None
           | Some m \<Rightarrow> Some (world_step (w\<lparr>wd_snakes := Some m\<rparr>) frame_number sim_tick_rate)))"

text \<open>The three steps of sending: whether the loop is to be left, and the state.\<close>

definition server_send ::
  "'a server_env \<Rightarrow> 16 word \<Rightarrow> 'a server \<times> world \<Rightarrow> (bool \<times> 'a server \<times> world) option" where
  "server_send E frame_number st =
     (case st of (sv, w) \<Rightarrow>
        case server_update_snakes_in_range E w (make_qw 10) sv of None \<Rightarrow> None
        | Some (r, sv) \<Rightarrow>
            if r \<noteq> 0 then Some (True, sv, w)
            else (case server_queue_snake_data E w frame_number sv of None \<Rightarrow> None
                  | Some sv \<Rightarrow> map_option (\<lambda>st. (False, st)) (server_send_pending_data E (sv, w))))"

text \<open>
  A round of the loop: whether the instance stops, what is left of the input, and the
  state.
\<close>

definition server_frame ::
  "libm \<Rightarrow> 'a server_env \<Rightarrow> server_settings \<Rightarrow> bool \<Rightarrow> int \<Rightarrow> ('a \<times> 8 word list) list \<Rightarrow>
   'a instance_state \<Rightarrow> (bool \<times> ('a \<times> 8 word list) list \<times> 'a instance_state) option" where
  "server_frame L E S net_update code inbox s =
     (let f = is_frame s in
      case (if net_update then server_recv E S f code inbox (is_server s, is_world s)
            else Some (0, inbox, is_server s, is_world s)) of
        None \<Rightarrow> None
      | Some (r, inbox, sv, w) \<Rightarrow>
          if r \<noteq> 0 then Some (True, inbox, s\<lparr>is_server := sv, is_world := w\<rparr>)
          else
            (case sim_world L (ve_junk E) (ss_sim_tick_rate S) f w of None \<Rightarrow> None
             | Some w \<Rightarrow>
                 (case (if net_update then server_send E f (sv, w) else Some (False, sv, w)) of
                    None \<Rightarrow> None
                  | Some (stop, sv, w) \<Rightarrow>
                      Some (stop, inbox, \<lparr>is_server = sv, is_world = w,
                        is_frame = (if stop then f else f + 1)\<rparr>))))"

definition server_instance_init :: "'a instance_state" where
  "server_instance_init = \<lparr>is_server = server_init, is_world = world_init, is_frame = 0\<rparr>"

end
