(* ===== verification/Msg_Frames.thy ===== *)
theory Msg_Frames
  imports Packet MsgCommands
begin

text \<open>
  Reading messages out of a datagram: a frame is found where it was written. And the queue of
  pending messages of a connection, which both sides keep: every message in it has a payload
  of the right size.
\<close>

lemma frame_at:
  assumes "msg_wf m" "buf = pre @ msg_frame m @ post" "i = length pre"
  shows "buf ! i = msg_code (m_type m)" "buf ! (i + 1) = m_payload_len m"
    "i + 2 + unat (m_payload_len m) \<le> length buf" "int i < int (length buf) - 1"
    "take (unat (m_payload_len m)) (drop (i + 2) buf) = take (unat (m_payload_len m)) (m_payload m)"
    "msg_parse_payload (buf ! i) (drop (i + 2) buf) (buf ! (i + 1)) = msg_parse m"
proof -
  have l: "length (msg_frame m) = unat (m_payload_len m) + 2"
    by (rule length_msg_frame [OF assms(1)])
  show b: "buf ! i = msg_code (m_type m)" "buf ! (i + 1) = m_payload_len m"
    using assms(2,3) by (simp_all add: msg_frame_def nth_append)
  show le: "i + 2 + unat (m_payload_len m) \<le> length buf"
    using assms(2,3) l by simp
  then show "int i < int (length buf) - 1"
    by linarith
  have pl: "length (take (unat (m_payload_len m)) (m_payload m)) = unat (m_payload_len m)"
    using l by (simp add: msg_frame_def)
  show t: "take (unat (m_payload_len m)) (drop (i + 2) buf) = take (unat (m_payload_len m)) (m_payload m)"
    using assms(2,3) pl by (simp add: msg_frame_def)
  show "msg_parse_payload (buf ! i) (drop (i + 2) buf) (buf ! (i + 1)) = msg_parse m"
    unfolding msg_parse_def b by (rule msg_parse_payload_bounds [OF t])
qed

section \<open>Pending messages\<close>

definition pending_ok :: "msg vec option \<Rightarrow> bool" where
  "pending_ok p \<longleftrightarrow> vecp_ok 16 p \<and> list_all msg_wf (vecp_list p)"

lemma pending_init [simp]: "pending_ok None" "pending_ok vec_init"
  by (simp_all add: pending_ok_def vec_init_def)

lemma pending_push [intro]:
  assumes "pending_ok p" "msg_wf m"
  shows "pending_ok (snd (vec_push 16 True u p m))"
proof (cases "vec_can_grow 16 True p")
  case True
  with assms show ?thesis
    using vec_push_room [of 16 p True u m] by (auto simp: pending_ok_def)
next
  case False
  with assms show ?thesis
    using vec_push_no_room [of 16 p True u m] by (auto simp: pending_ok_def)
qed

lemma pending_clear: "pending_ok p \<Longrightarrow> pending_ok (vec_clear p)"
  by (auto simp: pending_ok_def vec_clear_def vec_ok_def vec_list_def split: option.splits)

lemma retain_list_all:
  "retain_list f xs u = (r, ys, u') \<Longrightarrow> (\<And>x u. P x \<Longrightarrow> P (fst (snd (f x u)))) \<Longrightarrow> list_all P xs \<Longrightarrow> list_all P ys"
proof (induction xs arbitrary: u r ys u')
  case (Cons x xs)
  obtain q y u1 where f: "f x u = (q, y, u1)"
    by (metis surj_pair)
  have y: "P y"
    using Cons.prems(2) [of x u] Cons.prems(3) f by simp
  consider "q < 0" | "q > 0" | "q = 0" by linarith
  then show ?case
  proof cases
    case 3
    obtain r1 zs u2 where "retain_list f xs u1 = (r1, zs, u2)"
      by (metis surj_pair)
    then show ?thesis
      using Cons.prems(1,3) Cons.IH [OF _ Cons.prems(2), of u1 r1 zs u2] f 3 y by auto
  qed (use Cons.prems f y Cons.IH [OF _ Cons.prems(2), of u1 r ys u'] in auto)
qed simp

lemma pending_remove_type: "pending_ok p \<Longrightarrow> pending_ok (msg_vec_remove_type p t)"
proof -
  assume p: "pending_ok p"
  let ?f = "\<lambda>m (u::unit). (if m_type m = t then 1 else 0 :: int, m, u)"
  obtain r q u where r: "vec_retain ?f p () = (r, q, u)"
    by (rule prod_cases3)
  have v: "vecp_ok 16 p" "list_all msg_wf (vecp_list p)"
    using p by (simp_all add: pending_ok_def)
  note l = vec_retain_list [OF v(1) r]
  have "list_all msg_wf (vecp_list q)"
    by (rule retain_list_all [OF conjunct2 [OF l] _ v(2)]) simp
  then show ?thesis
    using l r by (simp add: pending_ok_def msg_vec_remove_type_def)
qed

text \<open>Every builder makes a message of the right size.\<close>

lemma msg_wf_alloc [simp]: "msg_wf (msg_alloc u t r s)"
  by (simp add: msg_wf_def MSG_BUFFER_def)

lemma msg_wf_put [simp]: "length bs \<le> 255 \<Longrightarrow> msg_wf m \<Longrightarrow> msg_wf (msg_put bs m)"
  by (simp add: msg_wf_def msg_put_def MSG_BUFFER_def)

lemma msg_wf_builders [simp]:
  "msg_wf (msg_join_accept u a b c d e pos)" "msg_wf (msg_feedback u x f)" "msg_wf (msg_snake_head u h f)"
  "msg_wf (msg_snake_bezier u i j bh)" "msg_wf (msg_snake_destroy u i)" "msg_wf (msg_leave u)"
  by (simp_all add: msg_join_accept_def msg_feedback_def msg_snake_head_def msg_snake_bezier_def
      msg_snake_destroy_def msg_leave_def)

lemma msg_wf_join_request: "msg_join_request u v f name = Some m \<Longrightarrow> msg_wf m"
  by (auto simp: msg_join_request_def Let_def MSG_BUFFER_def split: if_splits intro!: msg_wf_put)

lemma pack_actions_length: "length (fst (pack_actions c cs s)) = length (fst s)"
proof (induction c cs s rule: pack_actions.induct)
  case (2 prev nxt cs s)
  have "length (fst (put_next_bit b s)) = length (fst s)" for b s
    by (cases s) (simp add: put_next_bit_def Let_def)
  with 2 show ?case by simp
qed simp

lemma pack_deltas_length: "length (fst (pack_deltas c cs s)) = length (fst s)"
  by (induction c cs s rule: pack_deltas.induct) (auto split: prod.splits)

lemma pack_deltas_length_eq: "pack_deltas c cs (pl, b) = (x, y) \<Longrightarrow> length x = length pl"
  using pack_deltas_length [of c cs "(pl, b)"] by simp

lemma msg_wf_commands_one [simp]: "msg_wf (msg_commands_one u cs f)"
proof -
  obtain pl bt byte where a: "pack_actions (hd cs) (tl cs) (write_bytes 0 [hi8 f, lo8 f, word_of_int (int (length cs) - 1),
      cmd_angle (hd cs), cmd_speed (hd cs), ucast (cmd_action (hd cs))]
      (m_payload (msg_alloc u MSG_COMMANDS 0 (2 + 3 + int ((12 * length cs + 8) div 8)))), 3, 5) = (pl, bt, byte)"
    by (metis surj_pair)
  have l: "length pl = 255"
    using arg_cong [OF a, of "\<lambda>r. length (fst r)"] by (simp add: pack_actions_length)
  show ?thesis
    using l a
    by (auto simp: msg_commands_one_def Let_def msg_wf_def MSG_BUFFER_def split: prod.splits
        dest!: pack_deltas_length_eq)
qed

lemma pending_push_all: "pending_ok p \<Longrightarrow> list_all msg_wf ms \<Longrightarrow>
    pending_ok (foldl (\<lambda>v m. snd (vec_push 16 True uv v m)) p ms)"
  by (induction ms arbitrary: p) auto

lemma msg_commands_from_wf: "list_all msg_wf (msg_commands_from u q i f)"
  by (induction u q i f rule: msg_commands_from.induct) (simp add: msg_commands_from.simps Let_def)

lemma pending_commands: "pending_ok p \<Longrightarrow> pending_ok (msg_commands True uv u p q)"
  by (simp add: msg_commands_def pending_push_all msg_commands_from_wf)

section \<open>Datagrams\<close>

text \<open>What a receiver can take apart: messages, one after the other, that fit into a packet.\<close>

definition datagram_ok :: "8 word list \<Rightarrow> bool" where
  "datagram_ok b \<longleftrightarrow> b \<noteq> [] \<and> int (length b) \<le> NET_MAX_UDP_PACKET_SIZE \<and>
     (\<exists>ms. list_all msg_wf ms \<and> b = concat (map msg_frame ms))"

lemma subseq_list_all: "subseq xs ys \<Longrightarrow> list_all P ys \<Longrightarrow> list_all P xs"
  by (induction rule: list_emb.induct) auto

lemma pack_datagram:
  assumes "f = append_reliable_msgs_to_buf \<or> f = client_append_reliable_msgs_to_buf n" "pending_ok p"
    and "vec_retain append_unreliable_msgs_to_buf p (pack_start u) = (r, p1, ctx1)"
    and "vec_retain f p1 ctx1 = (r2, p2, ctx2)"
  shows "pending_ok p2 \<and> (r2 = 0 \<or> r2 = -1) \<and> 0 \<le> pc_len ctx2 \<and>
    (pc_len ctx2 \<noteq> 0 \<longrightarrow> datagram_ok (take (nat (pc_len ctx2)) (pc_buf ctx2)))"
proof -
  have q: "vecp_ok 16 p" "list_all msg_wf (vecp_list p)"
    using assms(2) by (simp_all add: pending_ok_def)
  obtain gs hs where g: "packed ctx2 (gs @ hs)" "subseq gs (filter msg_is_unreliable (vecp_list p))"
    "subseq hs (filter msg_is_reliable (vecp_list p2))" "vecp_ok 16 p2" "list_all msg_wf (vecp_list p2)"
    "r2 = 0 \<or> r2 = -1"
    using pack_queue [OF assms(1) q assms(3,4)] by metis
  have "list_all msg_wf gs"
    by (rule subseq_list_all [OF g(2)]) (use q(2) in \<open>simp add: list_all_iff\<close>)
  moreover have "list_all msg_wf hs"
    by (rule subseq_list_all [OF g(3)]) (use g(5) in \<open>simp add: list_all_iff\<close>)
  ultimately have wf: "list_all msg_wf (gs @ hs)"
    by simp
  have b: "take (nat (pc_len ctx2)) (pc_buf ctx2) = concat (map msg_frame (gs @ hs))"
    "pc_len ctx2 = int (length (concat (map msg_frame (gs @ hs))))" "pc_len ctx2 \<le> NET_MAX_UDP_PACKET_SIZE"
    using g(1) unfolding packed_def by blast+
  define bs where "bs = take (nat (pc_len ctx2)) (pc_buf ctx2)"
  have len: "pc_len ctx2 = int (length bs)" "pc_len ctx2 \<le> NET_MAX_UDP_PACKET_SIZE"
    using b(2,3) unfolding b(1) [symmetric] bs_def [symmetric] by blast+
  have "datagram_ok bs" if "bs \<noteq> []"
    unfolding datagram_ok_def
    using that wf b(1) [folded bs_def] len by (intro conjI exI [of _ "gs @ hs"]) simp_all
  then show ?thesis
    using g(4-6) len(1) unfolding bs_def [symmetric] by (simp add: pending_ok_def)
qed

end
