(* ===== verification/Server_Rules.thy ===== *)
theory Server_Rules
  imports ServerInstance Msg_Frames Snake_Ack
begin

text \<open>
  What the operations of the server do: its tables of clients as maps, the packets it sends,
  and a simulated frame of the world.
\<close>

section \<open>Tables through slots\<close>

lemma hm_erase_vals: "hm_erase E m key = Some (v, m') \<Longrightarrow> hm_vals m' = hm_vals m \<and> hm_cap m' = hm_cap m \<and> hm_keys m' = hm_keys m"
  by (auto simp: hm_erase_def hm_set_hash_def Let_def split: option.splits if_splits)

lemma hm_find_pointer_spec:
  assumes "hmp_ok E p" "hm_live p" "he_ok_inst E"
  obtains (absent) "hm_find_pointer E p key = Some None" "hmp_abs p key = None"
    | (present) m s where "p = Some m" "hm_find_pointer E p key = Some (Some (int s))" "hm_used m s"
      "hm_keys m ! s = key" "hmp_abs p key = Some (hm_vals m ! s)"
proof (cases p)
  case None
  with absent show thesis by (simp add: hm_find_pointer_def hmp_abs_def)
next
  case (Some m)
  with assms have ok: "hm_ok E m" "hm_unused m \<noteq> {}" "\<And>a b. he_eq E a b \<longleftrightarrow> a = b"
    by (simp_all add: hmp_ok_def he_ok_inst_def)
  show thesis
  proof (rule hm_find_slot_cases [OF ok(1,3,2), of key])
    fix s
    assume s: "hm_used m s" "hm_keys m ! s = key" "hm_find_slot E m key (hm_hash E key) = Some (- (1 + int s))"
    have "hm_abs m key = Some (hm_vals m ! s)"
      using hm_abs_Some [OF ok(1)] s by blast
    with present [OF Some _ s(1,2)] s(3) Some show thesis
      by (simp add: hm_find_pointer_def hmp_abs_def)
  next
    fix s
    assume s: "\<And>t. hm_used m t \<Longrightarrow> hm_keys m ! t \<noteq> key" "hm_find_slot E m key (hm_hash E key) = Some (int s)"
    then have "hm_abs m key = None"
      using hm_abs_None [OF ok(1)] by blast
    with absent s(2) Some show thesis
      by (simp add: hm_find_pointer_def hmp_abs_def)
  qed
qed

lemma hm_emplace_exists:
  assumes "hmp_ok E p" "he_ok_inst E" "hm_room E p" "hmp_abs p key \<noteq> None"
  shows "\<exists>q. hm_emplace_new E p key = Some (None, q)"
  using hm_insert_new_exists [OF assms, of undefined]
  by (auto simp: hm_insert_new_def split: option.splits prod.splits)

text \<open>A loop over a table keeps what its body keeps.\<close>

lemma hm_each_inv:
  assumes "\<And>i s s' m. i < n \<Longrightarrow> P s \<Longrightarrow> get s = Some m \<Longrightarrow> hm_used m i \<or> length (hm_hashes m) \<le> i \<Longrightarrow>
      body (int i) s = Some s' \<Longrightarrow> P s'"
    and "P s" "hm_each get body is s = Some s'" "set is \<subseteq> {..<n}"
  shows "P s'"
  using assms(2-)
proof (induction "is" arbitrary: s)
  case (Cons i "is")
  show ?case
  proof (cases "get s")
    case None
    with Cons.prems show ?thesis by simp
  next
    case (Some m)
    show ?thesis
    proof (cases "hm_hashes m ! i = HM_SLOT_UNUSED \<or> hm_hashes m ! i = HM_SLOT_RIP")
      case True
      with Some Cons show ?thesis by auto
    next
      case False
      with Some Cons.prems obtain s1 where s1: "body (int i) s = Some s1" "hm_each get body is s1 = Some s'"
        by (auto split: option.splits)
      have "P s1"
        by (rule assms(1) [OF _ Cons.prems(1) Some _ s1(1)])
           (use False Cons.prems(3) in \<open>auto simp: hm_used_def\<close>)
      with Cons.IH s1(2) Cons.prems(3) show ?thesis by auto
    qed
  qed
qed simp

section \<open>A frame of the world\<close>

text \<open>The loop over the snakes replaces the value of every key.\<close>

lemma sim_snakes_alist:
  assumes "bm_ok E m" "i \<le> nat (bm_cnt m)"
  shows "case sim_snakes f (map int [i..<nat (bm_cnt m)]) m of
      None \<Rightarrow> \<exists>j. i \<le> j \<and> j < nat (bm_cnt m) \<and> f (snd (bm_alist m ! j)) = None
    | Some m' \<Rightarrow> bm_ok E m' \<and> (\<forall>j. i \<le> j \<longrightarrow> j < nat (bm_cnt m) \<longrightarrow> f (snd (bm_alist m ! j)) \<noteq> None) \<and>
        bm_alist m' = take i (bm_alist m) @ map (\<lambda>(k, s). (k, the (f s))) (drop i (bm_alist m))"
  using assms
proof (induction "nat (bm_cnt m) - i" arbitrary: i m)
  case 0
  then have "i = nat (bm_cnt m)" by simp
  then show ?case
    using 0 length_bm_alist [OF 0(2)] by simp
next
  case (Suc n)
  then have i: "i < nat (bm_cnt m)" by simp
  have u: "[i..<nat (bm_cnt m)] = i # [Suc i..<nat (bm_cnt m)]"
    using i by (simp add: upt_conv_Cons)
  have l: "length (bm_alist m) = nat (bm_cnt m)"
    by (rule length_bm_alist [OF Suc.prems(1)])
  have v: "bm_kvs_get_value m (int i) = snd (bm_alist m ! i)"
    using i l bm_shape [OF Suc.prems(1)] by (simp add: bm_kvs_get_value_def bm_alist_def)
  show ?case
  proof (cases "f (snd (bm_alist m ! i))")
    case None
    then show ?thesis using u v i by auto
  next
    case (Some s)
    let ?m = "bm_kvs_set_value m (int i) s"
    note sv = bm_set_value_alist [OF Suc.prems(1) i, of s]
    have c: "bm_cnt ?m = bm_cnt m"
      by (simp add: bm_kvs_set_value_def)
    have other: "bm_alist ?m ! j = bm_alist m ! j" if "Suc i \<le> j" for j
      using that sv(2) by simp
    have dt: "drop (Suc i) (bm_alist ?m) = drop (Suc i) (bm_alist m)"
      using sv(2) by simp
    have tk: "take (Suc i) (bm_alist ?m) = take i (bm_alist m) @ [(fst (bm_alist m ! i), s)]"
      using sv(2) i l by (simp add: take_Suc_conv_app_nth)
    have dr: "drop i (bm_alist m) = bm_alist m ! i # drop (Suc i) (bm_alist m)"
      using i l by (simp add: Cons_nth_drop_Suc)
    have IH: "case sim_snakes f (map int [Suc i..<nat (bm_cnt ?m)]) ?m of
        None \<Rightarrow> \<exists>j. Suc i \<le> j \<and> j < nat (bm_cnt ?m) \<and> f (snd (bm_alist ?m ! j)) = None
      | Some m' \<Rightarrow> bm_ok E m' \<and> (\<forall>j. Suc i \<le> j \<longrightarrow> j < nat (bm_cnt ?m) \<longrightarrow> f (snd (bm_alist ?m ! j)) \<noteq> None) \<and>
          bm_alist m' = take (Suc i) (bm_alist ?m) @ map (\<lambda>(k, s). (k, the (f s))) (drop (Suc i) (bm_alist ?m))"
      using Suc.hyps(2) i c by (intro Suc.hyps(1) sv(1)) simp_all
    have step: "sim_snakes f (map int [i..<nat (bm_cnt m)]) m = sim_snakes f (map int [Suc i..<nat (bm_cnt m)]) ?m"
      using u v Some by simp
    have fi: "f (snd (bm_alist m ! i)) = Some s"
      by (rule Some)
    show ?thesis
    proof (cases "sim_snakes f (map int [Suc i..<nat (bm_cnt m)]) ?m")
      case None
      obtain j where j: "Suc i \<le> j" "j < nat (bm_cnt m)" "f (snd (bm_alist ?m ! j)) = None"
        using IH [unfolded c] unfolding None by auto
      have "i \<le> j" "f (snd (bm_alist m ! j)) = None"
        using j other [of j] by simp_all
      then show ?thesis
        unfolding step None using j(2) by auto
    next
      case (Some m')
      have m': "bm_ok E m'" "\<And>j. Suc i \<le> j \<Longrightarrow> j < nat (bm_cnt m) \<Longrightarrow> f (snd (bm_alist ?m ! j)) \<noteq> None"
        "bm_alist m' = take (Suc i) (bm_alist ?m) @ map (\<lambda>(k, s). (k, the (f s))) (drop (Suc i) (bm_alist ?m))"
        using IH [unfolded c] unfolding Some by simp_all
      have "f (snd (bm_alist m ! j)) \<noteq> None" if "i \<le> j" "j < nat (bm_cnt m)" for j
      proof (cases "i = j")
        case False
        then show ?thesis
          using m'(2) [of j] that other [of j] by simp
      qed (use fi in auto)
      moreover have "bm_alist m' = take i (bm_alist m) @ map (\<lambda>(k, s). (k, the (f s))) (drop i (bm_alist m))"
        unfolding m'(3) tk dt dr using fi by (simp add: case_prod_unfold)
      ultimately show ?thesis
        unfolding step Some using m'(1) by simp
    qed
  qed
qed

lemma upto_nat: "[0..int n - 1] = map int [0..<n]"
proof (rule nth_equalityI)
  fix i
  assume "i < length [0..int n - 1]"
  then show "[0..int n - 1] ! i = map int [0..<n] ! i"
    by simp
qed simp

lemma map_of_map_values: "map_of (map (\<lambda>(k, v). (k, h v)) xs) k = map_option h (map_of xs k)"
  by (induction xs) auto

lemma sim_snakes_spec:
  assumes "bm_ok E m"
  shows "case sim_snakes f [0..bm_cnt m - 1] m of
      None \<Rightarrow> \<exists>k s. bm_find (Some m) k = Some s \<and> f s = None
    | Some m' \<Rightarrow> bm_ok E m' \<and> (\<forall>k. bm_find (Some m') k = Option.bind (bm_find (Some m) k) f) \<and>
        (\<forall>k s. bm_find (Some m) k = Some s \<longrightarrow> f s \<noteq> None)"
proof -
  have n: "0 \<le> bm_cnt m"
    using assms by (simp add: bm_ok_def)
  have u: "[0..bm_cnt m - 1] = map int [0..<nat (bm_cnt m)]"
    using upto_nat [of "nat (bm_cnt m)"] n by simp
  note l = length_bm_alist [OF assms]
  have find: "bm_find (Some m) = map_of (bm_alist m)"
    using assms by (simp add: bm_find_map_of [of E "Some m"])
  note sp = sim_snakes_alist [OF assms le0, of f, folded u]
  show ?thesis
  proof (cases "sim_snakes f [0..bm_cnt m - 1] m")
    case None
    then obtain j where j: "j < nat (bm_cnt m)" "f (snd (bm_alist m ! j)) = None"
      using sp by auto
    have "bm_find (Some m) (fst (bm_alist m ! j)) = Some (snd (bm_alist m ! j))"
      using bm_distinct [OF assms] j(1) l by (simp add: find map_of_eq_Some_iff)
    then show ?thesis
      using None j(2) by auto
  next
    case (Some m')
    then have m': "bm_ok E m'" "bm_alist m' = map (\<lambda>(k, s). (k, the (f s))) (bm_alist m)"
      "\<And>j. j < nat (bm_cnt m) \<Longrightarrow> f (snd (bm_alist m ! j)) \<noteq> None"
      using sp by simp_all
    have def: "f s \<noteq> None" if "map_of (bm_alist m) k = Some s" for k s
    proof -
      have "(k, s) \<in> set (bm_alist m)"
        using that by (rule map_of_SomeD)
      then show ?thesis
        using m'(3) l by (metis in_set_conv_nth snd_conv)
    qed
    have "bm_find (Some m') k = Option.bind (bm_find (Some m) k) f" for k
    proof -
      have "bm_find (Some m') k = map_option (\<lambda>s. the (f s)) (map_of (bm_alist m) k)"
        using m'(1,2) map_of_map_values [of "\<lambda>s. the (f s)" "bm_alist m" k]
        by (simp add: bm_find_map_of [of E "Some m'"])
      also have "\<dots> = Option.bind (bm_find (Some m) k) f"
        using def [of k] by (cases "map_of (bm_alist m) k") (auto simp: find)
      finally show ?thesis .
    qed
    with Some m'(1) def show ?thesis by (simp add: find)
  qed
qed

text \<open>The snakes that can be simulated, and why a frame of one fails.\<close>

definition snake_ready :: "snake \<Rightarrow> bool" where
  "snake_ready s \<longleftrightarrow> curve_ok (sn_data s) (sh_pos (sn_head s)) \<and> curve_room 1 (sn_data s) \<and>
     param_ok (sn_param s)"

definition head_moved :: "libm \<Rightarrow> 8 word \<Rightarrow> 16 word \<Rightarrow> snake \<Rightarrow> snake_head" where
  "head_moved L rate frame_number s =
     (if fst (snake_try_reset_hold s frame_number)
      then snake_step_head L (sn_head s) (sn_param s) (fst (cmd_queue_take_or_predict (sn_cmdq s) frame_number)) rate
      else sn_head s)"

definition step_fails :: "libm \<Rightarrow> junk \<Rightarrow> 8 word \<Rightarrow> 16 word \<Rightarrow> snake \<Rightarrow> bool" where
  "step_fails L J rate f s \<longleftrightarrow> fst (snake_try_reset_hold s f) \<and>
     (let moved = head_moved L rate f s; d = sn_data s
      in (length (snake_trails d) = 63 \<and> (\<exists>d1. snake_update_curve_from_head L J d moved = Some (True, d1))) \<or>
         (\<exists>d'. curve_ok d' (sh_pos moved) \<and> snake_history d' = snake_history d @ [sh_pos moved] \<and>
            sampling_fails L J (sn_param s) d'))"

lemma snake_try_reset_hold_keeps:
  "sn_data (snd (snake_try_reset_hold s f)) = sn_data s" "sn_head (snd (snake_try_reset_hold s f)) = sn_head s"
  "sn_param (snd (snake_try_reset_hold s f)) = sn_param s" "sn_cmdq (snd (snake_try_reset_hold s f)) = sn_cmdq s"
  by (simp_all add: snake_try_reset_hold_def Let_def)

lemma sim_snake_ok:
  assumes "snake_ready s" "libm_sqrt_ok L"
  shows "case sim_snake L J rate f s of
      None \<Rightarrow> step_fails L J rate f s
    | Some s' \<Rightarrow> curve_ok (sn_data s') (sh_pos (sn_head s')) \<and> sn_head s' = head_moved L rate f s \<and>
        sn_param s' = sn_param s"
proof -
  obtain go s1 where h: "snake_try_reset_hold s f = (go, s1)"
    by fastforce
  note keep = snake_try_reset_hold_keeps [of s f, unfolded h snd_conv]
  obtain command q where c: "cmd_queue_take_or_predict (sn_cmdq s) f = (command, q)"
    by fastforce
  have r: "curve_ok (sn_data s) (sh_pos (sn_head s))" "curve_room 1 (sn_data s)" "param_ok (sn_param s)"
    using assms(1) by (simp_all add: snake_ready_def)
  show ?thesis
  proof (cases go)
    case False
    then show ?thesis
      using h keep r by (simp add: sim_snake_def head_moved_def)
  next
    case True
    note ok = snake_step_ok [OF r(1,2) assms(2) r(3) refl, where J = J and command = command and rate = rate]
    show ?thesis
    proof (cases "snake_step L J (sn_data s) (sn_head s) (sn_param s) command rate")
      case None
      with ok show ?thesis
        using True h c keep by (simp add: sim_snake_def step_fails_def head_moved_def)
    next
      case (Some t)
      then obtain stale d' head' where t: "snake_step L J (sn_data s) (sn_head s) (sn_param s) command rate =
          Some (stale, d', head')"
        by (cases t) auto
      have o: "head' = snake_step_head L (sn_head s) (sn_param s) command rate"
        "curve_ok d' (sh_pos head')" "0 \<le> stale" "stale < int (length (snake_trails d'))"
        using ok unfolding t by auto
      obtain d2 where "snake_remove_stale_segments d' stale = Some d2" "curve_ok d2 (sh_pos head')"
        using remove_stale_ok [OF o(2-4)] by blast
      then show ?thesis
        using True h c keep t o(1) by (simp add: sim_snake_def head_moved_def)
    qed
  qed
qed

lemma sim_world_rule:
  assumes "world_ok E w" "\<And>k s. world_find w k = Some s \<Longrightarrow> snake_ready s" "libm_sqrt_ok L"
  shows "case sim_world L J rate f w of
      None \<Rightarrow> \<exists>k s. world_find w k = Some s \<and> step_fails L J rate f s
    | Some w' \<Rightarrow> world_ok E w' \<and>
        (\<forall>k. world_find w' k = Option.bind (world_find w k) (sim_snake L J rate f)) \<and>
        (\<forall>k s. world_find w k = Some s \<longrightarrow> (\<exists>s'. world_find w' k = Some s' \<and>
           curve_ok (sn_data s') (sh_pos (sn_head s')) \<and> sn_head s' = head_moved L rate f s))"
proof (cases "wd_snakes w")
  case None
  then show ?thesis
    using assms(1) by (simp add: sim_world_def world_step_def world_find_def bm_find_def)
next
  case (Some m)
  let ?f = "sim_snake L J rate f"
  have ok: "bm_ok E m"
    using assms(1) Some by (simp add: world_ok_def)
  have wf: "world_find w = bm_find (Some m)"
    using Some by (simp add: world_find_def fun_eq_iff)
  note one = sim_snake_ok [OF assms(2) assms(3), of _ _ J rate f, unfolded wf]
  show ?thesis
  proof (cases "sim_snakes ?f [0..bm_cnt m - 1] m")
    case None
    then obtain k s where ks: "bm_find (Some m) k = Some s" "?f s = None"
      using sim_snakes_spec [OF ok, of ?f] by auto
    have "step_fails L J rate f s"
      using one [OF ks(1)] ks(2) by simp
    then show ?thesis
      using ks(1) None Some wf by (auto simp: sim_world_def)
  next
    case sn: (Some m')
    then have m': "bm_ok E m'" "\<And>k. bm_find (Some m') k = Option.bind (bm_find (Some m) k) ?f"
      using sim_snakes_spec [OF ok, of ?f] by simp_all
    let ?w = "w\<lparr>wd_snakes := Some m'\<rparr>"
    have w': "sim_world L J rate f w = Some ?w"
      using sn Some by (simp add: sim_world_def world_step_def)
    have find: "world_find ?w k = Option.bind (world_find w k) ?f" for k
      using m'(2) [of k] wf by (simp add: world_find_def)
    have wok: "world_ok E ?w"
      using assms(1) m'(1) by (simp add: world_ok_def)
    have "\<exists>s'. world_find ?w k = Some s' \<and> curve_ok (sn_data s') (sh_pos (sn_head s')) \<and>
        sn_head s' = head_moved L rate f s" if s: "world_find w k = Some s" for k s
    proof -
      have bk: "bm_find (Some m) k = Some s"
        using s wf by simp
      have "?f s \<noteq> None"
        using sim_snakes_spec [OF ok, of ?f] sn bk by simp
      then obtain s' where "?f s = Some s'" by blast
      with one [OF bk] find [of k] s show ?thesis by auto
    qed
    with find wok show ?thesis
      unfolding w' by simp
  qed
qed

section \<open>Clients\<close>

lemma client_at_set [simp]:
  "sv_clients (client_set slot c sv) = map_option (hm_kvs_set_value slot c) (sv_clients sv)"
  "sv_malicious (client_set slot c sv) = sv_malicious sv" "sv_banned (client_set slot c sv) = sv_banned sv"
  "sv_sent (client_set slot c sv) = sv_sent sv"
  by (simp_all add: client_set_def)

lemma hm_kvs_set_value_twice [simp]:
  "hm_kvs_set_value slot b (hm_kvs_set_value slot a m) = hm_kvs_set_value slot b m"
  by (simp add: hm_kvs_set_value_def)

text \<open>The tables of a server that works.\<close>

definition table_ok :: "('k, 'v) hm_env \<Rightarrow> ('k, 'v) hm option \<Rightarrow> bool" where
  "table_ok E p \<longleftrightarrow> he_ok_inst E \<and> hmp_ok E p \<and> hm_live p"

definition sv_ok :: "'a server_env \<Rightarrow> 'a server \<Rightarrow> bool" where
  "sv_ok E sv \<longleftrightarrow> table_ok (ve_clients E) (sv_clients sv) \<and> table_ok (ve_addrs E) (sv_malicious sv) \<and>
     table_ok (ve_addrs E) (sv_banned sv)"

abbreviation registered :: "'a server \<Rightarrow> 'a \<Rightarrow> server_client option" where
  "registered sv \<equiv> hmp_abs (sv_clients sv)"

lemma find_pointer_None:
  "table_ok E p \<Longrightarrow> hm_find_pointer E p a = Some None \<longleftrightarrow> hmp_abs p a = None"
  unfolding table_ok_def by (metis hm_find_pointer_spec option.distinct(1) option.inject)

lemma find_pointer_Some:
  assumes "table_ok E p" "hmp_abs p a = Some v"
  shows "\<exists>m s. p = Some m \<and> hm_find_pointer E p a = Some (Some (int s)) \<and> hm_used m s \<and>
    hm_keys m ! s = a \<and> hm_vals m ! s = v"
  using assms hm_find_pointer_spec [of E p a]
  unfolding table_ok_def by (metis option.distinct(1) option.inject)

text \<open>Removing a client.\<close>

lemma client_remove_rule:
  assumes "sv_ok E sv" "world_ok (ve_snakes E) w" "sv_clients sv = Some m" "hm_used m s"
    and "hm_vals m ! s = c" "\<not> sc_freed c"
  shows "\<exists>sv'. client_remove E (hm_keys m ! s) (Some (int s)) (sv, w) =
      Some (sv', world_remove_snake w (sc_snake_id c)) \<and> sv_ok E sv' \<and>
      registered sv' = (registered sv)(hm_keys m ! s := None) \<and> sv_malicious sv' = sv_malicious sv \<and>
      sv_banned sv' = sv_banned sv \<and> sv_sent sv' = sv_sent sv \<and>
      client_at sv' (Some (int s)) = Some (c\<lparr>sc_freed := True\<rparr>)"
proof -
  have ok: "hm_ok (ve_clients E) m" "he_ok_inst (ve_clients E)" "hm_unused m \<noteq> {}"
    using assms(1,3) by (simp_all add: sv_ok_def table_ok_def hmp_ok_def)
  let ?m = "hm_kvs_set_value (int s) (c\<lparr>sc_freed := True\<rparr>) m"
  note sv = hm_set_value_ok [OF ok(1) assms(4), of "c\<lparr>sc_freed := True\<rparr>"]
  have un: "hm_unused ?m \<noteq> {}"
    using ok(3) by (simp add: hm_unused_def hm_kvs_set_value_def)
  obtain m' where m': "hm_erase (ve_clients E) ?m (hm_keys m ! s) = Some (hm_abs ?m (hm_keys m ! s), m')"
    "hm_ok (ve_clients E) m'" "hm_unused m' \<noteq> {}" "hm_abs m' = (hm_abs ?m)(hm_keys m ! s := None)"
    using hm_erase_spec [OF sv(1) _ un, of "hm_keys m ! s"] ok(2) by (auto simp: he_ok_inst_def)
  have v: "hm_vals m' = (hm_vals m)[s := c\<lparr>sc_freed := True\<rparr>]"
    using hm_erase_vals [OF m'(1)] by (simp add: hm_kvs_set_value_def)
  have l: "s < length (hm_vals m)"
    using ok(1) assms(4) hm_used_less [of "ve_clients E" m s] by (simp add: hm_ok_def hm_shape_def)
  have "hm_abs m' = (hm_abs m)(hm_keys m ! s := None)"
    unfolding m'(4) sv(2) by (simp add: fun_upd_upd)
  then show ?thesis
    using assms m' ok(2) v l
    by (simp add: client_remove_def client_at_def client_set_def client_dangling_def hm_kvs_get_value_def
        Let_def sv_ok_def table_ok_def hmp_ok_def hmp_abs_def)
qed

section \<open>Sending\<close>

text \<open>A loop over a table returns when its body does.\<close>

lemma hm_each_total:
  assumes "\<And>i s m. i < n \<Longrightarrow> P s \<Longrightarrow> get s = Some m \<Longrightarrow> hm_hashes m ! i \<noteq> HM_SLOT_UNUSED \<Longrightarrow>
      hm_hashes m ! i \<noteq> HM_SLOT_RIP \<Longrightarrow> \<exists>s'. body (int i) s = Some s' \<and> P s'"
    and "P s" "set is \<subseteq> {..<n}"
  shows "\<exists>s'. hm_each get body is s = Some s' \<and> P s'"
  using assms(2-)
proof (induction "is" arbitrary: s)
  case (Cons i "is")
  show ?case
  proof (cases "get s")
    case None
    with Cons.prems show ?thesis by simp
  next
    case (Some m)
    show ?thesis
    proof (cases "hm_hashes m ! i = HM_SLOT_UNUSED \<or> hm_hashes m ! i = HM_SLOT_RIP")
      case True
      with Some Cons show ?thesis by auto
    next
      case False
      then obtain s1 where "body (int i) s = Some s1" "P s1"
        using assms(1) [OF _ Cons.prems(1) Some] Cons.prems(2) by auto
      with Cons Some False show ?thesis by auto
    qed
  qed
qed simp

text \<open>Clients whose queues are in order.\<close>

definition queue_ok :: "server_client \<Rightarrow> bool" where
  "queue_ok c \<longleftrightarrow> \<not> sc_freed c \<and> pending_ok (sc_pending c)"

definition clients_ok :: "'a server \<Rightarrow> bool" where
  "clients_ok sv \<longleftrightarrow> (\<forall>a c. registered sv a = Some c \<longrightarrow> queue_ok c)"

definition sending :: "'a server_env \<Rightarrow> int \<Rightarrow> 'a server \<times> world \<Rightarrow> bool" where
  "sending E cap st \<longleftrightarrow> (case st of (sv, w) \<Rightarrow>
     sv_ok E sv \<and> world_ok (ve_snakes E) w \<and> clients_ok sv \<and> hm_capacity (sv_clients sv) = cap \<and>
     (\<forall>(a, b) \<in> set (sv_sent sv). datagram_ok b))"

lemma pack_pending_ok:
  assumes "queue_ok c" "pack_pending u (sc_pending c) = (r, p, ctx)"
  shows "queue_ok (c\<lparr>sc_pending := p\<rparr>) \<and> (r = 0 \<or> r = -1) \<and> 0 \<le> pc_len ctx \<and>
    (pc_len ctx \<noteq> 0 \<longrightarrow> datagram_ok (take (nat (pc_len ctx)) (pc_buf ctx)))"
proof -
  obtain r1 p1 ctx1 where 1: "vec_retain append_unreliable_msgs_to_buf (sc_pending c) (pack_start u) = (r1, p1, ctx1)"
    "vec_retain append_reliable_msgs_to_buf p1 ctx1 = (r, p, ctx)"
    using assms(2) by (auto simp: pack_pending_def split: prod.splits)
  show ?thesis
    using pack_datagram [OF disjI1 [OF refl] _ 1] assms(1) by (simp add: queue_ok_def)
qed

lemma registered_set:
  assumes "sv_ok E sv" "sv_clients sv = Some m" "hm_used m i"
  shows "sv_ok E (client_set (int i) c sv) \<and> registered (client_set (int i) c sv) = (registered sv)(hm_keys m ! i \<mapsto> c)"
proof -
  have ok: "hm_ok (ve_clients E) m" "he_ok_inst (ve_clients E)" "hm_unused m \<noteq> {}"
    using assms(1,2) by (simp_all add: sv_ok_def table_ok_def hmp_ok_def)
  have "hm_unused (hm_kvs_set_value (int i) c m) = hm_unused m"
    by (simp add: hm_unused_def hm_kvs_set_value_def)
  then show ?thesis
    using assms(1,2) hm_set_value_ok [OF ok(1) assms(3), of c] ok
    by (simp add: sv_ok_def table_ok_def hmp_ok_def hmp_abs_def)
qed

lemma registered_slot:
  assumes "sv_ok E sv" "sv_clients sv = Some m" "hm_used m i"
  shows "registered sv (hm_keys m ! i) = Some (hm_vals m ! i)"
proof -
  have "hm_ok (ve_clients E) m"
    using assms(1,2) by (simp add: sv_ok_def table_ok_def hmp_ok_def)
  then show ?thesis
    using hm_abs_Some assms(2,3) by (fastforce simp: hmp_abs_def)
qed

lemma send_to_client_ok:
  assumes "sending E cap (sv, w)" "sv_clients sv = Some m" "hm_used m i"
  shows "\<exists>st'. send_to_client E (int i) (sv, w) = Some st' \<and> sending E cap st'"
proof -
  let ?c = "hm_vals m ! i" and ?a = "hm_keys m ! i"
  have sv: "sv_ok E sv" "world_ok (ve_snakes E) w" "clients_ok sv" "hm_capacity (sv_clients sv) = cap"
    "\<forall>(a, b) \<in> set (sv_sent sv). datagram_ok b"
    using assms(1) by (simp_all add: sending_def)
  have q: "queue_ok ?c"
    using registered_slot [OF sv(1) assms(2,3)] sv(3) by (simp add: clients_ok_def)
  obtain r p ctx where p: "pack_pending (ve_byte E) (sc_pending ?c) = (r, p, ctx)"
    using prod_cases3 by blast
  note po = pack_pending_ok [OF q p]
  let ?sv = "client_set (int i) (?c\<lparr>sc_pending := p\<rparr>) sv"
  note rs = registered_set [OF sv(1) assms(2,3)]
  have nd: "\<not> client_dangling ?c"
    using q by (simp add: client_dangling_def queue_ok_def)
  have cok: "clients_ok (client_set (int i) d sv)" if "queue_ok d" for d
    using rs [of d] sv(3) that by (auto simp: clients_ok_def)
  have cap: "hm_capacity (sv_clients (client_set (int i) d sv)) = cap" for d
    using sv(4) assms(2) by (simp add: hm_capacity_def hm_kvs_set_value_def)
  show ?thesis
  proof (cases "r = -1")
    case True
    have m2: "sv_clients ?sv = Some (hm_kvs_set_value (int i) (?c\<lparr>sc_pending := p\<rparr>) m)"
      using assms(2) by simp
    have u2: "hm_used (hm_kvs_set_value (int i) (?c\<lparr>sc_pending := p\<rparr>) m) i"
      using assms(3) by (simp add: hm_used_def hm_kvs_set_value_def)
    have l: "i < length (hm_vals m)"
      using assms(2,3) sv(1) hm_used_less [of "ve_clients E" m i]
      by (simp add: sv_ok_def table_ok_def hmp_ok_def hm_ok_def hm_shape_def)
    have v: "hm_vals (hm_kvs_set_value (int i) (?c\<lparr>sc_pending := p\<rparr>) m) ! i = ?c\<lparr>sc_pending := p\<rparr>"
      "hm_keys (hm_kvs_set_value (int i) (?c\<lparr>sc_pending := p\<rparr>) m) ! i = ?a"
      using l by (simp_all add: hm_kvs_set_value_def)
    have fr: "\<not> sc_freed (?c\<lparr>sc_pending := p\<rparr>)"
      using q by (simp add: queue_ok_def)
    obtain sv' where sv': "client_remove E ?a (Some (int i)) (?sv, w) =
        Some (sv', world_remove_snake w (sc_snake_id ?c))" "sv_ok E sv'"
      "registered sv' = (registered ?sv)(?a := None)" "sv_sent sv' = sv_sent ?sv"
      using client_remove_rule [OF conjunct1 [OF rs] sv(2) m2 u2 v(1) fr] v(2) by auto
    have cap': "hm_capacity (sv_clients sv') = cap"
      using sv'(1) cap [of "?c\<lparr>sc_pending := p\<rparr>"]
      by (auto simp: client_remove_def client_set_def hm_capacity_def hm_kvs_set_value_def Let_def
          split: option.splits if_splits prod.splits dest!: hm_erase_vals)
    have "clients_ok sv'"
      using cok [of "?c\<lparr>sc_pending := p\<rparr>"] po sv'(3) by (auto simp: clients_ok_def split: if_splits)
    moreover have "send_to_client E (int i) (sv, w) = Some (sv', world_remove_snake w (sc_snake_id ?c))"
      using assms(2) nd p True sv'(1) by (simp add: send_to_client_def hm_kvs_get_value_def hm_kvs_get_key_def Let_def)
    ultimately show ?thesis
      using sv'(2,4) cap' sv(5) world_remove_spec(1) [OF sv(2)] by (simp add: sending_def)
  next
    case False
    let ?d = "?c\<lparr>sc_pending := p, sc_timeout := i32 (sc_timeout ?c + 1)\<rparr>"
    have qd: "queue_ok ?d"
      using po by (simp add: queue_ok_def)
    have snd: "sending E cap (client_set (int i) ?d (net_sendto b a sv), w)" if "datagram_ok b" for a b
      using rs [of ?d] cok [OF qd] cap [of ?d] sv that
      by (auto simp: sending_def client_set_def net_sendto_def sv_ok_def clients_ok_def)
    have same: "sending E cap (?sv, w)"
      using rs [of "?c\<lparr>sc_pending := p\<rparr>"] cok [of "?c\<lparr>sc_pending := p\<rparr>"] cap po sv
      by (simp add: sending_def)
    have e: "client_set (int i) x (net_sendto b a (client_set (int i) y sv)) = client_set (int i) x (net_sendto b a sv)"
      for x y a b
      using assms(2) by (simp add: client_set_def net_sendto_def)
    show ?thesis
      using assms(2) nd p False po snd same
      by (simp add: send_to_client_def hm_kvs_get_value_def hm_kvs_get_key_def Let_def e)
  qed
qed

lemma server_send_ok:
  assumes "sv_ok E sv" "world_ok (ve_snakes E) w" "clients_ok sv" "sv_sent sv = []"
  shows "\<exists>sv' w'. server_send_pending_data E (sv, w) = Some (sv', w') \<and> sv_ok E sv' \<and>
    world_ok (ve_snakes E) w' \<and> clients_ok sv' \<and> (\<forall>(a, b) \<in> set (sv_sent sv'). datagram_ok b)"
proof -
  let ?cap = "hm_capacity (sv_clients sv)"
  have "\<exists>st. hm_each (\<lambda>(sv, w). sv_clients sv) (send_to_client E) [0..<nat ?cap] (sv, w) = Some st \<and> sending E ?cap st"
  proof (rule hm_each_total [where n = "nat ?cap"])
    fix i st m
    assume st: "i < nat ?cap" "sending E ?cap st" "(case st of (sv, w) \<Rightarrow> sv_clients sv) = Some m"
      "hm_hashes m ! i \<noteq> HM_SLOT_UNUSED" "hm_hashes m ! i \<noteq> HM_SLOT_RIP"
    obtain sv1 w1 where s1: "st = (sv1, w1)" by (cases st)
    have m: "sv_clients sv1 = Some m" "hm_cap m = ?cap" "hm_ok (ve_clients E) m"
      using st s1 by (auto simp: sending_def hm_capacity_def sv_ok_def table_ok_def hmp_ok_def)
    have "hm_used m i"
      using st m by (simp add: hm_used_def hm_ok_def hm_shape_def)
    then show "\<exists>s'. send_to_client E (int i) st = Some s' \<and> sending E ?cap s'"
      using send_to_client_ok [of E ?cap sv1 w1 m i] st(2) s1 m(1) by simp
  qed (use assms in \<open>auto simp: sending_def\<close>)
  then show ?thesis
    by (auto simp: server_send_pending_data_def hm_for_each_def sending_def)
qed

end
