(* ===== verification/Net_Tables.thy ===== *)
theory Net_Tables
  imports Server Server_Rules Snake_Laws
begin

text \<open>
  The two tables of the server as src/server_client_hm.c and src/net_addr_hm.c instantiate the
  hash map, over the IPv4 addresses: the key functions of the code on the structure that the
  socket fills in. On these the comparison, which leaves out the last four bytes of the
  address, is equality, so the laws of the hash map apply. The last part is the state of a
  server and a world that the examples use.
\<close>

section \<open>IPv4 addresses\<close>

record ipv4 =
  ip_port :: "16 word"
  ip_net :: "16 word"
  ip_host :: "16 word"

text \<open>The structure \<open>sockaddr_in\<close>: family, port, address and eight bytes of zero.\<close>

definition ipv4_net_addr :: "ipv4 \<Rightarrow> net_addr" where
  "ipv4_net_addr a = \<lparr>na_len = 16,
     na_storage = [2, 0, hi8 (ip_port a), lo8 (ip_port a), hi8 (ip_net a), lo8 (ip_net a),
       hi8 (ip_host a), lo8 (ip_host a)] @ replicate 24 0\<rparr>"

lemma hi8_lo8_inject: "hi8 x = hi8 y \<Longrightarrow> lo8 x = lo8 y \<Longrightarrow> x = y"
  by (metis be16_hi_lo)

lemma ipv4_keys_equal:
  "server_client_hm_kvs_keys_equal (ipv4_net_addr a) (ipv4_net_addr b) \<longleftrightarrow> a = b"
  "net_addr_hm_kvs_keys_equal (ipv4_net_addr a) (ipv4_net_addr b) \<longleftrightarrow> a = b"
proof -
  have "take 12 (na_storage (ipv4_net_addr a)) = take 12 (na_storage (ipv4_net_addr b)) \<longleftrightarrow> a = b"
    by (auto simp: ipv4_net_addr_def intro!: ipv4.equality dest: hi8_lo8_inject)
  then show "server_client_hm_kvs_keys_equal (ipv4_net_addr a) (ipv4_net_addr b) \<longleftrightarrow> a = b"
    by (simp add: keys_equal_prefix ipv4_net_addr_def)
  then show "net_addr_hm_kvs_keys_equal (ipv4_net_addr a) (ipv4_net_addr b) \<longleftrightarrow> a = b"
    by (simp add: server_client_hm_kvs_keys_equal_def net_addr_hm_kvs_keys_equal_def)
qed

section \<open>The tables\<close>

definition demo_msg :: msg where
  "demo_msg = msg_leave (\<lambda>_. 0)"

definition demo_client :: server_client where
  "demo_client = \<lparr>sc_pending = None, sc_prox = None, sc_timeout = 0, sc_cbf = replicate CBF_WINDOW_SIZE 0,
     sc_snake_id = 0, sc_last_frame = 0, sc_freed = False\<rparr>"

definition server_client_hm_env :: "(ipv4, server_client) hm_env" where
  "server_client_hm_env = \<lparr>he_bits = 16, he_hdr = 20,
     he_hash = (\<lambda>a. server_client_hm_kvs_hash (ipv4_net_addr a)),
     he_eq = (\<lambda>a b. server_client_hm_kvs_keys_equal (ipv4_net_addr a) (ipv4_net_addr b)),
     he_min = 16, he_pct = 70, he_ok = True, he_kok = True,
     he_uk = (\<lambda>_. \<lparr>ip_port = 0, ip_net = 0, ip_host = 0\<rparr>), he_uv = (\<lambda>_. demo_client)\<rparr>"

definition net_addr_hm_env :: "(ipv4, int) hm_env" where
  "net_addr_hm_env = \<lparr>he_bits = 16, he_hdr = 20,
     he_hash = (\<lambda>a. net_addr_hm_kvs_hash (ipv4_net_addr a)),
     he_eq = (\<lambda>a b. net_addr_hm_kvs_keys_equal (ipv4_net_addr a) (ipv4_net_addr b)),
     he_min = 128, he_pct = 70, he_ok = True, he_kok = True,
     he_uk = (\<lambda>_. \<lparr>ip_port = 0, ip_net = 0, ip_host = 0\<rparr>), he_uv = (\<lambda>_. 0)\<rparr>"

lemma hm_env_instances: "he_ok_inst server_client_hm_env" "he_ok_inst net_addr_hm_env"
proof -
  have "\<exists>k. (16 :: int) = 2 ^ k" "\<exists>k. (128 :: int) = 2 ^ k"
    by (rule exI [of _ 4], simp) (rule exI [of _ 7], simp)
  then show "he_ok_inst server_client_hm_env" "he_ok_inst net_addr_hm_env"
    by (simp_all add: he_ok_inst_def server_client_hm_env_def net_addr_hm_env_def ipv4_keys_equal)
qed

section \<open>A server and a world\<close>

definition demo_snakes :: snake_bmap_env where
  "demo_snakes = \<lparr>be_bits = 16, be_hdr = 8, be_vsz = 256, be_ok = True, be_kok = True,
     be_uk = (\<lambda>_. 0), be_uv = (\<lambda>_. the (snake_init demo_junk (make_qwposi 0 0) []))\<rparr>"

definition demo_server_env :: "ipv4 server_env" where
  "demo_server_env = \<lparr>ve_clients = server_client_hm_env, ve_addrs = net_addr_hm_env, ve_snakes = demo_snakes,
     ve_prox = \<lparr>be_bits = 16, be_hdr = 8, be_vsz = 8, be_ok = True, be_kok = True,
       be_uk = (\<lambda>_. 0), be_uv = (\<lambda>_. proximity_state_init)\<rparr>,
     ve_junk = demo_junk, ve_byte = (\<lambda>_. 0), ve_msg = (\<lambda>_. demo_msg)\<rparr>"

definition demo_settings :: server_settings where
  "demo_settings = \<lparr>ss_max_players = 600, ss_client_timeout = 5, ss_malicious_timeout = 60,
     ss_max_username_len = 32, ss_sim_tick_rate = 60, ss_net_tick_rate = 20,
     ss_port = map of_char ''5555''\<rparr>"

definition demo_addr :: ipv4 where
  "demo_addr = \<lparr>ip_port = 5555, ip_net = 0x7F00, ip_host = 1\<rparr>"

lemma demo_env_simps [simp]:
  "ve_clients demo_server_env = server_client_hm_env" "ve_addrs demo_server_env = net_addr_hm_env"
  "ve_snakes demo_server_env = demo_snakes" "ve_junk demo_server_env = demo_junk"
  "ve_byte demo_server_env = (\<lambda>_. 0)"
  by (simp_all add: demo_server_env_def)

lemma demo_world_ok: "world_ok demo_snakes world_init" "bm_can_grow demo_snakes (wd_snakes world_init)"
  by (simp_all add: world_init_ok be_ok_inst_def be_sizes_ok_def demo_snakes_def) (simp add: world_init_def bm_init_def bm_can_grow_def)

lemma demo_server_ok:
  "sv_ok demo_server_env server_init" "registered server_init a = None"
  "hm_room server_client_hm_env (sv_clients server_init)" "hm_count (sv_clients server_init) = 0"
  by (simp_all add: sv_ok_def table_ok_def server_init_def hm_init_def hm_env_instances hm_room_def
      hm_must_grow_def hm_can_grow_def hm_next_cap_def)
     (simp_all add: server_client_hm_env_def)

lemma demo_next_id: "next_id world_init = 1" "world_find world_init k = None"
  using bm_find_map_of [of demo_snakes "wd_snakes world_init"]
  by (simp_all add: world_init_def bm_init_def bm_count_def world_find_def)

end
