(* ===== verification/Server_Clients.thy ===== *)
theory Server_Clients
  imports Server_Rules Msg_Frames
begin

text \<open>
  Joining, leaving and misbehaving: what a datagram does to the tables of the server.
\<close>

section \<open>Joining\<close>

text \<open>The slot that emplacing hands out, whatever is then written to it.\<close>

lemma world_spawn_free:
  assumes "world_ok E w" "world_find w (next_id w) = None" "bm_can_grow E (wd_snakes w)"
  shows "\<exists>w' s. world_spawn_snake E J w name = Some (next_id w, w') \<and> world_ok E w' \<and>
      snake_init J (make_qwposi 0 0) name = Some s \<and> world_find w' = (world_find w)(next_id w \<mapsto> s)"
proof -
  obtain s where s: "snake_init J (make_qwposi 0 0) name = Some s"
    using snake_data_init_ok [of J "make_qwposi 0 0" name] by (auto simp: snake_init_def)
  then show ?thesis
    using world_spawn_spec [OF assms(1) s] assms(2,3) by auto
qed

text \<open>The client that a request to join creates, with the answer in its queue.\<close>

definition joined_client ::
  "'a server_env \<Rightarrow> server_settings \<Rightarrow> 16 word \<Rightarrow> 16 word \<Rightarrow> 16 word \<Rightarrow> qwpos \<Rightarrow> server_client" where
  "joined_client E S client_frame frame_number snake_id pos =
     \<lparr>sc_pending = snd (vec_push 16 True (ve_msg E) vec_init
        (msg_join_accept (ve_byte E) (ss_sim_tick_rate S) (ss_net_tick_rate S) client_frame frame_number snake_id pos)),
      sc_prox = bm_init, sc_timeout = 0,
      sc_cbf = replicate CBF_WINDOW_SIZE (uint (ss_sim_tick_rate S) div uint (ss_net_tick_rate S)),
      sc_snake_id = snake_id, sc_last_frame = frame_number, sc_freed = False\<rparr>"

lemma joined_client_simps [simp]:
  "sc_freed (joined_client E S cf f i pos) = False" "sc_snake_id (joined_client E S cf f i pos) = i"
  by (simp_all add: joined_client_def)

lemma process_join_rule:
  assumes "sv_ok E sv" "world_ok (ve_snakes E) w" "registered sv addr = None"
    and "hm_count (sv_clients sv) + 1 \<le> uint (ss_max_players S)" "username_len \<le> ss_max_username_len S"
    and "ss_net_tick_rate S \<noteq> 0" "hm_room (ve_clients E) (sv_clients sv)"
    and "world_find w (next_id w) = None" "bm_can_grow (ve_snakes E) (wd_snakes w)"
  shows "\<exists>sv' w' s. process_join E S None addr username username_len client_frame frame_number (sv, w) = Some (sv', w') \<and>
      sv_ok E sv' \<and> world_ok (ve_snakes E) w' \<and> snake_init (ve_junk E) (make_qwposi 0 0) username = Some s \<and>
      world_find w' = (world_find w)(next_id w \<mapsto> snake_set_hold s) \<and>
      registered sv' = (registered sv)(addr \<mapsto>
        joined_client E S client_frame frame_number (next_id w) (make_qwposi 0 0)) \<and>
      sv_malicious sv' = sv_malicious sv \<and> sv_banned sv' = sv_banned sv \<and> sv_sent sv' = sv_sent sv"
proof -
  have t: "hmp_ok (ve_clients E) (sv_clients sv)" "he_ok_inst (ve_clients E)"
    using assms(1) by (simp_all add: sv_ok_def table_ok_def)
  obtain slot n where n: "hm_emplace_new (ve_clients E) (sv_clients sv) addr = Some (Some (int slot), Some n)"
    "slot < length (hm_vals n)"
    "\<And>v. hm_ok (ve_clients E) (hm_kvs_set_value (int slot) v n) \<and> hm_unused (hm_kvs_set_value (int slot) v n) \<noteq> {} \<and>
      hm_abs (hm_kvs_set_value (int slot) v n) = (registered sv)(addr \<mapsto> v) \<and>
      hm_used (hm_kvs_set_value (int slot) v n) slot \<and> hm_keys n ! slot = addr"
    using hm_emplace_new_slot [OF t assms(7,3)] by blast
  obtain w1 s where w1: "world_spawn_snake (ve_snakes E) (ve_junk E) w username = Some (next_id w, w1)"
    "world_ok (ve_snakes E) w1" "snake_init (ve_junk E) (make_qwposi 0 0) username = Some s"
    "world_find w1 = (world_find w)(next_id w \<mapsto> s)"
    using world_spawn_free [OF assms(2,8,9)] by blast
  have f1: "world_find w1 (next_id w) = Some s"
    using w1(4) by simp
  have pos: "sh_pos (sn_head s) = make_qwposi 0 0"
    using w1(3) by (auto simp: snake_init_def snake_head_init_def split: option.splits)
  let ?w = "world_store (next_id w) (snake_set_hold s) w1"
  have ws: "world_ok (ve_snakes E) ?w" "world_find ?w = (world_find w1)(next_id w \<mapsto> snake_set_hold s)"
    using world_store_spec [OF w1(2), of "next_id w"] f1 by auto
  let ?c = "joined_client E S client_frame frame_number (next_id w) (make_qwposi 0 0)"
  let ?sv = "sv\<lparr>sv_clients := Some (hm_kvs_set_value (int slot) ?c n)\<rparr>"
  have g: "granularity S = Some (uint (ss_sim_tick_rate S) div uint (ss_net_tick_rate S))"
    using assms(6) by (simp add: granularity_def)
  have full: "\<not> uint (ss_max_players S) < hm_count (sv_clients sv) + 1" "\<not> ss_max_username_len S < username_len"
    using assms(4,5) by simp_all
  have "process_join E S None addr username username_len client_frame frame_number (sv, w) = Some (?sv, ?w)"
    using n(1,2) w1(1) f1 g full ws(2) pos
    by (simp add: process_join_def create_client_def send_accept_def client_at_def client_set_def
        hm_kvs_get_value_def joined_client_def server_queue_def client_dangling_def snake_set_hold_def)
      (simp add: hm_kvs_set_value_def)
  moreover have "sv_ok E ?sv" "registered ?sv = (registered sv)(addr \<mapsto> ?c)"
    using assms(1) n(3) [of ?c] by (simp_all add: sv_ok_def table_ok_def hmp_ok_def hmp_abs_def)
  moreover have "world_find ?w = (world_find w)(next_id w \<mapsto> snake_set_hold s)"
    unfolding ws(2) w1(4) by simp
  ultimately show ?thesis
    using ws(1) w1(3) by (intro exI [of _ ?sv] exI [of _ ?w] exI [of _ s]) simp
qed

section \<open>Datagrams\<close>

text \<open>The messages of a datagram, one after the other.\<close>

fun process_all ::
  "'a server_env \<Rightarrow> server_settings \<Rightarrow> int option \<Rightarrow> 'a \<Rightarrow> 16 word \<Rightarrow> msg list \<Rightarrow> 'a server \<times> world \<Rightarrow>
   ('a server \<times> world) option" where
  "process_all E S client addr frame_number [] st = Some st"
| "process_all E S client addr frame_number (m # ms) st =
     (if client = None \<and> m_type m \<noteq> MSG_JOIN_REQUEST then Some st
      else case process_message E S client addr (msg_code (m_type m)) (m_payload m) (m_payload_len m)
             frame_number st of
          None \<Rightarrow> None
        | Some st \<Rightarrow> process_all E S client addr frame_number ms st)"

lemma parse_commands_len:
  "msg_parse_payload t d len = Inr p \<Longrightarrow> msg_type_of t = Some MSG_COMMANDS \<Longrightarrow> 6 \<le> unat len"
proof -
  assume "msg_parse_payload t d len = Inr p" "msg_type_of t = Some MSG_COMMANDS"
  then have "6 \<le> int (unat len)"
    by (auto simp: msg_parse_payload_def Let_def split: if_splits)
  then show ?thesis by linarith
qed

lemma process_message_bounds:
  assumes "take (unat len) d = take (unat len) d'"
  shows "process_message E S client addr t d len f st = process_message E S client addr t d' len f st"
proof -
  have cmds: "process_commands E S slot addr d len f st = process_commands E S slot addr d' len f st"
    if "6 \<le> unat len" for slot
    unfolding process_commands_def msg_commands_unpack_cong [OF that assms] ..
  show ?thesis
    unfolding process_message_def msg_parse_payload_bounds [OF assms]
    using cmds parse_commands_len [of t d' len]
    by (auto split: sum.splits option.splits msg_type.splits parsed_payload.splits)
qed

lemma unpack_frames:
  assumes "list_all msg_wf ms"
  shows "unpack_packet E S client addr (pre @ concat (map msg_frame ms)) f (length pre) st =
    process_all E S client addr f ms st"
  using assms
proof (induction ms arbitrary: pre st)
  case Nil
  then show ?case
    by (simp add: unpack_packet.simps)
next
  case (Cons m ms)
  let ?buf = "pre @ concat (map msg_frame (m # ms))"
  have wf: "msg_wf m" "list_all msg_wf ms"
    using Cons.prems by simp_all
  have b: "?buf = pre @ msg_frame m @ concat (map msg_frame ms)"
    by simp
  note fr = frame_at [OF wf(1) b refl]
  have pm: "process_message E S client addr (msg_code (m_type m)) (drop (length pre + 2) ?buf) (m_payload_len m) f st =
      process_message E S client addr (msg_code (m_type m)) (m_payload m) (m_payload_len m) f st" for st
    by (rule process_message_bounds [OF fr(5)])
  have nx: "unpack_packet E S client addr ?buf f (length pre + unat (m_payload_len m) + 2) st =
      process_all E S client addr f ms st" for st
    using Cons.IH [OF wf(2), of "pre @ msg_frame m"] length_msg_frame [OF wf(1)] by (simp add: add.assoc)
  show ?case
    unfolding unpack_packet.simps [of E S client addr ?buf f "length pre" st] Let_def fr(1,2) pm nx
    using fr(3,4) by (auto split: option.split)
qed

lemma unpack_packed:
  assumes "packed ctx ms" "list_all msg_wf ms"
  shows "unpack_packet E S client addr (take (nat (pc_len ctx)) (pc_buf ctx)) f 0 st = process_all E S client addr f ms st"
proof -
  have "take (nat (pc_len ctx)) (pc_buf ctx) = concat (map msg_frame ms)"
    using assms(1) unfolding packed_def by (elim conjE)
  then show ?thesis
    using unpack_frames [OF assms(2), of E S client addr "[]"] by simp
qed

section \<open>Crashes\<close>

lemma client_remove_null: "client_remove E addr None st = None"
  by (simp add: client_remove_def split: prod.split)

lemma mark_null: "mark_client_as_malicious_and_drop E addr None t st = None"
  by (auto simp: mark_client_as_malicious_and_drop_def client_remove_null split: prod.split option.split)

lemma client_remove_keeps_id:
  assumes "client_remove E addr (Some slot) (sv, w) = Some (sv', w')" "client_at sv (Some slot) = Some c"
    and "0 \<le> slot" "\<And>m. sv_clients sv = Some m \<Longrightarrow> nat slot < length (hm_vals m)"
  shows "client_at sv' (Some slot) = Some (c\<lparr>sc_freed := True\<rparr>) \<and> w' = world_remove_snake w (sc_snake_id c)"
  using assms
  by (auto simp: client_remove_def client_at_def client_set_def Let_def hm_kvs_get_value_def hm_kvs_set_value_def
      split: option.splits if_splits prod.splits dest!: hm_erase_vals)

lemma commands_after_removal:
  assumes "client_at sv (Some slot) = Some c" "world_find w (sc_snake_id c) = None"
  shows "process_commands E S slot addr d len f (sv, w) = None"
  using assms by (simp add: process_commands_def)

lemma emplace_registered:
  assumes "table_ok E p" "hmp_abs p key \<noteq> None"
  shows "hm_emplace_new E p key \<noteq> Some (Some slot, q)"
proof -
  have e: "hmp_ok E p" "he_ok_inst E" "hm_live p" "\<And>a b. he_eq E a b \<longleftrightarrow> a = b"
    using assms(1) by (simp_all add: table_ok_def he_ok_inst_def)
  show ?thesis
  proof (cases "hm_must_grow E p")
    case True
    show ?thesis
    proof (cases "hm_can_grow E p")
      case True
      then have "hm_room E p"
        using \<open>hm_must_grow E p\<close> by (simp add: hm_room_def)
      from hm_emplace_exists [OF e(1,2) this assms(2)] show ?thesis by auto
    next
      case False
      then show ?thesis
        using \<open>hm_must_grow E p\<close> hm_grow_full [OF e(1,2) False] by (simp add: hm_emplace_new_def)
    qed
  next
    case False
    then obtain m where m: "p = Some m"
      by (cases p) (auto simp: hm_must_grow_def)
    then have ok: "hm_ok E m" "hm_unused m \<noteq> {}"
      using e by (simp_all add: hmp_ok_def)
    show ?thesis
      using ok(1) e(4) ok(2)
    proof (cases rule: hm_find_slot_cases [where key = key, case_names found free])
      case (found s)
      then show ?thesis
        using False m by (simp add: hm_emplace_new_def Let_def)
    next
      case (free s)
      then have "hm_abs m key = None"
        using hm_abs_None [OF ok(1)] by blast
      with assms(2) m show ?thesis by (simp add: hmp_abs_def)
    qed
  qed
qed

lemma create_client_registered:
  "table_ok (ve_clients E) (sv_clients sv) \<Longrightarrow> registered sv addr \<noteq> None \<Longrightarrow>
   create_client E S addr name f (sv, w) = None"
  using emplace_registered [of "ve_clients E" "sv_clients sv" addr]
  by (auto simp: create_client_def split: option.splits)

section \<open>A datagram as a whole\<close>

lemma find_pointer_absent:
  "table_ok E p \<Longrightarrow> hmp_abs p a = None \<Longrightarrow> hm_find_pointer E p a = Some None"
  by (rule iffD2 [OF find_pointer_None])

lemma recv_unknown:
  assumes "sv_ok E sv" "registered sv addr = None" "hmp_abs (sv_banned sv) addr = None"
    and "hmp_abs (sv_malicious sv) addr = None"
  shows "server_recv_packet E S f addr buf (sv, w) = unpack_packet E S None addr buf f 0 (sv, w)"
  using assms
  by (simp add: server_recv_packet_def sv_ok_def find_pointer_absent)

lemma recv_known:
  assumes "sv_ok E sv" "registered sv addr = Some c" "hmp_abs (sv_banned sv) addr = None"
    and "hmp_abs (sv_malicious sv) addr = None"
  obtains m s where "sv_clients sv = Some m" "hm_used m s" "hm_keys m ! s = addr" "hm_vals m ! s = c"
    "server_recv_packet E S f addr buf (sv, w) =
       unpack_packet E S (Some (int s)) addr buf f 0 (client_set (int s) (c\<lparr>sc_timeout := 0\<rparr>) sv, w)"
proof -
  obtain m s where m: "sv_clients sv = Some m" "hm_find_pointer (ve_clients E) (sv_clients sv) addr = Some (Some (int s))"
    "hm_used m s" "hm_keys m ! s = addr" "hm_vals m ! s = c"
    using find_pointer_Some [of "ve_clients E" "sv_clients sv" addr c] assms(1,2) unfolding sv_ok_def by blast
  have "client_at sv (Some (int s)) = Some c"
    using m by (simp add: client_at_def hm_kvs_get_value_def)
  then have "server_recv_packet E S f addr buf (sv, w) =
      unpack_packet E S (Some (int s)) addr buf f 0 (client_set (int s) (c\<lparr>sc_timeout := 0\<rparr>) sv, w)"
    using assms m(2) by (simp add: server_recv_packet_def sv_ok_def find_pointer_absent)
  with m that show thesis by blast
qed

lemma one_frame:
  assumes "msg_wf m"
  shows "unpack_packet E S client addr (msg_frame m) f 0 st = process_all E S client addr f [m] st"
  using unpack_frames [of "[m]" E S client addr "[]" f st] assms by simp

lemma slot_updated:
  assumes "sv_ok E sv" "sv_clients sv = Some m" "hm_used m s"
  shows "sv_ok E (client_set (int s) c sv)" "hm_used (hm_kvs_set_value (int s) c m) s"
    "sv_clients (client_set (int s) c sv) = Some (hm_kvs_set_value (int s) c m)"
    "hm_keys (hm_kvs_set_value (int s) c m) ! s = hm_keys m ! s"
    "hm_vals (hm_kvs_set_value (int s) c m) ! s = c"
proof -
  have "s < length (hm_vals m)"
    using assms hm_used_less [of "ve_clients E" m s]
    by (simp add: sv_ok_def table_ok_def hmp_ok_def hm_ok_def hm_shape_def)
  then show "hm_keys (hm_kvs_set_value (int s) c m) ! s = hm_keys m ! s"
    "hm_vals (hm_kvs_set_value (int s) c m) ! s = c"
    by (simp_all add: hm_kvs_set_value_def)
  show "sv_ok E (client_set (int s) c sv)"
    using registered_set [OF assms] by blast
  show "hm_used (hm_kvs_set_value (int s) c m) s" "sv_clients (client_set (int s) c sv) = Some (hm_kvs_set_value (int s) c m)"
    using assms by (simp_all add: hm_used_def hm_kvs_set_value_def client_set_def)
qed

lemma recv_join:
  assumes "sv_ok E sv" "world_ok (ve_snakes E) w"
    and "registered sv addr = None" "hmp_abs (sv_banned sv) addr = None" "hmp_abs (sv_malicious sv) addr = None"
    and "hm_count (sv_clients sv) + 1 \<le> uint (ss_max_players S)" "ss_net_tick_rate S \<noteq> 0"
    and "hm_room (ve_clients E) (sv_clients sv)"
    and "world_find w (next_id w) = None" "bm_can_grow (ve_snakes E) (wd_snakes w)"
    and "msg_join_request u protocol client_frame name = Some m" "0 \<notin> set name" "name \<noteq> []"
    and "length name \<le> unat (ss_max_username_len S)" "length name \<le> 249"
  shows "\<exists>sv' w' s. server_recv_packet E S f addr (msg_frame m) (sv, w) = Some (sv', w') \<and>
    sv_ok E sv' \<and> world_ok (ve_snakes E) w' \<and>
    snake_init (ve_junk E) (make_qwposi 0 0) name = Some s \<and>
    world_find w' = (world_find w)(next_id w \<mapsto> snake_set_hold s) \<and>
    registered sv' = (registered sv)(addr \<mapsto>
      joined_client E S client_frame f (next_id w) (make_qwposi 0 0)) \<and> sv_sent sv' = sv_sent sv"
proof -
  have m: "msg_parse m = Inr (P_join_request name protocol client_frame (word_of_nat (length name)))"
    using msg_join_request_parse [OF assms(12,13,15), of u protocol client_frame] assms(11) by simp
  have t: "m_type m = MSG_JOIN_REQUEST"
    using assms(11) by (auto simp: msg_join_request_def Let_def split: if_splits)
  have len: "(word_of_nat (length name) :: 8 word) \<le> ss_max_username_len S"
    using assms(14,15) by (simp add: word_le_nat_alt unat_byte)
  have "process_message E S None addr (msg_code (m_type m)) (m_payload m) (m_payload_len m) f (sv, w) =
      process_join E S None addr name (word_of_nat (length name)) client_frame f (sv, w)"
    using m t by (simp add: process_message_def msg_parse_def)
  then show ?thesis
    using process_join_rule [OF assms(1-3,6) len assms(7-10), of name client_frame f] t
      msg_wf_join_request [OF assms(11)]
    by (auto simp: recv_unknown [OF assms(1,3-5)] one_frame)
qed

end
