(* ===== verification/Server_Laws.thy ===== *)
theory Server_Laws
  imports Net_Tables Server_Clients
begin

text \<open>
  The correctness statements about the server, its world and the datagrams, each followed by
  an example on the tables of the code.
\<close>

section \<open>Receiving\<close>

text \<open>
  Claim C7. A join request registers the address it comes from: the next snake is in the world, at
  the origin, held and under the name of the request, the client is in the table with an empty
  command statistic and one queued message, the join accept that carries the frame of the request
  back with the server's frame, the tick rates and the id and place of the snake; no other client
  or snake changes and nothing is sent yet. This holds when the address is neither registered nor
  banned nor malicious, the table of clients is not full and the network tick rate is not 0, the
  name has 1 to 249 bytes without a 0 and no more than the server allows, both maps can grow, and
  the id that the server computes for the snake is free. The code computes it from the number of
  snakes, so after a snake was removed it may be the id of another one: that case is left out here.
\<close>

theorem join_registers_client:
  assumes "sv_ok E sv" "world_ok (ve_snakes E) w"
    and "registered sv addr = None" "hmp_abs (sv_banned sv) addr = None" "hmp_abs (sv_malicious sv) addr = None"
    and "hm_count (sv_clients sv) + 1 \<le> uint (ss_max_players S)" "ss_net_tick_rate S \<noteq> 0"
    and "hm_room (ve_clients E) (sv_clients sv)"
    and "world_find w (next_id w) = None" "bm_can_grow (ve_snakes E) (wd_snakes w)"
    and "msg_join_request u protocol client_frame name = Some m" "0 \<notin> set name" "name \<noteq> []"
    and "length name \<le> unat (ss_max_username_len S)" "length name \<le> 249"
  shows "\<exists>sv' w' s. server_recv_packet E S f addr (msg_frame m) (sv, w) = Some (sv', w') \<and>
    sv_ok E sv' \<and> world_ok (ve_snakes E) w' \<and>
    snake_init (ve_junk E) (make_qwposi 0 0) name = Some s \<and>
    world_find w' = (world_find w)(next_id w \<mapsto> snake_set_hold s) \<and>
    registered sv' = (registered sv)(addr \<mapsto>
      joined_client E S client_frame f (next_id w) (make_qwposi 0 0)) \<and> sv_sent sv' = sv_sent sv"
  by (rule recv_join [OF assms])

text \<open>A server with one client, for the examples.\<close>

definition demo_joined :: "ipv4 server \<times> world" where
  "demo_joined = the (process_join demo_server_env demo_settings None demo_addr [65, 66] 2 7 100
     (server_init, world_init))"

lemma demo_joined_ok:
  obtains sv w s where "demo_joined = (sv, w)" "sv_ok demo_server_env sv" "world_ok demo_snakes w"
    "registered sv = [demo_addr \<mapsto> joined_client demo_server_env demo_settings 7 100 1 (make_qwposi 0 0)]"
    "sv_malicious sv = None" "sv_banned sv = None" "sv_sent sv = []"
    "world_find w = [1 \<mapsto> snake_set_hold s]" "snake_init demo_junk (make_qwposi 0 0) [65, 66] = Some s"
proof -
  have "hm_count (sv_clients (server_init :: ipv4 server)) + 1 \<le> uint (ss_max_players demo_settings)"
    "(2 :: 8 word) \<le> ss_max_username_len demo_settings" "ss_net_tick_rate demo_settings \<noteq> 0"
    by (simp_all add: demo_server_ok(4) demo_settings_def)
  note process_join_rule [OF demo_server_ok(1) _ demo_server_ok(2) this, where username = "[65, 66]" and w = world_init
      and addr = demo_addr and client_frame = 7 and frame_number = 100]
  moreover have "world_find world_init = Map.empty"
    by (rule ext) (rule demo_next_id)
  ultimately show thesis
    using demo_world_ok demo_server_ok demo_next_id that
    by (auto simp: demo_joined_def server_init_def hm_init_def)
qed

theorem join_registers_client_witness:
  "\<exists>m sv' w'. msg_join_request (\<lambda>_. 0) 0 7 [65, 66] = Some m \<and>
     server_recv_packet demo_server_env demo_settings 100 demo_addr (msg_frame m) (server_init, world_init) =
       Some (sv', w') \<and>
     registered sv' demo_addr = Some (joined_client demo_server_env demo_settings 7 100 1 (make_qwposi 0 0)) \<and>
     world_find w' 1 \<noteq> None"
proof -
  obtain m where m: "msg_join_request (\<lambda>_. 0) 0 7 [65, 66] = Some m"
    using msg_join_request_parse [of "[65, 66]" "\<lambda>_. 0" 0 7] by auto
  have "unat (32 :: 8 word) = 32" by simp
  then show ?thesis
    using join_registers_client [of demo_server_env server_init world_init demo_addr demo_settings, OF _ _ _ _ _ _ _ _ _ _ m]
      demo_server_ok demo_world_ok demo_next_id m
    by (fastforce simp: demo_settings_def server_init_def hm_init_def)
qed

text \<open>
  Claim C13. A datagram of at least two bytes from an unknown address whose first length byte
  points past its end makes the server dereference a null pointer: the sender is put on the list of
  malicious addresses and then removed as a client that it never was.
\<close>

theorem malformed_datagram_crashes:
  assumes "sv_ok E sv" "registered sv addr = None" "hmp_abs (sv_banned sv) addr = None"
    and "hmp_abs (sv_malicious sv) addr = None"
    and "2 \<le> length buf" "length buf < 2 + unat (buf ! 1)"
  shows "server_recv_packet E S f addr buf (sv, w) = None"
  unfolding recv_unknown [OF assms(1-4)] unpack_packet.simps [of E S None addr buf f 0]
  using assms(5,6) by (simp add: Let_def mark_null)

theorem malformed_datagram_crashes_witness:
  "server_recv_packet demo_server_env demo_settings 0 demo_addr [0, 1] (server_init, world_init) = None"
  by (rule malformed_datagram_crashes) (use demo_server_ok in \<open>simp_all add: server_init_def hm_init_def\<close>)

text \<open>
  Claim C12. A datagram from a registered client in which the message that it leaves is followed by
  commands makes the server use the client after it was freed: the snake of the commands is gone
  and the null pointer that the lookup returns is dereferenced.
\<close>

theorem leave_then_commands_crashes:
  assumes "sv_ok E sv" "world_ok (ve_snakes E) w" "registered sv addr = Some c" "\<not> sc_freed c"
    and "hmp_abs (sv_banned sv) addr = None" "hmp_abs (sv_malicious sv) addr = None"
    and "msg_wf m" "m_type m = MSG_COMMANDS" "msg_parse m = Inr p"
  shows "server_recv_packet E S f addr (msg_frame (msg_leave u) @ msg_frame m) (sv, w) = None"
proof -
  obtain t s where t: "sv_clients sv = Some t" "hm_used t s" "hm_keys t ! s = addr" "hm_vals t ! s = c"
    "server_recv_packet E S f addr (msg_frame (msg_leave u) @ msg_frame m) (sv, w) =
       unpack_packet E S (Some (int s)) addr (msg_frame (msg_leave u) @ msg_frame m) f 0
         (client_set (int s) (c\<lparr>sc_timeout := 0\<rparr>) sv, w)"
    by (rule recv_known [OF assms(1,3,5,6)])
  let ?c = "c\<lparr>sc_timeout := 0\<rparr>"
  let ?sv = "client_set (int s) ?c sv"
  let ?w = "world_remove_snake w (sc_snake_id c)"
  note ok = slot_updated [OF assms(1) t(1,2), of ?c]
  from client_remove_rule [OF ok(1) assms(2) ok(3,2) ok(5)] assms(4) ok(4) t(3)
  obtain sv' where r: "client_remove E addr (Some (int s)) (?sv, w) = Some (sv', ?w)"
    "client_at sv' (Some (int s)) = Some (?c\<lparr>sc_freed := True\<rparr>)"
    by auto
  have "world_find ?w (sc_snake_id (?c\<lparr>sc_freed := True\<rparr>)) = None"
    using world_remove_spec(2) [OF assms(2)] by simp
  note dead = commands_after_removal [OF r(2) this]
  have "msg_parse (msg_leave u) = Inr P_none"
    by (simp add: msg_parse_def msg_parse_payload_def msg_leave_def)
  then have leave: "process_message E S (Some (int s)) addr (msg_code (m_type (msg_leave u))) (m_payload (msg_leave u))
      (m_payload_len (msg_leave u)) f (?sv, w) = Some (sv', ?w)"
    using r(1) by (simp add: process_message_def msg_parse_def msg_leave_def)
  have "process_message E S (Some (int s)) addr (msg_code (m_type m)) (m_payload m) (m_payload_len m) f (sv', ?w) = None"
    using dead assms(8,9) by (cases p) (simp_all add: process_message_def msg_parse_def)
  with leave have "process_all E S (Some (int s)) addr f [msg_leave u, m] (?sv, w) = None"
    by simp
  then show ?thesis
    using t(5) unpack_frames [of "[msg_leave u, m]" E S "Some (int s)" addr "[]" f "(?sv, w)"] assms(7) by simp
qed

theorem leave_then_commands_crashes_witness:
  "server_recv_packet demo_server_env demo_settings 100 demo_addr
     (msg_frame (msg_leave (\<lambda>_. 0)) @ msg_frame (msg_commands_one (\<lambda>_. 0) [cmd_default] 100)) demo_joined = None"
proof (rule demo_joined_ok)
  fix sv w s
  assume d: "demo_joined = (sv, w)" "sv_ok demo_server_env sv" "world_ok demo_snakes w"
    "registered sv = [demo_addr \<mapsto> joined_client demo_server_env demo_settings 7 100 1 (make_qwposi 0 0)]"
    "sv_malicious sv = None" "sv_banned sv = None"
  let ?m = "msg_commands_one (\<lambda>_. 0) [cmd_default] 100"
  have m: "m_type ?m = MSG_COMMANDS" "msg_parse ?m = Inr (P_command 100)"
    by code_simp+
  have w: "world_ok (ve_snakes demo_server_env) w" and wf: "msg_wf ?m"
    and b: "hmp_abs (sv_banned sv) demo_addr = None" "hmp_abs (sv_malicious sv) demo_addr = None"
    using d by simp_all
  show ?thesis
    unfolding d(1)
    by (rule leave_then_commands_crashes [OF d(2) w _ _ b wf m]) (use d(4) in auto)
qed

section \<open>Sending\<close>

text \<open>
  Claim C10. Sending the pending data always returns, whatever is queued for the clients, the
  clients that are given up included, and every datagram that it hands to the socket is at most 508
  bytes long and is a sequence of whole messages, each with its type, its length and its payload.
\<close>

theorem send_pending_datagrams:
  assumes "sv_ok E sv" "world_ok (ve_snakes E) w" "clients_ok sv" "sv_sent sv = []"
  shows "\<exists>sv' w'. server_send_pending_data E (sv, w) = Some (sv', w') \<and> sv_ok E sv' \<and>
    world_ok (ve_snakes E) w' \<and> clients_ok sv' \<and> (\<forall>(a, b) \<in> set (sv_sent sv'). datagram_ok b)"
  using server_send_ok [OF assms] .

theorem send_pending_datagrams_witness:
  "\<exists>sv' w'. server_send_pending_data demo_server_env demo_joined = Some (sv', w') \<and>
     (\<forall>(a, b) \<in> set (sv_sent sv'). datagram_ok b)"
proof (rule demo_joined_ok)
  fix sv w s
  assume d: "demo_joined = (sv, w)" "sv_ok demo_server_env sv" "world_ok demo_snakes w"
    "registered sv = [demo_addr \<mapsto> joined_client demo_server_env demo_settings 7 100 1 (make_qwposi 0 0)]"
    "sv_sent sv = []"
  have "clients_ok sv"
    using d(4) by (auto simp: clients_ok_def queue_ok_def joined_client_def intro!: pending_push)
  then show ?thesis
    using send_pending_datagrams [of demo_server_env sv w] d by auto
qed

text \<open>
  Claim C11. A reliable message that is due every \<open>p\<close> packets is in the first packet with room and
  in each \<open>p\<close>th one after it, nine in all, and when it is due for the tenth time it is not sent but
  gives the client up: no message is queued for ever, and none is given up before it was sent nine
  times. The counter starts at 10, which the comment beside it calls the number of retries; it
  allows eight of them after the first sending.
\<close>

theorem resend_budget:
  assumes "0 < p" "p < 256"
  shows "resends u n (msg_alloc v type p sz) =
    (if n < 1 + 9 * nat p then Some (if n = 0 then 0 else 1 + (n - 1) div nat p) else None)"
proof -
  have p: "unat (m_resend_period (msg_alloc v type p sz)) = nat p"
    using assms by (simp add: unat_eq_nat_uint uint_word_of_int)
  have c: "unat (m_period_counter (msg_alloc v type p sz)) = Suc 0"
    "unat (m_retry_counter (msg_alloc v type p sz)) = Suc 9"
    by (simp_all add: msg_alloc_def Let_def)
  show ?thesis
    using resends_count [OF p _ c(1) _ c(2), of u n] assms(1) by (auto simp: Suc_leI)
qed

theorem resend_budget_witness:
  "resends (\<lambda>_. 0) 10 (msg_snake_destroy (\<lambda>_. 0) 1) = Some 1 \<and>
   resends (\<lambda>_. 0) 10 (msg_alloc (\<lambda>_. 0) MSG_SNAKE_DESTROY 10 2) = Some 1 \<and>
   resends (\<lambda>_. 0) 91 (msg_alloc (\<lambda>_. 0) MSG_SNAKE_DESTROY 10 2) = None"
proof -
  have "resends (\<lambda>_. 0) 10 (msg_snake_destroy (\<lambda>_. 0) 1) = Some 1"
    by code_simp
  then show ?thesis
    using resend_budget [of 10 "\<lambda>_. 0" 10 "\<lambda>_. 0" MSG_SNAKE_DESTROY 2]
      resend_budget [of 10 "\<lambda>_. 0" 91 "\<lambda>_. 0" MSG_SNAKE_DESTROY 2] by simp
qed

section \<open>Feedback\<close>







section \<open>The world\<close>

text \<open>
  A snake is spawned under the id that is one more than the number of snakes. If that
  id is in use, which happens after a snake with a smaller id was removed, or if the map cannot
  grow, the world is unchanged and the id is returned all the same, so the caller shares the
  snake of another client or finds none; otherwise the new snake is added at the origin and
  every other snake stays.
\<close>

lemma spawned_snake_id:
  assumes "world_ok E w" "snake_init J (make_qwposi 0 0) name = Some s"
  shows "if world_find w (next_id w) \<noteq> None \<or> \<not> bm_can_grow E (wd_snakes w)
    then world_spawn_snake E J w name = Some (next_id w, w)
    else \<exists>w'. world_spawn_snake E J w name = Some (next_id w, w') \<and> world_ok E w' \<and>
      world_find w' = (world_find w)(next_id w \<mapsto> s)"
  by (rule world_spawn_spec [OF assms])

text \<open>
  Claim C8. In a world whose snakes have curves that are well formed, of fewer than 16384 points,
  parameters in range, and an exact square root, a frame of the server moves every snake that is
  not held by the command that is due for it, or by the predicted one, exactly as \<open>snake_step\<close>
  does, and leaves the held ones; no snake comes, goes or changes its id, and every curve stays
  well formed and ends at the head. It fails only when the curve of one of the moved snakes has 63
  segments and needs another one, or when the sampled points of its extended curve do not fit into
  memory.
\<close>

theorem sim_world_keeps_curves:
  assumes "world_ok E w" "\<And>k s. world_find w k = Some s \<Longrightarrow> snake_ready s" "libm_sqrt_ok L"
  shows "case sim_world L J rate f w of
      None \<Rightarrow> \<exists>k s. world_find w k = Some s \<and> step_fails L J rate f s
    | Some w' \<Rightarrow> world_ok E w' \<and>
        (\<forall>k. world_find w' k = Option.bind (world_find w k) (sim_snake L J rate f)) \<and>
        (\<forall>k s. world_find w k = Some s \<longrightarrow> (\<exists>s'. world_find w' k = Some s' \<and>
           curve_ok (sn_data s') (sh_pos (sn_head s')) \<and> sn_head s' = head_moved L rate f s))"
  by (rule sim_world_rule [OF assms])

lemma new_snake_ready:
  "snake_init J p name = Some s \<Longrightarrow> snake_ready s \<and> snake_ready (snake_set_hold s)"
  using snake_data_init_ok [of J p name] snake_param_init_ok
  by (auto simp: snake_init_def snake_ready_def snake_set_hold_def snake_head_init_def curve_room_def)

theorem sim_world_keeps_curves_witness:
  "case sim_world demo_libm demo_junk 60 100 (snd demo_joined) of
      None \<Rightarrow> \<exists>k s. world_find (snd demo_joined) k = Some s \<and> step_fails demo_libm demo_junk 60 100 s
    | Some w' \<Rightarrow> world_ok demo_snakes w' \<and>
        (\<forall>k. world_find w' k = Option.bind (world_find (snd demo_joined) k) (sim_snake demo_libm demo_junk 60 100)) \<and>
        (\<forall>k s. world_find (snd demo_joined) k = Some s \<longrightarrow> (\<exists>s'. world_find w' k = Some s' \<and>
           curve_ok (sn_data s') (sh_pos (sn_head s')) \<and> sn_head s' = head_moved demo_libm 60 100 s))"
proof (rule demo_joined_ok)
  fix sv w s
  assume d: "demo_joined = (sv, w)" "world_ok demo_snakes w" "world_find w = [1 \<mapsto> snake_set_hold s]"
    "snake_init demo_junk (make_qwposi 0 0) [65, 66] = Some s"
  have "snake_ready t" if "world_find w k = Some t" for k t
    using that d(3) new_snake_ready [OF d(4)] by (auto split: if_splits)
  then show ?thesis
    unfolding d(1) snd_conv by (rule sim_world_keeps_curves [OF d(2) _ demo_libm_ok(1)])
qed

end
