(* ===== verification/Client.thy ===== *)
theory Client
  imports World Packet MsgCommands
begin

text \<open>
  The client (src/client.c, include/clither/client.h): connecting, sending its pending
  messages over the first socket that works, and what it does with the messages of the
  server. A network call is a function of the socket: \<open>connect_to\<close> is \<open>net_connect\<close> with the
  sockets it pushes, \<open>send_ok\<close> whether \<open>net_send\<close> succeeds, and \<open>receive\<close> is the length that
  \<open>net_recv\<close> returns and the bytes. \<open>None\<close> is a crash.
\<close>

datatype client_state = CLIENT_DISCONNECTED | CLIENT_JOINING | CLIENT_CONNECTED

record client_recv_result =
  cr_error :: bool
  cr_disconnected :: bool
  cr_tick_rate_changed :: bool

definition client_recv_ok :: client_recv_result where
  "client_recv_ok = \<lparr>cr_error = False, cr_disconnected = False, cr_tick_rate_changed = False\<rparr>"

definition client_recv_error :: client_recv_result where
  "client_recv_error = client_recv_ok\<lparr>cr_error := True\<rparr>"

definition client_recv_disconnected :: client_recv_result where
  "client_recv_disconnected = client_recv_ok\<lparr>cr_disconnected := True\<rparr>"

definition client_recv_tick_rate_changed :: client_recv_result where
  "client_recv_tick_rate_changed = client_recv_ok\<lparr>cr_tick_rate_changed := True\<rparr>"

definition client_recv_result_combine :: "client_recv_result \<Rightarrow> client_recv_result \<Rightarrow> client_recv_result" where
  "client_recv_result_combine r1 r2 =
     \<lparr>cr_error = (cr_error r1 \<or> cr_error r2), cr_disconnected = (cr_disconnected r1 \<or> cr_disconnected r2),
      cr_tick_rate_changed = (cr_tick_rate_changed r1 \<or> cr_tick_rate_changed r2)\<rparr>"

record client =
  cl_username :: "8 word list"
  cl_pending :: "msg vec option"
  cl_sockets :: "int vec option"
  cl_timeout :: int
  cl_frame :: "16 word"
  cl_snake_id :: "16 word"
  cl_warp :: int
  cl_sim_tick_rate :: "8 word"
  cl_net_tick_rate :: "8 word"
  cl_state :: client_state

record client_env =
  ce_snakes :: snake_bmap_env
  ce_junk :: junk
  ce_byte :: "nat \<Rightarrow> 8 word"
  ce_msg :: "nat \<Rightarrow> msg"
  ce_libm :: libm

section \<open>Connecting\<close>

definition client_init :: client where
  "client_init = \<lparr>cl_username = [], cl_pending = vec_init, cl_sockets = vec_init, cl_timeout = 0,
     cl_frame = 0, cl_snake_id = 0, cl_warp = 0, cl_sim_tick_rate = 60, cl_net_tick_rate = 20,
     cl_state = CLIENT_DISCONNECTED\<rparr>"

definition client_queue :: "client_env \<Rightarrow> client \<Rightarrow> msg \<Rightarrow> client" where
  "client_queue E c m = c\<lparr>cl_pending := snd (vec_push 16 True (ce_msg E) (cl_pending c) m)\<rparr>"

definition NET_DEFAULT_ADDRESS :: "8 word list" where
  "NET_DEFAULT_ADDRESS = map of_char ''ws://127.0.0.1:8080''"

definition NET_DEFAULT_PORT :: "8 word list" where
  "NET_DEFAULT_PORT = map of_char ''5555''"

definition client_connect ::
  "client_env \<Rightarrow> (8 word list \<Rightarrow> 8 word list \<Rightarrow> int vec option \<Rightarrow> int \<times> int vec option) \<Rightarrow>
   client \<Rightarrow> 8 word list \<Rightarrow> 8 word list \<Rightarrow> 8 word list \<Rightarrow> (int \<times> client) option" where
  "client_connect E connect_to c server_address port username =
     (let server_address = (if server_address = [] then NET_DEFAULT_ADDRESS else server_address);
          port = (if port = [] then NET_DEFAULT_PORT else port);
          c = c\<lparr>cl_username := username\<rparr>
      in case connect_to server_address port (cl_sockets c) of (r, socks) \<Rightarrow>
           let c = c\<lparr>cl_sockets := socks\<rparr>
           in if r < 0 then Some (-1, c)
              else (case msg_join_request (ce_byte E) 0 (cl_frame c) username of None \<Rightarrow> None
                    | Some m \<Rightarrow> Some (0, (client_queue E c m)\<lparr>cl_state := CLIENT_JOINING\<rparr>)))"

text \<open>Disconnecting empties the queue and closes the sockets; the tick rates stay.\<close>

definition client_disconnect :: "client \<Rightarrow> client" where
  "client_disconnect c = c\<lparr>cl_username := [], cl_sockets := vec_clear (cl_sockets c),
     cl_pending := vec_clear (cl_pending c), cl_state := CLIENT_DISCONNECTED\<rparr>"

section \<open>Sending\<close>

text \<open>
  The sockets are tried from the last to the first, and one that fails is closed unless it
  is the only one.
\<close>

function try_sockets :: "(int \<Rightarrow> bool) \<Rightarrow> int vec \<Rightarrow> bool \<times> int vec" where
  "try_sockets works v =
     (if works (vec_last v) then (True, v)
      else if vec_cnt v \<le> 1 then (False, v)
      else try_sockets works (snd (vec_pop v)))"
  by pat_completeness auto
termination
  by (relation "measure (\<lambda>(f, v). nat (vec_cnt v))") (auto simp: vec_pop_def Let_def)

declare try_sockets.simps [simp del]

definition client_pack_pending ::
  "(nat \<Rightarrow> 8 word) \<Rightarrow> 16 word \<Rightarrow> msg vec option \<Rightarrow> int \<times> msg vec option \<times> pack_ctx" where
  "client_pack_pending u frame_number p =
     (case vec_retain client_append_unreliable_msgs_to_buf p (pack_start u) of (_, p, ctx) \<Rightarrow>
        vec_retain (client_append_reliable_msgs_to_buf frame_number) p ctx)"

text \<open>The result, what was sent, and the client.\<close>

definition client_send_pending_data ::
  "client_env \<Rightarrow> (int \<Rightarrow> bool) \<Rightarrow> client \<Rightarrow> (int \<times> 8 word list \<times> client) option" where
  "client_send_pending_data E send_ok c =
     (case client_pack_pending (ce_byte E) (cl_frame c) (cl_pending c) of (r, p, ctx) \<Rightarrow>
        let c = c\<lparr>cl_pending := p\<rparr>;
            late = (\<lambda>c. cl_timeout c > uint (cl_net_tick_rate c) * 3)
        in if r = -1 then Some (-1, [], c)
           else if pc_len ctx > 0 then
             (case cl_sockets c of None \<Rightarrow> None
              | Some socks \<Rightarrow>
                  if vec_cnt socks \<le> 0 then None
                  else (case try_sockets send_ok socks of (sent, socks) \<Rightarrow>
                    let c = c\<lparr>cl_sockets := Some socks\<rparr>
                    in if \<not> sent then Some (-1, [], c)
                       else
                         let c = c\<lparr>cl_timeout := i32 (cl_timeout c + 1)\<rparr>
                         in Some (if late c then -1 else 0, take (nat (pc_len ctx)) (pc_buf ctx), c)))
           else Some (if late c then -1 else 0, [], c))"

section \<open>Messages from the server\<close>

definition client_join_accept ::
  "client_env \<Rightarrow> qwpos \<Rightarrow> 16 word \<Rightarrow> 16 word \<Rightarrow> 16 word \<Rightarrow> 8 word \<Rightarrow> 8 word \<Rightarrow> client \<times> world \<Rightarrow>
   (client_recv_result \<times> client \<times> world) option" where
  "client_join_accept E spawn snake_id client_frame server_frame sim_tick_rate net_tick_rate st =
     (case st of (c, w) \<Rightarrow>
        if cl_state c \<noteq> CLIENT_JOINING then Some (client_recv_ok, c, w)
        else
          let c = c\<lparr>cl_pending := msg_vec_remove_type (cl_pending c) MSG_JOIN_REQUEST\<rparr>;
              rtt = cl_frame c - client_frame
          in if uint rtt > uint (cl_net_tick_rate c) * 5
             then Some (client_recv_disconnected, client_disconnect c, w)
             else if cl_net_tick_rate c = 0 then None
             else
               let c = c\<lparr>cl_frame := server_frame + rtt\<rparr>;
                   c = c\<lparr>cl_frame := cl_frame c +
                         word_of_int (5 * uint (cl_sim_tick_rate c) div uint (cl_net_tick_rate c))\<rparr>;
                   c = c\<lparr>cl_snake_id := snake_id\<rparr>
               in (case world_create_snake (ce_snakes E) (ce_junk E) w snake_id spawn (cl_username c) of
                     None \<Rightarrow> None
                   | Some (created, w) \<Rightarrow>
                       if \<not> created then Some (client_recv_error, c, w)
                       else Some (client_recv_tick_rate_changed,
                         c\<lparr>cl_sim_tick_rate := sim_tick_rate, cl_net_tick_rate := net_tick_rate,
                           cl_state := CLIENT_CONNECTED\<rparr>, w)))"

definition client_snake_head ::
  "client_env \<Rightarrow> snake_head \<Rightarrow> 16 word \<Rightarrow> client \<times> world \<Rightarrow> (client_recv_result \<times> client \<times> world) option" where
  "client_snake_head E head frame_number st =
     (case st of (c, w) \<Rightarrow>
        case world_find w (cl_snake_id c) of None \<Rightarrow> None
        | Some s \<Rightarrow>
            (case snake_ack_frame (ce_libm E) (ce_junk E) (sn_data s) (sn_head_ack s) (sn_head s) head
                    (sn_param s) (sn_cmdq s) frame_number (cl_sim_tick_rate c) of
               None \<Rightarrow> None
             | Some (data, ack, pred, q) \<Rightarrow>
                 Some (client_recv_ok, c, world_store (cl_snake_id c)
                   (s\<lparr>sn_data := data, sn_head_ack := ack, sn_head := pred, sn_cmdq := q\<rparr>) w)))"

definition client_process_message ::
  "client_env \<Rightarrow> 8 word \<Rightarrow> 8 word list \<Rightarrow> 8 word \<Rightarrow> client \<times> world \<Rightarrow>
   (client_recv_result \<times> client \<times> world) option" where
  "client_process_message E type msg_data msg_len st =
     (case st of (c, w) \<Rightarrow>
        case (msg_parse_payload type msg_data msg_len, msg_type_of type) of
          (Inr (P_join_accept spawn snake_id client_frame server_frame sim net), Some MSG_JOIN_ACCEPT) \<Rightarrow>
            client_join_accept E spawn snake_id client_frame server_frame sim net (c, w)
        | (Inr (P_join_deny err), Some _) \<Rightarrow>
            Some (client_recv_disconnected, client_disconnect c, w)
        | (Inr (P_feedback f diff), Some MSG_FEEDBACK) \<Rightarrow>
            Some (client_recv_ok, if cl_warp c = 0 then c\<lparr>cl_warp := i16 (diff * 10)\<rparr> else c, w)
        | (Inr (P_snake_head head f), Some MSG_SNAKE_HEAD) \<Rightarrow> client_snake_head E head f (c, w)
        | (Inr (P_snake_bezier pos snake_id angle idx lb lf), Some MSG_SNAKE_BEZIER) \<Rightarrow>
            (case world_find w snake_id of
               Some s \<Rightarrow> Some (client_recv_ok, c, w)
             | None \<Rightarrow>
                 (case world_create_snake (ce_snakes E) (ce_junk E) w snake_id (make_qwposi 0 0) [] of
                    None \<Rightarrow> None
                  | Some (created, w) \<Rightarrow>
                      Some (if created then client_recv_ok else client_recv_error, c, w)))
        | _ \<Rightarrow> Some (client_recv_ok, c, w))"

function client_unpack_packet ::
  "client_env \<Rightarrow> 8 word list \<Rightarrow> nat \<Rightarrow> client_recv_result \<Rightarrow> client \<times> world \<Rightarrow>
   (client_recv_result \<times> client \<times> world) option" where
  "client_unpack_packet E packet i result st =
     (if int i < int (length packet) - 1 then
        let type = packet ! i;
            msg_len = packet ! (i + 1)
        in if i + 2 + unat msg_len > length packet then Some (result, st)
           else (case client_process_message E type (drop (i + 2) packet) msg_len st of
               None \<Rightarrow> None
             | Some (r, st) \<Rightarrow>
                 let result = client_recv_result_combine result r
                 in if cr_error result \<or> cr_disconnected result then Some (result, st)
                    else client_unpack_packet E packet (i + unat msg_len + 2) result st)
      else Some (result, st))"
  by pat_completeness auto
termination
  by (relation "measure (\<lambda>(E, packet, i, r, st). length packet - i)") auto

declare client_unpack_packet.simps [simp del]

text \<open>A socket works for receiving when the length is not negative.\<close>

definition client_recv ::
  "client_env \<Rightarrow> (int \<Rightarrow> int \<times> 8 word list) \<Rightarrow> client \<times> world \<Rightarrow> (client_recv_result \<times> client \<times> world) option" where
  "client_recv E receive st =
     (case st of (c, w) \<Rightarrow>
        case cl_sockets c of None \<Rightarrow> None
        | Some socks \<Rightarrow>
            if vec_cnt socks \<le> 0 then None
            else (case try_sockets (\<lambda>s. fst (receive s) \<ge> 0) socks of (ok, socks) \<Rightarrow>
              let c = c\<lparr>cl_sockets := Some socks\<rparr>;
                  packet = snd (receive (vec_last socks))
              in if \<not> ok then Some (client_recv_error, c, w)
                 else if fst (receive (vec_last socks)) = 0 then Some (client_recv_ok, c, w)
                 else client_unpack_packet E packet 0 client_recv_ok (c\<lparr>cl_timeout := 0\<rparr>, w)))"

section \<open>A frame of the client\<close>

text \<open>The own snake is moved by the new command, which is queued for the server.\<close>

definition client_sim ::
  "client_env \<Rightarrow> cmd \<Rightarrow> bool \<Rightarrow> client \<times> world \<Rightarrow> (client \<times> world) option" where
  "client_sim E command net_update st =
     (case st of (c, w) \<Rightarrow>
        case world_find w (cl_snake_id c) of None \<Rightarrow> None
        | Some s \<Rightarrow>
            let q = cmd_queue_put True (j_cmd (ce_junk E)) (sn_cmdq s) command (cl_frame c)
            in (case snake_step (ce_libm E) (ce_junk E) (sn_data s) (sn_head s) (sn_param s) command
                       (cl_sim_tick_rate c) of
                  None \<Rightarrow> None
                | Some (stale, data, head) \<Rightarrow>
                    (case snake_remove_stale_segments_with_rollback_constraint data (sn_head_ack s) stale of
                       None \<Rightarrow> None
                     | Some data \<Rightarrow>
                         let w = world_store (cl_snake_id c) (s\<lparr>sn_cmdq := q, sn_data := data, sn_head := head\<rparr>) w;
                             w = world_step w (cl_frame c) (cl_sim_tick_rate c)
                         in Some (if net_update
                              then c\<lparr>cl_pending := msg_commands True (ce_msg E) (ce_byte E) (cl_pending c) q\<rparr>
                              else c, w))))"

text \<open>
  A round of the loop in \<open>client_run\<close> without the drawing and the waiting: whether the
  client stops, what it sent, and its state.
\<close>

definition client_warp_step :: "client \<Rightarrow> client" where
  "client_warp_step c =
     (let c = (if cl_warp c > 0 then c\<lparr>cl_warp := cl_warp c - 1\<rparr> else c)
      in if cl_warp c < 0 then c\<lparr>cl_warp := cl_warp c + 1\<rparr> else c)"

definition client_frame ::
  "client_env \<Rightarrow> (int \<Rightarrow> bool) \<Rightarrow> (int \<Rightarrow> int \<times> 8 word list) \<Rightarrow> cmd \<Rightarrow> bool \<Rightarrow> client \<times> world \<Rightarrow>
   (bool \<times> 8 word list \<times> client \<times> world) option" where
  "client_frame E send_ok receive command net_update st =
     (case (if net_update \<and> cl_state (fst st) \<noteq> CLIENT_DISCONNECTED then client_recv E receive st
            else Some (client_recv_ok, st)) of
        None \<Rightarrow> None
      | Some (result, st) \<Rightarrow>
          if cr_error result then Some (True, [], st)
          else
            (case (if cl_state (fst st) = CLIENT_CONNECTED then client_sim E command net_update st else Some st) of
               None \<Rightarrow> None
             | Some (c, w) \<Rightarrow>
                 (case (if net_update \<and> cl_state c \<noteq> CLIENT_DISCONNECTED
                        then client_send_pending_data E send_ok c else Some (0, [], c)) of
                    None \<Rightarrow> None
                  | Some (r, sent, c) \<Rightarrow>
                      if r < 0 then Some (True, sent, c, w)
                      else
                        let c = client_warp_step c
                        in Some (False, sent, c\<lparr>cl_frame := cl_frame c + 1\<rparr>, w))))"

end
