(* ===== verification/Client_Rules.thy ===== *)
theory Client_Rules
  imports Client Msg_Frames Snake_Ack
begin

text \<open>
  What the operations of the client do: the choice of a socket, taking a datagram apart,
  and the invariant that a connected client has its snake.
\<close>

section \<open>Sockets\<close>

lemma try_sockets_spec:
  assumes "vec_ok bits v" "0 < vec_cnt v"
  shows "case try_sockets works v of (ok, v') \<Rightarrow>
    vec_ok bits v' \<and> vec_list v' \<noteq> [] \<and>
    (\<exists>closed. vec_list v = vec_list v' @ closed \<and> (\<forall>s \<in> set closed. \<not> works s)) \<and>
    (ok \<longleftrightarrow> (\<exists>s \<in> set (vec_list v). works s)) \<and> (ok \<longrightarrow> works (last (vec_list v')))"
  using assms
proof (induction works v rule: try_sockets.induct)
  case (1 works v)
  have ne: "vec_list v \<noteq> []"
    using length_vec_list [OF "1.prems"(1)] "1.prems"(2) by auto
  note la = vec_last_list [OF "1.prems"(1) ne]
  show ?case
  proof (cases "works (vec_last v)")
    case True
    then show ?thesis
      using "1.prems" ne la by (auto simp: try_sockets.simps [of works v])
  next
    case f: False
    show ?thesis
    proof (cases "vec_cnt v \<le> 1")
      case True
      then have "length (vec_list v) = 1"
        using length_vec_list [OF "1.prems"(1)] "1.prems"(2) by linarith
      then obtain x where "vec_list v = [x]"
        by (metis One_nat_def Suc_length_conv length_0_conv)
      then show ?thesis
        using f True "1.prems" la by (simp add: try_sockets.simps [of works v])
    next
      case False
      let ?w = "snd (vec_pop v)"
      have w: "vec_ok bits ?w" "vec_list ?w = butlast (vec_list v)" "vec_cnt ?w = vec_cnt v - 1"
        using vec_pop_list [OF "1.prems"(1) ne] by (auto simp: vec_pop_def Let_def)
      have split: "vec_list v = butlast (vec_list v) @ [vec_last v]"
        using la ne by simp
      have "0 < vec_cnt ?w"
        using w(3) False by simp
      from "1.IH" [OF f False w(1) this]
      obtain ok v' closed where r: "try_sockets works ?w = (ok, v')" "vec_ok bits v'" "vec_list v' \<noteq> []"
        "butlast (vec_list v) = vec_list v' @ closed" "\<forall>s \<in> set closed. \<not> works s"
        "ok \<longleftrightarrow> (\<exists>s \<in> set (butlast (vec_list v)). works s)" "ok \<longrightarrow> works (last (vec_list v'))"
        using w(2) by (auto split: prod.splits)
      have "try_sockets works v = (ok, v')"
        using r(1) f False by (simp add: try_sockets.simps [of works v])
      moreover have "vec_list v = vec_list v' @ (closed @ [vec_last v])"
        using split r(4) by simp
      moreover have "ok \<longleftrightarrow> (\<exists>s \<in> set (vec_list v). works s)"
        using r(6) f by (subst split) auto
      ultimately show ?thesis
        using r f by auto
    qed
  qed
qed

section \<open>Datagrams\<close>

text \<open>The messages of a datagram, one after the other, until one ends the connection.\<close>

fun client_process_all ::
  "client_env \<Rightarrow> msg list \<Rightarrow> client_recv_result \<Rightarrow> client \<times> world \<Rightarrow>
   (client_recv_result \<times> client \<times> world) option" where
  "client_process_all E [] result st = Some (result, st)"
| "client_process_all E (m # ms) result st =
     (case client_process_message E (msg_code (m_type m)) (m_payload m) (m_payload_len m) st of
        None \<Rightarrow> None
      | Some (r, st) \<Rightarrow>
          let result = client_recv_result_combine result r
          in if cr_error result \<or> cr_disconnected result then Some (result, st)
             else client_process_all E ms result st)"

lemma client_process_message_bounds:
  assumes "take (unat len) d = take (unat len) d'"
  shows "client_process_message E t d len st = client_process_message E t d' len st"
  unfolding client_process_message_def msg_parse_payload_bounds [OF assms] ..

lemma client_unpack_frames:
  assumes "list_all msg_wf ms"
  shows "client_unpack_packet E (pre @ concat (map msg_frame ms)) (length pre) result st =
    client_process_all E ms result st"
  using assms
proof (induction ms arbitrary: pre result st)
  case Nil
  then show ?case
    by (simp add: client_unpack_packet.simps)
next
  case (Cons m ms)
  let ?buf = "pre @ concat (map msg_frame (m # ms))"
  have wf: "msg_wf m" "list_all msg_wf ms"
    using Cons.prems by simp_all
  have b: "?buf = pre @ msg_frame m @ concat (map msg_frame ms)"
    by simp
  note fr = frame_at [OF wf(1) b refl]
  have pm: "client_process_message E (msg_code (m_type m)) (drop (length pre + 2) ?buf) (m_payload_len m) st =
      client_process_message E (msg_code (m_type m)) (m_payload m) (m_payload_len m) st" for st
    by (rule client_process_message_bounds [OF fr(5)])
  have nx: "client_unpack_packet E ?buf (length pre + unat (m_payload_len m) + 2) result st =
      client_process_all E ms result st" for result st
    using Cons.IH [OF wf(2), of "pre @ msg_frame m"] length_msg_frame [OF wf(1)] by (simp add: add.assoc)
  show ?case
    unfolding client_unpack_packet.simps [of E ?buf "length pre" result st] Let_def fr(1,2) pm nx
    using fr(3,4) by (auto split: option.split simp: Let_def)
qed

section \<open>The invariant\<close>

definition client_ok :: "client_env \<Rightarrow> client \<times> world \<Rightarrow> bool" where
  "client_ok E st \<longleftrightarrow> (case st of (c, w) \<Rightarrow>
     world_ok (ce_snakes E) w \<and> pending_ok (cl_pending c) \<and> vecp_ok 8 (cl_sockets c) \<and>
     (cl_state c = CLIENT_CONNECTED \<longrightarrow> world_find w (cl_snake_id c) \<noteq> None))"

lemma snake_init_total: "\<exists>s. snake_init J pos name = Some s"
  using snake_data_init_ok [of J pos name] by (auto simp: snake_init_def)

lemma world_create_keeps:
  assumes "world_ok E w" "world_create_snake E J w k pos name = Some (created, w')"
  shows "world_ok E w' \<and> (\<forall>j. world_find w j \<noteq> None \<longrightarrow> world_find w' j \<noteq> None) \<and>
    (created \<longrightarrow> world_find w' k \<noteq> None)"
proof -
  obtain s where "snake_init J pos name = Some s"
    using snake_init_total by blast
  from world_create_spec [OF assms(1) this, of k] show ?thesis
    using assms by (auto split: if_splits)
qed

lemma vec_clear_ok: "vecp_ok bits p \<Longrightarrow> vecp_ok bits (vec_clear p)"
  by (auto simp: vec_clear_def vec_ok_def split: option.splits)

lemma client_disconnect_ok: "client_ok E (c, w) \<Longrightarrow> client_ok E (client_disconnect c, w)"
  by (simp add: client_ok_def client_disconnect_def pending_clear vec_clear_ok)

lemma client_join_accept_ok:
  assumes "client_ok E st" "client_join_accept E spawn i cf sf sim net st = Some (r, st')"
  shows "client_ok E st'"
proof -
  obtain c w where st: "st = (c, w)" by (cases st)
  let ?c = "c\<lparr>cl_pending := msg_vec_remove_type (cl_pending c) MSG_JOIN_REQUEST\<rparr>"
  have ok: "client_ok E (?c, w)"
    using assms(1) st by (simp add: client_ok_def pending_remove_type)
  have cr: "world_ok (ce_snakes E) w' \<and> (created \<longrightarrow> world_find w' i \<noteq> None)"
    if "world_create_snake (ce_snakes E) (ce_junk E) w i spawn (cl_username c) = Some (created, w')" for created w'
    using world_create_keeps [OF _ that] assms(1) st by (simp add: client_ok_def)
  show ?thesis
    using assms st client_disconnect_ok [OF ok] cr ok
    by (auto simp: client_join_accept_def client_ok_def Let_def split: if_splits option.splits)
qed

lemma world_store_keeps:
  assumes "world_ok E w" "world_find w k \<noteq> None"
  shows "world_ok E (world_store k s w) \<and> (\<forall>j. world_find w j \<noteq> None \<longrightarrow> world_find (world_store k s w) j \<noteq> None)"
  using world_store_spec [OF assms] by auto

lemma client_process_message_ok:
  assumes "client_ok E st" "client_process_message E t d len st = Some (r, st')"
  shows "client_ok E st'"
proof -
  obtain c w where st: "st = (c, w)" by (cases st)
  have head: "client_ok E st'" if "client_snake_head E h f (c, w) = Some (r, st')" for h f
    using that assms(1) st world_store_keeps [of "ce_snakes E" w "cl_snake_id c"]
    by (auto simp: client_snake_head_def client_ok_def split: option.splits prod.splits)
  have bez: "client_ok E (c, w')"
    if "world_create_snake (ce_snakes E) (ce_junk E) w i pos name = Some (created, w')" for i pos name created w'
    using world_create_keeps [OF _ that] assms(1) st by (auto simp: client_ok_def)
  have warp: "client_ok E (c\<lparr>cl_warp := x\<rparr>, w)" for x
    using assms(1) st by (simp add: client_ok_def)
  show ?thesis
    using assms(2) st assms(1) client_join_accept_ok [OF assms(1)] head bez warp client_disconnect_ok
    by (auto simp: client_process_message_def
        split: sum.splits option.splits parsed_payload.splits msg_type.splits if_splits)
qed

text \<open>What every message keeps, a datagram keeps, and receiving one does.\<close>

lemma client_unpack_invariant:
  assumes "\<And>result t d len st r st'. I result st \<Longrightarrow> client_process_message E t d len st = Some (r, st') \<Longrightarrow>
      I (client_recv_result_combine result r) st'"
    and "I result st" "client_unpack_packet E packet i result st = Some (r, st')"
  shows "I r st'"
  using assms
proof (induction E packet i result st arbitrary: r st' rule: client_unpack_packet.induct)
  case (1 E packet i result st)
  show ?case
  proof (cases "int i < int (length packet) - 1 \<and> \<not> i + 2 + unat (packet ! (i + 1)) > length packet")
    case False
    then show ?thesis
      using "1.prems"(2,3) by (auto simp: client_unpack_packet.simps [of E packet i] Let_def split: if_splits)
  next
    case in_packet: True
    obtain q st1 where p: "client_process_message E (packet ! i) (drop (i + 2) packet) (packet ! (i + 1)) st = Some (q, st1)"
      using "1.prems"(3) in_packet
      by (auto simp: client_unpack_packet.simps [of E packet i] Let_def split: option.splits)
    let ?r = "client_recv_result_combine result q"
    have ok: "I ?r st1"
      by (rule "1.prems"(1) [OF "1.prems"(2) p])
    show ?thesis
    proof (cases "cr_error ?r \<or> cr_disconnected ?r")
      case True
      then show ?thesis
        using "1.prems"(3) p ok in_packet by (auto simp: client_unpack_packet.simps [of E packet i] Let_def)
    next
      case False
      then have "client_unpack_packet E packet (i + unat (packet ! (i + 1)) + 2) ?r st1 = Some (r, st')"
        using "1.prems"(3) p in_packet by (simp add: client_unpack_packet.simps [of E packet i] Let_def)
      then show ?thesis
        using "1.IH" [OF _ refl refl _ p refl refl False "1.prems"(1) ok] in_packet by simp
    qed
  qed
qed

lemma client_recv_invariant:
  assumes "\<And>result t d len st r st'. I result st \<Longrightarrow> client_process_message E t d len st = Some (r, st') \<Longrightarrow>
      I (client_recv_result_combine result r) st'"
    and "\<And>v x. vec_ok 8 v \<Longrightarrow> I client_recv_ok (c\<lparr>cl_sockets := Some v, cl_timeout := x\<rparr>, w)"
    and "\<And>st. I client_recv_ok st \<Longrightarrow> I client_recv_error st"
    and "vecp_ok 8 (cl_sockets c)" "client_recv E receive (c, w) = Some (r, st')"
  shows "I r st'"
proof -
  obtain v where v: "cl_sockets c = Some v" "0 < vec_cnt v" "vec_ok 8 v"
    using assms(4,5) by (auto simp: client_recv_def split: option.splits if_splits)
  obtain ok v' where t: "try_sockets (\<lambda>s. fst (receive s) \<ge> 0) v = (ok, v')"
    by fastforce
  have v': "vec_ok 8 v'"
    using try_sockets_spec [OF v(3,2), of "\<lambda>s. fst (receive s) \<ge> 0"] t by simp
  have same: "c\<lparr>cl_sockets := Some v'\<rparr> = c\<lparr>cl_sockets := Some v', cl_timeout := cl_timeout c\<rparr>"
    by simp
  have I: "I client_recv_ok (c\<lparr>cl_sockets := Some v', cl_timeout := 0\<rparr>, w)" "I client_recv_ok (c\<lparr>cl_sockets := Some v'\<rparr>, w)"
    by (rule assms(2) [OF v'], subst same, rule assms(2) [OF v'])
  show ?thesis
    using assms(5) v t I assms(3) [OF I(2)] client_unpack_invariant [of I E, OF assms(1) I(1)]
    by (auto simp: client_recv_def Let_def split: if_splits)
qed

lemma client_recv_ok_state:
  assumes "client_ok E st" "client_recv E receive st = Some (r, st')"
  shows "client_ok E st'"
proof -
  obtain c w where st: "st = (c, w)" by (cases st)
  have "client_ok E (c\<lparr>cl_sockets := Some v, cl_timeout := x\<rparr>, w)" "vecp_ok 8 (cl_sockets c)" if "vec_ok 8 v" for v x
    using assms(1) st that by (simp_all add: client_ok_def)
  moreover have "vecp_ok 8 (cl_sockets c)"
    using assms(1) st by (simp add: client_ok_def)
  ultimately show ?thesis
    using client_recv_invariant [of "\<lambda>_. client_ok E" E c w receive r st'] assms(2) client_process_message_ok
    unfolding st by blast
qed

lemma client_send_keeps:
  assumes "client_ok E (c, w)" "client_send_pending_data E send_ok c = Some (r, sent, c')"
  shows "client_ok E (c', w) \<and> int (length sent) \<le> NET_MAX_UDP_PACKET_SIZE \<and>
    (sent \<noteq> [] \<longrightarrow> datagram_ok sent)"
proof -
  obtain q p ctx where p: "client_pack_pending (ce_byte E) (cl_frame c) (cl_pending c) = (q, p, ctx)"
    by (metis surj_pair)
  obtain r1 p1 ctx1 where 1: "vec_retain append_unreliable_msgs_to_buf (cl_pending c) (pack_start (ce_byte E)) = (r1, p1, ctx1)"
    "vec_retain (client_append_reliable_msgs_to_buf (cl_frame c)) p1 ctx1 = (q, p, ctx)"
    using p by (auto simp: client_pack_pending_def client_append_unreliable_same split: prod.splits)
  have pe: "pending_ok (cl_pending c)"
    using assms(1) by (simp add: client_ok_def)
  note d = pack_datagram [OF disjI2 [OF refl] pe 1]
  let ?c = "c\<lparr>cl_pending := p\<rparr>"
  have ok: "client_ok E (?c, w)"
    using assms(1) d by (simp add: client_ok_def)
  show ?thesis
  proof (cases "q = -1 \<or> pc_len ctx = 0")
    case True
    then have "c' = ?c" "sent = []"
      using assms(2) p by (auto simp: client_send_pending_data_def Let_def split: if_splits)
    then show ?thesis
      using ok by (simp add: NET_MAX_UDP_PACKET_SIZE_def)
  next
    case False
    then have len: "0 < pc_len ctx" "datagram_ok (take (nat (pc_len ctx)) (pc_buf ctx))"
      using d by auto
    obtain v where v: "cl_sockets c = Some v" "0 < vec_cnt v" "vec_ok 8 v"
      using assms p False len(1)
      by (auto simp: client_send_pending_data_def client_ok_def Let_def split: option.splits if_splits)
    obtain sk v' where t: "try_sockets send_ok v = (sk, v')"
      by fastforce
    have v': "vec_ok 8 v'"
      using try_sockets_spec [OF v(3,2), of send_ok] t by simp
    have ok2: "client_ok E (?c\<lparr>cl_sockets := Some v'\<rparr>, w)"
      "client_ok E (?c\<lparr>cl_sockets := Some v', cl_timeout := x\<rparr>, w)" for x
      using ok v' by (simp_all add: client_ok_def)
    have "client_ok E (c', w) \<and> (sent = [] \<or> sent = take (nat (pc_len ctx)) (pc_buf ctx))"
      using assms(2) p False len(1) v(1,2) t ok2
      by (simp add: client_send_pending_data_def Let_def split: if_splits) blast+
    moreover have "int (length (take (nat (pc_len ctx)) (pc_buf ctx))) \<le> NET_MAX_UDP_PACKET_SIZE"
      using len(2) unfolding datagram_ok_def by blast
    moreover have "int (length ([] :: 8 word list)) \<le> NET_MAX_UDP_PACKET_SIZE"
      by (simp add: NET_MAX_UDP_PACKET_SIZE_def)
    ultimately show ?thesis
      using len(2) by metis
  qed
qed

lemma client_sim_ok:
  assumes "client_ok E st" "client_sim E command nu st = Some st'"
  shows "client_ok E st'"
proof -
  obtain c w where st: "st = (c, w)" by (cases st)
  have ok: "client_ok E (c, world_store (cl_snake_id c) s w)"
    "client_ok E (c\<lparr>cl_pending := msg_commands True (ce_msg E) (ce_byte E) (cl_pending c) q\<rparr>, world_store (cl_snake_id c) s w)"
    if "world_find w (cl_snake_id c) \<noteq> None" for s q
    using assms(1) st world_store_keeps [OF _ that, of "ce_snakes E" s] that
    by (auto simp: client_ok_def pending_commands)
  show ?thesis
    using assms(2) st ok
    by (auto simp: client_sim_def world_step_def Let_def split: option.splits prod.splits)
qed

lemma client_frame_ok:
  assumes "client_ok E st" "client_frame E send_ok receive command nu st = Some (stop, sent, st')"
  shows "client_ok E st' \<and> int (length sent) \<le> NET_MAX_UDP_PACKET_SIZE \<and> (sent \<noteq> [] \<longrightarrow> datagram_ok sent)"
proof -
  have z: "(0::int) \<le> NET_MAX_UDP_PACKET_SIZE"
    by (simp add: NET_MAX_UDP_PACKET_SIZE_def)
  let ?recv = "if nu \<and> cl_state (fst st) \<noteq> CLIENT_DISCONNECTED then client_recv E receive st
      else Some (client_recv_ok, st)"
  have "?recv \<noteq> None"
  proof
    assume "?recv = None"
    with assms(2) show False by (simp add: client_frame_def)
  qed
  then obtain result st1 where r2: "?recv = Some (result, st1)"
    by (metis option.exhaust surj_pair)
  have "client_ok E st1"
    using r2 assms(1) client_recv_ok_state [OF assms(1)] by (auto split: if_splits)
  note r = this r2
  show ?thesis
  proof (cases "cr_error result")
    case True
    then show ?thesis
      using assms(2) r z by (simp add: client_frame_def)
  next
    case False
    obtain c w where s: "(if cl_state (fst st1) = CLIENT_CONNECTED then client_sim E command nu st1 else Some st1) = Some (c, w)"
      using assms(2) r(2) False by (auto simp: client_frame_def split: option.splits)
    have ok: "client_ok E (c, w)"
      using s r(1) client_sim_ok [OF r(1)] by (auto split: if_splits)
    obtain rr c' where d: "(if nu \<and> cl_state c \<noteq> CLIENT_DISCONNECTED
        then client_send_pending_data E send_ok c else Some (0, [], c)) = Some (rr, sent, c')"
      "st' = (c', w) \<or> st' = ((client_warp_step c')\<lparr>cl_frame := cl_frame (client_warp_step c') + 1\<rparr>, w)"
      using assms(2) r(2) False s by (auto simp: client_frame_def Let_def split: option.splits if_splits)
    have k: "client_ok E (c', w) \<and> int (length sent) \<le> NET_MAX_UDP_PACKET_SIZE \<and> (sent \<noteq> [] \<longrightarrow> datagram_ok sent)"
      using d(1) ok client_send_keeps [OF ok] z by (auto simp: datagram_ok_def split: if_splits)
    then have "client_ok E ((client_warp_step c')\<lparr>cl_frame := cl_frame (client_warp_step c') + 1\<rparr>, w)"
      by (auto simp: client_ok_def client_warp_step_def Let_def)
    with k d(2) show ?thesis by auto
  qed
qed

section \<open>Reachable states\<close>

text \<open>The sockets that connecting leaves, and the frames of the main loop, from the start.\<close>

inductive client_reaches :: "client_env \<Rightarrow> client \<times> world \<Rightarrow> bool" for E where
  start: "client_reaches E (client_init, world_init)"
| connect: "client_reaches E (c, w) \<Longrightarrow> cl_state c = CLIENT_DISCONNECTED \<Longrightarrow>
    client_connect E connect_to c a port name = Some (r, c') \<Longrightarrow> vecp_ok 8 (cl_sockets c') \<Longrightarrow>
    client_reaches E (c', w)"
| frame: "client_reaches E st \<Longrightarrow>
    client_frame E send_ok receive command nu st = Some (stop, sent, st') \<Longrightarrow> client_reaches E st'"

lemma client_connect_keeps:
  assumes "client_ok E (c, w)" "cl_state c = CLIENT_DISCONNECTED"
    and "client_connect E connect_to c a port name = Some (r, c')" "vecp_ok 8 (cl_sockets c')"
  shows "client_ok E (c', w)"
  using assms
  by (auto simp: client_connect_def client_queue_def client_ok_def Let_def dest: msg_wf_join_request
      split: prod.splits if_splits option.splits intro!: pending_push)

lemma client_reaches_ok:
  assumes "client_reaches E st" "world_ok (ce_snakes E) world_init"
  shows "client_ok E st"
  using assms(1)
proof induction
  case start
  then show ?case
    using assms(2) by (simp add: client_ok_def client_init_def vec_init_def)
next
  case connect
  then show ?case by (blast intro: client_connect_keeps)
next
  case frame
  then show ?case using client_frame_ok by blast
qed

end
