(* ===== verification/Packet_Fit.thy ===== *)
theory Packet_Fit
  imports Packet
begin

text \<open>
  What a datagram holds, exactly: the messages of the queue that fit, in order, each tried behind those
  that were taken before it.
\<close>

section \<open>The messages that fit\<close>

text \<open>The messages of a list that are taken when \<open>n\<close> bytes are in use.\<close>

fun fitting :: "nat \<Rightarrow> msg list \<Rightarrow> msg list" where
  "fitting n [] = []"
| "fitting n (m # ms) =
     (if n + length (msg_frame m) \<le> 508 then m # fitting (n + length (msg_frame m)) ms else fitting n ms)"

definition frames_size :: "msg list \<Rightarrow> nat" where
  "frames_size ms = length (concat (map msg_frame ms))"

lemma frames_size_append [simp]: "frames_size (xs @ ys) = frames_size xs + frames_size ys" "frames_size [] = 0"
    "frames_size (m # ms) = length (msg_frame m) + frames_size ms"
  by (simp_all add: frames_size_def)

lemma pack_full_fits:
  assumes "packed ctx fs" "msg_wf m"
  shows "pack_full m ctx \<longleftrightarrow> \<not> frames_size fs + length (msg_frame m) \<le> 508"
proof -
  have "uint (m_payload_len m) = int (unat (m_payload_len m))"
    by simp
  then have "pack_full m ctx \<longleftrightarrow> 508 < int (frames_size fs + length (msg_frame m))"
    using assms
    unfolding pack_full_def NET_MAX_UDP_PACKET_SIZE_def length_msg_frame [OF assms(2)] packed_def frames_size_def
    by linarith
  then show ?thesis by linarith
qed

lemma fitting_list_all: "list_all P ms \<Longrightarrow> list_all P (filter Q ms) \<and> list_all P (fitting n (filter Q ms))"
proof -
  have "set (fitting n xs) \<subseteq> set xs" for xs
    by (induction n xs rule: fitting.induct) auto
  then show "list_all P ms \<Longrightarrow> list_all P (filter Q ms) \<and> list_all P (fitting n (filter Q ms))"
    by (fastforce simp: list_all_iff)
qed

text \<open>A message is due when its counter runs out with the packet.\<close>

definition msg_due :: "msg \<Rightarrow> bool" where
  "msg_due m \<longleftrightarrow> msg_is_reliable m \<and> m_period_counter m = 1"

lemma unreliable_iff: "msg_is_unreliable m \<longleftrightarrow> \<not> msg_is_reliable m"
  by (simp add: msg_is_reliable_def msg_is_unreliable_def word_gt_0)

section \<open>What the callbacks take\<close>

lemma append_unreliable_fits:
  assumes "retain_list append_unreliable_msgs_to_buf ms ctx = (r, ms', ctx')" "packed ctx fs" "list_all msg_wf ms"
  shows "packed ctx' (fs @ fitting (frames_size fs) (filter msg_is_unreliable ms)) \<and>
    filter msg_is_reliable ms' = filter msg_is_reliable ms \<and>
    mset (filter msg_is_unreliable ms) =
      mset (filter msg_is_unreliable ms') + mset (fitting (frames_size fs) (filter msg_is_unreliable ms))"
  using assms
proof (induction ms arbitrary: ctx fs r ms' ctx')
  case (Cons m ms)
  have wf: "msg_wf m" "list_all msg_wf ms"
    using Cons.prems(3) by simp_all
  note full = pack_full_fits [OF Cons.prems(2) wf(1)]
  show ?case
  proof (cases "pack_full m ctx \<or> msg_is_reliable m")
    case True
    then have "append_unreliable_msgs_to_buf m ctx = (0, m, ctx)"
      by (auto simp: append_unreliable_msgs_to_buf_def VEC_RETAIN_def)
    then obtain ms1 where ms1: "retain_list append_unreliable_msgs_to_buf ms ctx = (r, ms1, ctx')" "ms' = m # ms1"
      using Cons.prems(1) by (cases "retain_list append_unreliable_msgs_to_buf ms ctx") auto
    show ?thesis
      using Cons.IH [OF ms1(1) Cons.prems(2) wf(2)] True full ms1(2) by (auto simp: unreliable_iff)
  next
    case False
    then have "retain_list append_unreliable_msgs_to_buf ms (pack_msg m ctx) = (r, ms', ctx')"
      using Cons.prems(1) by (simp add: append_unreliable_msgs_to_buf_def [of m ctx] VEC_ERASE_def)
    moreover have "packed (pack_msg m ctx) (fs @ [m])"
      using pack_msg_packed [OF Cons.prems(2)] False wf by simp
    ultimately show ?thesis
      using Cons.IH [of "pack_msg m ctx" r ms' ctx' "fs @ [m]"] False full wf(2) by (simp add: unreliable_iff)
  qed
qed simp

text \<open>What stays in the queue is the same message: only the counters of a repeated one may change.\<close>

definition msg_counted :: "msg \<Rightarrow> msg \<Rightarrow> bool" where
  "msg_counted m m' \<longleftrightarrow>
     (if msg_is_reliable m then \<exists>a b. m' = m\<lparr>m_period_counter := a, m_retry_counter := b\<rparr> else m' = m)"

lemma msg_counted_simps [simp]:
  "msg_counted m m"
  "msg_counted m (m\<lparr>m_period_counter := a\<rparr>) \<longleftrightarrow> msg_is_reliable m \<or> m\<lparr>m_period_counter := a\<rparr> = m"
  "msg_counted m (m\<lparr>m_period_counter := a, m_retry_counter := b\<rparr>) \<longleftrightarrow>
     msg_is_reliable m \<or> m\<lparr>m_period_counter := a, m_retry_counter := b\<rparr> = m"
proof -
  have "m = m\<lparr>m_period_counter := m_period_counter m, m_retry_counter := m_retry_counter m\<rparr>"
      "m\<lparr>m_period_counter := a\<rparr> = m\<lparr>m_period_counter := a, m_retry_counter := m_retry_counter m\<rparr>"
    by simp_all
  then show "msg_counted m m"
      "msg_counted m (m\<lparr>m_period_counter := a\<rparr>) \<longleftrightarrow> msg_is_reliable m \<or> m\<lparr>m_period_counter := a\<rparr> = m"
      "msg_counted m (m\<lparr>m_period_counter := a, m_retry_counter := b\<rparr>) \<longleftrightarrow>
     msg_is_reliable m \<or> m\<lparr>m_period_counter := a, m_retry_counter := b\<rparr> = m"
    unfolding msg_counted_def by (metis (no_types))+
qed

lemma msg_counted_reliable: "msg_counted m m' \<Longrightarrow> msg_is_reliable m' = msg_is_reliable m"
  by (auto simp: msg_counted_def msg_is_reliable_def split: if_splits)

lemma msg_counted_once: "msg_counted m m' \<Longrightarrow> \<not> msg_is_reliable m \<Longrightarrow> m' = m"
  by (simp add: msg_counted_def)

lemma counted_filters:
  "list_all2 msg_counted xs ys \<Longrightarrow>
    list_all2 msg_counted (filter msg_is_reliable xs) (filter msg_is_reliable ys) \<and>
    filter msg_is_unreliable ys = filter msg_is_unreliable xs \<and> length xs = length ys"
proof (induction rule: list_all2_induct)
  case (Cons m xs m' ys)
  then show ?case
    using msg_counted_reliable [of m m'] msg_counted_once [of m m']
    by (cases "msg_is_reliable m") (simp_all add: unreliable_iff)
qed simp

lemma append_reliable_due:
  "append_reliable_msgs_to_buf m ctx =
    (if pack_full m ctx \<or> msg_is_unreliable m then (0, m, ctx)
     else if msg_due m
     then let m' = m\<lparr>m_period_counter := m_resend_period m, m_retry_counter := m_retry_counter m - 1\<rparr>
       in if m_retry_counter m = 1 then (-1, m', ctx) else (0, m', pack_msg m ctx)
     else (0, m\<lparr>m_period_counter := m_period_counter m - 1\<rparr>, ctx))"
  by (auto simp: append_reliable_msgs_to_buf_def msg_due_def unreliable_iff VEC_RETAIN_def Let_def word_gt_0
      pack_msg_def msg_frame_def)

lemma append_reliable_fits:
  assumes "retain_list append_reliable_msgs_to_buf ms ctx = (r, ms', ctx')" "packed ctx fs" "list_all msg_wf ms"
    and "due = fitting (frames_size fs) (filter msg_due ms)"
  shows "r = (if \<exists>m \<in> set due. m_retry_counter m = 1 then -1 else 0) \<and>
    (r = 0 \<longrightarrow> packed ctx' (fs @ due)) \<and> list_all2 msg_counted ms ms'"
  using assms
proof (induction ms arbitrary: ctx fs r ms' ctx' due)
  case (Cons m ms)
  have wf: "msg_wf m" "list_all msg_wf ms"
    using Cons.prems(3) by simp_all
  note full = pack_full_fits [OF Cons.prems(2) wf(1)]
  have refl: "list_all2 msg_counted ms ms"
    by (simp add: list.rel_refl)
  show ?case
  proof (cases "\<not> pack_full m ctx \<and> msg_due m")
    case False
    define m1 where "m1 = fst (snd (append_reliable_msgs_to_buf m ctx))"
    then have m1: "append_reliable_msgs_to_buf m ctx = (0, m1, ctx)" "msg_counted m m1"
      using False by (auto simp: append_reliable_due msg_due_def unreliable_iff Let_def)
    obtain ms1 where ms1: "retain_list append_reliable_msgs_to_buf ms ctx = (r, ms1, ctx')" "ms' = m1 # ms1"
      using Cons.prems(1) m1(1) by (cases "retain_list append_reliable_msgs_to_buf ms ctx") auto
    have "due = fitting (frames_size fs) (filter msg_due ms)"
      using Cons.prems(4) False full by auto
    then show ?thesis
      using Cons.IH [OF ms1(1) Cons.prems(2) wf(2)] m1(2) ms1(2) by simp
  next
    case True
    then have u: "\<not> msg_is_unreliable m"
      by (simp add: msg_due_def unreliable_iff)
    define due' where "due' = fitting (frames_size (fs @ [m])) (filter msg_due ms)"
    have due: "due = m # due'"
      using Cons.prems(4) True full by (simp add: due'_def)
    show ?thesis
    proof (cases "m_retry_counter m = 1")
      case last: True
      then show ?thesis
        using Cons.prems(1) True u due refl by (auto simp: append_reliable_due msg_due_def Let_def)
    next
      case False
      then obtain m1 where m1: "append_reliable_msgs_to_buf m ctx = (0, m1, pack_msg m ctx)" "msg_counted m m1"
        using True u by (auto simp: append_reliable_due msg_due_def Let_def)
      obtain ms1 where ms1: "retain_list append_reliable_msgs_to_buf ms (pack_msg m ctx) = (r, ms1, ctx')" "ms' = m1 # ms1"
        using Cons.prems(1) m1(1) by (cases "retain_list append_reliable_msgs_to_buf ms (pack_msg m ctx)") auto
      have "packed (pack_msg m ctx) (fs @ [m])"
        using pack_msg_packed [OF Cons.prems(2)] True wf by simp
      then show ?thesis
        using Cons.IH [OF ms1(1) _ wf(2) due'_def] m1(2) ms1(2) due False by simp
    qed
  qed
qed simp

text \<open>Both callbacks, one after the other.\<close>

lemma queue_fits:
  assumes "vecp_ok 16 p" "list_all msg_wf (vecp_list p)"
    and "vec_retain append_unreliable_msgs_to_buf p (pack_start u) = (r1, p1, ctx1)"
    and "vec_retain append_reliable_msgs_to_buf p1 ctx1 = (r, p', ctx)"
    and "once = fitting 0 (filter msg_is_unreliable (vecp_list p))"
    and "due = fitting (frames_size once) (filter msg_due (vecp_list p))"
  shows "r = (if \<exists>m \<in> set due. m_retry_counter m = 1 then -1 else 0) \<and> (r = 0 \<longrightarrow> packed ctx (once @ due)) \<and>
    list_all2 msg_counted (filter msg_is_reliable (vecp_list p)) (filter msg_is_reliable (vecp_list p')) \<and>
    mset (filter msg_is_unreliable (vecp_list p)) = mset (filter msg_is_unreliable (vecp_list p')) + mset once \<and> vecp_ok 16 p'"
proof -
  note l1 = vec_retain_list [OF assms(1,3)]
  note l2 = vec_retain_list [OF conjunct1 [OF l1] assms(4)]
  have o: "packed ctx1 once" "filter msg_is_reliable (vecp_list p1) = filter msg_is_reliable (vecp_list p)"
    "mset (filter msg_is_unreliable (vecp_list p)) = mset (filter msg_is_unreliable (vecp_list p1)) + mset once"
    using append_unreliable_fits [OF conjunct2 [OF l1] pack_start_packed assms(2)] assms(5) by simp_all
  have wf1: "list_all msg_wf (vecp_list p1)"
    using append_unreliable_list [OF conjunct2 [OF l1] pack_start_packed assms(2)] by blast
  have "filter msg_due (vecp_list p1) = filter msg_due (filter msg_is_reliable (vecp_list p1))"
      "filter msg_due (vecp_list p) = filter msg_due (filter msg_is_reliable (vecp_list p))"
    by (auto simp: msg_due_def intro: filter_cong)
  then have d: "due = fitting (frames_size once) (filter msg_due (vecp_list p1))"
    using assms(6) o(2) by simp
  note again = append_reliable_fits [OF conjunct2 [OF l2] o(1) wf1 d]
  show ?thesis
    using again counted_filters [of "vecp_list p1" "vecp_list p'"] o(2,3) l2 by simp
qed

end
