(* ===== verification/Client_Laws.thy ===== *)
theory Client_Laws
  imports Client_Rules Server_Clients Net_Tables Packet_Fit
begin

text \<open>
  The correctness statements about the client, the delivery of messages between the two
  sides, and joining from the first datagram to the connected client.
\<close>

section \<open>Packing a single message\<close>

lemma write_frame_number:
  "write_bytes 2 [a, b] (write_bytes 0 (p # q # r # s # xs) pl) = write_bytes 0 (p # q # a # b # xs) pl"
  by (simp add: write_bytes_def)

lemma join_request_renewed:
  assumes "msg_join_request u protocol f name = Some m" "msg_join_request u protocol f' name = Some m'"
  shows "msg_frame (msg_update_frame_number m f') = msg_frame m'"
  using assms
  by (auto simp: msg_join_request_def msg_update_frame_number_def msg_frame_def msg_put_def Let_def
      write_frame_number split: if_splits)

lemma remove_type_list:
  assumes "pending_ok p"
  shows "vecp_list (msg_vec_remove_type p t) = filter (\<lambda>m. m_type m \<noteq> t) (vecp_list p)"
proof -
  let ?f = "\<lambda>m (u::unit). (if m_type m = t then 1 else 0 :: int, m, u)"
  obtain r q u where r: "vec_retain ?f p () = (r, q, u)"
    by (rule prod_cases3)
  have f: "retain_list ?f xs () = (0, filter (\<lambda>m. m_type m \<noteq> t) xs, ())" for xs
    by (induction xs) auto
  have "vecp_ok 16 p"
    using assms by (simp add: pending_ok_def)
  from conjunct2 [OF vec_retain_list [OF this r]]
  have "vecp_list q = filter (\<lambda>m. m_type m \<noteq> t) (vecp_list p)"
    unfolding f by simp
  then show ?thesis
    using r by (simp add: msg_vec_remove_type_def)
qed

lemma packed_single:
  "msg_wf m \<Longrightarrow> take (nat (pc_len (pack_msg m (pack_start u)))) (pc_buf (pack_msg m (pack_start u))) = msg_frame m"
  using pack_msg_packed [OF pack_start_packed pack_start_room, of m u]
  unfolding packed_def append_Nil list.map concat.simps append_Nil2 by blast

lemma pack_unreliable_one:
  assumes "pending_ok p" "vecp_list p = [m]" "m_resend_period m = 0"
  obtains q where "pack_pending u p = (0, q, pack_msg m (pack_start u))" "pending_ok q" "vecp_list q = []"
proof -
  obtain r1 p1 ctx1 where 1: "vec_retain append_unreliable_msgs_to_buf p (pack_start u) = (r1, p1, ctx1)"
    by (metis surj_pair)
  obtain r2 p2 ctx2 where 2: "vec_retain append_reliable_msgs_to_buf p1 ctx1 = (r2, p2, ctx2)"
    by (metis surj_pair)
  have ok: "vecp_ok 16 p"
    using assms(1) by (simp add: pending_ok_def)
  note l1 = vec_retain_list [OF ok 1]
  note l2 = vec_retain_list [OF conjunct1 [OF l1] 2]
  have "r1 = 0" "vecp_list p1 = []" "ctx1 = pack_msg m (pack_start u)"
    using l1 assms(2,3) pack_start_room
    by (auto simp: append_unreliable_msgs_to_buf_def msg_is_reliable_def VEC_ERASE_def)
  with l2 have "r2 = 0" "vecp_list p2 = []" "ctx2 = pack_msg m (pack_start u)"
    by auto
  with 1 2 l2 that [of p2] show thesis
    by (simp add: pack_pending_def pending_ok_def)
qed

lemma pack_request_one:
  assumes "pending_ok p" "vecp_list p = [m]" "m_resend_period m \<noteq> 0" "m_period_counter m = 1"
    and "m_retry_counter m \<noteq> 1"
  obtains q m' where "client_pack_pending u f p = (0, q, pack_msg m' (pack_start u))" "pending_ok q"
    "vecp_list q = [m']" "msg_frame m' = msg_frame (msg_update_frame_number m f)" "m_type m' = m_type m" "msg_wf m'"
proof -
  obtain r1 p1 ctx1 where 1: "vec_retain append_unreliable_msgs_to_buf p (pack_start u) = (r1, p1, ctx1)"
    by (metis surj_pair)
  obtain r2 p2 ctx2 where 2: "vec_retain (client_append_reliable_msgs_to_buf f) p1 ctx1 = (r2, p2, ctx2)"
    by (metis surj_pair)
  have ok: "vecp_ok 16 p" "msg_wf m"
    using assms(1,2) by (simp_all add: pending_ok_def)
  note l1 = vec_retain_list [OF ok(1) 1]
  note l2 = vec_retain_list [OF conjunct1 [OF l1] 2]
  let ?m = "msg_update_frame_number (m\<lparr>m_period_counter := m_resend_period m,
      m_retry_counter := m_retry_counter m - 1\<rparr>) f"
  have "r1 = 0" "vecp_list p1 = [m]" "ctx1 = pack_start u"
    using l1 assms(2,3) pack_start_room
    by (auto simp: append_unreliable_msgs_to_buf_def msg_is_reliable_def VEC_RETAIN_def word_neq_0_conv)
  with l2 have "r2 = 0" "vecp_list p2 = [?m]" "ctx2 = pack_msg ?m (pack_start u)"
    using assms(3-5) pack_start_room
    by (auto simp: client_append_reliable_msgs_to_buf_def msg_is_unreliable_def VEC_RETAIN_def Let_def)
  moreover have "msg_frame ?m = msg_frame (msg_update_frame_number m f)" "m_type ?m = m_type m"
    by (auto simp: msg_update_frame_number_def msg_frame_def split: msg_type.splits)
  moreover have "msg_wf ?m"
    using ok(2) by simp
  ultimately show thesis
    using 1 2 l2 that [of p2 ?m]
    by (simp add: client_pack_pending_def client_append_unreliable_same pending_ok_def)
qed

section \<open>The join accept\<close>

text \<open>What a client that waits for the answer makes of it.\<close>

lemma client_accept_rule:
  assumes "cl_state c = CLIENT_JOINING" "world_ok (ce_snakes E) w" "world_find w snake_id = None"
    and "bm_can_grow (ce_snakes E) (wd_snakes w)"
    and "uint (cl_frame c - sent_frame) \<le> uint (cl_net_tick_rate c) * 5" "cl_net_tick_rate c \<noteq> 0"
  shows "\<exists>c' w' s. client_join_accept E spawn snake_id sent_frame their_frame sim net (c, w) =
      Some (client_recv_tick_rate_changed, c', w') \<and>
    cl_state c' = CLIENT_CONNECTED \<and> cl_snake_id c' = snake_id \<and>
    cl_frame c' = their_frame + (cl_frame c - sent_frame) +
      word_of_int (5 * uint (cl_sim_tick_rate c) div uint (cl_net_tick_rate c)) \<and>
    cl_sim_tick_rate c' = sim \<and> cl_net_tick_rate c' = net \<and>
    cl_pending c' = msg_vec_remove_type (cl_pending c) MSG_JOIN_REQUEST \<and>
    cl_username c' = cl_username c \<and> cl_sockets c' = cl_sockets c \<and>
    world_ok (ce_snakes E) w' \<and> snake_init (ce_junk E) spawn (cl_username c) = Some s \<and>
    world_find w' = (world_find w)(snake_id \<mapsto> s)"
proof -
  obtain s where s: "snake_init (ce_junk E) spawn (cl_username c) = Some s"
    using snake_init_total by blast
  obtain w' where w': "world_create_snake (ce_snakes E) (ce_junk E) w snake_id spawn (cl_username c) = Some (True, w')"
    "world_ok (ce_snakes E) w'" "world_find w' = (world_find w)(snake_id \<mapsto> s)"
    using world_create_spec [OF assms(2) s, of snake_id] assms(3,4) by auto
  show ?thesis
    using assms(1,5,6) w' s by (simp add: client_join_accept_def Let_def)
qed

lemma client_recv_one:
  assumes "cl_sockets c = Some v" "0 < vec_cnt v" "msg_wf m"
  shows "client_recv E (\<lambda>_. (int (length (msg_frame m)), msg_frame m)) (c, w) =
    client_process_all E [m] client_recv_ok (c\<lparr>cl_timeout := 0\<rparr>, w)"
proof -
  have "try_sockets (\<lambda>s. True) v = (True, v)"
    by (simp add: try_sockets.simps)
  moreover have "0 < length (msg_frame m)"
    by (simp add: msg_frame_def)
  ultimately show ?thesis
    using assms client_unpack_frames [of "[m]" E "[]" client_recv_ok "(c\<lparr>cl_timeout := 0\<rparr>, w)"]
    by (cases c) (auto simp: client_recv_def Let_def)
qed

lemma client_recv_accept:
  assumes "cl_sockets c = Some v" "0 < vec_cnt v" "qwpos24 spawn" "m = msg_join_accept u sim net cf sf i spawn"
    and "client_join_accept E spawn i cf sf sim net (c\<lparr>cl_timeout := 0\<rparr>, w) =
      Some (client_recv_tick_rate_changed, c', w')"
  shows "client_recv E (\<lambda>_. (int (length (msg_frame m)), msg_frame m)) (c, w) =
    Some (client_recv_tick_rate_changed, c', w')"
proof -
  have m: "msg_wf m" "m_type m = MSG_JOIN_ACCEPT" "msg_parse m = Inr (P_join_accept spawn i cf sf sim net)"
    using assms(3,4) msg_join_accept_parse by (simp_all add: msg_join_accept_def)
  then show ?thesis
    unfolding client_recv_one [OF assms(1,2) m(1)]
    using assms(5) by (simp add: client_process_message_def msg_parse_def client_recv_result_combine_def
        client_recv_ok_def client_recv_tick_rate_changed_def Let_def)
qed

text \<open>
  A client that waits for the answer to its request takes the accept as follows: it stops
  sending the request, sets its clock to the server's frame plus the frames that the answer
  took plus five network updates, takes over the server's tick rates and the id of its snake,
  and the snake is in its world where the server spawned it, under its own name.
\<close>

lemma client_accept_exchange:
  assumes "cl_state c = CLIENT_JOINING" "world_ok (ce_snakes E) w" "world_find w snake_id = None"
    and "bm_can_grow (ce_snakes E) (wd_snakes w)" "qwpos24 spawn"
    and "uint (cl_frame c - sent_frame) \<le> uint (cl_net_tick_rate c) * 5" "cl_net_tick_rate c \<noteq> 0"
    and "cl_sockets c = Some v" "0 < vec_cnt v"
    and "m = msg_join_accept u sim net sent_frame their_frame snake_id spawn"
  shows "\<exists>c' w' s. client_recv E (\<lambda>_. (int (length (msg_frame m)), msg_frame m)) (c, w) =
      Some (client_recv_tick_rate_changed, c', w') \<and>
    cl_state c' = CLIENT_CONNECTED \<and> cl_snake_id c' = snake_id \<and>
    cl_frame c' = their_frame + (cl_frame c - sent_frame) +
      word_of_int (5 * uint (cl_sim_tick_rate c) div uint (cl_net_tick_rate c)) \<and>
    cl_sim_tick_rate c' = sim \<and> cl_net_tick_rate c' = net \<and>
    cl_pending c' = msg_vec_remove_type (cl_pending c) MSG_JOIN_REQUEST \<and>
    snake_init (ce_junk E) spawn (cl_username c) = Some s \<and>
    world_find w' = (world_find w)(snake_id \<mapsto> s)"
proof -
  have "uint (cl_frame (c\<lparr>cl_timeout := 0\<rparr>) - sent_frame) \<le> uint (cl_net_tick_rate (c\<lparr>cl_timeout := 0\<rparr>)) * 5"
    "cl_state (c\<lparr>cl_timeout := 0\<rparr>) = CLIENT_JOINING" "cl_net_tick_rate (c\<lparr>cl_timeout := 0\<rparr>) \<noteq> 0"
    using assms by simp_all
  from client_accept_rule [OF this(2) assms(2-4) this(1,3), of spawn their_frame sim net]
  obtain c' w' s where "client_join_accept E spawn snake_id sent_frame their_frame sim net (c\<lparr>cl_timeout := 0\<rparr>, w) =
      Some (client_recv_tick_rate_changed, c', w')" and r: "cl_state c' = CLIENT_CONNECTED" "cl_snake_id c' = snake_id"
    "cl_frame c' = their_frame + (cl_frame c - sent_frame) +
      word_of_int (5 * uint (cl_sim_tick_rate c) div uint (cl_net_tick_rate c))"
    "cl_sim_tick_rate c' = sim" "cl_net_tick_rate c' = net"
    "cl_pending c' = msg_vec_remove_type (cl_pending c) MSG_JOIN_REQUEST"
    "snake_init (ce_junk E) spawn (cl_username c) = Some s" "world_find w' = (world_find w)(snake_id \<mapsto> s)"
    by auto
  from client_recv_accept [OF assms(8,9,5,10) this(1)] r show ?thesis
    by blast
qed

lemma new_snake_named:
  assumes "snake_init J pos name = Some s"
  shows "sn_head s = snake_head_init pos" "sd_name (sn_data s) = name"
  using assms snake_data_init_ok [of J pos name] by (auto simp: snake_init_def)

section \<open>Joining\<close>

text \<open>
  The first exchange between a client and the server: the client sends its request, the
  server takes the datagram and sends what is queued for the client, and the client takes that
  datagram \<open>delay\<close> frames later. A datagram that is lost is no value.
\<close>

definition join_exchange ::
  "client_env \<Rightarrow> 'a server_env \<Rightarrow> server_settings \<Rightarrow> (int \<Rightarrow> bool) \<Rightarrow> 'a \<Rightarrow> 16 word \<Rightarrow> 16 word \<Rightarrow>
   client \<times> world \<Rightarrow> 'a server \<times> world \<Rightarrow>
   (client_recv_result \<times> (client \<times> world) \<times> 'a server \<times> world) option" where
  "join_exchange CE SE S send_ok addr frame_number delay cst st =
     Option.bind (client_send_pending_data CE send_ok (fst cst)) (\<lambda>(r, request, c).
     Option.bind (server_recv_packet SE S frame_number addr request st) (\<lambda>(sv, w).
     Option.bind (hm_find_pointer (ve_clients SE) (sv_clients sv) addr) (\<lambda>slot.
     Option.bind slot (\<lambda>slot.
     Option.bind (send_to_client SE slot (sv, w)) (\<lambda>st.
     case sv_sent (fst st) of [] \<Rightarrow> None
     | (to, reply) # _ \<Rightarrow>
         Option.bind (client_recv CE (\<lambda>_. (int (length reply), reply)) (c\<lparr>cl_frame := cl_frame c + delay\<rparr>, snd cst))
           (\<lambda>(result, cst). Some (result, cst, st)))))))"

lemma client_sends_request:
  assumes "pending_ok (cl_pending c)" "vecp_list (cl_pending c) = [m]"
    and "msg_join_request u 0 f name = Some m"
    and "cl_sockets c = Some v" "vec_ok 8 v" "s \<in> set (vec_list v)" "send_ok s"
    and "0 \<le> cl_timeout c" "cl_timeout c + 1 \<le> uint (cl_net_tick_rate c) * 3"
    and "msg_join_request u 0 (cl_frame c) name = Some m'"
  shows "\<exists>p v'. client_send_pending_data E send_ok c = Some (0, msg_frame m',
      c\<lparr>cl_pending := p, cl_sockets := Some v', cl_timeout := cl_timeout c + 1\<rparr>) \<and>
    pending_ok p \<and> (\<exists>n. vecp_list p = [n] \<and> m_type n = MSG_JOIN_REQUEST) \<and> vec_ok 8 v' \<and> 0 < vec_cnt v'"
proof -
  have m: "m_resend_period m \<noteq> 0" "m_period_counter m = 1" "m_retry_counter m \<noteq> 1"
    "m_type m = MSG_JOIN_REQUEST"
    using assms(3) by (auto simp: msg_join_request_def msg_put_def msg_alloc_def Let_def split: if_splits)
  obtain q n where p: "client_pack_pending (ce_byte E) (cl_frame c) (cl_pending c) = (0, q, pack_msg n (pack_start (ce_byte E)))"
    "pending_ok q" "msg_frame n = msg_frame (msg_update_frame_number m (cl_frame c))" "msg_wf n"
    "vecp_list q = [n]" "m_type n = MSG_JOIN_REQUEST"
    using pack_request_one [OF assms(1,2) m(1-3), of "ce_byte E" "cl_frame c"] m(4) by metis
  have fr: "take (nat (pc_len (pack_msg n (pack_start (ce_byte E))))) (pc_buf (pack_msg n (pack_start (ce_byte E)))) = msg_frame m'"
    unfolding packed_single [OF p(4)] p(3) by (rule join_request_renewed [OF assms(3,10)])
  have cnt: "0 < vec_cnt v"
    using length_vec_list [OF assms(5)] assms(6) by (cases "vec_list v") auto
  obtain ok v' where t: "try_sockets send_ok v = (ok, v')"
    by fastforce
  have v': "ok" "vec_ok 8 v'" "vec_list v' \<noteq> []"
    using try_sockets_spec [OF assms(5) cnt, of send_ok] t assms(6,7) by auto
  then have "0 < vec_cnt v'"
    using length_vec_list [OF v'(2)] by (cases "vec_list v'") auto
  moreover have "uint (cl_net_tick_rate c) < 256"
    using uint_bounded [of "cl_net_tick_rate c"] by simp
  then have "i32 (cl_timeout c + 1) = cl_timeout c + 1"
    using assms(8,9) by (intro i32_id) auto
  ultimately have "client_send_pending_data E send_ok c = Some (0, msg_frame m',
      c\<lparr>cl_pending := q, cl_sockets := Some v', cl_timeout := cl_timeout c + 1\<rparr>)"
    using p(1) fr pack_msg_nonempty [of n "ce_byte E"] assms(4,9) cnt t v'(1)
    by (simp add: client_send_pending_data_def Let_def)
  with p(2,5,6) v'(2) \<open>0 < vec_cnt v'\<close> show ?thesis
    by blast
qed

text \<open>The answer that is queued for a new client is sent by the next round.\<close>

lemma server_sends_accept:
  assumes "sv_ok E sv" "sv_clients sv = Some m" "hm_used m s" "hm_keys m ! s = addr"
    and "hm_vals m ! s = joined_client E S cf f i pos"
  shows "\<exists>sv'. send_to_client E (int s) (sv, w) = Some (sv', w) \<and>
    sv_sent sv' = (addr, msg_frame (msg_join_accept (ve_byte E) (ss_sim_tick_rate S) (ss_net_tick_rate S) cf f i pos)) #
      sv_sent sv \<and>
    (\<exists>c. registered sv' addr = Some c \<and> sc_snake_id c = i \<and> vecp_list (sc_pending c) = [])"
proof -
  let ?j = "joined_client E S cf f i pos"
  let ?m = "msg_join_accept (ve_byte E) (ss_sim_tick_rate S) (ss_net_tick_rate S) cf f i pos"
  have q: "pending_ok (sc_pending ?j)" "vecp_list (sc_pending ?j) = [?m]" "m_resend_period ?m = 0"
    using vec_push_list [of None "ve_msg E" ?m]
    by (auto simp: joined_client_def vec_init_def msg_join_accept_def intro!: pending_push)
  obtain p where p: "pack_pending (ve_byte E) (sc_pending ?j) = (0, p, pack_msg ?m (pack_start (ve_byte E)))"
    "vecp_list p = []"
    using pack_unreliable_one [OF q] by metis
  let ?c = "?j\<lparr>sc_pending := p, sc_timeout := i32 (sc_timeout ?j + 1)\<rparr>"
  let ?sv = "client_set (int s) ?c (net_sendto (msg_frame ?m) addr sv)"
  have "send_to_client E (int s) (sv, w) = Some (?sv, w)"
    using assms p(1) packed_single [of ?m "ve_byte E"] pack_msg_nonempty [of ?m "ve_byte E"]
    by (simp add: send_to_client_def hm_kvs_get_value_def hm_kvs_get_key_def client_dangling_def Let_def
        client_set_def net_sendto_def)
  moreover have "registered ?sv addr = Some ?c"
    using registered_set [OF assms(1-3), of ?c] assms(4) by (simp add: client_set_def net_sendto_def)
  ultimately show ?thesis
    using p(2) by (auto simp: net_sendto_def)
qed

text \<open>
  Claim C1. From a client's first request to the connected client, across both sides: the request
  goes out over a socket that works, the server registers the address, spawns and holds the snake
  and sends the accept, and the client that takes it \<open>delay\<close> frames of its simulation clock later
  is connected. Both agree on the snake's id, head and name and on the tick rates; the client's
  clock is the server's plus the delay plus five network updates, and the request is not resent.
  It is the case without obstacles: the client is joining, its request is all that is queued, its
  name has 1 to 249 bytes and no 0, a socket can send, it waited less than three seconds of network
  updates, and the delay is at most five times its network tick rate (the code's bound; its
  comment says five seconds); the address is not registered, banned or malicious, the server
  has room, accepts the length of the name and ticks; and the id that the server computes, its
  snakes plus one, is free in both worlds, whose maps can grow.
\<close>

theorem join_handshake:
  assumes "client_ok CE (c, cw)" "cl_state c = CLIENT_JOINING" "vecp_list (cl_pending c) = [m]"
    and "msg_join_request u 0 f0 (cl_username c) = Some m"
    and "0 \<notin> set (cl_username c)" "cl_username c \<noteq> []" "length (cl_username c) \<le> 249"
    and "cl_sockets c = Some v" "s \<in> set (vec_list v)" "send_ok s"
    and "0 \<le> cl_timeout c" "cl_timeout c + 1 \<le> uint (cl_net_tick_rate c) * 3"
    and "uint delay \<le> uint (cl_net_tick_rate c) * 5"
    and "world_find cw (next_id w) = None" "bm_can_grow (ce_snakes CE) (wd_snakes cw)"
    and "sv_ok SE sv" "world_ok (ve_snakes SE) w"
    and "registered sv addr = None" "hmp_abs (sv_banned sv) addr = None" "hmp_abs (sv_malicious sv) addr = None"
    and "hm_count (sv_clients sv) + 1 \<le> uint (ss_max_players S)" "ss_net_tick_rate S \<noteq> 0"
    and "hm_room (ve_clients SE) (sv_clients sv)"
    and "world_find w (next_id w) = None" "bm_can_grow (ve_snakes SE) (wd_snakes w)"
    and "length (cl_username c) \<le> unat (ss_max_username_len S)"
  shows "\<exists>c' cw' sv' w' sc here there.
    join_exchange CE SE S send_ok addr f delay (c, cw) (sv, w) =
      Some (client_recv_tick_rate_changed, (c', cw'), sv', w') \<and>
    cl_state c' = CLIENT_CONNECTED \<and> cl_snake_id c' = next_id w \<and> vecp_list (cl_pending c') = [] \<and>
    cl_frame c' = f + delay + word_of_int (5 * uint (cl_sim_tick_rate c) div uint (cl_net_tick_rate c)) \<and>
    cl_sim_tick_rate c' = ss_sim_tick_rate S \<and> cl_net_tick_rate c' = ss_net_tick_rate S \<and>
    registered sv' addr = Some sc \<and> sc_snake_id sc = next_id w \<and>
    world_find cw' (next_id w) = Some here \<and> world_find w' (next_id w) = Some there \<and>
    sn_head here = sn_head there \<and> sd_name (sn_data here) = sd_name (sn_data there) \<and>
    sd_name (sn_data here) = cl_username c \<and> snake_is_held there"
proof -
  have cok: "pending_ok (cl_pending c)" "vec_ok 8 v" "world_ok (ce_snakes CE) cw"
    using assms(1,8) by (simp_all add: client_ok_def)
  obtain m' where m': "msg_join_request u 0 (cl_frame c) (cl_username c) = Some m'"
    using msg_join_request_parse [OF assms(5-7)] by metis
  obtain p v' n where c1: "client_send_pending_data CE send_ok c = Some (0, msg_frame m',
      c\<lparr>cl_pending := p, cl_sockets := Some v', cl_timeout := cl_timeout c + 1\<rparr>)"
    "pending_ok p" "vecp_list p = [n]" "m_type n = MSG_JOIN_REQUEST" "0 < vec_cnt v'"
    using client_sends_request [where s = s and send_ok = send_ok, OF cok(1) assms(3,4,8) cok(2) assms(9-12) m'] by metis
  obtain sv1 w1 there where sv1: "server_recv_packet SE S f addr (msg_frame m') (sv, w) = Some (sv1, w1)"
    "sv_ok SE sv1" "snake_init (ve_junk SE) (make_qwposi 0 0) (cl_username c) = Some there"
    "world_find w1 = (world_find w)(next_id w \<mapsto> snake_set_hold there)"
    "registered sv1 = (registered sv)(addr \<mapsto> joined_client SE S (cl_frame c) f (next_id w) (make_qwposi 0 0))"
    using recv_join [OF assms(16-25) m' assms(5,6,26,7)] by metis
  obtain t slot where slot: "sv_clients sv1 = Some t" "hm_find_pointer (ve_clients SE) (sv_clients sv1) addr = Some (Some (int slot))"
    "hm_used t slot" "hm_keys t ! slot = addr" "hm_vals t ! slot = joined_client SE S (cl_frame c) f (next_id w) (make_qwposi 0 0)"
    using find_pointer_Some [of "ve_clients SE" "sv_clients sv1" addr] sv1(2,5) unfolding sv_ok_def
    by (metis fun_upd_same)
  let ?m = "msg_join_accept (ve_byte SE) (ss_sim_tick_rate S) (ss_net_tick_rate S) (cl_frame c) f (next_id w) (make_qwposi 0 0)"
  obtain sv2 sc where sv2: "send_to_client SE (int slot) (sv1, w1) = Some (sv2, w1)"
    "sv_sent sv2 = (addr, msg_frame ?m) # sv_sent sv1" "registered sv2 addr = Some sc" "sc_snake_id sc = next_id w"
    using server_sends_accept [OF sv1(2) slot(1,3-5)] by metis
  let ?c = "c\<lparr>cl_pending := p, cl_sockets := Some v', cl_timeout := cl_timeout c + 1\<rparr>"
  let ?c = "?c\<lparr>cl_frame := cl_frame ?c + delay\<rparr>"
  have net: "cl_net_tick_rate c \<noteq> 0"
    using assms(11,12) by auto
  have pos: "qwpos24 (make_qwposi 0 0)"
    by code_simp
  have waiting: "cl_state ?c = CLIENT_JOINING" "uint (cl_frame ?c - cl_frame c) \<le> uint (cl_net_tick_rate ?c) * 5"
    "cl_net_tick_rate ?c \<noteq> 0" "cl_sockets ?c = Some v'"
    using assms(2,13) net by simp_all
  obtain c' cw' here where r: "client_recv CE (\<lambda>_. (int (length (msg_frame ?m)), msg_frame ?m)) (?c, cw) =
      Some (client_recv_tick_rate_changed, c', cw')" "cl_state c' = CLIENT_CONNECTED" "cl_snake_id c' = next_id w"
    "cl_frame c' = f + (cl_frame ?c - cl_frame c) + word_of_int (5 * uint (cl_sim_tick_rate ?c) div uint (cl_net_tick_rate ?c))"
    "cl_sim_tick_rate c' = ss_sim_tick_rate S" "cl_net_tick_rate c' = ss_net_tick_rate S"
    "cl_pending c' = msg_vec_remove_type (cl_pending ?c) MSG_JOIN_REQUEST"
    "snake_init (ce_junk CE) (make_qwposi 0 0) (cl_username ?c) = Some here"
    "world_find cw' = (world_find cw)(next_id w \<mapsto> here)"
    using client_accept_exchange [OF waiting(1) cok(3) assms(14,15) pos waiting(2-4) c1(5) refl [of ?m]] by blast
  have snakes: "sn_head here = sn_head there" "sd_name (sn_data here) = cl_username c" "sd_name (sn_data there) = cl_username c"
    using r(8) sv1(3) new_snake_named by auto
  have "join_exchange CE SE S send_ok addr f delay (c, cw) (sv, w) = Some (client_recv_tick_rate_changed, (c', cw'), sv2, w1)"
    using c1(1) sv1(1) slot(2) sv2(1,2) r(1) by (simp add: join_exchange_def)
  then show ?thesis
    using r(2-7,9) sv2(3,4) sv1(4) snakes c1(2-4)
    by (fastforce simp: remove_type_list snake_is_held_def snake_set_hold_def)
qed

section \<open>Examples\<close>

definition demo_client_env :: client_env where
  "demo_client_env = \<lparr>ce_snakes = demo_snakes, ce_junk = demo_junk, ce_byte = (\<lambda>_. 0),
     ce_msg = (\<lambda>_. demo_msg), ce_libm = demo_libm\<rparr>"

lemma demo_client_env_simps [simp]: "ce_snakes demo_client_env = demo_snakes"
  by (simp add: demo_client_env_def)

definition demo_sockets :: "int vec option" where
  "demo_sockets = snd (vec_push 8 True (\<lambda>_. 0) vec_init 3)"

definition demo_request :: msg where
  "demo_request = the (msg_join_request (\<lambda>_. 0) 0 0 [65, 66])"

definition demo_connecting :: client where
  "demo_connecting = (client_queue demo_client_env (client_init\<lparr>cl_username := [65, 66], cl_sockets := demo_sockets\<rparr>)
     demo_request)\<lparr>cl_state := CLIENT_JOINING\<rparr>"

lemma demo_sockets_ok: "vecp_ok 8 demo_sockets" "vecp_list demo_sockets = [3]" "demo_sockets \<noteq> None"
  by code_simp+

lemma demo_sockets_list: "\<exists>v. demo_sockets = Some v \<and> vec_ok 8 v \<and> vec_list v = [3]"
proof -
  obtain v where v: "demo_sockets = Some v"
    using demo_sockets_ok(3) by blast
  show ?thesis
    using demo_sockets_ok(1,2) unfolding v by simp
qed

lemma demo_request_parts: "msg_join_request (\<lambda>_. 0) 0 0 [65, 66] = Some demo_request"
  using msg_join_request_parse [of "[65, 66]" "\<lambda>_. 0" 0 0] by (auto simp: demo_request_def)

lemma demo_connecting_reached:
  "client_connect demo_client_env (\<lambda>_ _ _. (0, demo_sockets)) client_init [] [] [65, 66] = Some (0, demo_connecting)"
  using demo_request_parts
  by (simp add: client_connect_def demo_connecting_def client_queue_def client_init_def Let_def demo_client_env_def)

lemma demo_connecting_parts:
  "cl_state demo_connecting = CLIENT_JOINING" "cl_username demo_connecting = [65, 66]"
  "cl_sockets demo_connecting = demo_sockets" "cl_timeout demo_connecting = 0"
  "cl_net_tick_rate demo_connecting = 20" "vecp_list (cl_pending demo_connecting) = [demo_request]"
  using vec_push_list [of None "\<lambda>_. demo_msg" demo_request]
  by (auto simp: demo_connecting_def client_queue_def client_init_def vec_init_def demo_client_env_def)

lemma demo_connecting_ok: "client_ok demo_client_env (demo_connecting, world_init)"
proof -
  have "client_ok demo_client_env (client_init, world_init)"
    using demo_world_ok by (simp add: client_ok_def client_init_def vec_init_def)
  then show ?thesis
    using client_connect_keeps [OF _ _ demo_connecting_reached, of world_init] demo_sockets_ok(1)
    by (simp add: client_init_def demo_connecting_parts)
qed

theorem join_handshake_witness:
  "\<exists>c' cw' sv' w' sc here there.
    join_exchange demo_client_env demo_server_env demo_settings (\<lambda>_. True) demo_addr 100 4
        (demo_connecting, world_init) (server_init, world_init) =
      Some (client_recv_tick_rate_changed, (c', cw'), sv', w') \<and>
    cl_state c' = CLIENT_CONNECTED \<and> cl_snake_id c' = 1 \<and> cl_frame c' = 119 \<and>
    registered sv' demo_addr = Some sc \<and> world_find cw' 1 = Some here \<and> world_find w' 1 = Some there \<and>
    sn_head here = sn_head there \<and> snake_is_held there"
proof -
  obtain v where v: "demo_sockets = Some v" "vec_list v = [3]"
    using demo_sockets_list by blast
  have rate: "cl_sim_tick_rate demo_connecting = 60"
    by (simp add: demo_connecting_def client_queue_def client_init_def)
  have s: "(3::int) \<in> set (vec_list v)" "cl_sockets demo_connecting = Some v"
    using v by (simp_all add: demo_connecting_parts)
  have room: "hm_count (sv_clients (server_init :: ipv4 server)) + 1 \<le> uint (ss_max_players demo_settings)"
    "ss_net_tick_rate demo_settings \<noteq> 0" "length (cl_username demo_connecting) \<le> unat (ss_max_username_len demo_settings)"
    by (simp_all add: demo_server_ok(4) demo_settings_def demo_connecting_parts)
  have none: "hmp_abs (sv_banned (server_init :: ipv4 server)) demo_addr = None"
    "hmp_abs (sv_malicious (server_init :: ipv4 server)) demo_addr = None"
    by (simp_all add: server_init_def hm_init_def)
  have name: "0 \<notin> set (cl_username demo_connecting)" "cl_username demo_connecting \<noteq> []"
    "length (cl_username demo_connecting) \<le> 249" "0 \<le> cl_timeout demo_connecting"
    "cl_timeout demo_connecting + 1 \<le> uint (cl_net_tick_rate demo_connecting) * 3"
    "uint (4 :: 16 word) \<le> uint (cl_net_tick_rate demo_connecting) * 5"
    by (simp_all add: demo_connecting_parts)
  have req: "msg_join_request (\<lambda>_. 0) 0 0 (cl_username demo_connecting) = Some demo_request"
    by (simp add: demo_connecting_parts demo_request_parts)
  have free: "world_find world_init (next_id world_init) = None"
    by (rule demo_next_id)
  have cg: "bm_can_grow (ce_snakes demo_client_env) (wd_snakes world_init)"
    "world_ok (ve_snakes demo_server_env) world_init" "bm_can_grow (ve_snakes demo_server_env) (wd_snakes world_init)"
    "hm_room (ve_clients demo_server_env) (sv_clients server_init)"
    using demo_world_ok demo_server_ok by simp_all
  from join_handshake [where send_ok = "\<lambda>_. True" and s = 3 and f = 100, OF demo_connecting_ok demo_connecting_parts(1,6) req
      name(1-3) s(2,1) TrueI name(4-6) free cg(1) demo_server_ok(1) cg(2) demo_server_ok(2) none room(1,2) cg(4)
      free cg(3) room(3)]
  show ?thesis
    unfolding demo_next_id(1) rate demo_connecting_parts(5) by fastforce
qed

section \<open>The states of the client\<close>

text \<open>
  In every state that the client's main loop reaches, whatever datagrams arrive,
  whichever sockets fail and whatever the player does, a connected client has its own snake in
  its world and its queue holds well-formed messages only, and every datagram that a frame
  sends is at most 508 bytes of whole messages.
\<close>

lemma connected_client_has_snake:
  assumes "client_reaches E (c, w)" "world_ok (ce_snakes E) world_init"
  shows "(cl_state c = CLIENT_CONNECTED \<longrightarrow> world_find w (cl_snake_id c) \<noteq> None) \<and>
    world_ok (ce_snakes E) w \<and> list_all msg_wf (vecp_list (cl_pending c)) \<and>
    (\<forall>send_ok receive command nu stop sent st.
       client_frame E send_ok receive command nu (c, w) = Some (stop, sent, st) \<longrightarrow>
       sent = [] \<or> datagram_ok sent)"
proof -
  have ok: "client_ok E (c, w)"
    by (rule client_reaches_ok [OF assms])
  moreover from this have "list_all msg_wf (vecp_list (cl_pending c))"
    by (simp add: client_ok_def pending_ok_def)
  ultimately show ?thesis
    using client_frame_ok [OF ok] by (simp add: client_ok_def) blast
qed

text \<open>
  A datagram with the head of a snake that reaches a client which has no snake yet,
  because the accept was lost or comes after it, makes the client dereference a null pointer.
\<close>

lemma early_head_crashes:
  assumes "world_find w (cl_snake_id c) = None" "cl_sockets c = Some v" "0 < vec_cnt v"
    and "qwpos24 (sh_pos h)" "in_sx 16 (sh_angle h)"
  shows "client_recv E (\<lambda>_. (int (length (msg_frame (msg_snake_head u h f))), msg_frame (msg_snake_head u h f))) (c, w) = None"
proof -
  have "msg_parse (msg_snake_head u h f) = Inr (P_snake_head h f)" "m_type (msg_snake_head u h f) = MSG_SNAKE_HEAD"
    using msg_snake_head_parse [OF assms(4,5)] by (simp_all add: msg_snake_head_def)
  then show ?thesis
    unfolding client_recv_one [OF assms(2,3) msg_wf_builders(3)]
    using assms(1) by (simp add: client_process_message_def msg_parse_def client_snake_head_def)
qed

text \<open>
  Sending and receiving try the sockets from the last to the first: those that fail
  are closed, all but one at most, and the call succeeds exactly if one of the sockets works,
  which is then the last of those that are left.
\<close>

lemma sockets_fall_back:
  assumes "vec_ok bits v" "0 < vec_cnt v"
  shows "case try_sockets works v of (ok, v') \<Rightarrow>
    vec_ok bits v' \<and> vec_list v' \<noteq> [] \<and>
    (\<exists>closed. vec_list v = vec_list v' @ closed \<and> (\<forall>s \<in> set closed. \<not> works s)) \<and>
    (ok \<longleftrightarrow> (\<exists>s \<in> set (vec_list v). works s)) \<and> (ok \<longrightarrow> works (last (vec_list v')))"
  by (rule try_sockets_spec [OF assms])

section \<open>Delivery\<close>

text \<open>
  Claim C9. What the server packs for a client is what the client processes. From the queue the
  messages that are sent once are taken in order, each if it fits into the 508 bytes behind those
  taken before, then in the same way those that are repeated and whose period is over with this
  packet. Packing fails exactly if one of these has no repetition left; otherwise the datagram
  holds exactly these messages and the receiver handles exactly these, one after the other. The
  messages that were sent once leave the queue and nothing else does; those that are repeated stay
  in their order, unchanged but for their counters.
\<close>

theorem datagram_delivered:
  assumes "pending_ok p" "pack_pending u p = (r, p', ctx)"
    and "once = fitting 0 (filter msg_is_unreliable (vecp_list p))"
    and "due = fitting (frames_size once) (filter msg_due (vecp_list p))"
  shows "r = (if \<exists>m \<in> set due. m_retry_counter m = 1 then -1 else 0) \<and>
    (r = 0 \<longrightarrow> take (nat (pc_len ctx)) (pc_buf ctx) = concat (map msg_frame (once @ due)) \<and>
      (\<forall>E result st. client_unpack_packet E (take (nat (pc_len ctx)) (pc_buf ctx)) 0 result st =
         client_process_all E (once @ due) result st)) \<and>
    mset (filter msg_is_unreliable (vecp_list p)) = mset (filter msg_is_unreliable (vecp_list p')) + mset once \<and>
    list_all2 msg_counted (filter msg_is_reliable (vecp_list p)) (filter msg_is_reliable (vecp_list p'))"
proof -
  obtain r1 p1 ctx1 where 1: "vec_retain append_unreliable_msgs_to_buf p (pack_start u) = (r1, p1, ctx1)"
    "vec_retain append_reliable_msgs_to_buf p1 ctx1 = (r, p', ctx)"
    using assms(2) by (auto simp: pack_pending_def split: prod.splits)
  have ok: "vecp_ok 16 p" "list_all msg_wf (vecp_list p)"
    using assms(1) by (simp_all add: pending_ok_def)
  note fits = queue_fits [OF ok 1 assms(3,4)]
  have "list_all msg_wf (once @ due)"
    using conjunct2 [OF fitting_list_all [OF ok(2)]] unfolding assms(3,4) by simp
  then have "client_unpack_packet E (concat (map msg_frame (once @ due))) 0 result st =
      client_process_all E (once @ due) result st" for E result st
    using client_unpack_frames [of "once @ due" _ "[]"] by simp
  moreover have "take (nat (pc_len ctx)) (pc_buf ctx) = concat (map msg_frame (once @ due))" if "r = 0"
    using fits that unfolding packed_def by blast
  ultimately show ?thesis
    using fits by (metis (no_types, lifting))
qed

text \<open>The request to join is repeated and due; the feedback behind it is sent once, so it is packed first.\<close>

theorem datagram_delivered_witness:
  "\<exists>p' ctx. pack_pending (\<lambda>_. 0) (snd (vec_push 16 True (\<lambda>_. demo_msg) (cl_pending demo_connecting)
       (msg_feedback (\<lambda>_. 0) (-3) 7))) = (0, p', ctx) \<and>
     take (nat (pc_len ctx)) (pc_buf ctx) = msg_frame (msg_feedback (\<lambda>_. 0) (-3) 7) @ msg_frame demo_request \<and>
     (\<forall>E result st. client_unpack_packet E (take (nat (pc_len ctx)) (pc_buf ctx)) 0 result st =
        client_process_all E [msg_feedback (\<lambda>_. 0) (-3) 7, demo_request] result st)"
proof -
  let ?p = "snd (vec_push 16 True (\<lambda>_. demo_msg) (cl_pending demo_connecting) (msg_feedback (\<lambda>_. 0) (-3) 7))"
  have p: "pending_ok (cl_pending demo_connecting)" "vecp_ok 16 (cl_pending demo_connecting)"
    using demo_connecting_ok by (simp_all add: client_ok_def pending_ok_def)
  have l: "vecp_list ?p = [demo_request, msg_feedback (\<lambda>_. 0) (-3) 7]" "pending_ok ?p"
    using vec_push_list [OF p(2), of "\<lambda>_. demo_msg" "msg_feedback (\<lambda>_. 0) (-3) 7"] pending_push [OF p(1)] msg_wf_builders
      demo_connecting_parts(6) by auto
  have k: "msg_is_unreliable (msg_feedback (\<lambda>_. 0) (-3) 7)" "\<not> msg_is_unreliable demo_request" "msg_due demo_request"
    "m_retry_counter demo_request \<noteq> 1" "\<not> msg_due (msg_feedback (\<lambda>_. 0) (-3) 7)"
    "length (msg_frame (msg_feedback (\<lambda>_. 0) (-3) 7)) = 5" "length (msg_frame demo_request) \<le> 257"
    by code_simp+
  obtain r p' ctx where r: "pack_pending (\<lambda>_. 0) ?p = (r, p', ctx)"
    by (metis surj_pair)
  have "[msg_feedback (\<lambda>_. 0) (-3) 7] = fitting 0 (filter msg_is_unreliable (vecp_list ?p))"
      "[demo_request] = fitting (frames_size [msg_feedback (\<lambda>_. 0) (-3) 7]) (filter msg_due (vecp_list ?p))"
    unfolding l(1) using k by simp_all
  note d = datagram_delivered [OF l(2) r this]
  have "r = 0"
    using conjunct1 [OF d] k(4) by simp
  moreover from this have "take (nat (pc_len ctx)) (pc_buf ctx) = concat (map msg_frame ([msg_feedback (\<lambda>_. 0) (-3) 7] @ [demo_request]))"
      "\<forall>E result st. client_unpack_packet E (take (nat (pc_len ctx)) (pc_buf ctx)) 0 result st =
        client_process_all E ([msg_feedback (\<lambda>_. 0) (-3) 7] @ [demo_request]) result st"
    using d by blast+
  ultimately show ?thesis
    using r by (intro exI [of _ p'] exI [of _ ctx]) (simp only: concat.simps list.map append.simps append_Nil2 simp_thms)
qed

end
