(* ===== verification/Mem.thy ===== *)
theory Mem
  imports Hash Hm
begin

text \<open>
  The tracking of memory in debug builds (src/mem.c): a hash map from the addresses of the
  blocks that are in use to their sizes, and the numbers of allocations and deallocations. The
  C library's allocator is a parameter: the address that \<open>malloc\<close> or \<open>realloc\<close> returns. The
  optional backtraces and the texts that are printed are not modelled. \<open>None\<close> as the result
  is a search of the table that does not return, or a null pointer that is dereferenced.
\<close>

section \<open>The table of blocks\<close>

record report_info =
  ri_location :: "64 word"
  ri_size :: int

text \<open>The hash map with 32 bit indices, from 128 slots and 70 per cent on.\<close>

definition report_hm_env :: "(64 word, report_info) hm_env" where
  "report_hm_env = \<lparr>he_bits = 32, he_hdr = 24, he_hash = hash32_aligned_ptr, he_eq = (=), he_min = 128,
     he_pct = 70, he_ok = True, he_kok = True, he_uk = (\<lambda>_. 0), he_uv = (\<lambda>_. \<lparr>ri_location = 0, ri_size = 0\<rparr>)\<rparr>"

definition report_hm_find_slot :: "(64 word, report_info) hm \<Rightarrow> 64 word \<Rightarrow> 32 word \<Rightarrow> int option" where
  "report_hm_find_slot = hm_find_slot report_hm_env"

definition report_hm_grow ::
  "(64 word, report_info) hm option \<Rightarrow> (int \<times> (64 word, report_info) hm option) option" where
  "report_hm_grow = hm_grow report_hm_env"

definition report_hm_emplace_new ::
  "(64 word, report_info) hm option \<Rightarrow> 64 word \<Rightarrow> (int option \<times> (64 word, report_info) hm option) option" where
  "report_hm_emplace_new = hm_emplace_new report_hm_env"

definition report_hm_find :: "(64 word, report_info) hm option \<Rightarrow> 64 word \<Rightarrow> report_info option option" where
  "report_hm_find = hm_find report_hm_env"

definition report_hm_erase ::
  "(64 word, report_info) hm \<Rightarrow> 64 word \<Rightarrow> (report_info option \<times> (64 word, report_info) hm) option" where
  "report_hm_erase = hm_erase report_hm_env"

section \<open>The state\<close>

record mem_state =
  ms_report :: "(64 word, report_info) hm option"
  ms_allocations :: int
  ms_deallocations :: int
  ms_ignore_malloc :: bool

text \<open>The flag keeps its value, a thread starts with 0.\<close>

definition mem_init_threadlocal :: "bool \<Rightarrow> mem_state" where
  "mem_init_threadlocal ignore =
     \<lparr>ms_report = hm_init, ms_allocations = 0, ms_deallocations = 0, ms_ignore_malloc = ignore\<rparr>"

text \<open>
  The blocks of the table itself come from \<open>mem_alloc\<close> while the flag is set, so they are
  counted and not entered: three when the table grows, and three freed if there was one.
\<close>

definition report_add :: "64 word \<Rightarrow> int \<Rightarrow> mem_state \<Rightarrow> mem_state option" where
  "report_add addr sz st =
     (case report_hm_emplace_new (ms_report st) addr of
        None \<Rightarrow> None
      | Some (slot, p) \<Rightarrow>
          let grown = hm_capacity p \<noteq> hm_capacity (ms_report st);
              st = st\<lparr>ms_allocations := i32 (ms_allocations st + (if grown then 3 else 0)),
                     ms_deallocations := i32 (ms_deallocations st +
                       (if grown \<and> ms_report st \<noteq> None then 3 else 0)),
                     ms_report := p, ms_ignore_malloc := False\<rparr>
          in (case slot of
                None \<Rightarrow> Some st
              | Some slot \<Rightarrow>
                  Some (st\<lparr>ms_report := map_option (hm_kvs_set_value slot
                    \<lparr>ri_location = addr, ri_size = sz\<rparr>) p\<rparr>)))"

definition track_allocation :: "64 word \<Rightarrow> int \<Rightarrow> mem_state \<Rightarrow> mem_state option" where
  "track_allocation addr sz st =
     (let st = st\<lparr>ms_allocations := i32 (ms_allocations st + 1)\<rparr>
      in if ms_ignore_malloc st then Some st else report_add addr sz st)"

definition track_deallocation :: "64 word \<Rightarrow> mem_state \<Rightarrow> mem_state option" where
  "track_deallocation addr st =
     (let st = st\<lparr>ms_deallocations := i32 (ms_deallocations st + 1)\<rparr>
      in if ms_ignore_malloc st then Some st
         else (case ms_report st of None \<Rightarrow> None
           | Some m \<Rightarrow>
               (case report_hm_erase m addr of None \<Rightarrow> None
                | Some (info, m) \<Rightarrow> Some (st\<lparr>ms_report := Some m\<rparr>))))"

definition acquire :: "64 word \<Rightarrow> int \<Rightarrow> mem_state \<Rightarrow> mem_state option" where
  "acquire addr sz st =
     (if addr = 0 then Some st
      else report_add addr sz (st\<lparr>ms_allocations := i32 (ms_allocations st + 1)\<rparr>))"

definition release :: "64 word \<Rightarrow> mem_state \<Rightarrow> (int \<times> mem_state) option" where
  "release addr st =
     (if addr = 0 then Some (0, st)
      else
        let st = st\<lparr>ms_deallocations := i32 (ms_deallocations st + 1)\<rparr>
        in (case ms_report st of None \<Rightarrow> None
            | Some m \<Rightarrow>
                (case report_hm_erase m addr of None \<Rightarrow> None
                 | Some (info, m) \<Rightarrow>
                     let st = st\<lparr>ms_report := Some m\<rparr>
                     in Some (case info of None \<Rightarrow> 0 | Some i \<Rightarrow> ri_size i, st))))"

section \<open>The interface\<close>

text \<open>\<open>p\<close> is what the C library returns, 0 when memory ran out.\<close>

definition mem_alloc :: "64 word \<Rightarrow> int \<Rightarrow> mem_state \<Rightarrow> (64 word \<times> mem_state) option" where
  "mem_alloc p sz st =
     (if p = 0 then Some (0, st) else map_option (\<lambda>st. (p, st)) (track_allocation p sz st))"

definition mem_realloc :: "64 word \<Rightarrow> 64 word \<Rightarrow> int \<Rightarrow> mem_state \<Rightarrow> (64 word \<times> mem_state) option" where
  "mem_realloc old_addr p new_size st =
     (if p = 0 then Some (0, st)
      else
        (case (if old_addr \<noteq> 0 then track_deallocation old_addr st else Some st) of
           None \<Rightarrow> None
         | Some st \<Rightarrow> map_option (\<lambda>st. (p, st)) (track_allocation p new_size st)))"

definition mem_free :: "64 word \<Rightarrow> mem_state \<Rightarrow> mem_state option" where
  "mem_free p st = track_deallocation p st"

definition mem_track_allocation :: "64 word \<Rightarrow> mem_state \<Rightarrow> mem_state option" where
  "mem_track_allocation p st = track_allocation p 1 st"

definition mem_track_deallocation :: "64 word \<Rightarrow> mem_state \<Rightarrow> mem_state option" where
  "mem_track_deallocation p st = track_deallocation p st"

definition mem_own :: "64 word \<Rightarrow> int \<Rightarrow> mem_state \<Rightarrow> mem_state option" where
  "mem_own p sz st = acquire p sz st"

definition mem_unown :: "64 word \<Rightarrow> mem_state \<Rightarrow> (int \<times> mem_state) option" where
  "mem_unown p st = release p st"

text \<open>The blocks that are reported, the number of leaks, and the state.\<close>

definition mem_deinit_threadlocal :: "mem_state \<Rightarrow> report_info list \<times> int \<times> mem_state" where
  "mem_deinit_threadlocal st =
     (let infos = (case ms_report st of None \<Rightarrow> []
            | Some m \<Rightarrow> map (hm_kvs_get_value m) (hm_slots (Some m)));
          st = st\<lparr>ms_deallocations := i32 (ms_deallocations st + (if ms_report st = None then 0 else 3)),
                 ms_ignore_malloc := False\<rparr>;
          leaks = (if ms_allocations st > ms_deallocations st
            then ms_allocations st - ms_deallocations st else ms_deallocations st - ms_allocations st)
      in (infos, leaks, st))"

section \<open>What is live\<close>

text \<open>
  The table holds exactly the live blocks with their sizes, and the counters differ by their
  number and the blocks of the table. \<open>n\<close> bounds the counters away from an overflow.
\<close>

definition mem_ok :: "mem_state \<Rightarrow> (64 word \<Rightarrow> int option) \<Rightarrow> bool" where
  "mem_ok st live \<longleftrightarrow> \<not> ms_ignore_malloc st \<and> hmp_ok report_hm_env (ms_report st) \<and> hm_live (ms_report st) \<and>
     hmp_abs (ms_report st) = (\<lambda>a. map_option (\<lambda>n. \<lparr>ri_location = a, ri_size = n\<rparr>) (live a)) \<and>
     finite (dom live) \<and> 0 \<le> ms_deallocations st \<and>
     ms_allocations st - ms_deallocations st = int (card (dom live)) + (if ms_report st = None then 0 else 3)"

definition mem_small :: "mem_state \<Rightarrow> bool" where
  "mem_small st \<longleftrightarrow> ms_allocations st < 2147483640 \<and> ms_deallocations st < 2147483640"

lemma report_hm_env_ok: "he_ok_inst report_hm_env"
  unfolding he_ok_inst_def by (rule conjI, rule exI [of _ 7]) (simp_all add: report_hm_env_def)

lemma report_eq: "he_eq report_hm_env a b \<longleftrightarrow> a = b"
  by (simp add: report_hm_env_def)

lemma mem_init_ok: "mem_ok (mem_init_threadlocal False) Map.empty"
  by (simp add: mem_ok_def mem_init_threadlocal_def hm_init_def)

lemma mem_counters: "mem_ok st live \<Longrightarrow> 0 \<le> ms_deallocations st \<and> 0 \<le> ms_allocations st"
  by (auto simp: mem_ok_def split: if_splits)

lemma mem_alloc_ok:
  assumes "mem_ok st live" "mem_small st" "hm_room report_hm_env (ms_report st)" "live p = None" "p \<noteq> 0"
  shows "\<exists>st'. mem_alloc p sz st = Some (p, st') \<and> mem_ok st' (live(p \<mapsto> sz))"
proof -
  have ok: "hmp_ok report_hm_env (ms_report st)" "hmp_abs (ms_report st) p = None"
    using assms(1,4) by (simp_all add: mem_ok_def)
  obtain s n where n: "hm_emplace_new report_hm_env (ms_report st) p = Some (Some (int s), Some n)"
    "\<And>v. hm_ok report_hm_env (hm_kvs_set_value (int s) v n) \<and> hm_unused (hm_kvs_set_value (int s) v n) \<noteq> {} \<and>
      hm_abs (hm_kvs_set_value (int s) v n) = (hmp_abs (ms_report st))(p \<mapsto> v)"
    using hm_emplace_new_slot [OF ok(1) report_hm_env_ok assms(3) ok(2)] by metis
  have "hm_cap (hm_kvs_set_value (int s) undefined n) > 0"
    using n(2) [of undefined] by (simp add: hm_ok_def hm_shape_def)
  then have cap: "0 < hm_cap n"
    by (simp add: hm_kvs_set_value_def)
  let ?v = "\<lparr>ri_location = p, ri_size = sz\<rparr>"
  let ?g = "hm_capacity (Some n) \<noteq> hm_capacity (ms_report st)"
  let ?st = "st\<lparr>ms_allocations := ms_allocations st + 1 + (if ?g then 3 else 0),
      ms_deallocations := ms_deallocations st + (if ?g \<and> ms_report st \<noteq> None then 3 else 0),
      ms_report := Some (hm_kvs_set_value (int s) ?v n), ms_ignore_malloc := False\<rparr>"
  have c: "0 \<le> ms_deallocations st" "0 \<le> ms_allocations st"
    using mem_counters [OF assms(1)] by simp_all
  then have w: "i32 (ms_allocations st + 1) = ms_allocations st + 1"
    "i32 (ms_allocations st + 1 + (if ?g then 3 else 0)) = ms_allocations st + 1 + (if ?g then 3 else 0)"
    "i32 (ms_deallocations st + (if ?g \<and> ms_report st \<noteq> None then 3 else 0)) =
      ms_deallocations st + (if ?g \<and> ms_report st \<noteq> None then 3 else 0)"
    using assms(2) by (auto simp: mem_small_def i32_id)
  have first: "ms_report st = None \<Longrightarrow> ?g"
    using cap by (simp add: hm_capacity_def)
  have "mem_alloc p sz st = Some (p, ?st)"
    using assms(1,5) n(1) w
    by (simp add: mem_alloc_def track_allocation_def report_add_def report_hm_emplace_new_def mem_ok_def Let_def)
  moreover have "int (card (insert p (dom live))) = 1 + int (card (dom live))"
    using assms(1,4) by (simp add: mem_ok_def domIff)
  then have "mem_ok ?st (live(p \<mapsto> sz))"
    using assms(1,4) n(2) [of ?v] first c by (auto simp: mem_ok_def fun_eq_iff split: if_splits)
  ultimately show ?thesis by blast
qed

lemma mem_free_ok:
  assumes "mem_ok st live" "mem_small st" "live p = Some sz"
  shows "\<exists>st'. mem_free p st = Some st' \<and> mem_ok st' (live(p := None))"
proof -
  have some: "hmp_abs (ms_report st) p \<noteq> None"
    using assms(1,3) by (simp add: mem_ok_def)
  then obtain m where m: "ms_report st = Some m"
    by (cases "ms_report st") auto
  have ok: "hm_ok report_hm_env m" "hm_unused m \<noteq> {}"
    using assms(1) m by (simp_all add: mem_ok_def)
  obtain m' where m': "hm_erase report_hm_env m p = Some (hm_abs m p, m')" "hm_ok report_hm_env m'"
    "hm_unused m' \<noteq> {}" "hm_abs m' = (hm_abs m)(p := None)"
    using hm_erase_spec [OF ok(1) report_eq ok(2), of p] by auto
  have c: "0 \<le> ms_deallocations st"
    using mem_counters [OF assms(1)] by simp
  then have w: "i32 (ms_deallocations st + 1) = ms_deallocations st + 1"
    using assms(2) by (simp add: mem_small_def i32_id)
  let ?st = "st\<lparr>ms_deallocations := ms_deallocations st + 1, ms_report := Some m'\<rparr>"
  have "mem_free p st = Some ?st"
    using assms(1) m m'(1) w
    by (simp add: mem_free_def track_deallocation_def report_hm_erase_def mem_ok_def Let_def)
  moreover have "int (card (dom live - {p})) = int (card (dom live)) - 1"
  proof -
    have "p \<in> dom live" "finite (dom live)"
      using assms(1,3) by (auto simp: mem_ok_def)
    then have "0 < card (dom live)"
      by (auto simp: card_gt_0_iff)
    with \<open>p \<in> dom live\<close> show ?thesis
      by (simp add: card_Diff_singleton of_nat_diff)
  qed
  moreover have "hm_abs m' = (\<lambda>a. map_option (\<lambda>n. \<lparr>ri_location = a, ri_size = n\<rparr>) ((live(p := None)) a))"
    using assms(1) m m'(4) by (simp add: mem_ok_def fun_eq_iff)
  ultimately have "mem_free p st = Some ?st \<and> mem_ok ?st (live(p := None))"
    using assms(1) m m'(2,3) c by (simp add: mem_ok_def)
  then show ?thesis by blast
qed

lemma mem_deinit_ok:
  assumes "mem_ok st live" "mem_small st"
  shows "\<exists>infos st'. mem_deinit_threadlocal st = (infos, int (card (dom live)), st') \<and> distinct infos \<and>
    set infos = {\<lparr>ri_location = a, ri_size = n\<rparr> | a n. live a = Some n}"
proof -
  have c: "0 \<le> ms_deallocations st" "0 \<le> ms_allocations st"
    using mem_counters [OF assms(1)] by simp_all
  then have w: "i32 (ms_deallocations st + (if ms_report st = None then 0 else 3)) =
      ms_deallocations st + (if ms_report st = None then 0 else 3)"
    using assms(2) by (simp add: mem_small_def i32_id)
  have leaks: "fst (snd (mem_deinit_threadlocal st)) = int (card (dom live))"
    using assms(1) w by (auto simp: mem_deinit_threadlocal_def mem_ok_def Let_def)
  show ?thesis
  proof (cases "ms_report st")
    case None
    then have "live = Map.empty"
      using assms(1) by (auto simp: mem_ok_def fun_eq_iff)
    with None leaks show ?thesis
      by (cases "mem_deinit_threadlocal st") (auto simp: mem_deinit_threadlocal_def Let_def)
  next
    case (Some m)
    have ok: "hm_ok report_hm_env m"
      and abs: "hm_abs m = (\<lambda>a. map_option (\<lambda>n. \<lparr>ri_location = a, ri_size = n\<rparr>) (live a))"
      using assms(1) Some by (simp_all add: mem_ok_def)
    let ?vs = "map (hm_kvs_get_value m) (hm_slots (Some m))"
    have slot: "hm_vals m ! s = \<lparr>ri_location = hm_keys m ! s, ri_size = the (live (hm_keys m ! s))\<rparr> \<and>
        live (hm_keys m ! s) \<noteq> None" if "hm_used m s" for s
    proof -
      have "hm_abs m (hm_keys m ! s) = Some (hm_vals m ! s)"
        using that by (auto simp: hm_abs_Some [OF ok])
      then show ?thesis
        using abs by auto
    qed
    have used: "\<exists>s. hm_used m s \<and> hm_keys m ! s = a" if "live a = Some n" for a n
      using that hm_abs_None [OF ok, of a] abs by auto
    have "inj_on (\<lambda>s. hm_kvs_get_value m s) (set (hm_slots (Some m)))"
    proof (rule inj_onI)
      fix x y
      assume "x \<in> set (hm_slots (Some m))" "y \<in> set (hm_slots (Some m))"
        and eq: "hm_kvs_get_value m x = hm_kvs_get_value m y"
      then obtain a b where ab: "x = int a" "hm_used m a" "y = int b" "hm_used m b"
        unfolding hm_slots_spec(1) [OF ok] by blast
      then have "hm_keys m ! a = hm_keys m ! b"
        using eq slot [of a] slot [of b] by (simp add: hm_kvs_get_value_def)
      then show "x = y"
        using ok ab by (auto simp: hm_ok_def dest: inj_onD)
    qed
    then have "distinct ?vs"
      using hm_slots_spec(2) [OF ok] by (simp add: distinct_map)
    moreover have "set ?vs = {\<lparr>ri_location = a, ri_size = n\<rparr> | a n. live a = Some n}"
    proof -
      have "set ?vs = (\<lambda>s. hm_vals m ! s) ` {s. hm_used m s}"
        by (simp add: hm_slots_spec(1) [OF ok] image_image hm_kvs_get_value_def)
      then show ?thesis
        using slot used by (fastforce simp: image_iff)
    qed
    moreover have "fst (mem_deinit_threadlocal st) = ?vs"
      using Some by (simp add: mem_deinit_threadlocal_def Let_def)
    ultimately show ?thesis
      using leaks by (cases "mem_deinit_threadlocal st") auto
  qed
qed

end
