(* ===== verification/Mem_Laws.thy ===== *)
theory Mem_Laws
  imports Mem
begin

text \<open>
  The correctness statements about the memory tracking: what it reports, and when it hangs.
\<close>

section \<open>The report\<close>

text \<open>
  Claim C14. While the table has room and the counters do not overflow, the tracking knows what
  is live: a new block is entered with its size, a live block that is freed is taken out, and
  the final report lists exactly the live blocks, each once, and returns their number; the
  blocks of the table itself do not count.
\<close>

theorem mem_tracks_live:
  assumes "mem_ok st live" "mem_small st"
  shows "(hm_room report_hm_env (ms_report st) \<and> live p = None \<and> p \<noteq> 0 \<longrightarrow>
      (\<exists>st'. mem_alloc p sz st = Some (p, st') \<and> mem_ok st' (live(p \<mapsto> sz)))) \<and>
    (live p = Some n \<longrightarrow> (\<exists>st'. mem_free p st = Some st' \<and> mem_ok st' (live(p := None)))) \<and>
    (\<exists>infos st'. mem_deinit_threadlocal st = (infos, int (card (dom live)), st') \<and> distinct infos \<and>
      set infos = {\<lparr>ri_location = a, ri_size = n\<rparr> | a n. live a = Some n})"
  using mem_alloc_ok [OF assms, of p sz] mem_free_ok [OF assms, of p n] mem_deinit_ok [OF assms]
  by simp

theorem mem_tracks_live_witness:
  "\<exists>st'. mem_alloc 64 24 (mem_init_threadlocal False) = Some (64, st') \<and> mem_ok st' [64 \<mapsto> 24]"
proof -
  have "mem_small (mem_init_threadlocal False)"
    by (simp add: mem_small_def mem_init_threadlocal_def)
  moreover have "hm_room report_hm_env (ms_report (mem_init_threadlocal False))"
    by (simp add: mem_init_threadlocal_def hm_init_def hm_room_def hm_must_grow_def hm_can_grow_def
        hm_next_cap_def report_hm_env_def)
  ultimately show ?thesis
    using mem_tracks_live [OF mem_init_ok, where p = 64 and sz = 24 and n = 0] by simp
qed

section \<open>The hang\<close>

text \<open>Blocks that are allocated and freed one after the other.\<close>

fun churn :: "64 word list \<Rightarrow> mem_state \<Rightarrow> mem_state option" where
  "churn [] st = Some st"
| "churn (p # ps) st =
     Option.bind (mem_alloc p 16 st) (\<lambda>(_, st). Option.bind (mem_free p st) (churn ps))"

text \<open>The first slot that the search for an address looks at, in the table of 128 slots.\<close>

definition home :: "64 word \<Rightarrow> nat" where
  "home p = unat (hm_hash report_hm_env p AND 127)"

lemma home_bounds: "0 \<le> uint (hm_hash report_hm_env p AND 127)" "uint (hm_hash report_hm_env p AND 127) < 128"
proof -
  have "uint (hm_hash report_hm_env p) AND 127 \<le> 127"
    by (rule AND_upper2) simp
  then show "uint (hm_hash report_hm_env p AND 127) < 128"
    by (simp add: uint_and)
qed simp

lemma int_home: "int (home p) = uint (hm_hash report_hm_env p AND 127)"
  by (simp add: home_def)

lemma home_less: "home p < 128"
  using home_bounds [of p] int_home [of p] by linarith

text \<open>The table after blocks with the homes \<open>S\<close>: no entry, and a tombstone in each of their slots.\<close>

definition worn :: "nat set \<Rightarrow> (64 word, report_info) hm \<Rightarrow> bool" where
  "worn S m \<longleftrightarrow> hm_cnt m = 0 \<and> hm_cap m = 128 \<and> length (hm_hashes m) = 128 \<and> length (hm_keys m) = 128 \<and>
     (\<forall>s < 128. hm_hashes m ! s = (if s \<in> S then HM_SLOT_RIP else HM_SLOT_UNUSED))"

lemma search_start:
  "hm_cap m = 128 \<Longrightarrow> hm_find_slot report_hm_env m p (hm_hash report_hm_env p) =
     hm_find_slot_loop report_hm_env m p (hm_hash report_hm_env p) (int (home p)) 0 (-1)"
proof -
  assume c: "hm_cap m = 128"
  have "sx (he_bits report_hm_env) (uint (hm_hash report_hm_env p AND 127)) = int (home p)"
    using home_bounds [of p] unfolding int_home in_sx_def
    by (intro sx_id) (auto simp: in_sx_def report_hm_env_def [THEN arg_cong [where f = he_bits]]
        intro: order_trans [of _ 0])
  then show ?thesis
    using c by (simp add: hm_find_slot_def)
qed

text \<open>A block with a fresh home goes into its home slot and leaves a tombstone there.\<close>

lemma churn_step:
  assumes "worn S m" "home p \<notin> S"
  shows "hm_find_slot report_hm_env m p (hm_hash report_hm_env p) = Some (int (home p))"
    and "\<exists>v' m'. hm_erase report_hm_env
        (hm_kvs_set_value (int (home p)) v (hm_occupy (int (home p)) p (hm_hash report_hm_env p) m)) p =
      Some (Some v', m') \<and> worn (insert (home p) S) m'"
proof -
  let ?h = "hm_hash report_hm_env p"
  let ?n = "hm_kvs_set_value (int (home p)) v (hm_occupy (int (home p)) p ?h m)"
  have c: "hm_cap m = 128" "length (hm_hashes m) = 128" "length (hm_keys m) = 128" "hm_cnt m = 0"
    "hm_hashes m ! home p = HM_SLOT_UNUSED"
    using assms home_less [of p] by (auto simp: worn_def)
  have n: "hm_cap ?n = 128" "hm_hashes ?n = (hm_hashes m)[home p := ?h]"
    "hm_keys ?n = (hm_keys m)[home p := p]" "hm_cnt ?n = 1"
    using c by (simp_all add: hm_kvs_set_value_def hm_occupy_def hm_kvs_set_key_def hm_set_hash_def)
  show "hm_find_slot report_hm_env m p ?h = Some (int (home p))"
    unfolding search_start [OF c(1)] by (subst hm_find_slot_loop.simps) (simp add: c(5))
  have "hm_find_slot report_hm_env ?n p ?h = Some (- (1 + int (home p)))"
    unfolding search_start [OF n(1)]
    by (subst hm_find_slot_loop.simps) (use c home_less [of p] in \<open>simp add: n hm_kvs_get_key_def report_eq\<close>)
  then have "hm_erase report_hm_env ?n p = Some (Some (hm_kvs_get_value ?n (int (home p))),
      hm_set_hash (int (home p)) HM_SLOT_RIP (?n\<lparr>hm_cnt := hm_cnt ?n - 1\<rparr>))"
    by (simp add: hm_erase_def hm_set_hash_def hm_kvs_get_value_def Let_def)
  moreover have "worn (insert (home p) S) (hm_set_hash (int (home p)) HM_SLOT_RIP (?n\<lparr>hm_cnt := hm_cnt ?n - 1\<rparr>))"
    using assms(1) n c home_less [of p] by (auto simp: worn_def hm_set_hash_def nth_list_update)
  ultimately show "\<exists>v' m'. hm_erase report_hm_env ?n p = Some (Some v', m') \<and> worn (insert (home p) S) m'"
    by blast
qed

text \<open>A table with this state, or the one that the first allocation creates.\<close>

definition worn_state :: "nat set \<Rightarrow> mem_state \<Rightarrow> bool" where
  "worn_state S st \<longleftrightarrow> \<not> ms_ignore_malloc st \<and>
     (case ms_report st of None \<Rightarrow> S = {} | Some m \<Rightarrow> worn S m)"

lemma worn_reserve:
  assumes "worn_state S st"
  shows "\<exists>m. (if hm_must_grow report_hm_env (ms_report st) then hm_grow report_hm_env (ms_report st)
      else Some (0, ms_report st)) = Some (0, Some m) \<and> worn S m"
proof (cases "ms_report st")
  case None
  then have "hm_grow report_hm_env (ms_report st) = Some (0, Some (hm_empty report_hm_env 128))"
    by (simp add: hm_grow_def Let_def) (simp add: report_hm_env_def sx_id in_sx_def)
  moreover have "worn {} (hm_empty report_hm_env 128)"
    by (simp add: worn_def hm_empty_def HM_SLOT_UNUSED_def)
  ultimately show ?thesis
    using None assms by (simp add: hm_must_grow_def worn_state_def)
next
  case (Some m)
  then have "worn S m"
    using assms by (simp add: worn_state_def)
  moreover from this have "\<not> hm_must_grow report_hm_env (Some m)"
    by (simp add: worn_def hm_must_grow_def report_hm_env_def)
  ultimately show ?thesis
    using Some by simp
qed

lemma churn_one:
  assumes "worn_state S st" "home p \<notin> S" "p \<noteq> 0"
  shows "\<exists>st1 st'. mem_alloc p sz st = Some (p, st1) \<and> mem_free p st1 = Some st' \<and>
    worn_state (insert (home p) S) st'"
proof -
  obtain m where m: "(if hm_must_grow report_hm_env (ms_report st) then hm_grow report_hm_env (ms_report st)
      else Some (0, ms_report st)) = Some (0, Some m)" "worn S m"
    using worn_reserve [OF assms(1)] by blast
  let ?o = "hm_occupy (int (home p)) p (hm_hash report_hm_env p) m"
  have e: "hm_emplace_new report_hm_env (ms_report st) p = Some (Some (int (home p)), Some ?o)"
    using m(1) churn_step(1) [OF m(2) assms(2)] by (simp add: hm_emplace_new_def Let_def)
  have ig: "\<not> ms_ignore_malloc st"
    using assms(1) by (simp add: worn_state_def)
  obtain v' m' where d: "hm_erase report_hm_env
      (hm_kvs_set_value (int (home p)) \<lparr>ri_location = p, ri_size = sz\<rparr> ?o) p = Some (Some v', m')"
    "worn (insert (home p) S) m'"
    using churn_step(2) [OF m(2) assms(2)] by blast
  obtain a b where a: "mem_alloc p sz st = Some (p, st\<lparr>ms_allocations := a, ms_deallocations := b,
      ms_ignore_malloc := False, ms_report := Some (hm_kvs_set_value (int (home p)) \<lparr>ri_location = p, ri_size = sz\<rparr> ?o)\<rparr>)"
    using e ig assms(3)
    by (auto simp add: mem_alloc_def track_allocation_def report_add_def report_hm_emplace_new_def Let_def)
  then show ?thesis
    using d by (simp add: mem_free_def track_deallocation_def report_hm_erase_def worn_state_def Let_def)
qed

lemma churn_all:
  assumes "worn_state S st" "distinct (map home ps)" "0 \<notin> set ps" "home ` set ps \<inter> S = {}"
  shows "\<exists>st'. churn ps st = Some st' \<and> worn_state (home ` set ps \<union> S) st'"
  using assms
proof (induction ps arbitrary: S st)
  case (Cons p ps)
  obtain st1 st2 where 1: "mem_alloc p 16 st = Some (p, st1)" "mem_free p st1 = Some st2"
    "worn_state (insert (home p) S) st2"
    using churn_one [of S st p 16] Cons.prems by auto
  have "home ` set ps \<inter> insert (home p) S = {}"
    using Cons.prems(2,4) by auto
  from Cons.IH [OF 1(3) _ _ this] Cons.prems(2,3)
  obtain st' where "churn ps st2 = Some st'" "worn_state (home ` set ps \<union> insert (home p) S) st'"
    by auto
  then show ?case
    using 1 by auto
qed simp

text \<open>
  Claim C25. A debug build hangs after 128 short-lived blocks: when 128 blocks whose addresses
  hash to different slots were allocated and freed one after the other, the table is empty but
  all of its slots are tombstones, so it never grows and the next allocation, or the next free
  of an address that is not in it, searches for ever.
\<close>

theorem tracker_hangs:
  assumes "length ps = 128" "distinct (map home ps)" "0 \<notin> set ps"
  shows "\<exists>st. churn ps (mem_init_threadlocal False) = Some st \<and>
    (\<forall>p sz. p \<noteq> 0 \<longrightarrow> mem_alloc p sz st = None) \<and> (\<forall>p. mem_free p st = None)"
proof -
  have "worn_state {} (mem_init_threadlocal False)"
    by (simp add: worn_state_def mem_init_threadlocal_def hm_init_def)
  from churn_all [OF this assms(2,3)] obtain st where st: "churn ps (mem_init_threadlocal False) = Some st"
    "worn_state (home ` set ps) st"
    by auto
  have "card (home ` set ps) = 128" "home ` set ps \<subseteq> {..<128}"
    using distinct_card [OF assms(2)] assms(1) home_less by auto
  then have all: "home ` set ps = {..<128}"
    by (intro card_subset_eq) auto
  then obtain m where m: "ms_report st = Some m" "worn {..<128} m"
    using st(2) by (cases "ms_report st") (auto simp: worn_state_def lessThan_empty_iff)
  have none: "hm_find_slot report_hm_env m p (hm_hash report_hm_env p) = None" for p
  proof -
    have c: "hm_cap m = 128" "\<And>s. s < 128 \<Longrightarrow> hm_hashes m ! s = HM_SLOT_RIP"
      using m(2) by (simp_all add: worn_def)
    have "hm_find_slot_loop report_hm_env m p (hm_hash report_hm_env p) (int (home p)) 0 (-1) = None"
      by (rule hm_find_slot_loop_diverges)
        (use c home_less [of p] hm_hash_valid(2) [of report_hm_env p] in
          \<open>auto simp: HM_SLOT_RIP_def HM_SLOT_UNUSED_def\<close>)
    then show ?thesis
      unfolding search_start [OF c(1)] .
  qed
  have "\<not> hm_must_grow report_hm_env (Some m)"
    using m(2) by (simp add: worn_def hm_must_grow_def report_hm_env_def)
  moreover have "\<not> ms_ignore_malloc st"
    using st(2) by (simp add: worn_state_def)
  ultimately show ?thesis
    using st(1) m(1) none
    by (simp add: mem_alloc_def mem_free_def track_allocation_def track_deallocation_def report_add_def
        report_hm_emplace_new_def report_hm_erase_def hm_emplace_new_def hm_erase_def Let_def)
qed

theorem tracker_hangs_witness:
  "\<exists>st. churn (map (\<lambda>i. word_of_nat (8 * i)) [2..<130]) (mem_init_threadlocal False) = Some st \<and>
    mem_alloc 4096 1 st = None"
proof -
  have h: "map home (map (\<lambda>i. word_of_nat (8 * i)) [2..<130]) = [2..<128] @ [0, 1]"
    by code_simp
  have "\<exists>st. churn (map (\<lambda>i. word_of_nat (8 * i)) [2..<130]) (mem_init_threadlocal False) = Some st \<and>
    (\<forall>p sz. p \<noteq> 0 \<longrightarrow> mem_alloc p sz st = None) \<and> (\<forall>p. mem_free p st = None)"
  proof (rule tracker_hangs)
    show "distinct (map home (map (\<lambda>i. word_of_nat (8 * i)) [2..<130]))"
      unfolding h by simp
    show "0 \<notin> set (map (\<lambda>i. word_of_nat (8 * i)) [2..<130] :: 64 word list)"
      by code_simp
  qed simp
  then show ?thesis
    by auto
qed

end
