(* ===== verification/Strview.thy ===== *)
theory Strview
  imports Prelude
begin

text \<open>
  Views of character strings (src/strview.c, include/clither/strview.h) and the character
  classes of the C library that the parsers use. A C string is the list of its bytes without
  the terminator.
\<close>

section \<open>Characters\<close>

definition bytes :: "string \<Rightarrow> 8 word list" where
  "bytes s = map of_char s"

definition isdigit :: "8 word \<Rightarrow> bool" where
  "isdigit c \<longleftrightarrow> 48 \<le> c \<and> c \<le> 57"

definition isalpha :: "8 word \<Rightarrow> bool" where
  "isalpha c \<longleftrightarrow> (65 \<le> c \<and> c \<le> 90) \<or> (97 \<le> c \<and> c \<le> 122)"

definition isalnum :: "8 word \<Rightarrow> bool" where
  "isalnum c \<longleftrightarrow> isalpha c \<or> isdigit c"

section \<open>Views\<close>

text \<open>
  A view is given by the bytes from its offset on and its length; of the offset itself only
  whether it is 0 matters, since the first byte of the data is not taken for a sign. The loop
  goes from the first digit to the end, which it has already passed when a view with a sign is
  empty. Values are in the width of an \<open>int\<close>.
\<close>

definition digits_value :: "8 word list \<Rightarrow> int" where
  "digits_value s = foldl (\<lambda>result c. i32 (result * 10 + (uint c - 48))) 0 s"

definition strview_to_integer :: "bool \<Rightarrow> 8 word list \<Rightarrow> nat \<Rightarrow> int option" where
  "strview_to_integer inside s len =
     (if inside \<and> hd s = 45
      then if len = 0 then None else Some (i32 (- digits_value (take (len - 1) (tl s))))
      else Some (digits_value (take len s)))"

text \<open>
  With a fraction: the digits up to the first point, then those after it, over the reals.
\<close>

definition digit_value :: "8 word \<Rightarrow> real" where
  "digit_value c = real_of_int (uint c - 48)"

definition float_value :: "8 word list \<Rightarrow> real" where
  "float_value s =
     (let whole = takeWhile (\<lambda>c. c \<noteq> 46) s; frac = drop 1 (dropWhile (\<lambda>c. c \<noteq> 46) s);
          v = foldl (\<lambda>v c. v * 10 + digit_value c) 0 whole;
          (scale, v) = foldl (\<lambda>(scale, v) c. (scale / 10, v + digit_value c * (scale / 10))) (1, v) frac
      in v)"

definition strview_to_float :: "bool \<Rightarrow> 8 word list \<Rightarrow> nat \<Rightarrow> real option" where
  "strview_to_float inside s len =
     (if inside \<and> hd s = 45
      then if len = 0 then None else Some (- float_value (take (len - 1) (tl s)))
      else Some (float_value (take len s)))"

text \<open>The view against a C string; the views that are compared contain no terminator.\<close>

fun strview_eq_cstr :: "8 word list \<Rightarrow> 8 word list \<Rightarrow> bool" where
  "strview_eq_cstr [] cstr = (cstr = [])"
| "strview_eq_cstr (c # s) [] = False"
| "strview_eq_cstr (c # s) (d # cstr) = (c = d \<and> strview_eq_cstr s cstr)"

section \<open>What the scanners of both configuration files share\<close>

definition skip_comment :: "8 word list \<Rightarrow> 8 word list" where
  "skip_comment s = drop 1 (dropWhile (\<lambda>c. c \<noteq> 10) s)"

lemma length_skip_comment [termination_simp]: "length (skip_comment s) \<le> length s"
  unfolding skip_comment_def using length_dropWhile_le [of "\<lambda>c. c \<noteq> 10" s] by simp

definition number_char :: "8 word \<Rightarrow> bool" where
  "number_char c \<longleftrightarrow> isdigit c \<or> c = 46"

end
