(* ===== verification/Settings.thy ===== *)
theory Settings
  imports Strview Server Client
begin

text \<open>
  The settings file of the server (src/server_settings.c): the scanner, the parser of the
  section \<open>[server]\<close>, the defaults, and the text that is written back. A position in the file
  is the list of the bytes from it on, and a token comes with the bytes between the parser's
  tail and head. The texts of the diagnostics are not modelled. \<open>None\<close> as a result is undefined
  behaviour: a port that does not fit into its buffer, or a minus sign, after which the
  conversion of a number runs past the end of its text.
\<close>

section \<open>The scanner\<close>

datatype token =
  TOK_END
| TOK_LBRACKET
| TOK_RBRACKET
| TOK_EQUALS
| TOK_INTEGER (tok_value: int) (tok_text: "8 word list")
| TOK_FLOAT
| TOK_KEY (tok_key: "8 word list")

definition key_char :: "8 word \<Rightarrow> bool" where
  "key_char c \<longleftrightarrow> isalpha c \<or> c = 95"

text \<open>
  A minus sign starts a number that does not contain it. The flag says that the position is
  not the beginning of the file.
\<close>

fun scan_next_token :: "bool \<Rightarrow> 8 word list \<Rightarrow> (token \<times> 8 word list) option" where
  "scan_next_token inside [] = Some (TOK_END, [])"
| "scan_next_token inside (c # s) =
     (if c = 35 \<or> c = 59 then scan_next_token True (skip_comment s)
      else if c = 91 then Some (TOK_LBRACKET, s)
      else if c = 93 then Some (TOK_RBRACKET, s)
      else if c = 61 then Some (TOK_EQUALS, s)
      else if isdigit c \<or> c = 45 then
        (let text = takeWhile number_char (c # s); r = dropWhile number_char (c # s)
         in if 46 \<in> set text then Some (TOK_FLOAT, r)
            else map_option (\<lambda>v. (TOK_INTEGER v text, r)) (strview_to_integer inside (c # s) (length text)))
      else if isalpha c then Some (TOK_KEY (takeWhile key_char (c # s)), dropWhile key_char (c # s))
      else scan_next_token True s)"

lemma scan_shorter: "scan_next_token inside s = Some (tok, r) \<Longrightarrow> length r \<le> length s"
  using length_skip_comment
  by (induction inside s rule: scan_next_token.induct)
    (auto simp: Let_def split: if_splits
      intro: le_SucI order_trans length_dropWhile_le order_trans [OF length_dropWhile_le])

lemma scan_key_shorter: "scan_next_token inside s = Some (TOK_KEY k, r) \<Longrightarrow> length r < length s"
proof (induction inside s rule: scan_next_token.induct)
  case (2 inside c s)
  then show ?case
    using length_skip_comment [of s] length_dropWhile_le [of key_char s]
    by (auto simp: Let_def key_char_def less_Suc_eq_le split: if_splits)
qed simp

section \<open>The parser\<close>

text \<open>The integers of the settings, within bounds.\<close>

definition parse_integer ::
  "int \<Rightarrow> int \<Rightarrow> 8 word list \<Rightarrow> ((int \<times> 8 word list) option \<times> 8 word list) option" where
  "parse_integer lo hi p =
     map_option (\<lambda>(tok, p).
       (case tok of TOK_INTEGER v text \<Rightarrow> if v < lo \<or> v > hi then None else Some (v, text) | _ \<Rightarrow> None, p))
       (scan_next_token True p)"

definition parse_server_max_players ::
  "8 word list \<Rightarrow> server_settings \<Rightarrow> (int \<times> 8 word list \<times> server_settings) option" where
  "parse_server_max_players p s =
     map_option (\<lambda>(r, p). case r of None \<Rightarrow> (-1, p, s)
         | Some (v, text) \<Rightarrow> (0, p, s\<lparr>ss_max_players := word_of_int v\<rparr>))
       (parse_integer 1 65535 p)"

definition parse_server_max_username_len ::
  "8 word list \<Rightarrow> server_settings \<Rightarrow> (int \<times> 8 word list \<times> server_settings) option" where
  "parse_server_max_username_len p s =
     map_option (\<lambda>(r, p). case r of None \<Rightarrow> (-1, p, s)
         | Some (v, text) \<Rightarrow> (0, p, s\<lparr>ss_max_username_len := word_of_int v\<rparr>))
       (parse_integer 1 255 p)"

definition parse_server_sim_tick_rate ::
  "8 word list \<Rightarrow> server_settings \<Rightarrow> (int \<times> 8 word list \<times> server_settings) option" where
  "parse_server_sim_tick_rate p s =
     map_option (\<lambda>(r, p). case r of None \<Rightarrow> (-1, p, s)
         | Some (v, text) \<Rightarrow> (0, p, s\<lparr>ss_sim_tick_rate := word_of_int v\<rparr>))
       (parse_integer 1 255 p)"

definition parse_server_net_tick_rate ::
  "8 word list \<Rightarrow> server_settings \<Rightarrow> (int \<times> 8 word list \<times> server_settings) option" where
  "parse_server_net_tick_rate p s =
     map_option (\<lambda>(r, p). case r of None \<Rightarrow> (-1, p, s)
         | Some (v, text) \<Rightarrow> (0, p, s\<lparr>ss_net_tick_rate := word_of_int v\<rparr>))
       (parse_integer 1 255 p)"

definition parse_server_client_timeout ::
  "8 word list \<Rightarrow> server_settings \<Rightarrow> (int \<times> 8 word list \<times> server_settings) option" where
  "parse_server_client_timeout p s =
     map_option (\<lambda>(r, p). case r of None \<Rightarrow> (-1, p, s)
         | Some (v, text) \<Rightarrow> (0, p, s\<lparr>ss_client_timeout := word_of_int v\<rparr>))
       (parse_integer 0 65535 p)"

definition parse_server_malicious_timeout ::
  "8 word list \<Rightarrow> server_settings \<Rightarrow> (int \<times> 8 word list \<times> server_settings) option" where
  "parse_server_malicious_timeout p s =
     map_option (\<lambda>(r, p). case r of None \<Rightarrow> (-1, p, s)
         | Some (v, text) \<Rightarrow> (0, p, s\<lparr>ss_malicious_timeout := word_of_int v\<rparr>))
       (parse_integer 0 65535 p)"

text \<open>The text of the literal is copied into six bytes, with a terminator.\<close>

definition parse_server_port ::
  "8 word list \<Rightarrow> server_settings \<Rightarrow> (int \<times> 8 word list \<times> server_settings) option" where
  "parse_server_port p s =
     Option.bind (parse_integer 0 65535 p) (\<lambda>(r, p). case r of None \<Rightarrow> Some (-1, p, s)
       | Some value \<Rightarrow> if length (snd value) + 1 > 6 then None else Some (0, p, s\<lparr>ss_port := snd value\<rparr>))"

text \<open>One key and its value.\<close>

definition parse_server_key ::
  "8 word list \<Rightarrow> 8 word list \<Rightarrow> server_settings \<Rightarrow> (int \<times> 8 word list \<times> server_settings) option" where
  "parse_server_key key p s =
     (if key \<notin> set (map bytes [''max_players'', ''max_username_len'', ''sim_tick_rate'', ''net_tick_rate'',
           ''client_timeout'', ''malicious_timeout'', ''port''])
      then Some (-1, p, s)
      else
        Option.bind (scan_next_token True p) (\<lambda>(tok, p).
           if tok \<noteq> TOK_EQUALS then Some (-1, p, s)
           else if key = bytes ''max_players'' then parse_server_max_players p s
           else if key = bytes ''max_username_len'' then parse_server_max_username_len p s
           else if key = bytes ''sim_tick_rate'' then parse_server_sim_tick_rate p s
           else if key = bytes ''net_tick_rate'' then parse_server_net_tick_rate p s
           else if key = bytes ''client_timeout'' then parse_server_client_timeout p s
           else if key = bytes ''malicious_timeout'' then parse_server_malicious_timeout p s
           else parse_server_port p s))"

lemma parse_integer_shorter: "parse_integer lo hi p = Some (r, q) \<Longrightarrow> length q \<le> length p"
  using scan_shorter [of True p] by (auto simp: parse_integer_def case_prod_beta)

lemmas parse_server_number_defs = parse_server_max_players_def parse_server_max_username_len_def
  parse_server_sim_tick_rate_def parse_server_net_tick_rate_def parse_server_client_timeout_def
  parse_server_malicious_timeout_def

lemma parse_server_portE:
  assumes "parse_server_port p s = Some (r, q, s')"
  obtains "parse_integer 0 65535 p = Some (None, q)" "r = -1" "s' = s"
  | v t where "parse_integer 0 65535 p = Some (Some (v, t), q)" "r = 0" "length t \<le> 5"
      "s' = s\<lparr>ss_port := t\<rparr>"
proof (cases "parse_integer 0 65535 p")
  case (Some a)
  then show ?thesis
    using assms that by (cases "fst a"; cases a) (auto simp: parse_server_port_def split: if_splits)
qed (use assms in \<open>simp add: parse_server_port_def\<close>)

lemma parse_server_key_shorter:
  "parse_server_key key p s = Some (r, q, s') \<Longrightarrow> length q \<le> length p"
  by (auto simp: parse_server_key_def parse_server_number_defs bind_eq_Some_conv case_prod_beta
      split: option.splits if_splits dest!: parse_integer_shorter scan_shorter elim!: parse_server_portE)

text \<open>Any other token is returned as it is, which is not 0.\<close>

function parse_server_key_values ::
  "8 word list \<Rightarrow> server_settings \<Rightarrow> (bool \<times> server_settings) option" where
  "parse_server_key_values p s =
     (case scan_next_token True p of
        None \<Rightarrow> None
      | Some (TOK_END, p) \<Rightarrow> Some (True, s)
      | Some (TOK_KEY key, p) \<Rightarrow>
          (case parse_server_key key p s of
             None \<Rightarrow> None
           | Some (r, p, s) \<Rightarrow> if r \<noteq> 0 then Some (False, s) else parse_server_key_values p s)
      | _ \<Rightarrow> Some (False, s))"
  by pat_completeness auto
termination
  by (relation "measure (\<lambda>(p, s). length p)")
    (auto dest!: scan_key_shorter parse_server_key_shorter [OF sym] parse_server_key_shorter)

declare parse_server_key_values.simps [simp del]

text \<open>Whether the file could be parsed, and the settings.\<close>

definition parse_ini :: "8 word list \<Rightarrow> server_settings \<Rightarrow> (bool \<times> server_settings) option" where
  "parse_ini p s =
     Option.bind (scan_next_token False p) (\<lambda>(tok, p).
        if tok \<noteq> TOK_LBRACKET then Some (False, s)
        else Option.bind (scan_next_token True p) (\<lambda>(tok, p).
          if tok \<noteq> TOK_KEY (bytes ''server'') then Some (False, s)
          else Option.bind (scan_next_token True p) (\<lambda>(tok, p).
            if tok \<noteq> TOK_RBRACKET then Some (False, s) else parse_server_key_values p s)))"

definition server_settings_set_defaults :: server_settings where
  "server_settings_set_defaults = \<lparr>ss_max_players = 600, ss_client_timeout = 5, ss_malicious_timeout = 60,
     ss_max_username_len = 32, ss_sim_tick_rate = 60, ss_net_tick_rate = 20, ss_port = NET_DEFAULT_PORT\<rparr>"

text \<open>The file is what it contains, or nothing when it cannot be opened.\<close>

definition server_settings_load_or_set_defaults ::
  "(8 word list \<Rightarrow> 8 word list option) \<Rightarrow> 8 word list \<Rightarrow> (int \<times> server_settings) option" where
  "server_settings_load_or_set_defaults file filepath =
     (if filepath = [] then Some (0, server_settings_set_defaults)
      else case file filepath of
          None \<Rightarrow> Some (0, server_settings_set_defaults)
        | Some source \<Rightarrow>
            map_option (\<lambda>(ok, s). (if ok then 0 else -1, s)) (parse_ini source server_settings_set_defaults))"

section \<open>Saving\<close>

text \<open>What \<open>%d\<close> prints for a number that is not negative.\<close>

fun decimal :: "nat \<Rightarrow> 8 word list" where
  "decimal n = (if n < 10 then [word_of_nat (48 + n)] else decimal (n div 10) @ [word_of_nat (48 + n mod 10)])"

declare decimal.simps [simp del]

definition setting_line :: "string \<Rightarrow> 8 word list \<Rightarrow> string \<Rightarrow> 8 word list" where
  "setting_line key v comment = bytes key @ bytes '' = '' @ v @ bytes comment @ [10]"

definition server_settings_save :: "server_settings \<Rightarrow> 8 word list" where
  "server_settings_save s =
     bytes ''[server]'' @ [10] @
     setting_line ''max_players'' (decimal (unat (ss_max_players s)))
       ''     ; Total number of clients allowed to join the server'' @
     setting_line ''max_username_len'' (decimal (unat (ss_max_username_len s)))
       '' ; Limits the user name length'' @
     setting_line ''sim_tick_rate'' (decimal (unat (ss_sim_tick_rate s)))
       ''    ; Simulation speed in Hz'' @
     setting_line ''net_tick_rate'' (decimal (unat (ss_net_tick_rate s)))
       ''    ; Network update speed in Hz. Should be smaller or equal to simulation speed'' @
     setting_line ''client_timeout'' (decimal (unat (ss_client_timeout s)))
       ''    ; How many seconds to wait for a client before disconnecting them'' @
     setting_line ''malicious_timeout'' (decimal (unat (ss_malicious_timeout s)))
       '' ; How many seconds to keep a client on the malicious list'' @
     setting_line ''port'' ([34] @ ss_port s @ [34])
       ''         ; Port to bind server to''"

end
