(* ===== verification/Settings_Laws.thy ===== *)
theory Settings_Laws
  imports Settings
begin

text \<open>
  The correctness statements about the settings file: what is saved is read back, and what is
  read can be used.
\<close>

section \<open>Scanning what was printed\<close>

lemma bytes_append [simp]: "bytes (a @ b) = bytes a @ bytes b"
  by (simp add: bytes_def)

lemma skip_comment_text: "10 \<notin> set t \<Longrightarrow> skip_comment (t @ 10 # rest) = rest"
  by (induction t) (auto simp: skip_comment_def)

definition ignored :: "8 word \<Rightarrow> bool" where
  "ignored c \<longleftrightarrow> c \<notin> {35, 59, 91, 93, 61, 45} \<and> \<not> isdigit c \<and> \<not> isalpha c"

lemma scan_ignored: "list_all ignored t \<Longrightarrow> scan_next_token True (t @ rest) = scan_next_token True rest"
  by (induction t) (auto simp: ignored_def)

lemma scan_comment: "10 \<notin> set t \<Longrightarrow> scan_next_token True (59 # t @ 10 # rest) = scan_next_token True rest"
  by (simp add: skip_comment_text)

lemma takeWhile_stop: "list_all P t \<Longrightarrow> \<not> P c \<Longrightarrow> takeWhile P (t @ c # r) = t \<and> dropWhile P (t @ c # r) = c # r"
  by (induction t) auto

lemma scan_key:
  assumes "list_all key_char k" "k \<noteq> []" "isalpha (hd k)" "\<not> key_char c"
  shows "scan_next_token True (k @ c # rest) = Some (TOK_KEY k, c # rest)"
proof -
  obtain a t where k: "k = a # t"
    using assms(2) by (cases k) auto
  have a: "isalpha a" "a \<notin> {35, 59, 91, 93, 61, 45}" "\<not> isdigit a"
    using assms(3) k by (auto simp: isalpha_def isdigit_def word_le_nat_alt)
  show ?thesis
    using takeWhile_stop [OF assms(1,4), of rest] a unfolding k by simp
qed

lemma scan_integer:
  assumes "list_all isdigit d" "d \<noteq> []" "\<not> number_char c"
  shows "scan_next_token True (d @ c # rest) = Some (TOK_INTEGER (digits_value d) d, c # rest)"
proof -
  obtain a t where d: "d = a # t"
    using assms(2) by (cases d) auto
  have n: "list_all number_char d"
    using assms(1) by (induction d) (auto simp: number_char_def)
  have "isdigit a"
    using assms(1) d by simp
  then have a: "a \<notin> {35, 59, 91, 93, 61}" "isdigit a"
    by (auto simp: isdigit_def word_le_nat_alt)
  have "46 \<notin> set d"
    using assms(1) by (auto simp: list_all_iff isdigit_def word_le_nat_alt)
  moreover have "strview_to_integer True (d @ c # rest) (length d) = Some (digits_value d)"
    using a unfolding d by (simp add: strview_to_integer_def isdigit_def) auto
  ultimately show ?thesis
    using takeWhile_stop [OF n assms(3), of rest] a unfolding d by (simp add: Let_def)
qed

section \<open>Decimal numbers\<close>

lemma digit_char: "n < 10 \<Longrightarrow> isdigit (word_of_nat (48 + n)) \<and> uint (word_of_nat (48 + n) :: 8 word) = int n + 48"
  by (simp add: isdigit_def word_le_nat_alt unat_of_nat uint_nat del: of_nat_add)

lemma decimal_digits: "list_all isdigit (decimal n) \<and> decimal n \<noteq> []"
proof (induction n rule: decimal.induct)
  case (1 n)
  then show ?case
    using digit_char [of n] digit_char [of "n mod 10"] by (subst (1 2) decimal.simps) auto
qed

lemma decimal_value: "n < 2147483648 \<Longrightarrow> digits_value (decimal n) = int n"
proof (induction n rule: decimal.induct)
  case (1 n)
  show ?case
  proof (cases "n < 10")
    case True
    then show ?thesis
      using digit_char [OF True] by (subst decimal.simps) (simp add: digits_value_def i32_id)
  next
    case False
    have "digits_value (decimal (n div 10)) = int (n div 10)"
      using 1 False by simp
    moreover have "int (n div 10) * 10 + int (n mod 10) = int n"
      using div_mult_mod_eq [of n 10] by linarith
    moreover have "uint (word_of_nat (48 + n mod 10) :: 8 word) = int (n mod 10) + 48"
      using digit_char [of "n mod 10"] by simp
    ultimately show ?thesis
      using False 1(2) by (subst decimal.simps) (simp add: digits_value_def i32_id)
  qed
qed

section \<open>A line\<close>

text \<open>What follows the value up to the end of the line, which the scanner passes over.\<close>

definition line_rest :: "string \<Rightarrow> bool" where
  "line_rest c \<longleftrightarrow> (let pad = takeWhile ignored (bytes c)
     in pad \<noteq> [] \<and> \<not> number_char (hd pad) \<and>
        (case dropWhile ignored (bytes c) of [] \<Rightarrow> False | s # t \<Rightarrow> s = 59 \<and> 10 \<notin> set t))"

lemma scan_line_rest:
  assumes "line_rest c"
  shows "scan_next_token True (bytes c @ 10 # rest) = scan_next_token True rest"
    and "\<exists>a t. bytes c = a # t \<and> \<not> number_char a"
proof -
  obtain t where d: "dropWhile ignored (bytes c) = 59 # t" "10 \<notin> set t"
    using assms by (auto simp: line_rest_def Let_def split: list.splits)
  define pad where "pad = takeWhile ignored (bytes c)"
  have p: "bytes c = pad @ 59 # t" "list_all ignored pad" "pad \<noteq> []" "\<not> number_char (hd pad)" "10 \<notin> set t"
    using assms d takeWhile_dropWhile_id [of ignored "bytes c"]
    by (auto simp: line_rest_def Let_def pad_def list_all_iff dest: set_takeWhileD)
  show "scan_next_token True (bytes c @ 10 # rest) = scan_next_token True rest"
    using scan_ignored [OF p(2), of "59 # t @ 10 # rest"] scan_comment [OF p(5), of rest] p(1) by simp
  show "\<exists>a t. bytes c = a # t \<and> \<not> number_char a"
    using p(1,3,4) by (cases pad) auto
qed

definition key_name :: "string \<Rightarrow> bool" where
  "key_name k \<longleftrightarrow> list_all key_char (bytes k) \<and> bytes k \<noteq> [] \<and> isalpha (hd (bytes k))"

lemma scan_line:
  assumes "key_name k" "list_all isdigit d" "d \<noteq> []" "line_rest c"
  shows "scan_next_token True (setting_line k d c @ rest) = Some (TOK_KEY (bytes k), bytes '' = '' @ d @ bytes c @ 10 # rest)"
    and "scan_next_token True (bytes '' = '' @ q) = Some (TOK_EQUALS, 32 # q)"
    and "parse_integer lo hi (32 # d @ bytes c @ 10 # rest) =
      Some (if digits_value d < lo \<or> digits_value d > hi then None else Some (digits_value d, d),
       bytes c @ 10 # rest)"
proof -
  have sp: "bytes '' = '' = [32, 61, 32]"
    by (simp add: bytes_def)
  have k32: "\<not> key_char 32"
    by (simp add: key_char_def isalpha_def)
  show "scan_next_token True (setting_line k d c @ rest) = Some (TOK_KEY (bytes k), bytes '' = '' @ d @ bytes c @ 10 # rest)"
    using scan_key [OF _ _ _ k32, of "bytes k"] assms(1) by (simp add: setting_line_def sp key_name_def)
  show "scan_next_token True (bytes '' = '' @ q) = Some (TOK_EQUALS, 32 # q)"
    by (simp add: sp isdigit_def isalpha_def)
  obtain a t where c: "bytes c = a # t" "\<not> number_char a"
    using scan_line_rest(2) [OF assms(4)] by blast
  have "scan_next_token True (32 # d @ bytes c @ 10 # rest) = scan_next_token True (d @ a # (t @ 10 # rest))"
    by (simp add: c isdigit_def isalpha_def)
  then show "parse_integer lo hi (32 # d @ bytes c @ 10 # rest) =
      Some (if digits_value d < lo \<or> digits_value d > hi then None else Some (digits_value d, d),
       bytes c @ 10 # rest)"
    using scan_integer [OF assms(2,3) c(2), of "t @ 10 # rest"] by (simp add: parse_integer_def c)
qed

section \<open>The file\<close>

lemma key_values_cong:
  "scan_next_token True p = scan_next_token True q \<Longrightarrow> parse_server_key_values p s = parse_server_key_values q s"
  by (simp add: parse_server_key_values.simps [of p] parse_server_key_values.simps [of q])

lemma key_values_line:
  assumes "scan_next_token True line = Some (TOK_KEY k, p)" "parse_server_key k p s = Some (0, q, s')"
    and "scan_next_token True q = scan_next_token True rest"
  shows "parse_server_key_values line s = parse_server_key_values rest s'"
  using assms key_values_cong [OF assms(3)] by (simp add: parse_server_key_values.simps [of line])

lemma key_names:
  "key_name ''max_players''" "key_name ''max_username_len''" "key_name ''sim_tick_rate''"
  "key_name ''net_tick_rate''" "key_name ''client_timeout''" "key_name ''malicious_timeout''" "key_name ''port''"
  by code_simp+

lemma number_line:
  assumes "key_name k" "line_rest c" "n < 2147483648"
    and "\<And>p. parse_server_key (bytes k) (bytes '' = '' @ decimal n @ bytes c @ 10 # rest) s = Some (0, bytes c @ 10 # rest, s')"
  shows "parse_server_key_values (setting_line k (decimal n) c @ rest) s = parse_server_key_values rest s'"
  by (rule key_values_line [OF scan_line(1) assms(4) scan_line_rest(1)])
    (use assms decimal_digits [of n] in simp_all)

lemma comments:
  "line_rest ''     ; Total number of clients allowed to join the server''"
  "line_rest '' ; Limits the user name length''" "line_rest ''    ; Simulation speed in Hz''"
  "line_rest ''    ; Network update speed in Hz. Should be smaller or equal to simulation speed''"
  "line_rest ''    ; How many seconds to wait for a client before disconnecting them''"
  "line_rest '' ; How many seconds to keep a client on the malicious list''"
  "line_rest ''         ; Port to bind server to''"
  by code_simp+

lemma words_bound: "unat (x :: 16 word) < 65536" "unat (y :: 8 word) < 256"
  using unsigned_less [of x, where ?'a = nat] unsigned_less [of y, where ?'a = nat] by simp_all

lemma keys_distinct:
  "bytes ''max_username_len'' \<noteq> bytes ''max_players''" "bytes ''sim_tick_rate'' \<notin> {bytes ''max_players'', bytes ''max_username_len''}"
  "bytes ''net_tick_rate'' \<notin> {bytes ''max_players'', bytes ''max_username_len'', bytes ''sim_tick_rate''}"
  "bytes ''client_timeout'' \<notin> {bytes ''max_players'', bytes ''max_username_len'', bytes ''sim_tick_rate'', bytes ''net_tick_rate''}"
  "bytes ''malicious_timeout'' \<notin> {bytes ''max_players'', bytes ''max_username_len'', bytes ''sim_tick_rate'',
     bytes ''net_tick_rate'', bytes ''client_timeout''}"
  "bytes ''port'' \<notin> {bytes ''max_players'', bytes ''max_username_len'', bytes ''sim_tick_rate'',
     bytes ''net_tick_rate'', bytes ''client_timeout'', bytes ''malicious_timeout''}"
  by code_simp+

text \<open>What each of the keys does with a line that was printed.\<close>

lemma printed_keys:
  assumes "line_rest c"
  shows "ss_max_players t \<noteq> 0 \<Longrightarrow>
      parse_server_key (bytes ''max_players'') (bytes '' = '' @ decimal (unat (ss_max_players t)) @ bytes c @ 10 # rest) s =
        Some (0, bytes c @ 10 # rest, s\<lparr>ss_max_players := ss_max_players t\<rparr>)"
    and "ss_max_username_len t \<noteq> 0 \<Longrightarrow>
      parse_server_key (bytes ''max_username_len'') (bytes '' = '' @ decimal (unat (ss_max_username_len t)) @ bytes c @ 10 # rest) s =
        Some (0, bytes c @ 10 # rest, s\<lparr>ss_max_username_len := ss_max_username_len t\<rparr>)"
    and "ss_sim_tick_rate t \<noteq> 0 \<Longrightarrow>
      parse_server_key (bytes ''sim_tick_rate'') (bytes '' = '' @ decimal (unat (ss_sim_tick_rate t)) @ bytes c @ 10 # rest) s =
        Some (0, bytes c @ 10 # rest, s\<lparr>ss_sim_tick_rate := ss_sim_tick_rate t\<rparr>)"
    and "ss_net_tick_rate t \<noteq> 0 \<Longrightarrow>
      parse_server_key (bytes ''net_tick_rate'') (bytes '' = '' @ decimal (unat (ss_net_tick_rate t)) @ bytes c @ 10 # rest) s =
        Some (0, bytes c @ 10 # rest, s\<lparr>ss_net_tick_rate := ss_net_tick_rate t\<rparr>)"
    and "parse_server_key (bytes ''client_timeout'') (bytes '' = '' @ decimal (unat (ss_client_timeout t)) @ bytes c @ 10 # rest) s =
        Some (0, bytes c @ 10 # rest, s\<lparr>ss_client_timeout := ss_client_timeout t\<rparr>)"
    and "parse_server_key (bytes ''malicious_timeout'') (bytes '' = '' @ decimal (unat (ss_malicious_timeout t)) @ bytes c @ 10 # rest) s =
        Some (0, bytes c @ 10 # rest, s\<lparr>ss_malicious_timeout := ss_malicious_timeout t\<rparr>)"
proof -
  have eq: "scan_next_token True (bytes '' = '' @ q) = Some (TOK_EQUALS, 32 # q)" for q
    using scan_line(2) [OF key_names(1) _ _ assms, of "[48]"] by (simp add: isdigit_def)
  have int: "parse_integer lo hi (32 # decimal n @ bytes c @ 10 # rest) =
      Some (if int n < lo \<or> int n > hi then None else Some (int n, decimal n), bytes c @ 10 # rest)" if "n < 65536" for lo hi n
    using scan_line(3) [OF key_names(1) _ _ assms, of "decimal n"] decimal_digits [of n] decimal_value [of n] that by simp
  note w = words_bound
  have b: "unat (x :: 8 word) < 65536" for x
    using w(2) [of x] by linarith
  have pos: "x \<noteq> 0 \<Longrightarrow> 1 \<le> uint x" for x :: "'b::len word"
    using unsigned_greater_eq [of x, where ?'a = int] unsigned_eq_0_iff [of x, where ?'a = int] by linarith
  have u: "uint (x :: 16 word) < 65536" "uint (y :: 8 word) < 256" for x y
    using unsigned_less [of x, where ?'a = int] unsigned_less [of y, where ?'a = int] by simp_all
  show "ss_max_players t \<noteq> 0 \<Longrightarrow>
      parse_server_key (bytes ''max_players'') (bytes '' = '' @ decimal (unat (ss_max_players t)) @ bytes c @ 10 # rest) s =
        Some (0, bytes c @ 10 # rest, s\<lparr>ss_max_players := ss_max_players t\<rparr>)"
    using w(1) [of "ss_max_players t"] u(1) [of "ss_max_players t"] pos [of "ss_max_players t"]
    by (simp add: parse_server_key_def eq int parse_server_max_players_def keys_distinct)
  show "ss_max_username_len t \<noteq> 0 \<Longrightarrow>
      parse_server_key (bytes ''max_username_len'') (bytes '' = '' @ decimal (unat (ss_max_username_len t)) @ bytes c @ 10 # rest) s =
        Some (0, bytes c @ 10 # rest, s\<lparr>ss_max_username_len := ss_max_username_len t\<rparr>)"
    using w(2) [of "ss_max_username_len t"] u(2) [of "ss_max_username_len t"] pos [of "ss_max_username_len t"] keys_distinct
    by (simp add: parse_server_key_def eq int [OF b] parse_server_max_username_len_def)
  show "ss_sim_tick_rate t \<noteq> 0 \<Longrightarrow>
      parse_server_key (bytes ''sim_tick_rate'') (bytes '' = '' @ decimal (unat (ss_sim_tick_rate t)) @ bytes c @ 10 # rest) s =
        Some (0, bytes c @ 10 # rest, s\<lparr>ss_sim_tick_rate := ss_sim_tick_rate t\<rparr>)"
    using w(2) [of "ss_sim_tick_rate t"] u(2) [of "ss_sim_tick_rate t"] pos [of "ss_sim_tick_rate t"] keys_distinct
    by (simp add: parse_server_key_def eq int [OF b] parse_server_sim_tick_rate_def)
  show "ss_net_tick_rate t \<noteq> 0 \<Longrightarrow>
      parse_server_key (bytes ''net_tick_rate'') (bytes '' = '' @ decimal (unat (ss_net_tick_rate t)) @ bytes c @ 10 # rest) s =
        Some (0, bytes c @ 10 # rest, s\<lparr>ss_net_tick_rate := ss_net_tick_rate t\<rparr>)"
    using w(2) [of "ss_net_tick_rate t"] u(2) [of "ss_net_tick_rate t"] pos [of "ss_net_tick_rate t"] keys_distinct
    by (simp add: parse_server_key_def eq int [OF b] parse_server_net_tick_rate_def)
  show "parse_server_key (bytes ''client_timeout'') (bytes '' = '' @ decimal (unat (ss_client_timeout t)) @ bytes c @ 10 # rest) s =
        Some (0, bytes c @ 10 # rest, s\<lparr>ss_client_timeout := ss_client_timeout t\<rparr>)"
    using w(1) [of "ss_client_timeout t"] u(1) [of "ss_client_timeout t"] keys_distinct
    by (simp add: parse_server_key_def eq int parse_server_client_timeout_def)
  show "parse_server_key (bytes ''malicious_timeout'') (bytes '' = '' @ decimal (unat (ss_malicious_timeout t)) @ bytes c @ 10 # rest) s =
        Some (0, bytes c @ 10 # rest, s\<lparr>ss_malicious_timeout := ss_malicious_timeout t\<rparr>)"
    using w(1) [of "ss_malicious_timeout t"] u(1) [of "ss_malicious_timeout t"] keys_distinct
    by (simp add: parse_server_key_def eq int parse_server_malicious_timeout_def)
qed

text \<open>The port is printed between quotes, which the scanner passes over.\<close>

definition port_ok :: "server_settings \<Rightarrow> bool" where
  "port_ok s \<longleftrightarrow> list_all isdigit (ss_port s) \<and> ss_port s \<noteq> [] \<and> length (ss_port s) \<le> 5 \<and>
     digits_value (ss_port s) \<in> {0..65535}"

lemma port_line:
  assumes "port_ok t" "line_rest c"
  shows "parse_server_key_values (setting_line ''port'' ([34] @ ss_port t @ [34]) c @ rest) s =
    parse_server_key_values rest (s\<lparr>ss_port := ss_port t\<rparr>)"
proof (rule key_values_line)
  have q: "bytes '' = '' = [32, 61, 32]" "bytes ''port'' = [112, 111, 114, 116]"
    by (simp_all add: bytes_def)
  have k32: "\<not> key_char 32" and n34: "\<not> number_char 34"
    by (simp_all add: key_char_def number_char_def isalpha_def isdigit_def)
  have p: "list_all isdigit (ss_port t)" "ss_port t \<noteq> []" "length (ss_port t) < 6"
    "0 \<le> digits_value (ss_port t)" "digits_value (ss_port t) \<le> 65535"
    using assms(1) by (auto simp: port_ok_def)
  show "scan_next_token True (setting_line ''port'' ([34] @ ss_port t @ [34]) c @ rest) =
      Some (TOK_KEY (bytes ''port''), bytes '' = '' @ 34 # ss_port t @ 34 # bytes c @ 10 # rest)"
    using scan_key [OF _ _ _ k32, of "bytes ''port''"] key_names(7)
    by (simp add: setting_line_def q(1) key_name_def)
  have "scan_next_token True (32 # 34 # ss_port t @ 34 # bytes c @ 10 # rest) =
      Some (TOK_INTEGER (digits_value (ss_port t)) (ss_port t), 34 # bytes c @ 10 # rest)"
    using scan_integer [OF p(1,2) n34, of "bytes c @ 10 # rest"] by (simp add: isdigit_def isalpha_def)
  then have i: "parse_integer 0 65535 (32 # 34 # ss_port t @ 34 # bytes c @ 10 # rest) =
      Some (Some (digits_value (ss_port t), ss_port t), 34 # bytes c @ 10 # rest)"
    using p by (simp add: parse_integer_def)
  have e: "scan_next_token True (bytes '' = '' @ r) = Some (TOK_EQUALS, 32 # r)" for r
    by (simp add: q isdigit_def isalpha_def)
  show "parse_server_key (bytes ''port'') (bytes '' = '' @ 34 # ss_port t @ 34 # bytes c @ 10 # rest) s =
      Some (0, 34 # bytes c @ 10 # rest, s\<lparr>ss_port := ss_port t\<rparr>)"
    using p(3) keys_distinct by (simp add: parse_server_key_def e parse_server_port_def i)
  have "ignored 34"
    by (simp add: ignored_def isdigit_def isalpha_def)
  then show "scan_next_token True (34 # bytes c @ 10 # rest) = scan_next_token True rest"
    using scan_ignored [of "[34]" "bytes c @ 10 # rest"] scan_line_rest(1) [OF assms(2)] by simp
qed

text \<open>The settings that the parser accepts.\<close>

definition settings_ok :: "server_settings \<Rightarrow> bool" where
  "settings_ok s \<longleftrightarrow> ss_max_players s \<noteq> 0 \<and> ss_max_username_len s \<noteq> 0 \<and> ss_sim_tick_rate s \<noteq> 0 \<and>
     ss_net_tick_rate s \<noteq> 0"

lemma small_words: "unat (x :: 16 word) < 2147483648" "unat (y :: 8 word) < 2147483648"
  using words_bound(1) [of x] words_bound(2) [of y] by linarith+

lemmas printed_lines =
  number_line [OF key_names(1) comments(1) small_words(1) printed_keys(1) [OF comments(1)]]
  number_line [OF key_names(2) comments(2) small_words(2) printed_keys(2) [OF comments(2)]]
  number_line [OF key_names(3) comments(3) small_words(2) printed_keys(3) [OF comments(3)]]
  number_line [OF key_names(4) comments(4) small_words(2) printed_keys(4) [OF comments(4)]]
  number_line [OF key_names(5) comments(5) small_words(1) printed_keys(5) [OF comments(5)]]
  number_line [OF key_names(6) comments(6) small_words(1) printed_keys(6) [OF comments(6)]]

lemma end_of_file: "parse_server_key_values [] s = Some (True, s)"
  by (simp add: parse_server_key_values.simps)

lemma saved_values:
  assumes "settings_ok t" "port_ok t"
  shows "parse_ini (server_settings_save t) s = Some (True, t)"
proof -
  define body where "body = drop (length (bytes ''[server]'')) (server_settings_save t)"
  have b: "server_settings_save t = bytes ''[server]'' @ body"
    unfolding body_def server_settings_save_def by simp
  have sv: "bytes ''[server]'' = 91 # bytes ''server'' @ [93]" "key_name ''server''"
    by (simp_all add: bytes_def) code_simp
  have "scan_next_token True (bytes ''server'' @ 93 # body) = Some (TOK_KEY (bytes ''server''), 93 # body)"
    using scan_key [of "bytes ''server''" 93 body] sv(2) by (simp add: key_name_def key_char_def isalpha_def)
  then have "parse_ini (server_settings_save t) s = parse_server_key_values body s"
    by (simp add: b sv(1) parse_ini_def isdigit_def isalpha_def)
  also have "\<dots> = parse_server_key_values (drop 1 body) s"
    by (rule key_values_cong) (simp add: body_def server_settings_save_def isdigit_def isalpha_def)
  also have "\<dots> = Some (True, t)"
    using assms(1) unfolding body_def server_settings_save_def settings_ok_def
    by (simp add: printed_lines port_line [OF assms(2) comments(7), of "[]", simplified] end_of_file)
  finally show ?thesis .
qed

text \<open>
  Claim C18. Settings with non-zero limits and tick rates and a port of one to five digits, at most
  65535, are read back exactly as they were saved, whatever the comments that the file carries.
\<close>

theorem settings_roundtrip:
  assumes "settings_ok s" "port_ok s" "path \<noteq> []" "file path = Some (server_settings_save s)"
  shows "server_settings_load_or_set_defaults file path = Some (0, s)"
  using saved_values [OF assms(1,2)] assms(3,4) by (simp add: server_settings_load_or_set_defaults_def)

definition demo_saved :: server_settings where
  "demo_saved = \<lparr>ss_max_players = 16, ss_client_timeout = 9, ss_malicious_timeout = 70,
     ss_max_username_len = 40, ss_sim_tick_rate = 30, ss_net_tick_rate = 15, ss_port = bytes ''8080''\<rparr>"

theorem settings_roundtrip_witness:
  "server_settings_load_or_set_defaults (\<lambda>_. Some (server_settings_save demo_saved)) (bytes ''a.ini'') =
     Some (0, demo_saved)"
  by (rule settings_roundtrip)
    (simp_all add: settings_ok_def port_ok_def demo_saved_def bytes_def isdigit_def digits_value_def i32_id)

section \<open>What can be read\<close>

definition usable :: "server_settings \<Rightarrow> bool" where
  "usable s \<longleftrightarrow> settings_ok s \<and> port_ok s"

lemma usable_defaults: "usable server_settings_set_defaults"
  by (simp add: usable_def settings_ok_def port_ok_def server_settings_set_defaults_def NET_DEFAULT_PORT_def
      isdigit_def digits_value_def i32_id)

lemma integral_digits:
  "46 \<notin> set (takeWhile number_char s) \<Longrightarrow> x \<in> set (takeWhile number_char s) \<Longrightarrow> isdigit x"
  using set_takeWhileD [of x number_char s] by (auto simp: number_char_def)

lemma minus_no_number: "\<not> number_char 45"
  by (simp add: number_char_def isdigit_def)

lemma number_text:
  assumes "strview_to_integer True (c # s) (length (takeWhile number_char (c # s))) = Some v" "isdigit c \<or> c = 45"
  shows "takeWhile number_char (c # s) \<noteq> [] \<and> v = digits_value (takeWhile number_char (c # s))"
proof (cases "c = 45")
  case True
  then show ?thesis
    using assms(1) minus_no_number by (simp add: strview_to_integer_def split: if_splits)
next
  case False
  then have "number_char c" "isdigit c"
    using assms(2) by (auto simp: number_char_def)
  moreover have "take (length (takeWhile number_char (c # s))) (c # s) = takeWhile number_char (c # s)"
    by (metis append_eq_conv_conj takeWhile_dropWhile_id)
  ultimately show ?thesis
    using assms(1) False by (simp add: strview_to_integer_def split: if_splits)
qed

lemma integer_text:
  "scan_next_token b p = Some (TOK_INTEGER v t, q) \<Longrightarrow> b \<Longrightarrow> list_all isdigit t \<and> t \<noteq> [] \<and> v = digits_value t"
  by (induction b p rule: scan_next_token.induct)
    (auto simp: Let_def list_all_iff simp del: takeWhile.simps dest: integral_digits number_text split: if_splits)

lemma parse_integer_Some:
  assumes "parse_integer lo hi p = Some (Some (v, t), q)"
  shows "lo \<le> v \<and> v \<le> hi \<and> list_all isdigit t \<and> t \<noteq> [] \<and> v = digits_value t"
proof -
  obtain tok where "scan_next_token True p = Some (tok, q)"
      "(case tok of TOK_INTEGER v text \<Rightarrow> if v < lo \<or> v > hi then None else Some (v, text) | _ \<Rightarrow> None) = Some (v, t)"
    using assms by (auto simp: parse_integer_def)
  then show ?thesis
    using integer_text by (cases tok) (auto split: if_splits)
qed

lemma word_of_int_nonzero:
  "1 \<le> v \<Longrightarrow> v \<le> 65535 \<Longrightarrow> (word_of_int v :: 16 word) \<noteq> 0"
  "1 \<le> v \<Longrightarrow> v \<le> 255 \<Longrightarrow> (word_of_int v :: 8 word) \<noteq> 0"
  by (auto simp: word_of_int_eq_0_iff dest: zdvd_imp_le)

lemma usable_key:
  "parse_server_key key p s = Some (r, q, s') \<Longrightarrow> usable s \<Longrightarrow> usable s'"
  by (auto simp: parse_server_key_def parse_server_number_defs bind_eq_Some_conv case_prod_beta usable_def settings_ok_def port_ok_def word_of_int_nonzero
      split: option.splits if_splits dest!: parse_integer_Some elim!: parse_server_portE)

lemma usable_key_values:
  "parse_server_key_values p s = Some (ok, s') \<Longrightarrow> usable s \<Longrightarrow> usable s'"
proof (induction p s rule: parse_server_key_values.induct)
  case (1 p s)
  show ?case
    using "1.prems" "1.IH" unfolding parse_server_key_values.simps [of p s]
    by (auto split: prod.splits token.splits option.splits if_splits dest: usable_key) (metis usable_key)
qed

text \<open>
  Claim C24. Whatever file the server is started with, and whether it is parsed or rejected half
  way, as long as the parser stays within its buffers the settings it ends up with can be run:
  no limit or tick rate is zero, so that the number of simulation ticks per network tick is
  defined, and the port is a string of digits that fits into its buffer. A path that is empty or
  cannot be opened gives the defaults.
\<close>

theorem settings_usable:
  assumes "server_settings_load_or_set_defaults file path = Some (r, s)"
  shows "ss_max_players s \<noteq> 0 \<and> ss_max_username_len s \<noteq> 0 \<and> ss_sim_tick_rate s \<noteq> 0 \<and>
    granularity s \<noteq> None \<and> list_all isdigit (ss_port s) \<and> length (ss_port s) \<le> 5 \<and>
    (path = [] \<or> file path = None \<longrightarrow> r = 0 \<and> s = server_settings_set_defaults)"
proof -
  have "usable s"
    using assms usable_defaults
    by (auto simp: server_settings_load_or_set_defaults_def parse_ini_def bind_eq_Some_conv
        split: if_splits option.splits dest: usable_key_values)
  then show ?thesis
    using assms by (auto simp: usable_def settings_ok_def port_ok_def granularity_def server_settings_load_or_set_defaults_def
        split: if_splits option.splits)
qed

theorem settings_usable_witness:
  "\<exists>s. server_settings_load_or_set_defaults (\<lambda>_. Some (bytes ''[server] sim_tick_rate = 0'')) [97] = Some (-1, s) \<and>
     granularity s \<noteq> None"
proof -
  have "server_settings_load_or_set_defaults (\<lambda>_. Some (bytes ''[server] sim_tick_rate = 0'')) [97] =
      Some (-1, server_settings_set_defaults)"
    by code_simp
  then show ?thesis
    using settings_usable [of "\<lambda>_. Some (bytes ''[server] sim_tick_rate = 0'')" "[97]" "-1"
        server_settings_set_defaults] by simp
qed

text \<open>
  The text of the port is copied without a check of its length: leading zeros pass the check of
  the value and overflow the six bytes. A minus sign makes the conversion run past its text.
\<close>

lemma negative_number_overruns:
  "server_settings_load_or_set_defaults (\<lambda>_. Some (bytes ''[server] client_timeout = -5'')) [97] = None"
  by code_simp

lemma long_port_overflows:
  "server_settings_load_or_set_defaults (\<lambda>_. Some (bytes ''[server] port = 000080'')) [97] = None"
  by code_simp

end
