(* ===== verification/Strlist.thy ===== *)
theory Strlist
  imports Strview Sorted_Arrays "HOL-Library.List_Lexorder"
begin

text \<open>
  The list of strings (src/strlist.c, include/clither/strlist.h). One block of memory holds the
  characters, which grow upwards, and the table of spans, which grows downwards from its end.
  The block is modelled as its bytes and, apart from them, the spans by their index; that the
  two do not meet is the invariant. \<open>u\<close> is what fresh memory holds. The allocator is taken
  to have memory; sizes stay in the range of an \<open>int\<close>.
\<close>

section \<open>The structure\<close>

record strspan =
  sp_off :: int
  sp_len :: int

record strlist =
  sl_count :: int
  sl_str_used :: int
  sl_capacity :: int
  sl_data :: "8 word list"
  sl_table :: "strspan list"

text \<open>The size of a span, the terminator, and the first capacity.\<close>

definition SPAN_SIZE :: int where
  "SPAN_SIZE = 8"

definition EXTRA_PADDING :: int where
  "EXTRA_PADDING = 1"

section \<open>Operations\<close>

text \<open>
  The loop doubles the capacity, which is never negative, and moves the table to the new end.
\<close>

function strlist_grow_loop :: "(nat \<Rightarrow> 8 word) \<Rightarrow> (nat \<Rightarrow> strspan) \<Rightarrow> int \<Rightarrow> strlist \<Rightarrow> strlist" where
  "strlist_grow_loop u us need l =
     (if sl_capacity l < need
      then let cap = sl_capacity l; grow_size = (if cap > 0 then cap else 128)
        in strlist_grow_loop u us need
             (l\<lparr>sl_capacity := cap + grow_size,
                sl_data := realloc_data u (cap + grow_size) (sl_data l),
                sl_table := realloc_data us ((cap + grow_size) div SPAN_SIZE)
                  (take (nat (sl_count l)) (sl_table l))\<rparr>)
      else l)"
  by pat_completeness auto
termination
  by (relation "measure (\<lambda>(u, us, need, l). nat (need - sl_capacity l) +
        (if sl_capacity l > 0 then 0 else nat (- sl_capacity l) + 1))")
    (auto simp: Let_def)

declare strlist_grow_loop.simps [simp del]

definition strlist_init :: "strlist option" where
  "strlist_init = None"

definition strlist_grow ::
  "(nat \<Rightarrow> 8 word) \<Rightarrow> (nat \<Rightarrow> strspan) \<Rightarrow> strlist option \<Rightarrow> int \<Rightarrow> strlist" where
  "strlist_grow u us p str_len =
     (let l = (case p of Some l \<Rightarrow> l
        | None \<Rightarrow> \<lparr>sl_count = 0, sl_str_used = 0, sl_capacity = 0, sl_data = [], sl_table = []\<rparr>)
      in strlist_grow_loop u us (SPAN_SIZE * (sl_count l + 1) + sl_str_used l + str_len + EXTRA_PADDING) l)"

definition put_bytes :: "int \<Rightarrow> 8 word list \<Rightarrow> 8 word list \<Rightarrow> 8 word list" where
  "put_bytes off bs d = take (nat off) d @ bs @ drop (nat off + length bs) d"

definition strlist_add ::
  "(nat \<Rightarrow> 8 word) \<Rightarrow> (nat \<Rightarrow> strspan) \<Rightarrow> strlist option \<Rightarrow> 8 word list \<Rightarrow> strlist" where
  "strlist_add u us p str =
     (let l = strlist_grow u us p (int (length str));
          ref = \<lparr>sp_off = sl_str_used l, sp_len = int (length str)\<rparr>
      in l\<lparr>sl_table := (sl_table l)[nat (sl_count l) := ref],
           sl_data := put_bytes (sp_off ref) (str @ [0]) (sl_data l),
           sl_str_used := sl_str_used l + int (length str) + EXTRA_PADDING,
           sl_count := sl_count l + 1\<rparr>)"

text \<open>The loops that move the offsets of the spans from \<open>lo\<close> up to \<open>hi\<close>.\<close>

definition shift_spans :: "int \<Rightarrow> int \<Rightarrow> int \<Rightarrow> strspan list \<Rightarrow> strspan list" where
  "shift_spans lo hi d t = take (nat lo) t @
     map (\<lambda>sp. sp\<lparr>sp_off := sp_off sp + d\<rparr>) (take (nat hi - nat lo) (drop (nat lo) t)) @ drop (nat hi) t"

definition strlist_insert ::
  "(nat \<Rightarrow> 8 word) \<Rightarrow> (nat \<Rightarrow> strspan) \<Rightarrow> strlist option \<Rightarrow> int \<Rightarrow> 8 word list \<Rightarrow> strlist" where
  "strlist_insert u us p i str =
     (let len = int (length str); l = strlist_grow u us p len; off = sp_off (sl_table l ! nat i);
          l = (if i < sl_count l
             then l\<lparr>sl_data := memmove (off + len + EXTRA_PADDING) off (sl_str_used l - off) (sl_data l),
                    sl_table := shift_spans (i + 1) (sl_count l + 1) (len + EXTRA_PADDING)
                      (memmove (i + 1) i (sl_count l - i) (sl_table l))\<rparr>
             else l\<lparr>sl_table := (sl_table l)[nat i := (sl_table l ! nat i)\<lparr>sp_off := sl_str_used l\<rparr>]\<rparr>);
          off = sp_off (sl_table l ! nat i)
      in l\<lparr>sl_data := put_bytes off str (sl_data l),
           sl_table := (sl_table l)[nat i := (sl_table l ! nat i)\<lparr>sp_len := len\<rparr>],
           sl_str_used := sl_str_used l + len + EXTRA_PADDING,
           sl_count := sl_count l + 1\<rparr>)"

definition strlist_erase :: "strlist \<Rightarrow> int \<Rightarrow> strlist" where
  "strlist_erase l idx =
     (let off = sp_off (sl_table l ! nat idx); str_gap = sp_len (sl_table l ! nat idx) + EXTRA_PADDING;
          l = (if idx < sl_count l - 1
             then l\<lparr>sl_data := memmove off (off + str_gap) (sl_str_used l - off - str_gap) (sl_data l),
                    sl_table := shift_spans idx (sl_count l - 1) (- str_gap)
                      (memmove idx (idx + 1) (sl_count l - idx - 1) (sl_table l))\<rparr>
             else l)
      in l\<lparr>sl_str_used := sl_str_used l - str_gap, sl_count := sl_count l - 1\<rparr>)"

definition strlist_span :: "strlist \<Rightarrow> int \<Rightarrow> strspan" where
  "strlist_span l i = sl_table l ! nat i"

definition strlist_view :: "strlist \<Rightarrow> int \<Rightarrow> 8 word list" where
  "strlist_view l i =
     (let span = strlist_span l i in take (nat (sp_len span)) (drop (nat (sp_off span)) (sl_data l)))"

definition strlist_cstr :: "strlist \<Rightarrow> int \<Rightarrow> 8 word list" where
  "strlist_cstr l i = takeWhile (\<lambda>c. c \<noteq> 0) (drop (nat (sp_off (strlist_span l i))) (sl_data l))"

definition strlist_count :: "strlist option \<Rightarrow> int" where
  "strlist_count p = (case p of None \<Rightarrow> 0 | Some l \<Rightarrow> sl_count l)"

fun memcmp :: "8 word list \<Rightarrow> 8 word list \<Rightarrow> nat \<Rightarrow> int" where
  "memcmp a b 0 = 0"
| "memcmp a b (Suc n) =
     (if hd a < hd b then -1 else if hd b < hd a then 1 else memcmp (tl a) (tl b) n)"

definition lexicographically_less :: "8 word list \<Rightarrow> 8 word list \<Rightarrow> bool" where
  "lexicographically_less s1 s2 =
     (let cmp = memcmp s1 s2 (if length s1 < length s2 then length s1 else length s2)
      in if cmp = 0 then length s1 < length s2 else cmp < 0)"

text \<open>Both searches are the loop of the sorted containers, with another test.\<close>

definition strlist_lower_bound :: "strlist option \<Rightarrow> 8 word list \<Rightarrow> int" where
  "strlist_lower_bound p str =
     lower_bound_loop (\<lambda>m. lexicographically_less (strlist_view (the p) m) str) 0 (strlist_count p)"

definition strlist_upper_bound :: "strlist option \<Rightarrow> 8 word list \<Rightarrow> int" where
  "strlist_upper_bound p str =
     lower_bound_loop (\<lambda>m. \<not> lexicographically_less str (strlist_view (the p) m)) 0 (strlist_count p)"

section \<open>Representation\<close>

text \<open>The strings with the byte that follows each of them, and their spans.\<close>

fun spans :: "int \<Rightarrow> 8 word list list \<Rightarrow> strspan list" where
  "spans off [] = []"
| "spans off (c # cs) = \<lparr>sp_off = off, sp_len = int (length c) - 1\<rparr> # spans (off + int (length c)) cs"

definition sl_rep :: "strlist \<Rightarrow> 8 word list list \<Rightarrow> bool" where
  "sl_rep l cs \<longleftrightarrow> [] \<notin> set cs \<and> sl_count l = int (length cs) \<and> sl_str_used l = int (length (concat cs)) \<and>
     (\<exists>rest. sl_table l = spans 0 cs @ rest) \<and> (\<exists>rest. sl_data l = concat cs @ rest) \<and>
     0 \<le> sl_capacity l \<and> int (length (sl_data l)) = sl_capacity l \<and>
     int (length (sl_table l)) = sl_capacity l div SPAN_SIZE \<and>
     SPAN_SIZE * sl_count l + sl_str_used l \<le> sl_capacity l"

definition slp_rep :: "strlist option \<Rightarrow> 8 word list list \<Rightarrow> bool" where
  "slp_rep p cs \<longleftrightarrow> (case p of None \<Rightarrow> cs = [] | Some l \<Rightarrow> sl_rep l cs)"

definition sl_ok :: "strlist option \<Rightarrow> bool" where
  "sl_ok p \<longleftrightarrow> (\<exists>cs. slp_rep p cs)"

definition sl_strings :: "strlist option \<Rightarrow> 8 word list list" where
  "sl_strings p = map (\<lambda>i. strlist_view (the p) (int i)) [0..<nat (strlist_count p)]"

lemma spans_append [simp]: "spans off (a @ b) = spans off a @ spans (off + int (length (concat a))) b"
  by (induction a arbitrary: off) (simp_all add: add.assoc)

lemma length_spans [simp]: "length (spans off cs) = length cs"
  by (induction cs arbitrary: off) simp_all

lemma map_spans [simp]: "map (\<lambda>sp. sp\<lparr>sp_off := sp_off sp + d\<rparr>) (spans off cs) = spans (off + d) cs"
  by (induction cs arbitrary: off) (simp_all add: algebra_simps)

lemma map_spans_down [simp]: "map (\<lambda>sp. sp\<lparr>sp_off := sp_off sp - d\<rparr>) (spans off cs) = spans (off - d) cs"
  using map_spans [of "- d"] by simp

lemma nth_spans: "i < length cs \<Longrightarrow>
    spans off cs ! i = \<lparr>sp_off = off + int (length (concat (take i cs))), sp_len = int (length (cs ! i)) - 1\<rparr>"
proof (induction cs arbitrary: off i)
  case (Cons c cs)
  then show ?case by (cases i) simp_all
qed simp

lemma concat_split: "i \<le> length cs \<Longrightarrow> concat cs = concat (take i cs) @ concat (drop i cs)"
  by (simp flip: concat_append)

lemma rep_view:
  assumes "sl_rep l cs" "i < length cs"
  shows "strlist_view l (int i) = butlast (cs ! i)"
proof -
  obtain rt rd where r: "sl_table l = spans 0 cs @ rt" "sl_data l = concat cs @ rd"
    using assms(1) by (auto simp: sl_rep_def)
  have "concat cs = concat (take i cs) @ cs ! i @ concat (drop (Suc i) cs)"
    using concat_split [of i cs] assms(2) by (simp add: Cons_nth_drop_Suc [symmetric])
  then show ?thesis
    using assms(2) r
    by (simp add: strlist_view_def strlist_span_def nth_append nth_spans butlast_conv_take Let_def nat_diff_distrib')
qed

lemma rep_strings: "slp_rep p cs \<Longrightarrow> sl_strings p = map butlast cs"
  by (rule nth_equalityI)
    (auto simp: slp_rep_def sl_strings_def strlist_count_def rep_view sl_rep_def split: option.splits)

section \<open>Growing\<close>

lemma grow_loop_rep:
  assumes "sl_rep l cs"
  shows "sl_rep (strlist_grow_loop u us need l) cs \<and> need \<le> sl_capacity (strlist_grow_loop u us need l)"
  using assms
proof (induction u us need l rule: strlist_grow_loop.induct)
  case (1 u us need l)
  show ?case
  proof (cases "sl_capacity l < need")
    case True
    define g where "g = (if sl_capacity l > 0 then sl_capacity l else 128)"
    define l' where "l' = l\<lparr>sl_capacity := sl_capacity l + g, sl_data := realloc_data u (sl_capacity l + g) (sl_data l),
        sl_table := realloc_data us ((sl_capacity l + g) div SPAN_SIZE) (take (nat (sl_count l)) (sl_table l))\<rparr>"
    obtain rt rd where r: "sl_table l = spans 0 cs @ rt" "sl_data l = concat cs @ rd"
      using "1.prems" by (auto simp: sl_rep_def)
    have room: "int (length cs) \<le> sl_capacity l div SPAN_SIZE" "sl_capacity l div SPAN_SIZE \<le> (sl_capacity l + g) div SPAN_SIZE"
      using "1.prems" by (auto simp: sl_rep_def SPAN_SIZE_def g_def intro: zdiv_mono1)
    have g: "0 < g"
      by (simp add: g_def)
    have "nat (sl_count l) = length cs"
      using "1.prems" by (simp add: sl_rep_def)
    then have t: "\<exists>rest. sl_table l' = spans 0 cs @ rest"
      using r(1) room by (simp add: l'_def realloc_data_def)
    have "length (concat cs) \<le> length (sl_data l)" "int (length (sl_data l)) = sl_capacity l"
      using "1.prems" r(2) by (simp_all add: sl_rep_def)
    then have d: "\<exists>rest. sl_data l' = concat cs @ rest"
      using r(2) g by (simp add: l'_def realloc_data_def)
    have c: "sl_count l' = sl_count l" "sl_str_used l' = sl_str_used l" "sl_capacity l' = sl_capacity l + g"
      "int (length (sl_data l')) = sl_capacity l + g"
      "int (length (sl_table l')) = (sl_capacity l + g) div SPAN_SIZE"
      using "1.prems" g room by (simp_all add: l'_def sl_rep_def)
    have "sl_rep l' cs"
      using "1.prems" t d g unfolding sl_rep_def c by auto
    then have "sl_rep (strlist_grow_loop u us need l') cs \<and> need \<le> sl_capacity (strlist_grow_loop u us need l')"
      using "1.IH" [OF True refl refl] unfolding l'_def g_def by blast
    moreover have "strlist_grow_loop u us need l = strlist_grow_loop u us need l'"
      unfolding l'_def g_def using True by (subst strlist_grow_loop.simps) (simp add: Let_def)
    ultimately show ?thesis
      by simp
  qed (use "1.prems" in \<open>simp add: strlist_grow_loop.simps\<close>)
qed

lemma grow_rep:
  assumes "slp_rep p cs"
  obtains "sl_rep (strlist_grow u us p n) cs"
    "SPAN_SIZE * (int (length cs) + 1) + int (length (concat cs)) + n + 1 \<le> sl_capacity (strlist_grow u us p n)"
proof -
  define l where "l = (case p of Some l \<Rightarrow> l
        | None \<Rightarrow> \<lparr>sl_count = 0, sl_str_used = 0, sl_capacity = 0, sl_data = [], sl_table = []\<rparr>)"
  have "sl_rep l cs"
    using assms by (auto simp: slp_rep_def l_def sl_rep_def split: option.splits)
  moreover have "sl_count l = int (length cs)" "sl_str_used l = int (length (concat cs))"
    using calculation by (simp_all add: sl_rep_def)
  ultimately show thesis
    using grow_loop_rep [of l cs u us "SPAN_SIZE * (sl_count l + 1) + sl_str_used l + n + EXTRA_PADDING"] that
    by (simp add: strlist_grow_def l_def [symmetric] EXTRA_PADDING_def)
qed

section \<open>Adding, inserting and erasing\<close>

lemma put_bytes_append:
  "length bs \<le> length r \<Longrightarrow> put_bytes (int (length a)) bs (a @ r) = a @ bs @ drop (length bs) r"
  by (simp add: put_bytes_def)

lemma memmove_up:
  "k \<le> length r \<Longrightarrow> memmove (int (length a) + int k) (int (length a)) (int (length b)) (a @ b @ r) =
     a @ take k (b @ r) @ b @ drop k r"
  using memmove_nat [of "length a + k" "length a" "length b" "a @ b @ r"] by simp

lemma memmove_down:
  "memmove (int (length a)) (int (length a) + int (length b)) (int (length c)) (a @ b @ c @ r) =
     a @ c @ drop (length c) (b @ c @ r)"
  using memmove_nat [of "length a" "length a + length b" "length c" "a @ b @ c @ r"] by simp

lemma shift_spans_append:
  assumes "lo = int (length a)" "hi = lo + int (length b)"
  shows "shift_spans lo hi d (a @ b @ r) = a @ map (\<lambda>sp. sp\<lparr>sp_off := sp_off sp + d\<rparr>) b @ r"
  using assms by (simp add: shift_spans_def nat_add_distrib)

lemma add_rep:
  assumes "slp_rep p cs"
  shows "sl_rep (strlist_add u us p s) (cs @ [s @ [0]])"
proof -
  define l where "l = strlist_grow u us p (int (length s))"
  have l: "sl_rep l cs" "SPAN_SIZE * (int (length cs) + 1) + int (length (concat cs)) + int (length s) + 1 \<le> sl_capacity l"
    unfolding l_def using grow_rep [OF assms] by blast+
  obtain rt rd where r: "sl_table l = spans 0 cs @ rt" "sl_data l = concat cs @ rd"
    using l(1) by (auto simp: sl_rep_def)
  have "length s + 1 \<le> length rd"
    using l r by (auto simp: sl_rep_def SPAN_SIZE_def)
  moreover have "rt \<noteq> []"
    using l r by (auto simp: sl_rep_def SPAN_SIZE_def)
  ultimately show ?thesis
    using l r put_bytes_append [of "s @ [0]" rd "concat cs"]
    by (auto simp: strlist_add_def l_def [symmetric] sl_rep_def SPAN_SIZE_def EXTRA_PADDING_def
        list_update_append neq_Nil_conv)
qed

lemma insert_rep:
  assumes "slp_rep p cs" "i \<le> length cs"
  shows "\<exists>z. sl_rep (strlist_insert u us p (int i) s) (take i cs @ [s @ [z]] @ drop i cs)"
proof -
  define l where "l = strlist_grow u us p (int (length s))"
  have l: "sl_rep l cs" "SPAN_SIZE * (int (length cs) + 1) + int (length (concat cs)) + int (length s) + 1 \<le> sl_capacity l"
    unfolding l_def using grow_rep [OF assms(1)] by blast+
  obtain rt rd where r: "sl_table l = spans 0 cs @ rt" "sl_data l = concat cs @ rd"
    using l(1) by (auto simp: sl_rep_def)
  have rd: "length s + 1 \<le> length rd" and rt: "rt \<noteq> []"
    using l r by (auto simp: sl_rep_def SPAN_SIZE_def)
  define a where "a = take i cs"
  define b where "b = drop i cs"
  have cs: "cs = a @ b" "length a = i" "concat cs = concat a @ concat b"
    using assms(2) by (simp_all add: a_def b_def flip: concat_append)
  obtain t0 rt' where t0: "rt = t0 # rt'"
    using rt by (cases rt) auto
  have cnt: "sl_count l = int i + int (length b)" "sl_str_used l = int (length (concat a)) + int (length (concat b))"
    using l(1) cs by (simp_all add: sl_rep_def)
  show ?thesis
  proof (cases b)
    case Nil
    define z where "z = rd ! length s"
    have "drop (length s) rd = z # drop (Suc (length s)) rd"
      using rd by (simp add: z_def Cons_nth_drop_Suc)
    then have d: "put_bytes (sl_str_used l) s (sl_data l) = concat a @ s @ [z] @ drop (Suc (length s)) rd"
      using put_bytes_append [of s rd "concat a"] rd r(2) cs cnt Nil by simp
    have t: "sl_table l = spans 0 a @ t0 # rt'"
      using r(1) t0 cs Nil by simp
    have "sl_rep (strlist_insert u us p (int i) s) (a @ [s @ [z]])"
      using l cs cnt Nil t d rd r
      by (auto simp: strlist_insert_def l_def [symmetric] sl_rep_def SPAN_SIZE_def EXTRA_PADDING_def
          Let_def nth_append list_update_append)
    then show ?thesis
      using Nil by (auto simp: a_def b_def)
  next
    case (Cons b0 b')
    define X where "X = take (length s + 1) (concat b @ rd)"
    have X: "length X = length s + 1"
      using rd by (simp add: X_def)
    define z where "z = X ! length s"
    have dX: "drop (length s) X = [z]"
      using X Cons_nth_drop_Suc [of "length s" X] by (simp add: z_def)
    have off: "sl_table l ! i = \<lparr>sp_off = int (length (concat a)), sp_len = int (length b0) - 1\<rparr>"
      using r(1) cs Cons nth_append by (simp add: nth_append flip: cs(2))
    have d1: "memmove (int (length (concat a)) + int (length s) + 1) (int (length (concat a))) (int (length (concat b))) (sl_data l) =
        concat a @ X @ concat b @ drop (length s + 1) rd"
      using memmove_up [of "length s + 1" rd "concat a" "concat b"] rd r(2) cs by (simp add: X_def algebra_simps)
    have d: "put_bytes (int (length (concat a))) s (concat a @ X @ concat b @ drop (length s + 1) rd) =
        concat a @ s @ [z] @ concat b @ drop (length s + 1) rd"
      using put_bytes_append [of s "X @ concat b @ drop (length s + 1) rd" "concat a"] X dX by simp
    have t1: "memmove (int i + 1) (int i) (int (length b)) (sl_table l) =
        (spans 0 a @ [sl_table l ! i]) @ spans (int (length (concat a))) b @ rt'"
      using memmove_up [of 1 rt "spans 0 a" "spans (int (length (concat a))) b"] r(1) cs off Cons t0
      by (simp add: algebra_simps)
    have t2: "shift_spans (int i + 1) (int i + int (length b) + 1) (int (length s) + 1)
        ((spans 0 a @ [sl_table l ! i]) @ spans (int (length (concat a))) b @ rt') =
        spans 0 a @ [sl_table l ! i] @ spans (int (length (concat a)) + (int (length s) + 1)) b @ rt'"
      using shift_spans_append [of "int i + 1" "spans 0 a @ [sl_table l ! i]" "int i + int (length b) + 1"
          "spans (int (length (concat a))) b" "int (length s) + 1" rt'] cs(2) by simp
    have less: "(int i < int i + int (length b)) = True"
      using Cons by simp
    have "strlist_insert u us p (int i) s = l\<lparr>
        sl_data := concat a @ s @ [z] @ concat b @ drop (length s + 1) rd,
        sl_table := spans 0 a @ \<lparr>sp_off = int (length (concat a)), sp_len = int (length s)\<rparr> #
          spans (int (length (concat a)) + (int (length s) + 1)) b @ rt',
        sl_str_used := sl_str_used l + int (length s) + 1, sl_count := sl_count l + 1\<rparr>"
      using d unfolding strlist_insert_def Let_def l_def [symmetric] EXTRA_PADDING_def
      by (simp only: nat_int cnt less off strspan.select_convs strlist.simps if_True
          add_diff_cancel_left' d1 t1 [unfolded off] t2 [unfolded off])
        (simp add: nth_append list_update_append cs(2) cnt)
    then have "sl_rep (strlist_insert u us p (int i) s) (a @ [s @ [z]] @ b)"
      using l cs r rd t0 by (auto simp: sl_rep_def SPAN_SIZE_def add.commute add.left_commute)
    then show ?thesis
      by (auto simp: a_def b_def)
  qed
qed

lemma erase_rep:
  assumes "sl_rep l cs" "i < length cs"
  shows "sl_rep (strlist_erase l (int i)) (take i cs @ drop (Suc i) cs)"
proof -
  define a where "a = take i cs"
  define c where "c = cs ! i"
  define b where "b = drop (Suc i) cs"
  have cs: "cs = a @ c # b" "length a = i"
    using assms(2) by (simp_all add: a_def b_def c_def id_take_nth_drop)
  obtain rt rd where r: "sl_table l = spans 0 a @ \<lparr>sp_off = int (length (concat a)), sp_len = int (length c) - 1\<rparr> #
        spans (int (length (concat a)) + int (length c)) b @ rt" "sl_data l = concat a @ c @ concat b @ rd"
    using assms(1) cs by (auto simp: sl_rep_def)
  have off: "sl_table l ! i = \<lparr>sp_off = int (length (concat a)), sp_len = int (length c) - 1\<rparr>"
    using r(1) cs(2) by (simp add: nth_append)
  have cnt: "sl_count l = int i + int (length b) + 1"
    "sl_str_used l = int (length (concat a)) + int (length c) + int (length (concat b))"
    using assms(1) cs by (simp_all add: sl_rep_def)
  have "sl_rep (strlist_erase l (int i)) (a @ b)"
  proof (cases b)
    case Nil
    have "strlist_erase l (int i) = l\<lparr>sl_str_used := int (length (concat a)), sl_count := int i\<rparr>"
      by (simp add: strlist_erase_def off cnt Nil EXTRA_PADDING_def)
    then show ?thesis
      using assms(1) cs r Nil by (auto simp: sl_rep_def SPAN_SIZE_def)
  next
    case (Cons b0 b')
    have d: "memmove (int (length (concat a))) (int (length (concat a)) + int (length c)) (int (length (concat b))) (sl_data l) =
        concat a @ concat b @ drop (length (concat b)) (c @ concat b @ rd)"
      unfolding r(2) by (rule memmove_down)
    define S where "S = spans (int (length (concat a)) + int (length c)) b"
    have t: "memmove (int i) (int i + 1) (int (length b)) (sl_table l) =
        spans 0 a @ S @ drop (length b) (sl_table l ! i # S @ rt)"
      using memmove_down [of "spans 0 a" "[sl_table l ! i]" S rt] r(1) cs(2) off by (simp add: S_def)
    have t2: "shift_spans (int i) (int i + int (length b)) (- int (length c))
        (spans 0 a @ S @ drop (length b) (sl_table l ! i # S @ rt)) =
        spans 0 a @ spans (int (length (concat a))) b @ drop (length b) (sl_table l ! i # S @ rt)"
      using shift_spans_append [of "int i" "spans 0 a" "int i + int (length b)" S "- int (length c)"
          "drop (length b) (sl_table l ! i # S @ rt)"] cs(2) by (simp add: S_def)
    have g: "sp_len (sl_table l ! i) + 1 = int (length c)" "(int i < int i + int (length b)) = True"
      "int i + int (length b) + 1 - int i - 1 = int (length b)" "int i + int (length b) + 1 - 1 = int i + int (length b)"
      "int (length (concat a)) + int (length c) + int (length (concat b)) - int (length (concat a)) - int (length c) =
        int (length (concat b))"
      using off Cons by simp_all
    have "strlist_erase l (int i) = l\<lparr>
        sl_data := concat a @ concat b @ drop (length (concat b)) (c @ concat b @ rd),
        sl_table := spans 0 a @ spans (int (length (concat a))) b @ drop (length b) (sl_table l ! i # S @ rt),
        sl_str_used := int (length (concat a)) + int (length (concat b)), sl_count := int i + int (length b)\<rparr>"
      unfolding strlist_erase_def Let_def EXTRA_PADDING_def
      by (simp only: nat_int cnt g if_True d t t2 arg_cong [OF off, of sp_off] strspan.select_convs strlist.simps)
        (simp add: cnt)
    then show ?thesis
      using assms(1) cs r by (auto simp: sl_rep_def SPAN_SIZE_def S_def)
  qed
  then show ?thesis
    by (simp add: a_def b_def)
qed

section \<open>Searching\<close>

lemma lexicographically_less: "lexicographically_less a b \<longleftrightarrow> a < b"
proof (induction a arbitrary: b)
  case Nil
  then show ?case
    by (cases b) (simp_all add: lexicographically_less_def)
next
  case (Cons x a)
  show ?case
  proof (cases b)
    case (Cons y b')
    then show ?thesis
      using Cons.IH [of b'] by (auto simp: lexicographically_less_def Let_def)
  qed (simp add: lexicographically_less_def)
qed

lemma sl_view: "0 \<le> m \<Longrightarrow> m < strlist_count p \<Longrightarrow> strlist_view (the p) m = sl_strings p ! nat m"
  by (simp add: sl_strings_def)

lemma length_strings: "slp_rep p cs \<Longrightarrow> strlist_count p = int (length cs) \<and> length (sl_strings p) = length cs"
  by (auto simp: rep_strings) (auto simp: slp_rep_def strlist_count_def sl_rep_def split: option.splits)

lemma count_strings: "sl_ok p \<Longrightarrow> strlist_count p = int (length (sl_strings p))"
  using length_strings by (auto simp: sl_ok_def)

lemma bound_partition:
  assumes "sorted xs" "\<And>x y. x \<le> y \<Longrightarrow> P y \<Longrightarrow> P x" "i < length xs"
  shows "P (xs ! i) \<longleftrightarrow> i < length (takeWhile P xs)"
proof
  assume p: "P (xs ! i)"
  show "i < length (takeWhile P xs)"
  proof (rule ccontr)
    assume "\<not> i < length (takeWhile P xs)"
    then have n: "length (takeWhile P xs) < length xs" "xs ! length (takeWhile P xs) \<le> xs ! i"
      using assms(1,3) by (auto intro: sorted_nth_mono)
    then show False
      using nth_length_takeWhile [OF n(1)] assms(2) p by blast
  qed
qed (metis nth_mem set_takeWhileD takeWhile_nth)

lemma strlist_bound:
  assumes "sl_ok p" "sorted (sl_strings p)" "\<And>x y. x \<le> y \<Longrightarrow> P y \<Longrightarrow> P x"
  shows "lower_bound_loop (\<lambda>m. P (strlist_view (the p) m)) 0 (strlist_count p) =
    int (length (takeWhile P (sl_strings p)))"
proof (rule lower_bound_loop_partition)
  note cs = count_strings [OF assms(1)]
  show "int (length (takeWhile P (sl_strings p))) \<le> 0 + strlist_count p"
    using cs length_takeWhile_le [of P "sl_strings p"] by simp
  fix m assume m: "0 \<le> m" "m < 0 + strlist_count p"
  then have "nat m < length (sl_strings p)"
    using cs by simp
  from bound_partition [OF assms(2) assms(3) this]
  show "P (strlist_view (the p) m) \<longleftrightarrow> m < int (length (takeWhile P (sl_strings p)))"
    using m by (simp add: sl_view zless_nat_eq_int_zless [symmetric] nat_less_iff)
qed simp

lemma strlist_lower_bound_eq:
  "sl_ok p \<Longrightarrow> sorted (sl_strings p) \<Longrightarrow>
     strlist_lower_bound p s = int (length (takeWhile (\<lambda>x. x < s) (sl_strings p)))"
  unfolding strlist_lower_bound_def lexicographically_less by (rule strlist_bound) auto

lemma strlist_upper_bound_eq:
  "sl_ok p \<Longrightarrow> sorted (sl_strings p) \<Longrightarrow>
     strlist_upper_bound p s = int (length (takeWhile (\<lambda>x. x \<le> s) (sl_strings p)))"
  unfolding strlist_upper_bound_def lexicographically_less not_less by (rule strlist_bound) auto

section \<open>The list of strings\<close>

lemma strings_rep: "sl_rep l cs \<Longrightarrow> sl_ok (Some l) \<and> sl_strings (Some l) = map butlast cs"
  using rep_strings [of "Some l" cs] by (auto simp: sl_ok_def slp_rep_def)

lemma strlist_add_strings:
  assumes "sl_ok p"
  shows "sl_ok (Some (strlist_add u us p s)) \<and> sl_strings (Some (strlist_add u us p s)) = sl_strings p @ [s]"
proof -
  obtain cs where cs: "slp_rep p cs"
    using assms by (auto simp: sl_ok_def)
  show ?thesis
    using strings_rep [OF add_rep [OF cs, of u us s]] rep_strings [OF cs] by simp
qed

lemma insert_strings:
  assumes "sl_ok p" "i \<le> length (sl_strings p)"
  shows "sl_ok (Some (strlist_insert u us p (int i) s)) \<and>
    sl_strings (Some (strlist_insert u us p (int i) s)) = take i (sl_strings p) @ s # drop i (sl_strings p)"
proof -
  obtain cs where cs: "slp_rep p cs"
    using assms(1) by (auto simp: sl_ok_def)
  obtain z where "sl_rep (strlist_insert u us p (int i) s) (take i cs @ [s @ [z]] @ drop i cs)"
    using insert_rep [OF cs, of i u us s] length_strings [OF cs] assms(2) by auto
  then show ?thesis
    using strings_rep rep_strings [OF cs] by (simp add: take_map drop_map)
qed

text \<open>
  Claim C22. The list of strings implements a list: adding appends, inserting at a position and
  erasing one keep all the other strings and their order, and the strings and the table of
  their spans never overlap in the block, however often it is reallocated.
\<close>

theorem strlist_refines_list:
  assumes "sl_ok p"
  shows "(sl_ok (Some (strlist_add u us p s)) \<and> sl_strings (Some (strlist_add u us p s)) = sl_strings p @ [s]) \<and>
    (i \<le> length (sl_strings p) \<longrightarrow>
      sl_ok (Some (strlist_insert u us p (int i) s)) \<and>
      sl_strings (Some (strlist_insert u us p (int i) s)) = take i (sl_strings p) @ s # drop i (sl_strings p)) \<and>
    (p = Some l \<and> i < length (sl_strings p) \<longrightarrow>
      sl_ok (Some (strlist_erase l (int i))) \<and>
      sl_strings (Some (strlist_erase l (int i))) = take i (sl_strings p) @ drop (Suc i) (sl_strings p))"
proof -
  obtain cs where cs: "slp_rep p cs"
    using assms by (auto simp: sl_ok_def)
  have "sl_ok (Some (strlist_erase l (int i))) \<and>
      sl_strings (Some (strlist_erase l (int i))) = take i (sl_strings p) @ drop (Suc i) (sl_strings p)"
    if "p = Some l" "i < length (sl_strings p)"
    using strings_rep [OF erase_rep [of l cs i]] cs that length_strings [OF cs] rep_strings [OF cs]
    by (simp add: slp_rep_def take_map drop_map)
  then show ?thesis
    using strlist_add_strings [OF assms, of u us s] insert_strings [OF assms, of i u us s] by auto
qed

definition demo_list :: "strlist option" where
  "demo_list = Some (strlist_add (\<lambda>_. 0) (\<lambda>_. \<lparr>sp_off = 0, sp_len = 0\<rparr>) None (bytes ''cd''))"

lemma demo_list_ok: "sl_ok demo_list"
  using add_rep [of None "[]"] by (force simp: demo_list_def sl_ok_def slp_rep_def)

theorem strlist_refines_list_witness:
  "sl_strings (Some (strlist_add (\<lambda>_. 7) (\<lambda>_. \<lparr>sp_off = 0, sp_len = 0\<rparr>) demo_list (bytes ''ef''))) =
     sl_strings demo_list @ [bytes ''ef'']"
  using strlist_refines_list [OF demo_list_ok] by blast

text \<open>
  In a sorted list the two searches find the first and the last position at which a
  string can be inserted without changing the order.
\<close>

lemma strlist_bounds_sorted:
  assumes "sl_ok p" "sorted (sl_strings p)"
  shows "strlist_lower_bound p s \<le> strlist_upper_bound p s \<and>
    strlist_upper_bound p s \<le> strlist_count p \<and>
    (\<forall>i < length (sl_strings p). (int i < strlist_lower_bound p s \<longleftrightarrow> sl_strings p ! i < s) \<and>
       (int i < strlist_upper_bound p s \<longleftrightarrow> sl_strings p ! i \<le> s)) \<and>
    (\<forall>i. strlist_lower_bound p s \<le> int i \<and> int i \<le> strlist_upper_bound p s \<longrightarrow>
       sorted (sl_strings (Some (strlist_insert u us p (int i) s))))"
proof -
  let ?xs = "sl_strings p"
  note lo = strlist_lower_bound_eq [OF assms, of s] and up = strlist_upper_bound_eq [OF assms, of s]
  have p: "int i < strlist_lower_bound p s \<longleftrightarrow> ?xs ! i < s" "int i < strlist_upper_bound p s \<longleftrightarrow> ?xs ! i \<le> s"
    if "i < length ?xs" for i
    using bound_partition [OF assms(2) _ that, of "\<lambda>x. x < s"] bound_partition [OF assms(2) _ that, of "\<lambda>x. x \<le> s"]
    by (auto simp: lo up)
  have le: "strlist_upper_bound p s \<le> int (length ?xs)"
    by (simp add: up length_takeWhile_le)
  have lu: "strlist_lower_bound p s \<le> strlist_upper_bound p s"
  proof -
    have "length (takeWhile (\<lambda>x. x < s) ys) \<le> length (takeWhile (\<lambda>x. x \<le> s) ys)" for ys
      by (induction ys) auto
    then show ?thesis
      unfolding lo up by simp
  qed
  have "sorted (take i ?xs @ s # drop i ?xs)"
    if "strlist_lower_bound p s \<le> int i" "int i \<le> strlist_upper_bound p s" for i
  proof -
    have "x \<le> s" if x: "x \<in> set (take i ?xs)" for x
    proof -
      obtain j where "j < i" "j < length ?xs" "x = ?xs ! j"
        using x by (auto simp: in_set_conv_nth)
      then show ?thesis
        using p(2) [of j] \<open>int i \<le> strlist_upper_bound p s\<close> by simp
    qed
    moreover have "s \<le> x" if x: "x \<in> set (drop i ?xs)" for x
    proof -
      obtain j where "j < length (drop i ?xs)" "x = drop i ?xs ! j"
        using x by (metis in_set_conv_nth)
      then show ?thesis
        using p(1) [of "i + j"] \<open>strlist_lower_bound p s \<le> int i\<close> by (simp add: not_less [symmetric])
    qed
    ultimately show ?thesis
      using assms(2) by (fastforce simp: sorted_append sorted_wrt_take sorted_wrt_drop)
  qed
  then show ?thesis
    using p lu le insert_strings [OF assms(1)] count_strings [OF assms(1)] by auto
qed

text \<open>An inserted string has no terminator: read as a C string, it goes on with what was there.\<close>

lemma inserted_string_unterminated:
  "strlist_view (strlist_insert (\<lambda>_. 0) (\<lambda>_. \<lparr>sp_off = 0, sp_len = 0\<rparr>) demo_list 0 (bytes ''x'')) 0 = bytes ''x'' \<and>
   strlist_cstr (strlist_insert (\<lambda>_. 0) (\<lambda>_. \<lparr>sp_off = 0, sp_len = 0\<rparr>) demo_list 0 (bytes ''x'')) 0 = bytes ''xdcd''"
  by code_simp

end
