(* ===== verification/Str.thy ===== *)
theory Str
  imports Strlist Vec
begin

text \<open>
  Character strings that grow (src/str.c, include/clither/str.h): a vector of characters with
  16 bit indices, whose count includes the terminator. Results are a status and the string;
  \<open>None\<close> is undefined behaviour. The allocator is taken to have memory.
\<close>

section \<open>Operations\<close>

type_synonym str = "8 word vec"

definition str_init :: "str option" where
  "str_init = vec_init"

definition str_len :: "str option \<Rightarrow> int" where
  "str_len p = (case p of None \<Rightarrow> 0 | Some v \<Rightarrow> vec_cnt v - 1)"

definition str_cstr :: "str option \<Rightarrow> 8 word list" where
  "str_cstr p = (case p of None \<Rightarrow> [] | Some v \<Rightarrow> takeWhile (\<lambda>c. c \<noteq> 0) (vec_data v))"

text \<open>The capacity is asked for in 16 bits.\<close>

definition str_reserve :: "(nat \<Rightarrow> 8 word) \<Rightarrow> str option \<Rightarrow> int \<Rightarrow> int \<times> str option" where
  "str_reserve u p n = (if vec_capacity p < n then vec_realloc 16 True u p (sx 16 n) else (0, p))"

definition str_write :: "int \<Rightarrow> 8 word list \<Rightarrow> str \<Rightarrow> str option" where
  "str_write off s v =
     (let len = off + int (length s)
      in if len + 1 > vec_cap v then None
         else Some (v\<lparr>vec_data := put_bytes off (s @ [0]) (vec_data v), vec_cnt := sx 16 (len + 1)\<rparr>))"

definition str_set_cstr ::
  "(nat \<Rightarrow> 8 word) \<Rightarrow> str option \<Rightarrow> 8 word list \<Rightarrow> (int \<times> str option) option" where
  "str_set_cstr u p cstr =
     (case str_reserve u p (int (length cstr) + 1) of
        (r, p) \<Rightarrow> if r \<noteq> 0 then Some (-1, p)
          else (case p of None \<Rightarrow> None | Some v \<Rightarrow> map_option (\<lambda>v. (0, Some v)) (str_write 0 cstr v)))"

text \<open>The separator is put over the terminator, unless there is one in its place.\<close>

definition str_join_path ::
  "(nat \<Rightarrow> 8 word) \<Rightarrow> str option \<Rightarrow> 8 word list \<Rightarrow> (int \<times> str option) option" where
  "str_join_path u p path =
     (let len = str_len p
      in case str_reserve u p (len + 1 + int (length path) + 1) of
           (r, p) \<Rightarrow> if r \<noteq> 0 then Some (-1, p)
             else (case p of None \<Rightarrow> None
               | Some v \<Rightarrow> map_option (\<lambda>v. (0, Some v))
                   (if vec_data v ! nat len \<noteq> 47
                    then str_write (len + 1) path (v\<lparr>vec_data := (vec_data v)[nat len := 47]\<rparr>)
                    else str_write len path v)))"

definition str_join_path_cstr ::
  "(nat \<Rightarrow> 8 word) \<Rightarrow> str option \<Rightarrow> 8 word list \<Rightarrow> (int \<times> str option) option" where
  "str_join_path_cstr u p path = str_join_path u p path"

definition cstr_ends_with :: "8 word list \<Rightarrow> 8 word list \<Rightarrow> bool" where
  "cstr_ends_with cstr suffix =
     (if length cstr < length suffix then False else drop (length cstr - length suffix) cstr = suffix)"

section \<open>Contents\<close>

definition str_holds :: "str option \<Rightarrow> 8 word list \<Rightarrow> bool" where
  "str_holds p s \<longleftrightarrow> (case p of None \<Rightarrow> False
     | Some v \<Rightarrow> vec_ok 16 v \<and> vec_cnt v = int (length s) + 1 \<and> (\<exists>rest. vec_data v = s @ 0 # rest))"

lemma str_reserve_ok:
  assumes "vecp_ok 16 p" "0 < n" "n < 32768"
  obtains v r where "str_reserve u p n = (0, Some v)" "vec_ok 16 v" "n \<le> vec_cap v"
    "vec_data v = (case p of None \<Rightarrow> [] | Some w \<Rightarrow> vec_data w) @ r"
proof (cases "vec_capacity p < n")
  case True
  have n: "sx 16 n = n"
    using assms by (simp add: sx_id in_sx_def)
  show thesis
  proof (cases p)
    case None
    then show ?thesis
      using that [of "\<lparr>vec_cnt = 0, vec_cap = n, vec_data = realloc_data u n []\<rparr>"] True assms n
      by (simp add: str_reserve_def vec_realloc_def vec_ok_def)
  next
    case (Some w)
    then have w: "vec_ok 16 w" "vec_cap w < n"
      using True assms by simp_all
    then have l: "length (vec_data w) \<le> nat n" "\<not> n < vec_cnt w"
      unfolding vec_ok_def by linarith+
    define v where "v = w\<lparr>vec_data := realloc_data u n (vec_data w), vec_cap := n\<rparr>"
    have "str_reserve u p n = (0, Some v)"
      using Some True assms(2) l(2) by (simp add: str_reserve_def n vec_realloc_def v_def)
    moreover have "vec_ok 16 v"
      using w l assms(2,3) by (simp add: vec_ok_def v_def)
    ultimately show ?thesis
      using that l(1) Some by (simp add: v_def realloc_data_def)
  qed
next
  case False
  then obtain v where "p = Some v" "n \<le> vec_cap v"
    using assms(2) by (cases p) auto
  then show thesis
    using that [of v "[]"] assms(1) by (simp add: str_reserve_def)
qed

lemma str_write_holds:
  assumes "vec_ok 16 v" "0 \<le> off" "off + int (length s) + 1 \<le> vec_cap v"
  shows "\<exists>w. str_write off s v = Some w \<and> str_holds (Some w) (take (nat off) (vec_data v) @ s)"
proof -
  have "sx 16 (off + int (length s) + 1) = off + int (length s) + 1"
    using assms by (intro sx_id) (auto simp: vec_ok_def in_sx_def)
  then show ?thesis
    using assms by (auto simp: str_write_def str_holds_def vec_ok_def put_bytes_def Let_def)
qed

lemma str_set_cstr_ok:
  assumes "vecp_ok 16 p" "length s < 32767"
  obtains q where "str_set_cstr u p s = Some (0, q)" "str_holds q s"
proof -
  obtain v where v: "str_reserve u p (int (length s) + 1) = (0, Some v)" "vec_ok 16 v" "int (length s) + 1 \<le> vec_cap v"
    using str_reserve_ok [OF assms(1), of "int (length s) + 1"] assms(2) by auto
  then show thesis
    using str_write_holds [OF v(2), of 0 s] that by (auto simp: str_set_cstr_def)
qed

text \<open>The separator is always added, also after another one.\<close>

lemma str_join_path_ok:
  assumes "str_holds p s" "length s + length t < 32766"
  obtains q where "str_join_path u p t = Some (0, q)" "str_holds q (s @ 47 # t)"
proof -
  obtain w rest where w: "p = Some w" "vec_ok 16 w" "vec_cnt w = int (length s) + 1" "vec_data w = s @ 0 # rest"
    using assms(1) by (auto simp: str_holds_def split: option.splits)
  define n where "n = int (length s) + 1 + int (length t) + 1"
  have n: "0 < n" "n < 32768"
    using assms(2) by (simp_all add: n_def)
  have vw: "vecp_ok 16 p"
    using w by simp
  obtain v r where v: "str_reserve u p n = (0, Some v)" "vec_ok 16 v" "n \<le> vec_cap v" "vec_data v = vec_data w @ r"
    using str_reserve_ok [OF vw n, of u] w(1) by auto
  obtain r' where d: "vec_data v = s @ 0 # r'"
    using v(4) w(4) by auto
  define v' where "v' = v\<lparr>vec_data := (vec_data v)[length s := 47]\<rparr>"
  have v': "vec_ok 16 v'" "int (length s) + 1 + int (length t) + 1 \<le> vec_cap v'"
    "take (nat (int (length s) + 1)) (vec_data v') = s @ [47]"
    using v(2,3) d by (simp_all add: v'_def vec_ok_def n_def nat_add_distrib)
  obtain q where "str_write (int (length s) + 1) t v' = Some q" "str_holds (Some q) (s @ 47 # t)"
    using str_write_holds [OF v'(1), of "int (length s) + 1" t] v'(2,3) by auto
  then have "str_join_path u p t = Some (0, Some q)" "str_holds (Some q) (s @ 47 # t)"
    using v(1) w d by (simp_all add: str_join_path_def str_len_def n_def v'_def nth_append)
  then show thesis
    by (rule that)
qed

lemma takeWhile_terminated: "takeWhile (\<lambda>c. c \<noteq> 0) (s @ 0 # r) = takeWhile (\<lambda>c. c \<noteq> (0::8 word)) s"
  by (induction s) auto

lemma str_holds_cstr: "str_holds p s \<Longrightarrow> str_cstr p = takeWhile (\<lambda>c. c \<noteq> 0) s"
  by (auto simp: str_holds_def str_cstr_def takeWhile_terminated simp del: takeWhile_append split: option.splits)

lemma str_holds_ok: "str_holds p s \<Longrightarrow> vecp_ok 16 p"
  by (auto simp: str_holds_def split: option.splits)

end
