(* ===== verification/ResourcePack.thy ===== *)
theory ResourcePack
  imports Str
begin

text \<open>
  Resource packs (src/resource_pack.c, include/clither/resource_pack.h): the scanner and the
  parser of a pack's config.ini, which names the shaders and the sprites of the game. A
  position in the file is the list of the bytes from it on. Functions that return a token or
  -1 return a token, \<open>PTOK_ERROR\<close> for -1 and \<open>PTOK_END\<close> for 0. \<open>None\<close> is undefined behaviour.
  Memory is taken to be available.
\<close>

section \<open>Data\<close>

record resource_sprite =
  rs_textures :: "strlist option"
  rs_tile_x :: int
  rs_tile_y :: int
  rs_num_frames :: int
  rs_fps :: int
  rs_scale :: real

record resource_snake_part =
  rp_base :: "resource_sprite option"
  rp_gather :: "resource_sprite option"
  rp_boost :: "resource_sprite option"
  rp_turn :: "resource_sprite option"
  rp_projectile :: "resource_sprite option"
  rp_split :: "resource_sprite option"
  rp_armor :: "resource_sprite option"

record resource_pack =
  pk_glsl_background :: "strlist option"
  pk_glsl_shadow :: "strlist option"
  pk_glsl_sprite :: "strlist option"
  pk_background :: "resource_sprite option vec option"
  pk_heads :: "resource_snake_part vec option"
  pk_bodies :: "resource_snake_part vec option"
  pk_tails :: "resource_snake_part vec option"

text \<open>What fresh memory holds.\<close>

record pack_junk =
  pj_byte :: "nat \<Rightarrow> 8 word"
  pj_span :: "nat \<Rightarrow> strspan"
  pj_sprite :: "nat \<Rightarrow> resource_sprite option"
  pj_part :: "nat \<Rightarrow> resource_snake_part"

definition resource_sprite_create :: resource_sprite where
  "resource_sprite_create = \<lparr>rs_textures = strlist_init, rs_tile_x = 1, rs_tile_y = 1, rs_num_frames = 1,
     rs_fps = 0, rs_scale = 1\<rparr>"

definition resource_snake_part_init :: resource_snake_part where
  "resource_snake_part_init = \<lparr>rp_base = None, rp_gather = None, rp_boost = None, rp_turn = None,
     rp_projectile = None, rp_split = None, rp_armor = None\<rparr>"

definition resource_pack_init :: resource_pack where
  "resource_pack_init = \<lparr>pk_glsl_background = strlist_init, pk_glsl_shadow = strlist_init,
     pk_glsl_sprite = strlist_init, pk_background = vec_init, pk_heads = vec_init, pk_bodies = vec_init,
     pk_tails = vec_init\<rparr>"

section \<open>The scanner\<close>

datatype pack_token =
  PTOK_ERROR
| PTOK_END
| PTOK_LBRACKET
| PTOK_RBRACKET
| PTOK_COMMA
| PTOK_PERIOD
| PTOK_EQUALS
| PTOK_INTEGER int
| PTOK_FLOAT real
| PTOK_STRING "8 word list"
| PTOK_KEY "8 word list"

text \<open>Up to a quote that no backslash precedes; \<open>prev\<close> is the character before the position.\<close>

fun scan_string :: "8 word \<Rightarrow> 8 word list \<Rightarrow> (8 word list \<times> 8 word list) option" where
  "scan_string prev [] = None"
| "scan_string prev (c # s) =
     (if c = 34 \<and> prev \<noteq> 92 then Some ([], s)
      else map_option (\<lambda>(t, r). (c # t, r)) (scan_string c s))"

lemma scan_string_shorter: "scan_string prev s = Some (t, r) \<Longrightarrow> length r < length s"
  by (induction prev s arbitrary: t rule: scan_string.induct) (fastforce split: if_splits)+

fun pack_scan_next_token :: "bool \<Rightarrow> 8 word list \<Rightarrow> (pack_token \<times> 8 word list) option" where
  "pack_scan_next_token inside [] = Some (PTOK_END, [])"
| "pack_scan_next_token inside (c # s) =
     (if c = 35 \<or> c = 59 then pack_scan_next_token True (skip_comment s)
      else if c = 91 then Some (PTOK_LBRACKET, s)
      else if c = 93 then Some (PTOK_RBRACKET, s)
      else if c = 44 then Some (PTOK_COMMA, s)
      else if c = 46 then Some (PTOK_PERIOD, s)
      else if c = 61 then Some (PTOK_EQUALS, s)
      else if isdigit c \<or> c = 45 then
        (let t = takeWhile number_char (c # s); r = dropWhile number_char (c # s)
         in if 46 \<in> set t
            then map_option (\<lambda>v. (PTOK_FLOAT v, r)) (strview_to_float inside (c # s) (length t))
            else map_option (\<lambda>v. (PTOK_INTEGER v, r)) (strview_to_integer inside (c # s) (length t)))
      else if c = 34 then
        (case scan_string 34 s of None \<Rightarrow> Some (PTOK_ERROR, [])
         | Some (t, r) \<Rightarrow> Some (PTOK_STRING t, r))
      else if isalpha c then Some (PTOK_KEY (takeWhile isalnum (c # s)), dropWhile isalnum (c # s))
      else pack_scan_next_token True s)"

lemma pack_scan_shorter: "pack_scan_next_token inside s = Some (tok, r) \<Longrightarrow> length r \<le> length s"
proof (induction inside s rule: pack_scan_next_token.induct)
  case (2 inside c s)
  then show ?case
    using length_skip_comment [of s] length_dropWhile_le [of number_char s] length_dropWhile_le [of isalnum s]
    by (auto simp: Let_def split: if_splits option.splits dest!: scan_string_shorter)
qed simp

lemma pack_scan_less:
  "pack_scan_next_token inside s = Some (tok, r) \<Longrightarrow> tok \<in> {PTOK_EQUALS, PTOK_RBRACKET, PTOK_COMMA} \<Longrightarrow>
     length r < length s"
proof (induction inside s rule: pack_scan_next_token.induct)
  case (2 inside c s)
  then show ?case
    using length_skip_comment [of s]
    by (auto simp: Let_def split: if_splits option.splits intro: less_SucI)
qed simp

lemmas pack_scan_symbol =
  pack_scan_less [of _ _ PTOK_EQUALS, simplified] pack_scan_less [of _ _ PTOK_RBRACKET, simplified]
  pack_scan_less [of _ _ PTOK_COMMA, simplified]

section \<open>Strings and values\<close>

text \<open>A list of strings, each behind the path of the pack; \<open>str\<close> is the buffer they share.\<close>

function pack_parse_string_list ::
  "pack_junk \<Rightarrow> 8 word list \<Rightarrow> str option \<Rightarrow> strlist option \<Rightarrow> 8 word list \<Rightarrow>
     (pack_token \<times> strlist option \<times> 8 word list) option" where
  "pack_parse_string_list u path_prefix str list p =
     (case pack_scan_next_token True p of
        None \<Rightarrow> None
      | Some (PTOK_STRING s, p) \<Rightarrow>
          Option.bind (str_set_cstr (pj_byte u) str path_prefix) (\<lambda>(r, str).
            if r \<noteq> 0 then Some (PTOK_ERROR, list, p)
            else Option.bind (str_join_path (pj_byte u) str s) (\<lambda>(r, str).
              if r \<noteq> 0 then Some (PTOK_ERROR, list, p)
              else let list = Some (strlist_add (pj_byte u) (pj_span u) list (str_cstr str))
                in Option.bind (pack_scan_next_token True p) (\<lambda>(tok, p).
                  if tok = PTOK_COMMA then pack_parse_string_list u path_prefix str list p
                  else Some (tok, list, p))))
      | Some (_, p) \<Rightarrow> Some (PTOK_ERROR, list, p))"
  by pat_completeness auto
termination
  by (relation "measure (\<lambda>(u, path_prefix, str, list, p). length p)")
    (auto dest!: pack_scan_symbol dest: pack_scan_shorter)

declare pack_parse_string_list.simps [simp del]

lemma pack_string_list_shorter:
  "pack_parse_string_list u path_prefix str list p = Some (tok, list', q) \<Longrightarrow> length q \<le> length p"
proof (induction u path_prefix str list p rule: pack_parse_string_list.induct)
  case (1 u path_prefix str list p)
  show ?case
    using "1.prems" "1.IH" unfolding pack_parse_string_list.simps [of u path_prefix str list p]
    by (fastforce simp: bind_eq_Some_conv Let_def split: option.splits pack_token.splits prod.splits if_splits
        dest: pack_scan_shorter)
qed

definition token_integer :: "pack_token \<Rightarrow> int option" where
  "token_integer tok = (case tok of PTOK_INTEGER v \<Rightarrow> Some v | _ \<Rightarrow> None)"

definition token_float :: "pack_token \<Rightarrow> real option" where
  "token_float tok = (case tok of PTOK_FLOAT v \<Rightarrow> Some v | _ \<Rightarrow> None)"

text \<open>An equals sign, then an integer.\<close>

definition pack_parse_assigned_integer :: "8 word list \<Rightarrow> (int option \<times> 8 word list) option" where
  "pack_parse_assigned_integer p =
     Option.bind (pack_scan_next_token True p) (\<lambda>(tok, p).
       if tok \<noteq> PTOK_EQUALS then Some (None, p)
       else map_option (\<lambda>(tok, p). (token_integer tok, p)) (pack_scan_next_token True p))"

lemma pack_assigned_shorter:
  "pack_parse_assigned_integer p = Some (v, q) \<Longrightarrow> length q \<le> length p"
  "pack_parse_assigned_integer p = Some (Some x, q) \<Longrightarrow> length q < length p"
  by (auto simp: pack_parse_assigned_integer_def bind_eq_Some_conv split: if_splits
      dest!: pack_scan_symbol dest: pack_scan_shorter)

section \<open>Sections\<close>

text \<open>
  A key and its value, up to the token that follows. An error is returned as a token, on which
  the loop over the keys ends.
\<close>

definition pack_parse_glsl_key ::
  "pack_junk \<Rightarrow> 8 word list \<Rightarrow> resource_pack \<Rightarrow> 8 word list \<Rightarrow> 8 word list \<Rightarrow>
     (pack_token \<times> resource_pack \<times> 8 word list) option" where
  "pack_parse_glsl_key u path_prefix pack key p =
     (if \<not> strview_eq_cstr key (bytes ''shadow'') \<and> \<not> strview_eq_cstr key (bytes ''sprite'') \<and>
         \<not> strview_eq_cstr key (bytes ''background'')
      then Some (PTOK_ERROR, pack, p)
      else Option.bind (pack_scan_next_token True p) (\<lambda>(tok, p).
        if tok \<noteq> PTOK_EQUALS then Some (PTOK_ERROR, pack, p)
        else if strview_eq_cstr key (bytes ''shadow'')
        then map_option (\<lambda>(tok, list, p). (tok, pack\<lparr>pk_glsl_shadow := list\<rparr>, p))
          (pack_parse_string_list u path_prefix str_init (pk_glsl_shadow pack) p)
        else if strview_eq_cstr key (bytes ''sprite'')
        then map_option (\<lambda>(tok, list, p). (tok, pack\<lparr>pk_glsl_sprite := list\<rparr>, p))
          (pack_parse_string_list u path_prefix str_init (pk_glsl_sprite pack) p)
        else map_option (\<lambda>(tok, list, p). (tok, pack\<lparr>pk_glsl_background := list\<rparr>, p))
          (pack_parse_string_list u path_prefix str_init (pk_glsl_background pack) p)))"

definition pack_parse_textures ::
  "pack_junk \<Rightarrow> 8 word list \<Rightarrow> resource_sprite \<Rightarrow> 8 word list \<Rightarrow>
     (pack_token \<times> resource_sprite \<times> 8 word list) option" where
  "pack_parse_textures u path_prefix sprite p =
     Option.bind (pack_scan_next_token True p) (\<lambda>(tok, p).
       if tok \<noteq> PTOK_EQUALS then Some (PTOK_ERROR, sprite, p)
       else map_option (\<lambda>(tok, list, p). (tok, sprite\<lparr>rs_textures := list\<rparr>, p))
         (pack_parse_string_list u path_prefix str_init (rs_textures sprite) p))"

definition pack_parse_integer ::
  "(int \<Rightarrow> resource_sprite) \<Rightarrow> resource_sprite \<Rightarrow> 8 word list \<Rightarrow>
     (pack_token \<times> resource_sprite \<times> 8 word list) option" where
  "pack_parse_integer put sprite p =
     Option.bind (pack_parse_assigned_integer p) (\<lambda>(v, p).
       case v of None \<Rightarrow> Some (PTOK_ERROR, sprite, p)
       | Some x \<Rightarrow> map_option (\<lambda>(tok, p). (tok, put x, p)) (pack_scan_next_token True p))"

definition pack_parse_tile ::
  "resource_sprite \<Rightarrow> 8 word list \<Rightarrow> (pack_token \<times> resource_sprite \<times> 8 word list) option" where
  "pack_parse_tile sprite p =
     Option.bind (pack_parse_assigned_integer p) (\<lambda>(v, p).
       case v of None \<Rightarrow> Some (PTOK_ERROR, sprite, p)
       | Some x \<Rightarrow> let sprite = sprite\<lparr>rs_tile_x := x\<rparr>
           in Option.bind (pack_scan_next_token True p) (\<lambda>(tok, p).
             if tok \<noteq> PTOK_COMMA then Some (PTOK_ERROR, sprite, p)
             else Option.bind (pack_scan_next_token True p) (\<lambda>(tok, p).
               case token_integer tok of None \<Rightarrow> Some (PTOK_ERROR, sprite, p)
               | Some y \<Rightarrow> map_option (\<lambda>(tok, p). (tok, sprite\<lparr>rs_tile_y := y\<rparr>, p))
                   (pack_scan_next_token True p))))"

definition pack_parse_scale ::
  "resource_sprite \<Rightarrow> 8 word list \<Rightarrow> (pack_token \<times> resource_sprite \<times> 8 word list) option" where
  "pack_parse_scale sprite p =
     Option.bind (pack_scan_next_token True p) (\<lambda>(tok, p).
       if tok \<noteq> PTOK_EQUALS then Some (PTOK_ERROR, sprite, p)
       else Option.bind (pack_scan_next_token True p) (\<lambda>(tok, p).
         case token_float tok of None \<Rightarrow> Some (PTOK_ERROR, sprite, p)
         | Some x \<Rightarrow> map_option (\<lambda>(tok, p). (tok, sprite\<lparr>rs_scale := x\<rparr>, p))
             (pack_scan_next_token True p)))"

definition pack_parse_sprite_key ::
  "pack_junk \<Rightarrow> 8 word list \<Rightarrow> resource_sprite \<Rightarrow> 8 word list \<Rightarrow> 8 word list \<Rightarrow>
     (pack_token \<times> resource_sprite \<times> 8 word list) option" where
  "pack_parse_sprite_key u path_prefix sprite key p =
     (if strview_eq_cstr key (bytes ''textures'') then pack_parse_textures u path_prefix sprite p
      else if strview_eq_cstr key (bytes ''tile'') then pack_parse_tile sprite p
      else if strview_eq_cstr key (bytes ''frames'')
      then pack_parse_integer (\<lambda>x. sprite\<lparr>rs_num_frames := x\<rparr>) sprite p
      else if strview_eq_cstr key (bytes ''fps'')
      then pack_parse_integer (\<lambda>x. sprite\<lparr>rs_fps := x\<rparr>) sprite p
      else if strview_eq_cstr key (bytes ''scale'') then pack_parse_scale sprite p
      else Some (PTOK_ERROR, sprite, p))"

lemma pack_glsl_key_shorter:
  assumes "pack_parse_glsl_key u path_prefix pack key p = Some (tok, pack', q)"
  shows "length q \<le> length p \<and> (tok = PTOK_ERROR \<or> length q < length p)"
  using assms
  by (auto simp: pack_parse_glsl_key_def bind_eq_Some_conv split: if_splits
      dest!: pack_scan_symbol pack_string_list_shorter dest: pack_scan_shorter)

lemma pack_value_shorter:
  "pack_parse_textures u path_prefix sprite p = Some (tok, sprite', q) \<Longrightarrow>
     length q \<le> length p \<and> (tok = PTOK_ERROR \<or> length q < length p)"
  "pack_parse_integer put sprite p = Some (tok, sprite', q) \<Longrightarrow>
     length q \<le> length p \<and> (tok = PTOK_ERROR \<or> length q < length p)"
  "pack_parse_scale sprite p = Some (tok, sprite', q) \<Longrightarrow>
     length q \<le> length p \<and> (tok = PTOK_ERROR \<or> length q < length p)"
  by (auto simp: pack_parse_textures_def pack_parse_integer_def pack_parse_scale_def bind_eq_Some_conv
      split: if_splits option.splits dest!: pack_scan_symbol pack_string_list_shorter
      dest: pack_assigned_shorter(1)) (fastforce dest: pack_scan_shorter pack_assigned_shorter(2))+

lemma pack_tile_shorter:
  assumes "pack_parse_tile sprite p = Some (tok, sprite', q)"
  shows "length q \<le> length p \<and> (tok = PTOK_ERROR \<or> length q < length p)"
  using assms
  by (auto simp: pack_parse_tile_def bind_eq_Some_conv Let_def
      split: if_splits option.splits dest!: pack_scan_symbol dest: pack_assigned_shorter(1))
    (fastforce dest: pack_scan_shorter pack_assigned_shorter)+

lemma pack_sprite_key_shorter:
  assumes "pack_parse_sprite_key u path_prefix sprite key p = Some (tok, sprite', q)"
  shows "length q \<le> length p \<and> (tok = PTOK_ERROR \<or> length q < length p)"
  using assms
  by (auto simp: pack_parse_sprite_key_def split: if_splits dest!: pack_value_shorter pack_tile_shorter)

text \<open>The loops over the keys, from a token on.\<close>

function pack_parse_glsl_keys ::
  "pack_junk \<Rightarrow> 8 word list \<Rightarrow> resource_pack \<Rightarrow> pack_token \<Rightarrow> 8 word list \<Rightarrow>
     (pack_token \<times> resource_pack \<times> 8 word list) option" where
  "pack_parse_glsl_keys u path_prefix pack tok p =
     (case tok of
        PTOK_KEY key \<Rightarrow> Option.bind (pack_parse_glsl_key u path_prefix pack key p)
          (\<lambda>(tok, pack, p). pack_parse_glsl_keys u path_prefix pack tok p)
      | _ \<Rightarrow> Some (tok, pack, p))"
  by pat_completeness auto
termination
  by (relation "measure (\<lambda>(u, path_prefix, pack, tok, p). 2 * length p + (if tok = PTOK_ERROR then 0 else 1))")
    (auto dest!: pack_glsl_key_shorter)

declare pack_parse_glsl_keys.simps [simp del]

definition pack_parse_section_glsl ::
  "pack_junk \<Rightarrow> 8 word list \<Rightarrow> resource_pack \<Rightarrow> 8 word list \<Rightarrow>
     (pack_token \<times> resource_pack \<times> 8 word list) option" where
  "pack_parse_section_glsl u path_prefix pack p =
     Option.bind (pack_scan_next_token True p) (\<lambda>(tok, p). pack_parse_glsl_keys u path_prefix pack tok p)"

function pack_parse_sprite_keys ::
  "pack_junk \<Rightarrow> 8 word list \<Rightarrow> resource_sprite \<Rightarrow> pack_token \<Rightarrow> 8 word list \<Rightarrow>
     (pack_token \<times> resource_sprite \<times> 8 word list) option" where
  "pack_parse_sprite_keys u path_prefix sprite tok p =
     (case tok of
        PTOK_KEY key \<Rightarrow> Option.bind (pack_parse_sprite_key u path_prefix sprite key p)
          (\<lambda>(tok, sprite, p). pack_parse_sprite_keys u path_prefix sprite tok p)
      | _ \<Rightarrow> Some (tok, sprite, p))"
  by pat_completeness auto
termination
  by (relation "measure (\<lambda>(u, path_prefix, sprite, tok, p). 2 * length p + (if tok = PTOK_ERROR then 0 else 1))")
    (auto dest!: pack_sprite_key_shorter)

declare pack_parse_sprite_keys.simps [simp del]

definition pack_parse_section_sprite ::
  "pack_junk \<Rightarrow> 8 word list \<Rightarrow> resource_sprite \<Rightarrow> 8 word list \<Rightarrow>
     (pack_token \<times> resource_sprite \<times> 8 word list) option" where
  "pack_parse_section_sprite u path_prefix sprite p =
     Option.bind (pack_scan_next_token True p) (\<lambda>(tok, p). pack_parse_sprite_keys u path_prefix sprite tok p)"

lemma pack_glsl_keys_shorter:
  "pack_parse_glsl_keys u path_prefix pack tok p = Some (tok', pack', q) \<Longrightarrow> length q \<le> length p"
proof (induction u path_prefix pack tok p rule: pack_parse_glsl_keys.induct)
  case (1 u path_prefix pack tok p)
  then show ?case
    by (cases tok) (fastforce simp: pack_parse_glsl_keys.simps [of u path_prefix pack _ p] bind_eq_Some_conv
        dest: pack_glsl_key_shorter)+
qed

lemma pack_sprite_keys_shorter:
  "pack_parse_sprite_keys u path_prefix sprite tok p = Some (tok', sprite', q) \<Longrightarrow> length q \<le> length p"
proof (induction u path_prefix sprite tok p rule: pack_parse_sprite_keys.induct)
  case (1 u path_prefix sprite tok p)
  then show ?case
    by (cases tok) (fastforce simp: pack_parse_sprite_keys.simps [of u path_prefix sprite _ p] bind_eq_Some_conv
        dest: pack_sprite_key_shorter)+
qed

section \<open>The heading of a section\<close>

record pack_section =
  sc_section :: "8 word list"
  sc_subsection :: "8 word list"
  sc_subsubsection :: "8 word list"
  sc_section_index :: int

definition section_init :: pack_section where
  "section_init = \<lparr>sc_section = [], sc_subsection = [], sc_subsubsection = [], sc_section_index = -1\<rparr>"

text \<open>The digits at the end of the name are its index; a name starts with a letter.\<close>

definition parse_section_name_and_index :: "pack_section \<Rightarrow> 8 word list \<Rightarrow> pack_section option" where
  "parse_section_name_and_index sec key =
     (let digits = rev (takeWhile isdigit (rev key));
          sec = sec\<lparr>sc_section := rev (dropWhile isdigit (rev key))\<rparr>
      in if digits = [] then Some (sec\<lparr>sc_section_index := -1\<rparr>)
         else map_option (\<lambda>v. sec\<lparr>sc_section_index := v\<rparr>) (strview_to_integer True digits (length digits)))"

definition token_key :: "pack_token \<Rightarrow> 8 word list option" where
  "token_key tok = (case tok of PTOK_KEY k \<Rightarrow> Some k | _ \<Rightarrow> None)"

definition parse_section_desc ::
  "pack_section \<Rightarrow> 8 word list \<Rightarrow> (pack_token \<times> pack_section \<times> 8 word list) option" where
  "parse_section_desc sec p =
     Option.bind (pack_scan_next_token True p) (\<lambda>(tok, p).
       case token_key tok of None \<Rightarrow> Some (PTOK_ERROR, sec, p)
       | Some key \<Rightarrow> Option.bind (parse_section_name_and_index sec key) (\<lambda>sec.
           Option.bind (pack_scan_next_token True p) (\<lambda>(tok, p).
             if tok \<noteq> PTOK_PERIOD then Some (tok, sec, p)
             else Option.bind (pack_scan_next_token True p) (\<lambda>(tok, p).
               case token_key tok of None \<Rightarrow> Some (PTOK_ERROR, sec, p)
               | Some key \<Rightarrow>
                   let sec = sec\<lparr>sc_subsection := key\<rparr>
                   in Option.bind (pack_scan_next_token True p) (\<lambda>(tok, p).
                     if tok \<noteq> PTOK_PERIOD then Some (tok, sec, p)
                     else Option.bind (pack_scan_next_token True p) (\<lambda>(tok, p).
                       case token_key tok of None \<Rightarrow> Some (PTOK_ERROR, sec, p)
                       | Some key \<Rightarrow>
                           map_option (\<lambda>(tok, p). (tok, sec\<lparr>sc_subsubsection := key\<rparr>, p))
                             (pack_scan_next_token True p)))))))"

section \<open>Sections\<close>

text \<open>The loops that fill a vector up to an index.\<close>

partial_function (option) push_until ::
  "(nat \<Rightarrow> 'a) \<Rightarrow> 'a \<Rightarrow> int \<Rightarrow> 'a vec option \<Rightarrow> (int \<times> 'a vec option) option" where
  [code]: "push_until u x index v =
     (if vec_count v \<le> index
      then (case vec_push 16 True u v x of (r, v) \<Rightarrow> if r \<noteq> 0 then Some (-1, v) else push_until u x index v)
      else Some (0, v))"

definition parse_section_background ::
  "pack_junk \<Rightarrow> 8 word list \<Rightarrow> int \<Rightarrow> resource_pack \<Rightarrow> 8 word list \<Rightarrow>
     (pack_token \<times> resource_pack \<times> 8 word list) option" where
  "parse_section_background u path_prefix index pack p =
     (if index < 0 then Some (PTOK_ERROR, pack, p)
      else Option.bind (push_until (pj_sprite u) None index (pk_background pack)) (\<lambda>(r, v).
        let pack = pack\<lparr>pk_background := v\<rparr>
        in if r \<noteq> 0 then Some (PTOK_ERROR, pack, p)
           else (case v of None \<Rightarrow> None
             | Some v \<Rightarrow>
                 let sprite = (case vec_get v index of None \<Rightarrow> resource_sprite_create | Some sprite \<Rightarrow> sprite)
                 in map_option (\<lambda>(tok, sprite, p).
                      (tok, pack\<lparr>pk_background := Some (vec_store index (Some sprite) v)\<rparr>, p))
                    (pack_parse_section_sprite u path_prefix sprite p))))"

text \<open>A layer of a part, by its name.\<close>

definition part_layer ::
  "8 word list \<Rightarrow> ((resource_snake_part \<Rightarrow> resource_sprite option) \<times>
     (resource_sprite option \<Rightarrow> resource_snake_part \<Rightarrow> resource_snake_part)) option" where
  "part_layer name =
     (if strview_eq_cstr name (bytes ''base'') then Some (rp_base, \<lambda>s. rp_base_update (\<lambda>_. s))
      else if strview_eq_cstr name (bytes ''gather'') then Some (rp_gather, \<lambda>s. rp_gather_update (\<lambda>_. s))
      else if strview_eq_cstr name (bytes ''boost'') then Some (rp_boost, \<lambda>s. rp_boost_update (\<lambda>_. s))
      else if strview_eq_cstr name (bytes ''turn'') then Some (rp_turn, \<lambda>s. rp_turn_update (\<lambda>_. s))
      else if strview_eq_cstr name (bytes ''projectile'') then Some (rp_projectile, \<lambda>s. rp_projectile_update (\<lambda>_. s))
      else if strview_eq_cstr name (bytes ''split'') then Some (rp_split, \<lambda>s. rp_split_update (\<lambda>_. s))
      else if strview_eq_cstr name (bytes ''armor'') then Some (rp_armor, \<lambda>s. rp_armor_update (\<lambda>_. s))
      else None)"

definition parse_layer ::
  "pack_junk \<Rightarrow> 8 word list \<Rightarrow> 8 word list \<Rightarrow> resource_snake_part \<Rightarrow> 8 word list \<Rightarrow>
     (pack_token \<times> resource_snake_part \<times> 8 word list) option" where
  "parse_layer u path_prefix name part p =
     (case part_layer name of None \<Rightarrow> Some (PTOK_ERROR, part, p)
      | Some (get, put) \<Rightarrow>
          let sprite = (case get part of None \<Rightarrow> resource_sprite_create | Some sprite \<Rightarrow> sprite)
          in map_option (\<lambda>(tok, sprite, p). (tok, put (Some sprite) part, p))
               (pack_parse_section_sprite u path_prefix sprite p))"

text \<open>All three vectors are filled up before the part is looked at.\<close>

definition fill_parts ::
  "pack_junk \<Rightarrow> int \<Rightarrow> resource_pack \<Rightarrow> (bool \<times> resource_pack) option" where
  "fill_parts u index pack =
     Option.bind (push_until (pj_part u) resource_snake_part_init index (pk_heads pack)) (\<lambda>(r, v).
       let pack = pack\<lparr>pk_heads := v\<rparr>
       in if r \<noteq> 0 then Some (False, pack)
          else Option.bind (push_until (pj_part u) resource_snake_part_init index (pk_bodies pack)) (\<lambda>(r, v).
            let pack = pack\<lparr>pk_bodies := v\<rparr>
            in if r \<noteq> 0 then Some (False, pack)
               else map_option (\<lambda>(r, v). (r = 0, pack\<lparr>pk_tails := v\<rparr>))
                 (push_until (pj_part u) resource_snake_part_init index (pk_tails pack))))"

definition parse_section_snake ::
  "pack_junk \<Rightarrow> 8 word list \<Rightarrow> pack_section \<Rightarrow> resource_pack \<Rightarrow> 8 word list \<Rightarrow>
     (pack_token \<times> resource_pack \<times> 8 word list) option" where
  "parse_section_snake u path_prefix sec pack p =
     (let index = sc_section_index sec; part = sc_subsection sec;
          into = (\<lambda>v put. case v of None \<Rightarrow> None
            | Some v \<Rightarrow> map_option (\<lambda>(tok, x, p). (tok, put (Some (vec_store index x v)), p))
                (parse_layer u path_prefix (sc_subsubsection sec) (vec_get v index) p))
      in if index < 0 then Some (PTOK_ERROR, pack, p)
         else if \<not> strview_eq_cstr part (bytes ''head'') \<and> \<not> strview_eq_cstr part (bytes ''body'') \<and>
           \<not> strview_eq_cstr part (bytes ''tail'') then Some (PTOK_ERROR, pack, p)
         else Option.bind (fill_parts u index pack) (\<lambda>(ok, pack).
           if \<not> ok then Some (PTOK_ERROR, pack, p)
           else if strview_eq_cstr part (bytes ''head'') then into (pk_heads pack) (\<lambda>v. pack\<lparr>pk_heads := v\<rparr>)
           else if strview_eq_cstr part (bytes ''body'') then into (pk_bodies pack) (\<lambda>v. pack\<lparr>pk_bodies := v\<rparr>)
           else into (pk_tails pack) (\<lambda>v. pack\<lparr>pk_tails := v\<rparr>)))"

definition parse_section ::
  "pack_junk \<Rightarrow> 8 word list \<Rightarrow> pack_section \<Rightarrow> resource_pack \<Rightarrow> 8 word list \<Rightarrow>
     (pack_token \<times> resource_pack \<times> 8 word list) option" where
  "parse_section u path_prefix sec pack p =
     (if strview_eq_cstr (sc_section sec) (bytes ''shaders'')
      then if strview_eq_cstr (sc_subsection sec) (bytes ''glsl'')
        then pack_parse_section_glsl u path_prefix pack p
        else Some (PTOK_ERROR, pack, p)
      else if strview_eq_cstr (sc_section sec) (bytes ''background'')
      then parse_section_background u path_prefix (sc_section_index sec) pack p
      else if strview_eq_cstr (sc_section sec) (bytes ''snake'')
      then parse_section_snake u path_prefix sec pack p
      else Some (PTOK_ERROR, pack, p))"

lemma section_desc_shorter:
  "parse_section_desc sec p = Some (tok, sec', q) \<Longrightarrow>
     length q \<le> length p \<and> (tok = PTOK_RBRACKET \<longrightarrow> length q < length p)"
  by (auto simp: parse_section_desc_def bind_eq_Some_conv Let_def split: if_splits option.splits
      dest: pack_scan_symbol) (auto dest!: pack_scan_symbol, auto dest!: pack_scan_shorter)

lemma section_sprite_shorter:
  "pack_parse_section_sprite u path_prefix sprite p = Some (tok, sprite', q) \<Longrightarrow> length q \<le> length p"
  by (auto simp: pack_parse_section_sprite_def bind_eq_Some_conv
      dest!: pack_scan_shorter pack_sprite_keys_shorter)

lemma section_glsl_shorter:
  "pack_parse_section_glsl u path_prefix pack p = Some (tok, pack', q) \<Longrightarrow> length q \<le> length p"
  by (auto simp: pack_parse_section_glsl_def bind_eq_Some_conv
      dest!: pack_scan_shorter pack_glsl_keys_shorter)

lemma section_background_shorter:
  "parse_section_background u path_prefix index pack p = Some (tok, pack', q) \<Longrightarrow> length q \<le> length p"
  by (auto simp: parse_section_background_def bind_eq_Some_conv Let_def split: if_splits option.splits
      dest!: section_sprite_shorter)

lemma layer_shorter:
  "parse_layer u path_prefix name part p = Some (tok, part', q) \<Longrightarrow> length q \<le> length p"
  by (auto simp: parse_layer_def Let_def split: option.splits prod.splits dest!: section_sprite_shorter)

lemma section_snake_shorter:
  "parse_section_snake u path_prefix sec pack p = Some (tok, pack', q) \<Longrightarrow> length q \<le> length p"
  by (auto simp: parse_section_snake_def bind_eq_Some_conv Let_def split: if_splits option.splits
      dest!: layer_shorter)

lemma section_shorter:
  "parse_section u path_prefix sec pack p = Some (tok, pack', q) \<Longrightarrow> length q \<le> length p"
  by (auto simp: parse_section_def split: if_splits
      dest!: section_glsl_shorter section_background_shorter section_snake_shorter)

section \<open>The file\<close>

text \<open>From a token on; the result says whether there was no error.\<close>

function pack_parse_ini_from ::
  "pack_junk \<Rightarrow> 8 word list \<Rightarrow> resource_pack \<Rightarrow> pack_token \<Rightarrow> 8 word list \<Rightarrow> (bool \<times> resource_pack) option" where
  "pack_parse_ini_from u path_prefix pack tok p =
     (if tok = PTOK_ERROR then Some (False, pack)
      else if tok = PTOK_END then Some (True, pack)
      else if tok = PTOK_LBRACKET
      then Option.bind (parse_section_desc section_init p) (\<lambda>(tok, sec, p).
        if tok \<noteq> PTOK_RBRACKET then Some (False, pack)
        else Option.bind (parse_section u path_prefix sec pack p) (\<lambda>(tok, pack, p).
          pack_parse_ini_from u path_prefix pack tok p))
      else Some (False, pack))"
  by pat_completeness auto
termination
  by (relation "measure (\<lambda>(u, path_prefix, pack, tok, p). length p)")
    (auto dest!: section_desc_shorter section_shorter)

declare pack_parse_ini_from.simps [simp del]

definition pack_parse_ini ::
  "pack_junk \<Rightarrow> 8 word list \<Rightarrow> resource_pack \<Rightarrow> 8 word list \<Rightarrow> (bool \<times> resource_pack) option" where
  "pack_parse_ini u path_prefix pack p =
     Option.bind (pack_scan_next_token False p) (\<lambda>(tok, p). pack_parse_ini_from u path_prefix pack tok p)"

text \<open>The pack, or nothing when it cannot be read.\<close>

definition resource_pack_parse ::
  "pack_junk \<Rightarrow> (8 word list \<Rightarrow> 8 word list option) \<Rightarrow> 8 word list \<Rightarrow> resource_pack option option" where
  "resource_pack_parse u file pack_path =
     Option.bind (str_set_cstr (pj_byte u) str_init pack_path) (\<lambda>(r, str).
       if r \<noteq> 0 then Some None
       else Option.bind (str_join_path_cstr (pj_byte u) str (bytes ''config.ini'')) (\<lambda>(r, str).
         if r \<noteq> 0 then Some None
         else (case file (str_cstr str) of None \<Rightarrow> Some None
           | Some source \<Rightarrow>
               map_option (\<lambda>(ok, pack). if ok then Some pack else None)
                 (pack_parse_ini u pack_path resource_pack_init source))))"

end
