(* ===== verification/ResourcePack_Laws.thy ===== *)
theory ResourcePack_Laws
  imports ResourcePack
begin

text \<open>
  The correctness statements about resource packs: what a pack that could be parsed looks like.
\<close>

section \<open>Strings\<close>

text \<open>A string that was written fits into 16 bits.\<close>

lemma str_reserve_size:
  assumes "vecp_ok 16 p" "0 < n" "str_reserve u p n = (0, Some v)" "n \<le> vec_cap v"
  shows "n < 32768"
proof (rule ccontr)
  assume n: "\<not> n < 32768"
  have "vec_capacity p < 32768"
    using assms(1) by (cases p) (auto simp: vec_ok_def)
  then have "vec_realloc 16 True u p (sx 16 n) = (0, Some v)"
    using assms(3) n by (simp add: str_reserve_def)
  then have "vec_cap v = sx 16 n"
    by (auto simp: vec_realloc_def Let_def split: if_splits)
  moreover have "sx 16 n < 32768"
    unfolding sx_def by simp
  ultimately show False
    using assms(4) n by simp
qed

lemma str_set_cstr_size:
  assumes "vecp_ok 16 p" "str_set_cstr u p s = Some (0, q)"
  shows "str_holds q s"
proof -
  obtain v w where v: "str_reserve u p (int (length s) + 1) = (0, Some v)" "str_write 0 s v = Some w"
    using assms(2) by (auto simp: str_set_cstr_def split: prod.splits if_splits option.splits)
  then have "int (length s) + 1 \<le> vec_cap v"
    by (auto simp: str_write_def Let_def split: if_splits)
  then have "length s < 32767"
    using str_reserve_size [OF assms(1) _ v(1)] by simp
  then show ?thesis
    using str_set_cstr_ok [OF assms(1), of s u] assms(2) by auto
qed

lemma str_join_path_size:
  assumes "str_holds p s" "str_join_path u p t = Some (0, q)"
  shows "str_holds q (s @ 47 # t)"
proof -
  obtain w where w: "p = Some w" "vec_cnt w = int (length s) + 1" "vec_ok 16 w"
    using assms(1) by (auto simp: str_holds_def split: option.splits)
  define n where "n = int (length s) + 1 + int (length t) + 1"
  obtain v where v: "str_reserve u p n = (0, Some v)"
    using assms(2) w by (auto simp: str_join_path_def str_len_def n_def Let_def split: prod.splits if_splits option.splits)
  have "n \<le> vec_cap v"
  proof (rule ccontr)
    assume less: "\<not> n \<le> vec_cap v"
    then have "vec_capacity p < n"
      using v by (auto simp: str_reserve_def split: if_splits)
    then have r: "vec_realloc 16 True u p (sx 16 n) = (0, Some v)"
      using v by (simp add: str_reserve_def)
    then have c: "vec_cap v = sx 16 n" "0 \<le> sx 16 n"
      by (auto simp: vec_realloc_def Let_def split: if_splits)
    have "n - 1 \<le> vec_cap v"
      using assms(2) v w by (auto simp: str_join_path_def str_len_def str_write_def n_def Let_def split: if_splits)
    then have "(n + 32768) mod 65536 = n + 32767"
      using less c by (simp add: sx_16)
    then have "65536 * ((n + 32768) div 65536) = 1"
      using mult_div_mod_eq [of 65536 "n + 32768"] by linarith
    then have "(65536::int) dvd 1"
      by (rule dvdI [OF sym])
    then show False
      by simp
  qed
  then have "length s + length t < 32766"
    using str_reserve_size [OF str_holds_ok [OF assms(1)] _ v] by (simp add: n_def)
  then show ?thesis
    using str_join_path_ok [OF assms(1), of t u] assms(2) by auto
qed

section \<open>The files of a pack\<close>

text \<open>Every string is the path of the pack, a slash, and what the file said.\<close>

definition files_ok :: "8 word list \<Rightarrow> strlist option \<Rightarrow> bool" where
  "files_ok prefix list \<longleftrightarrow> sl_ok list \<and> (\<forall>t \<in> set (sl_strings list). \<exists>f. t = prefix @ 47 # f)"

definition sprite_ok :: "8 word list \<Rightarrow> resource_sprite option \<Rightarrow> bool" where
  "sprite_ok prefix p \<longleftrightarrow> (case p of None \<Rightarrow> True | Some sprite \<Rightarrow> files_ok prefix (rs_textures sprite))"

definition part_ok :: "8 word list \<Rightarrow> resource_snake_part \<Rightarrow> bool" where
  "part_ok prefix part \<longleftrightarrow> sprite_ok prefix (rp_base part) \<and> sprite_ok prefix (rp_gather part) \<and>
     sprite_ok prefix (rp_boost part) \<and> sprite_ok prefix (rp_turn part) \<and> sprite_ok prefix (rp_projectile part) \<and>
     sprite_ok prefix (rp_split part) \<and> sprite_ok prefix (rp_armor part)"

definition cells_ok :: "('a \<Rightarrow> bool) \<Rightarrow> 'a vec option \<Rightarrow> bool" where
  "cells_ok ok v \<longleftrightarrow> vecp_ok 16 v \<and> list_all ok (vecp_list v)"

definition pack_ok :: "8 word list \<Rightarrow> resource_pack \<Rightarrow> bool" where
  "pack_ok prefix pack \<longleftrightarrow> files_ok prefix (pk_glsl_background pack) \<and> files_ok prefix (pk_glsl_shadow pack) \<and>
     files_ok prefix (pk_glsl_sprite pack) \<and> cells_ok (sprite_ok prefix) (pk_background pack) \<and>
     cells_ok (part_ok prefix) (pk_heads pack) \<and> cells_ok (part_ok prefix) (pk_bodies pack) \<and>
     cells_ok (part_ok prefix) (pk_tails pack)"

lemma takeWhile_nonzero:
  "0 \<notin> set a \<Longrightarrow> takeWhile (\<lambda>c. c \<noteq> 0) (a @ b) = a @ takeWhile (\<lambda>c. c \<noteq> (0::8 word)) b"
  by (induction a) auto

lemma files_ok_add:
  assumes "files_ok prefix list"
  shows "files_ok prefix (Some (strlist_add u us list (prefix @ 47 # f)))"
  using assms strlist_add_strings [of list u us "prefix @ 47 # f"] by (auto simp: files_ok_def)

lemma string_list_ok:
  "pack_parse_string_list u prefix str list p = Some (tok, list', q) \<Longrightarrow> 0 \<notin> set prefix \<Longrightarrow> vecp_ok 16 str \<Longrightarrow>
    files_ok prefix list \<Longrightarrow> files_ok prefix list'"
proof (induction u prefix str list p rule: pack_parse_string_list.induct [case_names step])
  case (step u prefix str list p)
  consider (string) s p' where "pack_scan_next_token True p = Some (PTOK_STRING s, p')" | (other) "list' = list"
    using step.prems(1) unfolding pack_parse_string_list.simps [of u prefix str list p]
    by (auto split: option.splits prod.splits pack_token.splits)
  then show ?case
  proof cases
    case string
    show ?thesis
    proof (cases "list' = list")
      case False
      with step.prems(1) string obtain str1 str2 tok' p2 where s: "str_set_cstr (pj_byte u) str prefix = Some (0, str1)"
          "str_join_path (pj_byte u) str1 s = Some (0, str2)" "pack_scan_next_token True p' = Some (tok', p2)"
          "(if tok' = PTOK_COMMA
            then pack_parse_string_list u prefix str2 (Some (strlist_add (pj_byte u) (pj_span u) list (str_cstr str2))) p2
            else Some (tok', Some (strlist_add (pj_byte u) (pj_span u) list (str_cstr str2)), p2)) = Some (tok, list', q)"
        unfolding pack_parse_string_list.simps [of u prefix str list p]
        by (fastforce simp: bind_eq_Some_conv Let_def split: if_splits)
      have h: "str_holds str2 (prefix @ 47 # s)"
        using str_join_path_size [OF str_set_cstr_size [OF step.prems(3) s(1)] s(2)] .
      have "str_cstr str2 = prefix @ 47 # takeWhile (\<lambda>c. c \<noteq> 0) s"
        using str_holds_cstr [OF h] takeWhile_nonzero [OF step.prems(2), of "47 # s"] by simp
      then have f: "files_ok prefix (Some (strlist_add (pj_byte u) (pj_span u) list (str_cstr str2)))"
        using files_ok_add [OF step.prems(4)] by simp
      show ?thesis
      proof (cases "tok' = PTOK_COMMA")
        case True
        show ?thesis
          using step.IH [OF string refl refl s(1) refl _ s(2) refl _ refl s(3) refl True] s(4) True
            step.prems(2) str_holds_ok [OF h] f by simp
      qed (use s(4) f in simp)
    qed (use step.prems in simp)
  qed (use step.prems in simp)
qed

section \<open>Sections\<close>

lemma glsl_key_ok:
  "pack_parse_glsl_key u prefix pack key p = Some (tok, pack', q) \<Longrightarrow> 0 \<notin> set prefix \<Longrightarrow> pack_ok prefix pack \<Longrightarrow>
     pack_ok prefix pack' \<and> pk_heads pack' = pk_heads pack \<and> pk_bodies pack' = pk_bodies pack \<and>
     pk_tails pack' = pk_tails pack"
  by (auto simp: pack_parse_glsl_key_def bind_eq_Some_conv pack_ok_def str_init_def vec_init_def
      split: if_splits dest!: string_list_ok)

lemma glsl_keys_ok:
  "pack_parse_glsl_keys u prefix pack tok p = Some (tok', pack', q) \<Longrightarrow> 0 \<notin> set prefix \<Longrightarrow> pack_ok prefix pack \<Longrightarrow>
     pack_ok prefix pack' \<and> pk_heads pack' = pk_heads pack \<and> pk_bodies pack' = pk_bodies pack \<and>
     pk_tails pack' = pk_tails pack"
proof (induction u prefix pack tok p rule: pack_parse_glsl_keys.induct)
  case (1 u prefix pack tok p)
  show ?case
  proof (cases "\<exists>key. tok = PTOK_KEY key")
    case True
    then obtain key tok1 pack1 p1 where k: "tok = PTOK_KEY key"
        "pack_parse_glsl_key u prefix pack key p = Some (tok1, pack1, p1)"
        "pack_parse_glsl_keys u prefix pack1 tok1 p1 = Some (tok', pack', q)"
      using "1.prems"(1) by (auto simp: pack_parse_glsl_keys.simps [of u prefix pack tok p] bind_eq_Some_conv)
    then show ?thesis
      using "1.IH" [OF k(1,2) refl refl k(3)] glsl_key_ok [OF k(2) "1.prems"(2,3)] "1.prems"(2) by simp
  next
    case False
    then show ?thesis
      using "1.prems" by (cases tok) (auto simp: pack_parse_glsl_keys.simps [of u prefix pack _ p])
  qed
qed

lemma sprite_key_ok:
  assumes "pack_parse_sprite_key u prefix sprite key p = Some (tok, sprite', q)" "0 \<notin> set prefix"
    "sprite_ok prefix (Some sprite)"
  shows "sprite_ok prefix (Some sprite')"
proof -
  have t: "pack_parse_textures u prefix sprite p = Some (tok, sprite', q) \<Longrightarrow> files_ok prefix (rs_textures sprite')"
    using assms(2,3) by (auto simp: pack_parse_textures_def bind_eq_Some_conv sprite_ok_def str_init_def vec_init_def
        split: if_splits dest!: string_list_ok)
  have i: "rs_textures sprite' = rs_textures sprite"
    if "pack_parse_integer put sprite p = Some (tok, sprite', q)" "\<And>x. rs_textures (put x) = rs_textures sprite" for put
    using that by (auto simp: pack_parse_integer_def bind_eq_Some_conv split: option.splits)
  have o: "pack_parse_tile sprite p = Some (tok, sprite', q) \<Longrightarrow> rs_textures sprite' = rs_textures sprite"
    "pack_parse_scale sprite p = Some (tok, sprite', q) \<Longrightarrow> rs_textures sprite' = rs_textures sprite"
    by (auto simp: pack_parse_tile_def pack_parse_scale_def bind_eq_Some_conv Let_def split: option.splits if_splits)
  show ?thesis
    using assms t o i by (auto simp: pack_parse_sprite_key_def sprite_ok_def split: if_splits)
qed

lemma sprite_keys_ok:
  "pack_parse_sprite_keys u prefix sprite tok p = Some (tok', sprite', q) \<Longrightarrow> 0 \<notin> set prefix \<Longrightarrow>
     sprite_ok prefix (Some sprite) \<Longrightarrow> sprite_ok prefix (Some sprite')"
proof (induction u prefix sprite tok p rule: pack_parse_sprite_keys.induct)
  case (1 u prefix sprite tok p)
  show ?case
  proof (cases "\<exists>key. tok = PTOK_KEY key")
    case True
    then obtain key tok1 sprite1 p1 where k: "tok = PTOK_KEY key"
        "pack_parse_sprite_key u prefix sprite key p = Some (tok1, sprite1, p1)"
        "pack_parse_sprite_keys u prefix sprite1 tok1 p1 = Some (tok', sprite', q)"
      using "1.prems"(1) by (auto simp: pack_parse_sprite_keys.simps [of u prefix sprite tok p] bind_eq_Some_conv)
    then show ?thesis
      using "1.IH" [OF k(1,2) refl refl k(3)] sprite_key_ok [OF k(2) "1.prems"(2,3)] "1.prems"(2) by simp
  next
    case False
    then show ?thesis
      using "1.prems" by (cases tok) (auto simp: pack_parse_sprite_keys.simps [of u prefix sprite _ p])
  qed
qed

text \<open>Filling a vector ends, with an error when 16 bits are not enough for the index.\<close>

lemma push_until_ok:
  assumes "cells_ok P v" "P x" "0 \<le> index"
  shows "\<exists>r v'. push_until u x index v = Some (r, v') \<and> cells_ok P v' \<and>
    (r = 0 \<longrightarrow> vec_count v' = max (vec_count v) (index + 1))"
  using assms
proof (induction "nat (index + 1 - vec_count v)" arbitrary: v)
  case 0
  then show ?case
    by (subst push_until.simps) simp
next
  case (Suc n)
  have v: "vecp_ok 16 v" "list_all P (vecp_list v)"
    using Suc.prems by (simp_all add: cells_ok_def)
  have less: "vec_count v \<le> index"
    using Suc.hyps(2) by simp
  show ?case
  proof (cases "vec_can_grow 16 True v")
    case True
    then obtain q where q: "vec_push 16 True u v x = (0, q)" "vecp_ok 16 q" "vecp_list q = vecp_list v @ [x]"
      using vec16.push_room v by (metis vec_push_room numeral_less_iff semiring_norm(76) semiring_norm(78) v(1))
    then have "vec_count q = vec_count v + 1" "cells_ok P q"
      using v Suc.prems(2) vecp_count_list [OF v(1)] vecp_count_list [OF q(2)] by (simp_all add: cells_ok_def)
    then show ?thesis
      using Suc.hyps q(1) less Suc.prems(2,3) Suc.hyps(1) [of q] by (subst push_until.simps) auto
  next
    case False
    then show ?thesis
      using vec_push_no_room [OF v(1) _ False, of u x] less Suc.prems(1) by (subst push_until.simps) simp
  qed
qed

lemma cells_ok_get:
  "cells_ok P (Some v) \<Longrightarrow> 0 \<le> i \<Longrightarrow> i < vec_cnt v \<Longrightarrow> P (vec_get v i)"
  by (auto simp: cells_ok_def list_all_length vec_get_nth length_vec_list zless_nat_eq_int_zless [symmetric]
      nat_less_iff)

lemma cells_ok_store:
  "cells_ok P (Some v) \<Longrightarrow> P x \<Longrightarrow> 0 \<le> i \<Longrightarrow> i < vec_cnt v \<Longrightarrow>
     cells_ok P (Some (vec_store i x v)) \<and> vec_cnt (vec_store i x v) = vec_cnt v"
  by (auto simp: cells_ok_def vec_store_list list_all_iff dest!: set_update_subset_insert [THEN subsetD])

lemma section_sprite_ok:
  "pack_parse_section_sprite u prefix sprite p = Some (tok, sprite', q) \<Longrightarrow> 0 \<notin> set prefix \<Longrightarrow>
     sprite_ok prefix (Some sprite) \<Longrightarrow> sprite_ok prefix (Some sprite')"
  by (auto simp: pack_parse_section_sprite_def bind_eq_Some_conv dest: sprite_keys_ok)

lemma new_sprite_ok: "sprite_ok prefix p \<Longrightarrow>
    sprite_ok prefix (Some (case p of None \<Rightarrow> resource_sprite_create | Some sprite \<Rightarrow> sprite))"
  by (auto simp: sprite_ok_def files_ok_def resource_sprite_create_def strlist_init_def sl_ok_def slp_rep_def
      sl_strings_def strlist_count_def split: option.splits)

definition same_counts :: "resource_pack \<Rightarrow> bool" where
  "same_counts pack \<longleftrightarrow> vec_count (pk_bodies pack) = vec_count (pk_heads pack) \<and>
     vec_count (pk_tails pack) = vec_count (pk_heads pack)"

lemma section_background_ok:
  assumes "parse_section_background u prefix index pack p = Some (tok, pack', q)" "0 \<notin> set prefix"
    "pack_ok prefix pack"
  shows "pack_ok prefix pack' \<and> (same_counts pack \<longrightarrow> same_counts pack')"
proof (cases "index < 0")
  case False
  then obtain r v where v: "push_until (pj_sprite u) None index (pk_background pack) = Some (r, v)"
      "cells_ok (sprite_ok prefix) v" "r = 0 \<longrightarrow> vec_count v = max (vec_count (pk_background pack)) (index + 1)"
    using push_until_ok [of "sprite_ok prefix" "pk_background pack" None index "pj_sprite u"] assms(3)
    by (auto simp: pack_ok_def sprite_ok_def)
  show ?thesis
  proof (cases "r = 0 \<and> v \<noteq> None")
    case True
    then obtain w where w: "v = Some w" "index < vec_cnt w"
      using v(3) by auto
    then show ?thesis
      using assms False True v cells_ok_get [of "sprite_ok prefix" w index]
        cells_ok_store [of "sprite_ok prefix" w _ index] new_sprite_ok [of prefix "vec_get w index"]
      by (auto simp: parse_section_background_def Let_def pack_ok_def same_counts_def dest!: section_sprite_ok)
  next
    case False
    then show ?thesis
      using assms v \<open>\<not> index < 0\<close>
      by (auto simp: parse_section_background_def Let_def pack_ok_def same_counts_def split: option.splits if_splits)
  qed
qed (use assms in \<open>simp add: parse_section_background_def\<close>)

lemma layer_ok:
  assumes "parse_layer u prefix name part p = Some (tok, part', q)" "0 \<notin> set prefix" "part_ok prefix part"
  shows "part_ok prefix part'"
  using assms new_sprite_ok
  by (auto simp: parse_layer_def part_layer_def part_ok_def Let_def split: if_splits dest!: section_sprite_ok)

lemma fill_parts_ok:
  assumes "fill_parts u index pack = Some (ok, pack')" "pack_ok prefix pack" "0 \<le> index"
  shows "pack_ok prefix pack' \<and> (ok \<longrightarrow> index < vec_count (pk_heads pack') \<and> index < vec_count (pk_bodies pack') \<and>
    index < vec_count (pk_tails pack') \<and> (same_counts pack \<longrightarrow> same_counts pack'))"
proof -
  have "part_ok prefix resource_snake_part_init"
    by (simp add: part_ok_def resource_snake_part_init_def sprite_ok_def)
  note step = push_until_ok [of "part_ok prefix" _ resource_snake_part_init index "pj_part u", OF _ this assms(3)]
  obtain r1 v1 where 1: "push_until (pj_part u) resource_snake_part_init index (pk_heads pack) = Some (r1, v1)"
      "cells_ok (part_ok prefix) v1" "r1 = 0 \<longrightarrow> vec_count v1 = max (vec_count (pk_heads pack)) (index + 1)"
    using step [of "pk_heads pack"] assms(2) by (auto simp: pack_ok_def)
  obtain r2 v2 where 2: "push_until (pj_part u) resource_snake_part_init index (pk_bodies pack) = Some (r2, v2)"
      "cells_ok (part_ok prefix) v2" "r2 = 0 \<longrightarrow> vec_count v2 = max (vec_count (pk_bodies pack)) (index + 1)"
    using step [of "pk_bodies pack"] assms(2) by (auto simp: pack_ok_def)
  obtain r3 v3 where 3: "push_until (pj_part u) resource_snake_part_init index (pk_tails pack) = Some (r3, v3)"
      "cells_ok (part_ok prefix) v3" "r3 = 0 \<longrightarrow> vec_count v3 = max (vec_count (pk_tails pack)) (index + 1)"
    using step [of "pk_tails pack"] assms(2) by (auto simp: pack_ok_def)
  show ?thesis
    using assms(1,2) 1 2 3 by (auto simp: fill_parts_def pack_ok_def same_counts_def Let_def split: if_splits)
qed

lemma section_snake_ok:
  assumes "parse_section_snake u prefix sec pack p = Some (tok, pack', q)" "0 \<notin> set prefix" "pack_ok prefix pack"
    "same_counts pack"
  shows "pack_ok prefix pack' \<and> (tok \<noteq> PTOK_ERROR \<longrightarrow> same_counts pack')"
proof -
  have into: "cells_ok (part_ok prefix) (Some (vec_store i part' v)) \<and> vec_cnt (vec_store i part' v) = vec_cnt v"
    if "parse_layer u prefix name (vec_get v i) p = Some (tok, part', q)" "cells_ok (part_ok prefix) (Some v)"
      "0 \<le> i" "i < vec_cnt v" for i v name part'
    using that cells_ok_store [OF that(2) _ that(3,4)] layer_ok [OF that(1) assms(2) cells_ok_get [OF that(2-4)]] by simp
  show ?thesis
  proof (cases "pack' = pack \<and> tok = PTOK_ERROR")
    case False
    then obtain ok pack1 where f: "0 \<le> sc_section_index sec" "fill_parts u (sc_section_index sec) pack = Some (ok, pack1)"
      using assms(1) by (auto simp: parse_section_snake_def Let_def bind_eq_Some_conv split: if_splits)
    note g = fill_parts_ok [OF f(2) assms(3) f(1)]
    show ?thesis
      using assms(1,4) f g into False
      by (auto simp: parse_section_snake_def Let_def bind_eq_Some_conv pack_ok_def same_counts_def
          split: if_splits option.splits)
  qed (use assms in simp)
qed

lemma section_ok:
  assumes "parse_section u prefix sec pack p = Some (tok, pack', q)" "0 \<notin> set prefix" "pack_ok prefix pack"
    "same_counts pack"
  shows "pack_ok prefix pack' \<and> (tok \<noteq> PTOK_ERROR \<longrightarrow> same_counts pack')"
proof -
  have "pack_ok prefix pack' \<and> same_counts pack'" if "pack_parse_section_glsl u prefix pack p = Some (tok, pack', q)"
    using that glsl_keys_ok assms(2-4)
    by (fastforce simp: pack_parse_section_glsl_def bind_eq_Some_conv same_counts_def)
  then show ?thesis
    using assms section_snake_ok section_background_ok by (auto simp: parse_section_def split: if_splits)
qed

section \<open>The pack\<close>

lemma ini_ok:
  "pack_parse_ini_from u prefix pack tok p = Some (True, pack') \<Longrightarrow> 0 \<notin> set prefix \<Longrightarrow> pack_ok prefix pack \<Longrightarrow>
     (tok \<noteq> PTOK_ERROR \<longrightarrow> same_counts pack) \<Longrightarrow> pack_ok prefix pack' \<and> same_counts pack'"
proof (induction u prefix pack tok p rule: pack_parse_ini_from.induct)
  case (1 u prefix pack tok p)
  show ?case
  proof (cases "tok = PTOK_LBRACKET")
    case True
    then obtain sec p1 tok2 pack2 p2 where s: "parse_section_desc section_init p = Some (PTOK_RBRACKET, sec, p1)"
        "parse_section u prefix sec pack p1 = Some (tok2, pack2, p2)"
        "pack_parse_ini_from u prefix pack2 tok2 p2 = Some (True, pack')"
      using "1.prems"(1)
      by (auto simp: pack_parse_ini_from.simps [of u prefix pack PTOK_LBRACKET p] bind_eq_Some_conv split: if_splits)
    have "pack_ok prefix pack2 \<and> (tok2 \<noteq> PTOK_ERROR \<longrightarrow> same_counts pack2)"
      using section_ok [OF s(2) "1.prems"(2,3)] "1.prems"(4) True by simp
    then show ?thesis
      using "1.IH" [OF _ _ True s(1) refl refl _ s(2) refl refl s(3)] True "1.prems"(2) by simp
  next
    case False
    then show ?thesis
      using "1.prems" by (auto simp: pack_parse_ini_from.simps [of u prefix pack tok p] split: if_splits)
  qed
qed

lemma pack_init_ok: "pack_ok prefix resource_pack_init \<and> same_counts resource_pack_init"
  by (auto simp: pack_ok_def resource_pack_init_def files_ok_def strlist_init_def sl_ok_def slp_rep_def
      sl_strings_def strlist_count_def cells_ok_def vec_init_def same_counts_def)

text \<open>The lists of files that a sprite, a part and a pack have.\<close>

definition sprite_lists :: "resource_sprite option \<Rightarrow> strlist option set" where
  "sprite_lists p = (case p of None \<Rightarrow> {} | Some sprite \<Rightarrow> {rs_textures sprite})"

definition part_lists :: "resource_snake_part \<Rightarrow> strlist option set" where
  "part_lists part = (\<Union>x \<in> {rp_base part, rp_gather part, rp_boost part, rp_turn part,
     rp_projectile part, rp_split part, rp_armor part}. sprite_lists x)"

definition pack_lists :: "resource_pack \<Rightarrow> strlist option set" where
  "pack_lists pack =
     {pk_glsl_background pack, pk_glsl_shadow pack, pk_glsl_sprite pack} \<union>
     (\<Union>x \<in> set (vecp_list (pk_background pack)). sprite_lists x) \<union>
     (\<Union>v \<in> {pk_heads pack, pk_bodies pack, pk_tails pack}. \<Union>x \<in> set (vecp_list v). part_lists x)"

lemma sprite_ok_lists: "sprite_ok prefix p \<Longrightarrow> l \<in> sprite_lists p \<Longrightarrow> files_ok prefix l"
  by (auto simp: sprite_ok_def sprite_lists_def split: option.splits)

lemma part_ok_lists: "part_ok prefix part \<Longrightarrow> l \<in> part_lists part \<Longrightarrow> files_ok prefix l"
proof -
  assume ok: "part_ok prefix part" and l: "l \<in> part_lists part"
  obtain x where x: "x \<in> {rp_base part, rp_gather part, rp_boost part, rp_turn part, rp_projectile part,
      rp_split part, rp_armor part}" "l \<in> sprite_lists x"
    using l unfolding part_lists_def by blast
  have "sprite_ok prefix x"
    using ok x(1) by (auto simp: part_ok_def)
  then show ?thesis
    using sprite_ok_lists x(2) by blast
qed

lemma pack_ok_lists:
  assumes "pack_ok prefix pack" "l \<in> pack_lists pack"
  shows "files_ok prefix l"
proof -
  consider (list) "l \<in> {pk_glsl_background pack, pk_glsl_shadow pack, pk_glsl_sprite pack}"
    | (sprite) x where "x \<in> set (vecp_list (pk_background pack))" "l \<in> sprite_lists x"
    | (part) v x where "v \<in> {pk_heads pack, pk_bodies pack, pk_tails pack}" "x \<in> set (vecp_list v)" "l \<in> part_lists x"
    using assms(2) unfolding pack_lists_def by blast
  then show ?thesis
  proof cases
    case list
    then show ?thesis
      using assms(1) by (auto simp: pack_ok_def)
  next
    case sprite
    have "cells_ok (sprite_ok prefix) (pk_background pack)"
      using assms(1) by (simp add: pack_ok_def)
    then show ?thesis
      using sprite_ok_lists [OF _ sprite(2)] sprite(1) by (simp add: cells_ok_def list_all_iff)
  next
    case part
    have "cells_ok (part_ok prefix) v"
      using assms(1) part(1) by (auto simp: pack_ok_def)
    then show ?thesis
      using part_ok_lists [OF _ part(3)] part(2) by (simp add: cells_ok_def list_all_iff)
  qed
qed

text \<open>
  Claim C15. A resource pack that is accepted, from a path without a zero byte, is complete: the
  snake has as many heads as bodies and tails; every vector of it is well formed; and so is every
  list of strings, those of the three shaders and those of the textures of every sprite, where each
  string is the path of the pack, a slash, and a name. The pack is what the parser makes of the
  whole file config.ini of the directory, starting from an empty pack.
\<close>

theorem pack_well_formed:
  assumes "resource_pack_parse u file path = Some (Some pack)" "0 \<notin> set path"
  shows "vec_count (pk_bodies pack) = vec_count (pk_heads pack) \<and>
    vec_count (pk_tails pack) = vec_count (pk_heads pack) \<and> vecp_ok 16 (pk_background pack) \<and>
    vecp_ok 16 (pk_heads pack) \<and> vecp_ok 16 (pk_bodies pack) \<and> vecp_ok 16 (pk_tails pack) \<and>
    (\<forall>l \<in> pack_lists pack. sl_ok l \<and> (\<forall>t \<in> set (sl_strings l). \<exists>f. t = path @ 47 # f)) \<and>
    (\<exists>source. file (path @ 47 # bytes ''config.ini'') = Some source \<and>
       pack_parse_ini u path resource_pack_init source = Some (True, pack))"
proof -
  obtain r1 s1 where s1: "str_set_cstr (pj_byte u) str_init path = Some (r1, s1)" "r1 = 0"
    using assms(1) by (auto simp: resource_pack_parse_def bind_eq_Some_conv split: if_splits)
  obtain r2 s2 where s2: "str_join_path (pj_byte u) s1 (bytes ''config.ini'') = Some (r2, s2)" "r2 = 0"
    using assms(1) s1 by (auto simp: resource_pack_parse_def str_join_path_cstr_def bind_eq_Some_conv split: if_splits)
  obtain source where s3: "file (str_cstr s2) = Some source"
    using assms(1) s1 s2 by (auto simp: resource_pack_parse_def str_join_path_cstr_def split: option.splits)
  obtain ok pack1 where s4: "pack_parse_ini u path resource_pack_init source = Some (ok, pack1)" "ok" "pack1 = pack"
    using assms(1) s1 s2 s3 by (auto simp: resource_pack_parse_def str_join_path_cstr_def split: if_splits)
  note s = s1(1) [unfolded s1(2)] s2(1) [unfolded s2(2)] s3 s4(1) [unfolded s4(3)]
  have h: "str_holds s2 (path @ 47 # bytes ''config.ini'')"
    using str_join_path_size [OF str_set_cstr_size [OF _ s(1)] s(2)] by (simp add: str_init_def vec_init_def)
  have c: "takeWhile (\<lambda>c. c \<noteq> 0) (47 # bytes ''config.ini'') = 47 # bytes ''config.ini''"
    by (simp add: bytes_def)
  have name: "str_cstr s2 = path @ 47 # bytes ''config.ini''"
    unfolding str_holds_cstr [OF h] takeWhile_nonzero [OF assms(2)] c ..
  obtain tok p where "pack_parse_ini_from u path resource_pack_init tok p = Some (True, pack)"
    using s(4) s4(2) by (auto simp: pack_parse_ini_def bind_eq_Some_conv)
  from ini_ok [OF this assms(2)] have ok: "pack_ok path pack" "same_counts pack"
    using pack_init_ok by auto
  have "\<forall>l \<in> pack_lists pack. sl_ok l \<and> (\<forall>t \<in> set (sl_strings l). \<exists>f. t = path @ 47 # f)"
    using pack_ok_lists [OF ok(1)] by (simp add: files_ok_def)
  then show ?thesis
    using ok(2) s(3,4) s4(2) name ok(1) by (simp add: same_counts_def pack_ok_def cells_ok_def)
qed

definition demo_pack_junk :: pack_junk where
  "demo_pack_junk = \<lparr>pj_byte = (\<lambda>_. 0), pj_span = (\<lambda>_. \<lparr>sp_off = 0, sp_len = 0\<rparr>), pj_sprite = (\<lambda>_. None),
     pj_part = (\<lambda>_. resource_snake_part_init)\<rparr>"

definition demo_pack_file :: "8 word list" where
  "demo_pack_file = bytes ''[snake0.head.base] fps=20 textures='' @ [34, 97, 34]"

lemma demo_pack_parses:
  "map_option (map_option (\<lambda>pack. (vec_count (pk_heads pack), vec_count (pk_tails pack),
       map (\<lambda>part. map_option (\<lambda>sprite. sl_strings (rs_textures sprite)) (rp_base part)) (vecp_list (pk_heads pack)))))
     (resource_pack_parse demo_pack_junk (\<lambda>_. Some demo_pack_file) [112]) = Some (Some (1, 1, [Some [[112, 47, 97]]]))"
  by code_simp

theorem pack_well_formed_witness:
  "\<exists>pack. resource_pack_parse demo_pack_junk (\<lambda>_. Some demo_pack_file) [112] = Some (Some pack) \<and>
     vec_count (pk_bodies pack) = 1 \<and> sl_ok (pk_glsl_sprite pack) \<and>
     (\<exists>l \<in> pack_lists pack. sl_ok l \<and> [112, 47, 97] \<in> set (sl_strings l))"
proof -
  obtain pack where p: "resource_pack_parse demo_pack_junk (\<lambda>_. Some demo_pack_file) [112] = Some (Some pack)"
      "vec_count (pk_heads pack) = 1"
      "map (\<lambda>part. map_option (\<lambda>sprite. sl_strings (rs_textures sprite)) (rp_base part)) (vecp_list (pk_heads pack)) =
        [Some [[112, 47, 97]]]"
    using demo_pack_parses by auto
  then obtain part sprite where s: "part \<in> set (vecp_list (pk_heads pack))" "rp_base part = Some sprite"
      "[112, 47, 97] \<in> set (sl_strings (rs_textures sprite))"
    by (cases "vecp_list (pk_heads pack)") auto
  then have "rs_textures sprite \<in> pack_lists pack"
    unfolding pack_lists_def part_lists_def sprite_lists_def by force
  then show ?thesis
    using pack_well_formed [OF p(1)] p s(3) by (auto simp: pack_lists_def)
qed

end
