(* ===== verification/Args.thy ===== *)
theory Args
  imports Strview
begin

text \<open>
  The command line (src/args.c, include/clither/args.h), as it is built by default: with the
  server, graphics, the network simulation, logging and the tests, without the benchmarks.
  \<open>argv\<close> is the list of the arguments, \<open>backends\<close> the number of graphics backends that are
  compiled in. The text of the help and of the errors is not modelled. \<open>None\<close> as a result is
  reading past the end of an argument.
\<close>

section \<open>The C library\<close>

definition isspace :: "8 word \<Rightarrow> bool" where
  "isspace c \<longleftrightarrow> c = 32 \<or> (9 \<le> c \<and> c \<le> 13)"

definition atoi :: "8 word list \<Rightarrow> int" where
  "atoi s =
     (let t = dropWhile isspace s
      in if t \<noteq> [] \<and> hd t = 45 then i32 (- digits_value (takeWhile isdigit (tl t)))
         else if t \<noteq> [] \<and> hd t = 43 then digits_value (takeWhile isdigit (tl t))
         else digits_value (takeWhile isdigit t))"

section \<open>Data\<close>

datatype mode = MODE_TESTS | MODE_CLIENT | MODE_CLIENT_AND_SERVER | MODE_HEADLESS

record args =
  ar_log_file :: "8 word list"
  ar_config_file :: "8 word list"
  ar_ip :: "8 word list"
  ar_port :: "8 word list"
  ar_mcd_port :: "8 word list"
  ar_mcd_latency :: int
  ar_mcd_loss :: int
  ar_mcd_dup :: int
  ar_mcd_reorder :: int
  ar_gfx_backend :: int
  ar_mode :: mode

definition args_defaults :: args where
  "args_defaults = \<lparr>ar_log_file = bytes ''clither.txt'', ar_config_file = bytes ''config.ini'', ar_ip = [],
     ar_port = [], ar_mcd_port = bytes ''5554'', ar_mcd_latency = 0, ar_mcd_loss = 0, ar_mcd_dup = 0,
     ar_mcd_reorder = 0, ar_gfx_backend = 0, ar_mode = MODE_CLIENT\<rparr>"

text \<open>The arguments and the flags of the loop.\<close>

record args_state =
  as_args :: args
  as_tests :: bool
  as_server :: bool
  as_host :: bool

text \<open>
  What an argument leads to: the function returns, the loop is left, the loop goes on behind
  what was consumed, or an argument is read past its end.
\<close>

datatype args_step =
  Return int args_state
| Break
| Continue args_state "8 word list list"
| Undefined

section \<open>Options\<close>

definition args_long :: "int \<Rightarrow> 8 word list \<Rightarrow> 8 word list list \<Rightarrow> args_state \<Rightarrow> args_step" where
  "args_long backends arg rest st =
     (let a = as_args st
      in if arg = bytes ''help'' then Return 1 st
         else if arg = bytes ''tests'' then Continue (st\<lparr>as_tests := True\<rparr>) rest
         else if arg = bytes ''gfx'' then
           (if rest = [] \<or> hd rest = [] then Return (-1) st
            else let gfx = atoi (hd rest); st = st\<lparr>as_args := a\<lparr>ar_gfx_backend := gfx\<rparr>\<rparr>
              in if gfx \<ge> backends \<or> gfx < 0 then Return (-1) st else Continue st (tl rest))
         else if arg = bytes ''server'' then Continue (st\<lparr>as_server := True\<rparr>) rest
         else if arg = bytes ''host'' then Continue (st\<lparr>as_host := True\<rparr>) rest
         else if arg = bytes ''ip'' then
           (if rest = [] \<or> hd rest = [] then Return (-1) st
            else Continue (st\<lparr>as_args := a\<lparr>ar_ip := hd rest\<rparr>\<rparr>) (tl rest))
         else if arg = bytes ''port'' then
           (if rest = [] \<or> hd rest = [] then Return (-1) st
            else Continue (st\<lparr>as_args := a\<lparr>ar_port := hd rest\<rparr>\<rparr>) (tl rest))
         else if arg = bytes ''mcd'' then
           (if length rest < 4 then Return (-1) st
            else Continue (st\<lparr>as_args := a\<lparr>ar_mcd_latency := atoi (rest ! 0), ar_mcd_loss := atoi (rest ! 1),
                   ar_mcd_dup := atoi (rest ! 2), ar_mcd_reorder := atoi (rest ! 3)\<rparr>\<rparr>) (drop 4 rest))
         else if arg = bytes ''log'' then
           (if rest = [] then Return (-1) st
            else Continue (st\<lparr>as_args := a\<lparr>ar_log_file := hd rest\<rparr>\<rparr>) (tl rest))
         else if arg = [] then Break
         else if \<not> as_tests st then Return (-1) st
         else Continue st rest)"

text \<open>
  The letters behind a dash. An option with a value moves on to the next argument, and what
  comes after the loop looks at the argument it has moved to.
\<close>

fun args_short ::
  "8 word list \<Rightarrow> 8 word list \<Rightarrow> 8 word list list \<Rightarrow> args_state \<Rightarrow> args_step" where
  "args_short cur [] rest st =
     (case cur of [] \<Rightarrow> Undefined | [c] \<Rightarrow> Return (-1) st | _ \<Rightarrow> Continue st rest)"
| "args_short cur (c # p) rest st =
     (if c = 112 then
        (if p \<noteq> [] \<or> rest = [] \<or> hd rest = [] then Return (-1) st
         else args_short (hd rest) p (tl rest) (st\<lparr>as_args := (as_args st)\<lparr>ar_port := hd rest\<rparr>\<rparr>))
      else if c = 115 then args_short cur p rest (st\<lparr>as_server := True\<rparr>)
      else if c = 104 then args_short cur p rest (st\<lparr>as_host := True\<rparr>)
      else if c = 108 then
        (if p \<noteq> [] \<or> rest = [] then Return (-1) st
         else args_short (hd rest) p (tl rest) (st\<lparr>as_args := (as_args st)\<lparr>ar_log_file := hd rest\<rparr>\<rparr>))
      else Return (-1) st)"

definition args_one :: "int \<Rightarrow> 8 word list \<Rightarrow> 8 word list list \<Rightarrow> args_state \<Rightarrow> args_step" where
  "args_one backends arg rest st =
     (case arg of
        c # d # name \<Rightarrow>
          if c \<noteq> 45 then Return (-1) st
          else if d = 45 then args_long backends name rest st
          else args_short arg (d # name) rest st
      | [c] \<Rightarrow> if c \<noteq> 45 then Return (-1) st else args_short arg [] rest st
      | [] \<Rightarrow> Return (-1) st)"

lemma args_long_shorter: "args_long backends arg rest st = Continue st' rest' \<Longrightarrow> length rest' \<le> length rest"
  by (auto simp: args_long_def Let_def split: if_splits)

lemma args_short_shorter: "args_short cur p rest st = Continue st' rest' \<Longrightarrow> length rest' \<le> length rest"
  by (induction cur p rest st rule: args_short.induct) (auto split: if_splits list.splits)

lemma args_one_shorter: "args_one backends arg rest st = Continue st' rest' \<Longrightarrow> length rest' \<le> length rest"
  by (auto simp: args_one_def split: list.splits if_splits dest!: args_long_shorter args_short_shorter)

section \<open>The loop\<close>

text \<open>The value that is returned if there is one, and the state.\<close>

function args_loop :: "int \<Rightarrow> 8 word list list \<Rightarrow> args_state \<Rightarrow> (int option \<times> args_state) option" where
  "args_loop backends [] st = Some (None, st)"
| "args_loop backends (arg # rest) st =
     (case args_one backends arg rest st of
        Return r st \<Rightarrow> Some (Some r, st)
      | Break \<Rightarrow> Some (None, st)
      | Continue st rest \<Rightarrow> args_loop backends rest st
      | Undefined \<Rightarrow> None)"
  by pat_completeness auto
termination
  by (relation "measure (\<lambda>(backends, argv, st). length argv)") (auto dest!: args_one_shorter)

definition args_mode :: "args_state \<Rightarrow> int \<times> args" where
  "args_mode st =
     (let a = as_args st
      in if as_tests st then (0, a\<lparr>ar_mode := MODE_TESTS\<rparr>)
         else if as_server st \<and> as_host st then (-1, a)
         else if as_server st then (0, a\<lparr>ar_mode := MODE_HEADLESS\<rparr>)
         else if as_host st then (0, a\<lparr>ar_mode := MODE_CLIENT_AND_SERVER\<rparr>)
         else (0, a))"

definition args_parse :: "int \<Rightarrow> 8 word list list \<Rightarrow> (int \<times> args) option" where
  "args_parse backends argv =
     map_option (\<lambda>(r, st). case r of Some r \<Rightarrow> (r, as_args st) | None \<Rightarrow> args_mode st)
       (args_loop backends (drop 1 argv)
         \<lparr>as_args = args_defaults, as_tests = False, as_server = False, as_host = False\<rparr>)"

section \<open>What the options do\<close>

lemma option_names: "bytes ''--port'' = 45 # 45 # bytes ''port''" "bytes ''-p'' = [45, 112]"
  "bytes ''--log'' = 45 # 45 # bytes ''log''" "bytes ''-l'' = [45, 108]"
  by (simp_all add: bytes_def)

lemma long_names: "bytes ''port'' \<notin> {bytes ''help'', bytes ''tests'', bytes ''gfx'', bytes ''server'', bytes ''host'', bytes ''ip''}"
  "bytes ''log'' \<notin> {bytes ''help'', bytes ''tests'', bytes ''gfx'', bytes ''server'', bytes ''host'', bytes ''ip'',
     bytes ''port'', bytes ''mcd''}"
  by code_simp+

text \<open>
  Claim C33. The short options for the port and the log file do what the long ones do, unless
  the value is too short: after the letters of an option have been read, the code tests whether
  the argument it has moved on to is a lone dash by its second character, so a port of one
  digit or a log file with a name of one character is rejected, and the empty log file, which
  the help offers for switching the log off, is read past its end.
\<close>

theorem short_options_agree:
  "args_loop n (bytes ''-p'' # v # rest) st =
     (if length v = 1 then Some (Some (-1), st\<lparr>as_args := (as_args st)\<lparr>ar_port := v\<rparr>\<rparr>)
      else args_loop n (bytes ''--port'' # v # rest) st) \<and>
   args_loop n (bytes ''-l'' # v # rest) st =
     (if v = [] then None
      else if length v = 1 then Some (Some (-1), st\<lparr>as_args := (as_args st)\<lparr>ar_log_file := v\<rparr>\<rparr>)
      else args_loop n (bytes ''--log'' # v # rest) st) \<and>
   args_loop n (bytes ''--port'' # v # rest) st =
     (if v = [] then Some (Some (-1), st)
      else args_loop n rest (st\<lparr>as_args := (as_args st)\<lparr>ar_port := v\<rparr>\<rparr>)) \<and>
   args_loop n (bytes ''--log'' # v # rest) st =
     args_loop n rest (st\<lparr>as_args := (as_args st)\<lparr>ar_log_file := v\<rparr>\<rparr>)"
  using long_names
  by (auto simp: option_names args_one_def args_long_def Let_def length_Suc_conv split: list.splits)

text \<open>What is accepted can be run: a backend that exists, and a mode that follows the flags.\<close>

lemma args_long_backend:
  "args_long n arg rest st = Continue st' rest' \<Longrightarrow>
     0 \<le> ar_gfx_backend (as_args st) \<and> ar_gfx_backend (as_args st) < max n 1 \<Longrightarrow>
     0 \<le> ar_gfx_backend (as_args st') \<and> ar_gfx_backend (as_args st') < max n 1"
  by (auto simp: args_long_def Let_def split: if_splits)

lemma args_short_backend:
  "args_short cur p rest st = Continue st' rest' \<Longrightarrow>
     ar_gfx_backend (as_args st') = ar_gfx_backend (as_args st)"
  by (induction cur p rest st rule: args_short.induct) (auto split: if_splits list.splits)

lemma args_loop_backend:
  "args_loop n argv st = Some (None, st') \<Longrightarrow>
     0 \<le> ar_gfx_backend (as_args st) \<and> ar_gfx_backend (as_args st) < max n 1 \<Longrightarrow>
     0 \<le> ar_gfx_backend (as_args st') \<and> ar_gfx_backend (as_args st') < max n 1"
proof (induction n argv st rule: args_loop.induct)
  case (2 n arg rest st)
  show ?case
  proof (cases "args_one n arg rest st")
    case (Continue st1 rest1)
    have "0 \<le> ar_gfx_backend (as_args st1) \<and> ar_gfx_backend (as_args st1) < max n 1"
      using Continue "2.prems"(2) args_long_backend args_short_backend
      by (fastforce simp: args_one_def split: list.splits if_splits)
    then show ?thesis
      using "2.IH" [OF Continue] "2.prems"(1) Continue by simp
  qed (use "2.prems" in simp_all)
qed simp

lemma args_one_return: "args_one n arg rest st = Return r st' \<Longrightarrow> r \<noteq> 0"
proof -
  have "args_short cur p rest st = Return r st' \<Longrightarrow> r \<noteq> 0" for cur p st
    by (induction cur p rest st rule: args_short.induct) (auto split: if_splits list.splits)
  then show "args_one n arg rest st = Return r st' \<Longrightarrow> r \<noteq> 0"
    by (auto simp: args_one_def args_long_def Let_def split: list.splits if_splits)
qed

lemma args_loop_return: "args_loop n argv st = Some (Some r, st') \<Longrightarrow> r \<noteq> 0"
  by (induction n argv st rule: args_loop.induct) (auto split: args_step.splits dest: args_one_return)

lemma accepted_backend:
  assumes "args_parse n argv = Some (0, a)" "0 < n"
  shows "0 \<le> ar_gfx_backend a \<and> ar_gfx_backend a < n"
proof -
  obtain r st where x: "args_loop n (drop 1 argv)
      \<lparr>as_args = args_defaults, as_tests = False, as_server = False, as_host = False\<rparr> = Some (r, st)"
      "(case r of Some r \<Rightarrow> (r, as_args st) | None \<Rightarrow> args_mode st) = (0, a)"
    using assms(1) by (auto simp: args_parse_def)
  then have "r = None"
    using args_loop_return by (cases r) auto
  then have "0 \<le> ar_gfx_backend (as_args st) \<and> ar_gfx_backend (as_args st) < max n 1"
    using args_loop_backend [of n "drop 1 argv" _ st] x(1) by (simp add: args_defaults_def)
  then show ?thesis
    using x(2) \<open>r = None\<close> assms(2) by (auto simp: args_mode_def Let_def split: if_splits)
qed

end
