(* ===== verification/Tick.thy ===== *)
theory Tick
  imports Wrap "HOL-Library.Signed_Division"
begin

text \<open>
  The clock of the main loops (src/tick_posix.c, include/clither/tick.h). Times are
  nanoseconds in 64 bits; a call takes the readings of the monotonic clock that it makes, in
  order, and whether a sleep was not interrupted. \<open>None\<close> is a division by zero, or a wait that
  has not returned when the readings are used up.
\<close>

section \<open>Operations\<close>

record tick =
  tk_interval :: "64 word"
  tk_last :: "64 word"

definition NSEC :: int where
  "NSEC = 1000000000"

text \<open>A reading in seconds and nanoseconds.\<close>

definition timespec :: "int \<Rightarrow> int \<Rightarrow> 64 word" where
  "timespec tv_sec tv_nsec = word_of_int (sx 64 (sx 64 (tv_sec * NSEC) + tv_nsec))"

definition tick_cfg :: "64 word \<Rightarrow> int \<Rightarrow> tick option" where
  "tick_cfg now tps =
     (if tps = 0 then None
      else Some \<lparr>tk_interval = word_of_int (NSEC sdiv tps), tk_last = now\<rparr>)"

definition tick_advance :: "64 word \<Rightarrow> tick \<Rightarrow> (int \<times> tick) option" where
  "tick_advance now t =
     (let wait_until = tk_last t + tk_interval t
      in if now > wait_until
         then if tk_interval t = 0 then None
              else let ticks_behind = i32 (uint ((now - wait_until) div tk_interval t))
                in Some (ticks_behind, if ticks_behind > 0 then t\<lparr>tk_last := wait_until\<rparr> else t)
         else Some (0, t))"

text \<open>The loop that reads the clock until the time has come.\<close>

fun spin :: "64 word \<Rightarrow> 64 word list \<Rightarrow> bool" where
  "spin wait_until [] = False"
| "spin wait_until (now # clock) = (if now < wait_until then spin wait_until clock else True)"

text \<open>What both kinds of waiting share from the time to wait for on.\<close>

definition tick_wait_for ::
  "64 word \<Rightarrow> 64 word \<Rightarrow> bool \<Rightarrow> 64 word list \<Rightarrow> tick \<Rightarrow> (int \<times> tick) option" where
  "tick_wait_for wait_until now slept clock t =
     (if now > wait_until
      then if tk_interval t = 0 then None
           else Some (i32 (uint ((now - wait_until) div tk_interval t)), t\<lparr>tk_last := wait_until\<rparr>)
      else if wait_until - now > 2000 \<and> slept then Some (0, t\<lparr>tk_last := wait_until\<rparr>)
      else if spin wait_until clock then Some (0, t\<lparr>tk_last := wait_until\<rparr>)
      else None)"

definition tick_wait :: "64 word \<Rightarrow> bool \<Rightarrow> 64 word list \<Rightarrow> tick \<Rightarrow> (int \<times> tick) option" where
  "tick_wait now slept clock t = tick_wait_for (tk_last t + tk_interval t) now slept clock t"

definition tick_wait_warp ::
  "64 word \<Rightarrow> bool \<Rightarrow> 64 word list \<Rightarrow> int \<Rightarrow> int \<Rightarrow> tick \<Rightarrow> (int \<times> tick) option" where
  "tick_wait_warp now slept clock warp tps t =
     (if warp \<noteq> 0 \<and> tps = 0 then None
      else
        let wait_until = tk_last t + tk_interval t;
            wait_until = (if warp > 0 then wait_until + word_of_int (NSEC sdiv tps) else wait_until);
            wait_until = (if warp < 0 then wait_until - word_of_int (NSEC sdiv tps) else wait_until)
        in tick_wait_for wait_until now slept clock t)"

definition tick_skip :: "64 word \<Rightarrow> tick \<Rightarrow> tick" where
  "tick_skip now t = t\<lparr>tk_last := now\<rparr>"

section \<open>Waiting\<close>

lemma spin_returns: "wait_until \<le> now \<Longrightarrow> now \<in> set clock \<Longrightarrow> spin wait_until clock"
  by (induction clock) auto

lemma spin_reads: "spin wait_until clock \<Longrightarrow> \<exists>now \<in> set clock. wait_until \<le> now"
  by (induction clock) (auto split: if_splits)

lemma tick_wait_for_last:
  "tick_wait_for w now slept clock t = Some (r, t') \<Longrightarrow> t' = t\<lparr>tk_last := w\<rparr>"
  by (auto simp: tick_wait_for_def split: if_splits)

text \<open>
  Waits one after the other: what each of them reads first, whether it sleeps through, and
  what it reads then.
\<close>

fun tick_waits :: "(64 word \<times> bool \<times> 64 word list) list \<Rightarrow> tick \<Rightarrow> (int list \<times> tick) option" where
  "tick_waits [] t = Some ([], t)"
| "tick_waits ((now, slept, clock) # ws) t =
     Option.bind (tick_wait now slept clock t) (\<lambda>(r, t).
       map_option (\<lambda>(rs, t). (r # rs, t)) (tick_waits ws t))"

text \<open>
  Claim C26. Waiting does not drift: however late the calls come and however long they take, after
  n waits that return the tick is due exactly n intervals after it was set up (in 64 bits), so the
  number of ticks that were missed is never lost. A wait that comes after the time for which the
  tick was due returns the whole intervals that have passed since that time, so 0 up to one
  interval later (the tests of the repository expect one more); any other returns 0, when the time
  has come or the sleep until then was not interrupted. And a wait does return as soon as the clock
  reaches the time, whatever the interval that is not 0.
\<close>

theorem tick_waits_without_drift:
  assumes "tick_waits ws t = Some (rs, t')"
  shows "tk_last t' = tk_last t + of_nat (length ws) * tk_interval t \<and> tk_interval t' = tk_interval t \<and>
    (\<forall>now slept clock. tk_interval t' \<noteq> 0 \<and> (\<exists>c \<in> set clock. tk_last t' + tk_interval t' \<le> c) \<longrightarrow>
       tick_wait now slept clock t' \<noteq> None) \<and>
    (\<forall>now slept clock t'' r. tick_wait now slept clock t' = Some (r, t'') \<longrightarrow>
       (if tk_last t'' < now then r = i32 (uint ((now - tk_last t'') div tk_interval t'))
        else r = 0 \<and> (slept \<or> (\<exists>c \<in> set clock. tk_last t'' \<le> c))))"
proof -
  have "tk_last t' = tk_last t + of_nat (length ws) * tk_interval t \<and> tk_interval t' = tk_interval t"
    using assms
  proof (induction ws arbitrary: t rs)
    case (Cons w ws)
    obtain now slept clock where w: "w = (now, slept, clock)"
      by (cases w)
    then obtain r t1 rs1 where s: "tick_wait now slept clock t = Some (r, t1)" "tick_waits ws t1 = Some (rs1, t')"
      using Cons.prems by (auto simp: bind_eq_Some_conv)
    have "t1 = t\<lparr>tk_last := tk_last t + tk_interval t\<rparr>"
      using tick_wait_for_last s(1) by (simp add: tick_wait_def)
    with Cons.IH [OF s(2)] show ?case
      by (simp add: algebra_simps)
  qed simp
  then show ?thesis
    using spin_returns spin_reads by (auto simp: tick_wait_def tick_wait_for_def split: if_splits)
qed

theorem tick_waits_without_drift_witness:
  "tick_waits [(1500, False, [1600, 2000]), (9000, True, [])] \<lparr>tk_interval = 1000, tk_last = 1000\<rparr> =
     Some ([0, 6], \<lparr>tk_interval = 1000, tk_last = 3000\<rparr>) \<and> (3000::64 word) = 1000 + of_nat 2 * 1000"
proof -
  have "tick_waits [(1500, False, [1600, 2000]), (9000, True, [])] \<lparr>tk_interval = 1000, tk_last = 1000\<rparr> =
      Some ([0, 6], \<lparr>tk_interval = 1000, tk_last = 3000\<rparr>)"
    by code_simp
  with tick_waits_without_drift [OF this] show ?thesis
    by simp
qed

text \<open>Advancing reports a tick only when two intervals have passed.\<close>

lemma tick_advance_late:
  assumes "uint (tk_last t) + 2 * uint (tk_interval t) < 2 ^ 64" "tk_interval t \<noteq> 0"
    "uint now < uint (tk_last t) + 2 * uint (tk_interval t)"
  shows "tick_advance now t = Some (0, t)"
proof (cases "now > tk_last t + tk_interval t")
  case True
  have "uint (tk_last t) + uint (tk_interval t) < 2 ^ 64"
    using assms(1) unsigned_greater_eq [of "tk_interval t", where ?'a = int] by linarith
  then have "uint (tk_last t + tk_interval t) = uint (tk_last t) + uint (tk_interval t)"
    by (simp add: uint_plus_if')
  moreover from this True have "uint (now - (tk_last t + tk_interval t)) = uint now - (uint (tk_last t) + uint (tk_interval t))"
    by (simp add: uint_sub_if' word_less_def)
  ultimately have "uint ((now - (tk_last t + tk_interval t)) div tk_interval t) = 0"
    using assms(3) True by (simp add: uint_div div_pos_pos_trivial word_less_def)
  then show ?thesis
    using True assms(2) by (simp add: tick_advance_def Let_def i32_id)
qed (simp add: tick_advance_def Let_def)

end
