(* ===== verification/McdWifi.thy ===== *)
theory McdWifi
  imports Vec Packet "HOL-Library.Signed_Division"
begin

text \<open>
  The network simulation (src/mcd_wifi.c), a proxy between a client and the server that delays,
  loses, duplicates and reorders datagrams. What waits in a socket is a list; the values of
  \<open>rand\<close> are a sequence, which is part of the configuration. The sockets that are left to reach
  the server are counted, and of the datagrams from it a failing receive is \<open>None\<close>. Memory is
  taken to be available. The main loop's waiting for the clock is not part of a frame.
\<close>

section \<open>State\<close>

definition TICK_RATE :: int where
  "TICK_RATE = 60"

record mcd_cfg =
  mw_latency :: int
  mw_loss :: int
  mw_dup :: int
  mw_reorder :: int
  mw_rand :: "nat \<Rightarrow> int"
  mw_rand_max :: int

text \<open>
  The two buffers, the client, the number of sockets, the number of values of \<open>rand\<close> that were
  used, and what was sent in both directions, in order.
\<close>

record 'a mcd =
  mc_client_buf :: "8 word list vec option"
  mc_server_buf :: "8 word list vec option"
  mc_client_addr :: 'a
  mc_client_active :: bool
  mc_fds :: nat
  mc_rands :: nat
  mc_to_server :: "8 word list list"
  mc_to_client :: "('a \<times> 8 word list) list"

section \<open>Receiving\<close>

text \<open>A packet: two bytes of length, the delay in ticks, and the data.\<close>

definition mcd_packet :: "mcd_cfg \<Rightarrow> 8 word list \<Rightarrow> 8 word list" where
  "mcd_packet c buf =
     (let len = length buf mod 65536
      in [word_of_nat (len div 256), word_of_nat len, word_of_int (i32 (TICK_RATE * mw_latency c) sdiv 1000)] @ buf)"

definition chance :: "mcd_cfg \<Rightarrow> nat \<Rightarrow> int \<Rightarrow> bool" where
  "chance c k percent \<longleftrightarrow> mw_rand c k < (percent * mw_rand_max c) sdiv 100"

text \<open>
  Queueing what was received, in the same way in both directions: the queue, how many values of
  \<open>rand\<close> were used, and whether the packet was kept. The packet that is reordered is the one
  that was pushed first, which the buffer holds by its address.
\<close>

definition mcd_enqueue ::
  "mcd_cfg \<Rightarrow> (nat \<Rightarrow> 8 word list) \<Rightarrow> 8 word list \<Rightarrow> 8 word list vec option \<Rightarrow> nat \<Rightarrow>
     8 word list vec option \<times> nat \<times> bool" where
  "mcd_enqueue c u buf q k =
     (if chance c k (mw_loss c) then (q, k + 1, False)
      else
        let msg = mcd_packet c buf; idx = vec_count q; (r, q) = vec_push 16 True u q msg;
            q = (if chance c (k + 1) (mw_dup c) then snd (vec_push 16 True u q msg) else q)
        in if chance c (k + 2) (mw_reorder c)
           then let msg = msg[2 := msg ! 2 + word_of_int ((mw_rand c (k + 3) * TICK_RATE) sdiv mw_rand_max c)]
             in (if r = 0 then map_option (vec_store idx msg) q else q, k + 4, True)
           else (q, k + 3, True))"

text \<open>Whether the loop of the program is left, and the state.\<close>

fun mcd_recv_client ::
  "mcd_cfg \<Rightarrow> (nat \<Rightarrow> 8 word list) \<Rightarrow> int \<Rightarrow> ('a \<times> 8 word list) list \<Rightarrow> 'a mcd \<Rightarrow> bool \<times> 'a mcd" where
  "mcd_recv_client c u r [] st = (r < 0, st)"
| "mcd_recv_client c u r ((addr, buf) # waiting) st =
     (let st = st\<lparr>mc_client_addr := addr\<rparr>
      in if buf = [] then (False, st)
         else (case mcd_enqueue c u buf (mc_client_buf st) (mc_rands st) of (q, k, kept) \<Rightarrow>
           mcd_recv_client c u r waiting
             (st\<lparr>mc_client_buf := q, mc_rands := k, mc_client_active := mc_client_active st \<or> kept\<rparr>)))"

fun mcd_recv_server ::
  "mcd_cfg \<Rightarrow> (nat \<Rightarrow> 8 word list) \<Rightarrow> 8 word list option list \<Rightarrow> 'a mcd \<Rightarrow> bool \<times> 'a mcd" where
  "mcd_recv_server c u [] st = (False, st)"
| "mcd_recv_server c u (None # waiting) st =
     (if mc_fds st = 1 then (True, st) else mcd_recv_server c u waiting (st\<lparr>mc_fds := mc_fds st - 1\<rparr>))"
| "mcd_recv_server c u (Some buf # waiting) st =
     (if buf = [] then (False, st)
      else (case mcd_enqueue c u buf (mc_server_buf st) (mc_rands st) of (q, k, kept) \<Rightarrow>
        mcd_recv_server c u waiting (st\<lparr>mc_server_buf := q, mc_rands := k\<rparr>)))"

section \<open>Sending\<close>

definition mcd_payload :: "8 word list \<Rightarrow> 8 word list" where
  "mcd_payload msg = take (unat (msg ! 0) * 256 + unat (msg ! 1)) (drop 3 msg)"

definition send_pending_client_msgs :: "8 word list \<Rightarrow> 8 word list list \<Rightarrow> int \<times> 8 word list \<times> 8 word list list" where
  "send_pending_client_msgs msg sent =
     (if msg ! 2 = 0 then (VEC_ERASE, msg, sent @ [mcd_payload msg])
      else (VEC_RETAIN, msg[2 := msg ! 2 - 1], sent))"

definition send_pending_server_msgs ::
  "bool \<Rightarrow> 'a \<Rightarrow> 8 word list \<Rightarrow> ('a \<times> 8 word list) list \<Rightarrow> int \<times> 8 word list \<times> ('a \<times> 8 word list) list" where
  "send_pending_server_msgs active addr msg sent =
     (if msg ! 2 = 0 then (VEC_ERASE, msg, if active then sent @ [(addr, mcd_payload msg)] else sent)
      else (VEC_RETAIN, msg[2 := msg ! 2 - 1], sent))"

text \<open>A frame: what waits in the two sockets, and what receiving from the client ends with.\<close>

definition mcd_frame ::
  "mcd_cfg \<Rightarrow> (nat \<Rightarrow> 8 word list) \<Rightarrow> ('a \<times> 8 word list) list \<Rightarrow> int \<Rightarrow> 8 word list option list \<Rightarrow> 'a mcd \<Rightarrow>
     bool \<times> 'a mcd" where
  "mcd_frame c u from_client r from_server st =
     (case mcd_recv_client c u r from_client st of (quit, st) \<Rightarrow>
        if quit then (True, st)
        else (case mcd_recv_server c u from_server st of (quit, st) \<Rightarrow>
          if quit then (True, st)
          else
            (case vec_retain send_pending_client_msgs (mc_client_buf st) (mc_to_server st) of (_, q, sent) \<Rightarrow>
              let st = st\<lparr>mc_client_buf := q, mc_to_server := sent\<rparr>
              in (case vec_retain (send_pending_server_msgs (mc_client_active st) (mc_client_addr st))
                    (mc_server_buf st) (mc_to_client st) of (_, q, sent) \<Rightarrow>
                 (False, st\<lparr>mc_server_buf := q, mc_to_client := sent\<rparr>)))))"

fun mcd_run ::
  "mcd_cfg \<Rightarrow> (nat \<Rightarrow> 8 word list) \<Rightarrow> (('a \<times> 8 word list) list \<times> 8 word list option list) list \<Rightarrow> 'a mcd \<Rightarrow>
     bool \<times> 'a mcd" where
  "mcd_run c u [] st = (False, st)"
| "mcd_run c u ((from_client, from_server) # frames) st =
     (case mcd_frame c u from_client 0 from_server st of (quit, st) \<Rightarrow>
        if quit then (True, st) else mcd_run c u frames st)"

section \<open>A delay without loss\<close>

definition mcd_lossless :: "mcd_cfg \<Rightarrow> bool" where
  "mcd_lossless c \<longleftrightarrow> mw_loss c = 0 \<and> mw_dup c = 0 \<and> mw_reorder c = 0 \<and> (\<forall>k. 0 \<le> mw_rand c k)"

definition mcd_delay :: "mcd_cfg \<Rightarrow> nat" where
  "mcd_delay c = unat (word_of_int (i32 (TICK_RATE * mw_latency c) sdiv 1000) :: 8 word)"

definition delayed :: "nat \<Rightarrow> 8 word list \<Rightarrow> 8 word list" where
  "delayed d buf = (let len = length buf mod 65536
     in [word_of_nat (len div 256), word_of_nat len, word_of_nat d] @ buf)"

lemma packet_delayed: "mcd_packet c buf = delayed (mcd_delay c) buf"
  by (simp add: mcd_packet_def delayed_def mcd_delay_def Let_def)

lemma delayed_byte: "delayed d buf ! 2 = word_of_nat d"
  by (simp add: delayed_def Let_def)

lemma delayed_later: "(delayed (Suc d) buf)[2 := word_of_nat (Suc d) - 1] = delayed d buf"
  by (simp add: delayed_def Let_def)

lemma payload_delayed:
  assumes "length buf < 65536"
  shows "mcd_payload (delayed d buf) = buf"
proof -
  have "length buf div 256 mod 256 = length buf div 256"
    using assms by (intro mod_less) (simp add: div_less_iff_less_mult)
  then show ?thesis
    using assms by (simp add: mcd_payload_def delayed_def Let_def unat_of_nat)
qed

lemma no_chance: "mcd_lossless c \<Longrightarrow> \<not> chance c k 0"
  by (auto simp: mcd_lossless_def chance_def not_less)

lemma enqueue_lossless:
  assumes "mcd_lossless c"
  shows "mcd_enqueue c u buf q k = (snd (vec_push 16 True u q (delayed (mcd_delay c) buf)), k + 3, True)"
  using no_chance [OF assms] assms
  by (simp add: mcd_enqueue_def mcd_lossless_def packet_delayed split: prod.splits)

text \<open>Sending takes out what is due, in order, and brings the rest a tick nearer.\<close>

lemma send_pending_list:
  "retain_list send_pending_client_msgs q sent =
     (0, map (\<lambda>msg. msg[2 := msg ! 2 - 1]) (filter (\<lambda>msg. msg ! 2 \<noteq> 0) q),
      sent @ map mcd_payload (filter (\<lambda>msg. msg ! 2 = 0) q))"
  by (induction q arbitrary: sent) (simp_all add: send_pending_client_msgs_def VEC_ERASE_def VEC_RETAIN_def)

text \<open>What is under way when the frames \<open>fs\<close>, the newest first, have passed; the newest has \<open>d\<close> ticks to go.\<close>

fun flight :: "nat \<Rightarrow> 8 word list list list \<Rightarrow> 8 word list list" where
  "flight 0 fs = []"
| "flight (Suc d) [] = []"
| "flight (Suc d) (f # fs) = flight d fs @ map (delayed d) f"

lemma small_delay: "0 < d \<Longrightarrow> d < 256 \<Longrightarrow> (word_of_nat d :: 8 word) \<noteq> 0"
  by (auto simp: word_of_nat_eq_0_iff dest: nat_dvd_not_less)

lemma due_now:
  "\<forall>b \<in> set f. length b < 65536 \<Longrightarrow>
     map mcd_payload (filter (\<lambda>msg. msg ! 2 = 0) (map (delayed 0) f)) = f \<and>
     filter (\<lambda>msg. msg ! 2 \<noteq> 0) (map (delayed 0) f) = []"
  by (induction f) (simp_all add: delayed_byte payload_delayed)

lemma due_later:
  assumes "Suc d < 256"
  shows "filter (\<lambda>msg. msg ! 2 = 0) (map (delayed (Suc d)) f) = [] \<and>
    map (\<lambda>msg. msg[2 := msg ! 2 - 1]) (filter (\<lambda>msg. msg ! 2 \<noteq> 0) (map (delayed (Suc d)) f)) = map (delayed d) f"
proof -
  have "(word_of_nat (Suc d) :: 8 word) \<noteq> 0"
    using small_delay [of "Suc d"] assms by blast
  then show ?thesis
    by (induction f) (simp_all add: delayed_byte delayed_later del: of_nat_Suc)
qed

lemma flight_due:
  assumes "d < 256" "\<forall>f \<in> set fs. \<forall>b \<in> set f. length b < 65536"
  shows "map mcd_payload (filter (\<lambda>msg. msg ! 2 = 0) (flight (Suc d) fs)) = (if d < length fs then fs ! d else []) \<and>
    map (\<lambda>msg. msg[2 := msg ! 2 - 1]) (filter (\<lambda>msg. msg ! 2 \<noteq> 0) (flight (Suc d) fs)) = flight d fs"
  using assms
proof (induction d arbitrary: fs)
  case 0
  then show ?case
    by (cases fs) (simp_all add: due_now)
next
  case (Suc d)
  then show ?case
    using due_later [of d] by (cases fs) simp_all
qed

lemma length_flight: "length (flight d fs) \<le> length (concat fs)"
  by (induction d fs rule: flight.induct) simp_all

lemma push_under_limit:
  assumes "vecp_ok 16 q" "length (vecp_list q) < 16384"
  obtains q' where "vec_push 16 True u q x = (0, q')" "vecp_ok 16 q'" "vecp_list q' = vecp_list q @ [x]"
proof -
  have "vec_can_grow 16 True q"
    using assms vecp_count_list [OF assms(1)] by (cases q) (auto simp: vec_can_grow_def)
  then show thesis
    using vec_push_room [OF assms(1), of True u x] that by auto
qed

lemma recv_client_lossless:
  assumes "mcd_lossless c" "vecp_ok 16 (mc_client_buf st)" "[] \<notin> snd ` set ds"
    "length (vecp_list (mc_client_buf st)) + length ds \<le> 16384"
  obtains st' where "mcd_recv_client c u 0 ds st = (False, st')" "vecp_ok 16 (mc_client_buf st')"
    "vecp_list (mc_client_buf st') = vecp_list (mc_client_buf st) @ map (delayed (mcd_delay c)) (map snd ds)"
    "mc_to_server st' = mc_to_server st"
  using assms
proof (induction ds arbitrary: st thesis)
  case (Cons a ds)
  obtain addr buf where a: "a = (addr, buf)"
    by (cases a)
  obtain q where q: "vec_push 16 True u (mc_client_buf st) (delayed (mcd_delay c) buf) = (0, q)" "vecp_ok 16 q"
      "vecp_list q = vecp_list (mc_client_buf st) @ [delayed (mcd_delay c) buf]"
    using push_under_limit [OF Cons.prems(3)] Cons.prems(5) by (metis add_lessD1 length_Cons less_eq_Suc_le add_Suc_right)
  define st1 where "st1 = st\<lparr>mc_client_addr := addr, mc_client_buf := q, mc_rands := mc_rands st + 3, mc_client_active := True\<rparr>"
  have e: "mcd_recv_client c u 0 (a # ds) st = mcd_recv_client c u 0 ds st1"
    using Cons.prems(4) enqueue_lossless [OF Cons.prems(2)] by (auto simp: a st1_def q(1) Let_def)
  obtain st' where "mcd_recv_client c u 0 ds st1 = (False, st')" "vecp_ok 16 (mc_client_buf st')"
    "vecp_list (mc_client_buf st') = vecp_list (mc_client_buf st1) @ map (delayed (mcd_delay c)) (map snd ds)"
    "mc_to_server st' = mc_to_server st1"
    using Cons.IH [of st1] Cons.prems(2,4,5) q by (auto simp: st1_def)
  then show ?case
    using Cons.prems(1) [of st'] e q(3) by (simp add: a st1_def)
qed simp

lemma recv_server_lossless:
  assumes "None \<notin> set es"
  shows "\<exists>st'. mcd_recv_server c u es st = (False, st') \<and> mc_client_buf st' = mc_client_buf st \<and>
    mc_to_server st' = mc_to_server st"
  using assms
proof (induction es arbitrary: st)
  case (Cons e es)
  obtain buf where e: "e = Some buf"
    using Cons.prems by (cases e) auto
  obtain q k kept where "mcd_enqueue c u buf (mc_server_buf st) (mc_rands st) = (q, k, kept)"
    by (metis prod_cases3)
  then show ?case
    using Cons.IH [of "st\<lparr>mc_server_buf := q, mc_rands := k\<rparr>"] Cons.prems e by auto
qed simp

text \<open>The state after the frames \<open>fs\<close>, the newest first.\<close>

definition mcd_after :: "mcd_cfg \<Rightarrow> 8 word list list list \<Rightarrow> 'a mcd \<Rightarrow> bool" where
  "mcd_after c fs st \<longleftrightarrow> vecp_ok 16 (mc_client_buf st) \<and>
     vecp_list (mc_client_buf st) = flight (mcd_delay c) fs \<and>
     mc_to_server st = concat (take (length fs - mcd_delay c) (rev fs))"

definition frame_ok :: "('a \<times> 8 word list) list \<times> 8 word list option list \<Rightarrow> bool" where
  "frame_ok f \<longleftrightarrow> [] \<notin> snd ` set (fst f) \<and> (\<forall>b \<in> snd ` set (fst f). length b < 65536) \<and> None \<notin> set (snd f)"

lemma retain_after:
  assumes "\<forall>f \<in> set (f # fs). \<forall>b \<in> set f. length b < 65536" "d < 256"
    "retain_list send_pending_client_msgs (flight d fs @ map (delayed d) f) (concat (take (length fs - d) (rev fs))) =
      (r, q, sent)"
  shows "q = flight d (f # fs) \<and> sent = concat (take (length (f # fs) - d) (rev (f # fs)))"
proof (cases d)
  case 0
  then show ?thesis
    using assms due_now [of f] by (auto simp: send_pending_list)
next
  case (Suc k)
  have "take (length (f # fs) - d) (rev (f # fs)) =
      take (length fs - d) (rev fs) @ (if k < length fs then [fs ! k] else [])"
  proof (cases "k < length fs")
    case True
    then have "length (f # fs) - d = Suc (length fs - d)" "length fs - d < length fs" "rev fs ! (length fs - d) = fs ! k"
      using Suc by (simp_all add: rev_nth)
    then show ?thesis
      using True by (simp add: take_Suc_conv_app_nth)
  qed (use Suc in simp)
  then show ?thesis
    using assms Suc flight_due [of k fs] due_later [of k f] by (auto simp: send_pending_list)
qed

lemma mcd_frame_after:
  assumes "mcd_lossless c" "frame_ok (ds, es)" "mcd_after c fs st" "\<forall>f \<in> set fs. \<forall>b \<in> set f. length b < 65536"
    "length (concat fs) + length ds \<le> 16384"
  shows "\<exists>st'. mcd_frame c u ds 0 es st = (False, st') \<and> mcd_after c (map snd ds # fs) st'"
proof -
  have "length (vecp_list (mc_client_buf st)) + length ds \<le> 16384"
    using assms(3,5) length_flight [of "mcd_delay c" fs] by (simp add: mcd_after_def)
  then obtain st1 where 1: "mcd_recv_client c u 0 ds st = (False, st1)" "vecp_ok 16 (mc_client_buf st1)"
      "vecp_list (mc_client_buf st1) = vecp_list (mc_client_buf st) @ map (delayed (mcd_delay c)) (map snd ds)"
      "mc_to_server st1 = mc_to_server st"
    using recv_client_lossless [OF assms(1), of st ds u] assms(2,3) by (auto simp: frame_ok_def mcd_after_def)
  obtain st2 where 2: "mcd_recv_server c u es st1 = (False, st2)" "mc_client_buf st2 = mc_client_buf st1"
      "mc_to_server st2 = mc_to_server st1"
    using recv_server_lossless [of es c u st1] assms(2) by (auto simp: frame_ok_def)
  obtain r q sent where 3: "vec_retain send_pending_client_msgs (mc_client_buf st2) (mc_to_server st2) = (r, q, sent)"
    by (metis prod_cases3)
  note q = vec_retain_list [OF _ 3, of 16]
  have "vecp_list q = flight (mcd_delay c) (map snd ds # fs) \<and>
      sent = concat (take (length (map snd ds # fs) - mcd_delay c) (rev (map snd ds # fs)))"
    using q 1 2 assms(2-4) unsigned_less [where 'b = 8 and ?'a = nat]
    by (intro retain_after [where r = r]) (auto simp: mcd_after_def frame_ok_def mcd_delay_def)
  then show ?thesis
    using 1 2 3 q by (auto simp: mcd_frame_def mcd_after_def Let_def split: prod.splits)
qed

lemma mcd_run_after:
  assumes "mcd_lossless c" "\<forall>f \<in> set frames. frame_ok f" "mcd_after c fs st"
    "\<forall>f \<in> set fs. \<forall>b \<in> set f. length b < 65536"
    "length (concat fs) + length (concat (map fst frames)) \<le> 16384"
  shows "\<exists>st'. mcd_run c u frames st = (False, st') \<and> mcd_after c (rev (map (map snd \<circ> fst) frames) @ fs) st'"
  using assms(2-)
proof (induction frames arbitrary: fs st)
  case (Cons f frames)
  obtain ds es where f: "f = (ds, es)"
    by (cases f)
  obtain st1 where s: "mcd_frame c u ds 0 es st = (False, st1)" "mcd_after c (map snd ds # fs) st1"
    using mcd_frame_after [OF assms(1), of ds es fs st u] Cons.prems f by auto
  have b: "\<forall>g \<in> set (map snd ds # fs). \<forall>b \<in> set g. length b < 65536"
    using Cons.prems(1,3) f by (auto simp: frame_ok_def)
  have "\<exists>st'. mcd_run c u frames st1 = (False, st') \<and>
      mcd_after c (rev (map (map snd \<circ> fst) frames) @ map snd ds # fs) st'"
    by (rule Cons.IH [OF _ s(2) b]) (use Cons.prems f in auto)
  then show ?case
    using s(1) by (simp add: f comp_def)
qed simp

definition mcd_init :: "'a \<Rightarrow> nat \<Rightarrow> 'a mcd" where
  "mcd_init addr fds = \<lparr>mc_client_buf = vec_init, mc_server_buf = vec_init, mc_client_addr = addr,
     mc_client_active = False, mc_fds = fds, mc_rands = 0, mc_to_server = [], mc_to_client = []\<rparr>"

text \<open>
  Claim C23. Without loss, duplication and reordering the network simulation is a delay line: as
  long as the sockets work, no datagram is empty and at most 16384 datagrams of the client pass,
  the server has been sent, after n frames, exactly the datagrams that the client sent up to the
  delay before, each once, unchanged and in order. For a latency of less than 4267 ms the delay is
  the latency in frames of a 60th of a second, rounded down; the code keeps it in 8 bits, so from
  then on it is that number modulo 256.
\<close>

theorem mcd_is_delay_line:
  assumes "mcd_lossless c" "\<forall>f \<in> set frames. frame_ok f" "length (concat (map fst frames)) \<le> 16384"
  shows "(\<exists>st. mcd_run c u frames (mcd_init addr fds) = (False, st) \<and>
      mc_to_server st = concat (take (length frames - mcd_delay c) (map (map snd \<circ> fst) frames))) \<and>
    (0 \<le> mw_latency c \<and> mw_latency c < 4267 \<longrightarrow> int (mcd_delay c) = 60 * mw_latency c div 1000) \<and>
    (0 \<le> mw_latency c \<and> mw_latency c < 35791395 \<longrightarrow> int (mcd_delay c) = 60 * mw_latency c div 1000 mod 256)"
proof -
  have "flight (mcd_delay c) [] = []"
    by (cases "mcd_delay c") simp_all
  then have "mcd_after c [] (mcd_init addr fds)"
    by (simp add: mcd_after_def mcd_init_def vec_init_def)
  then have "\<exists>st. mcd_run c u frames (mcd_init addr fds) = (False, st) \<and>
      mc_to_server st = concat (take (length frames - mcd_delay c) (map (map snd \<circ> fst) frames))"
    using mcd_run_after [OF assms(1,2), of "[]" "mcd_init addr fds" u] assms(3) by (auto simp: mcd_after_def)
  moreover have delay: "int (mcd_delay c) = 60 * mw_latency c div 1000 mod 256"
    if "0 \<le> mw_latency c" "mw_latency c < 35791395"
    using that by (simp add: mcd_delay_def TICK_RATE_def i32_id uint_word_of_int flip: uint_nat)
  moreover have "int (mcd_delay c) = 60 * mw_latency c div 1000" if "0 \<le> mw_latency c" "mw_latency c < 4267"
  proof -
    have "0 \<le> 60 * mw_latency c div 1000" "60 * mw_latency c div 1000 < 256"
      using that by linarith+
    then have "60 * mw_latency c div 1000 mod 256 = 60 * mw_latency c div 1000"
      by (rule mod_pos_pos_trivial)
    then show ?thesis
      using delay that by linarith
  qed
  ultimately show ?thesis by blast
qed

definition demo_mcd :: mcd_cfg where
  "demo_mcd = \<lparr>mw_latency = 34, mw_loss = 0, mw_dup = 0, mw_reorder = 0, mw_rand = (\<lambda>_. 5), mw_rand_max = 2147483647\<rparr>"

theorem mcd_is_delay_line_witness:
  "\<exists>st. mcd_run demo_mcd (\<lambda>_. []) [([(7::nat, [1, 2]), (7, [3])], []), ([], [Some [9]]), ([(7, [4])], [])]
       (mcd_init 0 1) = (False, st) \<and> mc_to_server st = [[1, 2], [3]]"
proof -
  have "mcd_lossless demo_mcd" "mcd_delay demo_mcd = 2"
    by (simp_all add: demo_mcd_def mcd_lossless_def mcd_delay_def TICK_RATE_def i32_id)
  then show ?thesis
    using mcd_is_delay_line [of demo_mcd "[([(7::nat, [1, 2]), (7, [3])], []), ([], [Some [9]]), ([(7, [4])], [])]"
        "\<lambda>_. []" 0 1] by (simp add: frame_ok_def numeral_2_eq_2 numeral_3_eq_3)
qed

end
