(* ===== verification/Food.thy ===== *)
theory Food
  imports FixedPoint Hash Msg
begin

text \<open>
  Food clusters (src/food_cluster.c, include/clither/food_cluster.h) and the message that
  announces one (src/msg.c). Neither is used by the server or the client yet. \<open>None\<close> is
  undefined behaviour.
\<close>

record food_cluster =
  fc_aabb :: qwaabb
  fc_food :: "qwpos list"
  fc_food_count :: "8 word"
  fc_seed :: "32 word"

definition FOOD_CLUSTER_SIZE :: int where
  "FOOD_CLUSTER_SIZE = 0x8000"

definition FOOD_CLUSTER_QUANT :: int where
  "FOOD_CLUSTER_QUANT = 0x7F00"

unbundle bit_operations_syntax

text \<open>The loop, from food \<open>i\<close> on, \<open>n\<close> of them; the position on the X axis is divided by \<open>i\<close>.\<close>

fun food_cluster_fill :: "int \<Rightarrow> nat \<Rightarrow> food_cluster \<Rightarrow> food_cluster option" where
  "food_cluster_fill i 0 fc = Some fc"
| "food_cluster_fill i (Suc n) fc =
     (if i = 0 \<or> int (length (fc_food fc)) \<le> i then None
      else
        let x = qw_add (bx1 (fc_aabb fc)) ((i * FOOD_CLUSTER_SIZE div i) AND FOOD_CLUSTER_QUANT);
            seed = hash32_jenkins_oaat (int32_bytes (uint (fc_seed fc))) 4;
            y = qw_add (by1 (fc_aabb fc)) (uint seed AND (FOOD_CLUSTER_SIZE - 1) AND FOOD_CLUSTER_QUANT)
        in food_cluster_fill (i + 1) n
             (fc\<lparr>fc_food := (fc_food fc)[nat i := make_qwposqw x y], fc_seed := seed\<rparr>))"

text \<open>The upper bound of the box on the X axis is computed from the Y coordinate.\<close>

definition food_cluster_init ::
  "qwpos \<Rightarrow> 8 word \<Rightarrow> 32 word \<Rightarrow> food_cluster \<Rightarrow> (32 word \<times> food_cluster) option" where
  "food_cluster_init center food_count seed fc =
     (let size_2 = FOOD_CLUSTER_SIZE div 2 - 1;
          fc = fc\<lparr>fc_food_count := food_count,
            fc_aabb := make_qwaabbqw (qw_sub (px center) size_2) (qw_sub (py center) size_2)
              (qw_add (py center) size_2) (qw_add (py center) size_2),
            fc_seed := seed\<rparr>
      in map_option (\<lambda>fc. (seed, fc)) (food_cluster_fill 0 (unat food_count) fc))"

text \<open>Eating and compressing are not written yet.\<close>

definition food_eat :: "food_cluster \<Rightarrow> qwpos \<Rightarrow> qw \<Rightarrow> int" where
  "food_eat fc eat_center eat_range = 0"

definition food_compress_bytes_required :: "food_cluster \<Rightarrow> int" where
  "food_compress_bytes_required fc = 0"

definition food_compress :: "8 word list \<Rightarrow> int \<Rightarrow> food_cluster \<Rightarrow> int \<times> 8 word list" where
  "food_compress buf len fc = (0, buf)"

definition food_decompress :: "food_cluster \<Rightarrow> 8 word list \<Rightarrow> int \<Rightarrow> int \<times> food_cluster" where
  "food_decompress fc buf len = (0, fc)"

text \<open>The position in the payload never moves on from the byte behind the header.\<close>

definition msg_food_cluster_create ::
  "(nat \<Rightarrow> 8 word) \<Rightarrow> food_cluster \<Rightarrow> 16 word \<Rightarrow> msg option" where
  "msg_food_cluster_create u fc frame_number =
     (let count = uint (fc_food_count fc); box = fc_aabb fc; seed = fc_seed fc;
          m = msg_put [hi8 frame_number, lo8 frame_number,
              ucast (drop_bit 24 seed), ucast (drop_bit 16 seed), ucast (drop_bit 8 seed), ucast seed,
              byte_of 2 (bx1 box), byte_of 1 (bx1 box), byte_of 0 (bx1 box),
              byte_of 2 (by1 box), byte_of 1 (by1 box), byte_of 0 (by1 box), fc_food_count fc]
            (msg_alloc u MSG_FOOD_CLUSTER_UPDATE 0 (2 + 4 + 6 + 1 + (count * 7 + 8) div 8))
      in if count > int (length (fc_food fc)) then None
         else Some (m\<lparr>m_payload := foldl (\<lambda>bs food.
             bs[13 := (bs ! 13 AND NOT 0xFE) OR (word_of_int (drop_bit 7 (px food)) AND 0xFE)])
             (m_payload m) (take (nat count) (fc_food fc))\<rparr>))"

text \<open>A cluster with any food cannot be made.\<close>

lemma food_cluster_init_divides:
  "food_count \<noteq> 0 \<Longrightarrow> food_cluster_init center food_count seed fc = None"
  by (cases "unat food_count") (auto simp: food_cluster_init_def Let_def unat_eq_0)

text \<open>Of all the positions, one byte is sent: every byte behind it is what the memory held before.\<close>

lemma write_bytes_behind:
  "length bs \<le> i \<Longrightarrow> length bs \<le> length pl \<Longrightarrow> write_bytes 0 bs pl ! i = pl ! i"
  by (simp add: write_bytes_def nth_append)

lemma foldl_update_other:
  "i \<noteq> k \<Longrightarrow> foldl (\<lambda>bs x. bs[k := f bs x]) bs xs ! i = bs ! i"
  by (induction xs arbitrary: bs) simp_all

lemma food_positions_lost:
  assumes "msg_food_cluster_create u fc frame_number = Some m" "13 < i" "i < MSG_BUFFER"
  shows "m_payload m ! i = u i"
  using assms by (auto simp: msg_food_cluster_create_def Let_def foldl_update_other msg_put_def msg_alloc_def
      write_bytes_behind MSG_BUFFER_def split: if_splits)

end
