(* ===== verification/Camera.thy ===== *)
theory Camera
  imports Model_Types SnakeParam Cmd
begin

text \<open>
  Between the player and the snake: the camera that follows the head (src/camera.c), the state
  of mouse and keys (include/clither/input.h, src/input.c), how the two graphics backends fill
  it from the events of their libraries, and the command they make of it
  (src/sdl/gfx_sdl.c, src/gles2/gfx_gles2.c). The events that SDL and GLFW report and the size
  of the window are arguments. \<open>None\<close> is a division by zero.
\<close>

section \<open>The camera\<close>

record camera =
  cam_pos :: qwpos
  cam_scale :: qw

definition camera_init :: camera where
  "camera_init = \<lparr>cam_pos = make_qwposi 0 0, cam_scale = make_qw 1\<rparr>"

definition camera_update :: "libm \<Rightarrow> camera \<Rightarrow> snake_head \<Rightarrow> snake_param \<Rightarrow> int \<Rightarrow> camera option" where
  "camera_update L camera head param sim_tick_rate =
     (let leadx = make_qw_f (m_cos L (qa_to_float (sh_angle head)) / 32);
          leady = make_qw_f (m_sin L (qa_to_float (sh_angle head)) / 32);
          targetx = qw_add (px (sh_pos head)) leadx;
          targety = qw_add (py (sh_pos head)) leady;
          dx = qw_mul (qw_sub targetx (px (cam_pos camera))) (make_qw2 1 4);
          dy = qw_mul (qw_sub targety (py (cam_pos camera))) (make_qw2 1 4);
          dx = qw_mul dx (make_qw2 sim_tick_rate 60);
          dy = qw_mul dy (make_qw2 sim_tick_rate 60)
      in if snake_scale param = 0 then None
         else Some (camera\<lparr>cam_pos := \<lparr>px = qw_add (px (cam_pos camera)) dx, py = qw_add (py (cam_pos camera)) dy\<rparr>,
                cam_scale := qw_div (make_qw 1) (snake_scale param)\<rparr>))"

section \<open>Mouse and keys\<close>

record input =
  in_mousex :: int
  in_mousey :: int
  in_scroll :: int
  in_boost :: bool
  in_shoot :: bool
  in_split :: bool
  in_quit :: bool
  in_next_gfx_backend :: bool
  in_prev_gfx_backend :: bool

definition input_init :: input where
  "input_init = \<lparr>in_mousex = 0, in_mousey = 0, in_scroll = 0, in_boost = False, in_shoot = False,
     in_split = False, in_quit = False, in_next_gfx_backend = False, in_prev_gfx_backend = False\<rparr>"

text \<open>The events of SDL that the code looks at, and any other.\<close>

datatype sdl_key = SDLK_ESCAPE | SDLK_LEFT | SDLK_RIGHT | SDLK_OTHER

datatype sdl_event =
  SDL_QUIT
| SDL_KEYDOWN sdl_key
| SDL_KEYUP sdl_key
| SDL_MOUSEBUTTONDOWN bool
| SDL_MOUSEBUTTONUP bool
| SDL_MOUSEMOTION int int
| SDL_OTHER

text \<open>A button is whether it is the left one.\<close>

fun gfx_sdl_event :: "sdl_event \<Rightarrow> input \<Rightarrow> input" where
  "gfx_sdl_event SDL_QUIT i = i\<lparr>in_quit := True\<rparr>"
| "gfx_sdl_event (SDL_KEYDOWN key) i =
     (let i = (if key = SDLK_ESCAPE then i\<lparr>in_quit := True\<rparr> else i);
          i = (if key = SDLK_LEFT then i\<lparr>in_prev_gfx_backend := True\<rparr> else i);
          i = (if key = SDLK_RIGHT then i\<lparr>in_next_gfx_backend := True\<rparr> else i)
      in i)"
| "gfx_sdl_event (SDL_KEYUP key) i = i\<lparr>in_prev_gfx_backend := False, in_next_gfx_backend := False\<rparr>"
| "gfx_sdl_event (SDL_MOUSEBUTTONDOWN left) i = (if left then i\<lparr>in_boost := True\<rparr> else i)"
| "gfx_sdl_event (SDL_MOUSEBUTTONUP left) i = (if left then i\<lparr>in_boost := False\<rparr> else i)"
| "gfx_sdl_event (SDL_MOUSEMOTION x y) i = i\<lparr>in_mousex := x, in_mousey := y\<rparr>"
| "gfx_sdl_event SDL_OTHER i = i"

definition gfx_sdl_poll_input :: "sdl_event list \<Rightarrow> input \<Rightarrow> input" where
  "gfx_sdl_poll_input events i = foldl (\<lambda>i e. gfx_sdl_event e i) i events"

text \<open>
  The other backend registers callbacks with GLFW, which collect what happens in a buffer of the
  window. Positions and offsets of GLFW are doubles.
\<close>

record gles2_window =
  gl_width :: int
  gl_height :: int
  gl_input_buffer :: input
  gl_should_close :: bool

datatype glfw_key = GLFW_KEY_ESCAPE | GLFW_KEY_LEFT | GLFW_KEY_RIGHT | GLFW_KEY_OTHER

datatype glfw_action = GLFW_PRESS | GLFW_RELEASE | GLFW_REPEAT

datatype glfw_event =
  GLFW_KEY glfw_key glfw_action
| GLFW_MOUSE_BUTTON bool glfw_action
| GLFW_CURSOR real real
| GLFW_SCROLL real real
| GLFW_CLOSE

definition key_callback :: "glfw_key \<Rightarrow> glfw_action \<Rightarrow> gles2_window \<Rightarrow> gles2_window" where
  "key_callback key action gfx =
     (let gfx = (if key = GLFW_KEY_ESCAPE \<and> action = GLFW_PRESS then gfx\<lparr>gl_should_close := True\<rparr> else gfx);
          gfx = (if key = GLFW_KEY_LEFT
            then gfx\<lparr>gl_input_buffer := (gl_input_buffer gfx)\<lparr>in_prev_gfx_backend := action = GLFW_PRESS\<rparr>\<rparr> else gfx);
          gfx = (if key = GLFW_KEY_RIGHT
            then gfx\<lparr>gl_input_buffer := (gl_input_buffer gfx)\<lparr>in_next_gfx_backend := action = GLFW_PRESS\<rparr>\<rparr> else gfx)
      in gfx)"

definition mouse_button_callback :: "bool \<Rightarrow> glfw_action \<Rightarrow> gles2_window \<Rightarrow> gles2_window" where
  "mouse_button_callback left action gfx =
     (if left then gfx\<lparr>gl_input_buffer := (gl_input_buffer gfx)\<lparr>in_boost := action = GLFW_PRESS\<rparr>\<rparr> else gfx)"

definition cursor_position_callback :: "real \<Rightarrow> real \<Rightarrow> gles2_window \<Rightarrow> gles2_window" where
  "cursor_position_callback xpos ypos gfx =
     gfx\<lparr>gl_input_buffer := (gl_input_buffer gfx)\<lparr>in_mousex := i32 (ctrunc xpos), in_mousey := i32 (ctrunc ypos)\<rparr>\<rparr>"

definition scroll_callback :: "real \<Rightarrow> real \<Rightarrow> gles2_window \<Rightarrow> gles2_window" where
  "scroll_callback xoffset yoffset gfx =
     gfx\<lparr>gl_input_buffer := (gl_input_buffer gfx)\<lparr>in_scroll := i32 (in_scroll (gl_input_buffer gfx) + i32 (ctrunc yoffset))\<rparr>\<rparr>"

fun glfw_event_callback :: "glfw_event \<Rightarrow> gles2_window \<Rightarrow> gles2_window" where
  "glfw_event_callback (GLFW_KEY key action) gfx = key_callback key action gfx"
| "glfw_event_callback (GLFW_MOUSE_BUTTON left action) gfx = mouse_button_callback left action gfx"
| "glfw_event_callback (GLFW_CURSOR x y) gfx = cursor_position_callback x y gfx"
| "glfw_event_callback (GLFW_SCROLL x y) gfx = scroll_callback x y gfx"
| "glfw_event_callback GLFW_CLOSE gfx = gfx\<lparr>gl_should_close := True\<rparr>"

definition gfx_gles2_poll_input :: "glfw_event list \<Rightarrow> gles2_window \<Rightarrow> input \<times> gles2_window" where
  "gfx_gles2_poll_input events gfx =
     (let gfx = foldl (\<lambda>g e. glfw_event_callback e g) gfx events;
          input = gl_input_buffer gfx;
          gfx = gfx\<lparr>gl_input_buffer := (gl_input_buffer gfx)\<lparr>in_scroll := 0\<rparr>\<rparr>
      in (if gl_should_close gfx then input\<lparr>in_quit := True\<rparr> else input, gfx))"

section \<open>From the mouse to a command\<close>

record spos =
  sp_x :: int
  sp_y :: int

text \<open>The size of the window comes first.\<close>

definition gfx_screen_to_world :: "int \<Rightarrow> int \<Rightarrow> spos \<Rightarrow> camera \<Rightarrow> qwpos option" where
  "gfx_screen_to_world screen_x screen_y pos camera =
     (let result = make_qwposi (sp_x pos) (sp_y pos);
          result =
            (if screen_x < screen_y
             then let pad = (screen_y - screen_x) sdiv 2;
                    x = qw_sub (px result) (make_qw (screen_x sdiv 2));
                    y = qw_sub (py result) (make_qw (screen_x sdiv 2 + pad))
               in if screen_x = 0 then None else Some (qw_div x (make_qw screen_x), qw_div y (make_qw (- screen_x)))
             else let pad = (screen_x - screen_y) sdiv 2;
                    x = qw_sub (px result) (make_qw (screen_y sdiv 2 + pad));
                    y = qw_sub (py result) (make_qw (screen_y sdiv 2))
               in if screen_y = 0 then None else Some (qw_div x (make_qw screen_y), qw_div y (make_qw (- screen_y))))
      in case result of None \<Rightarrow> None
         | Some (x, y) \<Rightarrow>
             if cam_scale camera = 0 then None
             else Some \<lparr>px = qw_add (qw_div x (cam_scale camera)) (px (cam_pos camera)),
                    py = qw_add (qw_div y (cam_scale camera)) (py (cam_pos camera))\<rparr>)"

definition gfx_world_to_screen :: "int \<Rightarrow> int \<Rightarrow> qwpos \<Rightarrow> camera \<Rightarrow> spos" where
  "gfx_world_to_screen screen_x screen_y pos camera =
     (let x = qw_mul (qw_sub (px pos) (px (cam_pos camera))) (cam_scale camera);
          y = qw_mul (qw_sub (py pos) (py (cam_pos camera))) (cam_scale camera)
      in if screen_x < screen_y
         then let pad = (screen_y - screen_x) sdiv 2
           in \<lparr>sp_x = qw_mul_to_int x (make_qw screen_x) + screen_x sdiv 2,
               sp_y = qw_mul_to_int y (make_qw (- screen_x)) + (screen_x sdiv 2 + pad)\<rparr>
         else let pad = (screen_x - screen_y) sdiv 2
           in \<lparr>sp_x = qw_mul_to_int x (make_qw screen_y) + (screen_y sdiv 2 + pad),
               sp_y = qw_mul_to_int y (make_qw (- screen_y)) + screen_y sdiv 2\<rparr>)"

definition gfx_sdl_input_to_command ::
  "libm \<Rightarrow> int \<Rightarrow> int \<Rightarrow> cmd \<Rightarrow> input \<Rightarrow> camera \<Rightarrow> qwpos \<Rightarrow> cmd option" where
  "gfx_sdl_input_to_command L screen_x screen_y command input camera snake_head =
     (let max_dist = (if screen_x > screen_y then screen_y sdiv 4 else screen_x sdiv 4);
          snake_head_screen = gfx_world_to_screen screen_x screen_y snake_head camera;
          dx = of_int (in_mousex input - sp_x snake_head_screen);
          dy = of_int (sp_y snake_head_screen - in_mousey input);
          a = m_atan2 L dy dx;
          d = m_sqrt L (dx * dx + dy * dy);
          d = (if d > of_int max_dist then of_int max_dist else d)
      in if max_dist = 0 then None
         else Some (cmd_make command a (d / of_int max_dist)
                (if in_boost input then CMD_ACTION_BOOST else CMD_ACTION_NONE)))"

definition gfx_gles2_input_to_cmd ::
  "libm \<Rightarrow> gles2_window \<Rightarrow> cmd \<Rightarrow> input \<Rightarrow> camera \<Rightarrow> qwpos \<Rightarrow> cmd option" where
  "gfx_gles2_input_to_cmd L gfx prev input camera snake_head =
     (let width = gl_width gfx; height = gl_height gfx;
          x = qw_mul (qw_sub (px snake_head) (px (cam_pos camera))) (cam_scale camera);
          y = qw_mul (qw_sub (py snake_head) (py (cam_pos camera))) (cam_scale camera);
          (sx, sy) =
            (if width < height
             then let pad = (height - width) sdiv 2
               in (qw_mul_to_int x (make_qw width) + width sdiv 2,
                   qw_mul_to_int y (make_qw (- width)) + (width sdiv 2 + pad))
             else let pad = (width - height) sdiv 2
               in (qw_mul_to_int x (make_qw height) + (height sdiv 2 + pad),
                   qw_mul_to_int y (make_qw (- height)) + height sdiv 2));
          max_dist = (if width > height then height sdiv 4 else width sdiv 4);
          dx = of_int (in_mousex input - sx); dy = of_int (sy - in_mousey input);
          a = m_atan2 L dy dx;
          d = m_sqrt L (dx * dx + dy * dy);
          d = (if d > of_int max_dist then of_int max_dist else d)
      in if max_dist = 0 then None
         else Some (cmd_make prev a (d / of_int max_dist)
                (if in_boost input then CMD_ACTION_BOOST else CMD_ACTION_NONE)))"

text \<open>Both backends make the same command of the same input.\<close>

lemma backends_agree:
  "gfx_gles2_input_to_cmd L gfx prev input camera head =
     gfx_sdl_input_to_command L (gl_width gfx) (gl_height gfx) prev input camera head"
  by (simp add: gfx_gles2_input_to_cmd_def gfx_sdl_input_to_command_def gfx_world_to_screen_def Let_def)

text \<open>
  What the protocol relies on: whatever the player does, the command can be sent as a difference
  to the one before, and it is one of the two actions that there are keys for.
\<close>

lemma input_command_make:
  assumes "gfx_sdl_input_to_command L screen_x screen_y prev input camera head = Some command"
  shows "\<exists>radians speed. command =
    cmd_make prev radians speed (if in_boost input then CMD_ACTION_BOOST else CMD_ACTION_NONE)"
  using assms unfolding gfx_sdl_input_to_command_def Let_def
  by (simp only: option.inject option.distinct if_False if_True split: if_splits) blast+

lemma input_command_ok:
  assumes "gfx_sdl_input_to_command L screen_x screen_y prev input camera head = Some command"
  shows "cmd_delta_ok prev command" "cmd_action command \<in> {0, 1}"
  using input_command_make [OF assms] cmd_make_delta_ok by (auto simp: cmd_make_def Let_def)

text \<open>A window of fewer than four pixels has no distance to divide by.\<close>

lemma input_command_window:
  assumes "0 \<le> screen_x" "0 \<le> screen_y"
  shows "gfx_sdl_input_to_command L screen_x screen_y prev input camera head = None \<longleftrightarrow> min screen_x screen_y < 4"
  using assms by (auto simp: gfx_sdl_input_to_command_def Let_def min_def)

section \<open>The camera closes in\<close>

lemma quarter_step:
  assumes "\<bar>e\<bar> < 33000000"
  shows "qw_mul e (make_qw2 1 4) = (e + 2) div 4" "qw_mul ((e + 2) div 4) (make_qw2 60 60) = (e + 2) div 4"
proof -
  have "(e * 4096 + 8192) div 16384 = (e + 2) div 4"
    using div_mult_mult1 [of 4096 "e + 2" 4] by (simp add: algebra_simps)
  moreover have "- 8388608 \<le> (e + 2) div 4" "(e + 2) div 4 \<le> 8388607"
    using assms by linarith+
  moreover have "(((e + 2) div 4) * 16384 + 8192) div 16384 = (e + 2) div 4"
    by simp
  ultimately show "qw_mul e (make_qw2 1 4) = (e + 2) div 4"
      "qw_mul ((e + 2) div 4) (make_qw2 60 60) = (e + 2) div 4"
    by (simp_all add: qw_mul_def make_qw2_def i32_id qw_sat24_def)
qed

lemma axis_closes_in:
  assumes "\<bar>t - c\<bar> < 33000000" "\<bar>c\<bar> < 1073741824"
  shows "let c' = qw_add c (qw_mul (qw_mul (qw_sub t c) (make_qw2 1 4)) (make_qw2 60 60))
    in 4 * \<bar>t - c'\<bar> \<le> 3 * \<bar>t - c\<bar> + 2 \<and> (t \<le> c \<longrightarrow> t \<le> c') \<and> (c \<le> t \<longrightarrow> c' \<le> t)"
proof -
  have s: "qw_sub t c = t - c"
    using assms by (simp add: qw_sub_def i32_id)
  have "\<bar>(t - c + 2) div 4\<bar> < 9000000"
    using assms by linarith
  then have q: "qw_add c ((t - c + 2) div 4) = c + (t - c + 2) div 4"
    using assms by (simp add: qw_add_def i32_id)
  define k where "k = (t - c + 2) div 4"
  have "4 * k \<le> t - c + 2" "t - c + 2 < 4 * k + 4"
    unfolding k_def by linarith+
  then show ?thesis
    unfolding s quarter_step [OF assms(1)] Let_def q unfolding k_def [symmetric] by (simp add: abs_if)
qed

text \<open>The point that the camera moves to is a little ahead of the head.\<close>

definition camera_target :: "libm \<Rightarrow> snake_head \<Rightarrow> qwpos" where
  "camera_target L head =
     \<lparr>px = qw_add (px (sh_pos head)) (make_qw_f (m_cos L (qa_to_float (sh_angle head)) / 32)),
      py = qw_add (py (sh_pos head)) (make_qw_f (m_sin L (qa_to_float (sh_angle head)) / 32))\<rparr>"

lemma lead_bound:
  assumes "\<bar>x\<bar> \<le> 1"
  shows "\<bar>make_qw_f (x / 32)\<bar> \<le> 512"
proof -
  have "\<bar>ctrunc (x / 32 * 16384)\<bar> \<le> 512"
    using assms by (intro ctrunc_bounds) (simp add: abs_mult)
  then show ?thesis
    by (simp add: make_qw_f_def i32_id)
qed

lemma target_near:
  assumes "qw24 p" "\<bar>x\<bar> \<le> 1"
  shows "\<bar>qw_add p (make_qw_f (x / 32))\<bar> \<le> 8389120"
  using assms(1) lead_bound [OF assms(2)] by (simp add: qw_add_def qw24_def i32_id abs_le_iff)

lemma twice_abs: "2 * \<bar>x\<bar> \<le> s \<Longrightarrow> 2 * x \<le> s \<and> 2 * (- x) \<le> s" for x s :: int
  by linarith

text \<open>
  At 60 frames per second the camera follows the head of the snake: every update
  leaves at most three quarters of the distance to the point ahead of the head on each axis
  (up to half a unit of rounding), it never overshoots that point, and its scale is the inverse
  of the snake's.
\<close>

lemma camera_closes_in:
  assumes "libm_ok L" "param_ok param" "qwpos24 (sh_pos head)" "qwpos24 (cam_pos camera)"
  shows "\<exists>camera'. camera_update L camera head param 60 = Some camera' \<and>
    (\<forall>axis \<in> {px, py}.
       let t = axis (camera_target L head); c = axis (cam_pos camera); c' = axis (cam_pos camera')
       in 4 * \<bar>t - c'\<bar> \<le> 3 * \<bar>t - c\<bar> + 2 \<and> (if t \<le> c then t \<le> c' else c' \<le> t)) \<and>
    2 * \<bar>cam_scale camera' * snake_scale param - 268435456\<bar> \<le> snake_scale param"
proof -
  have near: "\<bar>px (camera_target L head)\<bar> \<le> 8389120" "\<bar>py (camera_target L head)\<bar> \<le> 8389120"
    using assms(1,3) target_near by (simp_all add: camera_target_def libm_ok_def qwpos24_def)
  have cam: "\<bar>px (cam_pos camera)\<bar> \<le> 8388608" "\<bar>py (cam_pos camera)\<bar> \<le> 8388608"
    using assms(4) by (auto simp: qwpos24_def qw24_def)
  have "0 \<le> uint (sp_food_eaten param * 16384) div 4096" "uint (sp_food_eaten param * 16384) div 4096 < 1048576"
    using uint32_bound [of "sp_food_eaten param * 16384"] by linarith+
  then have scale: "16384 \<le> snake_scale param" "snake_scale param \<le> 1064960"
    using assms(2) by (auto simp: param_ok_def)
  define r where "r = round_div (make_qw 1 * 16384) (snake_scale param)"
  have r: "2 * \<bar>r * snake_scale param - 268435456\<bar> \<le> snake_scale param"
    using round_div_nearest [of "snake_scale param" "make_qw 1 * 16384"] scale by (simp add: r_def make_qw_def i32_id)
  define p where "p = r * snake_scale param"
  have p: "2 * p - 536870912 \<le> snake_scale param" "536870912 - 2 * p \<le> snake_scale param"
    using twice_abs [OF r] by (simp_all add: p_def)
  have "r \<le> 16384"
  proof (rule ccontr)
    assume "\<not> r \<le> 16384"
    then have "16385 * snake_scale param \<le> p"
      unfolding p_def using scale by (intro mult_right_mono) simp_all
    then show False
      using p scale by linarith
  qed
  moreover have "0 \<le> r"
  proof (rule ccontr)
    assume "\<not> 0 \<le> r"
    then have "p \<le> 0"
      unfolding p_def using scale by (intro mult_nonpos_nonneg) simp_all
    then show False
      using p scale by linarith
  qed
  ultimately have "in_sx 32 r"
    by (simp add: in_sx_32)
  then have "qw_div (make_qw 1) (snake_scale param) = r"
    by (simp add: qw_div_round r_def [symmetric] i32_id in_sx_32)
  then show ?thesis
    using axis_closes_in [of "px (camera_target L head)" "px (cam_pos camera)"]
      axis_closes_in [of "py (camera_target L head)" "py (cam_pos camera)"] near cam scale r
    by (auto simp: camera_update_def camera_target_def Let_def)
qed

end
