(* ===== verification/GfxSdl.thy ===== *)
theory GfxSdl
  imports Camera World Hash
begin

unbundle bit_operations_syntax

text \<open>
  What the SDL backend draws (src/sdl/gfx_sdl.c). A function that draws is the list of the calls
  it makes to the renderer, in order. The size of the window comes first, whether the tile of
  the background could be loaded is an argument. \<open>None\<close> is undefined behaviour or a loop that does
  not end. The sums for the points are those of the code as long as they stay in the range of
  an \<open>int\<close>.
\<close>

section \<open>Calls of the renderer\<close>

datatype sdl_call =
  SDL_SetRenderDrawColor int int int
| SDL_RenderDrawPoints "(int \<times> int) list"
| SDL_RenderDrawLines "(int \<times> int) list"
| SDL_RenderCopy int int int int
| SDL_RenderClear
| SDL_RenderPresent

section \<open>Circles and boxes\<close>

definition round_up_multiple_of_8 :: "int \<Rightarrow> int" where
  "round_up_multiple_of_8 v = (v + (8 - 1)) AND - 8"

text \<open>The eight points of a round of the loop.\<close>

definition octants :: "int \<times> int \<Rightarrow> int \<Rightarrow> int \<Rightarrow> (int \<times> int) list" where
  "octants center x y =
     (let cx = fst center; cy = snd center
      in [(cx + x, cy - y), (cx + x, cy + y), (cx - x, cy - y), (cx - x, cy + y),
          (cx + y, cy - x), (cx + y, cy + x), (cx - y, cy - x), (cx - y, cy + x)])"

function circle_loop ::
  "int \<times> int \<Rightarrow> int \<Rightarrow> int \<Rightarrow> int \<Rightarrow> int \<Rightarrow> int \<Rightarrow> int \<Rightarrow> (int \<times> int) list" where
  "circle_loop center diameter x y tx ty error =
     (if x \<ge> y then
        let up = error \<le> 0;
            y' = (if up then y + 1 else y);
            error' = (if up then error + ty else error);
            ty' = (if up then ty + 2 else ty);
            left = error' > 0;
            x' = (if left then x - 1 else x);
            tx' = (if left then tx + 2 else tx);
            error'' = (if left then error' + (tx' - diameter) else error')
        in octants center x y @ circle_loop center diameter x' y' tx' ty' error''
      else [])"
  by pat_completeness auto
termination
  by (relation "measure (\<lambda>(c, d, x, y, tx, ty, e). nat (x - y + 1))") (auto simp: Let_def)

declare circle_loop.simps [simp del]

text \<open>The points are written to a buffer of 128 points, or to one that is allocated.\<close>

definition draw_circle :: "int \<times> int \<Rightarrow> int \<Rightarrow> sdl_call option" where
  "draw_circle center radius =
     (let diameter = radius * 2;
          arr_size = round_up_multiple_of_8 (i32 (radius * 8 * 35) sdiv 49);
          x = radius - 1; y = 0; tx = 1; ty = 1; error = tx - diameter;
          points = circle_loop center diameter x y tx ty error;
          capacity = (if arr_size \<le> 128 then 128 else arr_size)
      in if int (length points) \<le> capacity then Some (SDL_RenderDrawPoints points) else None)"

definition draw_box :: "int \<times> int \<Rightarrow> int \<times> int \<Rightarrow> sdl_call" where
  "draw_box p1 p2 =
     SDL_RenderDrawLines [(fst p1, snd p1), (fst p2, snd p1), (fst p2, snd p2), (fst p1, snd p2), (fst p1, snd p1)]"

section \<open>Curves\<close>

definition spos_pair :: "spos \<Rightarrow> int \<times> int" where
  "spos_pair s = (sp_x s, sp_y s)"

text \<open>A coordinate of the point at \<open>t1\<close> of the curve with the control points \<open>p0\<close> to \<open>p3\<close>.\<close>

definition bezier_at :: "int \<Rightarrow> int \<Rightarrow> int \<Rightarrow> int \<Rightarrow> real \<Rightarrow> int" where
  "bezier_at p0 p1 p2 p3 t1 =
     (let t2 = t1 * t1; t3 = t2 * t1;
          a0 = of_int p0; a1 = of_int (- 3 * p0 + 3 * p1); a2 = of_int (3 * p0 - 6 * p1 + 3 * p2);
          a3 = of_int (- p0 + 3 * p1 - 3 * p2 + p3)
      in i32 (ctrunc (a0 + a1 * t1 + a2 * t2 + a3 * t3)))"

text \<open>For more than 64 points a block is allocated, but the buffer on the stack is what is freed.\<close>

definition draw_bezier ::
  "libm \<Rightarrow> int \<Rightarrow> int \<Rightarrow> camera \<Rightarrow> bezier_handle \<Rightarrow> bezier_handle \<Rightarrow> int \<Rightarrow> sdl_call option" where
  "draw_bezier L screen_x screen_y camera head tail num_points =
     (let scr = (\<lambda>pos. gfx_world_to_screen screen_x screen_y pos camera);
          dir = (\<lambda>f len angle. make_qw_f (of_int (uint len) * f (qa_to_float angle) / 255));
          p0 = scr (bh_pos head);
          p1 = scr (make_qwposqw
            (qw_add (px (bh_pos head)) (dir (m_cos L) (bh_len_backwards head) (bh_angle head)))
            (qw_add (py (bh_pos head)) (dir (m_sin L) (bh_len_backwards head) (bh_angle head))));
          p2 = scr (make_qwposqw
            (qw_sub (px (bh_pos tail)) (dir (m_cos L) (bh_len_forwards tail) (bh_angle tail)))
            (qw_sub (py (bh_pos tail)) (dir (m_sin L) (bh_len_forwards tail) (bh_angle tail))));
          p3 = scr (bh_pos tail)
      in if num_points < 0 \<or> num_points = 1 \<or> num_points > 64 then None
         else Some (SDL_RenderDrawLines (map (\<lambda>i.
           let t1 = of_int i / of_int (num_points - 1)
           in (bezier_at (sp_x p0) (sp_x p1) (sp_x p2) (sp_x p3) t1,
               bezier_at (sp_y p0) (sp_y p1) (sp_y p2) (sp_y p3) t1)) [0..num_points - 1])))"

section \<open>Snakes\<close>

fun all_drawn :: "'a option list \<Rightarrow> 'a list option" where
  "all_drawn [] = Some []"
| "all_drawn (None # xs) = None"
| "all_drawn (Some x # xs) = map_option (\<lambda>ys. x # ys) (all_drawn xs)"

text \<open>The point that a command points at, seen from the head.\<close>

definition command_point :: "libm \<Rightarrow> int \<Rightarrow> cmd \<Rightarrow> spos \<Rightarrow> int \<times> int" where
  "command_point L max_dist command pos =
     (let a = of_int (uint (cmd_angle command)) / 256 * 2 * M_PI;
          speed = of_int (uint (cmd_speed command)) / 255
      in (i32 (ctrunc (speed * - m_cos L a * of_int max_dist + of_int (sp_x pos))),
          i32 (ctrunc (speed * m_sin L a * of_int max_dist + of_int (sp_y pos)))))"

definition draw_commands :: "libm \<Rightarrow> int \<Rightarrow> int \<Rightarrow> cmd_queue \<Rightarrow> spos \<Rightarrow> sdl_call option list" where
  "draw_commands L screen_x screen_y q pos =
     (if cmd_queue_count q > 0 then
        let max_dist = (if screen_x > screen_y then screen_y sdiv 4 else screen_x sdiv 4)
        in [Some (SDL_SetRenderDrawColor 255 255 0),
            Option.bind (cmd_queue_peek q 0) (\<lambda>c. draw_circle (command_point L max_dist c pos) 5),
            Some (SDL_SetRenderDrawColor 0 255 0),
            Option.bind (cmd_queue_peek q (cmd_queue_count q - 1)) (\<lambda>c. draw_circle (command_point L max_dist c pos) 5)]
      else [])"

definition draw_handles :: "libm \<Rightarrow> int \<Rightarrow> int \<Rightarrow> camera \<Rightarrow> bezier_handle rb option \<Rightarrow> sdl_call option list" where
  "draw_handles L screen_x screen_y camera handles =
     (case handles of None \<Rightarrow> [None]
      | Some h \<Rightarrow>
          if rb_count handles - 1 < 0 then [None]
          else concat (map (\<lambda>i. [Some (if i mod 2 = 1 then SDL_SetRenderDrawColor 255 0 0 else SDL_SetRenderDrawColor 255 255 0),
                 draw_bezier L screen_x screen_y camera (rb_peek h (i + 1)) (rb_peek h (i + 0)) 50])
               [0..rb_count handles - 2]))"

definition draw_aabb :: "int \<Rightarrow> int \<Rightarrow> camera \<Rightarrow> qwaabb \<Rightarrow> sdl_call" where
  "draw_aabb screen_x screen_y camera bb =
     draw_box (spos_pair (gfx_world_to_screen screen_x screen_y (make_qwposqw (bx1 bb) (by1 bb)) camera))
       (spos_pair (gfx_world_to_screen screen_x screen_y (make_qwposqw (bx2 bb) (by2 bb)) camera))"

definition draw_snake :: "libm \<Rightarrow> int \<Rightarrow> int \<Rightarrow> camera \<Rightarrow> snake \<Rightarrow> sdl_call list option" where
  "draw_snake L screen_x screen_y camera s =
     (let scr = (\<lambda>pos. gfx_world_to_screen screen_x screen_y pos camera);
          data = sn_data s; pos = scr (sh_pos (sn_head s))
      in all_drawn
           ([Some (SDL_SetRenderDrawColor 0 255 0)] @
            map (\<lambda>bp. draw_circle (spos_pair (scr (bp_pos bp))) 5) (vecp_list (sd_points data)) @
            [draw_circle (spos_pair pos) 10] @
            draw_commands L screen_x screen_y (sn_cmdq s) pos @
            [Some (SDL_SetRenderDrawColor 255 128 0),
             draw_circle (spos_pair (scr (sh_pos (sn_head_ack s)))) 5] @
            draw_handles L screen_x screen_y camera (sd_handles data) @
            [Some (SDL_SetRenderDrawColor 255 255 0)] @
            map (\<lambda>bb. Some (draw_aabb screen_x screen_y camera bb)) (rbp_list (sd_aabbs data)) @
            [Some (draw_aabb screen_x screen_y camera (sd_aabb data))]))"

section \<open>The background\<close>

definition TILE_SCALE :: int where
  "TILE_SCALE = 2"

text \<open>The loop that moves the start to the left, and the steps over the window.\<close>

function shift_start :: "int \<Rightarrow> int \<Rightarrow> int option" where
  "shift_start width start =
     (if start > 0 then if width \<le> 0 then None else shift_start width (start - width) else Some start)"
  by pat_completeness auto
termination
  by (relation "measure (\<lambda>(width, start). nat start)") auto

declare shift_start.simps [simp del]

function tile_steps :: "int \<Rightarrow> int \<Rightarrow> int \<Rightarrow> int list" where
  "tile_steps width limit x = (if x < limit \<and> 1 \<le> width then x # tile_steps width limit (x + width) else [])"
  by pat_completeness auto
termination
  by (relation "measure (\<lambda>(width, limit, x). nat (limit - x))") auto

declare tile_steps.simps [simp del]

definition draw_background :: "bool \<Rightarrow> int \<Rightarrow> int \<Rightarrow> camera \<Rightarrow> sdl_call list option" where
  "draw_background loaded screen_x screen_y camera =
     (if \<not> loaded then Some []
      else
        let width_cam = qw_mul (make_qw2 1 TILE_SCALE) (cam_scale camera);
            pad = (screen_y - screen_x) sdiv 2;
            sx = qw_mul (- px (cam_pos camera)) (cam_scale camera) smod make_qw2 1 TILE_SCALE;
            sy = qw_mul (py (cam_pos camera)) (cam_scale camera) smod make_qw2 1 TILE_SCALE;
            (startx, starty, width) =
              (if screen_x < screen_y
               then (qw_mul_to_int sx (make_qw screen_x), qw_mul_to_int sy (make_qw screen_x) + pad,
                     qw_mul_to_int width_cam (make_qw screen_x))
               else (qw_mul_to_int sx (make_qw screen_y) - pad, qw_mul_to_int sy (make_qw screen_y),
                     qw_mul_to_int width_cam (make_qw screen_y)))
        in Option.bind (shift_start width startx) (\<lambda>startx.
           Option.bind (shift_start width starty) (\<lambda>starty.
             if width < 1 then Some []
             else Some (concat (map (\<lambda>x. map (\<lambda>y. SDL_RenderCopy x y (width + 1) (width + 1))
                    (tile_steps width screen_y starty)) (tile_steps width screen_x startx))))))"

section \<open>The world\<close>

text \<open>The food that is drawn for a test: 255 points from the hashes of the hash before.\<close>

fun test_food :: "nat \<Rightarrow> int \<Rightarrow> 32 word \<Rightarrow> qwpos list" where
  "test_food 0 i h = []"
| "test_food (Suc n) i h =
     (let h = hash32_jenkins_oaat (int32_bytes (uint h)) 4
      in \<lparr>px = 0x8000 * i sdiv 255, py = uint (h AND 0x7F00)\<rparr> # test_food n (i + 1) h)"

definition gfx_sdl_draw_world ::
  "libm \<Rightarrow> bool \<Rightarrow> int \<Rightarrow> int \<Rightarrow> world \<Rightarrow> camera \<Rightarrow> sdl_call list option" where
  "gfx_sdl_draw_world L loaded screen_x screen_y w camera =
     (let circle = (\<lambda>radius pos. draw_circle (spos_pair (gfx_world_to_screen screen_x screen_y pos camera)) radius);
          snakes = (case wd_snakes w of None \<Rightarrow> []
            | Some m \<Rightarrow> map (\<lambda>i. bm_kvs_get_value m i) [0..bm_cnt m - 1])
      in Option.bind (draw_background loaded screen_x screen_y camera) (\<lambda>background.
         Option.bind (all_drawn (map (draw_snake L screen_x screen_y camera) snakes)) (\<lambda>drawn.
         Option.bind (all_drawn ([Some (SDL_SetRenderDrawColor 0 255 0), circle 20 (make_qwposi 0 0)] @
             map (circle 3) (test_food 255 0 250))) (\<lambda>rest.
           Some ([SDL_SetRenderDrawColor 0 0 0, SDL_RenderClear] @ background @ concat drawn @ rest @
             [SDL_RenderPresent])))))"

section \<open>Circles\<close>

text \<open>Where the loop is: the error is how far the point is from the circle, squared.\<close>

definition circle_at :: "int \<Rightarrow> int \<Rightarrow> int \<Rightarrow> int \<Rightarrow> int \<Rightarrow> int \<Rightarrow> bool" where
  "circle_at r x y tx ty error \<longleftrightarrow>
     tx = 1 + 2 * (r - 1 - x) \<and> ty = 1 + 2 * y \<and> error = x * x + y * y - r * r \<and> 0 \<le> y \<and>
     (y \<le> x \<longrightarrow> error \<le> 0) \<and> r * r \<le> (x + 1) * (x + 1) + y * y"

definition on_circle :: "int \<times> int \<Rightarrow> int \<Rightarrow> int \<times> int \<Rightarrow> bool" where
  "on_circle center r p \<longleftrightarrow>
     (let dx = \<bar>fst p - fst center\<bar>; dy = \<bar>snd p - snd center\<bar>
      in dx * dx + dy * dy \<le> r * r \<and> r * r \<le> (max dx dy + 1) * (max dx dy + 1) + min dx dy * min dx dy)"

lemma octants_on_circle:
  assumes "circle_at r x y tx ty error" "y \<le> x" "p \<in> set (octants center x y)"
  shows "on_circle center r p"
proof -
  have "0 \<le> y" "0 \<le> x" "x * x + y * y \<le> r * r" "r * r \<le> (x + 1) * (x + 1) + y * y"
    using assms by (auto simp: circle_at_def)
  then show ?thesis
    using assms(2,3) by (auto simp: octants_def on_circle_def Let_def max_def min_def add.commute)
qed

lemma circle_step:
  assumes "circle_at r x y tx ty error" "y \<le> x"
  shows "if error + ty > 0 then circle_at r (x - 1) (y + 1) (tx + 2) (ty + 2) (error + ty + (tx + 2 - r * 2))
    else circle_at r x (y + 1) tx (ty + 2) (error + ty)"
proof -
  have "(x - 1) * (x - 1) = x * x - 2 * x + 1" "(y + 1) * (y + 1) = y * y + 2 * y + 1"
    by (simp_all add: algebra_simps)
  then show ?thesis
    using assms by (auto simp: circle_at_def)
qed

lemma circle_loop_spec:
  assumes "circle_at r x y tx ty error" "\<And>k. 0 \<le> k \<Longrightarrow> 2 * (k * k) \<le> r * r \<Longrightarrow> k \<le> m"
  shows "(\<forall>p \<in> set (circle_loop center (r * 2) x y tx ty error). on_circle center r p) \<and>
    length (circle_loop center (r * 2) x y tx ty error) \<le> 8 * nat (m - y + 1)"
  using assms(1)
proof (induction "nat (x - y + 1)" arbitrary: x y tx ty error rule: less_induct)
  case less
  show ?case
  proof (cases "y \<le> x")
    case True
    have e: "error \<le> 0"
      using less.prems True by (simp add: circle_at_def)
    have "y * y \<le> x * x"
      using less.prems True by (intro mult_mono) (auto simp: circle_at_def)
    then have "y \<le> m"
      using less.prems e by (intro assms(2)) (auto simp: circle_at_def)
    then have m: "8 + 8 * nat (m - (y + 1) + 1) \<le> 8 * nat (m - y + 1)"
      by simp
    have here: "\<forall>p \<in> set (octants center x y). on_circle center r p"
      using octants_on_circle [OF less.prems True] by blast
    have eight: "length (octants center x y) = 8"
      by (simp add: octants_def Let_def)
    obtain x' tx' error' where rest: "circle_loop center (r * 2) x y tx ty error =
        octants center x y @ circle_loop center (r * 2) x' (y + 1) tx' (ty + 2) error'"
        "circle_at r x' (y + 1) tx' (ty + 2) error'" "x' \<le> x"
      using circle_step [OF less.prems True] True e
      by (subst (asm) circle_loop.simps) (auto simp: Let_def split: if_splits)
    show ?thesis
      using less.hyps [OF _ rest(2)] rest(1,3) here eight m True by auto
  qed (subst (1 2) circle_loop.simps, simp)
qed

text \<open>Every row of an eighth of the circle is reached: the loop goes up by one in each round.\<close>

lemma circle_loop_reaches:
  assumes "circle_at r x y tx ty error" "y \<le> k" "- 1 \<le> x" "2 * (k * k) < r * r"
  shows "\<exists>x' \<ge> k. set (octants center x' k) \<subseteq> set (circle_loop center (r * 2) x y tx ty error)"
  using assms(1-3)
proof (induction "nat (x - y + 1)" arbitrary: x y tx ty error rule: less_induct)
  case less
  have "y \<le> x"
  proof (rule ccontr)
    assume out: "\<not> y \<le> x"
    have "(x + 1) * (x + 1) \<le> y * y" "y * y \<le> k * k"
      using out less.prems by (intro mult_mono; simp add: circle_at_def)+
    then show False
      using less.prems(1) assms(4) by (simp add: circle_at_def)
  qed
  then have e: "error \<le> 0"
    using less.prems by (simp add: circle_at_def)
  obtain x' tx' error' where rest: "circle_loop center (r * 2) x y tx ty error =
      octants center x y @ circle_loop center (r * 2) x' (y + 1) tx' (ty + 2) error'"
      "circle_at r x' (y + 1) tx' (ty + 2) error'" "x' \<le> x" "x - 1 \<le> x'"
    using circle_step [OF less.prems(1) \<open>y \<le> x\<close>] \<open>y \<le> x\<close> e
    by (subst (asm) circle_loop.simps) (auto simp: Let_def split: if_splits)
  have "0 \<le> y"
    using less.prems(1) by (simp add: circle_at_def)
  show ?case
  proof (cases "y = k")
    case True
    then show ?thesis
      using rest(1) \<open>y \<le> x\<close> by (intro exI [of _ x]) simp
  next
    case False
    then show ?thesis
      using less.hyps [OF _ rest(2)] rest(1,3,4) less.prems(2) \<open>y \<le> x\<close> \<open>0 \<le> y\<close> by fastforce
  qed
qed

lemma and_minus_8: "w AND - 8 = w div 8 * (8::int)"
proof -
  have n: "(- 8 :: int) = NOT (mask 3)"
    using minus_exp_eq_not_mask [of 3, where 'a = int] by simp
  have "w AND - 8 = push_bit 3 (drop_bit 3 w)"
    unfolding n by (rule bit_eqI) (auto simp: bit_simps)
  then show ?thesis
    by (simp add: push_bit_eq_mult drop_bit_eq_div)
qed

lemma round_up_bounds:
  "v \<le> round_up_multiple_of_8 v" "round_up_multiple_of_8 v \<le> v + 7" "round_up_multiple_of_8 v mod 8 = 0"
  unfolding round_up_multiple_of_8_def and_minus_8 by linarith+ simp

text \<open>The buffer holds the points of every circle.\<close>

lemma buffer_large:
  assumes "0 \<le> r" "r \<le> 7669584" "2 * (k * k) \<le> r * r" "0 \<le> k"
    and "a = round_up_multiple_of_8 (i32 (r * 8 * 35) sdiv 49)"
  shows "8 * (k + 1) \<le> (if a \<le> 128 then 128 else a)"
proof -
  have v: "i32 (r * 8 * 35) sdiv 49 = r * 280 div 49"
    using assms(1,2) by (simp add: i32_id)
  have "r * 280 div 49 = 40 * r div 7"
    using div_mult_mult1 [of 7 "40 * r" 7] by (simp add: algebra_simps)
  then have a: "40 * r - 6 \<le> 7 * a" "7 * a \<le> 40 * r + 49" "a mod 8 = 0"
    using round_up_bounds [of "r * 280 div 49"] unfolding assms(5) v by linarith+
  define q where "q = a div 8"
  have q: "a = 8 * q"
    using a(3) mult_div_mod_eq [of 8 a] by (simp add: q_def)
  show ?thesis
  proof (cases "a \<le> 128")
    case True
    have "r \<le> 22"
      using True a(1) by linarith
    then have "r * r \<le> 22 * 22"
      using assms(1) by (intro mult_mono) simp_all
    have "k \<le> 15"
    proof (rule ccontr)
      assume "\<not> k \<le> 15"
      then have "16 * 16 \<le> k * k"
        by (intro mult_mono) simp_all
      then show False
        using \<open>r * r \<le> 22 * 22\<close> assms(3) by simp
    qed
    then show ?thesis
      using True by simp
  next
    case False
    have "k < q"
    proof (rule ccontr)
      assume "\<not> k < q"
      then have "q * q \<le> k * k"
        using False q by (intro mult_mono) simp_all
      have r: "22 \<le> r"
        using False a(2) by linarith
      have "(40 * r - 6) * (40 * r - 6) \<le> (56 * q) * (56 * q)"
        using a(1) q r by (intro mult_mono) simp_all
      moreover have "(40 * r - 6) * (40 * r - 6) = 1600 * (r * r) - 480 * r + 36" "(56 * q) * (56 * q) = 3136 * (q * q)"
        by (simp_all add: algebra_simps)
      moreover have "22 * r \<le> r * r"
        using r by (intro mult_right_mono) simp_all
      ultimately show False
        using \<open>q * q \<le> k * k\<close> assms(3) r by linarith
    qed
    then show ?thesis
      using False q by simp
  qed
qed

lemma draw_circle_spec:
  assumes "0 \<le> radius" "radius \<le> 7669584"
  shows "\<exists>points. draw_circle center radius = Some (SDL_RenderDrawPoints points) \<and>
    (\<forall>p \<in> set points. on_circle center radius p) \<and>
    (\<forall>k \<ge> 0. 2 * (k * k) < radius * radius \<longrightarrow> (\<exists>x \<ge> k. set (octants center x k) \<subseteq> set points))"
proof -
  define a where "a = round_up_multiple_of_8 (i32 (radius * 8 * 35) sdiv 49)"
  define capacity where "capacity = (if a \<le> 128 then 128 else a)"
  define points where "points = circle_loop center (radius * 2) (radius - 1) 0 1 1 (1 - radius * 2)"
  have "k \<le> capacity div 8 - 1" if "0 \<le> k" "2 * (k * k) \<le> radius * radius" for k
    using buffer_large [OF assms that(2,1) a_def] zdiv_mono1 [of "8 * (k + 1)" capacity 8]
    unfolding capacity_def [symmetric] by simp
  moreover have begin_at: "circle_at radius (radius - 1) 0 1 1 (1 - radius * 2)"
    by (simp add: circle_at_def algebra_simps)
  ultimately have "(\<forall>p \<in> set points. on_circle center radius p) \<and> length points \<le> 8 * nat (capacity div 8 - 1 - 0 + 1)"
    unfolding points_def by (intro circle_loop_spec)
  moreover have "128 \<le> capacity" "8 * (capacity div 8) \<le> capacity"
    unfolding capacity_def by auto
  moreover have "\<exists>x \<ge> k. set (octants center x k) \<subseteq> set points" if "0 \<le> k" "2 * (k * k) < radius * radius" for k
    unfolding points_def using circle_loop_reaches [OF begin_at that(1) _ that(2)] assms(1) by simp
  ultimately show ?thesis
    unfolding draw_circle_def Let_def a_def [symmetric] capacity_def [symmetric] points_def [symmetric]
    by (simp add: nat_le_iff) linarith
qed

text \<open>
  A frame is drawn whenever the tiles of the background are at least a pixel wide, which they are
  in a window of 131 pixels for a snake of any size; otherwise the loop in front of the test for
  it may not end.
\<close>

lemma shift_start_returns: "1 \<le> width \<Longrightarrow> shift_start width start \<noteq> None"
  by (induction width start rule: shift_start.induct) (subst shift_start.simps, simp)

lemma shift_start_diverges: "0 < start \<Longrightarrow> shift_start 0 start = None"
  by (subst shift_start.simps) simp

lemma all_drawn_iff: "all_drawn xs = None \<longleftrightarrow> None \<in> set xs"
  by (induction xs rule: all_drawn.induct) auto

lemma tile_width:
  assumes "252 \<le> scale" "scale \<le> 16384" "131 \<le> screen" "screen < 131072"
  shows "1 \<le> qw_mul_to_int (qw_mul (make_qw2 1 TILE_SCALE) scale) (make_qw screen)"
proof -
  define c where "c = (8192 * scale + 8192) div 16384"
  have c: "126 \<le> c" "c \<le> 8192"
    using assms(1,2) unfolding c_def by linarith+
  have "qw_mul (make_qw2 1 TILE_SCALE) scale = c"
    using c by (simp add: qw_mul_def make_qw2_def TILE_SCALE_def i32_id c_def [symmetric] qw_sat24_def)
  moreover have "(c * (screen * 16384) + 8192) div 16384 = c * screen"
    using div_mult_mult1 [of 8192 "c * screen * 2 + 1" 2] by (simp add: algebra_simps)
  moreover have "126 * 131 \<le> c * screen" "c * screen \<le> 8192 * 131071"
    using c assms(3,4) by (intro mult_mono; simp)+
  moreover from this have "1 \<le> c * screen div 16384" "c * screen div 16384 < 131072"
    by linarith+
  ultimately show ?thesis
    using assms(3,4) by (simp add: qw_mul_to_int_def make_qw_def qw_to_int_def i32_id)
qed

lemma draw_background_returns:
  assumes "252 \<le> cam_scale camera" "cam_scale camera \<le> 16384"
    and "131 \<le> screen_x" "screen_x < 131072" "131 \<le> screen_y" "screen_y < 131072"
  shows "draw_background loaded screen_x screen_y camera \<noteq> None"
  using shift_start_returns [OF tile_width [OF assms(1-4)]] shift_start_returns [OF tile_width [OF assms(1,2,5,6)]]
  by (simp add: draw_background_def Let_def bind_eq_None_conv del: not_None_eq)

lemma draw_snake_returns:
  assumes "sd_handles (sn_data s) \<noteq> None" "1 \<le> rb_count (sd_handles (sn_data s))"
  shows "draw_snake L screen_x screen_y camera s \<noteq> None"
proof -
  have circle: "(None = draw_circle center 5) = False" "(None = draw_circle center 10) = False" for center
    using draw_circle_spec [of 5 center] draw_circle_spec [of 10 center] by auto
  have "None \<notin> set (draw_commands L screen_x screen_y (sn_cmdq s) pos)" for pos
    by (auto simp: circle draw_commands_def cmd_queue_peek_def cmd_queue_count_def Let_def rb_count_def
        split: option.splits)
  moreover have "None \<notin> set (draw_handles L screen_x screen_y camera (sd_handles (sn_data s)))"
    using assms by (auto simp: draw_handles_def draw_bezier_def Let_def)
  ultimately show ?thesis
    unfolding draw_snake_def Let_def all_drawn_iff by (auto simp: circle)
qed

lemma frame_drawn:
  assumes "252 \<le> cam_scale camera" "cam_scale camera \<le> 16384"
    and "131 \<le> screen_x" "screen_x < 131072" "131 \<le> screen_y" "screen_y < 131072"
    and "\<And>m i. wd_snakes w = Some m \<Longrightarrow> 0 \<le> i \<Longrightarrow> i < bm_cnt m \<Longrightarrow>
      sd_handles (sn_data (bm_kvs_get_value m i)) \<noteq> None \<and> 1 \<le> rb_count (sd_handles (sn_data (bm_kvs_get_value m i)))"
  shows "gfx_sdl_draw_world L loaded screen_x screen_y w camera \<noteq> None"
proof -
  have circle: "(None = draw_circle center 3) = False" "(None = draw_circle center 20) = False" for center
    using draw_circle_spec [of 3 center] draw_circle_spec [of 20 center] by auto
  have snakes: "(None = draw_snake L screen_x screen_y camera (bm_kvs_get_value m i)) = False"
    if "wd_snakes w = Some m" "0 \<le> i" "i \<le> bm_cnt m - 1" for m i
    using draw_snake_returns assms(7) [OF that(1,2)] that(3) by (metis zle_diff1_eq)
  show ?thesis
    using draw_background_returns [OF assms(1-6)]
    by (auto simp: gfx_sdl_draw_world_def Let_def bind_eq_None_conv all_drawn_iff circle snakes
        simp del: not_None_eq split: option.splits)
qed

text \<open>
  Claim C37. Drawing a circle of a radius of 0 to 7669584 pixels never writes past its buffer of
  points, which the code sizes by an approximation of the square root of two, and what it draws
  is the circle: every point is inside of it or on it, and the next pixel outwards along its
  longer axis is on it or outside; and it is drawn all the way round: each offset below the
  radius divided by the square root of two has its points in all eight octants.
\<close>

theorem draw_circle_fits:
  assumes "0 \<le> radius" "radius \<le> 7669584"
  shows "\<exists>points. draw_circle center radius = Some (SDL_RenderDrawPoints points) \<and>
    (\<forall>p \<in> set points. on_circle center radius p) \<and>
    (\<forall>k \<ge> 0. 2 * (k * k) < radius * radius \<longrightarrow> (\<exists>x \<ge> k. set (octants center x k) \<subseteq> set points))"
  using assms by (rule draw_circle_spec)

theorem draw_circle_fits_witness:
  "\<exists>points. draw_circle (400, 300) 23 = Some (SDL_RenderDrawPoints points) \<and>
     (\<forall>p \<in> set points. on_circle (400, 300) 23 p) \<and>
     (\<exists>x \<ge> 16. {(400 + x, 316), (416, 300 + x)} \<subseteq> set points)"
proof -
  obtain points where p: "draw_circle (400, 300) 23 = Some (SDL_RenderDrawPoints points)"
    "\<forall>p \<in> set points. on_circle (400, 300) 23 p"
    "\<forall>k \<ge> 0. 2 * (k * k) < 23 * 23 \<longrightarrow> (\<exists>x \<ge> k. set (octants (400, 300) x k) \<subseteq> set points)"
    using draw_circle_fits [of 23 "(400, 300)"] by auto
  obtain x where "16 \<le> x" "set (octants (400, 300) x 16) \<subseteq> set points"
    using p(3) [rule_format, of 16] by auto
  then show ?thesis
    using p(1,2) by (intro exI [of _ points]) (auto simp: octants_def)
qed

end
