(* ===== verification/ClientRun.thy ===== *)
theory ClientRun
  imports Client Tick Args Camera ResourcePack
begin

text \<open>
  The client as a program (\<open>client_run\<close> of src/client.c): connecting, opening a window, the main
  loop with its two clocks, switching between graphics backends, and leaving. A backend is its
  index in \<open>gfx_backends\<close>, of which there are \<open>nb\<close>. The calls of a backend that open and close
  windows are recorded, the newest first, and \<open>ok\<close> says of the calls so far whether the newest
  succeeds. What the player does and what the operating system returns during a frame are the
  inputs of the frame. Drawing does not change the state and is left out. \<open>None\<close> is a crash.
\<close>

section \<open>State\<close>

datatype gfx_call =
  Global_init nat
| Create nat int int
| Load_resource_pack nat
| Destroy nat
| Global_deinit nat

text \<open>The pointer to the window: open on a backend, null, or released.\<close>

datatype gfx_pointer = Window nat | Null | Dangling

record run_state =
  rn_client :: client
  rn_world :: world
  rn_input :: input
  rn_cmd :: cmd
  rn_camera :: camera
  rn_iface :: nat
  rn_gfx :: gfx_pointer
  rn_calls :: "gfx_call list"
  rn_sim_tick :: tick
  rn_net_tick :: tick

text \<open>
  The inputs of a frame: what polling does to the input, also after a switch; the size of the
  window; the sockets; and the readings of the clock, in order.
\<close>

record frame_input =
  fi_poll :: "input \<Rightarrow> input"
  fi_poll_again :: "input \<Rightarrow> input"
  fi_width :: int
  fi_height :: int
  fi_send_ok :: "int \<Rightarrow> bool"
  fi_receive :: "int \<Rightarrow> int \<times> 8 word list"
  fi_net_now :: "64 word"
  fi_sim_cfg_now :: "64 word"
  fi_net_cfg_now :: "64 word"
  fi_wait_now :: "64 word"
  fi_wait_slept :: bool
  fi_wait_clock :: "64 word list"
  fi_skip_now :: "64 word"

section \<open>Switching backends\<close>

definition run_call :: "gfx_call \<Rightarrow> run_state \<Rightarrow> run_state" where
  "run_call call s = s\<lparr>rn_calls := call # rn_calls s\<rparr>"

definition run_init :: "(gfx_call list \<Rightarrow> bool) \<Rightarrow> run_state \<Rightarrow> bool \<times> run_state" where
  "run_init ok s = (let s = run_call (Global_init (rn_iface s)) s in (ok (rn_calls s), s))"

definition run_create :: "(gfx_call list \<Rightarrow> bool) \<Rightarrow> int \<Rightarrow> int \<Rightarrow> run_state \<Rightarrow> bool \<times> run_state" where
  "run_create ok w h s =
     (let s = run_call (Create (rn_iface s) w h) s
      in if ok (rn_calls s) then (True, s\<lparr>rn_gfx := Window (rn_iface s)\<rparr>) else (False, s\<lparr>rn_gfx := Null\<rparr>))"

definition run_load :: "(gfx_call list \<Rightarrow> bool) \<Rightarrow> run_state \<Rightarrow> bool \<times> run_state" where
  "run_load ok s = (let s = run_call (Load_resource_pack (rn_iface s)) s in (ok (rn_calls s), s))"

text \<open>Destroying a null or a released pointer is a crash.\<close>

definition run_destroy :: "run_state \<Rightarrow> run_state option" where
  "run_destroy s = (case rn_gfx s of
     Window i \<Rightarrow> Some (run_call (Destroy i) (s\<lparr>rn_gfx := Dangling\<rparr>))
   | _ \<Rightarrow> None)"

definition run_deinit :: "run_state \<Rightarrow> run_state" where
  "run_deinit s = run_call (Global_deinit (rn_iface s)) s"

text \<open>Going back to backend \<open>idx\<close>: whether the loop is left, and the state. No pack is loaded again.\<close>

definition run_restore :: "(gfx_call list \<Rightarrow> bool) \<Rightarrow> nat \<Rightarrow> run_state \<Rightarrow> bool \<times> run_state" where
  "run_restore ok idx s =
     (case run_init ok (s\<lparr>rn_iface := idx\<rparr>) of (good, s) \<Rightarrow>
        if \<not> good then (True, s)
        else (case run_create ok 640 480 s of (good, s) \<Rightarrow>
          if \<not> good then (True, run_deinit s) else (False, s)))"

definition next_backend :: "nat \<Rightarrow> bool \<Rightarrow> nat \<Rightarrow> nat" where
  "next_backend nb forward idx =
     (if forward then if idx + 1 \<ge> nb then 0 else idx + 1
      else if int idx - 1 < 0 then nb - 1 else idx - 1)"

definition run_switch :: "nat \<Rightarrow> (gfx_call list \<Rightarrow> bool) \<Rightarrow> frame_input \<Rightarrow> run_state \<Rightarrow> (bool \<times> run_state) option" where
  "run_switch nb ok fi s =
     (let idx = rn_iface s; new_idx = next_backend nb (in_next_gfx_backend (rn_input s)) idx
      in case run_destroy s of None \<Rightarrow> None
         | Some s \<Rightarrow>
             (case run_init ok ((run_deinit s)\<lparr>rn_iface := new_idx\<rparr>) of (good, s) \<Rightarrow>
               if \<not> good then Some (run_restore ok idx s)
               else (case run_create ok 640 480 s of (good, s) \<Rightarrow>
                 if \<not> good then Some (run_restore ok idx (run_deinit s))
                 else (case run_load ok s of (good, s) \<Rightarrow>
                   if \<not> good then map_option (\<lambda>s. run_restore ok idx (run_deinit s)) (run_destroy s)
                   else Some (False, s\<lparr>rn_input := fi_poll_again fi input_init\<rparr>)))))"

section \<open>A frame\<close>

text \<open>Both clocks are set to the rates of the client.\<close>

definition run_set_ticks :: "64 word \<Rightarrow> 64 word \<Rightarrow> run_state \<Rightarrow> run_state option" where
  "run_set_ticks sim_now net_now s =
     (case (tick_cfg sim_now (uint (cl_sim_tick_rate (rn_client s))),
            tick_cfg net_now (uint (cl_net_tick_rate (rn_client s)))) of
        (Some sim, Some net) \<Rightarrow> Some (s\<lparr>rn_sim_tick := sim, rn_net_tick := net\<rparr>)
      | _ \<Rightarrow> None)"

definition run_receive :: "client_env \<Rightarrow> frame_input \<Rightarrow> bool \<Rightarrow> run_state \<Rightarrow> (bool \<times> run_state) option" where
  "run_receive E fi net_update s =
     (if net_update \<and> cl_state (rn_client s) \<noteq> CLIENT_DISCONNECTED then
        (case client_recv E (fi_receive fi) (rn_client s, rn_world s) of None \<Rightarrow> None
         | Some (result, c, w) \<Rightarrow>
             let s = s\<lparr>rn_client := c, rn_world := w\<rparr>
             in if cr_error result then Some (True, s)
                else if cr_tick_rate_changed result
                then map_option (\<lambda>s. (False, s)) (run_set_ticks (fi_sim_cfg_now fi) (fi_net_cfg_now fi) s)
                else Some (False, s))
      else Some (False, s))"

text \<open>The input becomes the next command, which moves the own snake; the camera follows.\<close>

definition run_sim :: "client_env \<Rightarrow> frame_input \<Rightarrow> bool \<Rightarrow> run_state \<Rightarrow> run_state option" where
  "run_sim E fi net_update s =
     (if cl_state (rn_client s) \<noteq> CLIENT_CONNECTED then Some s
      else
        (case world_find (rn_world s) (cl_snake_id (rn_client s)) of None \<Rightarrow> None
         | Some snake \<Rightarrow>
             Option.bind (gfx_sdl_input_to_command (ce_libm E) (fi_width fi) (fi_height fi) (rn_cmd s) (rn_input s)
               (rn_camera s) (sh_pos (sn_head snake))) (\<lambda>command.
             Option.bind (client_sim E command net_update (rn_client s, rn_world s)) (\<lambda>(c, w).
             Option.bind (world_find w (cl_snake_id c)) (\<lambda>snake.
             map_option (\<lambda>camera. s\<lparr>rn_client := c, rn_world := w, rn_cmd := command, rn_camera := camera\<rparr>)
               (camera_update (ce_libm E) (rn_camera s) (sn_head snake) (sn_param snake)
                 (uint (cl_sim_tick_rate c))))))))"

definition run_send :: "client_env \<Rightarrow> frame_input \<Rightarrow> bool \<Rightarrow> run_state \<Rightarrow> (bool \<times> 8 word list \<times> run_state) option" where
  "run_send E fi net_update s =
     (if net_update \<and> cl_state (rn_client s) \<noteq> CLIENT_DISCONNECTED
      then map_option (\<lambda>(r, sent, c). (r < 0, sent, s\<lparr>rn_client := c\<rparr>))
             (client_send_pending_data E (fi_send_ok fi) (rn_client s))
      else Some (False, [], s))"

text \<open>The wait at the end, shorter or longer by what the server has told, and the next frame.\<close>

definition run_wait :: "frame_input \<Rightarrow> run_state \<Rightarrow> (bool \<times> run_state) option" where
  "run_wait fi s =
     (let c = rn_client s; rate = uint (cl_sim_tick_rate c)
      in case tick_wait_warp (fi_wait_now fi) (fi_wait_slept fi) (fi_wait_clock fi) (cl_warp c) (rate * 10) (rn_sim_tick s) of
           None \<Rightarrow> None
         | Some (tick_lag, t) \<Rightarrow>
             if tick_lag \<noteq> 0 \<and> tick_lag > rate * 3
             then Some (True, s\<lparr>rn_sim_tick := tick_skip (fi_skip_now fi) t\<rparr>)
             else let c = client_warp_step c
               in Some (False, s\<lparr>rn_sim_tick := t, rn_client := c\<lparr>cl_frame := cl_frame c + 1\<rparr>\<rparr>))"

text \<open>Whether the loop is left, what was sent, and the state.\<close>

definition run_update :: "client_env \<Rightarrow> frame_input \<Rightarrow> run_state \<Rightarrow> (bool \<times> 8 word list \<times> run_state) option" where
  "run_update E fi s =
     (case tick_advance (fi_net_now fi) (rn_net_tick s) of None \<Rightarrow> None
      | Some (behind, t) \<Rightarrow>
          (case run_receive E fi (behind \<noteq> 0) (s\<lparr>rn_net_tick := t\<rparr>) of None \<Rightarrow> None
           | Some (stop, s) \<Rightarrow>
               if stop then Some (True, [], s)
               else (case run_sim E fi (behind \<noteq> 0) s of None \<Rightarrow> None
                 | Some s \<Rightarrow>
                     (case run_send E fi (behind \<noteq> 0) s of None \<Rightarrow> None
                      | Some (stop, sent, s) \<Rightarrow>
                          if stop then Some (True, sent, s)
                          else map_option (\<lambda>(stop, s). (stop, sent, s)) (run_wait fi s)))))"

definition run_frame ::
  "client_env \<Rightarrow> nat \<Rightarrow> (gfx_call list \<Rightarrow> bool) \<Rightarrow> frame_input \<Rightarrow> run_state \<Rightarrow> (bool \<times> 8 word list \<times> run_state) option" where
  "run_frame E nb ok fi s =
     (let s = s\<lparr>rn_input := fi_poll fi (rn_input s)\<rparr>
      in if in_quit (rn_input s) then Some (True, [], s)
         else if in_next_gfx_backend (rn_input s) \<or> in_prev_gfx_backend (rn_input s) then
           (case run_switch nb ok fi s of None \<Rightarrow> None
            | Some (stop, s) \<Rightarrow> if stop then Some (True, [], s) else run_update E fi s)
         else run_update E fi s)"

text \<open>The loop ends with the last frame at the latest, when the player has interrupted the program.\<close>

fun run_loop ::
  "client_env \<Rightarrow> nat \<Rightarrow> (gfx_call list \<Rightarrow> bool) \<Rightarrow> frame_input list \<Rightarrow> run_state \<Rightarrow> run_state option" where
  "run_loop E nb ok [] s = Some s"
| "run_loop E nb ok (fi # fis) s =
     (case run_frame E nb ok fi s of None \<Rightarrow> None
      | Some (stop, sent, s) \<Rightarrow> if stop then Some s else run_loop E nb ok fis s)"

section \<open>The program\<close>

definition run_disconnect :: "run_state \<Rightarrow> run_state" where
  "run_disconnect s =
     (if cl_state (rn_client s) \<noteq> CLIENT_DISCONNECTED then s\<lparr>rn_client := client_disconnect (rn_client s)\<rparr> else s)"

text \<open>Before the loop. Whether the program goes on, and the state; on a failure everything is closed again.\<close>

definition run_begin :: "args \<Rightarrow> client \<Rightarrow> run_state" where
  "run_begin a c = \<lparr>rn_client = c, rn_world = world_init, rn_input = input_init, rn_cmd = cmd_default,
     rn_camera = camera_init, rn_iface = nat (ar_gfx_backend a), rn_gfx = Dangling, rn_calls = [],
     rn_sim_tick = \<lparr>tk_interval = 0, tk_last = 0\<rparr>, rn_net_tick = \<lparr>tk_interval = 0, tk_last = 0\<rparr>\<rparr>"

definition run_connect ::
  "client_env \<Rightarrow> (8 word list \<Rightarrow> 8 word list \<Rightarrow> int vec option \<Rightarrow> int \<times> int vec option) \<Rightarrow> bool \<Rightarrow> args \<Rightarrow>
   (int \<times> client) option" where
  "run_connect E connect_to thread_ok a =
     (if ar_mcd_latency a > 0 then
        if \<not> thread_ok then Some (-1, client_init)
        else client_connect E connect_to client_init (ar_ip a) (ar_mcd_port a) (bytes ''username'')
      else client_connect E connect_to client_init (ar_ip a) (ar_port a) (bytes ''username''))"

definition run_close :: "run_state \<Rightarrow> run_state option" where
  "run_close s = map_option (\<lambda>s. run_disconnect (run_deinit s)) (run_destroy s)"

definition run_open ::
  "(gfx_call list \<Rightarrow> bool) \<Rightarrow> resource_pack option option \<Rightarrow> run_state \<Rightarrow> (bool \<times> run_state) option" where
  "run_open ok pack s =
     (case run_init ok s of (good, s) \<Rightarrow>
        if \<not> good then Some (False, run_disconnect s)
        else (case run_create ok 800 600 s of (good, s) \<Rightarrow>
          if \<not> good then Some (False, run_disconnect (run_deinit s))
          else (case pack of None \<Rightarrow> None
            | Some None \<Rightarrow> map_option (\<lambda>s. (False, s)) (run_close s)
            | Some (Some p) \<Rightarrow>
                (case run_load ok s of (good, s) \<Rightarrow>
                  if \<not> good then map_option (\<lambda>s. (False, s)) (run_close s) else Some (True, s)))))"

definition run_start ::
  "client_env \<Rightarrow> (8 word list \<Rightarrow> 8 word list \<Rightarrow> int vec option \<Rightarrow> int \<times> int vec option) \<Rightarrow> bool \<Rightarrow>
   (gfx_call list \<Rightarrow> bool) \<Rightarrow> resource_pack option option \<Rightarrow> 64 word \<Rightarrow> 64 word \<Rightarrow> args \<Rightarrow> (bool \<times> run_state) option" where
  "run_start E connect_to thread_ok ok pack sim_now net_now a =
     (case run_connect E connect_to thread_ok a of None \<Rightarrow> None
      | Some (r, c) \<Rightarrow>
          if r < 0 then Some (False, run_begin a c)
          else (case run_open ok pack (run_begin a c) of None \<Rightarrow> None
            | Some (good, s) \<Rightarrow>
                if \<not> good then Some (False, s)
                else map_option (\<lambda>s. (True, s)) (run_set_ticks sim_now net_now s)))"

text \<open>Behind the loop: the server is told, and everything is closed.\<close>

definition run_exit :: "client_env \<Rightarrow> (int \<Rightarrow> bool) \<Rightarrow> run_state \<Rightarrow> (8 word list \<times> run_state) option" where
  "run_exit E send_ok s =
     (case client_send_pending_data E send_ok (client_queue E (rn_client s) (msg_leave (ce_byte E))) of None \<Rightarrow> None
      | Some (r, sent, c) \<Rightarrow> map_option (\<lambda>s. (sent, s)) (run_close (s\<lparr>rn_client := c\<rparr>)))"

definition client_run ::
  "client_env \<Rightarrow> nat \<Rightarrow> (8 word list \<Rightarrow> 8 word list \<Rightarrow> int vec option \<Rightarrow> int \<times> int vec option) \<Rightarrow> bool \<Rightarrow>
   (gfx_call list \<Rightarrow> bool) \<Rightarrow> pack_junk \<Rightarrow> (8 word list \<Rightarrow> 8 word list option) \<Rightarrow> 64 word \<Rightarrow> 64 word \<Rightarrow>
   frame_input list \<Rightarrow> (int \<Rightarrow> bool) \<Rightarrow> args \<Rightarrow> run_state option" where
  "client_run E nb connect_to thread_ok ok u file sim_now net_now fis send_ok a =
     (case run_start E connect_to thread_ok ok (resource_pack_parse u file (bytes ''packs/horror'')) sim_now net_now a of
        None \<Rightarrow> None
      | Some (good, s) \<Rightarrow>
          if \<not> good then Some s
          else Option.bind (run_loop E nb ok fis s) (\<lambda>s. map_option snd (run_exit E send_ok s)))"

end
