(* ===== verification/ClientRun_Laws.thy ===== *)
theory ClientRun_Laws
  imports ClientRun Client_Laws ResourcePack_Laws
begin

text \<open>
  The correctness statements about the client as a program: its windows, its clocks, and the
  commands it queues for the server.
\<close>

section \<open>Windows\<close>

text \<open>
  What the calls so far, the newest first, leave behind: nothing, a backend that is initialised,
  a window of it, or a call that was out of order.
\<close>

datatype lifecycle = Off | On nat | Opened nat | Broken

fun lifecycle_step :: "bool \<Rightarrow> gfx_call \<Rightarrow> lifecycle \<Rightarrow> lifecycle" where
  "lifecycle_step good (Global_init i) Off = (if good then On i else Off)"
| "lifecycle_step good (Create i w h) (On j) = (if i \<noteq> j then Broken else if good then Opened i else On i)"
| "lifecycle_step good (Load_resource_pack i) (Opened j) = (if i \<noteq> j then Broken else Opened i)"
| "lifecycle_step good (Destroy i) (Opened j) = (if i \<noteq> j then Broken else On i)"
| "lifecycle_step good (Global_deinit i) (On j) = (if i \<noteq> j then Broken else Off)"
| "lifecycle_step good call state = Broken"

fun window_state :: "(gfx_call list \<Rightarrow> bool) \<Rightarrow> gfx_call list \<Rightarrow> lifecycle" where
  "window_state ok [] = Off"
| "window_state ok (call # calls) = lifecycle_step (ok (call # calls)) call (window_state ok calls)"

text \<open>A window is open, or the last one was lost when switching back failed.\<close>

definition window_open :: "(gfx_call list \<Rightarrow> bool) \<Rightarrow> run_state \<Rightarrow> bool" where
  "window_open ok s \<longleftrightarrow> rn_gfx s = Window (rn_iface s) \<and> window_state ok (rn_calls s) = Opened (rn_iface s)"

definition window_lost :: "(gfx_call list \<Rightarrow> bool) \<Rightarrow> run_state \<Rightarrow> bool" where
  "window_lost ok s \<longleftrightarrow> rn_gfx s \<in> {Null, Dangling} \<and> window_state ok (rn_calls s) = Off"

lemmas run_gfx_defs = run_call_def run_init_def run_create_def run_load_def run_destroy_def run_deinit_def

lemma run_restore_window:
  assumes "window_state ok (rn_calls s) = Off" "rn_gfx s \<in> {Null, Dangling}" "run_restore ok idx s = (stop, s')"
  shows "if stop then window_lost ok s' else window_open ok s'"
  using assms by (auto simp: run_restore_def run_gfx_defs window_open_def window_lost_def Let_def split: if_splits)

lemma run_switch_window:
  assumes "window_open ok s" "run_switch nb ok fi s = Some (stop, s')"
  shows "if stop then window_lost ok s' else window_open ok s'"
proof -
  have s: "rn_gfx s = Window (rn_iface s)" "window_state ok (rn_calls s) = Opened (rn_iface s)"
    using assms(1) by (simp_all add: window_open_def)
  have r: "run_restore ok idx r = (stop, s') \<Longrightarrow> ?thesis"
    if "window_state ok (rn_calls r) = Off" "rn_gfx r \<in> {Null, Dangling}" for r idx
    using run_restore_window [OF that] by blast
  show ?thesis
    using assms(2) s
    by (auto simp: run_switch_def run_gfx_defs Let_def window_open_def split: if_splits dest!: r [rotated 2])
qed

text \<open>The other steps of a frame leave the windows alone.\<close>

definition same_window :: "run_state \<Rightarrow> run_state \<Rightarrow> bool" where
  "same_window s s' \<longleftrightarrow> rn_gfx s' = rn_gfx s \<and> rn_iface s' = rn_iface s \<and> rn_calls s' = rn_calls s"

lemma run_receive_window: "run_receive E fi nu s = Some (stop, s') \<Longrightarrow> same_window s s'"
  by (auto simp: run_receive_def run_set_ticks_def same_window_def Let_def split: if_splits option.splits prod.splits)

lemma run_sim_window: "run_sim E fi nu s = Some s' \<Longrightarrow> same_window s s'"
  by (auto simp: run_sim_def same_window_def bind_eq_Some_conv split: if_splits option.splits prod.splits)

lemma run_send_window: "run_send E fi nu s = Some (stop, sent, s') \<Longrightarrow> same_window s s'"
  by (auto simp: run_send_def same_window_def split: if_splits)

lemma run_wait_window: "run_wait fi s = Some (stop, s') \<Longrightarrow> same_window s s'"
  by (auto simp: run_wait_def same_window_def Let_def split: if_splits option.splits prod.splits)

lemma window_open_same: "window_open ok s \<Longrightarrow> same_window s s' \<Longrightarrow> window_open ok s'"
  by (simp add: window_open_def same_window_def)

text \<open>The steps of an update: it may stop after receiving, after sending, or while waiting.\<close>

lemma run_updateE:
  assumes "run_update E fi s = Some (stop, sent, s')"
  obtains behind t stop1 s1 where "tick_advance (fi_net_now fi) (rn_net_tick s) = Some (behind, t)"
    "run_receive E fi (behind \<noteq> 0) (s\<lparr>rn_net_tick := t\<rparr>) = Some (stop1, s1)"
    "if stop1 then stop \<and> sent = [] \<and> s' = s1
     else \<exists>s2 stop3 s3. run_sim E fi (behind \<noteq> 0) s1 = Some s2 \<and> run_send E fi (behind \<noteq> 0) s2 = Some (stop3, sent, s3) \<and>
       (if stop3 then stop \<and> s' = s3 else run_wait fi s3 = Some (stop, s'))"
proof -
  obtain behind t where 1: "tick_advance (fi_net_now fi) (rn_net_tick s) = Some (behind, t)"
    using assms by (auto simp: run_update_def split: option.splits)
  obtain stop1 s1 where 2: "run_receive E fi (behind \<noteq> 0) (s\<lparr>rn_net_tick := t\<rparr>) = Some (stop1, s1)"
    using assms 1 by (auto simp: run_update_def split: option.splits)
  show thesis
  proof (cases stop1)
    case True
    then show thesis
      using assms 1 2 that [OF 1 2] by (simp add: run_update_def)
  next
    case False
    obtain s2 where 3: "run_sim E fi (behind \<noteq> 0) s1 = Some s2"
      using assms 1 2 False by (auto simp: run_update_def split: option.splits)
    obtain stop3 sent' s3 where 4: "run_send E fi (behind \<noteq> 0) s2 = Some (stop3, sent', s3)"
      using assms 1 2 3 False by (auto simp: run_update_def split: option.splits)
    show thesis
      using assms 1 2 3 4 False by (intro that [OF 1 2]) (auto simp: run_update_def split: if_splits)
  qed
qed

lemma run_update_window:
  assumes "run_update E fi s = Some (stop, sent, s')"
  shows "same_window s s'"
  using assms
proof (rule run_updateE)
  fix behind t stop1 s1
  assume u: "run_receive E fi (behind \<noteq> 0) (s\<lparr>rn_net_tick := t\<rparr>) = Some (stop1, s1)"
    "if stop1 then stop \<and> sent = [] \<and> s' = s1
     else \<exists>s2 stop3 s3. run_sim E fi (behind \<noteq> 0) s1 = Some s2 \<and> run_send E fi (behind \<noteq> 0) s2 = Some (stop3, sent, s3) \<and>
       (if stop3 then stop \<and> s' = s3 else run_wait fi s3 = Some (stop, s'))"
  have "same_window s s1"
    using run_receive_window [OF u(1)] by (simp add: same_window_def)
  then show ?thesis
    using u(2) by (auto simp: same_window_def dest!: run_sim_window run_send_window run_wait_window split: if_splits)
qed

lemma run_frame_window:
  assumes "window_open ok s" "run_frame E nb ok fi s = Some (stop, sent, s')"
  shows "window_open ok s' \<or> stop \<and> window_lost ok s'"
proof -
  let ?s = "s\<lparr>rn_input := fi_poll fi (rn_input s)\<rparr>"
  have o: "window_open ok ?s"
    using assms(1) by (simp add: window_open_def)
  have update: "window_open ok s'" if "window_open ok r" "run_update E fi r = Some (stop, sent, s')" for r
    using that window_open_same run_update_window by blast
  show ?thesis
  proof (cases "in_quit (rn_input ?s) \<or> \<not> (in_next_gfx_backend (rn_input ?s) \<or> in_prev_gfx_backend (rn_input ?s))")
    case True
    then show ?thesis
      using assms(2) o update [of ?s] by (auto simp: run_frame_def Let_def split: if_splits)
  next
    case False
    then obtain stop' r where r: "run_switch nb ok fi ?s = Some (stop', r)"
        "(if stop' then Some (True, [], r) else run_update E fi r) = Some (stop, sent, s')"
      using assms(2) by (auto simp: run_frame_def Let_def split: option.splits)
    then show ?thesis
      using run_switch_window [OF o r(1)] update [of r] by (auto split: if_splits)
  qed
qed

lemma run_loop_window:
  "window_open ok s \<Longrightarrow> run_loop E nb ok fis s = Some s' \<Longrightarrow> window_open ok s' \<or> window_lost ok s'"
proof (induction fis arbitrary: s)
  case (Cons fi fis)
  obtain stop sent s1 where 1: "run_frame E nb ok fi s = Some (stop, sent, s1)"
      "(if stop then Some s1 else run_loop E nb ok fis s1) = Some s'"
    using Cons.prems(2) by (auto split: option.splits)
  show ?case
    using run_frame_window [OF Cons.prems(1) 1(1)] 1(2) Cons.IH [of s1] by (auto split: if_splits)
qed simp

lemma run_close_window:
  "window_open ok s \<Longrightarrow> run_close s = Some s' \<Longrightarrow> window_state ok (rn_calls s') = Off"
  by (auto simp: run_close_def run_gfx_defs run_disconnect_def window_open_def)

lemma run_open_window:
  assumes "window_state ok (rn_calls s) = Off" "run_open ok pack s = Some (good, s')"
  shows "if good then window_open ok s' else window_state ok (rn_calls s') = Off"
proof -
  have close: "window_state ok (rn_calls s') = Off" if "run_close r = Some s'" "rn_gfx r = Window (rn_iface r)"
    "window_state ok (rn_calls r) = Opened (rn_iface r)" for r
    using run_close_window [OF _ that(1)] that(2,3) by (simp add: window_open_def)
  show ?thesis
    using assms
    by (auto simp: run_open_def run_gfx_defs run_disconnect_def window_open_def Let_def
        split: if_splits option.splits dest: close)
qed

text \<open>Leaving without a window is a crash.\<close>

lemma lost_window_crashes:
  assumes "window_lost ok s"
  shows "run_exit E send_ok s = None"
  using assms
  by (auto simp: run_exit_def run_close_def run_destroy_def window_lost_def split: option.splits prod.splits)

text \<open>A run that ends has closed what it opened.\<close>

lemma run_balanced:
  assumes "client_run E nb connect_to thread_ok ok u file sim_now net_now fis send_ok a = Some s"
  shows "window_state ok (rn_calls s) = Off"
proof -
  let ?pack = "resource_pack_parse u file (bytes ''packs/horror'')"
  obtain good s1 where 1: "run_start E connect_to thread_ok ok ?pack sim_now net_now a = Some (good, s1)"
      "(if \<not> good then Some s1 else Option.bind (run_loop E nb ok fis s1) (\<lambda>s. map_option snd (run_exit E send_ok s))) = Some s"
    using assms by (auto simp: client_run_def split: option.splits)
  obtain r c where c: "run_connect E connect_to thread_ok a = Some (r, c)"
    using 1(1) by (auto simp: run_start_def split: option.splits)
  have fresh: "window_state ok (rn_calls (run_begin a c)) = Off"
    by (simp add: run_begin_def)
  have ticks: "window_open ok q" if "window_open ok p" "run_set_ticks x y p = Some q" for x y p q
    using that by (auto simp: run_set_ticks_def window_open_def split: option.splits)
  have start: "if good then window_open ok s1 else window_state ok (rn_calls s1) = Off"
    using 1(1) c fresh run_open_window [OF fresh, of ?pack] ticks
    by (auto simp: run_start_def split: if_splits option.splits)
  show ?thesis
  proof (cases good)
    case True
    then obtain s2 sent where 2: "run_loop E nb ok fis s1 = Some s2" "run_exit E send_ok s2 = Some (sent, s)"
      using 1(2) by (auto simp: bind_eq_Some_conv)
    then have "window_open ok s2"
      using run_loop_window [OF _ 2(1)] start True lost_window_crashes by fastforce
    moreover obtain x c2 where "run_close (s2\<lparr>rn_client := c2\<rparr>) = Some s"
      using 2(2) by (auto simp: run_exit_def split: option.splits)
    ultimately show ?thesis
      using run_close_window [of ok "s2\<lparr>rn_client := c2\<rparr>"] by (simp add: window_open_def)
  qed (use 1(2) start in simp)
qed

text \<open>A switch always comes to an end: with a window, or without one when the way back failed too.\<close>

definition window_creatable :: "(gfx_call list \<Rightarrow> bool) \<Rightarrow> gfx_call list \<Rightarrow> bool" where
  "window_creatable ok calls \<longleftrightarrow> (\<exists>i w h newer. ok (Create i w h # newer @ calls))"

lemma run_switch_ends:
  assumes "window_open ok s"
  obtains stop s' where "run_switch nb ok fi s = Some (stop, s')"
    "\<not> window_creatable ok (rn_calls s) \<Longrightarrow> stop" "(\<And>newer. ok (newer @ rn_calls s)) \<Longrightarrow> \<not> stop"
proof -
  have s: "rn_gfx s = Window (rn_iface s)"
    using assms by (simp add: window_open_def)
  have "run_switch nb ok fi s \<noteq> None"
    using s by (simp add: run_switch_def run_gfx_defs Let_def del: not_None_eq)
  then obtain stop s' where r: "run_switch nb ok fi s = Some (stop, s')"
    by auto
  moreover have "stop" if "\<not> window_creatable ok (rn_calls s)"
  proof -
    have no: "\<not> ok (Create i w h # newer @ rn_calls s)" for i w h newer
      using that by (auto simp: window_creatable_def)
    show ?thesis
      using r s no [of _ 640 480 "[_, _, _]"] no [of _ 640 480 "[_, _, _, _]"] no [of _ 640 480 "[_, _, _, _, _]"]
        no [of _ 640 480 "[_, _, _, _, _, _]"]
      by (auto simp: run_switch_def run_restore_def run_gfx_defs Let_def split: if_splits)
  qed
  moreover have "\<not> stop" if all: "\<And>newer. ok (newer @ rn_calls s)"
    using r s all [of "[_, _, _]"] all [of "[_, _, _, _]"] all [of "[_, _, _, _, _]"]
    by (auto simp: run_switch_def run_restore_def run_gfx_defs Let_def split: if_splits)
  ultimately show thesis
    by (rule that)
qed

text \<open>
  Claim C35. Whatever fails while the program opens windows, switches between graphics backends
  or loads resources, if it ends without a crash then all windows and backends are closed: each
  is closed once, in the reverse order, before another one is opened. A switch of the backend
  always ends: either with a window on a backend, so certainly when all its calls succeed, and
  the loop goes on; or, certainly when no window can be created any more, the way back has failed
  too, and the loop is left without a window, that is with a null or a released pointer and
  everything closed. Then the clean-up behind the loop crashes, whatever the client can send.
\<close>

theorem windows_balanced:
  "(\<forall>s. client_run E nb connect_to thread_ok ok u file sim_now net_now fis send_ok a = Some s \<longrightarrow>
      window_state ok (rn_calls s) = Off) \<and>
   (\<forall>r fi. window_open ok r \<longrightarrow> (\<exists>stop r'. run_switch nb ok fi r = Some (stop, r') \<and>
      ((\<forall>newer. ok (newer @ rn_calls r)) \<longrightarrow> \<not> stop) \<and> (\<not> window_creatable ok (rn_calls r) \<longrightarrow> stop) \<and>
      (if stop then rn_gfx r' \<in> {Null, Dangling} \<and> window_state ok (rn_calls r') = Off \<and> run_exit E send_ok r' = None
       else window_open ok r'))) \<and>
   (\<forall>r r'. window_open ok r \<and> run_loop E nb ok fis r = Some r' \<and> \<not> window_open ok r' \<longrightarrow> run_exit E send_ok r' = None)"
proof -
  have lost: "run_exit E send_ok r' = None"
    if "window_open ok r" "run_loop E nb ok fis r = Some r'" "\<not> window_open ok r'" for r r'
    using run_loop_window [OF that(1,2)] that(3) lost_window_crashes by blast
  have switch: "\<exists>stop r'. run_switch nb ok fi r = Some (stop, r') \<and>
      ((\<forall>newer. ok (newer @ rn_calls r)) \<longrightarrow> \<not> stop) \<and> (\<not> window_creatable ok (rn_calls r) \<longrightarrow> stop) \<and>
      (if stop then rn_gfx r' \<in> {Null, Dangling} \<and> window_state ok (rn_calls r') = Off \<and> run_exit E send_ok r' = None
       else window_open ok r')" if "window_open ok r" for r fi
  proof (rule run_switch_ends [OF that, of nb fi])
    fix stop r'
    assume r: "run_switch nb ok fi r = Some (stop, r')" "\<not> window_creatable ok (rn_calls r) \<Longrightarrow> stop"
      "(\<And>newer. ok (newer @ rn_calls r)) \<Longrightarrow> \<not> stop"
    show ?thesis
      using run_switch_window [OF that r(1)] r lost_window_crashes [of ok r' E send_ok]
      by (auto simp: window_lost_def split: if_splits)
  qed
  show ?thesis
    using run_balanced lost switch by blast
qed

text \<open>
  A backend whose library cannot be initialised again: when the window on the first backend is
  given up for the second one, both refuse.
\<close>

definition init_once :: "gfx_call list \<Rightarrow> bool" where
  "init_once calls \<longleftrightarrow> length calls \<le> 3"

definition demo_frame :: frame_input where
  "demo_frame = \<lparr>fi_poll = (\<lambda>i. i), fi_poll_again = (\<lambda>i. i), fi_width = 800, fi_height = 600,
     fi_send_ok = (\<lambda>_. True), fi_receive = (\<lambda>_. (0, [])), fi_net_now = 0, fi_sim_cfg_now = 0, fi_net_cfg_now = 0,
     fi_wait_now = 0, fi_wait_slept = True, fi_wait_clock = [], fi_skip_now = 0\<rparr>"

definition demo_window :: run_state where
  "demo_window = (run_begin args_defaults client_init)
     \<lparr>rn_gfx := Window 0, rn_calls := [Load_resource_pack 0, Create 0 800 600, Global_init 0]\<rparr>"

theorem windows_balanced_witness:
  "(\<exists>r. window_open init_once demo_window \<and> run_switch 2 init_once demo_frame demo_window = Some (True, r) \<and>
      rn_gfx r = Dangling \<and> run_exit demo_client_env (\<lambda>_. True) r = None) \<and>
   (\<exists>s. client_run demo_client_env 2 (\<lambda>_ _ _. (0, demo_sockets)) True (\<lambda>calls. length calls = 1) demo_pack_junk (\<lambda>_. None)
      0 0 [] (\<lambda>_. True) args_defaults = Some s \<and>
    rn_calls s = [Global_deinit 0, Create 0 800 600, Global_init 0] \<and>
    window_state (\<lambda>calls. length calls = 1) (rn_calls s) = Off)"
proof -
  have a: "ar_mcd_latency args_defaults = 0" "ar_ip args_defaults = []" "ar_port args_defaults = []" "ar_gfx_backend args_defaults = 0"
    by (simp_all add: args_defaults_def)
  have w: "window_open init_once demo_window" "rn_calls demo_window = [Load_resource_pack 0, Create 0 800 600, Global_init 0]"
    by (simp_all add: window_open_def demo_window_def run_begin_def init_once_def a)
  have "\<not> window_creatable init_once (rn_calls demo_window)"
    by (auto simp: window_creatable_def init_once_def w(2))
  moreover obtain r where "run_switch 2 init_once demo_frame demo_window = Some (True, r)" "rn_gfx r = Dangling"
    by (simp add: run_switch_def run_restore_def run_gfx_defs Let_def demo_window_def run_begin_def init_once_def a next_backend_def)
  ultimately have one: "\<exists>r. window_open init_once demo_window \<and> run_switch 2 init_once demo_frame demo_window = Some (True, r) \<and>
      rn_gfx r = Dangling \<and> run_exit demo_client_env (\<lambda>_. True) r = None"
    using windows_balanced [of demo_client_env 2 "\<lambda>_ _ _. (0, demo_sockets)" True init_once demo_pack_junk "\<lambda>_. None" 0 0 "[]"
        "\<lambda>_. True" args_defaults] w(1) by (metis option.inject prod.inject)
  obtain m where m: "msg_join_request (ce_byte demo_client_env) 0 (cl_frame client_init) (bytes ''username'') = Some m"
    using msg_join_request_parse [of "bytes ''username''" "ce_byte demo_client_env" 0 "cl_frame client_init"]
    by (auto simp: bytes_def)
  then obtain c where c: "client_connect demo_client_env (\<lambda>_ _ _. (0, demo_sockets)) client_init [] [] (bytes ''username'') = Some (0, c)"
    by (simp add: client_connect_def client_init_def Let_def)
  let ?ok = "\<lambda>calls :: gfx_call list. length calls = 1"
  obtain s where s: "run_open ?ok (resource_pack_parse demo_pack_junk (\<lambda>_. None) (bytes ''packs/horror'')) (run_begin args_defaults c)
      = Some (False, s)" "rn_calls s = [Global_deinit 0, Create 0 800 600, Global_init 0]"
    by (simp add: run_open_def run_gfx_defs run_begin_def run_disconnect_def a)
  then have "client_run demo_client_env 2 (\<lambda>_ _ _. (0, demo_sockets)) True ?ok demo_pack_junk (\<lambda>_. None) 0 0 [] (\<lambda>_. True)
      args_defaults = Some s"
    using c by (simp add: client_run_def run_start_def run_connect_def a)
  then show ?thesis
    using windows_balanced [of demo_client_env 2 "\<lambda>_ _ _. (0, demo_sockets)" True ?ok demo_pack_junk "\<lambda>_. None" 0 0 "[]"
        "\<lambda>_. True" args_defaults] s(2) one by blast
qed

section \<open>Leaving without a connection\<close>

lemma leave_packed:
  assumes "pending_ok p" "vecp_list p = []"
  obtains q where "client_pack_pending u f (snd (vec_push 16 True v p (msg_leave w))) =
    (0, q, pack_msg (msg_leave w) (pack_start u))"
proof -
  let ?p = "snd (vec_push 16 True v p (msg_leave w))"
  have "vecp_ok 16 p" "length (vecp_list p) = 0"
    using assms by (simp_all add: pending_ok_def)
  then have p: "vecp_ok 16 ?p" "vecp_list ?p = [msg_leave w]"
    using vec_push_list [of p v "msg_leave w"] assms(2) by auto
  obtain r1 p1 ctx1 where 1: "vec_retain append_unreliable_msgs_to_buf ?p (pack_start u) = (r1, p1, ctx1)"
    by (metis surj_pair)
  obtain r2 p2 ctx2 where 2: "vec_retain (client_append_reliable_msgs_to_buf f) p1 ctx1 = (r2, p2, ctx2)"
    by (metis surj_pair)
  note l1 = vec_retain_list [OF p(1) 1]
  note l2 = vec_retain_list [OF conjunct1 [OF l1] 2]
  have "vecp_list p1 = []" "ctx1 = pack_msg (msg_leave w) (pack_start u)"
    using l1 p(2) pack_start_room by (auto simp: append_unreliable_msgs_to_buf_def msg_is_reliable_def msg_leave_def VEC_ERASE_def)
  with l2 have "r2 = 0" "ctx2 = pack_msg (msg_leave w) (pack_start u)"
    by auto
  with 1 2 that show thesis
    by (simp add: client_pack_pending_def client_append_unreliable_same)
qed

text \<open>
  Claim C36. A player whom the server has turned away cannot leave: the client has disconnected
  and closed its sockets, but the loop goes on, and behind it the message that it leaves is
  queued and sent through the last socket of an empty vector.
\<close>

theorem leaving_unconnected_crashes:
  assumes "client_ok E (c, w)" "cl_sockets c = Some v"
  shows "run_exit E send_ok (s\<lparr>rn_client := client_disconnect c\<rparr>) = None"
proof -
  let ?c = "client_disconnect c"
  have "pending_ok (cl_pending ?c)" "vecp_list (cl_pending ?c) = []"
    using assms(1) pending_clear by (auto simp: client_ok_def client_disconnect_def vec_clear_def vec_list_def split: option.split)
  then obtain q where q: "client_pack_pending (ce_byte E) (cl_frame ?c)
      (snd (vec_push 16 True (ce_msg E) (cl_pending ?c) (msg_leave (ce_byte E)))) =
      (0, q, pack_msg (msg_leave (ce_byte E)) (pack_start (ce_byte E)))"
    by (rule leave_packed)
  have "0 < pc_len (pack_msg (msg_leave (ce_byte E)) (pack_start (ce_byte E)))"
    by (simp add: pack_msg_def pack_start_def msg_leave_def)
  moreover have "cl_sockets ?c = Some (v\<lparr>vec_cnt := 0\<rparr>)"
    using assms(2) by (simp add: client_disconnect_def vec_clear_def)
  ultimately have "client_send_pending_data E send_ok (client_queue E ?c (msg_leave (ce_byte E))) = None"
    using q by (simp add: client_send_pending_data_def client_queue_def Let_def)
  then show ?thesis
    by (simp add: run_exit_def)
qed

theorem leaving_unconnected_crashes_witness:
  "run_exit demo_client_env (\<lambda>_. True) (run_begin args_defaults (client_disconnect demo_connecting)) = None"
proof -
  obtain v where "cl_sockets demo_connecting = Some v"
    using demo_sockets_list by (auto simp: demo_connecting_parts)
  then show ?thesis
    using leaving_unconnected_crashes [OF demo_connecting_ok, of v "\<lambda>_. True" "run_begin args_defaults demo_connecting"]
    by (simp add: run_begin_def)
qed

end
