(* ===== verification/ClientRun_Queue.thy ===== *)
theory ClientRun_Queue
  imports ClientRun_Laws
begin

text \<open>
  The main loop of the client keeps the commands of its snake in a form that the protocol can
  send: a row of consecutive frames up to the current one, each command close to the one before.
  Its clocks run at the rates that the server has set.
\<close>

section \<open>The queue of the own snake\<close>

lemma deltas_ok_snoc:
  "deltas_ok c cs \<Longrightarrow> cmd_delta_ok (last (c # cs)) d \<Longrightarrow> deltas_ok c (cs @ [d])"
  by (induction cs arbitrary: c) auto

lemma deltas_ok_drop:
  "deltas_ok (hd cs) (tl cs) \<Longrightarrow> drop k cs \<noteq> [] \<Longrightarrow> deltas_ok (hd (drop k cs)) (tl (drop k cs))"
proof (induction k arbitrary: cs)
  case (Suc k)
  then obtain c d ds where "cs = c # d # ds"
    by (metis drop_Nil list.exhaust drop_Suc_Cons)
  then show ?case
    using Suc by simp
qed simp

text \<open>The commands of the frames before \<open>f\<close>, the newest of them \<open>command\<close>; at most \<open>n\<close>.\<close>

definition sendable :: "nat \<Rightarrow> 16 word \<Rightarrow> cmd \<Rightarrow> cmd_queue \<Rightarrow> bool" where
  "sendable n f command q \<longleftrightarrow> cq_ok q \<and> length (cq_list q) \<le> n \<and>
     (cq_list q \<noteq> [] \<longrightarrow> cmd_queue_frame_end q = f \<and> last (cq_list q) = command \<and>
       deltas_ok (hd (cq_list q)) (tl (cq_list q)))"

lemma frame_end_list: "cq_ok q \<Longrightarrow> cmd_queue_frame_end q = cq_first q + of_nat (length (cq_list q))"
  by (simp add: cmd_queue_frame_end_def cq_count)

lemma sendable_put:
  assumes "sendable n f command q" "n < 16383" "cmd_delta_ok command new"
  shows "sendable (Suc n) (f + 1) new (cmd_queue_put True u q new f)"
proof -
  let ?q = "cmd_queue_put True u q new f"
  have q: "cq_ok q" "length (cq_list q) \<le> n"
    using assms(1) by (simp_all add: sendable_def)
  have "rb_can_grow 16 True (cq_rb q)"
    using q assms(2) by (intro rb_can_grow_count) (simp_all add: cq_ok_def cq_list_def)
  note p = cmd_queue_put_window [OF q(1) this, of u new f]
  have e: "cq_list ?q = (if cq_list q = [] then [new] else cq_list q @ [new])" "cq_first ?q = (if cq_list q = [] then f else cq_first q)"
    using p(2) assms(1) frame_end_list [OF q(1)]
    by (auto simp: cq_window_def w_put_def sendable_def)
  show ?thesis
  proof (cases "cq_list q = []")
    case True
    then show ?thesis
      using p(1) e frame_end_list [OF p(1)] by (simp add: sendable_def)
  next
    case False
    then have "f = cq_first q + of_nat (length (cq_list q))" "last (cq_list q) = command"
        "deltas_ok (hd (cq_list q)) (tl (cq_list q))"
      using assms(1) frame_end_list [OF q(1)] by (auto simp: sendable_def)
    moreover from this have "deltas_ok (hd (cq_list q)) (tl (cq_list q) @ [new])"
      using assms(3) False deltas_ok_snoc [of "hd (cq_list q)" "tl (cq_list q)" new] by simp
    ultimately show ?thesis
      using p(1) e q(2) False frame_end_list [OF p(1)] by (simp add: sendable_def algebra_simps)
  qed
qed

text \<open>Acknowledging a frame takes commands from the front.\<close>

lemma snake_ack_queue:
  assumes "cq_ok q" "snake_ack_frame L J d ack pred auth param q f rate = Some (d', ack', pred', q')"
  shows "cq_ok q' \<and> cmd_queue_frame_end q' = cmd_queue_frame_end q \<and> (\<exists>k. cq_list q' = drop k (cq_list q))"
proof (cases "cmd_queue_count q = 0 \<or> u16_lt_wrap f (cmd_queue_frame_begin q) \<or> u16_gt_wrap f (cmd_queue_frame_end q)")
  case True
  then have "q' = q"
    using snake_ack_rejected [OF True, of L J d ack pred auth param rate] assms(2) by simp
  then show ?thesis
    using assms(1) by (auto intro: exI [of _ 0])
next
  case False
  let ?n = "length (cq_list q)"
  have n: "0 < ?n" "?n < 32768"
    using False cq_length [OF assms(1)] by (simp_all add: cmd_queue_count_def cq_count [OF assms(1)])
  obtain j where j: "j \<le> ?n" "f = cq_first q + of_nat j"
    using ack_frame_in_window [of f "cq_first q" ?n] False n frame_end_list [OF assms(1)]
    by (auto simp: cmd_queue_frame_begin_def)
  have "?n < 16384"
    by (rule cq_length16 [OF assms(1)])
  then obtain r h where r: "ack_catch_up L param rate (cq_first q) f q ack = (r, h)" "cq_ok r"
      "cq_list r = drop (Suc j) (cq_list q)" "cq_first r = cq_first q + of_nat (min (Suc j) ?n)"
    using ack_catch_up_window [OF assms(1) j(1)] j by fastforce
  have "q' = r"
    using assms(2) False r(1)
    by (auto simp: snake_ack_frame_def cmd_queue_frame_begin_def split: if_splits option.splits prod.splits)
  moreover have "cmd_queue_frame_end r = cmd_queue_frame_end q"
    using r(2-4) assms(1) by (auto simp: frame_end_list min_def of_nat_diff)
  ultimately show ?thesis
    using r by blast
qed

lemma sendable_ack:
  assumes "sendable n f command q" "cq_ok q'" "cmd_queue_frame_end q' = cmd_queue_frame_end q"
    "cq_list q' = drop k (cq_list q)"
  shows "sendable n f command q'"
  using assms deltas_ok_drop [of "cq_list q" k] by (auto simp: sendable_def)

section \<open>The operations of the client\<close>

text \<open>A connected client has its snake, whose commands lead up to frame \<open>f\<close>.\<close>

definition own_queue :: "nat \<Rightarrow> 16 word \<Rightarrow> cmd \<Rightarrow> client \<times> world \<Rightarrow> bool" where
  "own_queue n f command st \<longleftrightarrow> (case st of (c, w) \<Rightarrow> cl_state c = CLIENT_CONNECTED \<longrightarrow>
     (\<exists>s. world_find w (cl_snake_id c) = Some s \<and> sendable n f command (sn_cmdq s)))"

lemma sendable_init: "sendable n f command cmd_queue_init"
  by (simp add: sendable_def cmd_queue_init_ok)

lemma join_accept_queue:
  assumes "client_ok E (c, w)" "own_queue n (cl_frame c) command (c, w)"
    and "client_join_accept E spawn i cf sf sim net (c, w) = Some (r, c', w')"
  shows "own_queue n (cl_frame c') command (c', w')"
proof (cases "cl_state c' = CLIENT_CONNECTED \<and> cl_state c = CLIENT_JOINING")
  case True
  obtain s where s: "snake_init (ce_junk E) spawn (cl_username c) = Some s"
    using snake_init_total by blast
  have "world_create_snake (ce_snakes E) (ce_junk E) w i spawn (cl_username c) = Some (True, w')" "cl_snake_id c' = i"
    using assms(3) True
    by (auto simp: client_join_accept_def client_disconnect_def Let_def split: if_splits option.splits prod.splits)
  moreover have "world_ok (ce_snakes E) w"
    using assms(1) by (simp add: client_ok_def)
  ultimately have "world_find w' i = Some s" "cl_snake_id c' = i"
    using world_create_spec [OF _ s, of "ce_snakes E" w i] by (auto split: if_splits)
  moreover have "sn_cmdq s = cmd_queue_init"
    using s by (auto simp: snake_init_def split: option.splits)
  ultimately show ?thesis
    by (simp add: own_queue_def sendable_init)
next
  case False
  then show ?thesis
    using assms(2,3)
    by (auto simp: client_join_accept_def client_disconnect_def own_queue_def Let_def split: if_splits option.splits prod.splits)
qed

lemma snake_head_queue:
  assumes "client_ok E (c, w)" "own_queue n f command (c, w)"
    and "client_snake_head E head frame (c, w) = Some (r, c', w')"
  shows "own_queue n f command (c', w') \<and> c' = c"
proof -
  obtain s where f: "world_find w (cl_snake_id c) = Some s"
    using assms(3) by (auto simp: client_snake_head_def split: option.splits)
  obtain data ack pred q where a: "snake_ack_frame (ce_libm E) (ce_junk E) (sn_data s) (sn_head_ack s) (sn_head s) head
      (sn_param s) (sn_cmdq s) frame (cl_sim_tick_rate c) = Some (data, ack, pred, q)"
    using assms(3) f by (cases "snake_ack_frame (ce_libm E) (ce_junk E) (sn_data s) (sn_head_ack s) (sn_head s) head
      (sn_param s) (sn_cmdq s) frame (cl_sim_tick_rate c)") (auto simp: client_snake_head_def)
  have s: "world_find w (cl_snake_id c) = Some s"
      "c' = c" "w' = world_store (cl_snake_id c) (s\<lparr>sn_data := data, sn_head_ack := ack, sn_head := pred, sn_cmdq := q\<rparr>) w"
    using assms(3) f a by (auto simp: client_snake_head_def)
  have "world_ok (ce_snakes E) w"
    using assms(1) by (simp add: client_ok_def)
  then have "world_find w' (cl_snake_id c) = Some (s\<lparr>sn_data := data, sn_head_ack := ack, sn_head := pred, sn_cmdq := q\<rparr>)"
    using world_store_spec(2) [of "ce_snakes E" w "cl_snake_id c"] s(1,3) by simp
  moreover have "sendable n f command q" if "sendable n f command (sn_cmdq s)"
    using snake_ack_queue [OF _ a] sendable_ack [OF that] that by (auto simp: sendable_def)
  ultimately show ?thesis
    using assms(2) s(1,2) by (simp add: own_queue_def)
qed

text \<open>
  The invariant of the client while the messages of a datagram are processed: \<open>result\<close> tells when
  its rates are no longer \<open>sim\<close> and \<open>net\<close>.
\<close>

definition in_step :: "client_env \<Rightarrow> nat \<Rightarrow> cmd \<Rightarrow> 8 word \<Rightarrow> 8 word \<Rightarrow> client_recv_result \<Rightarrow> client \<times> world \<Rightarrow> bool" where
  "in_step E n command sim net result st \<longleftrightarrow> client_ok E st \<and> own_queue n (cl_frame (fst st)) command st \<and>
     (cr_error result \<or> cr_tick_rate_changed result \<or>
       cl_sim_tick_rate (fst st) = sim \<and> cl_net_tick_rate (fst st) = net)"

lemma process_message_rates:
  assumes "client_process_message E t d len (c, w) = Some (r, c', w')"
  shows "cr_tick_rate_changed r \<or> cl_sim_tick_rate c' = cl_sim_tick_rate c \<and> cl_net_tick_rate c' = cl_net_tick_rate c"
  using assms
  by (auto simp: client_process_message_def client_join_accept_def client_snake_head_def client_disconnect_def
      client_recv_tick_rate_changed_def Let_def
      split: sum.splits option.splits parsed_payload.splits msg_type.splits if_splits prod.splits)

lemma process_message_queue:
  assumes "client_ok E (c, w)" "own_queue n (cl_frame c) command (c, w)"
    and "client_process_message E t d len (c, w) = Some (r, c', w')"
  shows "own_queue n (cl_frame c') command (c', w')"
proof -
  have other: "own_queue n (cl_frame c) command (c, w'')"
    if "world_create_snake (ce_snakes E) (ce_junk E) w i pos name = Some (created, w'')" "world_find w i = None"
    for i pos name created w''
  proof -
    obtain s where "snake_init (ce_junk E) pos name = Some s"
      using snake_init_total by blast
    then show ?thesis
      using world_create_spec [of "ce_snakes E" w "ce_junk E" pos name s i] assms(1,2) that
      by (auto simp: client_ok_def own_queue_def split: if_splits)
  qed
  have "own_queue n (cl_frame c) command (c\<lparr>cl_warp := x\<rparr>, w)" "own_queue n f command (client_disconnect c, w)" for x f
    using assms(2) by (simp_all add: own_queue_def client_disconnect_def)
  moreover have "own_queue n (cl_frame c') command (c', w')" if "client_snake_head E h f (c, w) = Some (r, c', w')" for h f
    using snake_head_queue [OF assms(1,2) that] by blast
  ultimately show ?thesis
    using assms(2,3) join_accept_queue [OF assms(1,2)] other
    by (auto simp: client_process_message_def
        split: sum.splits option.splits parsed_payload.splits msg_type.splits if_splits)
qed

lemma process_message_step:
  assumes "in_step E n command sim net result st" "client_process_message E t d len st = Some (r, st')"
  shows "in_step E n command sim net (client_recv_result_combine result r) st'"
  using assms client_process_message_ok process_message_queue process_message_rates
  by (cases st; cases st') (fastforce simp: in_step_def client_recv_result_combine_def)

lemma recv_step:
  assumes "in_step E n command sim net client_recv_ok (c, w)" "client_recv E receive (c, w) = Some (r, st')"
  shows "in_step E n command sim net r st'"
proof (rule client_recv_invariant [OF _ _ _ _ assms(2)])
  show "vecp_ok 8 (cl_sockets c)"
    using assms(1) by (simp add: in_step_def client_ok_def)
  show "in_step E n command sim net client_recv_ok (c\<lparr>cl_sockets := Some v, cl_timeout := x\<rparr>, w)" if "vec_ok 8 v" for v x
    using that assms(1) by (simp add: in_step_def client_ok_def own_queue_def)
  show "in_step E n command sim net client_recv_error st" if "in_step E n command sim net client_recv_ok st" for st
    using that by (simp add: in_step_def client_recv_error_def)
qed (rule process_message_step)

lemma sim_queue:
  assumes "client_ok E (c, w)" "own_queue n f command (c, w)" "cl_state c = CLIENT_CONNECTED" "f = cl_frame c" "n < 16383"
    and "cmd_delta_ok command new" "client_sim E new nu (c, w) = Some (c', w')"
  shows "own_queue (Suc n) (f + 1) new (c', w') \<and> cl_frame c' = cl_frame c \<and>
    cl_sim_tick_rate c' = cl_sim_tick_rate c \<and> cl_net_tick_rate c' = cl_net_tick_rate c"
proof -
  obtain s where s: "world_find w (cl_snake_id c) = Some s" "sendable n f command (sn_cmdq s)"
    using assms(2,3) by (auto simp: own_queue_def)
  have w: "world_ok (ce_snakes E) w"
    using assms(1) by (simp add: client_ok_def)
  have store: "world_find (world_store (cl_snake_id c) x w) (cl_snake_id c) = Some x" for x
    using world_store_spec(2) [OF w, of "cl_snake_id c"] s(1) by simp
  show ?thesis
    using assms(7) s store sendable_put [OF s(2) assms(5,6), of "j_cmd (ce_junk E)"] assms(4)
    by (auto simp: client_sim_def own_queue_def world_step_def Let_def split: option.splits if_splits prod.splits)
qed

lemma send_same:
  assumes "client_send_pending_data E send_ok c = Some (r, sent, c')"
  shows "cl_state c' = cl_state c \<and> cl_frame c' = cl_frame c \<and> cl_snake_id c' = cl_snake_id c \<and>
    cl_sim_tick_rate c' = cl_sim_tick_rate c \<and> cl_net_tick_rate c' = cl_net_tick_rate c"
  using assms by (auto simp: client_send_pending_data_def Let_def split: prod.splits if_splits option.splits)

section \<open>The main loop\<close>

definition interval_of :: "8 word \<Rightarrow> 64 word" where
  "interval_of rate = word_of_int (NSEC sdiv uint rate)"

text \<open>Both clocks run at the rates of the client, which are not 0.\<close>

definition clocks_ok :: "run_state \<Rightarrow> bool" where
  "clocks_ok s \<longleftrightarrow> cl_sim_tick_rate (rn_client s) \<noteq> 0 \<and> cl_net_tick_rate (rn_client s) \<noteq> 0 \<and>
     tk_interval (rn_sim_tick s) = interval_of (cl_sim_tick_rate (rn_client s)) \<and>
     tk_interval (rn_net_tick s) = interval_of (cl_net_tick_rate (rn_client s))"

text \<open>What holds whenever the loop begins, with at most \<open>n\<close> commands that are not acknowledged.\<close>

definition loop_ok :: "client_env \<Rightarrow> nat \<Rightarrow> run_state \<Rightarrow> bool" where
  "loop_ok E n s \<longleftrightarrow> clocks_ok s \<and> client_ok E (rn_client s, rn_world s) \<and>
     own_queue n (cl_frame (rn_client s)) (rn_cmd s) (rn_client s, rn_world s)"

definition own_commands :: "run_state \<Rightarrow> cmd list" where
  "own_commands s = (case world_find (rn_world s) (cl_snake_id (rn_client s)) of
     None \<Rightarrow> [] | Some snake \<Rightarrow> cq_list (sn_cmdq snake))"

lemma own_queue_length: "loop_ok E n s \<Longrightarrow> loop_ok E (length (own_commands s)) s"
  by (auto simp: loop_ok_def own_queue_def own_commands_def sendable_def)

lemma set_ticks_ok:
  assumes "run_set_ticks x y s = Some s'"
  shows "clocks_ok s' \<and> rn_client s' = rn_client s \<and> rn_world s' = rn_world s \<and> rn_cmd s' = rn_cmd s \<and> same_window s s'"
proof -
  have "uint (cl_sim_tick_rate (rn_client s)) \<noteq> 0" "uint (cl_net_tick_rate (rn_client s)) \<noteq> 0"
    using assms by (auto simp: run_set_ticks_def tick_cfg_def split: if_splits)
  then show ?thesis
    using assms by (auto simp: run_set_ticks_def tick_cfg_def clocks_ok_def interval_of_def same_window_def)
qed

lemma receive_loop:
  assumes "loop_ok E n s" "run_receive E fi nu s = Some (False, s')"
  shows "loop_ok E n s' \<and> rn_cmd s' = rn_cmd s"
proof (cases "nu \<and> cl_state (rn_client s) \<noteq> CLIENT_DISCONNECTED")
  case True
  obtain r c w where r: "client_recv E (fi_receive fi) (rn_client s, rn_world s) = Some (r, c, w)" "\<not> cr_error r"
      "if cr_tick_rate_changed r
       then run_set_ticks (fi_sim_cfg_now fi) (fi_net_cfg_now fi) (s\<lparr>rn_client := c, rn_world := w\<rparr>) = Some s'
       else s' = s\<lparr>rn_client := c, rn_world := w\<rparr>"
    using assms(2) True by (auto simp: run_receive_def Let_def split: option.splits if_splits)
  have "in_step E n (rn_cmd s) (cl_sim_tick_rate (rn_client s)) (cl_net_tick_rate (rn_client s)) client_recv_ok
      (rn_client s, rn_world s)"
    using assms(1) by (simp add: in_step_def loop_ok_def)
  from recv_step [OF this r(1)] show ?thesis
    using r(2,3) assms(1) set_ticks_ok [of "fi_sim_cfg_now fi" "fi_net_cfg_now fi" "s\<lparr>rn_client := c, rn_world := w\<rparr>" s']
    by (auto simp: in_step_def loop_ok_def clocks_ok_def split: if_splits)
next
  case False
  then show ?thesis
    using assms by (auto simp: run_receive_def)
qed

text \<open>After the step of the snake the queue ends one frame later, which waiting makes up for.\<close>

definition loop_moved :: "client_env \<Rightarrow> nat \<Rightarrow> run_state \<Rightarrow> bool" where
  "loop_moved E n s \<longleftrightarrow> clocks_ok s \<and> client_ok E (rn_client s, rn_world s) \<and>
     own_queue n (cl_frame (rn_client s) + 1) (rn_cmd s) (rn_client s, rn_world s)"

lemma sim_loop:
  assumes "loop_ok E n s" "n < 16383" "run_sim E fi nu s = Some s'"
  shows "loop_moved E (Suc n) s'"
proof (cases "cl_state (rn_client s) = CLIENT_CONNECTED")
  case False
  then show ?thesis
    using assms by (auto simp: run_sim_def loop_moved_def loop_ok_def own_queue_def)
next
  case True
  obtain head command c w camera where s:
      "gfx_sdl_input_to_command (ce_libm E) (fi_width fi) (fi_height fi) (rn_cmd s) (rn_input s) (rn_camera s) head = Some command"
      "client_sim E command nu (rn_client s, rn_world s) = Some (c, w)"
      "s' = s\<lparr>rn_client := c, rn_world := w, rn_cmd := command, rn_camera := camera\<rparr>"
    using assms(3) True by (auto simp: run_sim_def bind_eq_Some_conv split: option.splits)
  have ok: "client_ok E (rn_client s, rn_world s)" "clocks_ok s"
      "own_queue n (cl_frame (rn_client s)) (rn_cmd s) (rn_client s, rn_world s)"
    using assms(1) by (simp_all add: loop_ok_def)
  note q = sim_queue [OF ok(1,3) True refl assms(2) input_command_ok(1) [OF s(1)] s(2)]
  have "client_ok E (c, w)"
    by (rule client_sim_ok [OF ok(1) s(2)])
  with q ok(2) s(3) show ?thesis
    by (simp add: loop_moved_def clocks_ok_def)
qed

lemma send_loop:
  assumes "loop_moved E n s" "run_send E fi nu s = Some (stop, sent, s')"
  shows "loop_moved E n s' \<and> int (length sent) \<le> NET_MAX_UDP_PACKET_SIZE \<and> (sent \<noteq> [] \<longrightarrow> datagram_ok sent)"
proof (cases "nu \<and> cl_state (rn_client s) \<noteq> CLIENT_DISCONNECTED")
  case True
  obtain r c where c: "client_send_pending_data E (fi_send_ok fi) (rn_client s) = Some (r, sent, c)" "s' = s\<lparr>rn_client := c\<rparr>"
    using assms(2) True by (auto simp: run_send_def)
  have "client_ok E (rn_client s, rn_world s)"
    using assms(1) by (simp add: loop_moved_def)
  from client_send_keeps [OF this c(1)] show ?thesis
    using send_same [OF c(1)] assms(1) c(2) by (simp add: loop_moved_def clocks_ok_def own_queue_def)
next
  case False
  then show ?thesis
    using assms by (auto simp: run_send_def NET_MAX_UDP_PACKET_SIZE_def)
qed

lemma wait_loop:
  assumes "loop_moved E n s" "run_wait fi s = Some (False, s')"
  shows "loop_ok E n s'"
proof -
  define c where "c = client_warp_step (rn_client s)"
  obtain lag t where w: "tick_wait_warp (fi_wait_now fi) (fi_wait_slept fi) (fi_wait_clock fi) (cl_warp (rn_client s))
      (uint (cl_sim_tick_rate (rn_client s)) * 10) (rn_sim_tick s) = Some (lag, t)"
      "s' = s\<lparr>rn_sim_tick := t, rn_client := c\<lparr>cl_frame := cl_frame c + 1\<rparr>\<rparr>"
    using assms(2) by (auto simp: run_wait_def c_def Let_def split: option.splits if_splits)
  have t: "tk_interval t = tk_interval (rn_sim_tick s)"
    using w(1) by (auto simp: tick_wait_warp_def Let_def dest: tick_wait_for_last split: if_splits)
  have "cl_frame c = cl_frame (rn_client s)" "cl_state c = cl_state (rn_client s)" "cl_snake_id c = cl_snake_id (rn_client s)"
      "cl_sim_tick_rate c = cl_sim_tick_rate (rn_client s)" "cl_net_tick_rate c = cl_net_tick_rate (rn_client s)"
      "cl_pending c = cl_pending (rn_client s)" "cl_sockets c = cl_sockets (rn_client s)"
    by (simp_all add: c_def client_warp_step_def Let_def)
  then show ?thesis
    using assms(1) t w(2) by (simp add: loop_ok_def loop_moved_def clocks_ok_def client_ok_def own_queue_def)
qed

lemma update_loop:
  assumes "loop_ok E n s" "n < 16383" "run_update E fi s = Some (stop, sent, s')"
  shows "(\<not> stop \<longrightarrow> loop_ok E (Suc n) s') \<and> int (length sent) \<le> NET_MAX_UDP_PACKET_SIZE \<and>
    (sent \<noteq> [] \<longrightarrow> datagram_ok sent)"
  using assms(3)
proof (rule run_updateE)
  fix behind t stop1 s1
  assume u: "tick_advance (fi_net_now fi) (rn_net_tick s) = Some (behind, t)"
    "run_receive E fi (behind \<noteq> 0) (s\<lparr>rn_net_tick := t\<rparr>) = Some (stop1, s1)"
    "if stop1 then stop \<and> sent = [] \<and> s' = s1
     else \<exists>s2 stop3 s3. run_sim E fi (behind \<noteq> 0) s1 = Some s2 \<and> run_send E fi (behind \<noteq> 0) s2 = Some (stop3, sent, s3) \<and>
       (if stop3 then stop \<and> s' = s3 else run_wait fi s3 = Some (stop, s'))"
  have "tk_interval t = tk_interval (rn_net_tick s)"
    using u(1) by (auto simp: tick_advance_def Let_def split: if_splits)
  then have "loop_ok E n (s\<lparr>rn_net_tick := t\<rparr>)"
    using assms(1) by (simp add: loop_ok_def clocks_ok_def)
  then have 1: "loop_ok E n s1" if "\<not> stop1"
    using receive_loop [of E n "s\<lparr>rn_net_tick := t\<rparr>" fi "behind \<noteq> 0" s1] u(2) that by simp
  show ?thesis
  proof (cases stop1)
    case True
    then show ?thesis
      using u(3) by (simp add: NET_MAX_UDP_PACKET_SIZE_def)
  next
    case False
    then obtain s2 stop3 s3 where r: "run_sim E fi (behind \<noteq> 0) s1 = Some s2" "run_send E fi (behind \<noteq> 0) s2 = Some (stop3, sent, s3)"
        "if stop3 then stop \<and> s' = s3 else run_wait fi s3 = Some (stop, s')"
      using u(3) by auto
    note 3 = send_loop [OF sim_loop [OF 1 [OF False] assms(2) r(1)] r(2)]
    have "loop_ok E (Suc n) s'" if "\<not> stop"
      using r(3) that wait_loop [of E "Suc n" s3 fi s'] 3 by (auto split: if_splits)
    then show ?thesis
      using 3 by blast
  qed
qed

text \<open>Switching the backend touches the window and the input only.\<close>

definition same_game :: "run_state \<Rightarrow> run_state \<Rightarrow> bool" where
  "same_game s s' \<longleftrightarrow> rn_client s' = rn_client s \<and> rn_world s' = rn_world s \<and> rn_cmd s' = rn_cmd s \<and>
     rn_sim_tick s' = rn_sim_tick s \<and> rn_net_tick s' = rn_net_tick s"

lemma restore_same: "run_restore ok idx s = (stop, s') \<Longrightarrow> same_game s s'"
  by (auto simp: run_restore_def run_gfx_defs same_game_def Let_def split: if_splits)

lemma switch_same:
  assumes "run_switch nb ok fi s = Some (stop, s')"
  shows "same_game s s'"
  using assms
  by (auto simp: run_switch_def run_gfx_defs same_game_def Let_def split: if_splits gfx_pointer.splits
      dest!: restore_same)

lemma frame_loop:
  assumes "loop_ok E n s" "n < 16383" "run_frame E nb ok fi s = Some (stop, sent, s')"
  shows "(\<not> stop \<longrightarrow> loop_ok E (Suc n) s') \<and> (sent = [] \<or> datagram_ok sent)"
proof -
  let ?s = "s\<lparr>rn_input := fi_poll fi (rn_input s)\<rparr>"
  have update: "(\<not> stop \<longrightarrow> loop_ok E (Suc n) s') \<and> (sent = [] \<or> datagram_ok sent)"
    if "same_game s r" "run_update E fi r = Some (stop, sent, s')" for r
  proof -
    have "loop_ok E n r"
      using assms(1) that(1) by (simp add: loop_ok_def clocks_ok_def same_game_def)
    from update_loop [OF this assms(2) that(2)] show ?thesis
      by blast
  qed
  show ?thesis
  proof (cases "in_quit (rn_input ?s) \<or> \<not> (in_next_gfx_backend (rn_input ?s) \<or> in_prev_gfx_backend (rn_input ?s))")
    case True
    then show ?thesis
      using assms(3) update [of ?s] by (auto simp: run_frame_def same_game_def Let_def split: if_splits)
  next
    case False
    then obtain stop' r where r: "run_switch nb ok fi ?s = Some (stop', r)"
        "(if stop' then Some (True, [], r) else run_update E fi r) = Some (stop, sent, s')"
      using assms(3) by (auto simp: run_frame_def Let_def split: option.splits)
    have "same_game s r"
      using switch_same [OF r(1)] by (simp add: same_game_def)
    then show ?thesis
      using r(2) update [of r] by (auto split: if_splits)
  qed
qed

section \<open>The loop from the start of the program\<close>

text \<open>
  The states in which the loop begins a round: after connecting and opening the window, and after
  every round that does not leave it, while the ring of commands is not full.
\<close>

inductive run_reaches :: "client_env \<Rightarrow> nat \<Rightarrow> (gfx_call list \<Rightarrow> bool) \<Rightarrow> run_state \<Rightarrow> bool" for E nb ok where
  start: "run_start E connect_to thread_ok ok pack sim_now net_now a = Some (True, s) \<Longrightarrow>
    vecp_ok 8 (cl_sockets (rn_client s)) \<Longrightarrow> run_reaches E nb ok s"
| frame: "run_reaches E nb ok s \<Longrightarrow> length (own_commands s) < 16383 \<Longrightarrow>
    run_frame E nb ok fi s = Some (False, sent, s') \<Longrightarrow> run_reaches E nb ok s'"

lemma open_same:
  assumes "run_open ok pack s = Some (True, s')"
  shows "same_game s s'"
  using assms by (auto simp: run_open_def run_gfx_defs same_game_def Let_def split: if_splits option.splits)

lemma client_connect_joins:
  "client_connect E connect_to c a port name = Some (r, c') \<Longrightarrow> \<not> r < 0 \<Longrightarrow> cl_state c' = CLIENT_JOINING"
  by (auto simp: client_connect_def Let_def split: prod.splits if_splits option.splits)

lemma start_loop:
  assumes "run_start E connect_to thread_ok ok pack sim_now net_now a = Some (True, s)"
    and "vecp_ok 8 (cl_sockets (rn_client s))" "world_ok (ce_snakes E) world_init"
  shows "window_open ok s \<and> loop_ok E 0 s"
proof -
  obtain r c s1 where c: "run_connect E connect_to thread_ok a = Some (r, c)" "\<not> r < 0"
      "run_open ok pack (run_begin a c) = Some (True, s1)" "run_set_ticks sim_now net_now s1 = Some s"
    using assms(1) by (auto simp: run_start_def split: option.splits if_splits)
  note t = set_ticks_ok [OF c(4)]
  have same: "rn_client s = c" "rn_world s = world_init" "rn_cmd s = cmd_default"
    using open_same [OF c(3)] t by (simp_all add: same_game_def run_begin_def)
  have "client_ok E (client_init, world_init)"
    using assms(3) by (simp add: client_ok_def client_init_def vec_init_def)
  moreover obtain port where p: "client_connect E connect_to client_init (ar_ip a) port (bytes ''username'') = Some (r, c)"
    using c(1,2) by (auto simp: run_connect_def split: if_splits)
  ultimately have "client_ok E (c, world_init)" "cl_state c = CLIENT_JOINING"
    using client_connect_keeps [of E client_init world_init connect_to "ar_ip a" port "bytes ''username''" r c] assms(2) same(1)
      client_connect_joins [OF p c(2)]
    by (simp_all add: client_init_def)
  moreover have "window_open ok s1"
    using run_open_window [OF _ c(3)] by (simp add: run_begin_def)
  ultimately show ?thesis
    using t same window_open_same [of ok s1 s] by (simp add: loop_ok_def own_queue_def)
qed

lemma reaches_loop:
  assumes "run_reaches E nb ok s" "world_ok (ce_snakes E) world_init"
  shows "window_open ok s \<and> (\<exists>n. loop_ok E n s)"
  using assms
proof induction
  case (start connect_to thread_ok pack sim_now net_now a s)
  then show ?case
    using start_loop by blast
next
  case (frame s fi sent s')
  then obtain n where n: "window_open ok s" "loop_ok E (length (own_commands s)) s"
    using own_queue_length by blast
  show ?case
    using run_frame_window [OF n(1) frame.hyps(3)] frame_loop [OF n(2) frame.hyps(2,3)] by blast
qed

text \<open>
  Claim C6. Whenever the main loop of the client begins a round: a window is open; both clocks run
  at the tick rates of the server, which are not 0; a client that is connected has its snake, and
  the commands of it that the server has not acknowledged are those of consecutive frames up to
  the current one, the newest the last command made, each close enough to the one before to be
  sent as a difference. What the round sends is a datagram of whole messages.

  The rounds are those from the start of the program on, with any input of the player, any
  datagrams, and any answers of the sockets, clocks and backends, as long as no round has crashed
  or left the loop and each began with fewer than 16383 commands that the server has not
  acknowledged, which is what the ring of commands holds; the map of snakes is one whose empty
  instance is in order, and allocations of the snakes succeed, as everywhere in their model.
\<close>

theorem main_loop_safe:
  assumes "run_reaches E nb ok s" "world_ok (ce_snakes E) world_init"
  shows "window_open ok s \<and> clocks_ok s \<and>
    (cl_state (rn_client s) = CLIENT_CONNECTED \<longrightarrow>
      (\<exists>snake. world_find (rn_world s) (cl_snake_id (rn_client s)) = Some snake \<and>
        (let q = sn_cmdq snake; commands = cq_list q
         in cq_ok q \<and> (commands \<noteq> [] \<longrightarrow> cq_first q + of_nat (length commands) = cl_frame (rn_client s) \<and>
              last commands = rn_cmd s \<and> deltas_ok (hd commands) (tl commands))))) \<and>
    (\<forall>fi stop sent s'. length (own_commands s) < 16383 \<and> run_frame E nb ok fi s = Some (stop, sent, s') \<longrightarrow>
       sent = [] \<or> datagram_ok sent)"
proof -
  obtain n where n: "window_open ok s" "loop_ok E n s"
    using reaches_loop [OF assms] by blast
  then have "sent = [] \<or> datagram_ok sent"
    if "length (own_commands s) < 16383" "run_frame E nb ok fi s = Some (stop, sent, s')" for fi stop sent s'
    using frame_loop [OF own_queue_length that] by blast
  moreover have "clocks_ok s" "own_queue n (cl_frame (rn_client s)) (rn_cmd s) (rn_client s, rn_world s)"
    using n(2) by (simp_all add: loop_ok_def)
  ultimately show ?thesis
    using n(1) frame_end_list by (auto simp: own_queue_def sendable_def Let_def)
qed

text \<open>
  The first round of the main loop, two network updates after the start and without an answer
  from the server: the request to join is sent.
\<close>

definition demo_round :: frame_input where
  "demo_round = demo_frame\<lparr>fi_net_now := 100000000\<rparr>"

lemma demo_round_sends:
  assumes "pending_ok (cl_pending (rn_client s))" "vecp_list (cl_pending (rn_client s)) = [m]"
    and "msg_join_request u 0 0 name = Some m" "cl_frame (rn_client s) = 0" "cl_state (rn_client s) = CLIENT_JOINING"
    and "cl_sockets (rn_client s) = demo_sockets" "cl_timeout (rn_client s) = 0" "cl_warp (rn_client s) = 0"
    and "cl_sim_tick_rate (rn_client s) = 60" "cl_net_tick_rate (rn_client s) = 20" "rn_input s = input_init"
    and "rn_net_tick s = \<lparr>tk_interval = 50000000, tk_last = 0\<rparr>" "rn_sim_tick s = \<lparr>tk_interval = 16666666, tk_last = 0\<rparr>"
  shows "\<exists>s'. run_frame E nb ok demo_round s = Some (False, msg_frame m, s') \<and> cl_frame (rn_client s') = 1 \<and>
    own_commands s' = own_commands s"
proof -
  let ?c = "rn_client s"
  obtain v where v: "cl_sockets ?c = Some v" "vec_ok 8 v" "vec_list v = [3]"
    using demo_sockets_list assms(6) by auto
  then have "0 < vec_cnt v"
    using length_vec_list [OF v(2)] by simp
  moreover have same: "?c\<lparr>cl_sockets := Some v\<rparr> = ?c"
    using v(1) by (cases "rn_client s") simp
  ultimately have recv: "client_recv E (fi_receive demo_round) (?c, rn_world s) = Some (client_recv_ok, ?c, rn_world s)"
    using v(1) by (simp add: client_recv_def try_sockets.simps demo_round_def demo_frame_def Let_def)
  have m: "msg_join_request u 0 (cl_frame ?c) name = Some m"
    using assms(3,4) by simp
  obtain p v' where send: "client_send_pending_data E (fi_send_ok demo_round) ?c = Some (0, msg_frame m,
      ?c\<lparr>cl_pending := p, cl_sockets := Some v', cl_timeout := cl_timeout ?c + 1\<rparr>)"
    using client_sends_request [where s = 3, OF assms(1,2) m v(1,2) _ _ _ _ m, of "fi_send_ok demo_round"] v(3) assms(7,10)
    by (fastforce simp: demo_round_def demo_frame_def)
  have late: "tick_advance 100000000 \<lparr>tk_interval = 50000000, tk_last = 0\<rparr> = Some (1, \<lparr>tk_interval = 50000000, tk_last = 50000000\<rparr>)"
      "tick_wait_warp 0 True [] 0 600 \<lparr>tk_interval = 16666666, tk_last = 0\<rparr> = Some (0, \<lparr>tk_interval = 16666666, tk_last = 16666666\<rparr>)"
    by code_simp+
  have fi: "fi_net_now demo_round = 100000000" "fi_wait_now demo_round = 0" "fi_wait_slept demo_round" "fi_wait_clock demo_round = []"
      "fi_poll demo_round (rn_input s) = input_init"
    using assms(11) by (simp_all add: demo_round_def demo_frame_def)
  have no: "\<not> in_quit input_init" "\<not> in_next_gfx_backend input_init" "\<not> in_prev_gfx_backend input_init"
    by (simp_all add: input_init_def)
  have ok: "\<not> cr_error client_recv_ok" "\<not> cr_tick_rate_changed client_recv_ok"
    by (simp_all add: client_recv_ok_def)
  show ?thesis
    using recv send late ok no assms(4,5,8,9,12,13)
    by (simp add: run_frame_def run_update_def run_receive_def run_sim_def run_send_def run_wait_def fi Let_def
        client_warp_step_def own_commands_def)
qed

theorem main_loop_safe_witness:
  "\<exists>m s s'. msg_join_request (\<lambda>_. 0) 0 0 (bytes ''username'') = Some m \<and>
     run_reaches demo_client_env 2 (\<lambda>_. True) s \<and> window_open (\<lambda>_. True) s \<and>
     run_frame demo_client_env 2 (\<lambda>_. True) demo_round s = Some (False, msg_frame m, s') \<and> datagram_ok (msg_frame m) \<and>
     run_reaches demo_client_env 2 (\<lambda>_. True) s' \<and> cl_frame (rn_client s') = 1 \<and> window_open (\<lambda>_. True) s' \<and> clocks_ok s'"
proof -
  have env: "ce_byte demo_client_env = (\<lambda>_. 0)" "ce_msg demo_client_env = (\<lambda>_. demo_msg)"
    by (simp_all add: demo_client_env_def)
  obtain m where m: "msg_join_request (\<lambda>_. 0) 0 0 (bytes ''username'') = Some m"
    using msg_join_request_parse [of "bytes ''username''" "\<lambda>_. 0" 0 0] by (auto simp: bytes_def)
  have fresh: "pending_ok None" "vecp_list (None :: msg vec option) = []"
    by (simp_all add: pending_ok_def)
  obtain c where c: "client_connect demo_client_env (\<lambda>_ _ _. (0, demo_sockets)) client_init [] [] (bytes ''username'') = Some (0, c)"
      "cl_sim_tick_rate c = 60" "cl_net_tick_rate c = 20" "cl_sockets c = demo_sockets" "cl_frame c = 0" "cl_warp c = 0"
      "cl_timeout c = 0" "cl_state c = CLIENT_JOINING" "cl_pending c = snd (vec_push 16 True (\<lambda>_. demo_msg) None m)"
    using m by (simp add: client_connect_def client_init_def client_queue_def vec_init_def Let_def env)
  have queue: "pending_ok (cl_pending c)" "vecp_list (cl_pending c) = [m]"
    using pending_push [OF fresh(1) msg_wf_join_request [OF m], of "\<lambda>_. demo_msg"] vec_push_list [of None "\<lambda>_. demo_msg" m] fresh
    unfolding c(9) by (auto simp: pending_ok_def)
  obtain pack where p: "resource_pack_parse demo_pack_junk (\<lambda>_. Some demo_pack_file) [112] = Some (Some pack)"
    using demo_pack_parses by auto
  have a: "ar_mcd_latency args_defaults = 0" "ar_ip args_defaults = []" "ar_port args_defaults = []" "ar_gfx_backend args_defaults = 0"
    by (simp_all add: args_defaults_def)
  have rates: "word_of_int (NSEC sdiv 20) = (50000000 :: 64 word)" "word_of_int (NSEC sdiv 60) = (16666666 :: 64 word)"
    by code_simp+
  obtain s where s: "run_start demo_client_env (\<lambda>_ _ _. (0, demo_sockets)) True (\<lambda>_. True)
      (resource_pack_parse demo_pack_junk (\<lambda>_. Some demo_pack_file) [112]) 0 0 args_defaults = Some (True, s)"
      "rn_client s = c" "rn_input s = input_init" "rn_world s = world_init"
      "rn_net_tick s = \<lparr>tk_interval = 50000000, tk_last = 0\<rparr>" "rn_sim_tick s = \<lparr>tk_interval = 16666666, tk_last = 0\<rparr>"
    using c(1-3) p rates by (simp add: run_start_def run_connect_def run_open_def run_gfx_defs run_begin_def run_set_ticks_def tick_cfg_def a)
  then have start: "run_reaches demo_client_env 2 (\<lambda>_. True) s"
    using run_reaches.start [OF s(1)] c(4) demo_sockets_ok(1) by simp
  obtain s' where s': "run_frame demo_client_env 2 (\<lambda>_. True) demo_round s = Some (False, msg_frame m, s')"
      "cl_frame (rn_client s') = 1"
    using demo_round_sends [of s m] queue m c s by blast
  have few: "length (own_commands s) < 16383"
    using demo_next_id by (simp add: own_commands_def s(2,4))
  have w: "world_ok (ce_snakes demo_client_env) world_init"
    using demo_connecting_ok by (simp add: client_ok_def)
  have "run_reaches demo_client_env 2 (\<lambda>_. True) s'"
    by (rule run_reaches.frame [OF start few s'(1)])
  moreover have "msg_frame m \<noteq> []"
    by (simp add: msg_frame_def)
  ultimately show ?thesis
    using main_loop_safe [OF start w] main_loop_safe [OF _ w, of 2 "\<lambda>_. True" s'] start few s' m by blast
qed

end
