(* ===== verification/Sockets.thy ===== *)
theory Sockets
  imports Vec
begin

text \<open>
  The sockets of the POSIX variant (src/net_posix.c). The state is the set of the descriptors
  that are open. Of the operating system the code sees the result of \<open>getaddrinfo\<close> with the list
  of the candidates, and for each candidate what the calls for it return; \<open>socket\<close> depends on what
  is open. The texts of addresses and errors are not modelled.
\<close>

section \<open>Opening\<close>

text \<open>\<open>so_use\<close> is the result of \<open>bind\<close> or \<open>connect\<close>, and a descriptor of -1 is a failure.\<close>

record addrinfo =
  so_socket :: "int set \<Rightarrow> int"
  so_getfl :: int
  so_setfl :: int
  so_use :: int

definition set_nonblocking :: "addrinfo \<Rightarrow> int" where
  "set_nonblocking p = (if so_getfl p = -1 then -1 else if so_setfl p < 0 then -1 else 0)"

text \<open>What becomes of one candidate: the descriptor that is ready, if there is one, and what is open.\<close>

definition net_candidate :: "addrinfo \<Rightarrow> int set \<Rightarrow> int option \<times> int set" where
  "net_candidate p fds =
     (let sockfd = so_socket p fds
      in if sockfd = -1 then (None, fds)
         else
           let fds = insert sockfd fds
           in if set_nonblocking p < 0 then (None, fds - {sockfd})
              else if so_use p \<noteq> 0 then (None, fds - {sockfd})
              else (Some sockfd, fds))"

fun bind_candidates :: "addrinfo list \<Rightarrow> int set \<Rightarrow> int option \<times> int set" where
  "bind_candidates [] fds = (None, fds)"
| "bind_candidates (p # ps) fds =
     (case net_candidate p fds of
        (Some sockfd, fds) \<Rightarrow> (Some sockfd, fds)
      | (None, fds) \<Rightarrow> bind_candidates ps fds)"

text \<open>An empty address is passed on as \<open>NULL\<close>, with the flag \<open>AI_PASSIVE\<close>.\<close>

definition net_bind ::
  "(8 word list option \<Rightarrow> 8 word list \<Rightarrow> int \<times> addrinfo list) \<Rightarrow> 8 word list \<Rightarrow> 8 word list \<Rightarrow> int set \<Rightarrow> int \<times> int set" where
  "net_bind getaddrinfo bind_address port fds =
     (case getaddrinfo (if bind_address \<noteq> [] then Some bind_address else None) port of (ret, candidates) \<Rightarrow>
        if ret \<noteq> 0 then (-1, fds)
        else (case bind_candidates candidates fds of
            (None, fds) \<Rightarrow> (-1, fds)
          | (Some sockfd, fds) \<Rightarrow> (sockfd, fds)))"

text \<open>A client connects a socket for every candidate that it can; a push that fails is not noticed.\<close>

fun connect_candidates ::
  "bool \<Rightarrow> (nat \<Rightarrow> int) \<Rightarrow> addrinfo list \<Rightarrow> int vec option \<times> int set \<Rightarrow> int vec option \<times> int set" where
  "connect_candidates ok u [] (socks, fds) = (socks, fds)"
| "connect_candidates ok u (p # ps) (socks, fds) =
     (case net_candidate p fds of
        (Some sockfd, fds) \<Rightarrow> connect_candidates ok u ps (snd (vec_push 8 ok u socks sockfd), fds)
      | (None, fds) \<Rightarrow> connect_candidates ok u ps (socks, fds))"

definition net_connect ::
  "(8 word list \<Rightarrow> 8 word list \<Rightarrow> int \<times> addrinfo list) \<Rightarrow> bool \<Rightarrow> (nat \<Rightarrow> int) \<Rightarrow> int vec option \<Rightarrow>
   8 word list \<Rightarrow> 8 word list \<Rightarrow> int set \<Rightarrow> int \<times> int vec option \<times> int set" where
  "net_connect getaddrinfo ok u socks server_address port fds =
     (case getaddrinfo server_address port of (ret, candidates) \<Rightarrow>
        if ret \<noteq> 0 then (-1, socks, fds)
        else (case connect_candidates ok u candidates (socks, fds) of (socks, fds) \<Rightarrow>
          (if vec_count socks = 0 then -1 else 0, socks, fds)))"

section \<open>Using and closing\<close>

definition net_close :: "int \<Rightarrow> int set \<Rightarrow> int set" where
  "net_close sockfd fds = fds - {sockfd}"

text \<open>
  Sending hands on what the system returns. Receiving makes 0 of having to wait, which is also the
  length of an empty datagram.
\<close>

definition net_sendto :: "int \<Rightarrow> int" where
  "net_sendto sent = sent"

definition net_send :: "int \<Rightarrow> int" where
  "net_send sent = sent"

definition net_recv :: "int \<Rightarrow> bool \<Rightarrow> int" where
  "net_recv bytes_received eagain =
     (if bytes_received < 0 then if eagain then 0 else -1 else bytes_received)"

definition net_recvfrom :: "int \<Rightarrow> bool \<Rightarrow> 32 word \<Rightarrow> int \<times> int" where
  "net_recvfrom bytes_received eagain addrlen_received =
     (if bytes_received < 0 then if eagain then 0 else -1 else bytes_received, i32 (uint addrlen_received))"

section \<open>Who owns a descriptor\<close>

text \<open>A call of \<open>socket\<close> fails or returns a number that is not open.\<close>

definition fresh_sockets :: "addrinfo list \<Rightarrow> bool" where
  "fresh_sockets ps \<longleftrightarrow> (\<forall>p \<in> set ps. \<forall>fds. so_socket p fds = - 1 \<or> 0 \<le> so_socket p fds \<and> so_socket p fds \<notin> fds)"

lemma net_candidate_owns:
  assumes "fresh_sockets (p # ps)" "net_candidate p fds = (r, fds')"
  shows "case r of None \<Rightarrow> fds' = fds | Some sockfd \<Rightarrow> 0 \<le> sockfd \<and> sockfd \<notin> fds \<and> fds' = insert sockfd fds"
proof -
  have "so_socket p fds = - 1 \<or> 0 \<le> so_socket p fds \<and> so_socket p fds \<notin> fds"
    using assms(1) by (simp_all add: fresh_sockets_def)
  then show ?thesis
    using assms(2) by (auto simp: net_candidate_def Let_def split: if_splits)
qed

lemma bind_candidates_owns:
  "fresh_sockets ps \<Longrightarrow> bind_candidates ps fds = (r, fds') \<Longrightarrow>
    case r of None \<Rightarrow> fds' = fds | Some sockfd \<Rightarrow> 0 \<le> sockfd \<and> sockfd \<notin> fds \<and> fds' = insert sockfd fds"
proof (induction ps arbitrary: fds)
  case (Cons p ps)
  obtain q fds1 where c: "net_candidate p fds = (q, fds1)"
    by fastforce
  have "fresh_sockets ps"
    using Cons.prems(1) by (simp add: fresh_sockets_def)
  then show ?case
    using net_candidate_owns [OF Cons.prems(1) c] Cons.prems(2) c Cons.IH [of fds1] by (cases q) auto
qed simp

text \<open>The ring of 64 entries is the largest that an index of 8 bits allows.\<close>

lemma vec_grows_8:
  assumes "vecp_ok 8 p" "length (vecp_list p) < 64"
  shows "vec_can_grow 8 True p"
proof (cases p)
  case (Some v)
  then have "vec_cnt v < 64"
    using assms length_vec_list [of 8 v] by simp
  then show ?thesis
    using Some by (auto simp: vec_can_grow_def)
qed (simp add: vec_can_grow_def)

lemma connect_candidates_owns:
  assumes "fresh_sockets ps" "vecp_ok 8 socks" "length (vecp_list socks) + length ps \<le> 64"
    and "set (vecp_list socks) \<subseteq> fds" "connect_candidates True u ps (socks, fds) = (socks', fds')"
  shows "vecp_ok 8 socks' \<and> (\<exists>new. vecp_list socks' = vecp_list socks @ new \<and> distinct new \<and>
    (\<forall>s \<in> set new. 0 \<le> s) \<and> set new \<inter> fds = {} \<and> fds' = fds \<union> set new)"
  using assms
proof (induction ps arbitrary: socks fds)
  case (Cons p ps)
  obtain q fds1 where c: "net_candidate p fds = (q, fds1)"
    by fastforce
  have fr: "fresh_sockets ps"
    using Cons.prems(1) by (simp add: fresh_sockets_def)
  show ?case
  proof (cases q)
    case None
    then show ?thesis
      using net_candidate_owns [OF Cons.prems(1) c] Cons.prems c Cons.IH [OF fr, of socks fds] by simp
  next
    case (Some sockfd)
    have s: "0 \<le> sockfd" "sockfd \<notin> fds" "fds1 = insert sockfd fds"
      using net_candidate_owns [OF Cons.prems(1) c] Some by simp_all
    have "vec_can_grow 8 True socks"
      using Cons.prems(2,3) by (intro vec_grows_8) simp_all
    then obtain socks1 where p: "vec_push 8 True u socks sockfd = (0, socks1)" "vecp_ok 8 socks1"
        "vecp_list socks1 = vecp_list socks @ [sockfd]"
      using vec_push_room [OF Cons.prems(2), of True u sockfd] by auto
    obtain new where new: "vecp_ok 8 socks'" "vecp_list socks' = vecp_list socks1 @ new" "distinct new"
        "\<forall>s \<in> set new. 0 \<le> s" "set new \<inter> fds1 = {}" "fds' = fds1 \<union> set new"
      using Cons.IH [OF fr p(2), of fds1] Cons.prems(3-5) p s c Some by auto
    then show ?thesis
      using p(3) s by (auto intro!: exI [of _ "sockfd # new"])
  qed
qed simp

text \<open>
  Claim C38. No descriptor is lost. Whatever the calls of the system return, binding leaves open what
  was open before and, when it succeeds, the one new socket that it returns; connecting to at
  most 64 candidates leaves open what was open before and exactly the sockets that it hands over,
  each once, so that closing these restores the state; and it succeeds when there is one at least.
\<close>

theorem sockets_owned:
  assumes "\<And>a. fresh_sockets (snd (getaddrinfo a port))" "length (snd (getaddrinfo (Some a) port)) \<le> 64"
  shows "(case net_bind getaddrinfo b port fds of (sockfd, fds') \<Rightarrow>
      if sockfd < 0 then fds' = fds else sockfd \<notin> fds \<and> fds' = insert sockfd fds \<and> net_close sockfd fds' = fds) \<and>
    (case net_connect (\<lambda>a. getaddrinfo (Some a)) True u vec_init a port fds of (r, socks, fds') \<Rightarrow>
      vecp_ok 8 socks \<and> (r = 0 \<longleftrightarrow> vecp_list socks \<noteq> []) \<and> (r = 0 \<or> r = -1 \<and> fds' = fds) \<and>
      distinct (vecp_list socks) \<and> set (vecp_list socks) \<inter> fds = {} \<and> fds' = fds \<union> set (vecp_list socks) \<and>
      foldr net_close (vecp_list socks) fds' = fds)"
proof -
  have close: "foldr net_close ss X = X - set ss" for ss X
    by (induction ss) (auto simp: net_close_def)
  have "case net_bind getaddrinfo b port fds of (sockfd, fds') \<Rightarrow>
      if sockfd < 0 then fds' = fds else sockfd \<notin> fds \<and> fds' = insert sockfd fds \<and> net_close sockfd fds' = fds"
  proof -
    obtain ret ps where g: "getaddrinfo (if b \<noteq> [] then Some b else None) port = (ret, ps)"
      by fastforce
    then have "fresh_sockets ps"
      using assms(1) by (metis snd_conv)
    moreover obtain r fds' where c: "bind_candidates ps fds = (r, fds')"
      by fastforce
    ultimately show ?thesis
      using g bind_candidates_owns [OF _ c] by (auto simp: net_bind_def net_close_def split: option.splits)
  qed
  moreover have "case net_connect (\<lambda>a. getaddrinfo (Some a)) True u vec_init a port fds of (r, socks, fds') \<Rightarrow>
      vecp_ok 8 socks \<and> (r = 0 \<longleftrightarrow> vecp_list socks \<noteq> []) \<and> (r = 0 \<or> r = -1 \<and> fds' = fds) \<and>
      distinct (vecp_list socks) \<and> set (vecp_list socks) \<inter> fds = {} \<and> fds' = fds \<union> set (vecp_list socks) \<and>
      foldr net_close (vecp_list socks) fds' = fds"
  proof -
    obtain ret ps where g: "getaddrinfo (Some a) port = (ret, ps)"
      by fastforce
    then have ps: "fresh_sockets ps" "length ps \<le> 64"
      using assms(1) [of "Some a"] assms(2) by simp_all
    obtain socks fds' where c: "connect_candidates True u ps (vec_init, fds) = (socks, fds')"
      by fastforce
    note o = connect_candidates_owns [OF ps(1) _ _ _ c]
    have "vecp_ok 8 socks" "distinct (vecp_list socks)" "set (vecp_list socks) \<inter> fds = {}" "fds' = fds \<union> set (vecp_list socks)"
      using o ps(2) by (auto simp: vec_init_def)
    then show ?thesis
      using g c vecp_count_list [of 8 socks] by (auto simp: net_connect_def close vec_init_def)
  qed
  ultimately show ?thesis
    by blast
qed

text \<open>A system with two descriptors to give out; the first of two candidates cannot be used.\<close>

definition demo_addrinfo :: "int \<Rightarrow> addrinfo" where
  "demo_addrinfo r = \<lparr>so_socket = (\<lambda>fds. if 3 \<notin> fds then 3 else if 4 \<notin> fds then 4 else -1),
     so_getfl = 0, so_setfl = 0, so_use = r\<rparr>"

theorem sockets_owned_witness:
  "case net_connect (\<lambda>_ _. (0, [demo_addrinfo 1, demo_addrinfo 0, demo_addrinfo 0])) True (\<lambda>_. 0) vec_init [] [] {0} of
    (r, socks, fds') \<Rightarrow> (r = 0 \<longleftrightarrow> vecp_list socks \<noteq> []) \<and> fds' = {0} \<union> set (vecp_list socks) \<and>
      foldr net_close (vecp_list socks) fds' = {0}"
proof -
  have "fresh_sockets [demo_addrinfo 1, demo_addrinfo 0, demo_addrinfo 0]"
    by (simp add: fresh_sockets_def demo_addrinfo_def)
  then show ?thesis
    using sockets_owned [where getaddrinfo = "\<lambda>_ _. (0, [demo_addrinfo 1, demo_addrinfo 0, demo_addrinfo 0])" and port = "[]"
        and a = "[]" and b = "[]" and fds = "{0}" and u = "\<lambda>_. 0"]
    by (simp split: prod.splits)
qed

end
