(* ===== verification/ServerRun.thy ===== *)
theory ServerRun
  imports ServerInstance Settings Tick Args
begin

text \<open>
  The server as a program: the thread of an instance around its main loop
  (\<open>server_instance_run\<close> of src/server_instance.c, include/clither/server_instance.h), and
  \<open>server_run\<close> of src/server.c, which loads the settings, starts the one instance there is,
  waits for its thread and saves the settings. Binding the socket is the argument \<open>bind_ok\<close>,
  what a round gets from the clock and the network is its input. \<open>None\<close> is a crash. The prefix
  and the colours of the log are modelled as far as they can crash.
\<close>

section \<open>The thread of an instance\<close>

record server_instance =
  in_settings :: server_settings
  in_ip :: "8 word list"
  in_port :: "8 word list"

record 'a round_input =
  ri_net_now :: "64 word"
  ri_code :: int
  ri_arrived :: "('a \<times> 8 word list) list"
  ri_wait_now :: "64 word"
  ri_wait_slept :: bool
  ri_wait_clock :: "64 word list"

text \<open>
  The rounds of the loop until it stops or the program is interrupted. Datagrams that were not
  read stay in the socket.
\<close>

fun instance_loop ::
  "libm \<Rightarrow> 'a server_env \<Rightarrow> server_settings \<Rightarrow> 'a round_input list \<Rightarrow> ('a \<times> 8 word list) list \<Rightarrow> tick \<Rightarrow> tick \<Rightarrow>
   'a instance_state \<Rightarrow> 'a instance_state option" where
  "instance_loop L E S [] inbox sim net s = Some s"
| "instance_loop L E S (ri # ris) inbox sim net s =
     (case tick_advance (ri_net_now ri) net of None \<Rightarrow> None
      | Some (net_update, net) \<Rightarrow>
          (case server_frame L E S (net_update \<noteq> 0) (ri_code ri) (inbox @ ri_arrived ri) s of None \<Rightarrow> None
           | Some (stop, inbox, s) \<Rightarrow>
               if stop then Some s
               else (case tick_wait (ri_wait_now ri) (ri_wait_slept ri) (ri_wait_clock ri) sim of None \<Rightarrow> None
                 | Some (tick_lag, sim) \<Rightarrow> instance_loop L E S ris inbox sim net s)))"

text \<open>
  The prefix of the log has room for a port of six characters, and its colour is taken from a
  table by the remainder of the port, which is negative for a negative number.
\<close>

definition server_instance_run ::
  "libm \<Rightarrow> 'a server_env \<Rightarrow> (8 word list \<Rightarrow> 8 word list \<Rightarrow> bool) \<Rightarrow> 64 word \<Rightarrow> 64 word \<Rightarrow> 'a round_input list \<Rightarrow>
   server_instance \<Rightarrow> (int \<times> 'a instance_state) option" where
  "server_instance_run L E bind_ok sim_now net_now ris inst =
     (if length (in_port inst) > 6 \<or> atoi (in_port inst) smod 5 < 0 then None
      else if \<not> bind_ok (in_ip inst) (in_port inst) then Some (-1, server_instance_init)
      else (case (tick_cfg sim_now (uint (ss_sim_tick_rate (in_settings inst))),
                  tick_cfg net_now (uint (ss_net_tick_rate (in_settings inst)))) of
          (Some sim, Some net) \<Rightarrow>
            map_option (\<lambda>s. (0, s)) (instance_loop L E (in_settings inst) ris [] sim net server_instance_init)
        | _ \<Rightarrow> None))"

section \<open>The server\<close>

text \<open>The result of each thread is dropped.\<close>

fun join_instances ::
  "(server_instance \<Rightarrow> (int \<times> 'a instance_state) option) \<Rightarrow> int list \<Rightarrow> (16 word, server_instance) bmap \<Rightarrow>
   'a instance_state list option" where
  "join_instances run [] m = Some []"
| "join_instances run (i # is) m =
     (case run (bm_kvs_get_value m i) of None \<Rightarrow> None
      | Some (r, s) \<Rightarrow> map_option (\<lambda>ss. s # ss) (join_instances run is m))"

text \<open>
  The result of the thread, the text that is written to the configuration file, and what the
  instances leave. The port of the instance has room for five characters.
\<close>

definition server_run ::
  "libm \<Rightarrow> 'a server_env \<Rightarrow> (16 word, server_instance) bmap_env \<Rightarrow> (8 word list \<Rightarrow> 8 word list \<Rightarrow> bool) \<Rightarrow> bool \<Rightarrow>
   (8 word list \<Rightarrow> 8 word list option) \<Rightarrow> (8 word list \<Rightarrow> bool) \<Rightarrow> 64 word \<Rightarrow> 64 word \<Rightarrow> 'a round_input list \<Rightarrow> args \<Rightarrow>
   (int \<times> 8 word list option \<times> 'a instance_state list) option" where
  "server_run L E B bind_ok thread_ok file writable sim_now net_now ris a =
     (case server_settings_load_or_set_defaults file (ar_config_file a) of None \<Rightarrow> None
      | Some (r, settings) \<Rightarrow>
          if r < 0 then Some (-1, None, [])
          else
            let port = (if ar_port a \<noteq> [] then ar_port a else ss_port settings);
                key = word_of_int (atoi port)
            in (case bm_emplace_new B bm_init key of
                  Some (New, Some i, Some m) \<Rightarrow>
                    if length port > 5 then None
                    else
                      let m = bm_kvs_set_value m i \<lparr>in_settings = settings, in_ip = ar_ip a, in_port = port\<rparr>
                      in if \<not> thread_ok then Some (-1, None, [])
                         else map_option (\<lambda>ss. (0,
                             if ar_config_file a \<noteq> [] \<and> writable (ar_config_file a)
                             then Some (server_settings_save settings) else None, ss))
                           (join_instances (server_instance_run L E bind_ok sim_now net_now ris) [0..bm_cnt m - 1] m)
                | Some _ \<Rightarrow> Some (-1, None, [])
                | None \<Rightarrow> None))"

end
