(* ===== verification/ServerRun_Laws.thy ===== *)
theory ServerRun_Laws
  imports ServerRun Settings_Laws Net_Tables
begin

text \<open>
  The correctness statements about the server as a program: its settings survive a restart, and
  what the port of the command line may be.
\<close>

lemma loaded_usable:
  assumes "server_settings_load_or_set_defaults file path = Some (r, s)"
  shows "usable s"
  using assms usable_defaults
  by (auto simp: server_settings_load_or_set_defaults_def parse_ini_def bind_eq_Some_conv
      split: if_splits option.splits dest: usable_key_values)

lemma one_instance:
  assumes "bm_emplace_new B bm_init key = Some (New, Some i, Some m)"
  shows "i = 0 \<and> bm_cnt m = 1"
  using assms
  by (auto simp: bm_emplace_new_def bm_kvs_emplace_def bm_init_def bm_lower_bound_def bm_kvs_realloc_def Let_def
      split: option.splits if_splits prod.splits)

text \<open>The slot of the instance holds what was stored in it.\<close>

lemma one_instance_value:
  assumes "bm_emplace_new B bm_init key = Some (New, Some i, Some m)" "be_ok_inst B" "be_bits B = 16"
  shows "bm_kvs_get_value (bm_kvs_set_value m i inst) 0 = inst"
proof -
  have v: "0 < be_vsz B" "be_vsz B * 32 < 32768"
    using assms(2,3) by (simp_all add: be_ok_inst_def be_sizes_ok_def)
  then have "i16 (be_vsz B * 32) = be_vsz B * 32"
    by (simp add: i16_id)
  then have "i16 (be_vsz B * 32) div be_vsz B = 32"
    using v by simp
  then show ?thesis
    using assms(1,3)
    by (auto simp: bm_emplace_new_def bm_kvs_emplace_def bm_init_def bm_lower_bound_def bm_kvs_realloc_def Let_def
        bm_kvs_get_value_def bm_kvs_set_value_def memmove_def realloc_data_def
        split: option.splits if_splits prod.splits)
qed

text \<open>
  Claim C39. When the server ends without an error it has run one instance, with the settings
  of its file and at the port of the command line or else of the settings, which has at most five
  characters; both clocks of the instance could be set up; and what it has written to its file
  is read by the next start as the same settings. When it fails nothing is written.
\<close>

theorem config_survives:
  assumes "server_run L E B bind_ok thread_ok file writable sim_now net_now ris a = Some (r, written, ss)"
    and "be_ok_inst B" "be_bits B = 16"
  shows "if r \<noteq> 0 then r = -1 \<and> written = None \<and> ss = []
    else \<exists>settings port code s.
      server_settings_load_or_set_defaults file (ar_config_file a) = Some (0, settings) \<and>
      port = (if ar_port a \<noteq> [] then ar_port a else ss_port settings) \<and> length port \<le> 5 \<and> ss = [s] \<and>
      server_instance_run L E bind_ok sim_now net_now ris \<lparr>in_settings = settings, in_ip = ar_ip a, in_port = port\<rparr> =
        Some (code, s) \<and>
      (\<forall>now. tick_cfg now (uint (ss_sim_tick_rate settings)) \<noteq> None \<and> tick_cfg now (uint (ss_net_tick_rate settings)) \<noteq> None) \<and>
      (\<forall>text file'. written = Some text \<and> file' (ar_config_file a) = Some text \<longrightarrow>
        server_settings_load_or_set_defaults file' (ar_config_file a) = Some (0, settings))"
proof (cases "r = 0")
  case False
  then show ?thesis
    using assms(1) by (auto simp: server_run_def Let_def split: option.splits if_splits ins_status.splits)
next
  case True
  obtain r0 settings where l: "server_settings_load_or_set_defaults file (ar_config_file a) = Some (r0, settings)" "0 \<le> r0"
    using assms(1) True by (auto simp: server_run_def split: option.splits if_splits)
  have r0: "r0 = 0"
    using l by (auto simp: server_settings_load_or_set_defaults_def split: if_splits option.splits)
  define port where "port = (if ar_port a \<noteq> [] then ar_port a else ss_port settings)"
  define inst where "inst = \<lparr>in_settings = settings, in_ip = ar_ip a, in_port = port\<rparr>"
  have run: "server_run L E B bind_ok thread_ok file writable sim_now net_now ris a =
      (case bm_emplace_new B bm_init (word_of_int (atoi port)) of
         Some (New, Some i, Some m) \<Rightarrow>
           if length port > 5 then None
           else if \<not> thread_ok then Some (-1, None, [])
           else map_option (\<lambda>ss. (0, if ar_config_file a \<noteq> [] \<and> writable (ar_config_file a)
               then Some (server_settings_save settings) else None, ss))
             (join_instances (server_instance_run L E bind_ok sim_now net_now ris)
               [0..bm_cnt (bm_kvs_set_value m i inst) - 1] (bm_kvs_set_value m i inst))
       | Some _ \<Rightarrow> Some (-1, None, []) | None \<Rightarrow> None)"
    unfolding server_run_def l(1) r0 Let_def inst_def port_def by (simp only: option.case prod.case less_irrefl if_False)
  obtain i m where m: "bm_emplace_new B bm_init (word_of_int (atoi port)) = Some (New, Some i, Some m)" "length port \<le> 5"
    using assms(1) True unfolding run by (auto split: option.splits if_splits ins_status.splits)
  have "map_option (\<lambda>ss. (0::int, if ar_config_file a \<noteq> [] \<and> writable (ar_config_file a)
        then Some (server_settings_save settings) else None, ss))
      (join_instances (server_instance_run L E bind_ok sim_now net_now ris) [0..bm_cnt (bm_kvs_set_value m i inst) - 1]
        (bm_kvs_set_value m i inst)) = Some (r, written, ss)"
    using assms(1) True m unfolding run by (simp split: if_splits)
  moreover have "[0..bm_cnt (bm_kvs_set_value m i inst) - 1] = [0]"
    using one_instance [OF m(1)] by (simp add: bm_kvs_set_value_def)
  ultimately have j: "map_option (\<lambda>ss. (0::int, if ar_config_file a \<noteq> [] \<and> writable (ar_config_file a)
        then Some (server_settings_save settings) else None, ss))
      (join_instances (server_instance_run L E bind_ok sim_now net_now ris) [0] (bm_kvs_set_value m i inst)) = Some (r, written, ss)"
    by simp
  then obtain code s where s: "server_instance_run L E bind_ok sim_now net_now ris inst = Some (code, s)" "ss = [s]"
    by (auto simp: one_instance_value [OF m(1) assms(2,3)] split: option.splits)
  have u: "settings_ok settings" "port_ok settings"
    using loaded_usable [OF l(1)] by (simp_all add: usable_def)
  have w: "written = Some t \<Longrightarrow> ar_config_file a \<noteq> [] \<and> t = server_settings_save settings" for t
    using j by (auto split: if_splits)
  have "uint (ss_sim_tick_rate settings) \<noteq> 0" "uint (ss_net_tick_rate settings) \<noteq> 0"
    using u(1) by (auto simp: settings_ok_def uint_0_iff)
  then show ?thesis
    using True l(1) r0 m(2) s u w saved_values [OF u]
    by (auto simp: port_def [symmetric] inst_def tick_cfg_def server_settings_load_or_set_defaults_def [of _ "ar_config_file a"]
        intro!: exI [of _ settings])
qed

definition demo_instances :: "(16 word, server_instance) bmap_env" where
  "demo_instances = \<lparr>be_bits = 16, be_hdr = 8, be_vsz = 32, be_ok = True, be_kok = True, be_uk = (\<lambda>_. 0),
     be_uv = (\<lambda>_. \<lparr>in_settings = server_settings_set_defaults, in_ip = [], in_port = []\<rparr>)\<rparr>"

lemma demo_server_runs:
  "server_run demo_libm demo_server_env demo_instances (\<lambda>_ _. True) True (\<lambda>_. None) (\<lambda>_. True) 0 0 [] args_defaults =
     Some (0, Some (server_settings_save server_settings_set_defaults), [server_instance_init])"
proof -
  define inst where "inst = \<lparr>in_settings = server_settings_set_defaults, in_ip = [], in_port = bytes ''5555''\<rparr>"
  have port: "ss_port server_settings_set_defaults = bytes ''5555''"
    by (simp add: server_settings_set_defaults_def NET_DEFAULT_PORT_def bytes_def)
  have a: "atoi (bytes ''5555'') = 5555"
    by (simp add: atoi_def bytes_def isspace_def isdigit_def digits_value_def i32_id)
  obtain m where m: "bm_emplace_new demo_instances bm_init (5555 :: 16 word) = Some (New, Some 0, Some m)"
    by (simp add: bm_emplace_new_def bm_kvs_emplace_def bm_init_def bm_lower_bound_def bm_kvs_realloc_def demo_instances_def
        bm_key_at_def Let_def i16_id)
  have "[0..bm_cnt (bm_kvs_set_value m 0 inst) - 1] = [0]"
    using one_instance [OF m] by (simp add: bm_kvs_set_value_def)
  moreover have "bm_kvs_get_value (bm_kvs_set_value m 0 inst) 0 = inst"
    by (rule one_instance_value [OF m]) (simp_all add: be_ok_inst_def be_sizes_ok_def demo_instances_def)
  moreover have "server_instance_run demo_libm demo_server_env (\<lambda>_ _. True) 0 0 [] inst = Some (0, server_instance_init)"
    using a by (simp add: server_instance_run_def inst_def server_settings_set_defaults_def tick_cfg_def bytes_def)
  ultimately show ?thesis
    using m port a
    by (simp add: server_run_def server_settings_load_or_set_defaults_def args_defaults_def inst_def [symmetric] Let_def)
      (simp add: bytes_def)
qed

theorem config_survives_witness:
  "\<exists>text. server_run demo_libm demo_server_env demo_instances (\<lambda>_ _. True) True (\<lambda>_. None) (\<lambda>_. True) 0 0 [] args_defaults =
      Some (0, Some text, [server_instance_init]) \<and>
    server_settings_load_or_set_defaults (\<lambda>_. Some text) (bytes ''config.ini'') = Some (0, server_settings_set_defaults)"
proof -
  have c: "bytes ''config.ini'' \<noteq> []" "ar_config_file args_defaults = bytes ''config.ini''"
    by (simp_all add: bytes_def args_defaults_def)
  have "server_settings_load_or_set_defaults (\<lambda>_. None) (bytes ''config.ini'') = Some (0, server_settings_set_defaults)"
    using c(1) by (simp add: server_settings_load_or_set_defaults_def)
  then have "server_settings_load_or_set_defaults (\<lambda>_. Some (server_settings_save server_settings_set_defaults))
      (bytes ''config.ini'') = Some (0, server_settings_set_defaults)"
    using config_survives [OF demo_server_runs] by (auto simp: be_ok_inst_def be_sizes_ok_def demo_instances_def c(2))
  with demo_server_runs show ?thesis
    by blast
qed

end
