(* ===== verification/Excerpt.thy ===== *)
theory Excerpt
  imports Strlist Settings
begin

text \<open>
  How the parsers show a part of their source in a diagnostic (\<open>log_vflc\<close> and \<open>log_excerpt\<close> of
  src/log.c). The source is the list of its bytes, which ends in a terminator; what is printed is
  a list of characters and of the codes that change the style. \<open>None\<close> is reading behind the
  terminator or a loop that runs past it: a span that is not inside of the source. Columns
  and lines are counted from 1 and stay in the range of an \<open>int\<close>.
\<close>

datatype printed = Char "8 word" | Underline_style | Reset_style | Emph_style | Error_style

definition print_text :: "8 word list \<Rightarrow> printed list" where
  "print_text s = map Char s"

definition span_inside :: "8 word list \<Rightarrow> strspan \<Rightarrow> bool" where
  "span_inside source loc \<longleftrightarrow> 0 \<le> sp_off loc \<and> 0 \<le> sp_len loc \<and> sp_off loc + sp_len loc \<le> int (length source)"

text \<open>Line and column after one more character.\<close>

definition next_position :: "int \<times> int \<Rightarrow> 8 word \<Rightarrow> int \<times> int" where
  "next_position pos c = (if c = 10 then (fst pos + 1, 1) else (fst pos, snd pos + 1))"

text \<open>The file, the position and the word in front of a message.\<close>

definition log_vflc :: "8 word list \<Rightarrow> 8 word list \<Rightarrow> strspan \<Rightarrow> 8 word list \<Rightarrow> printed list option" where
  "log_vflc filename source loc msg =
     (if \<not> span_inside source loc then None
      else
        let (l1, c1) = foldl next_position (1, 1) (take (nat (sp_off loc)) source)
        in Some ([Emph_style] @ print_text (filename @ [58] @ decimal (nat l1) @ [58] @ decimal (nat c1) @ [58]) @
             [Reset_style, Char 32, Error_style] @ print_text (bytes ''error:'') @ [Reset_style, Char 32] @ print_text msg))"

section \<open>The excerpt\<close>

text \<open>Where the line of the span begins: behind the last line feed.\<close>

definition block_off :: "8 word list \<Rightarrow> nat \<Rightarrow> nat" where
  "block_off source off = foldl (\<lambda>b i. if source ! i = 10 then i + 1 else b) 0 [0..<off]"

text \<open>The smallest indentation of the lines of the block.\<close>

definition blank :: "8 word \<Rightarrow> bool" where
  "blank c \<longleftrightarrow> c = 32 \<or> c = 9"

definition after_line :: "8 word list \<Rightarrow> 8 word list" where
  "after_line s = drop 1 (dropWhile (\<lambda>c. c \<noteq> 10) s)"

lemma after_line_shorter: "length (after_line s) \<le> length s - 1"
  using length_dropWhile_le [of "\<lambda>c. c \<noteq> 10" s] by (simp add: after_line_def diff_le_mono)

function min_indent :: "8 word list \<Rightarrow> int \<Rightarrow> int" where
  "min_indent [] max_indent = max_indent"
| "min_indent (c # s) max_indent =
     (let indent = int (length (takeWhile blank (c # s)))
      in min_indent (after_line (dropWhile blank (c # s))) (if max_indent > indent then indent else max_indent))"
  by pat_completeness auto
termination
proof (relation "measure (\<lambda>(s, m). length s)")
  fix c :: "8 word" and s :: "8 word list" and m indent :: int
  have "length (after_line (dropWhile blank (c # s))) < length (c # s)"
    using after_line_shorter [of "dropWhile blank (c # s)"] length_dropWhile_le [of blank "c # s"]
    by (simp del: dropWhile.simps)
  then show "((after_line (dropWhile blank (c # s)), if indent < m then indent else m), c # s, m)
      \<in> measure (\<lambda>(s, m). length s)"
    by simp
qed simp

text \<open>
  One line of the block from index \<open>i\<close> on: what is printed, the index behind it and the rest. The
  span is from \<open>first\<close> up to \<open>beyond\<close>.
\<close>

fun print_line ::
  "int \<Rightarrow> int \<Rightarrow> int \<Rightarrow> int \<Rightarrow> int \<Rightarrow> 8 word list \<Rightarrow> printed list \<times> int \<times> 8 word list" where
  "print_line first beyond max_indent i indent [] = ([], i, [])"
| "print_line first beyond max_indent i indent (c # s) =
     (let here = (if i = first then [Underline_style] else []) @ (if i = beyond then [Reset_style] else []) @
            (if indent \<ge> max_indent then [Char c] else [])
      in if c = 10 then (here @ (if i + 1 \<ge> first \<and> i + 1 \<le> beyond then [Reset_style] else []), i + 1, s)
         else (case print_line first beyond max_indent (i + 1) (indent + 1) s of (out, i, s) \<Rightarrow> (here @ out, i, s)))"

lemma print_line_shorter:
  "print_line first beyond max_indent i indent s = (out, i', s') \<Longrightarrow> length s' \<le> length s - 1"
proof (induction s arbitrary: i indent out i' s')
  case (Cons c s)
  obtain out1 i1 s1 where r: "print_line first beyond max_indent (i + 1) (indent + 1) s = (out1, i1, s1)"
    by (metis prod_cases3)
  then show ?case
    using Cons.prems Cons.IH [OF r] by (cases "c = 10") (auto simp: Let_def)
qed simp

definition print_number :: "int \<Rightarrow> int \<Rightarrow> 8 word list" where
  "print_number width line =
     replicate (nat width - length (decimal (nat line))) 32 @ decimal (nat line)"

function print_block :: "int \<Rightarrow> int \<Rightarrow> int \<Rightarrow> int \<Rightarrow> int \<Rightarrow> int \<Rightarrow> 8 word list \<Rightarrow> printed list" where
  "print_block first beyond max_indent gutter_indent line i [] = []"
| "print_block first beyond max_indent gutter_indent line i (c # s) =
     (case print_line first beyond max_indent i 0 (c # s) of (out, i', s') \<Rightarrow>
        print_text (print_number (gutter_indent - 1) line @ bytes '' | '') @
        (if i \<ge> first \<and> i \<le> beyond then [Underline_style] else []) @ out @
        print_block first beyond max_indent gutter_indent (line + 1) i' s')"
  by pat_completeness auto
termination
  by (relation "measure (\<lambda>(a, b, c, d, e, f, s). length s)")
    (auto dest!: print_line_shorter [OF sym] simp del: print_line.simps)

text \<open>The length of the longest line, counted like a column.\<close>

definition longest_line :: "8 word list \<Rightarrow> int" where
  "longest_line s = snd (foldl (\<lambda>(col, max_col) c.
     (if c = 10 then 1 else col + 1, if max_col < col then col else max_col)) (1, 1) s)"

definition log_excerpt :: "8 word list \<Rightarrow> strspan \<Rightarrow> printed list option" where
  "log_excerpt source loc =
     (if \<not> span_inside source loc then None
      else
        let off = nat (sp_off loc); len = nat (sp_len loc);
            (l1, c1) = foldl next_position (1, 1) (take off source);
            b = block_off source off;
            (l2, c2) = foldl next_position (l1, c1) (take len (drop off source));
            block_len = off - b + len + length (takeWhile (\<lambda>c. c \<noteq> 10) (drop (off + len) source));
            block = take block_len (drop b source);
            max_indent = min_indent block 10000;
            c1 = c1 - max_indent;
            c2 = c2 - max_indent;
            gutter_indent = int (length (decimal (nat l2))) + 2;
            gutter = replicate (nat gutter_indent) 32
        in Some (print_block (int (off - b)) (int (off - b + len)) max_indent gutter_indent l1 0 block @
             [Reset_style, Char 10] @
             (if c2 > c1 then
                print_text (gutter @ [124] @ replicate (nat \<bar>c1\<bar>) 32) @
                [Underline_style, Char 94] @ print_text (replicate (nat (c2 - (c1 + 1))) 126) @ [Reset_style]
              else
                let max_col = longest_line block - max_indent;
                    i = (if c2 > 1 then c2 else 1)
                in print_text (gutter @ bytes ''| '') @ [Underline_style] @
                   print_text (replicate (nat (c2 - 1)) 126 @ replicate (nat (c1 - i)) 32 @ [94] @
                     replicate (nat (max_col - (c1 + 1))) 126) @ [Reset_style]) @
             [Char 10]))"

section \<open>What is shown of a span in one line\<close>

fun printed_chars :: "printed list \<Rightarrow> 8 word list" where
  "printed_chars [] = []"
| "printed_chars (Char c # out) = c # printed_chars out"
| "printed_chars (_ # out) = printed_chars out"

lemma printed_chars_append [simp]: "printed_chars (a @ b) = printed_chars a @ printed_chars b"
  by (induction a rule: printed_chars.induct) auto

lemma printed_chars_text [simp]: "printed_chars (print_text s) = s"
  by (induction s) (simp_all add: print_text_def)

lemma block_off_spec:
  assumes "off \<le> length source"
  shows "block_off source off \<le> off \<and> 10 \<notin> set (drop (block_off source off) (take off source)) \<and>
    (block_off source off = 0 \<or> source ! (block_off source off - 1) = 10) \<and>
    snd (foldl next_position (1, 1) (take off source)) = 1 + int (off - block_off source off)"
  using assms
proof (induction off)
  case (Suc off)
  have t: "take (Suc off) source = take off source @ [source ! off]"
    using Suc.prems by (intro take_Suc_conv_app_nth) simp
  have b: "block_off source (Suc off) = (if source ! off = 10 then off + 1 else block_off source off)"
    by (simp add: block_off_def)
  show ?case
    using Suc unfolding t b by (auto simp: next_position_def of_nat_diff)
qed (simp add: block_off_def)

lemma position_in_line: "10 \<notin> set s \<Longrightarrow> foldl next_position pos s = (fst pos, snd pos + int (length s))"
  by (induction s arbitrary: pos) (auto simp: next_position_def)

lemma min_indent_line:
  assumes "10 \<notin> set s" "s \<noteq> []"
  shows "min_indent s m = (if m > int (length (takeWhile blank s)) then int (length (takeWhile blank s)) else m)"
proof -
  have "\<forall>c \<in> set (dropWhile blank s). c \<noteq> 10"
    using assms(1) set_dropWhileD by metis
  then have d: "dropWhile (\<lambda>c. c \<noteq> 10) (dropWhile blank s) = []"
    by simp
  have "after_line (dropWhile blank s) = []"
    unfolding after_line_def d by simp
  then show ?thesis
    using assms(2) by (cases s) (simp_all add: Let_def del: dropWhile.simps takeWhile.simps)
qed

lemma print_line_in_line:
  "10 \<notin> set s \<Longrightarrow> print_line first beyond max_indent i indent s = (out, i', s') \<Longrightarrow>
    s' = [] \<and> printed_chars out = drop (nat (max_indent - indent)) s"
proof (induction s arbitrary: i indent out i' s')
  case (Cons c s)
  obtain out1 i1 s1 where r: "print_line first beyond max_indent (i + 1) (indent + 1) s = (out1, i1, s1)"
    by (metis prod_cases3)
  have "nat (max_indent - indent) = Suc (nat (max_indent - (indent + 1)))" if "\<not> max_indent \<le> indent"
    using that by simp
  then show ?case
    using Cons.prems Cons.IH [OF _ r] r by (auto simp: Let_def)
qed simp

lemma print_block_in_line:
  assumes "10 \<notin> set s" "s \<noteq> []"
  shows "printed_chars (print_block first beyond max_indent gutter line i s) =
    print_number (gutter - 1) line @ bytes '' | '' @ drop (nat max_indent) s"
proof -
  obtain out i' s' where r: "print_line first beyond max_indent i 0 s = (out, i', s')"
    by (metis prod_cases3)
  note l = print_line_in_line [OF assms(1) r]
  show ?thesis
    using assms(2) r l by (cases s) (simp_all del: print_line.simps)
qed

lemma length_print_number:
  "length (decimal (nat line)) \<le> nat width \<Longrightarrow> length (print_number width line) = nat width"
  by (simp add: print_number_def)

text \<open>
  Claim C40. The excerpt that the parsers print for a span inside of one line shows that line,
  without a part of its indentation, and marks the span: the caret is exactly below the first
  character of the span, and with the tildes behind it the mark is as long as the span.
\<close>

theorem excerpt_marks_span:
  assumes "span_inside source loc" "0 < sp_len loc"
    and "10 \<notin> set (take (nat (sp_len loc)) (drop (nat (sp_off loc)) source))"
  shows "\<exists>out before line after k margin under.
    log_excerpt source loc = Some out \<and> source = before @ line @ after \<and>
    (before = [] \<or> last before = 10) \<and> 10 \<notin> set line \<and> (after = [] \<or> hd after = 10) \<and>
    length before \<le> nat (sp_off loc) \<and> nat (sp_off loc) + nat (sp_len loc) \<le> length before + length line \<and>
    k \<le> length (takeWhile blank line) \<and>
    printed_chars out = margin @ drop k line @ [10] @ under @ [94] @ replicate (nat (sp_len loc) - 1) 126 @ [10] \<and>
    (length before + k \<le> nat (sp_off loc) \<longrightarrow>
      length under = length margin + (nat (sp_off loc) - length before - k))"
proof -
  define off len where "off = nat (sp_off loc)" and "len = nat (sp_len loc)"
  have inside: "off + len \<le> length source" "0 < len"
    using assms(1,2) by (auto simp: span_inside_def off_def len_def)
  define b where "b = block_off source off"
  have off: "off \<le> length source"
    using inside by simp
  note bo = block_off_spec [OF off, folded b_def]
  define tail where "tail = takeWhile (\<lambda>c. c \<noteq> 10) (drop (off + len) source)"
  define block where "block = take (off - b + len + length tail) (drop b source)"
  obtain l1 where p1: "foldl next_position (1, 1) (take off source) = (l1, 1 + int (off - b))"
    using bo by (metis prod.collapse)
  have p2: "foldl next_position (l1, 1 + int (off - b)) (take len (drop off source)) = (l1, 1 + int (off - b) + int len)"
    using position_in_line [OF assms(3) [folded off_def len_def], of "(l1, 1 + int (off - b))"] inside(1) by simp
  have d: "drop b (take off source) @ take len (drop off source) @ tail = block"
  proof -
    have "block = take ((off - b) + (len + length tail)) (drop b source)"
      by (simp add: block_def add.assoc)
    also have "\<dots> = take (off - b) (drop b source) @ take len (drop off source) @ take (length tail) (drop (off + len) source)"
      using bo by (simp only: take_add drop_drop) (simp add: add.commute)
    finally have "block = take (off - b) (drop b source) @ take len (drop off source) @ take (length tail) (drop (off + len) source)" .
    moreover have "take (length tail) (drop (off + len) source) = tail"
      unfolding tail_def by (metis append_eq_conv_conj takeWhile_dropWhile_id)
    ultimately show ?thesis
      by (simp add: drop_take)
  qed
  have nl: "10 \<notin> set block" "block \<noteq> []"
  proof -
    have "10 \<notin> set tail"
      unfolding tail_def by (auto dest: set_takeWhileD)
    then show "10 \<notin> set block"
      using bo assms(3) [folded off_def len_def] d by (metis Un_iff set_append)
    show "block \<noteq> []"
      using inside by (simp add: d [symmetric])
  qed
  define m where "m = min_indent block 10000"
  have m: "0 \<le> m" "m \<le> int (length (takeWhile blank block))"
    using min_indent_line [OF nl] by (simp_all add: m_def)
  define g where "g = int (length (decimal (nat l1))) + 2"
  define c1 where "c1 = 1 + int (off - b) - m"
  define out where "out = print_block (int (off - b)) (int (off - b + len)) m g l1 0 block @ [Reset_style, Char 10] @
    print_text (replicate (nat g) 32 @ [124] @ replicate (nat \<bar>c1\<bar>) 32) @ [Underline_style, Char 94] @
    print_text (replicate (len - 1) 126) @ [Reset_style] @ [Char 10]"
  have "nat (1 + int (off - b) + int len - m - (c1 + 1)) = len - 1" "c1 < 1 + int (off - b) + int len - m"
    using inside(2) by (simp_all add: c1_def)
  then have f1: "log_excerpt source loc = Some out"
    using assms(1)
    unfolding log_excerpt_def Let_def off_def [symmetric] len_def [symmetric] b_def [symmetric] p1 prod.case p2
      tail_def [symmetric] block_def [symmetric] m_def [symmetric] g_def [symmetric] c1_def [symmetric] out_def
    by simp
  define margin where "margin = print_number (g - 1) l1 @ bytes '' | ''"
  define under where "under = replicate (nat g) (32 :: 8 word) @ [124] @ replicate (nat \<bar>c1\<bar>) 32"
  have f2: "printed_chars out = margin @ drop (nat m) block @ [10] @ under @ [94] @ replicate (len - 1) 126 @ [10]"
    using nl by (simp add: out_def print_block_in_line margin_def under_def)
  have "length margin = nat g + 2"
    by (simp add: length_print_number g_def bytes_def margin_def)
  moreover have "length under = nat g + 2 + (off - b - nat m)" if "b + nat m \<le> off"
  proof -
    have "nat \<bar>c1\<bar> = Suc (off - b - nat m)"
      using that m(1) bo by (simp add: c1_def)
    then show ?thesis
      by (simp add: under_def)
  qed
  ultimately have f3: "b + nat m \<le> off \<longrightarrow> length under = length margin + (off - b - nat m)"
    by simp
  define before where "before = take b source"
  define after where "after = dropWhile (\<lambda>c. c \<noteq> 10) (drop (off + len) source)"
  have before: "length before = b" "before = [] \<or> last before = 10"
  proof -
    show l: "length before = b"
      using bo off by (simp add: before_def)
    show "before = [] \<or> last before = 10"
    proof (cases "b = 0")
      case False
      then have "before \<noteq> []"
        using l by auto
      then show ?thesis
        using l bo False by (simp add: last_conv_nth) (simp add: before_def)
    qed (simp add: before_def)
  qed
  have f4: "source = before @ block @ after"
  proof -
    have "after = drop (length tail) (drop (off + len) source)"
      unfolding tail_def after_def by (rule dropWhile_eq_drop)
    moreover have "drop (off - b + len + length tail) (drop b source) = drop (length tail) (drop (off + len) source)"
      using bo by (simp add: add.commute add.left_commute)
    ultimately show ?thesis
      unfolding block_def before_def by (metis append_take_drop_id)
  qed
  have f5: "after = [] \<or> hd after = 10"
    using hd_dropWhile [of "\<lambda>c. c \<noteq> 10" "drop (off + len) source"] unfolding after_def by blast
  have "length (take off source) = off" "length (take len (drop off source)) = len"
    using off inside by simp_all
  then have f6: "off + len \<le> b + length block"
    using bo unfolding d [symmetric] length_append length_drop by linarith
  have f7: "nat m \<le> length (takeWhile blank block)"
    using m by simp
  show ?thesis
    unfolding off_def [symmetric] len_def [symmetric]
    by (rule exI [of _ out], rule exI [of _ before], rule exI [of _ block], rule exI [of _ after], rule exI [of _ "nat m"],
        rule exI [of _ margin], rule exI [of _ under], unfold before(1))
      (use f1 f2 f3 f4 f5 f6 f7 before(2) nl(1) bo in blast)
qed

text \<open>The word behind the equals sign of the second line.\<close>

definition demo_source :: "8 word list" where
  "demo_source = bytes ''a = 1'' @ [10] @ bytes ''  b = xy z'' @ [10]"

lemma demo_excerpt:
  "map_option printed_chars (log_excerpt demo_source \<lparr>sp_off = 12, sp_len = 2\<rparr>) =
     Some (bytes '' 2 | b = xy z'' @ [10] @ bytes ''   |     ^~'' @ [10])"
proof -
  have "span_inside demo_source \<lparr>sp_off = 12, sp_len = 2\<rparr>"
      "foldl next_position (1, 1) (take 12 demo_source) = (2, 7)"
      "foldl next_position (2, 7) (take 2 (drop 12 demo_source)) = (2, 9)"
      "block_off demo_source 12 = 6" "takeWhile (\<lambda>c. c \<noteq> 10) (drop 14 demo_source) = bytes '' z''"
      "take 10 (drop 6 demo_source) = bytes ''  b = xy z''" "min_indent (bytes ''  b = xy z'') 10000 = 2"
      "decimal 2 = [50]" "length (bytes '' z'') = 2"
      "replicate 3 (32 :: 8 word) = [32, 32, 32]" "replicate 5 (32 :: 8 word) = [32, 32, 32, 32, 32]"
      "printed_chars (print_block 6 8 2 3 2 0 (bytes ''  b = xy z'')) = bytes '' 2 | b = xy z''"
    by code_simp+
  then show ?thesis
    by (simp add: log_excerpt_def) (simp add: bytes_def)
qed

theorem excerpt_marks_span_witness:
  "\<exists>out before line after k margin under.
    log_excerpt demo_source \<lparr>sp_off = 12, sp_len = 2\<rparr> = Some out \<and>
    printed_chars out = bytes '' 2 | b = xy z'' @ [10] @ bytes ''   |     ^~'' @ [10] \<and>
    demo_source = before @ line @ after \<and> printed_chars out = margin @ drop k line @ [10] @ under @ [94, 126, 10]"
proof -
  have "span_inside demo_source \<lparr>sp_off = 12, sp_len = 2\<rparr>" "10 \<notin> set (take 2 (drop 12 demo_source))"
    by code_simp+
  then have c: "span_inside demo_source \<lparr>sp_off = 12, sp_len = 2\<rparr>" "0 < sp_len \<lparr>sp_off = 12, sp_len = 2\<rparr>"
      "10 \<notin> set (take (nat (sp_len \<lparr>sp_off = 12, sp_len = 2\<rparr>)) (drop (nat (sp_off \<lparr>sp_off = 12, sp_len = 2\<rparr>)) demo_source))"
    by simp_all
  obtain out before line after k margin under where
    o: "log_excerpt demo_source \<lparr>sp_off = 12, sp_len = 2\<rparr> = Some out" "demo_source = before @ line @ after"
    "printed_chars out = margin @ drop k line @ [10] @ under @ [94] @ replicate (nat (sp_len \<lparr>sp_off = 12, sp_len = 2\<rparr>) - 1) 126 @ [10]"
    using excerpt_marks_span [OF c] by blast
  have "log_excerpt demo_source \<lparr>sp_off = 12, sp_len = 2\<rparr> = Some out" "demo_source = before @ line @ after"
    "printed_chars out = margin @ drop k line @ [10] @ under @ [94, 126, 10]"
    using o by simp_all
  moreover from this(1) have "printed_chars out = bytes '' 2 | b = xy z'' @ [10] @ bytes ''   |     ^~'' @ [10]"
    using demo_excerpt by simp
  ultimately show ?thesis
    by blast
qed

end
