(* ===== verification/MainProgram.thy ===== *)
theory MainProgram
  imports Args
begin

text \<open>
  The start of the program (src/main.c), as it is built by default. It is the list of the calls
  that \<open>main\<close> makes, in order, with the arguments that matter; what the parts return is an
  argument, and so are \<open>net_ok\<close> and \<open>thread_ok\<close>, whether the network and the thread of the
  server can be started. A thread is started and joined; what it does meanwhile is \<open>ServerRun\<close>.
\<close>

datatype main_call =
  Mem_init_threadlocal
| Mem_deinit_threadlocal
| Signals_install
| Signals_remove
| Log_file_open "8 word list"
| Log_file_close
| Log_net_open
| Log_net_close
| Net_init
| Net_deinit
| Tests_run
| Thread_start args
| Thread_join
| Client_run args

text \<open>What \<open>tests_run\<close>, \<open>client_run\<close> and the thread of the server return.\<close>

record main_results =
  mr_tests :: int
  mr_client :: int
  mr_server :: int

text \<open>A mode: the value to return and the calls.\<close>

definition run_mode :: "bool \<Rightarrow> main_results \<Rightarrow> args \<Rightarrow> int \<times> main_call list" where
  "run_mode thread_ok results a =
     (case ar_mode a of
        MODE_TESTS \<Rightarrow> (mr_tests results, [Tests_run])
      | MODE_HEADLESS \<Rightarrow>
          (if \<not> thread_ok then (-1, [Thread_start a]) else (mr_server results, [Thread_start a, Thread_join]))
      | MODE_CLIENT \<Rightarrow> (mr_client results, [Client_run a])
      | MODE_CLIENT_AND_SERVER \<Rightarrow>
          (if \<not> thread_ok then (-1, [Thread_start a])
           else (i32 (i32 (0 + mr_client results) + mr_server results),
             [Thread_start a, Client_run (a\<lparr>ar_ip := bytes ''localhost''\<rparr>), Thread_join])))"

definition main_program ::
  "int \<Rightarrow> bool \<Rightarrow> bool \<Rightarrow> main_results \<Rightarrow> 8 word list list \<Rightarrow> (int \<times> main_call list) option" where
  "main_program backends net_ok thread_ok results argv =
     (case args_parse backends argv of None \<Rightarrow> None
      | Some (r, a) \<Rightarrow>
          if r = 1 then Some (0, [Mem_init_threadlocal])
          else if r \<noteq> 0 then Some (-1, [Mem_init_threadlocal])
          else
            let start = [Mem_init_threadlocal, Signals_install] @
              (if ar_log_file a \<noteq> [] then [Log_file_open (ar_log_file a)] else []) @ [Log_net_open, Net_init]
            in if \<not> net_ok then Some (-1, start @ [Log_file_close, Signals_remove, Mem_deinit_threadlocal])
               else (case run_mode thread_ok results a of (retval, calls) \<Rightarrow>
                 Some (retval, start @ calls @
                   [Net_deinit, Log_net_close, Log_file_close, Signals_remove, Mem_deinit_threadlocal])))"

section \<open>What is open\<close>

datatype resource = Tracker | Signals | Log_file | Net_log | Network | Server_thread

text \<open>
  What a call opens or closes. Starting the network or a thread opens it only when it succeeds.
\<close>

fun open_after :: "bool \<Rightarrow> bool \<Rightarrow> resource set \<Rightarrow> main_call \<Rightarrow> resource set" where
  "open_after net_ok thread_ok X Mem_init_threadlocal = insert Tracker X"
| "open_after net_ok thread_ok X Mem_deinit_threadlocal = X - {Tracker}"
| "open_after net_ok thread_ok X Signals_install = insert Signals X"
| "open_after net_ok thread_ok X Signals_remove = X - {Signals}"
| "open_after net_ok thread_ok X (Log_file_open f) = insert Log_file X"
| "open_after net_ok thread_ok X Log_file_close = X - {Log_file}"
| "open_after net_ok thread_ok X Log_net_open = insert Net_log X"
| "open_after net_ok thread_ok X Log_net_close = X - {Net_log}"
| "open_after net_ok thread_ok X Net_init = (if net_ok then insert Network X else X)"
| "open_after net_ok thread_ok X Net_deinit = X - {Network}"
| "open_after net_ok thread_ok X (Thread_start a) = (if thread_ok then insert Server_thread X else X)"
| "open_after net_ok thread_ok X Thread_join = X - {Server_thread}"
| "open_after net_ok thread_ok X call = X"

definition left_open :: "bool \<Rightarrow> bool \<Rightarrow> main_call list \<Rightarrow> resource set" where
  "left_open net_ok thread_ok calls = foldl (open_after net_ok thread_ok) {} calls"

text \<open>
  With arguments that can be parsed and a network everything is closed at the end, whatever the mode and
  its outcome. Without a network the log of the network stays open, and with \<open>--help\<close> or bad
  arguments the memory tracker does.
\<close>

lemma main_leaves_open:
  assumes "main_program backends net_ok thread_ok results argv = Some (retval, calls)"
    and "args_parse backends argv = Some (r, a)"
  shows "left_open net_ok thread_ok calls = (if r \<noteq> 0 then {Tracker} else if net_ok then {} else {Net_log})"
  using assms
  by (auto simp: main_program_def run_mode_def left_open_def Let_def split: if_splits mode.splits)

lemma client_joins_own_server:
  assumes "main_program backends True True results argv = Some (retval, calls)"
    and "args_parse backends argv = Some (0, a)" "ar_mode a = MODE_CLIENT_AND_SERVER"
  shows "Thread_start a \<in> set calls \<and> Client_run (a\<lparr>ar_ip := bytes ''localhost''\<rparr>) \<in> set calls"
  using assms by (auto simp: main_program_def run_mode_def Let_def split: if_splits)

end
