(* ===== verification/Spec2Isabelle.thy ===== *)
theory Spec2Isabelle
  imports Container_Laws Protocol_Laws Snake_Laws Server_Laws Client_Laws Mem_Laws Settings_Laws ResourcePack_Laws Args Tick McdWifi Food Camera GfxSdl ClientRun_Queue Sockets ServerRun_Laws Excerpt MainProgram
begin

text \<open>
  A model of clither, an online snake game in C: an authoritative server, clients that predict
  their own snake and are corrected, and the containers and the protocol both are built on.

  \<^bold>\<open>The program.\<close> Every simulation tick a client turns its input into a command, queues it and steps
  its own snake with it. On every network tick it sends all commands that the server has not
  acknowledged, packed into messages of at most 255 bytes and datagrams of at most 508. The
  server keeps a table of clients by address and a world of snakes; it puts the commands into
  the queues of the snakes, steps each snake by the command that is due or by a predicted one,
  and answers with the heads of the snakes and with how far ahead the client is. A client that
  gets a head compares it with its own past: it drops the commands up to that frame and, if the
  prediction was wrong, takes the predicted points off its curve and simulates the commands
  that are left again.

  \<^bold>\<open>Where what is modelled.\<close> Each theory names its source file at its top; definitions have the
  names of the C functions, and records those of the structures, with a prefix per structure
  on the fields.
  \<^item> \<open>Prelude\<close>: machine integers, arrays, \<open>memmove\<close>, collections of hints. \<open>Contracts\<close>: the
    interfaces of containers as locales (growing sequences, queues, maps), which \<open>Vec\<close>, \<open>Rb\<close>,
    \<open>Bmap\<close>, \<open>Bset\<close> and \<open>Hm\<close> interpret on their own operations. \<open>Sorted_Arrays\<close>: what the two sorted
    containers share.
  \<^item> Containers (include/clither/*.h, macros that generate code per type): \<open>Vec\<close> (vec.h), \<open>Rb\<close>
    (rb.h), \<open>Bmap\<close> (bmap.h), \<open>Bset\<close> (bset.h), \<open>Hm\<close> (hm.h). Element types are type variables, the
    width of the indices is a parameter. \<open>Strview\<close>, \<open>Str\<close>, \<open>Strlist\<close>: the strings.
  \<^item> Numbers: \<open>Wrap\<close> (wrap.h), \<open>FixedPoint\<close> (q.h), \<open>Hash\<close> (hash.c and the address keys).
  \<^item> Protocol: \<open>Cmd\<close>, \<open>CmdQueue\<close>, \<open>Msg\<close>, \<open>MsgCommands\<close> (msg.c), \<open>Packet\<close> (the packing callbacks of
    server.c and client.c), \<open>Packet_Fit\<close> (what a datagram holds), \<open>Msg_Frames\<close> (its converse).
  \<^item> Snakes: \<open>Model_Types\<close>, \<open>SnakeParam\<close>, \<open>Bezier\<close>, \<open>Snake\<close>, \<open>World\<close>; the proofs about them are in
    \<open>Snake_Curve\<close>, \<open>Snake_Invariant\<close> and \<open>Snake_Ack\<close>.
  \<^item> Both sides: \<open>Server\<close>, \<open>ServerInstance\<close>, \<open>Client\<close>, with \<open>Server_Rules\<close>, \<open>Net_Tables\<close>,
    \<open>Server_Clients\<close> and \<open>Client_Rules\<close> for what their operations do.
  \<^item> Around them: \<open>Settings\<close> (server_settings.c), \<open>ResourcePack\<close> (resource_pack.c), \<open>Args\<close> (args.c),
    \<open>Tick\<close> (tick_posix.c), \<open>McdWifi\<close> (mcd_wifi.c, the simulated bad network), \<open>Mem\<close> (mem.c, the
    memory tracker of debug builds), \<open>Food\<close> (food_cluster.c),
    \<open>Camera\<close> (camera.c, input.c and the input of both backends), \<open>GfxSdl\<close> (the drawing of
    sdl/gfx_sdl.c), \<open>ClientRun\<close> (client_run of client.c: the client as a program),
    \<open>ServerRun\<close> (server_run and server_instance_run: the server as a program), \<open>Sockets\<close> (net_posix.c),
    \<open>MainProgram\<close> (main.c), \<open>Excerpt\<close> (the excerpts of log.c).
  The theories \<open>*_Laws\<close> state the properties, each followed by an instance on concrete values.

  \<^bold>\<open>How state and operations correspond.\<close> An unsigned integer of the code is a word of its
  width, a signed one is an \<open>int\<close> with the narrowing written out (\<open>i8\<close>, \<open>i16\<close>, \<open>i32\<close>). A pointer that
  may be \<open>NULL\<close> is an option; a pointer into a container is the key or index it was found
  under, and writing through it is an update of that cell, so that a client which was erased
  and is still used (\<open>sc_freed\<close>) is a state of the model. An operation takes the state and
  returns it. \<open>None\<close> as the result of an operation is always something that C leaves undefined
  or that does not return: a null pointer used, an index out of bounds, memory used after its
  release, a division by zero, a loop without end. Return codes are values. What fresh memory
  holds is a parameter (\<open>u\<close>, \<open>junk\<close>), and so is whether the allocator has memory, up to the
  containers; from \<open>Snake\<close> on it has, and only the widths of the indices limit growth. Doubles
  are reals, the functions of libm are a parameter (\<open>libm\<close>) with the bounds that the standard
  states (\<open>libm_ok\<close>, \<open>libm_sqrt_ok\<close>). The operating system is what it hands to the program: the
  datagrams that wait, what a send or a sleep returns, the readings of the clock, the contents
  of files; what is sent is recorded.

  \<^bold>\<open>What the lemmas show.\<close>
  \<^item> The containers implement sequences, queues, sets and maps for every index width, and report
    that they are full otherwise; the hash map does while it has an unused slot, and diverges
    without one, which the memory tracker runs into.
  \<^item> The command queue is a window of consecutive frames; the messages come back as they were
    sent; a whole queue of commands arrives at the server; parsing never reads past a payload.
  \<^item> The curve of a snake stays well formed under stepping, removing segments and rolling back,
    a roll back yields the authoritative head moved by the commands that are left, and the
    sampling loop of the curve terminates.
  \<^item> Joining works from the first datagram to the connected client; datagrams are whole messages
    within the limit; a message that is repeated is sent nine times; the main loop of
    the client keeps a snake for a connected client and its commands in a form that can be sent;
    a frame of the server keeps all curves.
  \<^item> Settings, resource packs and the command line are accepted only in a usable form; saved
    settings are read back; the tick timer does not drift; the simulated network is a delay line
    when it loses nothing.
  \<^item> The client closes every window it opens; circles are drawn within their buffer; the camera
    follows the head; what a player does becomes a command that the protocol can carry. The settings of a
    server survive its restart; no socket is lost.
  \<^item> Where the code fails, the failure is a theorem, or a case of one: the datagrams that crash a server or a
    client, the segment and the name that are one too long, tombstones, a diverging search.

  \<^bold>\<open>Bounds and fuel.\<close> There is no fuel in the model. Loops are structural or have a measure;
  the probing loop of the hash map is a \<open>partial_function (option)\<close> whose \<open>None\<close> is divergence, and the
  properties show when it returns. The sampling of a curve has a measure on the remaining
  distance. \<open>spin\<close> and the receiving loops recurse over the clock readings and the datagrams
  that there are.

  \<^bold>\<open>Not modelled.\<close> What the GLES2 backend draws (gles2/gfx_gles2.c, gfx.c) and the opening of
  windows: calls of graphics libraries that the state of the game does not depend on. The
  wrappers around the operating system (net_win32.c, net_em.c, the addresses as text in net_posix.c,
  fs_*.c, mfile_*.c, thread_*.c, mutex_*.c, signals_*.c, system_*.c, backtrace_*.c, utf8_*.c),
  whose effects are inputs and outputs. The output of the log (log.c) and the text of the help. The timers
  for Windows and the browser. command.c (a copy of cmd.c), quadtree.c and popcount.h, which
  nothing uses. Tests, benchmarks and third-party libraries.
\<close>

end
